(* ===== verification/Prelude.thy ===== *)
theory Prelude
  imports Main "HOL-Library.AList" "HOL-Library.Char_ord" "HOL-Library.List_Lexorder"
    "HOL-Library.Product_Lexorder" "HOL-Library.Multiset"
begin

text \<open>
  What every component of the development shares: raised exceptions as values and the
  sequencing of fallible steps, Python's insertion-ordered dictionaries as association
  lists, \<open>str.strip\<close>, and generic facts on sums over lists and on stable sorting.
\<close>

named_theorems res_simps \<open>computation rules of fallible steps\<close>
named_theorems dict_simps \<open>lookup after update, for insertion-ordered dictionaries\<close>

section \<open>Exceptions as values\<close>

text \<open>
  The exceptions the modelled code raises. A result is \<open>Inl e\<close> when the call raises \<open>e\<close>
  and \<open>Inr x\<close> when it returns \<open>x\<close>. \<open>Diverges\<close> stands for a call that does not return: a
  loop whose step is not positive.
\<close>

datatype exn =
    ValueError string
  | KeyError
  | IndexError
  | Diverges

type_synonym 'a res = "exn + 'a"

fun rbind :: "'a res \<Rightarrow> ('a \<Rightarrow> 'b res) \<Rightarrow> 'b res" where
  "rbind (Inl e) f = Inl e"
| "rbind (Inr x) f = f x"

text \<open>\<open>if cond: raise e\<close>.\<close>

definition raise_if :: "bool \<Rightarrow> exn \<Rightarrow> unit res" where
  "raise_if c e = (if c then Inl e else Inr ())"

fun rmap :: "('a \<Rightarrow> 'b res) \<Rightarrow> 'a list \<Rightarrow> 'b list res" where
  "rmap f [] = Inr []"
| "rmap f (x # xs) = rbind (f x) (\<lambda>y. rbind (rmap f xs) (\<lambda>ys. Inr (y # ys)))"

fun rfold :: "('a \<Rightarrow> 's \<Rightarrow> 's res) \<Rightarrow> 'a list \<Rightarrow> 's \<Rightarrow> 's res" where
  "rfold f [] s = Inr s"
| "rfold f (x # xs) s = rbind (f x s) (rfold f xs)"

lemma rbind_Inr_iff [res_simps]: "rbind m f = Inr y \<longleftrightarrow> (\<exists>x. m = Inr x \<and> f x = Inr y)"
  by (cases m) auto

lemma rbind_Inl_iff: "rbind m f = Inl e \<longleftrightarrow> m = Inl e \<or> (\<exists>x. m = Inr x \<and> f x = Inl e)"
  by (cases m) auto

lemma rbind_cong [fundef_cong]:
  "m = m' \<Longrightarrow> (\<And>x. m' = Inr x \<Longrightarrow> f x = g x) \<Longrightarrow> rbind m f = rbind m' g"
  by (cases m') auto

lemma raise_if_Inr_iff [res_simps]: "raise_if c e = Inr u \<longleftrightarrow> \<not> c"
  by (simp add: raise_if_def)

lemma raise_if_Inl_iff [res_simps]: "raise_if c e = Inl e' \<longleftrightarrow> c \<and> e' = e"
  by (auto simp: raise_if_def)

lemma raise_if_simps [simp]:
  "raise_if True e = Inl e"
  "raise_if False e = Inr ()"
  by (simp_all add: raise_if_def)

lemma rmap_Inr_length: "rmap f xs = Inr ys \<Longrightarrow> length ys = length xs"
  by (induction xs arbitrary: ys) (auto simp: res_simps)

lemma rmap_Inr_all2: "rmap f xs = Inr ys \<longleftrightarrow> list_all2 (\<lambda>x y. f x = Inr y) xs ys"
proof (induction xs arbitrary: ys)
  case Nil
  show ?case by auto
next
  case (Cons x xs)
  show ?case by (cases ys) (auto simp: res_simps Cons.IH)
qed

lemma rmap_pure: "rmap (\<lambda>x. Inr (f x)) xs = Inr (map f xs)"
  by (induction xs) auto

lemma rfold_append: "rfold f (xs @ ys) s = rbind (rfold f xs s) (rfold f ys)"
proof (induction xs arbitrary: s)
  case Nil
  show ?case by simp
next
  case (Cons x xs)
  show ?case by (cases "f x s") (simp_all add: Cons.IH)
qed

text \<open>An invariant of the state that every fallible step keeps holds of the result.\<close>

lemma rfold_invariant:
  assumes "rfold f xs s = Inr s'" and "P s"
    and "\<And>x s s'. x \<in> set xs \<Longrightarrow> P s \<Longrightarrow> f x s = Inr s' \<Longrightarrow> P s'"
  shows "P s'"
  using assms
proof (induction xs arbitrary: s)
  case Nil
  then show ?case by simp
next
  case (Cons x xs)
  from Cons.prems(1) obtain s1 where s1: "f x s = Inr s1" "rfold f xs s1 = Inr s'"
    by (auto simp: res_simps)
  have "P s1" using Cons.prems(3) [OF _ Cons.prems(2) s1(1)] by simp
  then show ?case using Cons.IH [OF s1(2)] Cons.prems(3) by (meson list.set_intros(2))
qed

section \<open>Insertion-ordered dictionaries\<close>

text \<open>
  A Python \<open>dict\<close> remembers insertion order, and the planner iterates over its
  dictionaries: they are association lists. \<open>d[k] = v\<close> is \<open>AList.update k v d\<close>, which
  replaces in place or appends, and \<open>d.get(k)\<close> is \<open>map_of d k\<close>.
\<close>

type_synonym ('k, 'v) dict = "('k \<times> 'v) list"

definition dget :: "('k, 'v) dict \<Rightarrow> 'k \<Rightarrow> 'v \<Rightarrow> 'v" where
  "dget d k v = (case map_of d k of None \<Rightarrow> v | Some w \<Rightarrow> w)"

text \<open>\<open>d.setdefault(k, []).append(v)\<close>\<close>

definition dappend :: "'k \<Rightarrow> 'v \<Rightarrow> ('k, 'v list) dict \<Rightarrow> ('k, 'v list) dict" where
  "dappend k v d = AList.update k (dget d k [] @ [v]) d"

text \<open>\<open>d.setdefault(k, v)\<close>\<close>

definition dsetdefault :: "'k \<Rightarrow> 'v \<Rightarrow> ('k, 'v) dict \<Rightarrow> ('k, 'v) dict" where
  "dsetdefault k v d = (case map_of d k of None \<Rightarrow> AList.update k v d | Some _ \<Rightarrow> d)"

lemma map_of_update [dict_simps]: "map_of (AList.update k v d) = (map_of d)(k \<mapsto> v)"
  by (rule update_conv')

lemma dget_update [dict_simps]: "dget (AList.update k v d) k' w = (if k' = k then v else dget d k' w)"
  by (simp add: dget_def update_conv')

lemma dget_Nil [dict_simps]: "dget [] k v = v"
  by (simp add: dget_def)

lemma dget_dappend [dict_simps]:
  "dget (dappend k v d) k' [] = (if k' = k then dget d k [] @ [v] else dget d k' [])"
  by (simp add: dappend_def dict_simps)

lemma map_of_dsetdefault [dict_simps]:
  "map_of (dsetdefault k v d) = (if k \<in> dom (map_of d) then map_of d else (map_of d)(k \<mapsto> v))"
  by (auto simp: dsetdefault_def update_conv' split: option.splits)

lemma distinct_keys_update: "distinct (map fst d) \<Longrightarrow> distinct (map fst (AList.update k v d))"
  by (rule distinct_update)

lemma keys_update: "set (map fst (AList.update k v d)) = insert k (set (map fst d))"
  by (induction d) auto

text \<open>A dictionary comprehension over a list with distinct keys.\<close>

lemma fold_update_other:
  "k \<notin> f ` set xs \<Longrightarrow> map_of (fold (\<lambda>x. AList.update (f x) (g x)) xs d) k = map_of d k"
  by (induction xs arbitrary: d) (auto simp: dict_simps)

lemma fold_update_get:
  "distinct (map f xs) \<Longrightarrow> x \<in> set xs \<Longrightarrow> map_of (fold (\<lambda>x. AList.update (f x) (g x)) xs d) (f x) = Some (g x)"
proof (induction xs arbitrary: d)
  case (Cons y ys)
  show ?case
  proof (cases "x = y")
    case True
    then show ?thesis using Cons.prems fold_update_other [of "f x" f ys g "AList.update (f y) (g y) d"]
      by (simp add: dict_simps)
  qed (use Cons in auto)
qed simp

lemma fold_update_Some_iff:
  assumes "distinct (map f xs)"
  shows "map_of (fold (\<lambda>x. AList.update (f x) (g x)) xs []) k = Some v \<longleftrightarrow> (\<exists>x\<in>set xs. f x = k \<and> g x = v)"
proof (cases "k \<in> f ` set xs")
  case True
  then obtain x where x: "x \<in> set xs" "k = f x" by auto
  then show ?thesis using fold_update_get [OF assms x(1), of g "[]"] assms
    by (auto simp: distinct_map dest: inj_onD)
next
  case False
  then show ?thesis using fold_update_other [OF False, of g "[]"] by auto
qed

section \<open>Strings\<close>

text \<open>
  A \<open>str\<close> is its sequence of code points, of texts over U+0000 to U+00FF. \<open>strip\<close> removes the
  white space Python removes there (tab to carriage return, the four separators 28--31, the
  space, and the two Latin-1 spaces U+0085 and U+00A0).
\<close>

definition is_py_space :: "char \<Rightarrow> bool" where
  "is_py_space c = (let n = of_char c :: nat in (9 \<le> n \<and> n \<le> 13) \<or> (28 \<le> n \<and> n \<le> 32)
     \<or> n = 133 \<or> n = 160)"

definition strip :: "string \<Rightarrow> string" where
  "strip s = rev (dropWhile is_py_space (rev (dropWhile is_py_space s)))"

definition blank :: "string \<Rightarrow> bool" where
  "blank s = (strip s = [])"

lemma dropWhile_rev_Nil: "dropWhile P (rev xs) = [] \<longleftrightarrow> (\<forall>x\<in>set xs. P x)"
  by (simp add: dropWhile_eq_Nil_conv)

lemma blank_iff: "blank s \<longleftrightarrow> (\<forall>c\<in>set s. is_py_space c)"
proof -
  have "blank s \<longleftrightarrow> (\<forall>c\<in>set (dropWhile is_py_space s). is_py_space c)"
    by (simp add: blank_def strip_def)
  also have "\<dots> \<longleftrightarrow> (\<forall>c\<in>set s. is_py_space c)"
    by (induction s) auto
  finally show ?thesis .
qed

lemma strip_edge: "dropWhile P xs \<noteq> [] \<Longrightarrow> \<not> P (hd (dropWhile P xs))"
  by (rule hd_dropWhile)

lemma strip_blank_strip: "blank (strip s) \<longleftrightarrow> blank s"
proof -
  have "strip s = [] \<or> (\<exists>c\<in>set (strip s). \<not> is_py_space c)"
  proof (cases "strip s = []")
    case False
    then have "dropWhile is_py_space (rev (dropWhile is_py_space s)) \<noteq> []"
      by (simp add: strip_def)
    from hd_dropWhile [OF this] hd_in_set [OF this] show ?thesis
      unfolding strip_def set_rev by blast
  qed simp
  then show ?thesis
    by (metis blank_def blank_iff list.set_cases empty_iff list.set(1))
qed

section \<open>Sums over lists\<close>

lemma sum_list_nonneg_int: "(\<And>x. x \<in> set xs \<Longrightarrow> 0 \<le> f x) \<Longrightarrow> 0 \<le> sum_list (map f xs)" for f :: "'a \<Rightarrow> int"
  by (induction xs) auto

lemma sum_list_filter_le:
  "(\<And>x. x \<in> set xs \<Longrightarrow> 0 \<le> f x) \<Longrightarrow> sum_list (map f (filter P xs)) \<le> sum_list (map f xs)"
  for f :: "'a \<Rightarrow> int"
  by (induction xs) (auto intro: add_increasing)

lemma sum_list_partition:
  "sum_list (map f (filter P xs)) + sum_list (map f (filter (\<lambda>x. \<not> P x) xs)) = sum_list (map f xs)"
  for f :: "'a \<Rightarrow> int"
  by (induction xs) auto

section \<open>Distinct concatenations\<close>

lemma distinct_concat_nth:
  "distinct (concat xss) \<Longrightarrow> i < length xss \<Longrightarrow> j < length xss \<Longrightarrow> i \<noteq> j \<Longrightarrow> set (xss ! i) \<inter> set (xss ! j) = {}"
proof (induction xss arbitrary: i j)
  case (Cons xs xss)
  have "set xs \<inter> set (xss ! k) = {}" if "k < length xss" for k
  proof -
    have "set (xss ! k) \<subseteq> set (concat xss)" using nth_mem [OF that] by auto
    then show ?thesis using Cons.prems(1) by auto
  qed
  then show ?case using Cons by (cases i; cases j) (simp_all add: Int_commute)
qed simp

section \<open>Stable sorting\<close>

text \<open>Python's \<open>sorted(xs, key=f)\<close> is \<open>sort_key f xs\<close>: stable, ascending.\<close>

lemma sort_key_Nil_iff [simp]: "sort_key f xs = [] \<longleftrightarrow> xs = []"
  by (metis length_0_conv length_sort)

lemma sort_key_hd_le: "xs \<noteq> [] \<Longrightarrow> x \<in> set xs \<Longrightarrow> f (hd (sort_key f xs)) \<le> f x"
proof -
  assume "xs \<noteq> []" and x: "x \<in> set xs"
  then obtain y ys where yys: "sort_key f xs = y # ys" by (cases "sort_key f xs") auto
  have "sorted (map f (y # ys))" using sorted_sort_key [of f xs] yys by simp
  moreover have "x \<in> set (y # ys)" using x yys set_sort [of f xs] by simp
  ultimately show ?thesis using yys by auto
qed

text \<open>
  Two permutations of a list sort to the same list when the key tells its elements apart:
  the order in which a collection was given does not matter.
\<close>

lemma sort_key_perm_eq:
  assumes "mset xs = mset ys" and "inj_on f (set xs)"
  shows "sort_key f xs = sort_key f ys"
proof -
  have "sorted (map f (sort_key f xs))" "sorted (map f (sort_key f ys))"
    by (rule sorted_sort_key)+
  moreover have m: "mset (sort_key f xs) = mset (sort_key f ys)"
    using assms(1) by simp
  moreover have "inj_on f (set (sort_key f xs) \<union> set (sort_key f ys))"
  proof -
    have "set (sort_key f xs) \<union> set (sort_key f ys) = set xs"
      using assms(1) mset_eq_setD [OF m] by simp
    then show ?thesis using assms(2) by simp
  qed
  ultimately show ?thesis
  proof -
    assume s1: "sorted (map f (sort_key f xs))" and s2: "sorted (map f (sort_key f ys))"
      and inj: "inj_on f (set (sort_key f xs) \<union> set (sort_key f ys))"
    have "mset (map f (sort_key f xs)) = mset (map f (sort_key f ys))"
      using assms(1) by simp
    then have "map f (sort_key f xs) = map f (sort_key f ys)"
      using s1 s2 by (metis properties_for_sort)
    then show ?thesis using inj by (rule map_inj_on)
  qed
qed

end
