(* ===== verification/Identifiers.thy ===== *)
theory Identifiers
  imports Prelude "HOL-Library.Word"
begin

text \<open>
  The typed identifiers of \<open>domain/identifiers.py\<close>. A \<open>UUID\<close> is its 128-bit value. The
  dataclasses are declared with \<open>order=True\<close>, so each has the linear order of its value.
  The planner sorts by \<open>.hex\<close>, the 32 hexadecimal digits: \<open>hex_of_less\<close> shows that this
  textual order is the numeric one, so \<open>sort_key\<close> may use the identifier itself.
\<close>

type_synonym uuid = "128 word"

section \<open>Hexadecimal text\<close>

definition hex_digit :: "nat \<Rightarrow> char" where
  "hex_digit d = (if d < 10 then char_of (48 + d) else char_of (87 + d))"

fun hex_digits :: "nat \<Rightarrow> nat \<Rightarrow> string" where
  "hex_digits 0 n = []"
| "hex_digits (Suc k) n = hex_digit (n div 16 ^ k) # hex_digits k (n mod 16 ^ k)"

text \<open>\<open>uuid.hex\<close> and \<open>str(uuid)\<close>\<close>

definition hex_of :: "uuid \<Rightarrow> string" where
  "hex_of u = hex_digits 32 (unat u)"

definition uuid_str :: "uuid \<Rightarrow> string" where
  "uuid_str u = (let h = hex_of u in
     take 8 h @ ''-'' @ take 4 (drop 8 h) @ ''-'' @ take 4 (drop 12 h) @ ''-''
       @ take 4 (drop 16 h) @ ''-'' @ drop 20 h)"

lemma length_hex_digits [simp]: "length (hex_digits k n) = k"
  by (induction k arbitrary: n) auto

lemma hex_digit_less: "a < 16 \<Longrightarrow> b < 16 \<Longrightarrow> hex_digit a < hex_digit b \<longleftrightarrow> a < b"
  by (auto simp: hex_digit_def less_char_def)

lemma hex_digit_eq: "a < 16 \<Longrightarrow> b < 16 \<Longrightarrow> hex_digit a = hex_digit b \<longleftrightarrow> a = b"
  using hex_digit_less by (metis linorder_neqE_nat order_less_irrefl)

lemma div_mod_less_iff: "(n::nat) < m \<longleftrightarrow> n div b < m div b \<or> n div b = m div b \<and> n mod b < m mod b"
proof -
  have "n < m \<Longrightarrow> \<not> n div b < m div b \<Longrightarrow> n div b = m div b"
    using div_le_mono [of n m b] by linarith
  moreover have "n div b = m div b \<Longrightarrow> n < m \<longleftrightarrow> n mod b < m mod b"
    using div_mult_mod_eq [of n b] div_mult_mod_eq [of m b] by (metis add_less_cancel_left)
  moreover have "n div b < m div b \<Longrightarrow> n < m"
    by (meson div_le_mono leD not_le_imp_less)
  ultimately show ?thesis by blast
qed

lemma hex_digits_less:
  "n < 16 ^ k \<Longrightarrow> m < 16 ^ k \<Longrightarrow> hex_digits k n < hex_digits k m \<longleftrightarrow> n < m"
proof (induction k arbitrary: n m)
  case 0
  then show ?case by simp
next
  case (Suc k)
  have q: "n div 16 ^ k < 16" "m div 16 ^ k < 16"
    using Suc.prems by (simp_all add: less_mult_imp_div_less)
  have r: "n mod 16 ^ k < 16 ^ k" "m mod 16 ^ k < 16 ^ k" by simp_all
  have "hex_digits (Suc k) n < hex_digits (Suc k) m \<longleftrightarrow>
      n div 16 ^ k < m div 16 ^ k \<or> n div 16 ^ k = m div 16 ^ k \<and> n mod 16 ^ k < m mod 16 ^ k"
    using q r by (simp add: hex_digit_less hex_digit_eq Suc.IH)
  also have "\<dots> \<longleftrightarrow> n < m" by (rule div_mod_less_iff [symmetric])
  finally show ?case .
qed

text \<open>Sorting by \<open>.hex\<close> is sorting by value.\<close>

lemma hex_of_less: "hex_of u < hex_of v \<longleftrightarrow> u < v"
proof -
  have "unat w < 16 ^ 32" for w :: uuid
    using unsigned_less [of w] by (simp add: nat_less_iff)
  then show ?thesis by (simp add: hex_of_def hex_digits_less word_less_nat_alt)
qed

lemma hex_of_inject: "hex_of u = hex_of v \<longleftrightarrow> u = v"
  by (metis hex_of_less less_irrefl linorder_neqE)

lemma hex_of_le: "hex_of u \<le> hex_of v \<longleftrightarrow> u \<le> v"
  by (metis hex_of_less linorder_not_less)

section \<open>Identifiers and their order\<close>

datatype workspace_id = WorkspaceId (ws_value: uuid)

instantiation workspace_id :: linorder
begin
definition less_eq_workspace_id :: "workspace_id \<Rightarrow> workspace_id \<Rightarrow> bool" where
  "less_eq_workspace_id a b \<longleftrightarrow> ws_value a \<le> ws_value b"
definition less_workspace_id :: "workspace_id \<Rightarrow> workspace_id \<Rightarrow> bool" where
  "less_workspace_id a b \<longleftrightarrow> ws_value a < ws_value b"
instance
  by standard (auto simp: less_eq_workspace_id_def less_workspace_id_def intro: workspace_id.expand)
end

datatype area_id = AreaId (area_value: uuid)

instantiation area_id :: linorder
begin
definition less_eq_area_id :: "area_id \<Rightarrow> area_id \<Rightarrow> bool" where
  "less_eq_area_id a b \<longleftrightarrow> area_value a \<le> area_value b"
definition less_area_id :: "area_id \<Rightarrow> area_id \<Rightarrow> bool" where
  "less_area_id a b \<longleftrightarrow> area_value a < area_value b"
instance
  by standard (auto simp: less_eq_area_id_def less_area_id_def intro: area_id.expand)
end

datatype workstream_id = WorkstreamId (stream_value: uuid)

instantiation workstream_id :: linorder
begin
definition less_eq_workstream_id :: "workstream_id \<Rightarrow> workstream_id \<Rightarrow> bool" where
  "less_eq_workstream_id a b \<longleftrightarrow> stream_value a \<le> stream_value b"
definition less_workstream_id :: "workstream_id \<Rightarrow> workstream_id \<Rightarrow> bool" where
  "less_workstream_id a b \<longleftrightarrow> stream_value a < stream_value b"
instance
  by standard (auto simp: less_eq_workstream_id_def less_workstream_id_def intro: workstream_id.expand)
end

datatype milestone_id = MilestoneId (ms_value: uuid)

instantiation milestone_id :: linorder
begin
definition less_eq_milestone_id :: "milestone_id \<Rightarrow> milestone_id \<Rightarrow> bool" where
  "less_eq_milestone_id a b \<longleftrightarrow> ms_value a \<le> ms_value b"
definition less_milestone_id :: "milestone_id \<Rightarrow> milestone_id \<Rightarrow> bool" where
  "less_milestone_id a b \<longleftrightarrow> ms_value a < ms_value b"
instance
  by standard (auto simp: less_eq_milestone_id_def less_milestone_id_def intro: milestone_id.expand)
end

datatype task_id = TaskId (tid_value: uuid)

instantiation task_id :: linorder
begin
definition less_eq_task_id :: "task_id \<Rightarrow> task_id \<Rightarrow> bool" where
  "less_eq_task_id a b \<longleftrightarrow> tid_value a \<le> tid_value b"
definition less_task_id :: "task_id \<Rightarrow> task_id \<Rightarrow> bool" where
  "less_task_id a b \<longleftrightarrow> tid_value a < tid_value b"
instance
  by standard (auto simp: less_eq_task_id_def less_task_id_def intro: task_id.expand)
end

datatype calendar_event_id = CalendarEventId (ev_value: uuid)

instantiation calendar_event_id :: linorder
begin
definition less_eq_calendar_event_id :: "calendar_event_id \<Rightarrow> calendar_event_id \<Rightarrow> bool" where
  "less_eq_calendar_event_id a b \<longleftrightarrow> ev_value a \<le> ev_value b"
definition less_calendar_event_id :: "calendar_event_id \<Rightarrow> calendar_event_id \<Rightarrow> bool" where
  "less_calendar_event_id a b \<longleftrightarrow> ev_value a < ev_value b"
instance
  by standard (auto simp: less_eq_calendar_event_id_def less_calendar_event_id_def intro: calendar_event_id.expand)
end

datatype external_dependency_id = ExternalDependencyId (ext_value: uuid)

instantiation external_dependency_id :: linorder
begin
definition less_eq_external_dependency_id :: "external_dependency_id \<Rightarrow> external_dependency_id \<Rightarrow> bool" where
  "less_eq_external_dependency_id a b \<longleftrightarrow> ext_value a \<le> ext_value b"
definition less_external_dependency_id :: "external_dependency_id \<Rightarrow> external_dependency_id \<Rightarrow> bool" where
  "less_external_dependency_id a b \<longleftrightarrow> ext_value a < ext_value b"
instance
  by standard (auto simp: less_eq_external_dependency_id_def less_external_dependency_id_def intro: external_dependency_id.expand)
end

text \<open>The sort key \<open>item.value.hex\<close> of a task and of a milestone orders as the identifier.\<close>

lemma hex_key_task: "hex_of (tid_value a) \<le> hex_of (tid_value b) \<longleftrightarrow> a \<le> b"
  by (simp add: hex_of_le less_eq_task_id_def)

lemma hex_key_milestone: "hex_of (ms_value a) \<le> hex_of (ms_value b) \<longleftrightarrow> a \<le> b"
  by (simp add: hex_of_le less_eq_milestone_id_def)

end
