(* ===== verification/Clock.thy ===== *)
theory Clock
  imports Prelude
begin

text \<open>
  Time as the planner uses it. An instant is an aware \<open>datetime\<close> normalized to UTC, as
  its microseconds since 1970-01-01T00:00Z; a date is its number of days since then.
  A \<open>datetime\<close> as a caller hands it in may be naive or carry another offset
  (\<open>datetime\<close>), and \<open>require_aware_utc\<close> turns it into an instant. Time zones are the
  system's tz database, which is not code of the repository: a zone is a parameter, its
  offset at an instant and the instant of each local midnight. Decimal and ISO-8601
  output is here too, with the round trip that makes padded numbers injective.
\<close>

type_synonym instant = int
type_synonym date = int

abbreviation us_per_second :: int where "us_per_second \<equiv> 1000000"
abbreviation us_per_minute :: int where "us_per_minute \<equiv> 60000000"
abbreviation us_per_hour :: int where "us_per_hour \<equiv> 3600000000"
abbreviation us_per_day :: int where "us_per_day \<equiv> 86400000000"

section \<open>Instants\<close>

text \<open>\<open>timedelta(minutes=m)\<close>\<close>

definition minutes_delta :: "int \<Rightarrow> int" where
  "minutes_delta m = m * us_per_minute"

text \<open>\<open>int((end - start).total_seconds() // 60)\<close>\<close>

definition minutes_between :: "instant \<Rightarrow> instant \<Rightarrow> int" where
  "minutes_between s e = (e - s) div us_per_minute"

text \<open>\<open>t.date()\<close> of a UTC datetime\<close>

definition utc_date :: "instant \<Rightarrow> date" where
  "utc_date t = t div us_per_day"

text \<open>\<open>datetime.max\<close> in UTC: 9999-12-31T23:59:59.999999\<close>

definition datetime_max :: instant where
  "datetime_max = 253402300799999999"

lemma minutes_between_self [simp]: "minutes_between t t = 0"
  by (simp add: minutes_between_def)

lemma minutes_between_nonneg: "s \<le> e \<Longrightarrow> 0 \<le> minutes_between s e"
  by (simp add: minutes_between_def pos_imp_zdiv_nonneg_iff)

lemma minutes_between_pos_less: "0 < minutes_between s e \<Longrightarrow> s < e"
  by (rule ccontr) (simp add: minutes_between_def not_less pos_imp_zdiv_pos_iff)

lemma minutes_between_mono: "s' \<le> s \<Longrightarrow> e \<le> e' \<Longrightarrow> minutes_between s e \<le> minutes_between s' e'"
  by (simp add: minutes_between_def zdiv_mono1)

lemma div_add_le: "0 < c \<Longrightarrow> a div c + b div c \<le> (a + b) div c" for c :: int
  by (subst div_add1_eq) (simp add: pos_imp_zdiv_nonneg_iff)

lemma minutes_between_split: "minutes_between s m + minutes_between m e \<le> minutes_between s e"
proof -
  have "(m - s) + (e - m) = e - s" by simp
  with div_add_le [of us_per_minute "m - s" "e - m"] show ?thesis
    unfolding minutes_between_def by (metis zero_less_numeral)
qed

lemma minutes_between_shift [simp]: "minutes_between (s + d) (e + d) = minutes_between s e"
  by (simp add: minutes_between_def)

lemma minutes_between_delta [simp]: "minutes_between s (s + minutes_delta m) = m"
  by (simp add: minutes_between_def minutes_delta_def)

section \<open>Datetimes as given by a caller\<close>

text \<open>
  \<open>Naive w\<close> has no usable \<open>tzinfo\<close>; \<open>Aware w off\<close> shows the wall time \<open>w\<close> at the UTC
  offset \<open>off\<close> (both in microseconds).
\<close>

datatype datetime = Naive int | Aware int int

fun require_aware_utc :: "datetime \<Rightarrow> instant res" where
  "require_aware_utc (Naive w) = Inl (ValueError ''datetime must be timezone-aware'')"
| "require_aware_utc (Aware w off) = Inr (w - off)"

lemma require_aware_utc_Inr_iff: "require_aware_utc d = Inr t \<longleftrightarrow> (\<exists>w off. d = Aware w off \<and> t = w - off)"
  by (cases d) auto

text \<open>An instant is already aware and in UTC: checking it again returns it.\<close>

definition aware_instant :: "instant \<Rightarrow> instant res" where
  "aware_instant t = Inr t"

lemma aware_instant_simp [simp]: "aware_instant t = Inr t"
  by (simp add: aware_instant_def)

lemma require_aware_utc_idem: "require_aware_utc d = Inr t \<Longrightarrow> require_aware_utc (Aware t 0) = Inr t"
  by simp

text \<open>\<open>None if x is None else require_aware_utc(x)\<close>\<close>

fun opt_aware :: "('d \<Rightarrow> instant res) \<Rightarrow> 'd option \<Rightarrow> instant option res" where
  "opt_aware aw None = Inr None"
| "opt_aware aw (Some d) = rbind (aw d) (\<lambda>t. Inr (Some t))"

lemma opt_aware_instant [simp]: "opt_aware aware_instant x = Inr x"
  by (cases x) simp_all

section \<open>Time zones\<close>

record zone =
  zone_offset :: "instant \<Rightarrow> int"
  zone_midnight :: "date \<Rightarrow> instant"

text \<open>
  The tz database: \<open>ZoneInfo(name)\<close> succeeds on the names in \<open>tz_known\<close>, and every use of
  a zone in the planner follows the check in the input's constructor.
\<close>

record tzdb =
  tz_known :: "string \<Rightarrow> bool"
  tz_zone :: "string \<Rightarrow> zone"

definition local_date :: "zone \<Rightarrow> instant \<Rightarrow> date" where
  "local_date z t = (t + zone_offset z t) div us_per_day"

definition utc_zone :: zone where
  "utc_zone = \<lparr>zone_offset = (\<lambda>_. 0), zone_midnight = (\<lambda>d. d * us_per_day)\<rparr>"

definition utc_tzdb :: tzdb where
  "utc_tzdb = \<lparr>tz_known = (\<lambda>n. n = ''UTC''), tz_zone = (\<lambda>_. utc_zone)\<rparr>"

lemma local_date_utc [simp]: "local_date utc_zone t = utc_date t"
  by (simp add: local_date_def utc_zone_def utc_date_def)

section \<open>Decimal numbers and ISO-8601 output\<close>

definition digit :: "nat \<Rightarrow> char" where
  "digit d = char_of (48 + d)"

fun dec :: "nat \<Rightarrow> string" where
  "dec n = (if n < 10 then [digit n] else dec (n div 10) @ [digit (n mod 10)])"

declare dec.simps [simp del]

definition pad :: "nat \<Rightarrow> nat \<Rightarrow> string" where
  "pad w n = replicate (w - length (dec n)) (digit 0) @ dec n"

definition int_str :: "int \<Rightarrow> string" where
  "int_str k = (if k < 0 then CHR ''-'' # dec (nat (- k)) else dec (nat k))"

text \<open>Year, month and day of a date in the proleptic Gregorian calendar.\<close>

definition civil :: "date \<Rightarrow> int \<times> int \<times> int" where
  "civil days = (let z = days + 719468; era = z div 146097; doe = z - era * 146097;
       yoe = (doe - doe div 1460 + doe div 36524 - doe div 146096) div 365;
       doy = doe - (365 * yoe + yoe div 4 - yoe div 100);
       mp = (5 * doy + 2) div 153;
       d = doy - (153 * mp + 2) div 5 + 1;
       m = (if mp < 10 then mp + 3 else mp - 9);
       y = yoe + era * 400 + (if m \<le> 2 then 1 else 0)
     in (y, m, d))"

definition date_iso :: "date \<Rightarrow> string" where
  "date_iso days = (case civil days of (y, m, d) \<Rightarrow>
     pad 4 (nat y) @ ''-'' @ pad 2 (nat m) @ ''-'' @ pad 2 (nat d))"

definition time_parts :: "instant \<Rightarrow> nat \<times> nat \<times> nat \<times> nat" where
  "time_parts t = (let u = t mod us_per_day in
     (nat (u div us_per_hour), nat (u div us_per_minute mod 60),
      nat (u div us_per_second mod 60), nat (u mod us_per_second)))"

definition instant_iso :: "instant \<Rightarrow> string" where
  "instant_iso t = (case time_parts t of (h, m, s, us) \<Rightarrow>
     date_iso (utc_date t) @ ''T'' @ pad 2 h @ '':'' @ pad 2 m @ '':'' @ pad 2 s
       @ (if us = 0 then [] else ''.'' @ pad 6 us) @ ''+00:00'')"

text \<open>\<open>strftime('%Y%m%dT%H%M%S')\<close>\<close>

definition stamp :: "instant \<Rightarrow> string" where
  "stamp t = (case civil (utc_date t) of (y, mo, d) \<Rightarrow> case time_parts t of (h, m, s, us) \<Rightarrow>
     pad 4 (nat y) @ pad 2 (nat mo) @ pad 2 (nat d) @ ''T'' @ pad 2 h @ pad 2 m @ pad 2 s)"

definition undec :: "string \<Rightarrow> nat" where
  "undec cs = foldl (\<lambda>a c. 10 * a + (of_char c - 48)) 0 cs"

lemma of_char_digit: "d < 10 \<Longrightarrow> (of_char (digit d) :: nat) = 48 + d"
  by (simp add: digit_def)

lemma undec_snoc: "undec (cs @ [c]) = 10 * undec cs + (of_char c - 48)"
  by (simp add: undec_def)

lemma undec_dec: "undec (dec n) = n"
proof (induction n rule: dec.induct)
  case (1 n)
  show ?case
  proof (cases "n < 10")
    case True
    then show ?thesis by (simp add: dec.simps [of n] undec_def of_char_digit)
  next
    case False
    then show ?thesis using 1 by (simp add: dec.simps [of n] undec_snoc of_char_digit)
  qed
qed

lemma undec_zeros: "undec (replicate k (digit 0) @ cs) = undec cs"
  by (induction k) (simp_all add: undec_def of_char_digit)

lemma undec_pad: "undec (pad w n) = n"
  by (simp add: pad_def undec_zeros undec_dec)

lemma pad_inject: "pad w n = pad w m \<longleftrightarrow> n = m"
  by (metis undec_pad)

lemma dec_inject: "dec n = dec m \<longleftrightarrow> n = m"
  by (metis undec_dec)

lemma dec_digits: "c \<in> set (dec n) \<Longrightarrow> \<exists>d<10. c = digit d"
proof (induction n rule: dec.induct)
  case (1 n)
  then show ?case by (cases "n < 10") (auto simp: dec.simps [of n] intro: exI [of _ "n mod 10"])
qed

lemma pad_digits: "c \<in> set (pad w n) \<Longrightarrow> \<exists>d<10. c = digit d"
  by (auto simp: pad_def dest: dec_digits intro: exI [of _ 0])

lemma digit_not_dash: "d < 10 \<Longrightarrow> digit d \<noteq> CHR ''-''"
  using of_char_digit [of d] by (auto dest: arg_cong [of _ _ "of_char :: char \<Rightarrow> nat"])

lemma pad_no_dash: "CHR ''-'' \<notin> set (pad w n)"
  using pad_digits digit_not_dash by metis

end
