(* ===== verification/Domain.thy ===== *)
theory Domain
  imports Identifiers Clock
begin

text \<open>
  The immutable snapshots of Planning Core (\<open>domain/enums.py\<close>, \<open>work.py\<close>, \<open>task.py\<close>,
  \<open>availability.py\<close>, \<open>facts.py\<close>, \<open>audit.py\<close>) and the checks of their constructors. A
  snapshot record is polymorphic in its datetimes: \<open>mk_\<dots>\<close> takes one with the datetimes
  the caller gave and a check \<open>aw\<close> (\<open>require_aware_utc\<close>, or \<open>aware_instant\<close> for values
  that are instants already, as in \<open>dataclasses.replace\<close>), and returns the stored
  snapshot or the exception \<open>__post_init__\<close> raises. \<open>wf_\<dots>\<close> is what a stored snapshot
  satisfies.
\<close>

section \<open>Enumerations\<close>

datatype task_status = DRAFT | PLANNED | READY | IN_PROGRESS | WAITING | BLOCKED | DONE
  | DEFERRED | CANCELLED

datatype deadline_type = HARD_DEADLINE | EXTERNAL_COMMITMENT | INTERNAL_TARGET | SOFT_GOAL

datatype importance_level = PROTECTED | IMPORTANT | NORMAL | OPTIONAL | ON_HOLD

datatype workstream_status = WS_DRAFT | WS_ACTIVE | WS_PAUSED | WS_COMPLETED | WS_CANCELLED

datatype uncertainty = LOW_U | MEDIUM_U | HIGH_U

datatype dependency_type = BLOCKS_START | BLOCKS_COMPLETION | WAITING_EXTERNAL | RELATED

datatype calendar_event_kind = FIXED_BUSY | MOVABLE_COMMITMENT | TENTATIVE | ALL_DAY_INFO

datatype auth_level = AUTOMATIC | AUTOMATIC_NOTIFY | APPROVAL | RECONFIRM

datatype action_type = CLASSIFY_INPUT | PRODUCE_DRAFT_PLAN | CALCULATE_PRIORITY
  | CREATE_LOW_HARM_TASK | RESCHEDULE_LOW_RISK_TASK | CREATE_FOCUS_BLOCK | CHANGE_SCOPE
  | CHANGE_HARD_DEADLINE | CHANGE_FIXED_EVENT | SEND_EXTERNAL_MESSAGE
  | SUBMIT_EXTERNAL_ARTIFACT | CANCEL_PROJECT | IRREVERSIBLE_ACTION

fun task_status_value :: "task_status \<Rightarrow> string" where
  "task_status_value DRAFT = ''draft''"
| "task_status_value PLANNED = ''planned''"
| "task_status_value READY = ''ready''"
| "task_status_value IN_PROGRESS = ''in_progress''"
| "task_status_value WAITING = ''waiting''"
| "task_status_value BLOCKED = ''blocked''"
| "task_status_value DONE = ''done''"
| "task_status_value DEFERRED = ''deferred''"
| "task_status_value CANCELLED = ''cancelled''"

fun deadline_type_value :: "deadline_type \<Rightarrow> string" where
  "deadline_type_value HARD_DEADLINE = ''hard_deadline''"
| "deadline_type_value EXTERNAL_COMMITMENT = ''external_commitment''"
| "deadline_type_value INTERNAL_TARGET = ''internal_target''"
| "deadline_type_value SOFT_GOAL = ''soft_goal''"

fun uncertainty_value :: "uncertainty \<Rightarrow> string" where
  "uncertainty_value LOW_U = ''low''"
| "uncertainty_value MEDIUM_U = ''medium''"
| "uncertainty_value HIGH_U = ''high''"

fun dependency_type_value :: "dependency_type \<Rightarrow> string" where
  "dependency_type_value BLOCKS_START = ''blocks_start''"
| "dependency_type_value BLOCKS_COMPLETION = ''blocks_completion''"
| "dependency_type_value WAITING_EXTERNAL = ''waiting_external''"
| "dependency_type_value RELATED = ''related''"

fun calendar_event_kind_value :: "calendar_event_kind \<Rightarrow> string" where
  "calendar_event_kind_value FIXED_BUSY = ''fixed_busy''"
| "calendar_event_kind_value MOVABLE_COMMITMENT = ''movable_commitment''"
| "calendar_event_kind_value TENTATIVE = ''tentative''"
| "calendar_event_kind_value ALL_DAY_INFO = ''all_day_info''"

abbreviation closed_status :: "task_status \<Rightarrow> bool" where
  "closed_status s \<equiv> s = DONE \<or> s = CANCELLED"

lemma dependency_type_value_inject: "dependency_type_value a = dependency_type_value b \<longleftrightarrow> a = b"
  by (cases a; cases b) auto

section \<open>Work hierarchy\<close>

record area_snapshot =
  ar_id :: area_id
  ar_workspace :: workspace_id
  ar_name :: string
  ar_version :: int

definition mk_area :: "area_snapshot \<Rightarrow> area_snapshot res" where
  "mk_area a =
     rbind (raise_if (blank (ar_name a)) (ValueError ''area name must not be empty'')) (\<lambda>_.
     rbind (raise_if (ar_version a < 1) (ValueError ''version must be positive'')) (\<lambda>_.
     Inr a))"

record workstream_snapshot =
  wk_id :: workstream_id
  wk_workspace :: workspace_id
  wk_area :: area_id
  wk_name :: string
  wk_importance :: importance_level
  wk_status :: workstream_status
  wk_version :: int

definition mk_workstream :: "workstream_snapshot \<Rightarrow> workstream_snapshot res" where
  "mk_workstream w =
     rbind (raise_if (blank (wk_name w)) (ValueError ''workstream name must not be empty'')) (\<lambda>_.
     rbind (raise_if (wk_version w < 1) (ValueError ''version must be positive'')) (\<lambda>_.
     Inr w))"

record 'dt milestone_snapshot =
  mi_id :: milestone_id
  mi_workspace :: workspace_id
  mi_workstream :: workstream_id
  mi_title :: string
  mi_deadline_date :: "date option"
  mi_deadline_at :: "'dt option"
  mi_deadline_date_known :: bool
  mi_deadline_time_known :: bool
  mi_deadline_type :: deadline_type
  mi_required_buffer :: int
  mi_version :: int

type_synonym milestone = "instant milestone_snapshot"

definition mk_milestone :: "('dt \<Rightarrow> instant res) \<Rightarrow> 'dt milestone_snapshot \<Rightarrow> milestone res" where
  "mk_milestone aw m =
     rbind (raise_if (blank (mi_title m)) (ValueError ''milestone title must not be empty'')) (\<lambda>_.
     rbind (raise_if (mi_version m < 1) (ValueError ''version must be positive'')) (\<lambda>_.
     rbind (raise_if (mi_required_buffer m < 0)
       (ValueError ''required_buffer_minutes must not be negative'')) (\<lambda>_.
     rbind (opt_aware aw (mi_deadline_at m)) (\<lambda>at.
     rbind (raise_if (mi_deadline_time_known m \<and> at = None)
       (ValueError ''known deadline time requires deadline_at'')) (\<lambda>_.
     rbind (raise_if (\<not> mi_deadline_time_known m \<and> at \<noteq> None)
       (ValueError ''unknown deadline time cannot persist a factual deadline_at'')) (\<lambda>_.
     rbind (raise_if (mi_deadline_date m = None \<and> mi_deadline_date_known m)
       (ValueError ''deadline_date_known requires deadline_date'')) (\<lambda>_.
     Inr \<lparr>mi_id = mi_id m, mi_workspace = mi_workspace m, mi_workstream = mi_workstream m,
       mi_title = mi_title m, mi_deadline_date = mi_deadline_date m, mi_deadline_at = at,
       mi_deadline_date_known = mi_deadline_date_known m,
       mi_deadline_time_known = mi_deadline_time_known m,
       mi_deadline_type = mi_deadline_type m, mi_required_buffer = mi_required_buffer m,
       mi_version = mi_version m\<rparr>)))))))"

definition wf_milestone :: "milestone \<Rightarrow> bool" where
  "wf_milestone m \<longleftrightarrow> \<not> blank (mi_title m) \<and> 1 \<le> mi_version m \<and> 0 \<le> mi_required_buffer m
     \<and> (mi_deadline_time_known m \<longleftrightarrow> mi_deadline_at m \<noteq> None)
     \<and> (mi_deadline_date_known m \<longrightarrow> mi_deadline_date m \<noteq> None)"

lemma mk_milestone_wf: "mk_milestone aw m = Inr m' \<Longrightarrow> wf_milestone m'"
  by (auto simp: mk_milestone_def wf_milestone_def res_simps)

lemma mk_milestone_instant: "mk_milestone aware_instant m = Inr m' \<longleftrightarrow> wf_milestone m \<and> m' = m"
  by (auto simp: mk_milestone_def wf_milestone_def res_simps)

section \<open>Tasks\<close>

record 'dt task_snapshot =
  ts_id :: task_id
  ts_workspace :: workspace_id
  ts_workstream :: workstream_id
  ts_milestone :: "milestone_id option"
  ts_title :: string
  ts_status :: task_status
  ts_deadline_date :: "date option"
  ts_deadline_at :: "'dt option"
  ts_deadline_time_known :: bool
  ts_start_after :: "'dt option"
  ts_base_duration :: int
  ts_safety_duration :: int
  ts_remaining_base :: int
  ts_remaining_safety :: int
  ts_uncertainty :: uncertainty
  ts_splittable :: bool
  ts_min_chunk :: int
  ts_pinned :: bool
  ts_waiting_reason :: "string option"
  ts_version :: int

type_synonym task = "instant task_snapshot"

definition validate_deadline_facts ::
    "('dt \<Rightarrow> instant res) \<Rightarrow> 'dt option \<Rightarrow> bool \<Rightarrow> instant option res" where
  "validate_deadline_facts aw at known =
     rbind (raise_if (known \<and> at = None)
       (ValueError ''known deadline time requires deadline_at'')) (\<lambda>_.
     rbind (raise_if (\<not> known \<and> at \<noteq> None)
       (ValueError ''unknown deadline time cannot persist a factual deadline_at'')) (\<lambda>_.
     opt_aware aw at))"

definition mk_task :: "('dt \<Rightarrow> instant res) \<Rightarrow> 'dt task_snapshot \<Rightarrow> task res" where
  "mk_task aw t =
     rbind (raise_if (blank (ts_title t)) (ValueError ''task title must not be empty'')) (\<lambda>_.
     rbind (raise_if (ts_version t < 1) (ValueError ''version must be positive'')) (\<lambda>_.
     rbind (raise_if (ts_base_duration t \<le> 0)
       (ValueError ''base_duration_minutes must be positive'')) (\<lambda>_.
     rbind (raise_if (ts_safety_duration t < ts_base_duration t)
       (ValueError ''safety_duration_minutes cannot be below base_duration_minutes'')) (\<lambda>_.
     rbind (raise_if (ts_min_chunk t \<le> 0)
       (ValueError ''min_chunk_minutes must be positive'')) (\<lambda>_.
     rbind (raise_if (closed_status (ts_status t)
         \<and> (ts_remaining_base t \<noteq> 0 \<or> ts_remaining_safety t \<noteq> 0))
       (ValueError ''done or cancelled tasks have no remaining minutes'')) (\<lambda>_.
     rbind (raise_if (ts_remaining_base t < 0 \<or> ts_remaining_safety t < 0)
       (ValueError ''remaining minutes must not be negative'')) (\<lambda>_.
     rbind (validate_deadline_facts aw (ts_deadline_at t) (ts_deadline_time_known t)) (\<lambda>at.
     rbind (opt_aware aw (ts_start_after t)) (\<lambda>sa.
     Inr \<lparr>ts_id = ts_id t, ts_workspace = ts_workspace t, ts_workstream = ts_workstream t,
       ts_milestone = ts_milestone t, ts_title = ts_title t, ts_status = ts_status t,
       ts_deadline_date = ts_deadline_date t, ts_deadline_at = at,
       ts_deadline_time_known = ts_deadline_time_known t, ts_start_after = sa,
       ts_base_duration = ts_base_duration t, ts_safety_duration = ts_safety_duration t,
       ts_remaining_base = ts_remaining_base t, ts_remaining_safety = ts_remaining_safety t,
       ts_uncertainty = ts_uncertainty t, ts_splittable = ts_splittable t,
       ts_min_chunk = ts_min_chunk t, ts_pinned = ts_pinned t,
       ts_waiting_reason = ts_waiting_reason t, ts_version = ts_version t\<rparr>)))))))))"

definition wf_task :: "task \<Rightarrow> bool" where
  "wf_task t \<longleftrightarrow> \<not> blank (ts_title t) \<and> 1 \<le> ts_version t
     \<and> 0 < ts_base_duration t \<and> ts_base_duration t \<le> ts_safety_duration t \<and> 0 < ts_min_chunk t
     \<and> (closed_status (ts_status t) \<longrightarrow> ts_remaining_base t = 0 \<and> ts_remaining_safety t = 0)
     \<and> 0 \<le> ts_remaining_base t \<and> 0 \<le> ts_remaining_safety t
     \<and> (ts_deadline_time_known t \<longleftrightarrow> ts_deadline_at t \<noteq> None)"

lemma opt_aware_None_iff: "opt_aware aw x = Inr y \<Longrightarrow> y = None \<longleftrightarrow> x = None"
  by (cases x) (auto simp: res_simps)

lemma mk_task_wf: "mk_task aw t = Inr t' \<Longrightarrow> wf_task t'"
  by (auto simp: mk_task_def validate_deadline_facts_def wf_task_def res_simps
      dest: opt_aware_None_iff)

lemma mk_task_instant: "mk_task aware_instant t = Inr t' \<longleftrightarrow> wf_task t \<and> t' = t"
  by (auto simp: mk_task_def validate_deadline_facts_def wf_task_def res_simps)

lemma mk_task_instant_Inl: "mk_task aware_instant t = Inl e \<Longrightarrow> \<not> wf_task t"
  using mk_task_instant [of t t] by auto

section \<open>Dependencies, availability, events\<close>

record task_dependency =
  dp_predecessor :: task_id
  dp_successor :: task_id
  dp_type :: dependency_type

record 'dt availability_window =
  aw_start :: 'dt
  aw_end :: 'dt
  aw_tags :: "string list"

type_synonym window = "instant availability_window"

definition mk_window :: "('dt \<Rightarrow> instant res) \<Rightarrow> 'dt availability_window \<Rightarrow> window res" where
  "mk_window aw w =
     rbind (aw (aw_start w)) (\<lambda>s. rbind (aw (aw_end w)) (\<lambda>e.
     rbind (raise_if (e \<le> s) (ValueError ''end must be after start'')) (\<lambda>_.
     Inr \<lparr>aw_start = s, aw_end = e, aw_tags = aw_tags w\<rparr>)))"

definition window_minutes :: "window \<Rightarrow> int" where
  "window_minutes w = minutes_between (aw_start w) (aw_end w)"

lemma mk_window_wf: "mk_window aw w = Inr w' \<Longrightarrow> aw_start w' < aw_end w'"
  by (auto simp: mk_window_def res_simps)

record 'dt calendar_event_snapshot =
  ce_id :: calendar_event_id
  ce_workspace :: workspace_id
  ce_title :: string
  ce_start :: 'dt
  ce_end :: 'dt
  ce_kind :: calendar_event_kind
  ce_deadline_date :: "date option"
  ce_version :: int

type_synonym calendar_event = "instant calendar_event_snapshot"

definition mk_calendar_event ::
    "('dt \<Rightarrow> instant res) \<Rightarrow> 'dt calendar_event_snapshot \<Rightarrow> calendar_event res" where
  "mk_calendar_event aw c =
     rbind (raise_if (blank (ce_title c)) (ValueError ''calendar event title must not be empty'')) (\<lambda>_.
     rbind (aw (ce_start c)) (\<lambda>s. rbind (aw (ce_end c)) (\<lambda>e.
     rbind (raise_if (e \<le> s) (ValueError ''end must be after start'')) (\<lambda>_.
     rbind (raise_if (ce_version c < 1) (ValueError ''version must be positive'')) (\<lambda>_.
     Inr \<lparr>ce_id = ce_id c, ce_workspace = ce_workspace c, ce_title = ce_title c, ce_start = s,
       ce_end = e, ce_kind = ce_kind c, ce_deadline_date = ce_deadline_date c,
       ce_version = ce_version c\<rparr>)))))"

lemma mk_calendar_event_wf: "mk_calendar_event aw c = Inr c' \<Longrightarrow> ce_start c' < ce_end c'"
  by (auto simp: mk_calendar_event_def res_simps)

record 'dt external_dependency_snapshot =
  ex_id :: external_dependency_id
  ex_workspace :: workspace_id
  ex_deliverable :: string
  ex_owner_label :: "string option"
  ex_expected_delivery :: "'dt option"
  ex_uncertainty_buffer :: int
  ex_fallback_available :: bool
  ex_fallback_tasks :: "task_id list"
  ex_affected_tasks :: "task_id list"
  ex_version :: int

type_synonym external_dependency = "instant external_dependency_snapshot"

definition mk_external ::
    "('dt \<Rightarrow> instant res) \<Rightarrow> 'dt external_dependency_snapshot \<Rightarrow> external_dependency res" where
  "mk_external aw x =
     rbind (raise_if (blank (ex_deliverable x))
       (ValueError ''external dependency deliverable must not be empty'')) (\<lambda>_.
     rbind (raise_if (ex_version x < 1) (ValueError ''version must be positive'')) (\<lambda>_.
     rbind (raise_if (ex_uncertainty_buffer x < 0)
       (ValueError ''uncertainty_buffer_minutes must not be negative'')) (\<lambda>_.
     rbind (raise_if (ex_affected_tasks x = [])
       (ValueError ''external dependency requires at least one affected task'')) (\<lambda>_.
     rbind (opt_aware aw (ex_expected_delivery x)) (\<lambda>d.
     Inr \<lparr>ex_id = ex_id x, ex_workspace = ex_workspace x, ex_deliverable = ex_deliverable x,
       ex_owner_label = ex_owner_label x, ex_expected_delivery = d,
       ex_uncertainty_buffer = ex_uncertainty_buffer x,
       ex_fallback_available = ex_fallback_available x, ex_fallback_tasks = ex_fallback_tasks x,
       ex_affected_tasks = ex_affected_tasks x, ex_version = ex_version x\<rparr>)))))"

section \<open>Facts and audit events\<close>

record source_reference =
  sr_kind :: string
  sr_artifact :: string
  sr_location :: string

definition mk_source_reference :: "source_reference \<Rightarrow> source_reference res" where
  "mk_source_reference r =
     rbind (raise_if (blank (sr_kind r) \<or> blank (sr_artifact r))
       (ValueError ''source reference requires artifact kind and id'')) (\<lambda>_. Inr r)"

record 'dt source_fact =
  sf_subject :: string
  sf_value :: string
  sf_source :: source_reference
  sf_recorded_at :: 'dt

definition mk_source_fact :: "('dt \<Rightarrow> instant res) \<Rightarrow> 'dt source_fact \<Rightarrow> 'dt source_fact res" where
  "mk_source_fact aw f = rbind (aw (sf_recorded_at f)) (\<lambda>_. Inr f)"

record 'dt audit_event =
  au_id :: uuid
  au_workspace :: workspace_id
  au_actor :: uuid
  au_entity_kind :: string
  au_entity_id :: string
  au_before_state :: "string option"
  au_after_state :: "string option"
  au_reason :: string
  au_rule_basis :: "string list"
  au_approval :: "uuid option"
  au_trace_id :: string
  au_reversible :: bool
  au_occurred_at :: 'dt

definition mk_audit_event :: "('dt \<Rightarrow> instant res) \<Rightarrow> 'dt audit_event \<Rightarrow> 'dt audit_event res" where
  "mk_audit_event aw a =
     rbind (raise_if (blank (au_entity_kind a) \<or> blank (au_entity_id a))
       (ValueError ''audit event requires an entity reference'')) (\<lambda>_.
     rbind (raise_if (blank (au_reason a)) (ValueError ''audit event requires a reason'')) (\<lambda>_.
     rbind (raise_if (blank (au_trace_id a)) (ValueError ''audit event requires a trace id'')) (\<lambda>_.
     rbind (aw (au_occurred_at a)) (\<lambda>_. Inr a))))"

end
