(* ===== verification/Task_Machine.thy ===== *)
theory Task_Machine
  imports Domain
begin

text \<open>
  The task state machine (\<open>domain/state_machine.py\<close>): the transition table, the guarded
  transition \<open>transition_task\<close>, and the step relation it induces on stored snapshots,
  whose reachable states keep the invariant \<open>task_inv\<close>.
\<close>

section \<open>The transition table and the guarded transition\<close>

fun allowed_transitions :: "task_status \<Rightarrow> task_status list" where
  "allowed_transitions DRAFT = [PLANNED, CANCELLED]"
| "allowed_transitions PLANNED = [READY, DEFERRED, CANCELLED]"
| "allowed_transitions READY = [IN_PROGRESS, WAITING, BLOCKED, DEFERRED]"
| "allowed_transitions IN_PROGRESS = [DONE, WAITING, BLOCKED, READY]"
| "allowed_transitions WAITING = [READY, CANCELLED]"
| "allowed_transitions BLOCKED = [READY, CANCELLED]"
| "allowed_transitions DONE = [IN_PROGRESS]"
| "allowed_transitions DEFERRED = [PLANNED, READY, CANCELLED]"
| "allowed_transitions CANCELLED = [PLANNED]"

text \<open>The keyword arguments of \<open>transition_task\<close>.\<close>

record transition_args =
  waiting_resolved :: bool
  blocker_resolved :: bool
  completion_confirmed :: bool
  waiting_reason :: "string option"

definition no_args :: transition_args where
  "no_args = \<lparr>waiting_resolved = False, blocker_resolved = False,
     completion_confirmed = False, waiting_reason = None\<rparr>"

text \<open>\<open>a or b or ''\<close> on optional strings: \<open>None\<close> and the empty string are falsy.\<close>

fun str_or :: "string option \<Rightarrow> string \<Rightarrow> string" where
  "str_or (Some (c # cs)) d = c # cs"
| "str_or _ d = d"

definition requested_reason :: "transition_args \<Rightarrow> task \<Rightarrow> string option" where
  "requested_reason a t =
     (let r = strip (str_or (waiting_reason a) (str_or (ts_waiting_reason t) ''''))
      in if r = [] then None else Some r)"

definition next_reason :: "transition_args \<Rightarrow> task \<Rightarrow> task_status \<Rightarrow> string option res" where
  "next_reason a t target =
     (if target = WAITING then
        rbind (raise_if (requested_reason a t = None)
          (ValueError ''waiting reason required to enter waiting'')) (\<lambda>_.
        Inr (requested_reason a t))
      else if ts_status t = WAITING then Inr None
      else Inr (ts_waiting_reason t))"

definition transition_task :: "task \<Rightarrow> task_status \<Rightarrow> transition_args \<Rightarrow> task res" where
  "transition_task t target a =
     rbind (raise_if (target \<notin> set (allowed_transitions (ts_status t)))
       (ValueError (''transition '' @ task_status_value (ts_status t) @ '' -> ''
          @ task_status_value target @ '' is not allowed''))) (\<lambda>_.
     rbind (raise_if (ts_status t = WAITING \<and> target = READY \<and> \<not> waiting_resolved a)
       (ValueError ''waiting condition must be resolved before Ready'')) (\<lambda>_.
     rbind (raise_if (ts_status t = BLOCKED \<and> target = READY \<and> \<not> blocker_resolved a)
       (ValueError ''blocker must be resolved before Ready'')) (\<lambda>_.
     rbind (raise_if (target = DONE \<and> \<not> completion_confirmed a)
       (ValueError ''DONE requires completion confirmation'')) (\<lambda>_.
     rbind (raise_if (target = DONE \<and> (ts_remaining_base t \<noteq> 0 \<or> ts_remaining_safety t \<noteq> 0))
       (ValueError ''remaining work must reach zero before DONE'')) (\<lambda>_.
     rbind (next_reason a t target) (\<lambda>reason.
     if target = CANCELLED
     then mk_task aware_instant (t\<lparr>ts_status := target, ts_waiting_reason := reason,
            ts_remaining_base := 0, ts_remaining_safety := 0, ts_version := ts_version t + 1\<rparr>)
     else mk_task aware_instant (t\<lparr>ts_status := target, ts_waiting_reason := reason,
            ts_version := ts_version t + 1\<rparr>)))))))"

section \<open>One transition\<close>

text \<open>The conditions under which the code lets a task go to \<open>target\<close>.\<close>

definition transition_enabled :: "task \<Rightarrow> task_status \<Rightarrow> transition_args \<Rightarrow> bool" where
  "transition_enabled t target a \<longleftrightarrow>
     target \<in> set (allowed_transitions (ts_status t))
     \<and> (ts_status t = WAITING \<and> target = READY \<longrightarrow> waiting_resolved a)
     \<and> (ts_status t = BLOCKED \<and> target = READY \<longrightarrow> blocker_resolved a)
     \<and> (target = DONE \<longrightarrow> completion_confirmed a
          \<and> ts_remaining_base t = 0 \<and> ts_remaining_safety t = 0)
     \<and> (target = WAITING \<longrightarrow> requested_reason a t \<noteq> None)"

text \<open>The snapshot an enabled transition returns.\<close>

definition after_transition :: "task \<Rightarrow> task_status \<Rightarrow> transition_args \<Rightarrow> task" where
  "after_transition t target a =
     t\<lparr>ts_status := target,
       ts_waiting_reason := (if target = WAITING then requested_reason a t
         else if ts_status t = WAITING then None else ts_waiting_reason t),
       ts_remaining_base := (if target = CANCELLED then 0 else ts_remaining_base t),
       ts_remaining_safety := (if target = CANCELLED then 0 else ts_remaining_safety t),
       ts_version := ts_version t + 1\<rparr>"

lemma no_self_transition: "target \<in> set (allowed_transitions s) \<Longrightarrow> target \<noteq> s"
  by (cases s) auto

lemma after_transition_wf:
  "wf_task t \<Longrightarrow> transition_enabled t target a \<Longrightarrow> wf_task (after_transition t target a)"
  by (auto simp: wf_task_def after_transition_def transition_enabled_def)

lemma next_reason_Inr_iff:
  "next_reason a t target = Inr r \<longleftrightarrow>
     (target = WAITING \<longrightarrow> requested_reason a t \<noteq> None)
     \<and> r = ts_waiting_reason (after_transition t target a)"
  by (auto simp: next_reason_def after_transition_def res_simps)

lemma transition_task_Inr_iff:
  assumes "wf_task t"
  shows "transition_task t target a = Inr t' \<longleftrightarrow>
           transition_enabled t target a \<and> t' = after_transition t target a"
proof -
  let ?u = "after_transition t target a"
  let ?m = "\<lambda>r. if target = CANCELLED
     then mk_task aware_instant (t\<lparr>ts_status := target, ts_waiting_reason := r,
            ts_remaining_base := 0, ts_remaining_safety := 0, ts_version := ts_version t + 1\<rparr>)
     else mk_task aware_instant (t\<lparr>ts_status := target, ts_waiting_reason := r,
            ts_version := ts_version t + 1\<rparr>)"
  have m: "?m (ts_waiting_reason ?u) = mk_task aware_instant ?u"
    by (simp add: after_transition_def)
  have "transition_task t target a = Inr t' \<longleftrightarrow>
      transition_enabled t target a \<and> ?m (ts_waiting_reason ?u) = Inr t'"
    unfolding transition_task_def transition_enabled_def rbind_Inr_iff raise_if_Inr_iff
      next_reason_Inr_iff by blast
  then show ?thesis
    using after_transition_wf [OF assms] unfolding m mk_task_instant by blast
qed

text \<open>
  On a stored task, \<open>transition_task\<close> succeeds exactly when the transition table
  allows the target and its guards hold (waiting or blocker resolved, completion
  confirmed with no remaining work, a waiting reason given); it then returns a valid
  snapshot with the target status, the version incremented and every other field except
  the waiting reason and (on cancellation) the remaining minutes unchanged.
\<close>

theorem transition_task_exact:
  assumes "wf_task t"
  shows "((\<exists>t'. transition_task t target a = Inr t') \<longleftrightarrow> transition_enabled t target a)
    \<and> (\<forall>t'. transition_task t target a = Inr t' \<longrightarrow>
      wf_task t' \<and> ts_status t' = target \<and> ts_version t' = ts_version t + 1
      \<and> t' = after_transition t target a)"
  using transition_task_Inr_iff [OF assms] after_transition_wf [OF assms]
  by (auto simp: after_transition_def)

definition sample_task :: task where
  "sample_task = \<lparr>ts_id = TaskId 1, ts_workspace = WorkspaceId 7, ts_workstream = WorkstreamId 3,
     ts_milestone = Some (MilestoneId 5), ts_title = ''report'', ts_status = IN_PROGRESS,
     ts_deadline_date = None, ts_deadline_at = None, ts_deadline_time_known = False,
     ts_start_after = None, ts_base_duration = 60, ts_safety_duration = 90,
     ts_remaining_base = 0, ts_remaining_safety = 0, ts_uncertainty = LOW_U,
     ts_splittable = True, ts_min_chunk = 30, ts_pinned = False, ts_waiting_reason = None,
     ts_version = 4\<rparr>"

lemma sample_task_wf: "wf_task sample_task"
  by (simp add: wf_task_def sample_task_def blank_iff is_py_space_def)

lemma transition_task_exact_witness:
  "wf_task sample_task
   \<and> transition_task sample_task DONE (no_args\<lparr>completion_confirmed := True\<rparr>)
       = Inr (after_transition sample_task DONE (no_args\<lparr>completion_confirmed := True\<rparr>))
   \<and> \<not> (\<exists>t'. transition_task sample_task DONE no_args = Inr t')"
proof -
  have en: "transition_enabled sample_task DONE (no_args\<lparr>completion_confirmed := True\<rparr>)"
    by (simp add: transition_enabled_def sample_task_def no_args_def)
  have dis: "\<not> transition_enabled sample_task DONE no_args"
    by (simp add: transition_enabled_def no_args_def)
  show ?thesis
    using transition_task_exact [OF sample_task_wf] sample_task_wf en dis by metis
qed

section \<open>Reachable tasks\<close>

inductive task_step :: "task \<Rightarrow> task \<Rightarrow> bool" where
  step: "transition_task t target a = Inr t' \<Longrightarrow> task_step t t'"

inductive task_reach :: "task \<Rightarrow> task \<Rightarrow> bool" for t0 where
  start: "task_reach t0 t0"
| step: "task_reach t0 t \<Longrightarrow> task_step t t' \<Longrightarrow> task_reach t0 t'"

inductive_cases task_stepE: "task_step t t'"

definition task_inv :: "task \<Rightarrow> bool" where
  "task_inv t \<longleftrightarrow> wf_task t
     \<and> (ts_status t = WAITING \<longleftrightarrow> ts_waiting_reason t \<noteq> None)
     \<and> (\<forall>r. ts_waiting_reason t = Some r \<longrightarrow> \<not> blank r)"

lemma requested_reason_not_blank: "requested_reason a t = Some r \<Longrightarrow> \<not> blank r"
  using strip_blank_strip by (auto simp: requested_reason_def Let_def blank_def split: if_splits)

lemma task_step_inv:
  assumes "task_inv t" and "task_step t t'"
  shows "task_inv t' \<and> ts_version t' = ts_version t + 1 \<and> ts_id t' = ts_id t
     \<and> (ts_remaining_base t' = ts_remaining_base t \<or> ts_remaining_base t' = 0)"
proof -
  from assms(2) obtain target a where tr: "transition_task t target a = Inr t'"
    by (rule task_stepE)
  have wf: "wf_task t" using assms(1) by (simp add: task_inv_def)
  from tr have en: "transition_enabled t target a" and t': "t' = after_transition t target a"
    by (simp_all add: transition_task_Inr_iff [OF wf])
  have "wf_task t'" using after_transition_wf [OF wf en] t' by simp
  moreover have "target \<noteq> ts_status t"
    using en no_self_transition [of target "ts_status t"] unfolding transition_enabled_def by blast
  moreover have "ts_status t' = target"
    and r: "ts_waiting_reason t' = (if target = WAITING then requested_reason a t
         else if ts_status t = WAITING then None else ts_waiting_reason t)"
    and "ts_version t' = ts_version t + 1" "ts_id t' = ts_id t"
    and "ts_remaining_base t' = ts_remaining_base t \<or> ts_remaining_base t' = 0"
    by (simp_all add: t' after_transition_def)
  moreover have "target = WAITING \<longrightarrow> requested_reason a t \<noteq> None"
    using en by (simp add: transition_enabled_def)
  moreover have "(ts_status t = WAITING) = (ts_waiting_reason t \<noteq> None)"
    using assms(1) by (simp add: task_inv_def)
  ultimately show ?thesis
    unfolding task_inv_def using requested_reason_not_blank [of a t]
    by (cases "target = WAITING"; cases "ts_status t = WAITING") simp_all
qed

text \<open>
  C12. Every task reachable from a stored task whose waiting reason matches its status
  keeps the invariants of a stored task, has a non-blank waiting reason exactly while it
  waits, has no remaining work once done or cancelled, keeps its identity, and never has
  a smaller version than it started with.
\<close>

theorem task_reach_inv:
  assumes "task_reach t0 t" and "task_inv t0"
  shows "task_inv t \<and> ts_version t0 \<le> ts_version t \<and> ts_id t = ts_id t0
    \<and> (closed_status (ts_status t) \<longrightarrow> ts_remaining_base t = 0 \<and> ts_remaining_safety t = 0)"
  using assms
proof (induction rule: task_reach.induct)
  case start
  then show ?case by (simp add: task_inv_def wf_task_def)
next
  case (step t t')
  then have inv: "task_inv t" and v: "ts_version t0 \<le> ts_version t" "ts_id t = ts_id t0" by auto
  from task_step_inv [OF inv step.hyps(2)] v show ?case
    by (auto simp: task_inv_def wf_task_def)
qed

lemma task_reach_inv_witness:
  "task_reach sample_task (after_transition sample_task WAITING (no_args\<lparr>waiting_reason := Some ''review''\<rparr>))
   \<and> task_inv sample_task
   \<and> ts_waiting_reason (after_transition sample_task WAITING (no_args\<lparr>waiting_reason := Some ''review''\<rparr>)) \<noteq> None"
proof -
  let ?a = "no_args\<lparr>waiting_reason := Some ''review''\<rparr>"
  have inv: "task_inv sample_task"
    using sample_task_wf by (simp add: task_inv_def sample_task_def)
  have r: "strip ''review'' = ''review''" by code_simp
  have "transition_enabled sample_task WAITING ?a"
    by (simp add: transition_enabled_def sample_task_def no_args_def requested_reason_def r)
  then have "transition_task sample_task WAITING ?a = Inr (after_transition sample_task WAITING ?a)"
    by (simp add: transition_task_Inr_iff [OF sample_task_wf])
  then have reach: "task_reach sample_task (after_transition sample_task WAITING ?a)"
    by (blast intro: task_reach.intros task_step.intros)
  let ?t = "after_transition sample_task WAITING ?a"
  have "ts_status ?t = WAITING" by (simp add: after_transition_def)
  moreover have "task_inv ?t" using task_reach_inv [OF reach inv] by (rule conjunct1)
  ultimately have "ts_waiting_reason ?t \<noteq> None" unfolding task_inv_def by blast
  with reach inv show ?thesis by (intro conjI)
qed

end
