(* ===== verification/Approval.thy ===== *)
theory Approval
  imports Domain
begin

text \<open>
  Version-bound approvals (\<open>domain/approval.py\<close>) and the authority policy table
  (\<open>domain/authorization.py\<close>): what \<open>validate_use\<close> accepts, and when it can.
\<close>

section \<open>The authority policy\<close>

fun authorization_level :: "action_type \<Rightarrow> auth_level" where
  "authorization_level CLASSIFY_INPUT = AUTOMATIC"
| "authorization_level PRODUCE_DRAFT_PLAN = AUTOMATIC"
| "authorization_level CALCULATE_PRIORITY = AUTOMATIC"
| "authorization_level CREATE_LOW_HARM_TASK = AUTOMATIC_NOTIFY"
| "authorization_level RESCHEDULE_LOW_RISK_TASK = AUTOMATIC_NOTIFY"
| "authorization_level CREATE_FOCUS_BLOCK = APPROVAL"
| "authorization_level CHANGE_SCOPE = APPROVAL"
| "authorization_level CHANGE_HARD_DEADLINE = RECONFIRM"
| "authorization_level CHANGE_FIXED_EVENT = RECONFIRM"
| "authorization_level SEND_EXTERNAL_MESSAGE = RECONFIRM"
| "authorization_level SUBMIT_EXTERNAL_ARTIFACT = RECONFIRM"
| "authorization_level CANCEL_PROJECT = RECONFIRM"
| "authorization_level IRREVERSIBLE_ACTION = RECONFIRM"

section \<open>Approvals\<close>

record approval_target =
  at_kind :: string
  at_id :: string
  at_expected :: int

definition mk_approval_target :: "approval_target \<Rightarrow> approval_target res" where
  "mk_approval_target t =
     rbind (raise_if (blank (at_kind t) \<or> blank (at_id t))
       (ValueError ''approval target requires kind and id'')) (\<lambda>_.
     rbind (raise_if (at_expected t < 1) (ValueError ''expected_version must be positive'')) (\<lambda>_.
     Inr t))"

record 'dt approval_snapshot =
  ap_id :: uuid
  ap_workspace :: workspace_id
  ap_actor :: uuid
  ap_proposal :: uuid
  ap_proposal_version :: int
  ap_action :: action_type
  ap_command_hash :: string
  ap_targets :: "approval_target list"
  ap_granted_at :: 'dt
  ap_expires_at :: "'dt option"

type_synonym approval = "instant approval_snapshot"

definition mk_approval :: "('dt \<Rightarrow> instant res) \<Rightarrow> 'dt approval_snapshot \<Rightarrow> approval res" where
  "mk_approval aw p =
     rbind (aw (ap_granted_at p)) (\<lambda>g.
     rbind (opt_aware aw (ap_expires_at p)) (\<lambda>x.
     rbind (raise_if (blank (ap_command_hash p)) (ValueError ''command hash must not be empty'')) (\<lambda>_.
     rbind (raise_if (ap_targets p = [])
       (ValueError ''approval requires at least one bound target'')) (\<lambda>_.
     Inr \<lparr>ap_id = ap_id p, ap_workspace = ap_workspace p, ap_actor = ap_actor p,
       ap_proposal = ap_proposal p, ap_proposal_version = ap_proposal_version p,
       ap_action = ap_action p, ap_command_hash = ap_command_hash p, ap_targets = ap_targets p,
       ap_granted_at = g, ap_expires_at = x\<rparr>))))"

definition target_key :: "approval_target \<Rightarrow> string \<times> string" where
  "target_key t = (at_kind t, at_id t)"

text \<open>The loop over the bound targets: the first given target with the object id decides.\<close>

definition target_versions_match :: "approval_target list \<Rightarrow> approval_target \<Rightarrow> bool" where
  "target_versions_match given b =
     (case find (\<lambda>c. at_id c = at_id b) given of
        None \<Rightarrow> False
      | Some c \<Rightarrow> at_expected c = at_expected b)"

definition validate_use :: "('dt \<Rightarrow> instant res) \<Rightarrow> approval \<Rightarrow> 'dt \<Rightarrow> int \<Rightarrow> string \<Rightarrow>
    approval_target list \<Rightarrow> workspace_id \<Rightarrow> action_type \<Rightarrow> unit res" where
  "validate_use aw p now version hash targets ws action =
     rbind (raise_if (ws \<noteq> ap_workspace p)
       (ValueError ''approval belongs to another workspace'')) (\<lambda>_.
     rbind (raise_if (action \<noteq> ap_action p)
       (ValueError ''stale approval: action class differs'')) (\<lambda>_.
     rbind (raise_if (version \<noteq> ap_proposal_version p \<or> hash \<noteq> ap_command_hash p)
       (ValueError ''stale approval: proposal or command payload changed'')) (\<lambda>_.
     rbind (raise_if (sort_key target_key targets \<noteq> sort_key target_key (ap_targets p))
       (ValueError ''stale approval: bound targets changed'')) (\<lambda>_.
     rbind (raise_if (\<not> list_all (target_versions_match targets) (ap_targets p))
       (ValueError ''stale approval: target object versions changed'')) (\<lambda>_.
     rbind (aw now) (\<lambda>t.
     raise_if (case ap_expires_at p of None \<Rightarrow> False | Some x \<Rightarrow> x \<le> t)
       (ValueError ''approval expired'')))))))"

section \<open>What an approval authorizes\<close>

definition unexpired :: "approval \<Rightarrow> instant \<Rightarrow> bool" where
  "unexpired p t \<longleftrightarrow> (\<forall>x. ap_expires_at p = Some x \<longrightarrow> t < x)"

lemma validate_use_Inr_iff:
  "validate_use aw p now version hash targets ws action = Inr () \<longleftrightarrow>
     ws = ap_workspace p \<and> action = ap_action p \<and> version = ap_proposal_version p
     \<and> hash = ap_command_hash p
     \<and> sort_key target_key targets = sort_key target_key (ap_targets p)
     \<and> list_all (target_versions_match targets) (ap_targets p)
     \<and> (\<exists>t. aw now = Inr t \<and> unexpired p t)"
  by (auto simp: validate_use_def res_simps unexpired_def not_le split: option.splits)

lemma sort_key_eq_mset: "sort_key f xs = sort_key f ys \<Longrightarrow> mset xs = mset ys"
  by (metis mset_sort)

text \<open>
  C11. When \<open>validate_use\<close> accepts a command, the command is the approved one: same
  workspace, action class, proposal version and payload hash, exactly the bound targets
  with their expected versions (as a multiset), an aware current time, and before expiry.
\<close>

theorem validate_use_sound:
  assumes "validate_use require_aware_utc p now version hash targets ws action = Inr ()"
  shows "ws = ap_workspace p \<and> action = ap_action p \<and> version = ap_proposal_version p
    \<and> hash = ap_command_hash p \<and> mset targets = mset (ap_targets p)
    \<and> (\<exists>w off. now = Aware w off \<and> unexpired p (w - off))"
  using assms unfolding validate_use_Inr_iff require_aware_utc_Inr_iff
  by (blast dest: sort_key_eq_mset)

definition sample_target :: "string \<Rightarrow> string \<Rightarrow> int \<Rightarrow> approval_target" where
  "sample_target k i v = \<lparr>at_kind = k, at_id = i, at_expected = v\<rparr>"

definition sample_approval :: "approval_target list \<Rightarrow> approval" where
  "sample_approval ts = \<lparr>ap_id = 1, ap_workspace = WorkspaceId 7, ap_actor = 2, ap_proposal = 3,
     ap_proposal_version = 2, ap_action = CHANGE_SCOPE, ap_command_hash = ''h'', ap_targets = ts,
     ap_granted_at = 0, ap_expires_at = Some 100\<rparr>"

lemma validate_use_sound_witness:
  "validate_use require_aware_utc (sample_approval [sample_target ''task'' ''a'' 1, sample_target ''task'' ''b'' 4])
     (Aware 60 10) 2 ''h'' [sample_target ''task'' ''b'' 4, sample_target ''task'' ''a'' 1]
     (WorkspaceId 7) CHANGE_SCOPE = Inr ()
   \<and> unexpired (sample_approval [sample_target ''task'' ''a'' 1, sample_target ''task'' ''b'' 4]) 50"
proof -
  let ?p = "sample_approval [sample_target ''task'' ''a'' 1, sample_target ''task'' ''b'' 4]"
  have v: "validate_use require_aware_utc ?p (Aware 60 10) 2 ''h''
      [sample_target ''task'' ''b'' 4, sample_target ''task'' ''a'' 1] (WorkspaceId 7) CHANGE_SCOPE = Inr ()"
    by code_simp
  from validate_use_sound [OF v] have "unexpired ?p 50" by simp
  with v show ?thesis by (rule conjI)
qed

text \<open>
  An unexpired approval accepts the approved command whatever the order its targets
  are given in, provided the targets have pairwise different object ids.
\<close>

theorem validate_use_complete:
  assumes "mset targets = mset (ap_targets p)" and "distinct (map at_id targets)"
    and "unexpired p (w - off)"
  shows "validate_use require_aware_utc p (Aware w off) (ap_proposal_version p)
    (ap_command_hash p) targets (ap_workspace p) (ap_action p) = Inr ()"
proof -
  have set: "set targets = set (ap_targets p)" using assms(1) by (rule mset_eq_setD)
  have inj: "inj_on at_id (set targets)" using assms(2) by (simp add: distinct_map)
  then have "inj_on target_key (set targets)"
    by (auto simp: inj_on_def target_key_def)
  then have "sort_key target_key targets = sort_key target_key (ap_targets p)"
    by (rule sort_key_perm_eq [OF assms(1)])
  moreover have "list_all (target_versions_match targets) (ap_targets p)"
    unfolding list_all_iff
  proof
    fix b assume b: "b \<in> set (ap_targets p)"
    then have "find (\<lambda>c. at_id c = at_id b) targets \<noteq> None"
      using set by (auto simp: find_None_iff)
    then obtain c where c: "find (\<lambda>c. at_id c = at_id b) targets = Some c" by auto
    then have "c \<in> set targets" "at_id c = at_id b"
      by (auto simp: find_Some_iff)
    with inj b set have "c = b" by (auto dest: inj_onD)
    with c show "target_versions_match targets b" by (simp add: target_versions_match_def)
  qed
  ultimately show ?thesis using assms(3) by (simp add: validate_use_Inr_iff)
qed

lemma validate_use_complete_witness:
  "validate_use require_aware_utc (sample_approval [sample_target ''task'' ''a'' 1, sample_target ''task'' ''b'' 4])
     (Aware 99 0) 2 ''h'' [sample_target ''task'' ''b'' 4, sample_target ''task'' ''a'' 1]
     (WorkspaceId 7) CHANGE_SCOPE = Inr ()"
  using validate_use_complete [of "[sample_target ''task'' ''b'' 4, sample_target ''task'' ''a'' 1]"
      "sample_approval [sample_target ''task'' ''a'' 1, sample_target ''task'' ''b'' 4]" 99 0]
  by (simp add: sample_approval_def sample_target_def unexpired_def)

text \<open>
  The check of target versions looks targets up by object id alone: an approval that
  binds one object id twice at different versions (as two kinds) can never be used, not
  even for exactly the command it was granted for.
\<close>

theorem approval_with_shared_id_unusable:
  assumes "b1 \<in> set (ap_targets p)" and "b2 \<in> set (ap_targets p)"
    and "at_id b1 = at_id b2" and "at_expected b1 \<noteq> at_expected b2"
  shows "validate_use aw p now version hash targets ws action \<noteq> Inr ()"
proof
  assume "validate_use aw p now version hash targets ws action = Inr ()"
  then have all: "list_all (target_versions_match targets) (ap_targets p)"
    unfolding validate_use_Inr_iff by blast
  then have "target_versions_match targets b1" "target_versions_match targets b2"
    using assms(1,2) by (auto simp: list_all_iff)
  with assms(3,4) show False
    by (auto simp: target_versions_match_def split: option.splits)
qed

lemma approval_with_shared_id_unusable_witness:
  "validate_use require_aware_utc (sample_approval [sample_target ''milestone'' ''a'' 1, sample_target ''task'' ''a'' 2])
     (Aware 60 0) 2 ''h'' [sample_target ''milestone'' ''a'' 1, sample_target ''task'' ''a'' 2]
     (WorkspaceId 7) CHANGE_SCOPE \<noteq> Inr ()"
  by (rule approval_with_shared_id_unusable
      [of "sample_target ''milestone'' ''a'' 1" _ "sample_target ''task'' ''a'' 2"])
    (simp_all add: sample_approval_def sample_target_def)

end
