(* ===== verification/Dependencies.thy ===== *)
theory Dependencies
  imports Domain
begin

text \<open>
  Task dependencies and cycle detection (\<open>domain/dependency.py\<close>, \<open>domain/errors.py\<close>,
  \<open>graph/cycles.py\<close>): the dependency graph and its views, and the iterative Tarjan
  algorithm, with its loops as recursive functions. A \<open>frozenset\<close> is a list without
  duplicates. \<open>scc_iter\<close> is one turn of the outer \<open>while work\<close> loop and \<open>scan\<close> the inner
  loop over the successors; the stacks have their top at the head. The loop ends because
  every turn indexes a new node or pops the work stack.
\<close>

section \<open>The dependency graph\<close>

type_synonym dependency_graph = "task_dependency list"

definition dep_key :: "task_dependency \<Rightarrow> task_id \<times> task_id \<times> string" where
  "dep_key d = (dp_predecessor d, dp_successor d, dependency_type_value (dp_type d))"

definition mk_graph :: "task_dependency list \<Rightarrow> dependency_graph" where
  "mk_graph deps = sort_key dep_key deps"

fun check_dependencies :: "(task_id \<times> task_id \<times> string) list \<Rightarrow> task_dependency list \<Rightarrow> unit res" where
  "check_dependencies seen [] = Inr ()"
| "check_dependencies seen (d # ds) =
     rbind (raise_if (dep_key d \<in> set seen) (ValueError ''duplicate dependency'')) (\<lambda>_.
     rbind (raise_if (tid_value (dp_predecessor d) = 0) (ValueError ''nil predecessor id'')) (\<lambda>_.
     check_dependencies seen ds))"

text \<open>
  The source never adds a key to \<open>seen\<close>: the set stays empty for the whole loop, and only
  the nil check can fail.
\<close>

definition from_dependencies :: "task_dependency list \<Rightarrow> dependency_graph res" where
  "from_dependencies deps = rbind (check_dependencies [] deps) (\<lambda>_. Inr (mk_graph deps))"

lemma check_dependencies_result:
  "check_dependencies [] ds =
     (if \<exists>d\<in>set ds. tid_value (dp_predecessor d) = 0
      then Inl (ValueError ''nil predecessor id'') else Inr ())"
  by (induction ds) (auto simp: raise_if_def)

text \<open>
  Building the graph fails exactly when some predecessor id is nil. It never rejects a
  dependency list for its duplicates, although the code has a check and a message for
  them: the keys it compares with are never recorded.
\<close>

theorem from_dependencies_result:
  "from_dependencies deps =
     (if \<exists>d\<in>set deps. tid_value (dp_predecessor d) = 0
      then Inl (ValueError ''nil predecessor id'') else Inr (mk_graph deps))"
  by (simp add: from_dependencies_def check_dependencies_result)

definition start_predecessors :: "dependency_graph \<Rightarrow> task_id \<Rightarrow> task_id list" where
  "start_predecessors g t = remdups (map dp_predecessor
     (filter (\<lambda>d. dp_successor d = t \<and> dp_type d = BLOCKS_START) g))"

definition start_successors :: "dependency_graph \<Rightarrow> task_id \<Rightarrow> task_id list" where
  "start_successors g t = remdups (map dp_successor
     (filter (\<lambda>d. dp_predecessor d = t \<and> dp_type d = BLOCKS_START) g))"

definition completion_gates :: "dependency_graph \<Rightarrow> task_id \<Rightarrow> task_id list" where
  "completion_gates g t = remdups (map dp_predecessor
     (filter (\<lambda>d. dp_successor d = t \<and> dp_type d = BLOCKS_COMPLETION) g))"

section \<open>The graph the cycle detection runs on\<close>

definition cycle_edge :: "task_dependency \<Rightarrow> bool" where
  "cycle_edge d \<longleftrightarrow> dp_type d = BLOCKS_START \<or> dp_type d = BLOCKS_COMPLETION"

type_synonym adjacency = "(task_id, task_id list) dict"

definition adjacency_add :: "task_dependency \<Rightarrow> adjacency \<Rightarrow> adjacency" where
  "adjacency_add d adj =
     (let succs = dget adj (dp_predecessor d) [];
          adj' = AList.update (dp_predecessor d) (List.insert (dp_successor d) succs) adj
      in dsetdefault (dp_successor d) [] adj')"

definition cycle_adjacency :: "dependency_graph \<Rightarrow> adjacency" where
  "cycle_adjacency g = fold adjacency_add (filter cycle_edge g) []"

section \<open>Strongly connected components\<close>

type_synonym work_entry = "task_id \<times> task_id list \<times> nat"

record scc_state =
  sc_counter :: nat
  sc_index :: "task_id \<rightharpoonup> nat"
  sc_low :: "task_id \<Rightarrow> nat"
  sc_stack :: "task_id list"
  sc_on_stack :: "task_id set"
  sc_components :: "task_id list list"
  sc_work :: "work_entry list"

definition scc_init :: scc_state where
  "scc_init = \<lparr>sc_counter = 0, sc_index = Map.empty, sc_low = (\<lambda>_. 0), sc_stack = [],
     sc_on_stack = {}, sc_components = [], sc_work = []\<rparr>"

text \<open>
  The index of a node that has one (every use below is of an indexed node; a node gets its
  \<open>lowlink\<close> together with its index, so the two have the same keys).
\<close>

definition index_of :: "scc_state \<Rightarrow> task_id \<Rightarrow> nat" where
  "index_of st v = (case sc_index st v of Some i \<Rightarrow> i | None \<Rightarrow> 0)"

text \<open>
  Entering a node: \<open>indices[v] = lowlink[v] = next_index()\<close>, pushed on both stacks.
  \<open>adjacency[v]\<close> raises \<open>KeyError\<close> when \<open>v\<close> is no key.
\<close>

definition discover :: "adjacency \<Rightarrow> task_id \<Rightarrow> scc_state \<Rightarrow> scc_state res" where
  "discover adj v st =
     (case map_of adj v of
        None \<Rightarrow> Inl KeyError
      | Some succs \<Rightarrow> Inr (st\<lparr>sc_counter := sc_counter st + 1,
          sc_index := (sc_index st)(v \<mapsto> sc_counter st),
          sc_low := (sc_low st)(v := sc_counter st),
          sc_stack := v # sc_stack st, sc_on_stack := insert v (sc_on_stack st),
          sc_work := (v, sort succs, 0) # sc_work st\<rparr>))"

function scan :: "adjacency \<Rightarrow> task_id \<Rightarrow> task_id list \<Rightarrow> nat \<Rightarrow> scc_state
    \<Rightarrow> (bool \<times> scc_state) res" where
  "scan adj node succs ptr st =
     (if ptr < length succs then
        let s = succs ! ptr in
        if sc_index st s = None then
          rbind (discover adj s (st\<lparr>sc_work := (node, succs, ptr + 1) # sc_work st\<rparr>))
            (\<lambda>st'. Inr (True, st'))
        else if s \<in> sc_on_stack st then
          scan adj node succs (ptr + 1)
            (st\<lparr>sc_low := (sc_low st)(node := min (sc_low st node) (index_of st s))\<rparr>)
        else scan adj node succs (ptr + 1) st
      else Inr (False, st))"
  by pat_completeness auto
termination
  by (relation "measure (\<lambda>(adj, node, succs, ptr, st). length succs - ptr)") auto

declare scan.simps [simp del]

text \<open>\<open>while True: member = stack.pop() \<dots> if member == node: break\<close>\<close>

fun pop_component :: "task_id \<Rightarrow> task_id list \<Rightarrow> task_id set
    \<Rightarrow> (task_id list \<times> task_id list \<times> task_id set) res" where
  "pop_component node [] on = Inl IndexError"
| "pop_component node (m # st) on =
     (if m = node then Inr ([m], st, on - {m})
      else rbind (pop_component node st (on - {m})) (\<lambda>(comp, st', on'). Inr (m # comp, st', on')))"

definition close_node :: "task_id \<Rightarrow> scc_state \<Rightarrow> scc_state res" where
  "close_node node st =
     (if sc_low st node = index_of st node then
        rbind (pop_component node (sc_stack st) (sc_on_stack st)) (\<lambda>(comp, stack, on).
        Inr (st\<lparr>sc_stack := stack, sc_on_stack := on,
               sc_components := sc_components st @ [comp]\<rparr>))
      else Inr st)"

definition lift_low :: "task_id \<Rightarrow> scc_state \<Rightarrow> scc_state" where
  "lift_low node st =
     (case sc_work st of
        [] \<Rightarrow> st
      | (parent, _, _) # _ \<Rightarrow>
          st\<lparr>sc_low := (sc_low st)(parent := min (sc_low st parent) (sc_low st node))\<rparr>)"

definition scc_iter :: "adjacency \<Rightarrow> work_entry \<Rightarrow> scc_state \<Rightarrow> scc_state res" where
  "scc_iter adj e st =
     (case e of (node, succs, ptr) \<Rightarrow>
        rbind (scan adj node succs ptr st) (\<lambda>(advanced, st1).
        if advanced then Inr st1
        else rbind (close_node node st1) (\<lambda>st2. Inr (lift_low node st2))))"

definition unindexed :: "adjacency \<Rightarrow> scc_state \<Rightarrow> task_id set" where
  "unindexed adj st = set (map fst adj) - dom (sc_index st)"

lemma finite_unindexed [simp]: "finite (unindexed adj st)"
  by (simp add: unindexed_def)

lemma unindexed_frame [simp]:
  "unindexed adj (st\<lparr>sc_low := l\<rparr>) = unindexed adj st"
  "unindexed adj (st\<lparr>sc_work := w\<rparr>) = unindexed adj st"
  by (simp_all add: unindexed_def)

lemma discover_decreases:
  assumes "discover adj v st = Inr st'" and "sc_index st v = None"
  shows "unindexed adj st' \<subset> unindexed adj st"
proof -
  from assms(1) obtain succs where m: "map_of adj v = Some succs"
    and i: "sc_index st' = (sc_index st)(v \<mapsto> sc_counter st)"
    by (auto simp: discover_def split: option.splits)
  have "v \<in> set (map fst adj)" using map_of_SomeD [OF m] by force
  then show ?thesis using assms(2) by (auto simp: unindexed_def i)
qed

lemma scan_result:
  assumes "scan adj node succs ptr st = Inr (adv, st')"
  shows "if adv then unindexed adj st' \<subset> unindexed adj st
         else sc_work st' = sc_work st \<and> sc_index st' = sc_index st"
  using assms
proof (induction adj node succs ptr st rule: scan.induct)
  case (1 adj node succs ptr st)
  show ?case
  proof (cases "ptr < length succs")
    case True
    let ?s = "succs ! ptr"
    show ?thesis
    proof (cases "sc_index st ?s = None")
      case none: True
      from "1.prems" True none show ?thesis
        by (auto simp: scan.simps [of adj node succs ptr st] Let_def res_simps dest!: discover_decreases)
    next
      case some: False
      show ?thesis
      proof (cases "?s \<in> sc_on_stack st")
        case on: True
        let ?st = "st\<lparr>sc_low := (sc_low st)(node := min (sc_low st node) (index_of st ?s))\<rparr>"
        have "scan adj node succs (ptr + 1) ?st = Inr (adv, st')"
          using "1.prems" True some on by (simp add: scan.simps [of adj node succs ptr st])
        from "1.IH"(1) [OF True refl some on this] show ?thesis
          by (cases adv) simp_all
      next
        case off: False
        have "scan adj node succs (ptr + 1) st = Inr (adv, st')"
          using "1.prems" True some off by (simp add: scan.simps [of adj node succs ptr st])
        then show ?thesis using "1.IH"(2) [OF True refl some off] by simp
      qed
    qed
  next
    case False
    with "1.prems" show ?thesis by (simp add: scan.simps [of adj node succs ptr st])
  qed
qed

lemma close_node_frame:
  "close_node node st = Inr st' \<Longrightarrow> sc_work st' = sc_work st \<and> sc_index st' = sc_index st"
  by (auto simp: close_node_def res_simps split: if_splits)

lemma lift_low_frame: "sc_work (lift_low node st) = sc_work st \<and> sc_index (lift_low node st) = sc_index st"
  by (auto simp: lift_low_def split: list.splits)

lemma scc_iter_decreases:
  assumes "scc_iter adj e (st\<lparr>sc_work := w\<rparr>) = Inr st'"
  shows "unindexed adj st' \<subset> unindexed adj st
    \<or> unindexed adj st' = unindexed adj st \<and> length (sc_work st') = length w"
proof -
  obtain node succs ptr where e: "e = (node, succs, ptr)" by (cases e)
  from assms obtain adv st1 where sc: "scan adj node succs ptr (st\<lparr>sc_work := w\<rparr>) = Inr (adv, st1)"
    and r: "if adv then st' = st1 else \<exists>st2. close_node node st1 = Inr st2 \<and> st' = lift_low node st2"
    by (auto simp: scc_iter_def e res_simps split: if_splits)
  show ?thesis
  proof (cases adv)
    case True
    with scan_result [OF sc] r show ?thesis by simp
  next
    case False
    with scan_result [OF sc] have "sc_work st1 = w" "sc_index st1 = sc_index st" by simp_all
    moreover from False r obtain st2 where "close_node node st1 = Inr st2" "st' = lift_low node st2"
      by auto
    ultimately have "sc_work st' = w" "sc_index st' = sc_index st"
      using close_node_frame [of node st1 st2] lift_low_frame [of node st2] by simp_all
    then show ?thesis by (simp add: unindexed_def)
  qed
qed

function scc_loop :: "adjacency \<Rightarrow> scc_state \<Rightarrow> scc_state res" where
  "scc_loop adj st =
     (case sc_work st of
        [] \<Rightarrow> Inr st
      | e # w \<Rightarrow> rbind (scc_iter adj e (st\<lparr>sc_work := w\<rparr>)) (scc_loop adj))"
  by pat_completeness auto
termination
proof (relation "measures [\<lambda>(adj, st). card (unindexed adj st), \<lambda>(adj, st). length (sc_work st)]",
    goal_cases)
  case 1 show ?case by simp
next
  case (2 adj st e w st')
  from scc_iter_decreases [OF 2(2)] show ?case
  proof
    assume "unindexed adj st' \<subset> unindexed adj st"
    then show ?thesis by (simp add: psubset_card_mono)
  next
    assume "unindexed adj st' = unindexed adj st \<and> length (sc_work st') = length w"
    then show ?thesis using 2(1) by simp
  qed
qed

declare scc_loop.simps [simp del]

text \<open>\<open>for root in sorted(adjacency): if root in indices: continue \<dots>\<close>\<close>

definition scc_root :: "adjacency \<Rightarrow> task_id \<Rightarrow> scc_state \<Rightarrow> scc_state res" where
  "scc_root adj root st =
     (if sc_index st root \<noteq> None then Inr st
      else rbind (discover adj root (st\<lparr>sc_work := []\<rparr>)) (scc_loop adj))"

definition strongly_connected_components :: "adjacency \<Rightarrow> task_id list list res" where
  "strongly_connected_components adj =
     rbind (rfold (scc_root adj) (sort (map fst adj)) scc_init) (\<lambda>st. Inr (sc_components st))"

section \<open>Cycles\<close>

definition is_cycle :: "adjacency \<Rightarrow> task_id list \<Rightarrow> bool" where
  "is_cycle adj component \<longleftrightarrow> 1 < length component
     \<or> list_ex (\<lambda>m. m \<in> set (dget adj m [])) component"

text \<open>A reported cycle, as \<open>DependencyCycle\<close> and \<open>CycleReport\<close>: its task ids, sorted.\<close>

record cycle_report =
  cr_task_ids :: "task_id list"
  cr_rule_id :: string

definition cycle_report_of :: "task_id list \<Rightarrow> cycle_report" where
  "cycle_report_of ids = \<lparr>cr_task_ids = ids, cr_rule_id = ''DEPENDENCY_CYCLE''\<rparr>"

definition cycles :: "dependency_graph \<Rightarrow> task_id list list res" where
  "cycles g =
     (let adj = cycle_adjacency g in
      rbind (strongly_connected_components adj) (\<lambda>comps.
      Inr (sort_key hd (map sort (filter (is_cycle adj) comps)))))"

text \<open>The message of \<open>DependencyCycleError\<close>.\<close>

fun join :: "string \<Rightarrow> string list \<Rightarrow> string" where
  "join sep [] = []"
| "join sep [x] = x"
| "join sep (x # y # zs) = x @ sep @ join sep (y # zs)"

definition cycle_error_message :: "task_id list list \<Rightarrow> string" where
  "cycle_error_message cs = ''dependency cycle detected: ''
     @ join '', '' (map (\<lambda>c. join ''->'' (map (\<lambda>t. hex_of (tid_value t)) c)) cs)"

end
