(* ===== verification/Scc.thy ===== *)
theory Scc
  imports Dependencies
begin

text \<open>
  Correctness of the cycle detection. \<open>tarjan_inv\<close> is the invariant of Tarjan's algorithm
  over its data alone (successor lists, indices, low links, node stack, finished
  components, work stack); one lemma per kind of step shows that the step keeps it. The
  record of \<open>Dependencies\<close> is then related to it, the loops are shown to run without
  raising, and the components they return are the strongly connected components.
\<close>

section \<open>The invariant\<close>

definition succ_rel :: "('a \<Rightarrow> 'a list) \<Rightarrow> ('a \<times> 'a) set" where
  "succ_rel sc = {(u, v). v \<in> set (sc u)}"

abbreviation grey :: "('a \<times> 'a list \<times> nat) list \<Rightarrow> 'a list" where
  "grey W \<equiv> map fst W"

definition stack_ok :: "('a \<Rightarrow> nat) \<Rightarrow> nat \<Rightarrow> 'a list \<Rightarrow> 'a list list \<Rightarrow> bool" where
  "stack_ok num n S comps \<longleftrightarrow> distinct (S @ concat comps)
     \<and> sorted_wrt (\<lambda>x y. num y < num x) S \<and> (\<forall>x\<in>set S. num x < n)"

definition grey_ok :: "('a \<Rightarrow> nat) \<Rightarrow> 'a list \<Rightarrow> ('a \<times> 'a list \<times> nat) list \<Rightarrow> bool" where
  "grey_ok num S W \<longleftrightarrow> set (grey W) \<subseteq> set S \<and> sorted_wrt (\<lambda>x y. num y < num x) (grey W)"

definition entries_ok :: "('a \<Rightarrow> 'a list) \<Rightarrow> 'a set \<Rightarrow> ('a \<times> 'a list \<times> nat) list \<Rightarrow> bool" where
  "entries_ok sc V W \<longleftrightarrow> (\<forall>(v, ss, p)\<in>set W. ss = sc v \<and> p \<le> length ss \<and> (\<forall>i<p. ss ! i \<in> V))"

definition black_ok :: "('a \<Rightarrow> 'a list) \<Rightarrow> 'a set \<Rightarrow> ('a \<times> 'a list \<times> nat) list \<Rightarrow> bool" where
  "black_ok sc V W \<longleftrightarrow> (\<forall>x\<in>V. x \<notin> set (grey W) \<longrightarrow> set (sc x) \<subseteq> V)"

definition is_scc :: "('a \<times> 'a) set \<Rightarrow> 'a list \<Rightarrow> bool" where
  "is_scc E c \<longleftrightarrow> c \<noteq> [] \<and> (\<forall>x\<in>set c. \<forall>y. y \<in> set c \<longleftrightarrow> (x, y) \<in> E\<^sup>* \<and> (y, x) \<in> E\<^sup>*)"

definition comps_ok :: "('a \<Rightarrow> 'a list) \<Rightarrow> 'a list list \<Rightarrow> bool" where
  "comps_ok sc comps \<longleftrightarrow> (\<forall>x\<in>set (concat comps). set (sc x) \<subseteq> set (concat comps))
     \<and> (\<forall>c\<in>set comps. is_scc (succ_rel sc) c)"

definition reach_ok :: "('a \<Rightarrow> 'a list) \<Rightarrow> ('a \<Rightarrow> nat) \<Rightarrow> 'a list \<Rightarrow> ('a \<times> 'a list \<times> nat) list \<Rightarrow> bool" where
  "reach_ok sc num S W \<longleftrightarrow>
     (\<forall>x\<in>set S. \<exists>g\<in>set (grey W). num g \<le> num x \<and> (x, g) \<in> (succ_rel sc)\<^sup>*)
     \<and> (\<forall>g\<in>set (grey W). \<forall>y\<in>set S. num g \<le> num y \<longrightarrow> (g, y) \<in> (succ_rel sc)\<^sup>*)"

definition low_sound :: "('a \<Rightarrow> 'a list) \<Rightarrow> ('a \<Rightarrow> nat) \<Rightarrow> ('a \<Rightarrow> nat) \<Rightarrow> 'a list
    \<Rightarrow> ('a \<times> 'a list \<times> nat) list \<Rightarrow> bool" where
  "low_sound sc num low S W \<longleftrightarrow> (\<forall>v\<in>set (grey W). low v \<le> num v
     \<and> (\<exists>w\<in>set S. num w = low v \<and> (v, w) \<in> (succ_rel sc)\<^sup>*))"

text \<open>
  The low link of an open node bounds the indices on the stack that its finished
  descendants and its processed successors lead to. \<open>c\<close> is the open child of the entry, if
  it has one: what lies above the child is the child's business.
\<close>

fun below :: "('a \<Rightarrow> nat) \<Rightarrow> 'a option \<Rightarrow> 'a \<Rightarrow> bool" where
  "below num None x = True"
| "below num (Some c) x = (num x < num c)"

fun low_ok :: "('a \<Rightarrow> 'a list) \<Rightarrow> ('a \<Rightarrow> nat) \<Rightarrow> ('a \<Rightarrow> nat) \<Rightarrow> 'a list \<Rightarrow> 'a option
    \<Rightarrow> ('a \<times> 'a list \<times> nat) list \<Rightarrow> bool" where
  "low_ok sc num low S c [] = True"
| "low_ok sc num low S c ((v, ss, p) # W) =
     ((\<forall>x\<in>set S. num v < num x \<and> below num c x \<longrightarrow>
         (\<forall>w\<in>set S. w \<in> set (sc x) \<longrightarrow> low v \<le> num w))
      \<and> (\<forall>i < (if c = None then p else p - 1). ss ! i \<in> set S \<longrightarrow> low v \<le> num (ss ! i))
      \<and> (\<forall>d. c = Some d \<longrightarrow> 0 < p \<and> ss ! (p - 1) = d)
      \<and> low_ok sc num low S (Some v) W)"

definition tarjan_inv :: "('a \<Rightarrow> 'a list) \<Rightarrow> ('a \<Rightarrow> nat) \<Rightarrow> ('a \<Rightarrow> nat) \<Rightarrow> nat \<Rightarrow> 'a list
    \<Rightarrow> 'a list list \<Rightarrow> ('a \<times> 'a list \<times> nat) list \<Rightarrow> bool" where
  "tarjan_inv sc num low n S comps W \<longleftrightarrow> stack_ok num n S comps \<and> grey_ok num S W
     \<and> entries_ok sc (set S \<union> set (concat comps)) W
     \<and> black_ok sc (set S \<union> set (concat comps)) W
     \<and> comps_ok sc comps \<and> reach_ok sc num S W \<and> low_sound sc num low S W
     \<and> low_ok sc num low S None W"

lemmas tarjan_parts = stack_ok_def grey_ok_def entries_ok_def black_ok_def comps_ok_def
  reach_ok_def low_sound_def

lemma succ_rel_I: "v \<in> set (sc u) \<Longrightarrow> (u, v) \<in> succ_rel sc"
  by (simp add: succ_rel_def)

lemma stack_num_inj: "stack_ok num n S comps \<Longrightarrow> x \<in> set S \<Longrightarrow> y \<in> set S \<Longrightarrow> num x = num y \<Longrightarrow> x = y"
  unfolding stack_ok_def by (metis in_set_conv_nth linorder_neqE_nat order_less_irrefl sorted_wrt_nth_less)

text \<open>The low link of a node matters only through the entries of that node.\<close>

lemma low_ok_other: "v \<notin> set (grey W) \<Longrightarrow> low_ok sc num (low(v := l)) S c W = low_ok sc num low S c W"
  by (induction sc num low S c W rule: low_ok.induct) auto

lemma low_ok_shrink: "low_ok sc num low S c W \<Longrightarrow> set S' \<subseteq> set S \<Longrightarrow> low_ok sc num low S' c W"
proof (induction W arbitrary: c)
  case Nil
  then show ?case by simp
next
  case (Cons e W)
  obtain v ss p where "e = (v, ss, p)" by (cases e)
  with Cons show ?case by (auto simp: subset_iff)
qed

section \<open>A processed successor\<close>

lemma tarjan_skip:
  assumes "tarjan_inv sc num low n S comps ((v, ss, p) # W)" and "p < length ss"
    and "ss ! p \<in> set (concat comps)"
  shows "tarjan_inv sc num low n S comps ((v, ss, Suc p) # W)"
proof -
  have "ss ! p \<notin> set S" using assms(1,3) by (auto simp: tarjan_inv_def stack_ok_def)
  with assms show ?thesis
    by (auto simp: tarjan_inv_def tarjan_parts less_Suc_eq)
qed

lemma tarjan_low:
  assumes inv: "tarjan_inv sc num low n S comps ((v, ss, p) # W)" and p: "p < length ss"
    and s: "ss ! p \<in> set S"
  shows "tarjan_inv sc num (low(v := min (low v) (num (ss ! p)))) n S comps ((v, ss, Suc p) # W)"
proof -
  let ?low = "low(v := min (low v) (num (ss ! p)))"
  have v: "v \<notin> set (grey W)" and ss: "ss = sc v"
    using inv by (auto simp: tarjan_inv_def tarjan_parts)
  have "(v, ss ! p) \<in> (succ_rel sc)\<^sup>*" using p ss by (simp add: r_into_rtrancl succ_rel_I)
  then have "low_sound sc num ?low S ((v, ss, Suc p) # W)"
    using inv s v by (auto simp: tarjan_inv_def low_sound_def min_def)
  moreover have "low_ok sc num ?low S None ((v, ss, Suc p) # W)"
    using inv v by (auto simp: tarjan_inv_def low_ok_other less_Suc_eq min_le_iff_disj)
  moreover have "entries_ok sc (set S \<union> set (concat comps)) ((v, ss, Suc p) # W)"
    using inv p s by (auto simp: tarjan_inv_def entries_ok_def less_Suc_eq)
  ultimately show ?thesis
    using inv by (auto simp: tarjan_inv_def grey_ok_def black_ok_def reach_ok_def)
qed

section \<open>Entering a node\<close>

lemma low_ok_discover:
  assumes "low_ok sc num low S (Some d) W" and "d \<in> set S" and "s \<notin> V" and "set S \<subseteq> V"
    and "\<forall>x\<in>set S. num x < n" and "entries_ok sc V W" and "set (grey W) \<subseteq> set S"
    and "sorted_wrt (\<lambda>x y. num y < num x) (d # grey W)"
    and "\<forall>x\<in>set S. num x < num d \<longrightarrow> x \<notin> set (grey W) \<longrightarrow> s \<notin> set (sc x)"
  shows "low_ok sc (num(s := n)) (low(s := n)) (s # S) (Some d) W"
  using assms
proof (induction W arbitrary: d)
  case Nil
  then show ?case by simp
next
  case (Cons e W)
  obtain v ss p where e: "e = (v, ss, p)" by (cases e)
  have sS: "s \<notin> set S" using Cons.prems(3,4) by blast
  have vS: "v \<in> set S" and vd: "num v < num d" and p: "\<forall>i<p. ss ! i \<in> V"
    using Cons.prems(6-8) by (auto simp: e entries_ok_def)
  then have ne: "v \<noteq> s" "d \<noteq> s" using sS Cons.prems(2) by auto
  have H: "\<forall>x\<in>set S. num x < num v \<longrightarrow> x \<notin> set (grey W) \<longrightarrow> s \<notin> set (sc x)"
    using Cons.prems(9) vd by (auto simp: e)
  have IH: "low_ok sc (num(s := n)) (low(s := n)) (s # S) (Some v) W"
    by (rule Cons.IH [OF _ vS Cons.prems(3-5) _ _ _ H])
      (use Cons.prems(1,6-8) in \<open>auto simp: e entries_ok_def\<close>)
  have l1: "low v \<le> num w" if "x \<in> set S" "num v < num x" "num x < num d" "w \<in> set S" "w \<in> set (sc x)" for x w
    using Cons.prems(1) that by (auto simp: e)
  have l1s: "s \<notin> set (sc x)" if "x \<in> set S" "num v < num x" "num x < num d" for x
  proof -
    have "x \<notin> set (grey ((v, ss, p) # W))" using Cons.prems(8) that(2) by (auto simp: e)
    then show ?thesis using Cons.prems(9) that(1,3) by (simp add: e)
  qed
  have l2: "low v \<le> num (ss ! i)" if "i < p - 1" "ss ! i \<in> set S" for i
    using Cons.prems(1) that by (auto simp: e)
  have "ss ! i \<noteq> s" if "i < p - 1" for i
    using p Cons.prems(3) that by (metis less_imp_diff_less not_less_iff_gr_or_eq order_less_trans)
  moreover have "\<not> n < num d" using Cons.prems(2,5) by auto
  moreover have "0 < p \<and> ss ! (p - 1) = d" using Cons.prems(1) by (simp add: e)
  ultimately show ?case
    using IH IH [unfolded fun_upd_def] l1 l1s l2 ne sS by (auto simp: e)
qed

lemma tarjan_discover:
  assumes inv: "tarjan_inv sc num low n S comps ((v, ss, p) # W)" and p: "p < length ss"
    and s: "s = ss ! p" "s \<notin> set S \<union> set (concat comps)"
  shows "tarjan_inv sc (num(s := n)) (low(s := n)) (Suc n) (s # S) comps
    ((s, sc s, 0) # (v, ss, Suc p) # W)"
proof -
  let ?num = "num(s := n)" and ?low = "low(s := n)" and ?W = "(s, sc s, 0) # (v, ss, Suc p) # W"
  let ?V = "set S \<union> set (concat comps)"
  have st: "stack_ok num n S comps" and gr: "grey_ok num S ((v, ss, p) # W)"
    and en: "entries_ok sc ?V ((v, ss, p) # W)" and bl: "black_ok sc ?V ((v, ss, p) # W)"
    and co: "comps_ok sc comps" and re: "reach_ok sc num S ((v, ss, p) # W)"
    and ls: "low_sound sc num low S ((v, ss, p) # W)"
    and lo: "low_ok sc num low S None ((v, ss, p) # W)"
    using inv by (simp_all add: tarjan_inv_def)
  have vS: "v \<in> set S" and gS: "set (grey W) \<subseteq> set S"
    and so: "sorted_wrt (\<lambda>x y. num y < num x) (v # grey W)" using gr by (simp_all add: grey_ok_def)
  have ss: "ss = sc v" and pv: "\<forall>i<p. ss ! i \<in> ?V" using en by (auto simp: entries_ok_def)
  have n: "\<forall>x\<in>set S. num x < n" using st by (simp add: stack_ok_def)
  have sS: "s \<notin> set S" and sg: "s \<notin> set (grey W)" "v \<noteq> s" using s(2) gS vS by auto
  have nS: "?num x = num x" if "x \<in> set S" for x using that sS by auto
  have vs: "(v, s) \<in> (succ_rel sc)\<^sup>*" using p s(1) ss by (simp add: r_into_rtrancl succ_rel_I)
  have black: "s \<notin> set (sc x)" if "x \<in> set S" "x \<notin> set (v # grey W)" for x
    using bl that s(2) by (auto simp: black_ok_def)
  have "stack_ok ?num (Suc n) (s # S) comps"
    using st s(2) n sS nS by (auto simp: stack_ok_def less_SucI intro: sorted_wrt_mono_rel)
  moreover have "grey_ok ?num (s # S) ?W"
  proof -
    have "sorted_wrt (\<lambda>x y. ?num y < ?num x) (v # grey W)"
      using so by (rule sorted_wrt_mono_rel [rotated]) (use gS vS sS in auto)
    then show ?thesis using gS vS n sg sS by (auto simp: grey_ok_def)
  qed
  moreover have "entries_ok sc (set (s # S) \<union> set (concat comps)) ?W"
    using en p s(1) by (auto simp: entries_ok_def less_Suc_eq)
  moreover have "black_ok sc (set (s # S) \<union> set (concat comps)) ?W"
    using bl by (fastforce simp: black_ok_def)
  moreover have "reach_ok sc ?num (s # S) ?W"
  proof -
    have "\<exists>g\<in>set (grey ?W). ?num g \<le> ?num x \<and> (x, g) \<in> (succ_rel sc)\<^sup>*" if "x \<in> set (s # S)" for x
    proof (cases "x = s")
      case False
      with that re obtain g where "g \<in> set (grey ((v, ss, p) # W))" "num g \<le> num x"
        "(x, g) \<in> (succ_rel sc)\<^sup>*"
        unfolding reach_ok_def by (metis set_ConsD)
      then show ?thesis using False sg by (intro bexI [of _ g]) auto
    qed auto
    moreover have "(g, y) \<in> (succ_rel sc)\<^sup>*"
      if "g \<in> set (grey ?W)" "y \<in> set (s # S)" "?num g \<le> ?num y" for g y
    proof (cases "g = s")
      case True
      then show ?thesis using that n by (cases "y = s") auto
    next
      case False
      then have g: "g \<in> set (v # grey W)" using that(1) by auto
      then have "num g \<le> num v" using so by auto
      then have gv: "(g, v) \<in> (succ_rel sc)\<^sup>*" using re g vS by (auto simp: reach_ok_def)
      show ?thesis
      proof (cases "y = s")
        case True
        with gv vs show ?thesis by (metis rtrancl_trans)
      next
        case False
        then show ?thesis using re g that(2,3) \<open>g \<noteq> s\<close> by (auto simp: reach_ok_def)
      qed
    qed
    ultimately show ?thesis by (auto simp: reach_ok_def)
  qed
  moreover have "low_sound sc ?num ?low (s # S) ?W"
    using ls sg sS by (fastforce simp: low_sound_def)
  moreover have "low_ok sc ?num ?low (s # S) None ?W"
  proof -
    have deep: "low_ok sc ?num ?low (s # S) (Some v) W"
      by (rule low_ok_discover [where V = ?V, OF _ vS s(2) _ n _ gS so])
        (use lo en black so in \<open>auto simp: entries_ok_def\<close>)
    have "s \<notin> set (sc x)" if "x \<in> set S" "num v < num x" for x
    proof -
      have "x \<notin> set (v # grey W)" using so that(2) by auto
      then show ?thesis by (rule black [OF that(1)])
    qed
    moreover have "ss ! i \<noteq> s" if "i < p" for i using pv that s(2) by auto
    ultimately show ?thesis
      using deep lo s(1) sg sS n by auto
  qed
  ultimately show ?thesis using co by (simp add: tarjan_inv_def)
qed

text \<open>The root of a search tree: the work stack is empty, so the node stack is too.\<close>

lemma tarjan_empty_stack: "tarjan_inv sc num low n S comps [] \<Longrightarrow> S = []"
  by (auto simp: tarjan_inv_def reach_ok_def)

lemma tarjan_root:
  assumes "tarjan_inv sc num low n [] comps []" and "s \<notin> set (concat comps)"
  shows "tarjan_inv sc (num(s := n)) (low(s := n)) (Suc n) [s] comps [(s, sc s, 0)]"
  using assms by (fastforce simp: tarjan_inv_def tarjan_parts)

lemma tarjan_start: "tarjan_inv sc num low n [] [] []"
  by (simp add: tarjan_inv_def tarjan_parts)

section \<open>Leaving a node\<close>

text \<open>The state of a node whose successors are all processed.\<close>

lemma tarjan_done_edge:
  assumes inv: "tarjan_inv sc num low n S comps ((v, ss, p) # W)" and p: "length ss \<le> p"
    and x: "x \<in> set S" "num v \<le> num x" and y: "y \<in> set (sc x)"
  shows "y \<in> set (concat comps) \<or> y \<in> set S \<and> low v \<le> num y"
proof -
  let ?V = "set S \<union> set (concat comps)"
  have st: "stack_ok num n S comps" and gr: "grey_ok num S ((v, ss, p) # W)"
    and en: "entries_ok sc ?V ((v, ss, p) # W)" and bl: "black_ok sc ?V ((v, ss, p) # W)"
    and lo: "low_ok sc num low S None ((v, ss, p) # W)"
    using inv by (simp_all add: tarjan_inv_def)
  have vS: "v \<in> set S" and so: "sorted_wrt (\<lambda>x y. num y < num x) (v # grey W)"
    using gr by (simp_all add: grey_ok_def)
  have ss: "ss = sc v" and pv: "\<forall>i<length ss. ss ! i \<in> ?V" and pl: "p = length ss"
    using en p by (auto simp: entries_ok_def)
  show ?thesis
  proof (cases "x = v")
    case True
    then obtain i where i: "i < length ss" "y = ss ! i" using y ss by (metis in_set_conv_nth)
    then have "y \<in> ?V" using pv by blast
    moreover have "y \<in> set S \<Longrightarrow> low v \<le> num y" using lo i pl by auto
    ultimately show ?thesis by blast
  next
    case False
    then have "num v < num x" using x vS stack_num_inj [OF st] by (metis le_neq_implies_less)
    moreover from this have "x \<notin> set (grey ((v, ss, p) # W))" using so False by auto
    then have "y \<in> ?V" using bl x(1) y by (auto simp: black_ok_def)
    moreover have "y \<in> set S \<Longrightarrow> low v \<le> num y" using lo x(1) \<open>num v < num x\<close> y by auto
    ultimately show ?thesis by blast
  qed
qed

lemma tarjan_closed_path:
  assumes "(x, y) \<in> (succ_rel sc)\<^sup>*" and "x \<in> A" and "\<And>u w. u \<in> A \<Longrightarrow> w \<in> set (sc u) \<Longrightarrow> w \<in> A"
  shows "y \<in> A"
  using assms(1,2) by (induction rule: rtrancl_induct) (auto simp: succ_rel_def intro: assms(3))

text \<open>When the low link is the node's own index, the nodes from it up are a component.\<close>

lemma tarjan_component:
  assumes inv: "tarjan_inv sc num low n S comps ((v, ss, p) # W)" and p: "length ss \<le> p"
    and root: "low v = num v"
  shows "is_scc (succ_rel sc) [x\<leftarrow>S. num v \<le> num x]"
    and "\<forall>x\<in>set S. num v \<le> num x \<longrightarrow>
           set (sc x) \<subseteq> {y \<in> set S. num v \<le> num y} \<union> set (concat comps)"
proof -
  let ?T = "{y \<in> set S. num v \<le> num y}" and ?C = "set (concat comps)"
  let ?R = "(succ_rel sc)\<^sup>*"
  have st: "stack_ok num n S comps" and gr: "grey_ok num S ((v, ss, p) # W)"
    and co: "comps_ok sc comps" and re: "reach_ok sc num S ((v, ss, p) # W)"
    using inv by (simp_all add: tarjan_inv_def)
  have vS: "v \<in> set S" and so: "sorted_wrt (\<lambda>x y. num y < num x) (v # grey W)"
    using gr by (simp_all add: grey_ok_def)
  show closed: "\<forall>x\<in>set S. num v \<le> num x \<longrightarrow> set (sc x) \<subseteq> ?T \<union> ?C"
    using tarjan_done_edge [OF inv p] root by auto
  have closedC: "\<forall>x\<in>?C. set (sc x) \<subseteq> ?C" using co unfolding comps_ok_def by blast
  have stay: "y \<in> ?T \<union> ?C" if "(x, y) \<in> ?R" "x \<in> ?T" for x y
    by (rule tarjan_closed_path [OF that(1)]) (use that(2) closed closedC in blast)+
  have stayC: "y \<in> ?C" if "(x, y) \<in> ?R" "x \<in> ?C" for x y
    by (rule tarjan_closed_path [OF that]) (use closedC in blast)
  have disj: "set S \<inter> ?C = {}" using st by (auto simp: stack_ok_def)
  have from_v: "(v, x) \<in> ?R" if "x \<in> ?T" for x using re that by (auto simp: reach_ok_def)
  have to_v: "(x, v) \<in> ?R" if x: "x \<in> ?T" for x
  proof -
    from x re obtain g where g: "g \<in> set (grey ((v, ss, p) # W))" "(x, g) \<in> ?R"
      unfolding reach_ok_def by blast
    have gS: "g \<in> set S" using g(1) gr unfolding grey_ok_def by blast
    with stay [OF g(2) x] disj have "num v \<le> num g" by blast
    moreover have "num g < num v" if "g \<in> set (grey W)" using so that by auto
    ultimately have "g = v" using g(1) by fastforce
    with g(2) show ?thesis by simp
  qed
  have "y \<in> ?T \<longleftrightarrow> (x, y) \<in> ?R \<and> (y, x) \<in> ?R" if x: "x \<in> ?T" for x y
  proof
    assume "y \<in> ?T"
    then show "(x, y) \<in> ?R \<and> (y, x) \<in> ?R"
      using from_v to_v x by (meson rtrancl_trans)
  next
    assume xy: "(x, y) \<in> ?R \<and> (y, x) \<in> ?R"
    then have "y \<in> ?T \<union> ?C" using stay x by blast
    moreover have "y \<notin> ?C" using stayC [of y x] xy x disj by blast
    ultimately show "y \<in> ?T" by blast
  qed
  moreover have "v \<in> ?T" using vS by simp
  ultimately show "is_scc (succ_rel sc) [x\<leftarrow>S. num v \<le> num x]"
    by (auto simp: is_scc_def filter_empty_conv)
qed

text \<open>The low link handed to the parent, for both outcomes.\<close>

definition parent_low :: "('a \<Rightarrow> nat) \<Rightarrow> 'a \<Rightarrow> ('a \<times> 'a list \<times> nat) list \<Rightarrow> 'a \<Rightarrow> nat" where
  "parent_low low v W = (case W of [] \<Rightarrow> low | (u, _, _) # _ \<Rightarrow> low(u := min (low u) (low v)))"

lemma parent_low_own: "u \<notin> set (grey W) \<Longrightarrow> parent_low low v W u = low u"
  by (auto simp: parent_low_def split: list.splits)

text \<open>
  The entries below a node that is left keep their bound. The parent's is \<open>l\<close>: it covers
  everything above the parent that is still on the stack \<open>S'\<close>.
\<close>

lemma low_ok_leave:
  assumes lo: "low_ok sc num low S (Some v) W" and S': "set S' \<subseteq> set S"
    and so: "sorted_wrt (\<lambda>x y. num y < num x) (v # grey W)"
    and up: "\<And>u x w. u \<in> set (grey W) \<Longrightarrow> x \<in> set S' \<Longrightarrow> num v \<le> num x \<Longrightarrow> w \<in> set S' \<Longrightarrow>
       w \<in> set (sc x) \<Longrightarrow> low v \<le> num w"
    and vv: "v \<in> set S' \<Longrightarrow> low v \<le> num v"
  shows "low_ok sc num (parent_low low v W) S' None W"
proof (cases W)
  case Nil
  then show ?thesis by simp
next
  case (Cons e W')
  obtain u ss p where e: "e = (u, ss, p)" by (cases e)
  let ?low = "low(u := min (low u) (low v))"
  have u: "u \<notin> set (grey W')" using so by (auto simp: Cons e)
  have l1: "low u \<le> num w" if "x \<in> set S" "num u < num x" "num x < num v" "w \<in> set S" "w \<in> set (sc x)" for x w
    using lo that by (auto simp: Cons e)
  have l2: "low u \<le> num (ss ! i)" if "i < p - 1" "ss ! i \<in> set S" for i
    using lo that by (auto simp: Cons e)
  have ch: "0 < p" "ss ! (p - 1) = v" and deep: "low_ok sc num low S (Some u) W'"
    using lo by (auto simp: Cons e)
  have "min (low u) (low v) \<le> num w"
    if "x \<in> set S'" "num u < num x" "w \<in> set S'" "w \<in> set (sc x)" for x w
  proof (cases "num x < num v")
    case True
    then have "low u \<le> num w" using l1 that S' by blast
    then show ?thesis by simp
  next
    case False
    then have "low v \<le> num w" using up [of u x w] that by (simp add: Cons e)
    then show ?thesis by simp
  qed
  moreover have "min (low u) (low v) \<le> num (ss ! i)" if "i < p" "ss ! i \<in> set S'" for i
  proof (cases "i = p - 1")
    case True
    then show ?thesis using that ch vv by (simp add: min_le_iff_disj)
  next
    case False
    then have "low u \<le> num (ss ! i)" using l2 [of i] that S' by auto
    then show ?thesis by simp
  qed
  moreover have "low_ok sc num ?low S' (Some u) W'"
    using low_ok_shrink [OF deep S'] u by (simp add: low_ok_other)
  ultimately show ?thesis by (simp add: Cons e parent_low_def)
qed

lemma tarjan_leave_root:
  assumes inv: "tarjan_inv sc num low n S comps ((v, ss, p) # W)" and p: "length ss \<le> p"
    and root: "low v = num v"
  shows "tarjan_inv sc num (parent_low low v W) n [x\<leftarrow>S. num x < num v]
    (comps @ [[x\<leftarrow>S. num v \<le> num x]]) W"
proof -
  let ?S = "[x\<leftarrow>S. num x < num v]" and ?T = "[x\<leftarrow>S. num v \<le> num x]"
  let ?comps = "comps @ [?T]" and ?V = "set S \<union> set (concat comps)"
  have st: "stack_ok num n S comps" and gr: "grey_ok num S ((v, ss, p) # W)"
    and en: "entries_ok sc ?V ((v, ss, p) # W)" and bl: "black_ok sc ?V ((v, ss, p) # W)"
    and co: "comps_ok sc comps" and re: "reach_ok sc num S ((v, ss, p) # W)"
    and ls: "low_sound sc num low S ((v, ss, p) # W)"
    and lo: "low_ok sc num low S None ((v, ss, p) # W)"
    using inv by (simp_all add: tarjan_inv_def)
  have vS: "v \<in> set S" and gS: "set (grey W) \<subseteq> set S"
    and so: "sorted_wrt (\<lambda>x y. num y < num x) (v # grey W)" using gr by (simp_all add: grey_ok_def)
  have gv: "num g < num v" if "g \<in> set (grey W)" for g using so that by auto
  have V: "set ?S \<union> set (concat ?comps) = ?V" by auto
  have gS': "set (grey W) \<subseteq> set ?S" using gS gv by auto
  have low: "parent_low low v W g = low g" if "g \<in> set (grey W)" for g
  proof (cases W)
    case (Cons e W')
    obtain u qs q where e: "e = (u, qs, q)" by (cases e)
    have "low u \<le> num u" using ls by (auto simp: low_sound_def Cons e)
    moreover have "num u < num v" using gv by (simp add: Cons e)
    ultimately show ?thesis using root by (auto simp: parent_low_def Cons e min_def)
  qed (use that in simp)
  have "stack_ok num n ?S ?comps"
    using st by (auto simp: stack_ok_def sorted_wrt_filter)
  moreover have "grey_ok num ?S W" using so gS' by (simp add: grey_ok_def)
  moreover have "entries_ok sc (set ?S \<union> set (concat ?comps)) W"
    unfolding V using en by (simp add: entries_ok_def)
  moreover have "black_ok sc (set ?S \<union> set (concat ?comps)) W"
    unfolding V
  proof -
    have "set (sc v) \<subseteq> ?V" using tarjan_done_edge [OF inv p vS] by auto
    then show "black_ok sc ?V W" using bl by (auto simp: black_ok_def)
  qed
  moreover have "comps_ok sc ?comps"
  proof -
    have C: "set (concat ?comps) = set (concat comps) \<union> {y \<in> set S. num v \<le> num y}" by auto
    have "\<forall>x\<in>set (concat comps). set (sc x) \<subseteq> set (concat comps)"
      using co unfolding comps_ok_def by blast
    then have "\<forall>x\<in>set (concat ?comps). set (sc x) \<subseteq> set (concat ?comps)"
      using tarjan_component(2) [OF inv p root] unfolding C by blast
    then show ?thesis using co tarjan_component(1) [OF inv p root] by (simp add: comps_ok_def)
  qed
  moreover have "reach_ok sc num ?S W"
  proof -
    have "\<exists>g\<in>set (grey W). num g \<le> num x \<and> (x, g) \<in> (succ_rel sc)\<^sup>*" if x: "x \<in> set ?S" for x
    proof -
      from x re obtain g where g: "g \<in> set (grey ((v, ss, p) # W))" "num g \<le> num x"
        "(x, g) \<in> (succ_rel sc)\<^sup>*"
        unfolding reach_ok_def by (metis filter_is_subset subsetD)
      moreover have "g \<noteq> v" using g(2) x by auto
      ultimately show ?thesis by auto
    qed
    then show ?thesis using re by (auto simp: reach_ok_def)
  qed
  moreover have "low_sound sc num (parent_low low v W) ?S W"
  proof -
    have "\<exists>w\<in>set ?S. num w = low g \<and> (g, w) \<in> (succ_rel sc)\<^sup>*" if g: "g \<in> set (grey W)" for g
    proof -
      from g ls have gl: "low g \<le> num g"
        and "\<exists>w\<in>set S. num w = low g \<and> (g, w) \<in> (succ_rel sc)\<^sup>*"
        by (auto simp: low_sound_def)
      then obtain w where "w \<in> set S" "num w = low g" "(g, w) \<in> (succ_rel sc)\<^sup>*" by blast
      then show ?thesis using gl gv [OF g] by (intro bexI [of _ w]) auto
    qed
    then show ?thesis using ls low by (simp add: low_sound_def)
  qed
  moreover have "low_ok sc num (parent_low low v W) ?S None W"
    by (rule low_ok_leave [OF _ _ so]) (use lo in auto)
  ultimately show ?thesis by (simp only: tarjan_inv_def)
qed

lemma tarjan_leave_nonroot:
  assumes inv: "tarjan_inv sc num low n S comps ((v, ss, p) # W)" and p: "length ss \<le> p"
    and nonroot: "low v \<noteq> num v"
  shows "tarjan_inv sc num (parent_low low v W) n S comps W"
proof -
  let ?V = "set S \<union> set (concat comps)" and ?R = "(succ_rel sc)\<^sup>*"
  have st: "stack_ok num n S comps" and gr: "grey_ok num S ((v, ss, p) # W)"
    and en: "entries_ok sc ?V ((v, ss, p) # W)" and bl: "black_ok sc ?V ((v, ss, p) # W)"
    and co: "comps_ok sc comps" and re: "reach_ok sc num S ((v, ss, p) # W)"
    and ls: "low_sound sc num low S ((v, ss, p) # W)"
    and lo: "low_ok sc num low S None ((v, ss, p) # W)"
    using inv by (simp_all add: tarjan_inv_def)
  have vS: "v \<in> set S" and gS: "set (grey W) \<subseteq> set S"
    and so: "sorted_wrt (\<lambda>x y. num y < num x) (v # grey W)" using gr by (simp_all add: grey_ok_def)
  have fin: "y \<in> set (concat comps) \<or> y \<in> set S \<and> low v \<le> num y"
    if "x \<in> set S" "num v \<le> num x" "y \<in> set (sc x)" for x y
    using tarjan_done_edge [OF inv p that] .
  have disj: "set S \<inter> set (concat comps) = {}" using st by (auto simp: stack_ok_def)
  obtain w where w: "w \<in> set S" "num w = low v" "(v, w) \<in> ?R" and lv: "low v < num v"
    using ls nonroot by (auto simp: low_sound_def)
  from w(1) re obtain h where h: "h \<in> set (grey ((v, ss, p) # W))" "num h \<le> num w" "(w, h) \<in> ?R"
    unfolding reach_ok_def by metis
  then have hW: "h \<in> set (grey W)" using w(2) lv by auto
  have vh: "(v, h) \<in> ?R" using w(3) h(3) by (rule rtrancl_trans)
  have "stack_ok num n S comps" by (rule st)
  moreover have "grey_ok num S W" using gr by (simp add: grey_ok_def)
  moreover have "entries_ok sc ?V W" using en by (simp add: entries_ok_def)
  moreover have "black_ok sc ?V W"
  proof -
    have "set (sc v) \<subseteq> ?V" using fin [OF vS] by auto
    then show ?thesis using bl by (auto simp: black_ok_def)
  qed
  moreover have "reach_ok sc num S W"
  proof -
    have "\<exists>g\<in>set (grey W). num g \<le> num x \<and> (x, g) \<in> ?R" if x: "x \<in> set S" for x
    proof -
      from x re obtain g where g: "g \<in> set (grey ((v, ss, p) # W))" "num g \<le> num x" "(x, g) \<in> ?R"
        unfolding reach_ok_def by metis
      show ?thesis
      proof (cases "g = v")
        case True
        then have "(x, h) \<in> ?R" using g(3) vh by (metis rtrancl_trans)
        moreover have "num h \<le> num x" using g(2) True h(2) w(2) lv by simp
        ultimately show ?thesis using hW by blast
      next
        case False
        then show ?thesis using g by auto
      qed
    qed
    then show ?thesis using re by (auto simp: reach_ok_def)
  qed
  moreover have "low_sound sc num (parent_low low v W) S W"
  proof (cases W)
    case Nil
    then show ?thesis by (simp add: low_sound_def)
  next
    case (Cons e W')
    obtain u us q where e: "e = (u, us, q)" by (cases e)
    have u: "u \<notin> set (grey W')" using so by (auto simp: Cons e)
    have "0 < q" "us ! (q - 1) = v" using lo by (auto simp: Cons e)
    moreover have "us = sc u" "q \<le> length us" using en by (auto simp: Cons e entries_ok_def)
    ultimately have "v \<in> set (sc u)" by (metis One_nat_def diff_less less_le_trans nth_mem zero_less_one)
    then have "(u, w) \<in> ?R" using w(3) by (meson converse_rtrancl_into_rtrancl succ_rel_I)
    then have "\<exists>w\<in>set S. num w = min (low u) (low v) \<and> (u, w) \<in> ?R"
      using ls w by (auto simp: low_sound_def Cons e min_def)
    moreover have "low g \<le> num g \<and> (\<exists>w\<in>set S. num w = low g \<and> (g, w) \<in> ?R)"
      if "g \<in> set (grey W)" for g
    proof -
      have "g \<in> set (grey ((v, ss, p) # W))" using that by simp
      with ls show ?thesis unfolding low_sound_def by blast
    qed
    moreover have "parent_low low v W = low(u := min (low u) (low v))"
      by (simp add: Cons e parent_low_def)
    moreover have "low u \<le> num u" using ls by (simp add: low_sound_def Cons e)
    ultimately show ?thesis unfolding low_sound_def by (simp add: min.coboundedI1)
  qed
  moreover have "low_ok sc num (parent_low low v W) S None W"
  proof (rule low_ok_leave [OF _ _ so])
    show "low v \<le> num w" if "x \<in> set S" "num v \<le> num x" "w \<in> set S" "w \<in> set (sc x)" for x w
      using fin [OF that(1,2,4)] disj that(3) by blast
  qed (use lo lv in auto)
  ultimately show ?thesis using co by (simp add: tarjan_inv_def)
qed

section \<open>The record and the loops\<close>

definition succs_of :: "adjacency \<Rightarrow> task_id \<Rightarrow> task_id list" where
  "succs_of adj v = sort (dget adj v [])"

definition closed_adjacency :: "adjacency \<Rightarrow> bool" where
  "closed_adjacency adj \<longleftrightarrow> (\<forall>u\<in>set (map fst adj). set (dget adj u []) \<subseteq> set (map fst adj))"

definition scc_rel :: "adjacency \<Rightarrow> scc_state \<Rightarrow> work_entry list \<Rightarrow> bool" where
  "scc_rel adj st W \<longleftrightarrow>
     tarjan_inv (succs_of adj) (index_of st) (sc_low st) (sc_counter st) (sc_stack st) (sc_components st) W
     \<and> dom (sc_index st) = set (sc_stack st) \<union> set (concat (sc_components st))
     \<and> sc_on_stack st = set (sc_stack st) \<and> dom (sc_index st) \<subseteq> set (map fst adj)"

lemma scc_rel_work [simp]: "scc_rel adj (st\<lparr>sc_work := w\<rparr>) W = scc_rel adj st W"
proof -
  have "index_of (st\<lparr>sc_work := w\<rparr>) = index_of st" by (simp add: index_of_def fun_eq_iff)
  then show ?thesis by (simp add: scc_rel_def)
qed

definition entered :: "adjacency \<Rightarrow> task_id \<Rightarrow> scc_state \<Rightarrow> work_entry list \<Rightarrow> scc_state" where
  "entered adj v st w = st\<lparr>sc_counter := Suc (sc_counter st),
     sc_index := (sc_index st)(v \<mapsto> sc_counter st),
     sc_low := (sc_low st)(v := sc_counter st), sc_stack := v # sc_stack st,
     sc_on_stack := insert v (sc_on_stack st), sc_work := (v, succs_of adj v, 0) # w\<rparr>"

lemma discover_key:
  assumes "v \<in> set (map fst adj)"
  shows "discover adj v (st\<lparr>sc_work := w\<rparr>) = Inr (entered adj v st w)"
proof -
  obtain ss where "map_of adj v = Some ss"
    using assms by (metis list.set_map map_of_eq_None_iff option.exhaust)
  then show ?thesis by (simp add: discover_def entered_def succs_of_def dget_def)
qed

lemma index_of_entered: "index_of (entered adj v st w) = (index_of st)(v := sc_counter st)"
  by (simp add: index_of_def entered_def fun_eq_iff)

lemma scan_rel:
  assumes "scc_rel adj st ((node, succs, ptr) # sc_work st)" and "closed_adjacency adj"
  shows "\<exists>adv st'. scan adj node succs ptr st = Inr (adv, st') \<and> dom (sc_index st) \<subseteq> dom (sc_index st')
    \<and> (if adv then scc_rel adj st' (sc_work st')
       else scc_rel adj st' ((node, succs, length succs) # sc_work st'))"
  using assms
proof (induction adj node succs ptr st rule: scan.induct)
  case (1 adj node succs ptr st)
  let ?s = "succs ! ptr"
  have inv: "tarjan_inv (succs_of adj) (index_of st) (sc_low st) (sc_counter st) (sc_stack st)
      (sc_components st) ((node, succs, ptr) # sc_work st)"
    and dm: "dom (sc_index st) = set (sc_stack st) \<union> set (concat (sc_components st))"
    and on: "sc_on_stack st = set (sc_stack st)" and keys: "dom (sc_index st) \<subseteq> set (map fst adj)"
    using "1.prems"(1) unfolding scc_rel_def by blast+
  have pl: "ptr \<le> length succs" and su: "succs = succs_of adj node"
    and nS: "node \<in> set (sc_stack st)"
    using inv by (auto simp: tarjan_inv_def entries_ok_def grey_ok_def)
  show ?case
  proof (cases "ptr < length succs")
    case False
    then have "ptr = length succs" using pl by simp
    moreover have "scan adj node succs ptr st = Inr (False, st)"
      using False by (subst scan.simps) simp
    ultimately show ?thesis using "1.prems" by (intro exI [of _ False] exI [of _ st]) simp
  next
    case True
    consider (new) "sc_index st ?s = None" | (stack) "sc_index st ?s \<noteq> None" "?s \<in> sc_on_stack st"
      | (old) "sc_index st ?s \<noteq> None" "?s \<notin> sc_on_stack st" by blast
    then show ?thesis
    proof cases
      case new
      have "?s \<in> set (dget adj node [])" using True su by (metis nth_mem set_sort succs_of_def)
      then have "?s \<in> set (map fst adj)" using "1.prems"(2) nS dm keys
        unfolding closed_adjacency_def by blast
      note key = this
      let ?st = "entered adj ?s st ((node, succs, ptr + 1) # sc_work st)"
      have "?s \<notin> set (sc_stack st) \<union> set (concat (sc_components st))" using new dm by blast
      from tarjan_discover [OF inv True refl this] have "scc_rel adj ?st (sc_work ?st)"
        unfolding scc_rel_def index_of_entered using dm on keys key by (auto simp: entered_def)
      moreover have "scan adj node succs ptr st = Inr (True, ?st)"
        using True new discover_key [OF key]
        by (simp add: scan.simps [of adj node succs ptr st] Let_def)
      moreover have "dom (sc_index st) \<subseteq> dom (sc_index ?st)" by (auto simp: entered_def)
      ultimately show ?thesis by (intro exI [of _ True] exI [of _ ?st]) simp
    next
      case stack
      let ?st = "st\<lparr>sc_low := (sc_low st)(node := min (sc_low st node) (index_of st ?s))\<rparr>"
      have ix: "index_of ?st = index_of st" by (simp add: index_of_def fun_eq_iff)
      have "scc_rel adj ?st ((node, succs, ptr + 1) # sc_work ?st)"
        using tarjan_low [OF inv True] stack on dm keys by (simp add: scc_rel_def ix)
      moreover have "scan adj node succs ptr st = scan adj node succs (ptr + 1) ?st"
        by (subst scan.simps) (simp add: True stack Let_def)
      moreover have "sc_index ?st = sc_index st" by simp
      ultimately show ?thesis
        using "1.IH"(1) [OF True refl stack(1) stack(2)] "1.prems"(2) by metis
    next
      case old
      then have "?s \<in> set (concat (sc_components st))" using dm on by blast
      from tarjan_skip [OF inv True this] have "scc_rel adj st ((node, succs, ptr + 1) # sc_work st)"
        using dm on keys by (simp add: scc_rel_def)
      moreover have "scan adj node succs ptr st = scan adj node succs (ptr + 1) st"
        by (subst scan.simps) (simp add: True old Let_def)
      ultimately show ?thesis
        using "1.IH"(2) [OF True refl old(1) old(2)] "1.prems"(2) by metis
    qed
  qed
qed

lemma pop_component_sorted:
  assumes "sorted_wrt (\<lambda>x y. num y < (num x :: nat)) S" and "node \<in> set S"
  shows "pop_component node S on =
    Inr ([x\<leftarrow>S. num node \<le> num x], [x\<leftarrow>S. num x < num node], on - {x \<in> set S. num node \<le> num x})"
  using assms
proof (induction S arbitrary: on)
  case Nil
  then show ?case by simp
next
  case (Cons m S)
  show ?case
  proof (cases "m = node")
    case True
    with Cons.prems(1) have lt: "\<forall>x\<in>set S. num x < num node" by simp
    then have "[x\<leftarrow>S. num node \<le> num x] = []" "[x\<leftarrow>S. num x < num node] = S"
      by (auto simp: filter_empty_conv filter_id_conv)
    moreover have "{x \<in> set (m # S). num node \<le> num x} = {m}" using True lt by auto
    ultimately show ?thesis using True by simp
  next
    case False
    with Cons.prems have "node \<in> set S" "num node < num m" by auto
    moreover have "on - {m} - {x \<in> set S. num node \<le> num x} = on - {x \<in> set (m # S). num node \<le> num x}"
      using \<open>num node < num m\<close> by auto
    moreover have "[x\<leftarrow>m # S. num node \<le> num x] = m # [x\<leftarrow>S. num node \<le> num x]"
      "[x\<leftarrow>m # S. num x < num node] = [x\<leftarrow>S. num x < num node]"
      using \<open>num node < num m\<close> by simp_all
    moreover have "sorted_wrt (\<lambda>x y. num y < num x) S" using Cons.prems(1) by simp
    ultimately show ?thesis using False Cons.IH [of "on - {m}"] by (simp only: pop_component.simps) simp
  qed
qed

lemma leave_rel:
  assumes rel: "scc_rel adj st ((node, succs, length succs) # sc_work st)"
  shows "\<exists>st'. close_node node st = Inr st' \<and> sc_index (lift_low node st') = sc_index st
    \<and> scc_rel adj (lift_low node st') (sc_work (lift_low node st'))"
proof -
  have inv: "tarjan_inv (succs_of adj) (index_of st) (sc_low st) (sc_counter st) (sc_stack st)
      (sc_components st) ((node, succs, length succs) # sc_work st)"
    and dm: "dom (sc_index st) = set (sc_stack st) \<union> set (concat (sc_components st))"
    and on: "sc_on_stack st = set (sc_stack st)" and keys: "dom (sc_index st) \<subseteq> set (map fst adj)"
    using rel unfolding scc_rel_def by blast+
  have nS: "node \<in> set (sc_stack st)"
    and so: "sorted_wrt (\<lambda>x y. index_of st y < index_of st x) (sc_stack st)"
    using inv by (auto simp: tarjan_inv_def grey_ok_def stack_ok_def)
  have low: "sc_low (lift_low node s) = parent_low (sc_low s) node (sc_work s)" for s
    by (auto simp: lift_low_def parent_low_def split: list.splits)
  have frame: "sc_index (lift_low node s) = sc_index s" "sc_counter (lift_low node s) = sc_counter s"
    "sc_stack (lift_low node s) = sc_stack s" "sc_on_stack (lift_low node s) = sc_on_stack s"
    "sc_components (lift_low node s) = sc_components s" "sc_work (lift_low node s) = sc_work s" for s
    by (auto simp: lift_low_def split: list.splits)
  show ?thesis
  proof (cases "sc_low st node = index_of st node")
    case True
    let ?n = "index_of st"
    let ?st = "st\<lparr>sc_stack := [x\<leftarrow>sc_stack st. ?n x < ?n node],
        sc_on_stack := sc_on_stack st - {x \<in> set (sc_stack st). ?n node \<le> ?n x},
        sc_components := sc_components st @ [[x\<leftarrow>sc_stack st. ?n node \<le> ?n x]]\<rparr>"
    have ix: "index_of (lift_low node ?st) = index_of st" by (simp add: index_of_def fun_eq_iff frame)
    have "close_node node st = Inr ?st"
      using True pop_component_sorted [OF so nS] by (simp add: close_node_def)
    moreover have "scc_rel adj (lift_low node ?st) (sc_work (lift_low node ?st))"
      using tarjan_leave_root [OF inv order_refl True] dm on keys
      unfolding scc_rel_def ix low frame by auto
    ultimately show ?thesis by (auto simp: frame)
  next
    case False
    have ix: "index_of (lift_low node st) = index_of st" by (simp add: index_of_def fun_eq_iff frame)
    have "scc_rel adj (lift_low node st) (sc_work (lift_low node st))"
      using tarjan_leave_nonroot [OF inv order_refl False] dm on keys
      unfolding scc_rel_def ix low frame by auto
    then show ?thesis using False by (simp add: close_node_def frame)
  qed
qed

lemma scc_iter_rel:
  assumes "scc_rel adj st (e # w)" and "closed_adjacency adj"
  shows "\<exists>st'. scc_iter adj e (st\<lparr>sc_work := w\<rparr>) = Inr st' \<and> scc_rel adj st' (sc_work st')
    \<and> dom (sc_index st) \<subseteq> dom (sc_index st')"
proof -
  obtain node succs ptr where e: "e = (node, succs, ptr)" by (cases e)
  have "scc_rel adj (st\<lparr>sc_work := w\<rparr>) ((node, succs, ptr) # sc_work (st\<lparr>sc_work := w\<rparr>))"
    using assms(1) by (simp add: e)
  from scan_rel [OF this assms(2)] obtain adv st1
    where sc: "scan adj node succs ptr (st\<lparr>sc_work := w\<rparr>) = Inr (adv, st1)"
    and d: "dom (sc_index st) \<subseteq> dom (sc_index st1)"
    and r: "if adv then scc_rel adj st1 (sc_work st1)
            else scc_rel adj st1 ((node, succs, length succs) # sc_work st1)"
    by auto
  show ?thesis
  proof (cases adv)
    case True
    then show ?thesis using sc r d by (simp add: scc_iter_def e)
  next
    case False
    with r leave_rel [of adj st1 node succs] obtain st2 where "close_node node st1 = Inr st2"
      "sc_index (lift_low node st2) = sc_index st1"
      "scc_rel adj (lift_low node st2) (sc_work (lift_low node st2))"
      by auto
    then show ?thesis using False sc d by (simp add: scc_iter_def e)
  qed
qed

lemma scc_loop_rel:
  assumes "scc_rel adj st (sc_work st)" and "closed_adjacency adj"
  shows "\<exists>st'. scc_loop adj st = Inr st' \<and> scc_rel adj st' [] \<and> dom (sc_index st) \<subseteq> dom (sc_index st')"
  using assms
proof (induction adj st rule: scc_loop.induct)
  case (1 adj st)
  show ?case
  proof (cases "sc_work st")
    case Nil
    then show ?thesis using "1.prems"(1) by (simp add: scc_loop.simps [of adj st])
  next
    case (Cons e w)
    from scc_iter_rel [of adj st e w] "1.prems" Cons obtain st1
      where st1: "scc_iter adj e (st\<lparr>sc_work := w\<rparr>) = Inr st1" "scc_rel adj st1 (sc_work st1)"
        "dom (sc_index st) \<subseteq> dom (sc_index st1)" by auto
    from "1.IH" [OF Cons st1(1) st1(2) "1.prems"(2)] st1 Cons show ?thesis
      by (auto simp: scc_loop.simps [of adj st])
  qed
qed

lemma scc_root_rel:
  assumes "scc_rel adj st []" and "closed_adjacency adj" and "root \<in> set (map fst adj)"
  shows "\<exists>st'. scc_root adj root st = Inr st' \<and> scc_rel adj st' []
    \<and> insert root (dom (sc_index st)) \<subseteq> dom (sc_index st')"
proof (cases "sc_index st root = None")
  case False
  then show ?thesis using assms(1) by (auto simp: scc_root_def)
next
  case True
  have inv: "tarjan_inv (succs_of adj) (index_of st) (sc_low st) (sc_counter st) (sc_stack st)
      (sc_components st) []"
    and dm: "dom (sc_index st) = set (sc_stack st) \<union> set (concat (sc_components st))"
    and on: "sc_on_stack st = set (sc_stack st)" and keys: "dom (sc_index st) \<subseteq> set (map fst adj)"
    using assms(1) unfolding scc_rel_def by blast+
  have S: "sc_stack st = []" using tarjan_empty_stack [OF inv] .
  let ?st = "entered adj root st []"
  have "root \<notin> set (concat (sc_components st))" using True dm by blast
  from tarjan_root [OF inv [unfolded S] this] have "scc_rel adj ?st (sc_work ?st)"
    unfolding scc_rel_def index_of_entered using dm on keys assms(3) S by (auto simp: entered_def)
  from scc_loop_rel [OF this assms(2)] obtain st2 where "scc_loop adj ?st = Inr st2"
    "scc_rel adj st2 []" "dom (sc_index ?st) \<subseteq> dom (sc_index st2)" by blast
  moreover have "dom (sc_index ?st) = insert root (dom (sc_index st))" by (simp add: entered_def)
  ultimately show ?thesis using True discover_key [OF assms(3)] by (intro exI [of _ st2]) (simp add: scc_root_def)
qed

lemma scc_roots_rel:
  assumes "scc_rel adj st []" and "closed_adjacency adj" and "set roots \<subseteq> set (map fst adj)"
  shows "\<exists>st'. rfold (scc_root adj) roots st = Inr st' \<and> scc_rel adj st' []
    \<and> set roots \<union> dom (sc_index st) \<subseteq> dom (sc_index st')"
  using assms
proof (induction roots arbitrary: st)
  case Nil
  then show ?case by simp
next
  case (Cons r roots)
  from scc_root_rel [OF Cons.prems(1,2), of r] Cons.prems(3) obtain st1
    where st1: "scc_root adj r st = Inr st1" "scc_rel adj st1 []"
      "insert r (dom (sc_index st)) \<subseteq> dom (sc_index st1)" by auto
  have "set roots \<subseteq> set (map fst adj)" using Cons.prems(3) by auto
  from Cons.IH [OF st1(2) Cons.prems(2) this] obtain st2
    where "rfold (scc_root adj) roots st1 = Inr st2" "scc_rel adj st2 []"
      "set roots \<union> dom (sc_index st1) \<subseteq> dom (sc_index st2)" by blast
  moreover from this st1(3) have "set (r # roots) \<union> dom (sc_index st) \<subseteq> dom (sc_index st2)"
    unfolding list.set by blast
  ultimately show ?case using st1(1,2) by (intro exI [of _ st2]) simp
qed

definition adjacency_rel :: "adjacency \<Rightarrow> (task_id \<times> task_id) set" where
  "adjacency_rel adj = {(u, v). v \<in> set (dget adj u [])}"

lemma succ_rel_succs_of: "succ_rel (succs_of adj) = adjacency_rel adj"
  by (simp add: succ_rel_def succs_of_def adjacency_rel_def)

lemma scc_correct:
  assumes "closed_adjacency adj"
  shows "\<exists>comps. strongly_connected_components adj = Inr comps \<and> distinct (concat comps)
    \<and> set (concat comps) = set (map fst adj) \<and> (\<forall>c\<in>set comps. is_scc (adjacency_rel adj) c)"
proof -
  have "scc_rel adj scc_init []"
    by (simp add: scc_rel_def scc_init_def tarjan_start)
  from scc_roots_rel [OF this assms, of "sort (map fst adj)"] obtain st
    where st: "rfold (scc_root adj) (sort (map fst adj)) scc_init = Inr st" "scc_rel adj st []"
      "set (map fst adj) \<subseteq> dom (sc_index st)" by auto
  have inv: "tarjan_inv (succs_of adj) (index_of st) (sc_low st) (sc_counter st) (sc_stack st)
      (sc_components st) []"
    and dm: "dom (sc_index st) = set (sc_stack st) \<union> set (concat (sc_components st))"
    and keys: "dom (sc_index st) \<subseteq> set (map fst adj)"
    using st(2) unfolding scc_rel_def by blast+
  have S: "sc_stack st = []" using tarjan_empty_stack [OF inv] .
  have "distinct (concat (sc_components st))" and "\<forall>c\<in>set (sc_components st). is_scc (adjacency_rel adj) c"
    using inv by (simp_all add: tarjan_inv_def stack_ok_def comps_ok_def S succ_rel_succs_of)
  moreover have "set (concat (sc_components st)) = set (map fst adj)"
    using dm keys st(3) S by auto
  ultimately show ?thesis using st(1) by (simp add: strongly_connected_components_def)
qed

section \<open>Cycles of a dependency graph\<close>

definition dep_rel :: "dependency_graph \<Rightarrow> (task_id \<times> task_id) set" where
  "dep_rel g = {(dp_predecessor d, dp_successor d) |d. d \<in> set g \<and> cycle_edge d}"

lemma adjacency_add_dget:
  "set (dget (adjacency_add d adj) u []) =
     set (dget adj u []) \<union> (if u = dp_predecessor d then {dp_successor d} else {})"
  by (auto simp: adjacency_add_def Let_def dget_def dict_simps split: option.splits)

lemma adjacency_add_keys:
  "set (map fst (adjacency_add d adj)) =
     insert (dp_predecessor d) (insert (dp_successor d) (set (map fst adj)))"
proof -
  have "set (map fst x) = dom (map_of x)" for x :: adjacency
    by (simp add: dom_map_of_conv_image_fst)
  then show ?thesis by (auto simp: adjacency_add_def Let_def dict_simps split: if_splits)
qed

lemma adjacency_fold:
  "set (dget (fold adjacency_add ds adj) u []) =
     set (dget adj u []) \<union> {dp_successor d |d. d \<in> set ds \<and> dp_predecessor d = u}
   \<and> set (map fst (fold adjacency_add ds adj)) =
     set (map fst adj) \<union> dp_predecessor ` set ds \<union> dp_successor ` set ds"
proof (induction ds arbitrary: adj)
  case Nil
  then show ?case by simp
next
  case (Cons d ds)
  show ?case
    using Cons.IH [of "adjacency_add d adj"] adjacency_add_dget [of d adj u] adjacency_add_keys [of d adj]
    by auto
qed

lemma cycle_adjacency_rel: "adjacency_rel (cycle_adjacency g) = dep_rel g"
  using adjacency_fold [of "filter cycle_edge g" "[]"]
  by (auto simp: adjacency_rel_def cycle_adjacency_def dep_rel_def dget_def)

lemma cycle_adjacency_keys: "set (map fst (cycle_adjacency g)) = Field (dep_rel g)"
proof -
  have "set (map fst (cycle_adjacency g)) =
      dp_predecessor ` set (filter cycle_edge g) \<union> dp_successor ` set (filter cycle_edge g)"
    using adjacency_fold [of "filter cycle_edge g" "[]"] by (simp add: cycle_adjacency_def)
  also have "\<dots> = Field (dep_rel g)" by (force simp: Field_def dep_rel_def)
  finally show ?thesis .
qed

lemma cycle_adjacency_closed: "closed_adjacency (cycle_adjacency g)"
proof -
  have "v \<in> Field (dep_rel g)" if "v \<in> set (dget (cycle_adjacency g) u [])" for u v
    using that cycle_adjacency_rel [of g] by (auto simp: adjacency_rel_def Field_def)
  then show ?thesis unfolding closed_adjacency_def cycle_adjacency_keys by blast
qed

text \<open>A component is reported exactly when its members lie on cycles.\<close>

lemma is_cycle_iff:
  assumes scc: "is_scc (adjacency_rel adj) c" and "distinct c" and t: "t \<in> set c"
  shows "is_cycle adj c \<longleftrightarrow> (t, t) \<in> (adjacency_rel adj)\<^sup>+"
proof
  let ?E = "adjacency_rel adj"
  have mutual: "(x, y) \<in> ?E\<^sup>*" if "x \<in> set c" "y \<in> set c" for x y
    using scc that unfolding is_scc_def by blast
  {
    assume cyc: "is_cycle adj c"
    show "(t, t) \<in> ?E\<^sup>+"
    proof (cases "\<exists>x\<in>set c. x \<noteq> t")
      case True
      then obtain x where x: "x \<in> set c" "x \<noteq> t" by blast
      then have "(t, x) \<in> ?E\<^sup>+" using mutual [OF t x(1)] by (metis rtranclD)
      then show ?thesis using mutual [OF x(1) t] by (rule trancl_rtrancl_trancl)
    next
      case False
      then have "set c = {t}" using t by blast
      then have "c = [t]" using \<open>distinct c\<close> by (metis distinct_remdups_id distinct_singleton list.set(1)
            list.simps(15) remdups.simps set_empty distinct.simps(2) singletonD insertI1 list.exhaust
            list.set_intros(1) list.set_intros(2))
      then have "(t, t) \<in> ?E" using cyc by (simp add: is_cycle_def adjacency_rel_def)
      then show ?thesis by blast
    qed
  next
    assume "(t, t) \<in> ?E\<^sup>+"
    then obtain y where y: "(t, y) \<in> ?E" "(y, t) \<in> ?E\<^sup>*" by (metis tranclD)
    then have yc: "y \<in> set c" using scc t unfolding is_scc_def by (meson r_into_rtrancl)
    show "is_cycle adj c"
    proof (cases "y = t")
      case True
      then show ?thesis using y(1) t by (auto simp: is_cycle_def adjacency_rel_def list_ex_iff)
    next
      case False
      then have "1 < length c" using yc t by (cases c; cases "tl c") auto
      then show ?thesis by (simp add: is_cycle_def)
    qed
  }
qed

lemma is_scc_sort: "is_scc E (sort c) = is_scc E c" for c :: "'a :: linorder list"
  by (simp add: is_scc_def)

lemma distinct_concat_map_sort: "distinct (concat cs) \<Longrightarrow> distinct (concat (map sort (filter P cs)))"
  for cs :: "'a :: linorder list list"
  by (induction cs) auto

lemma distinct_concat_perm: "mset xs = mset ys \<Longrightarrow> distinct (concat xs) \<Longrightarrow> distinct (concat ys)"
  by (metis mset_concat mset_eq_imp_distinct_iff mset_map sum_mset_sum_list)

lemma cycles_spec:
  "\<exists>cs. cycles g = Inr cs
     \<and> (\<forall>t. t \<in> set (concat cs) \<longleftrightarrow> (t, t) \<in> (dep_rel g)\<^sup>+)
     \<and> (\<forall>c\<in>set cs. is_scc (dep_rel g) c \<and> sorted c)
     \<and> distinct (concat cs) \<and> sorted (map hd cs)"
proof -
  let ?adj = "cycle_adjacency g"
  obtain comps where comps: "strongly_connected_components ?adj = Inr comps" "distinct (concat comps)"
    "set (concat comps) = Field (dep_rel g)" "\<forall>c\<in>set comps. is_scc (dep_rel g) c"
    using scc_correct [OF cycle_adjacency_closed [of g]]
    unfolding cycle_adjacency_keys cycle_adjacency_rel by blast
  define picked where "picked = filter (is_cycle ?adj) comps"
  define cs where "cs = sort_key hd (map sort picked)"
  have res: "cycles g = Inr cs" by (simp add: cycles_def comps(1) cs_def picked_def Let_def)
  have set: "set cs = sort ` set picked" by (simp add: cs_def)
  have "t \<in> set (concat cs) \<longleftrightarrow> (t, t) \<in> (dep_rel g)\<^sup>+" for t
  proof
    assume "t \<in> set (concat cs)"
    then obtain c where c: "c \<in> set comps" "is_cycle ?adj c" "t \<in> set c"
      unfolding set_concat set by (auto simp: picked_def)
    moreover have "distinct c" using comps(2) c(1) by (simp add: distinct_concat_iff)
    ultimately show "(t, t) \<in> (dep_rel g)\<^sup>+"
      using is_cycle_iff [of ?adj c t] comps(4) by (simp add: cycle_adjacency_rel)
  next
    assume t: "(t, t) \<in> (dep_rel g)\<^sup>+"
    then have "t \<in> set (concat comps)" unfolding comps(3) by (metis FieldI1 tranclD)
    then obtain c where c: "c \<in> set comps" "t \<in> set c" by auto
    moreover have "distinct c" using comps(2) c(1) by (simp add: distinct_concat_iff)
    ultimately have "is_cycle ?adj c"
      using is_cycle_iff [of ?adj c t] comps(4) t by (simp add: cycle_adjacency_rel)
    then have "sort c \<in> set cs" using c(1) set by (simp add: picked_def)
    then show "t \<in> set (concat cs)" using c(2) by (metis UN_I set_concat set_sort)
  qed
  moreover have "\<forall>c\<in>set cs. is_scc (dep_rel g) c \<and> sorted c"
    using comps(4) by (auto simp: set picked_def is_scc_sort)
  moreover have "distinct (concat cs)"
  proof (rule distinct_concat_perm)
    show "distinct (concat (map sort picked))"
      unfolding picked_def by (rule distinct_concat_map_sort [OF comps(2)])
  qed (simp add: cs_def)
  moreover have "sorted (map hd cs)" by (simp add: cs_def)
  ultimately show ?thesis using res by blast
qed

text \<open>
  C10. Cycle detection never raises. It reports exactly the tasks that lie on a cycle of
  \<open>Blocks Start\<close> and \<open>Blocks Completion\<close> edges, each once, grouped into the strongly
  connected components, every group in ascending order and the groups ordered by their
  smallest task.
\<close>

theorem cycles_correct:
  "\<exists>cs. cycles g = Inr cs
     \<and> (\<forall>t. t \<in> set (concat cs) \<longleftrightarrow> (t, t) \<in> (dep_rel g)\<^sup>+)
     \<and> (\<forall>c\<in>set cs. is_scc (dep_rel g) c \<and> sorted c)
     \<and> distinct (concat cs) \<and> sorted (map hd cs)"
  by (rule cycles_spec)

definition two_cycle :: dependency_graph where
  "two_cycle = [\<lparr>dp_predecessor = TaskId 1, dp_successor = TaskId 2, dp_type = BLOCKS_START\<rparr>,
     \<lparr>dp_predecessor = TaskId 2, dp_successor = TaskId 1, dp_type = BLOCKS_COMPLETION\<rparr>]"

lemma dep_rel_edges:
  "dep_rel g = (\<lambda>d. (dp_predecessor d, dp_successor d)) ` set (filter cycle_edge g)"
  by (auto simp: dep_rel_def)

lemma cycles_correct_witness:
  "\<exists>cs. cycles two_cycle = Inr cs \<and> TaskId 1 \<in> set (concat cs) \<and> TaskId 2 \<in> set (concat cs)"
proof -
  have "(TaskId 1, TaskId 2) \<in> dep_rel two_cycle" "(TaskId 2, TaskId 1) \<in> dep_rel two_cycle"
    by (simp_all add: dep_rel_edges two_cycle_def cycle_edge_def)
  then have "(TaskId 1, TaskId 1) \<in> (dep_rel two_cycle)\<^sup>+" "(TaskId 2, TaskId 2) \<in> (dep_rel two_cycle)\<^sup>+"
    by (meson trancl.simps)+
  then show ?thesis using cycles_correct [of two_cycle] by blast
qed

end
