(* ===== verification/Timing.thy ===== *)
theory Timing
  imports Dependencies
begin

text \<open>
  Backward critical-path timing over \<open>Blocks Start\<close> edges (\<open>graph/critical_path.py\<close>). The
  memo table is threaded through the recursion as the source mutates it; \<open>visiting\<close> is
  passed down, since the source removes a task from it on return. The recursion ends
  because every call enters a node that is not being visited. Two results: the timing is
  defined for every node, cyclic graphs included, and on an acyclic graph it is the
  latest schedule that respects deadlines, milestones and start order.
\<close>

section \<open>The computation\<close>

record timing_node =
  tn_id :: task_id
  tn_safety :: int
  tn_status :: task_status
  tn_milestone :: "milestone_id option"
  tn_deadline :: "instant option"

type_synonym nodes = "(task_id, timing_node) dict"
type_synonym limits = "(milestone_id, instant) dict"

record timing_result =
  tr_latest_finish :: "(task_id, instant) dict"
  tr_must_start :: "(task_id, instant) dict"

definition must_start_by :: "timing_result \<Rightarrow> task_id \<Rightarrow> instant option" where
  "must_start_by r t = map_of (tr_must_start r) t"

definition successor_ids :: "nodes \<Rightarrow> dependency_graph \<Rightarrow> task_id \<Rightarrow> task_id list" where
  "successor_ids nodes g t = filter (\<lambda>s. case map_of nodes s of None \<Rightarrow> False
     | Some n \<Rightarrow> \<not> closed_status (tn_status n)) (sort (start_successors g t))"

text \<open>The limits of a task that do not come from its successors, the horizon apart.\<close>

definition own_limits :: "limits \<Rightarrow> timing_node \<Rightarrow> instant list" where
  "own_limits ml n =
     (case tn_deadline n of None \<Rightarrow> [] | Some d \<Rightarrow> [d])
     @ (case tn_milestone n of None \<Rightarrow> [] | Some m \<Rightarrow>
          (case map_of ml m of None \<Rightarrow> [] | Some d \<Rightarrow> [d]))"

definition min_of :: "instant \<Rightarrow> instant list \<Rightarrow> instant" where
  "min_of x xs = fold min xs x"

function (sequential) resolve :: "nodes \<Rightarrow> dependency_graph \<Rightarrow> limits \<Rightarrow> instant \<Rightarrow> task_id list
    \<Rightarrow> (task_id, instant) dict \<Rightarrow> task_id \<Rightarrow> (instant \<times> (task_id, instant) dict) res"
  and resolve_succs :: "nodes \<Rightarrow> dependency_graph \<Rightarrow> limits \<Rightarrow> instant \<Rightarrow> task_id list
    \<Rightarrow> (task_id, instant) dict \<Rightarrow> task_id list \<Rightarrow> (instant list \<times> (task_id, instant) dict) res"
where
  "resolve nodes g ml h visiting memo t =
     (case map_of memo t of
        Some x \<Rightarrow> Inr (x, memo)
      | None \<Rightarrow>
          if t \<in> set visiting then Inr (h, memo)
          else (case map_of nodes t of
             None \<Rightarrow> Inl KeyError
           | Some n \<Rightarrow>
               rbind (resolve_succs nodes g ml h (t # visiting) memo (successor_ids nodes g t))
                 (\<lambda>(ls, memo'). let v = min_of h (own_limits ml n @ ls)
                    in Inr (v, AList.update t v memo'))))"
| "resolve_succs nodes g ml h visiting memo [] = Inr ([], memo)"
| "resolve_succs nodes g ml h visiting memo (s # ss) =
     rbind (resolve nodes g ml h visiting memo s) (\<lambda>(x, memo1).
     case map_of nodes s of
       None \<Rightarrow> Inl KeyError
     | Some n \<Rightarrow>
         rbind (resolve_succs nodes g ml h visiting memo1 ss) (\<lambda>(ls, memo2).
         Inr ((x - minutes_delta (tn_safety n)) # ls, memo2)))"
  by pat_completeness auto
termination
proof (relation "measures [
    \<lambda>x. case x of
        Inl (nodes, g, ml, h, vis, memo, t) \<Rightarrow> card (set (map fst nodes) - set vis)
      | Inr (nodes, g, ml, h, vis, memo, ss) \<Rightarrow> card (set (map fst nodes) - set vis),
    \<lambda>x. case x of Inl _ \<Rightarrow> 0 | Inr (nodes, g, ml, h, vis, memo, ss) \<Rightarrow> Suc (length ss)]", goal_cases)
  case 1
  show ?case by simp
next
  case (2 nodes g ml h visiting memo t n)
  then have "t \<in> fst ` set nodes - set visiting" by (force dest: map_of_SomeD)
  then have "fst ` set nodes - insert t (set visiting) \<subset> fst ` set nodes - set visiting" by blast
  then have "card (fst ` set nodes - insert t (set visiting)) < card (fst ` set nodes - set visiting)"
    by (rule psubset_card_mono [rotated]) simp
  then show ?case by simp
qed simp_all

declare resolve.simps [simp del] resolve_succs.simps [simp del]

definition resolve_all :: "nodes \<Rightarrow> dependency_graph \<Rightarrow> limits \<Rightarrow> instant \<Rightarrow> task_id list
    \<Rightarrow> (task_id, instant) dict \<Rightarrow> (task_id, instant) dict res" where
  "resolve_all nodes g ml h ts memo =
     rfold (\<lambda>t memo. rbind (resolve nodes g ml h [] memo t) (\<lambda>(x, memo'). Inr memo')) ts memo"

definition backward_timing :: "nodes \<Rightarrow> dependency_graph \<Rightarrow> limits \<Rightarrow> instant \<Rightarrow> timing_result res" where
  "backward_timing nodes g ml h =
     rbind (resolve_all nodes g ml h (sort (map fst nodes)) []) (\<lambda>latest.
     Inr \<lparr>tr_latest_finish = latest,
       tr_must_start = map (\<lambda>(t, n). (t, dget latest t 0 - minutes_delta (tn_safety n)))
         (filter (\<lambda>(t, n). map_of latest t \<noteq> None) nodes)\<rparr>)"

definition unlock_counts :: "nodes \<Rightarrow> dependency_graph \<Rightarrow> (task_id, nat) dict" where
  "unlock_counts nodes g =
     map (\<lambda>(t, n). (t, if closed_status (tn_status n) then 0
       else length (filter (\<lambda>s. case map_of nodes s of None \<Rightarrow> False
         | Some m \<Rightarrow> \<not> closed_status (tn_status m)) (start_successors g t)))) nodes"

section \<open>Minima and successors\<close>

lemma min_of_Min: "min_of x xs = Min (set (x # xs))"
  by (simp only: min_of_def Min.set_eq_fold)

lemma min_of_le: "y = x \<or> y \<in> set xs \<Longrightarrow> min_of x xs \<le> y"
  unfolding min_of_Min by (rule Min_le) auto

lemma min_of_ge_iff: "z \<le> min_of x xs \<longleftrightarrow> z \<le> x \<and> (\<forall>y\<in>set xs. z \<le> y)"
  unfolding min_of_Min by (subst Min_ge_iff) auto

definition active_rel :: "nodes \<Rightarrow> dependency_graph \<Rightarrow> (task_id \<times> task_id) set" where
  "active_rel nodes g = {(t, s). s \<in> set (successor_ids nodes g t)}"

lemma successor_node: "s \<in> set (successor_ids nodes g t) \<Longrightarrow> \<exists>n. map_of nodes s = Some n"
  by (auto simp: successor_ids_def split: option.splits)

lemma finite_active_rel: "finite (active_rel nodes g)"
proof (rule finite_subset)
  show "active_rel nodes g \<subseteq> dp_predecessor ` set g \<times> dp_successor ` set g"
    by (auto simp: active_rel_def successor_ids_def start_successors_def)
qed simp

section \<open>The timing is always defined and respects the limits\<close>

definition memo_bounded :: "nodes \<Rightarrow> limits \<Rightarrow> instant \<Rightarrow> (task_id, instant) dict \<Rightarrow> bool" where
  "memo_bounded nodes ml h memo \<longleftrightarrow> (\<forall>t v. map_of memo t = Some v \<longrightarrow> v \<le> h
     \<and> (\<exists>n. map_of nodes t = Some n \<and> (\<forall>d\<in>set (own_limits ml n). v \<le> d)))"

lemma resolve_total:
  "memo_bounded nodes ml h memo \<Longrightarrow> map_of nodes t \<noteq> None \<Longrightarrow>
     \<exists>x memo'. resolve nodes g ml h vis memo t = Inr (x, memo') \<and> memo_bounded nodes ml h memo'
       \<and> dom (map_of memo) \<subseteq> dom (map_of memo') \<and> (t \<notin> set vis \<longrightarrow> t \<in> dom (map_of memo'))"
  "memo_bounded nodes ml h memo \<Longrightarrow> \<forall>s\<in>set ss. map_of nodes s \<noteq> None \<Longrightarrow>
     \<exists>ls memo'. resolve_succs nodes g ml h vis memo ss = Inr (ls, memo')
       \<and> memo_bounded nodes ml h memo' \<and> dom (map_of memo) \<subseteq> dom (map_of memo')"
proof (induction nodes g ml h vis memo t and nodes g ml h vis memo ss rule: resolve_resolve_succs.induct)
  case (1 nodes g ml h vis memo t)
  show ?case
  proof (cases "map_of memo t")
    case (Some x)
    then show ?thesis using "1.prems" by (auto simp: resolve.simps [of nodes g ml h vis memo t])
  next
    case None
    show ?thesis
    proof (cases "t \<in> set vis")
      case True
      then show ?thesis using "1.prems" None by (auto simp: resolve.simps [of nodes g ml h vis memo t])
    next
      case False
      from "1.prems"(2) obtain n where n: "map_of nodes t = Some n" by auto
      have "\<forall>s\<in>set (successor_ids nodes g t). map_of nodes s \<noteq> None"
        using successor_node by fastforce
      from "1.IH" [OF None False n "1.prems"(1) this] obtain ls memo' where
        r: "resolve_succs nodes g ml h (t # vis) memo (successor_ids nodes g t) = Inr (ls, memo')"
        and b: "memo_bounded nodes ml h memo'" and d: "dom (map_of memo) \<subseteq> dom (map_of memo')" by blast
      have "memo_bounded nodes ml h (AList.update t (min_of h (own_limits ml n @ ls)) memo')"
        using b n min_of_le [of _ h "own_limits ml n @ ls"]
        by (auto simp: memo_bounded_def dict_simps)
      then show ?thesis using None False n r d
        by (simp add: resolve.simps [of nodes g ml h vis memo t] Let_def dict_simps subset_insertI2)
    qed
  qed
next
  case (2 nodes g ml h vis memo)
  then show ?case by (auto simp: resolve_succs.simps)
next
  case (3 nodes g ml h vis memo s ss)
  from "3.IH"(1) [OF "3.prems"(1)] "3.prems"(2) obtain x m1 where
    m1: "resolve nodes g ml h vis memo s = Inr (x, m1)" "memo_bounded nodes ml h m1"
      "dom (map_of memo) \<subseteq> dom (map_of m1)" by auto
  from "3.prems"(2) obtain n where n: "map_of nodes s = Some n" by auto
  from "3.IH"(2) [OF m1(1) refl n m1(2)] "3.prems"(2) obtain ls m2 where
    "resolve_succs nodes g ml h vis m1 ss = Inr (ls, m2)" "memo_bounded nodes ml h m2"
      "dom (map_of m1) \<subseteq> dom (map_of m2)" by auto
  then show ?case using m1 n
    by (simp add: resolve_succs.simps(2) [of nodes g ml h vis memo s ss])
qed

lemma resolve_all_total:
  assumes "memo_bounded nodes ml h memo" and "\<forall>t\<in>set ts. map_of nodes t \<noteq> None"
  shows "\<exists>memo'. resolve_all nodes g ml h ts memo = Inr memo' \<and> memo_bounded nodes ml h memo'
    \<and> set ts \<union> dom (map_of memo) \<subseteq> dom (map_of memo')"
  using assms
proof (induction ts arbitrary: memo)
  case Nil
  then show ?case by (simp add: resolve_all_def)
next
  case (Cons t ts)
  from resolve_total(1) [OF Cons.prems(1), of t g "[]"] Cons.prems(2) obtain x m1 where
    m1: "resolve nodes g ml h [] memo t = Inr (x, m1)" "memo_bounded nodes ml h m1"
      "insert t (dom (map_of memo)) \<subseteq> dom (map_of m1)" by auto
  from Cons.IH [OF m1(2)] Cons.prems(2) obtain m2 where
    m2: "resolve_all nodes g ml h ts m1 = Inr m2" "memo_bounded nodes ml h m2"
      "set ts \<union> dom (map_of m1) \<subseteq> dom (map_of m2)" by auto
  then have "set (t # ts) \<union> dom (map_of memo) \<subseteq> dom (map_of m2)"
    using m1(3) unfolding list.set by blast
  with m1(1) m2(1,2) show ?case by (intro exI [of _ m2]) (simp add: resolve_all_def)
qed

definition latest_finish :: "timing_result \<Rightarrow> task_id \<Rightarrow> instant" where
  "latest_finish r t = dget (tr_latest_finish r) t 0"

lemma map_of_must_start:
  "map_of (map (\<lambda>(t, n). (t, dget latest t 0 - minutes_delta (tn_safety n)))
     (filter (\<lambda>(t, n). map_of latest t \<noteq> None) nodes)) t =
   (case map_of nodes t of None \<Rightarrow> None
    | Some n \<Rightarrow> if map_of latest t = None then None
        else Some (dget latest t 0 - minutes_delta (tn_safety n)))"
  by (induction nodes) (auto split: option.splits)

lemma backward_timing_spec:
  "\<exists>r. backward_timing nodes g ml h = Inr r \<and> (\<forall>t n. map_of nodes t = Some n \<longrightarrow>
     latest_finish r t \<le> h \<and> (\<forall>d\<in>set (own_limits ml n). latest_finish r t \<le> d)
     \<and> must_start_by r t = Some (latest_finish r t - minutes_delta (tn_safety n)))"
proof -
  have "memo_bounded nodes ml h []" by (simp add: memo_bounded_def)
  from resolve_all_total [OF this, of "sort (map fst nodes)" g] obtain latest where
    r: "resolve_all nodes g ml h (sort (map fst nodes)) [] = Inr latest"
    and b: "memo_bounded nodes ml h latest" and d: "fst ` set nodes \<subseteq> dom (map_of latest)"
    by (auto simp: map_of_eq_None_iff)
  let ?r = "\<lparr>tr_latest_finish = latest,
       tr_must_start = map (\<lambda>(t, n). (t, dget latest t 0 - minutes_delta (tn_safety n)))
         (filter (\<lambda>(t, n). map_of latest t \<noteq> None) nodes)\<rparr>"
  have "latest_finish ?r t \<le> h \<and> (\<forall>d\<in>set (own_limits ml n). latest_finish ?r t \<le> d)
     \<and> must_start_by ?r t = Some (latest_finish ?r t - minutes_delta (tn_safety n))"
    if n: "map_of nodes t = Some n" for t n
  proof -
    have "t \<in> dom (map_of latest)" using n d by (force dest: map_of_SomeD)
    then obtain v where v: "map_of latest t = Some v" by auto
    then have lf: "latest_finish ?r t = v" by (simp add: latest_finish_def dget_def)
    have "must_start_by ?r t = Some (dget latest t 0 - minutes_delta (tn_safety n))"
      unfolding must_start_by_def timing_result.simps map_of_must_start using v n by simp
    moreover have "v \<le> h \<and> (\<forall>d\<in>set (own_limits ml n). v \<le> d)"
      using b n v unfolding memo_bounded_def by fastforce
    ultimately show ?thesis using v by (simp only: lf) (simp add: dget_def)
  qed
  then show ?thesis using r by (intro exI [of _ ?r]) (simp add: backward_timing_def)
qed

text \<open>
  Backward timing never raises, cyclic graphs included, and gives every node a latest
  finish no later than the horizon, its own deadline and its milestone's limit, and a
  latest start that is its safety duration earlier.
\<close>

theorem backward_timing_total:
  "\<exists>r. backward_timing nodes g ml h = Inr r \<and> (\<forall>t n. map_of nodes t = Some n \<longrightarrow>
     latest_finish r t \<le> h \<and> (\<forall>d\<in>set (own_limits ml n). latest_finish r t \<le> d)
     \<and> must_start_by r t = Some (latest_finish r t - minutes_delta (tn_safety n)))"
  by (rule backward_timing_spec)

section \<open>On an acyclic graph the timing is the latest feasible one\<close>

text \<open>The duration the source subtracts for a successor, and the schedules it admits.\<close>

definition duration_of :: "nodes \<Rightarrow> task_id \<Rightarrow> int" where
  "duration_of nodes s = (case map_of nodes s of None \<Rightarrow> 0 | Some m \<Rightarrow> minutes_delta (tn_safety m))"

definition feasible_finish :: "nodes \<Rightarrow> dependency_graph \<Rightarrow> limits \<Rightarrow> instant \<Rightarrow> (task_id \<Rightarrow> instant) \<Rightarrow> bool" where
  "feasible_finish nodes g ml h F \<longleftrightarrow> (\<forall>t n. map_of nodes t = Some n \<longrightarrow>
     F t \<le> h \<and> (\<forall>d\<in>set (own_limits ml n). F t \<le> d)
     \<and> (\<forall>s\<in>set (successor_ids nodes g t). F t \<le> F s - duration_of nodes s))"

definition memo_exact :: "nodes \<Rightarrow> dependency_graph \<Rightarrow> limits \<Rightarrow> instant \<Rightarrow> (task_id, instant) dict \<Rightarrow> bool" where
  "memo_exact nodes g ml h memo \<longleftrightarrow> (\<forall>t v n. map_of memo t = Some v \<longrightarrow> map_of nodes t = Some n \<longrightarrow>
     set (successor_ids nodes g t) \<subseteq> dom (map_of memo)
     \<and> v = min_of h (own_limits ml n @ map (\<lambda>s. dget memo s 0 - duration_of nodes s) (successor_ids nodes g t)))"

lemma dget_map_le: "map_of m \<subseteq>\<^sub>m map_of m' \<Longrightarrow> s \<in> dom (map_of m) \<Longrightarrow> dget m' s d = dget m s d"
  by (auto simp: dget_def map_le_def dom_def)

lemma memo_exact_update:
  assumes e: "memo_exact nodes g ml h memo" and n: "map_of nodes t = Some n"
    and sub: "set (successor_ids nodes g t) \<subseteq> dom (map_of memo)"
    and v: "v = min_of h (own_limits ml n @ map (\<lambda>s. dget memo s 0 - duration_of nodes s) (successor_ids nodes g t))"
  shows "memo_exact nodes g ml h (AList.update t v memo) \<and> map_of memo \<subseteq>\<^sub>m map_of (AList.update t v memo)"
proof (cases "map_of memo t")
  case (Some w)
  with e n v have "w = v" by (simp add: memo_exact_def)
  with Some have same: "map_of (AList.update t v memo) = map_of memo" by (auto simp: dict_simps fun_eq_iff)
  then have "dget (AList.update t v memo) = dget memo" by (simp add: dget_def fun_eq_iff)
  with same e show ?thesis by (simp add: memo_exact_def)
next
  case None
  have le: "map_of memo \<subseteq>\<^sub>m map_of (AList.update t v memo)"
    using None by (auto simp: map_le_def dict_simps)
  have eq: "map (\<lambda>s. dget (AList.update t v memo) s 0 - duration_of nodes s) ss
      = map (\<lambda>s. dget memo s 0 - duration_of nodes s) ss" if "set ss \<subseteq> dom (map_of memo)" for ss
    using that by (intro map_cong refl) (simp add: dget_map_le [OF le] subsetD)
  have "memo_exact nodes g ml h (AList.update t v memo)"
    unfolding memo_exact_def
  proof (intro allI impI)
    fix u w m
    assume u: "map_of (AList.update t v memo) u = Some w" and m: "map_of nodes u = Some m"
    have "set (successor_ids nodes g u) \<subseteq> dom (map_of memo)
      \<and> w = min_of h (own_limits ml m @ map (\<lambda>s. dget memo s 0 - duration_of nodes s) (successor_ids nodes g u))"
    proof (cases "u = t")
      case True then show ?thesis using u m n sub v by (simp add: dict_simps)
    next
      case False then show ?thesis using u m e unfolding memo_exact_def by (simp add: dict_simps)
    qed
    moreover have "dom (map_of memo) \<subseteq> dom (map_of (AList.update t v memo))"
      using le by (rule map_le_implies_dom_le)
    ultimately show "set (successor_ids nodes g u) \<subseteq> dom (map_of (AList.update t v memo))
      \<and> w = min_of h (own_limits ml m @ map (\<lambda>s. dget (AList.update t v memo) s 0 - duration_of nodes s) (successor_ids nodes g u))"
      using eq [of "successor_ids nodes g u"] by (metis subset_trans)
  qed
  with le show ?thesis by simp
qed

lemma resolve_exact:
  "memo_exact nodes g ml h memo \<Longrightarrow> map_of nodes t \<noteq> None \<Longrightarrow> acyclic (active_rel nodes g)
     \<Longrightarrow> \<forall>v\<in>set vis. (v, t) \<in> (active_rel nodes g)\<^sup>+ \<Longrightarrow>
     \<exists>x memo'. resolve nodes g ml h vis memo t = Inr (x, memo') \<and> memo_exact nodes g ml h memo'
       \<and> map_of memo \<subseteq>\<^sub>m map_of memo' \<and> map_of memo' t = Some x"
  "memo_exact nodes g ml h memo \<Longrightarrow> \<forall>s\<in>set ss. map_of nodes s \<noteq> None \<Longrightarrow> acyclic (active_rel nodes g)
     \<Longrightarrow> \<forall>v\<in>set vis. \<forall>s\<in>set ss. (v, s) \<in> (active_rel nodes g)\<^sup>+ \<Longrightarrow>
     \<exists>ls memo'. resolve_succs nodes g ml h vis memo ss = Inr (ls, memo') \<and> memo_exact nodes g ml h memo'
       \<and> map_of memo \<subseteq>\<^sub>m map_of memo' \<and> set ss \<subseteq> dom (map_of memo')
       \<and> ls = map (\<lambda>s. dget memo' s 0 - duration_of nodes s) ss"
proof (induction nodes g ml h vis memo t and nodes g ml h vis memo ss rule: resolve_resolve_succs.induct)
  case (1 nodes g ml h vis memo t)
  show ?case
  proof (cases "map_of memo t")
    case (Some x)
    then show ?thesis using "1.prems"(1) by (simp add: resolve.simps [of nodes g ml h vis memo t] map_le_def)
  next
    case None
    have fresh: "t \<notin> set vis" using "1.prems"(3,4) by (auto simp: acyclic_def)
    from "1.prems"(2) obtain n where n: "map_of nodes t = Some n" by auto
    have known: "\<forall>s\<in>set (successor_ids nodes g t). map_of nodes s \<noteq> None"
      using successor_node by fastforce
    have "\<forall>v\<in>set (t # vis). \<forall>s\<in>set (successor_ids nodes g t). (v, s) \<in> (active_rel nodes g)\<^sup>+"
      using "1.prems"(4) by (auto simp: active_rel_def intro: trancl_into_trancl)
    from "1.IH" [OF None fresh n "1.prems"(1) known "1.prems"(3) this] obtain ls memo' where
      r: "resolve_succs nodes g ml h (t # vis) memo (successor_ids nodes g t) = Inr (ls, memo')"
      and e: "memo_exact nodes g ml h memo'" and le: "map_of memo \<subseteq>\<^sub>m map_of memo'"
      and sub: "set (successor_ids nodes g t) \<subseteq> dom (map_of memo')"
      and ls: "ls = map (\<lambda>s. dget memo' s 0 - duration_of nodes s) (successor_ids nodes g t)" by blast
    let ?v = "min_of h (own_limits ml n @ ls)"
    from memo_exact_update [OF e n sub] ls have
      "memo_exact nodes g ml h (AList.update t ?v memo')"
      "map_of memo' \<subseteq>\<^sub>m map_of (AList.update t ?v memo')" by simp_all
    with le have "memo_exact nodes g ml h (AList.update t ?v memo')
      \<and> map_of memo \<subseteq>\<^sub>m map_of (AList.update t ?v memo')" by (blast intro: map_le_trans)
    then show ?thesis using None fresh n r
      by (simp add: resolve.simps [of nodes g ml h vis memo t] Let_def dict_simps)
  qed
next
  case (2 nodes g ml h vis memo)
  then show ?case by (simp add: resolve_succs.simps)
next
  case (3 nodes g ml h vis memo s ss)
  from "3.IH"(1) [OF "3.prems"(1) _ "3.prems"(3)] "3.prems"(2,4) obtain x m1 where
    m1: "resolve nodes g ml h vis memo s = Inr (x, m1)" "memo_exact nodes g ml h m1"
      "map_of memo \<subseteq>\<^sub>m map_of m1" "map_of m1 s = Some x" by auto
  from "3.prems"(2) obtain n where n: "map_of nodes s = Some n" by auto
  from "3.IH"(2) [OF m1(1) refl n m1(2) _ "3.prems"(3)] "3.prems"(2,4) obtain ls m2 where
    m2: "resolve_succs nodes g ml h vis m1 ss = Inr (ls, m2)" "memo_exact nodes g ml h m2"
      "map_of m1 \<subseteq>\<^sub>m map_of m2" "set ss \<subseteq> dom (map_of m2)"
      "ls = map (\<lambda>s. dget m2 s 0 - duration_of nodes s) ss" by auto
  have "map_of memo \<subseteq>\<^sub>m map_of m2" using m1(3) m2(3) by (rule map_le_trans)
  moreover have s2: "map_of m2 s = Some x" using m1(4) m2(3) by (auto simp: map_le_def dom_def)
  ultimately show ?case using m1(1) m2 n
    by (auto simp: resolve_succs.simps(2) [of nodes g ml h vis memo s ss] dget_def duration_of_def)
qed

lemma resolve_all_exact:
  assumes "memo_exact nodes g ml h memo" and "\<forall>t\<in>set ts. map_of nodes t \<noteq> None"
    and "acyclic (active_rel nodes g)" and "resolve_all nodes g ml h ts memo = Inr memo'"
  shows "memo_exact nodes g ml h memo'"
  using assms
proof (induction ts arbitrary: memo)
  case Nil
  then show ?case by (simp add: resolve_all_def)
next
  case (Cons t ts)
  from resolve_exact(1) [OF Cons.prems(1) _ Cons.prems(3), of t "[]"] Cons.prems(2) obtain x m1 where
    "resolve nodes g ml h [] memo t = Inr (x, m1)" "memo_exact nodes g ml h m1" by auto
  with Cons.IH [of m1] Cons.prems show ?case by (simp add: resolve_all_def)
qed

lemma backward_timing_feasible:
  assumes "acyclic (active_rel nodes g)" and r: "backward_timing nodes g ml h = Inr r"
    and n: "map_of nodes t = Some n"
  shows "latest_finish r t = min_of h (own_limits ml n
    @ map (\<lambda>s. latest_finish r s - duration_of nodes s) (successor_ids nodes g t))"
proof -
  have "\<forall>t\<in>set (sort (map fst nodes)). map_of nodes t \<noteq> None"
    by (auto simp: map_of_eq_None_iff)
  note known = this
  have "memo_bounded nodes ml h []" by (simp add: memo_bounded_def)
  from resolve_all_total [OF this known, of g] obtain latest where
    l: "resolve_all nodes g ml h (sort (map fst nodes)) [] = Inr latest"
    and d: "fst ` set nodes \<subseteq> dom (map_of latest)" by auto
  have "memo_exact nodes g ml h []" by (simp add: memo_exact_def)
  from resolve_all_exact [OF this known assms(1) l] have e: "memo_exact nodes g ml h latest" .
  have lf: "latest_finish r s = dget latest s 0" for s
    using r l by (auto simp: backward_timing_def latest_finish_def)
  have "t \<in> dom (map_of latest)" using n d by (force dest: map_of_SomeD)
  then obtain v where v: "map_of latest t = Some v" by auto
  with e n have "v = min_of h (own_limits ml n
    @ map (\<lambda>s. dget latest s 0 - duration_of nodes s) (successor_ids nodes g t))"
    by (simp add: memo_exact_def)
  with v lf show ?thesis by (simp add: dget_def)
qed

text \<open>
  C9. When the start order among open tasks has no cycle, the computed finish times form a
  feasible schedule (horizon, deadlines, milestones, and every task done before its
  successor must start), and they are the latest one: every feasible schedule finishes each
  task no later.
\<close>

theorem backward_timing_latest:
  assumes "acyclic (active_rel nodes g)"
  shows "\<exists>r. backward_timing nodes g ml h = Inr r \<and> feasible_finish nodes g ml h (latest_finish r)
    \<and> (\<forall>F. feasible_finish nodes g ml h F \<longrightarrow>
         (\<forall>t. map_of nodes t \<noteq> None \<longrightarrow> F t \<le> latest_finish r t))"
proof -
  have "memo_bounded nodes ml h []" by (simp add: memo_bounded_def)
  from resolve_all_total [OF this, of "sort (map fst nodes)" g] obtain r where
    r: "backward_timing nodes g ml h = Inr r"
    by (auto simp: backward_timing_def map_of_eq_None_iff)
  note eq = backward_timing_feasible [OF assms r]
  have "feasible_finish nodes g ml h (latest_finish r)"
    unfolding feasible_finish_def
  proof (intro allI impI)
    fix t n assume n: "map_of nodes t = Some n"
    show "latest_finish r t \<le> h \<and> (\<forall>d\<in>set (own_limits ml n). latest_finish r t \<le> d)
      \<and> (\<forall>s\<in>set (successor_ids nodes g t). latest_finish r t \<le> latest_finish r s - duration_of nodes s)"
      by (subst (1 2 3) eq [OF n]) (auto intro!: min_of_le)
  qed
  moreover have "F t \<le> latest_finish r t" if F: "feasible_finish nodes g ml h F"
    and t: "map_of nodes t \<noteq> None" for F t
  proof -
    have "wf ((active_rel nodes g)\<inverse>)"
      by (rule finite_acyclic_wf_converse [OF finite_active_rel assms])
    then show ?thesis using t
    proof (induction t rule: wf_induct_rule)
      case (less t)
      from less.prems obtain n where n: "map_of nodes t = Some n" by auto
      from F n have "F t \<le> h" "\<forall>d\<in>set (own_limits ml n). F t \<le> d"
        and succ: "\<forall>s\<in>set (successor_ids nodes g t). F t \<le> F s - duration_of nodes s"
        by (auto simp: feasible_finish_def)
      moreover have "F t \<le> latest_finish r s - duration_of nodes s"
        if s: "s \<in> set (successor_ids nodes g t)" for s
      proof -
        have "F s \<le> latest_finish r s"
          using less.IH [of s] s successor_node [OF s] by (auto simp: active_rel_def)
        with succ s show ?thesis by fastforce
      qed
      ultimately show ?case unfolding eq [OF n] min_of_ge_iff by auto
    qed
  qed
  ultimately show ?thesis using r by blast
qed

text \<open>Two tasks: the first blocks the start of the second, which is due on day one.\<close>

definition sample_nodes :: nodes where
  "sample_nodes = [
     (TaskId 1, \<lparr>tn_id = TaskId 1, tn_safety = 30, tn_status = READY, tn_milestone = None, tn_deadline = None\<rparr>),
     (TaskId 2, \<lparr>tn_id = TaskId 2, tn_safety = 60, tn_status = READY, tn_milestone = None, tn_deadline = Some 86400000000\<rparr>)]"

definition sample_graph :: dependency_graph where
  "sample_graph = [\<lparr>dp_predecessor = TaskId 1, dp_successor = TaskId 2, dp_type = BLOCKS_START\<rparr>]"

lemma backward_timing_latest_witness:
  "\<exists>r. backward_timing sample_nodes sample_graph [] 172800000000 = Inr r
    \<and> feasible_finish sample_nodes sample_graph [] 172800000000 (latest_finish r)
    \<and> latest_finish r (TaskId 1) = 86400000000 - 3600000000"
proof -
  have "active_rel sample_nodes sample_graph = {(TaskId 1, TaskId 2)}"
    by (auto simp: active_rel_def successor_ids_def start_successors_def sample_nodes_def
        sample_graph_def split: if_splits)
  then have "acyclic (active_rel sample_nodes sample_graph)"
    by (simp add: acyclic_insert) (simp add: acyclic_def)
  from backward_timing_latest [OF this, of "[]" 172800000000] obtain r where
    r: "backward_timing sample_nodes sample_graph [] 172800000000 = Inr r"
      "feasible_finish sample_nodes sample_graph [] 172800000000 (latest_finish r)" by blast
  moreover have "map_option (\<lambda>r. latest_finish r (TaskId 1)) (case backward_timing sample_nodes sample_graph [] 172800000000 of Inl e \<Rightarrow> None | Inr r \<Rightarrow> Some r)
      = Some (86400000000 - 3600000000)"
    by code_simp
  ultimately show ?thesis by auto
qed

lemma backward_timing_total_witness:
  "\<exists>r. backward_timing sample_nodes sample_graph [] 172800000000 = Inr r
    \<and> latest_finish r (TaskId 2) \<le> 86400000000"
proof -
  define n where "n = snd (sample_nodes ! 1)"
  have "map_of sample_nodes (TaskId 2) = Some n" "86400000000 \<in> set (own_limits [] n)"
    by (simp_all add: n_def sample_nodes_def own_limits_def)
  with backward_timing_total [of sample_nodes sample_graph "[]" 172800000000] show ?thesis by blast
qed

end
