(* ===== verification/Floats.thy ===== *)
theory Floats
  imports Complex_Main Prelude
begin

text \<open>
  Python's \<open>float\<close>: IEEE double precision as exact rational arithmetic followed by one
  rounding to 53 significant bits, ties to even (\<open>fl\<close>). Every operation the planner uses
  on floats (multiplication, division, \<open>math.floor\<close>, \<open>math.ceil\<close>, \<open>round(x, n)\<close>) is
  built from it, so a result that depends on float noise is visible in the model. The
  exponent range is unbounded: no value the planner computes is near overflow or
  subnormal. The lemmas bound the rounding error and give the values \<open>fl\<close> leaves alone.
\<close>

section \<open>Rounding to the nearest integer and to 53 bits\<close>

definition rne :: "rat \<Rightarrow> int" where
  "rne x = (let f = \<lfloor>x\<rfloor>; d = x - of_int f in
     if d < 1/2 then f else if 1/2 < d then f + 1 else if even f then f else f + 1)"

fun bits :: "nat \<Rightarrow> nat" where
  "bits n = (if n = 0 then 0 else Suc (bits (n div 2)))"

declare bits.simps [simp del]

definition pow2 :: "int \<Rightarrow> rat" where
  "pow2 e = (if 0 \<le> e then 2 ^ nat e else 1 / 2 ^ nat (- e))"

definition dbl_exp :: "rat \<Rightarrow> int" where
  "dbl_exp x = (case quotient_of x of (p, q) \<Rightarrow>
     let e = int (bits (nat p)) - int (bits (nat q)) - 53
     in if 2 ^ 53 \<le> x / pow2 e then e + 1 else e)"

definition fl_pos :: "rat \<Rightarrow> rat" where
  "fl_pos x = (let e = dbl_exp x in of_int (rne (x / pow2 e)) * pow2 e)"

definition fl :: "rat \<Rightarrow> rat" where
  "fl x = (if x = 0 then 0 else if x < 0 then - fl_pos (- x) else fl_pos x)"

definition fmul :: "rat \<Rightarrow> rat \<Rightarrow> rat" where
  "fmul x y = fl (x * y)"

definition fdiv :: "rat \<Rightarrow> rat \<Rightarrow> rat" where
  "fdiv x y = fl (x / y)"

definition fadd :: "rat \<Rightarrow> rat \<Rightarrow> rat" where
  "fadd x y = fl (x + y)"

definition fsub :: "rat \<Rightarrow> rat \<Rightarrow> rat" where
  "fsub x y = fl (x - y)"

text \<open>\<open>round(x, n)\<close>: the decimal nearest to the exact value of the double, ties to even.\<close>

definition fround :: "rat \<Rightarrow> nat \<Rightarrow> rat" where
  "fround x n = fl (of_int (rne (x * 10 ^ n)) / 10 ^ n)"

section \<open>Rounding to integers\<close>

lemma rne_error: "\<bar>of_int (rne x) - x\<bar> \<le> 1/2"
proof -
  have "of_int \<lfloor>x\<rfloor> \<le> x" "x < of_int \<lfloor>x\<rfloor> + 1" by linarith+
  moreover have "rne x = \<lfloor>x\<rfloor> \<and> x - of_int \<lfloor>x\<rfloor> \<le> 1/2 \<or> rne x = \<lfloor>x\<rfloor> + 1 \<and> 1/2 \<le> x - of_int \<lfloor>x\<rfloor>"
    by (simp add: rne_def Let_def)
  ultimately show ?thesis by (elim disjE) (simp_all add: abs_le_iff)
qed

lemma rne_of_int [simp]: "rne (of_int k) = k"
  by (simp add: rne_def)

lemma rne_numeral [simp]: "rne (numeral k) = numeral k"
  using rne_of_int [of "numeral k"] by simp

lemma rne_mono: "x \<le> y \<Longrightarrow> rne x \<le> rne y"
proof -
  assume le: "x \<le> y"
  consider "\<lfloor>x\<rfloor> = \<lfloor>y\<rfloor>" | "\<lfloor>x\<rfloor> < \<lfloor>y\<rfloor>"
    using floor_mono [OF le] by linarith
  then show ?thesis
  proof cases
    case 1
    with le show ?thesis by (auto simp: rne_def Let_def)
  next
    case 2
    have "rne x \<le> \<lfloor>x\<rfloor> + 1" "\<lfloor>y\<rfloor> \<le> rne y" by (auto simp: rne_def Let_def)
    with 2 show ?thesis by linarith
  qed
qed

lemma rne_ge_int: "of_int k - 1/2 < x \<Longrightarrow> k \<le> rne x"
proof -
  assume "of_int k - 1/2 < x"
  with rne_error [of x] have "of_int k - 1 < (of_int (rne x) :: rat)" by linarith
  then have "of_int (k - 1) < (of_int (rne x) :: rat)" by simp
  then have "k - 1 < rne x" by (simp only: of_int_less_iff)
  then show ?thesis by simp
qed

section \<open>The exponent\<close>

lemma bits_bounds: "0 < n \<Longrightarrow> 2 ^ (bits n - 1) \<le> n \<and> n < 2 ^ bits n \<and> 0 < bits n"
proof (induction n rule: bits.induct)
  case (1 n)
  show ?case
  proof (cases "n = 1")
    case True
    then show ?thesis by (simp add: bits.simps [of "Suc 0"] bits.simps [of 0])
  next
    case False
    with 1 have IH: "2 ^ (bits (n div 2) - 1) \<le> n div 2" "n div 2 < 2 ^ bits (n div 2)"
      "0 < bits (n div 2)"
      by auto
    have b: "bits n = Suc (bits (n div 2))" using "1.prems" by (simp add: bits.simps [of n])
    have "2 * 2 ^ (bits (n div 2) - 1) = (2::nat) ^ bits (n div 2)"
      using IH(3) by (simp flip: power_Suc)
    with IH(1) have "2 ^ bits (n div 2) \<le> n" by linarith
    moreover have "n < 2 * 2 ^ bits (n div 2)" using IH(2) by linarith
    ultimately show ?thesis using b by simp
  qed
qed

lemma pow2_pos [simp]: "0 < pow2 e"
  by (simp add: pow2_def)

lemma pow2_nonzero [simp]: "pow2 e \<noteq> 0"
  using pow2_pos [of e] by linarith

lemma pow2_powi: "pow2 e = 2 powi e"
  by (simp add: pow2_def power_int_def field_simps power_inverse)

lemma pow2_add: "pow2 (a + b) = pow2 a * pow2 b"
  by (simp add: pow2_powi power_int_add)

lemma pow2_nat [simp]: "pow2 (int n) = 2 ^ n"
  by (simp add: pow2_def)

lemma pow2_numeral: "pow2 (numeral k) = 2 ^ numeral k" "pow2 1 = 2"
  by (simp_all add: pow2_def)

lemma pow2_Suc_le: "a < b \<Longrightarrow> 2 * pow2 a \<le> pow2 b"
proof -
  assume "a < b"
  then have "pow2 b = pow2 (a + 1) * pow2 (b - a - 1)"
    using pow2_add [of "a + 1" "b - a - 1"] by simp
  moreover have "1 \<le> pow2 (b - a - 1)" using \<open>a < b\<close> by (simp add: pow2_def)
  moreover have "pow2 (a + 1) = 2 * pow2 a" by (simp add: pow2_add pow2_numeral)
  ultimately show ?thesis using mult_left_mono [of 1 "pow2 (b - a - 1)" "2 * pow2 a"] pow2_pos [of a]
    by (simp add: less_imp_le)
qed

lemma pow2_int_le: "2 ^ n \<le> k \<Longrightarrow> pow2 (int n) \<le> of_int k"
  using of_int_le_iff [of "2 ^ n" k, where 'a = rat] by simp

lemma pow2_int_less: "k < 2 ^ n \<Longrightarrow> of_int k < pow2 (int n)"
  using of_int_less_iff [of k "2 ^ n", where 'a = rat] by simp

lemma dbl_exp_range:
  assumes "0 < x"
  shows "2 ^ 52 \<le> x / pow2 (dbl_exp x)" and "x / pow2 (dbl_exp x) < 2 ^ 53"
proof -
  obtain p q where pq: "quotient_of x = (p, q)" by (cases "quotient_of x")
  have q: "0 < q" using quotient_of_denom_pos [OF pq] .
  have x: "x = of_int p / of_int q" using quotient_of_div [OF pq] .
  have p: "0 < p" using assms x q by (simp add: zero_less_divide_iff)
  define bp bq where "bp = bits (nat p)" and "bq = bits (nat q)"
  have "2 ^ (bp - 1) \<le> nat p" "nat p < 2 ^ bp" "0 < bp"
    and "2 ^ (bq - 1) \<le> nat q" "nat q < 2 ^ bq" "0 < bq"
    using bits_bounds [of "nat p"] bits_bounds [of "nat q"] p q by (simp_all add: bp_def bq_def)
  moreover have "nat p = 0 \<longleftrightarrow> False" "nat q = 0 \<longleftrightarrow> False" using p q by auto
  ultimately have P: "2 ^ (bp - 1) \<le> p" "p < 2 ^ bp" and Q: "2 ^ (bq - 1) \<le> q" "q < 2 ^ bq"
    using p q by (simp_all add: le_nat_iff nat_less_iff)
  have P': "pow2 (int bp - 1) \<le> of_int p" "of_int p < pow2 (int bp)"
    using P pow2_int_le [OF P(1)] \<open>0 < bp\<close> pow2_int_less [OF P(2)] by (simp_all add: of_nat_diff)
  have Q': "pow2 (int bq - 1) \<le> of_int q" "of_int q < pow2 (int bq)"
    using Q pow2_int_le [OF Q(1)] \<open>0 < bq\<close> pow2_int_less [OF Q(2)] by (simp_all add: of_nat_diff)
  define e where "e = int bp - int bq - 53"
  have lo: "pow2 (e + 52) \<le> x"
  proof -
    have "pow2 (e + 52) * of_int q \<le> pow2 (e + 52) * pow2 (int bq)"
      using Q'(2) by simp
    also have "\<dots> = pow2 (int bp - 1)" using pow2_add [of "e + 52" "int bq"] by (simp add: e_def)
    also have "\<dots> \<le> of_int p" by (rule P'(1))
    finally show ?thesis using q x by (simp add: pos_le_divide_eq)
  qed
  have hi: "x < pow2 (e + 54)"
  proof -
    have "of_int p < pow2 (int bp)" by (rule P'(2))
    also have "\<dots> = pow2 (e + 54) * pow2 (int bq - 1)"
      using pow2_add [of "e + 54" "int bq - 1"] by (simp add: e_def)
    also have "\<dots> \<le> pow2 (e + 54) * of_int q" using Q'(1) by simp
    finally show ?thesis using q x by (simp add: pos_divide_less_eq)
  qed
  have d: "dbl_exp x = (if 2 ^ 53 \<le> x / pow2 e then e + 1 else e)"
    by (simp add: dbl_exp_def pq bp_def bq_def e_def Let_def)
  have p1: "pow2 (e + 1) = 2 * pow2 e" "pow2 (e + 52) = 2 ^ 52 * pow2 e" "pow2 (e + 54) = 2 ^ 54 * pow2 e"
    using pow2_add [of e 1] pow2_add [of e 52] pow2_add [of e 54] by (simp_all add: pow2_numeral)
  show "2 ^ 52 \<le> x / pow2 (dbl_exp x)" "x / pow2 (dbl_exp x) < 2 ^ 53"
    using lo hi pow2_pos [of e] by (auto simp: d p1 pos_le_divide_eq pos_divide_less_eq not_le)
qed

section \<open>Rounding to a double\<close>

lemma fl_0 [simp]: "fl 0 = 0"
  by (simp add: fl_def)

lemma fl_minus: "fl (- x) = - fl x"
  by (simp add: fl_def)

lemma fl_pos_error:
  assumes "0 < x"
  shows "\<bar>fl_pos x - x\<bar> \<le> x / 2 ^ 53"
proof -
  define e where "e = dbl_exp x"
  define m where "m = x / pow2 e"
  have m: "2 ^ 52 \<le> m" using dbl_exp_range(1) [OF assms] by (simp add: e_def m_def)
  have "1/2 \<le> m / 2 ^ 53" using m by simp
  with rne_error [of m] have "\<bar>of_int (rne m) - m\<bar> \<le> m / 2 ^ 53" by linarith
  then have "\<bar>of_int (rne m) - m\<bar> * pow2 e \<le> m / 2 ^ 53 * pow2 e"
    by (rule mult_right_mono) (simp add: less_imp_le)
  moreover have "m * pow2 e = x" by (simp add: m_def)
  moreover have "\<bar>of_int (rne m) - m\<bar> * pow2 e = \<bar>of_int (rne m) * pow2 e - m * pow2 e\<bar>"
    by (simp add: abs_mult less_imp_le flip: left_diff_distrib)
  ultimately show ?thesis by (simp add: fl_pos_def Let_def e_def m_def)
qed

text \<open>The relative error of one rounding is at most $2^{-53}$.\<close>

lemma fl_error: "\<bar>fl x - x\<bar> \<le> \<bar>x\<bar> / 2 ^ 53"
  using fl_pos_error [of x] fl_pos_error [of "- x"] by (auto simp: fl_def abs_if split: if_splits)

lemma fl_nonneg: "0 \<le> x \<Longrightarrow> 0 \<le> fl x"
proof -
  assume x: "0 \<le> x"
  have "\<bar>x\<bar> / 2 ^ 53 \<le> x" using x by simp
  with fl_error [of x] x show ?thesis by linarith
qed

lemma fl_pos_exact:
  assumes "0 < x" and "x / pow2 (dbl_exp x) = of_int k"
  shows "fl x = x"
proof -
  have "of_int k * pow2 (dbl_exp x) = x" using assms(2) [symmetric] by simp
  then show ?thesis using assms by (simp add: fl_def fl_pos_def Let_def)
qed

text \<open>Integers up to $2^{53}$ are doubles.\<close>

lemma fl_of_nat_exact:
  assumes n: "n < 2 ^ 53"
  shows "fl (of_nat n) = of_nat n"
proof (cases "n = 0")
  case False
  let ?x = "of_nat n :: rat"
  have x: "0 < ?x" using False by simp
  have "dbl_exp ?x \<le> 0"
  proof (rule ccontr)
    assume "\<not> dbl_exp ?x \<le> 0"
    then have "pow2 (dbl_exp ?x) = 2 ^ nat (dbl_exp ?x)" "1 \<le> nat (dbl_exp ?x)"
      by (simp_all add: pow2_def)
    then have "2 \<le> pow2 (dbl_exp ?x)"
      using power_increasing [of 1 "nat (dbl_exp ?x)" "2::rat"] by simp
    then have "2 ^ 52 * 2 \<le> 2 ^ 52 * pow2 (dbl_exp ?x)" by simp
    also have "\<dots> \<le> ?x" using dbl_exp_range(1) [OF x] by (simp add: pos_le_divide_eq)
    finally have "(of_nat (2 ^ 53) :: rat) \<le> of_nat n" by simp
    then have "2 ^ 53 \<le> n" by (simp only: of_nat_le_iff)
    with n show False by simp
  qed
  then have "?x / pow2 (dbl_exp ?x) = of_int (int n * 2 ^ nat (- dbl_exp ?x))"
    by (simp add: pow2_def)
  with x show ?thesis by (rule fl_pos_exact)
qed simp

lemma fl_of_int_exact: "\<bar>k\<bar> < 2 ^ 53 \<Longrightarrow> fl (of_int k) = of_int k"
proof (cases "0 \<le> k")
  case True
  moreover assume "\<bar>k\<bar> < 2 ^ 53"
  ultimately show ?thesis using fl_of_nat_exact [of "nat k"] by (simp add: nat_less_iff)
next
  case False
  moreover assume "\<bar>k\<bar> < 2 ^ 53"
  ultimately show ?thesis
    using fl_of_nat_exact [of "nat (- k)"] fl_minus [of "of_int (- k)"] by (simp add: nat_less_iff)
qed

text \<open>Rounding is monotone, so it never crosses an integer below $2^{53}$.\<close>

lemma fl_pos_mono:
  assumes "0 < x" and "x \<le> y"
  shows "fl_pos x \<le> fl_pos y"
proof -
  define a b where "a = dbl_exp x" and "b = dbl_exp y"
  have y: "0 < y" using assms by linarith
  have X: "2 ^ 52 * pow2 a \<le> x" "x < 2 ^ 53 * pow2 a"
    using dbl_exp_range [OF assms(1)] by (simp_all add: a_def pos_le_divide_eq pos_divide_less_eq)
  have Y: "2 ^ 52 * pow2 b \<le> y" "y < 2 ^ 53 * pow2 b"
    using dbl_exp_range [OF y] by (simp_all add: b_def pos_le_divide_eq pos_divide_less_eq)
  consider "a = b" | "a < b" | "b < a" by linarith
  then show ?thesis
  proof cases
    case 1
    have "rne (x / pow2 a) \<le> rne (y / pow2 a)"
      using assms(2) by (intro rne_mono divide_right_mono) (simp_all add: less_imp_le)
    then show ?thesis using 1 by (simp add: fl_pos_def Let_def flip: a_def b_def)
  next
    case 2
    have "rne (x / pow2 a) \<le> 2 ^ 53"
      using rne_mono [of "x / pow2 a" "of_int (2 ^ 53)"] X(2) by (simp add: pos_divide_le_eq)
    then have "of_int (rne (x / pow2 a)) \<le> (of_int (2 ^ 53) :: rat)" by (simp only: of_int_le_iff)
    then have "fl_pos x \<le> 2 ^ 53 * pow2 a"
      by (simp add: fl_pos_def Let_def less_imp_le flip: a_def)
    also have "\<dots> \<le> 2 ^ 52 * pow2 b" using pow2_Suc_le [OF 2] by simp
    also have "\<dots> \<le> fl_pos y"
    proof -
      have "2 ^ 52 \<le> rne (y / pow2 b)"
        using rne_mono [of "of_int (2 ^ 52)" "y / pow2 b"] Y(1) by (simp add: pos_le_divide_eq)
      then have "(of_int (2 ^ 52) :: rat) \<le> of_int (rne (y / pow2 b))" by (simp only: of_int_le_iff)
      then show ?thesis by (simp add: fl_pos_def Let_def less_imp_le flip: b_def)
    qed
    finally show ?thesis .
  next
    case 3
    have "y < 2 ^ 52 * pow2 a" using Y(2) pow2_Suc_le [OF 3] by simp
    with X(1) assms(2) show ?thesis by linarith
  qed
qed

lemma fl_mono:
  assumes "0 \<le> x" and "x \<le> y"
  shows "fl x \<le> fl y"
proof (cases "x = 0")
  case True
  then show ?thesis using fl_nonneg [of y] assms by simp
next
  case False
  with assms fl_pos_mono [of x y] show ?thesis by (simp add: fl_def)
qed

lemma fl_ge_int: "of_int k \<le> x \<Longrightarrow> 0 \<le> k \<Longrightarrow> k < 2 ^ 53 \<Longrightarrow> of_int k \<le> fl x"
  using fl_mono [of "of_int k" x] by (simp add: fl_of_int_exact)

lemma fl_le_int: "x \<le> of_int k \<Longrightarrow> 0 \<le> x \<Longrightarrow> k < 2 ^ 53 \<Longrightarrow> fl x \<le> of_int k"
proof -
  assume x: "x \<le> of_int k" "0 \<le> x" and k: "k < 2 ^ 53"
  have "(0 :: rat) \<le> of_int k" using x by linarith
  then have "\<bar>k\<bar> < 2 ^ 53" using k by simp
  then show ?thesis using fl_mono [OF x(2,1)] by (simp add: fl_of_int_exact)
qed

section \<open>Evaluating a rounding\<close>

lemma rne_eqI: "\<bar>x - of_int k\<bar> < 1 / 2 \<Longrightarrow> rne x = k"
proof -
  assume a: "\<bar>x - of_int k\<bar> < 1 / 2"
  then have "k \<le> rne x" by (intro rne_ge_int) linarith
  moreover have "(of_int (rne x) :: rat) < of_int (k + 1)"
  proof -
    have "of_int (rne x) \<le> x + 1 / 2" "x < of_int k + 1 / 2"
      using a rne_error [of x] by linarith+
    then show ?thesis by simp
  qed
  then have "rne x < k + 1" by (simp only: of_int_less_iff)
  ultimately show ?thesis by linarith
qed

lemma dbl_exp_eqI:
  assumes "0 < x" and "2 ^ 52 \<le> x / pow2 e" and "x / pow2 e < 2 ^ 53"
  shows "dbl_exp x = e"
proof -
  have close: False if "a < b" "2 ^ 52 \<le> x / pow2 b" "x / pow2 a < 2 ^ 53" for a b
  proof -
    have "2 ^ 52 * pow2 b \<le> x" using that(2) by (simp add: pos_le_divide_eq)
    moreover have "x < 2 ^ 53 * pow2 a" using that(3) by (simp add: pos_divide_less_eq)
    moreover have "2 ^ 53 * pow2 a \<le> 2 ^ 52 * pow2 b" using pow2_Suc_le [OF that(1)] by simp
    ultimately show False by linarith
  qed
  show ?thesis
    using close [of e "dbl_exp x"] close [of "dbl_exp x" e] dbl_exp_range [OF assms(1)] assms(2,3)
    by (meson linorder_neqE)
qed

lemma fl_evalI:
  assumes "0 < x" and "2 ^ 52 \<le> x / pow2 e" and "x / pow2 e < 2 ^ 53"
    and "\<bar>x / pow2 e - of_int k\<bar> < 1 / 2"
  shows "fl x = of_int k * pow2 e"
  using assms by (simp add: fl_def fl_pos_def dbl_exp_eqI rne_eqI)

end
