(* ===== verification/Capacity.thy ===== *)
theory Capacity
  imports Domain Floats
begin

text \<open>
  Daily capacity, slot rounding, estimates and deadlines (\<open>availability/capacity.py\<close>,
  \<open>normalization/estimates.py\<close>, \<open>normalization/dates.py\<close>). Factors are the doubles the source
  writes, and every product and quotient is rounded as IEEE arithmetic rounds it. The
  results: with its noise guard, \<open>floor_to_slot\<close> is the exact integer floor; \<open>ceil_to_slot\<close>,
  which has no such guard, is exact up to one rounding error, and that error shows.
\<close>

section \<open>Capacity\<close>

definition CAPACITY_FACTORS :: "(string \<times> rat) list" where
  "CAPACITY_FACTORS = [(''normal'', fl (80/100)), (''low'', fl (65/100)), (''crunch'', fl (85/100))]"

definition floor_to_slot :: "rat \<Rightarrow> int \<Rightarrow> int" where
  "floor_to_slot minutes slot = \<lfloor>fround (fdiv minutes (of_int slot)) 6\<rfloor> * slot"

definition local_day :: "tzdb \<Rightarrow> instant \<Rightarrow> string \<Rightarrow> date" where
  "local_day tz t name = local_date (tz_zone tz name) t"

definition day_bounds :: "tzdb \<Rightarrow> date \<Rightarrow> string \<Rightarrow> instant \<times> instant" where
  "day_bounds tz day name =
     (zone_midnight (tz_zone tz name) day, zone_midnight (tz_zone tz name) (day + 1))"

section \<open>Estimates\<close>

definition UNCERTAINTY_MULTIPLIER :: "(string \<times> rat) list" where
  "UNCERTAINTY_MULTIPLIER = [(''low'', fl (115/100)), (''medium'', fl (135/100)), (''high'', fl (160/100))]"

definition FACTOR_FLOOR :: rat where "FACTOR_FLOOR = fl (75/100)"
definition FACTOR_CEILING :: rat where "FACTOR_CEILING = fl (250/100)"

definition SAMPLE_STRENGTH :: "(int \<times> rat) list" where
  "SAMPLE_STRENGTH = [(3, fl (30/100)), (6, fl (60/100)), (20, fl (80/100))]"

record estimate =
  est_base :: int
  est_safety :: int

definition ceil_to_slot :: "rat \<Rightarrow> int \<Rightarrow> int" where
  "ceil_to_slot minutes slot = \<lceil>fdiv minutes (of_int slot)\<rceil> * slot"

definition blended_factor :: "rat \<Rightarrow> int \<Rightarrow> rat" where
  "blended_factor observed n =
     (if n < fst (hd SAMPLE_STRENGTH) then 1
      else (let strength = (case filter (\<lambda>(threshold, share). threshold \<le> n) (rev SAMPLE_STRENGTH) of
              [] \<Rightarrow> 0 | p # _ \<Rightarrow> snd p)
        in fadd 1 (fmul (fsub observed 1) strength)))"

definition derive_estimate :: "int \<Rightarrow> rat \<Rightarrow> string \<Rightarrow> int \<Rightarrow> estimate res" where
  "derive_estimate raw factor uncertainty slot =
     (let clamped = min FACTOR_CEILING (max FACTOR_FLOOR factor);
          adjusted = ceil_to_slot (fmul (fl (of_int raw)) clamped) slot
      in case map_of UNCERTAINTY_MULTIPLIER uncertainty of
           None \<Rightarrow> Inl KeyError
         | Some multiplier \<Rightarrow>
             (let safety = ceil_to_slot (fmul (fl (of_int adjusted)) multiplier) slot
              in Inr \<lparr>est_base = adjusted, est_safety = max adjusted safety\<rparr>))"

section \<open>Effective deadlines\<close>

record effective_deadline_result =
  ed_instant :: "instant option"
  ed_assumption :: string

definition effective_deadline :: "tzdb \<Rightarrow> milestone \<Rightarrow> string \<Rightarrow> effective_deadline_result" where
  "effective_deadline tz m name =
     (if mi_deadline_time_known m \<and> mi_deadline_at m \<noteq> None
      then \<lparr>ed_instant = mi_deadline_at m, ed_assumption = ''VERIFIED_INSTANT''\<rparr>
      else case mi_deadline_date m of
        Some d \<Rightarrow> if mi_deadline_date_known m
          then \<lparr>ed_instant = Some (zone_midnight (tz_zone tz name) d),
                ed_assumption = ''DATE_ONLY_START_OF_DAY''\<rparr>
          else \<lparr>ed_instant = None, ed_assumption = ''NO_DEADLINE''\<rparr>
      | None \<Rightarrow> \<lparr>ed_instant = None, ed_assumption = ''NO_DEADLINE''\<rparr>)"

section \<open>The noise guard makes the floor exact\<close>

lemma abs_tri3: "\<bar>a - b\<bar> \<le> x \<Longrightarrow> \<bar>b - c\<bar> \<le> y \<Longrightarrow> \<bar>a - c\<bar> \<le> x + y" for a :: rat
  by linarith

text \<open>Two roundings of a quotient of moderate size: the result is within \<open>1/10^8\<close>.\<close>

lemma scaled_quotient_error:
  assumes n: "n \<le> 20" and raw: "0 \<le> raw" "raw \<le> 1000000" and slot: "0 < slot" "slot \<le> 1440"
  shows "\<bar>fdiv (fmul (fl (of_int raw)) (fl (of_nat n / 20))) (of_int slot)
     - of_int (int n * raw) / of_int (20 * slot)\<bar> \<le> 1 / 10 ^ 8"
proof -
  define f where "f = fl (of_nat n / 20)"
  define r where "r = (of_int raw :: rat)"
  define s where "s = (of_int slot :: rat)"
  have r: "0 \<le> r" "r \<le> 1000000" using raw by (simp_all add: r_def)
  have s: "1 \<le> s" using slot by (simp add: s_def)
  have flr: "fl r = r" unfolding r_def by (rule fl_of_int_exact) (use raw in simp)
  have g: "0 \<le> (of_nat n / 20 :: rat)" "(of_nat n / 20 :: rat) \<le> 1" using n by simp_all
  have ferr: "\<bar>f - of_nat n / 20\<bar> \<le> 1 / 2 ^ 53"
    using fl_error [of "of_nat n / 20"] g by (simp add: f_def divide_right_mono)
  moreover have "(1 / 2 ^ 53 :: rat) \<le> 1" by simp
  ultimately have "\<bar>f - of_nat n / 20\<bar> \<le> 1" by (rule order_trans)
  then have fb: "\<bar>f\<bar> \<le> 2" using g by linarith
  define p where "p = fl (r * f)"
  have rf: "\<bar>r * f\<bar> \<le> 2000000"
  proof -
    have "\<bar>r * f\<bar> = r * \<bar>f\<bar>" using r by (simp add: abs_mult)
    also have "\<dots> \<le> 1000000 * 2" using r fb by (intro mult_mono) auto
    finally show ?thesis by simp
  qed
  have "\<bar>p - r * f\<bar> \<le> 2000000 / 2 ^ 53"
    using fl_error [of "r * f"] rf unfolding p_def by (simp add: order_trans divide_right_mono)
  moreover have "\<bar>r * f - r * (of_nat n / 20)\<bar> \<le> 1000000 / 2 ^ 53"
  proof -
    have "\<bar>r * f - r * (of_nat n / 20)\<bar> = r * \<bar>f - of_nat n / 20\<bar>"
      unfolding right_diff_distrib [symmetric] using r by (simp add: abs_mult)
    also have "\<dots> \<le> 1000000 * (1 / 2 ^ 53)" using r ferr by (intro mult_mono) auto
    finally show ?thesis by simp
  qed
  ultimately have perr: "\<bar>p - r * (of_nat n / 20)\<bar> \<le> 3000000 / 2 ^ 53"
    using abs_tri3 by fastforce
  have rg: "0 \<le> r * (of_nat n / 20)" "r * (of_nat n / 20) \<le> 1000000"
    using r g mult_mono [of r 1000000 "of_nat n / 20" 1] by (simp_all del: times_divide_eq_right)
  have div_le: "\<bar>x / s\<bar> \<le> \<bar>x\<bar>" for x
    using s by (simp add: divide_le_eq mult_le_cancel_left1 abs_divide)
  have "\<bar>p / s - r * (of_nat n / 20) / s\<bar> \<le> 3000000 / 2 ^ 53"
    using perr div_le [of "p - r * (of_nat n / 20)"] by (simp add: diff_divide_distrib)
  moreover have "\<bar>fl (p / s) - p / s\<bar> \<le> 2000000 / 2 ^ 53"
  proof -
    define x where "x = r * (of_nat n / 20)"
    have "(3000000 / 2 ^ 53 :: rat) \<le> 1" by simp
    with perr have "\<bar>p - x\<bar> \<le> 1" unfolding x_def by (rule order_trans)
    with rg have "\<bar>p\<bar> \<le> 2000000" unfolding x_def [symmetric] by linarith
    then have "\<bar>p / s\<bar> \<le> 2000000" using div_le [of p] by linarith
    then show ?thesis using fl_error [of "p / s"] by (simp add: order_trans divide_right_mono)
  qed
  ultimately have "\<bar>fl (p / s) - r * (of_nat n / 20) / s\<bar> \<le> 2000000 / 2 ^ 53 + 3000000 / 2 ^ 53"
    using abs_tri3 by blast
  also have "\<dots> \<le> 1 / 10 ^ 8" by simp
  finally have "\<bar>fl (p / s) - r * (of_nat n / 20) / s\<bar> \<le> 1 / 10 ^ 8" .
  moreover have "r * (of_nat n / 20) / s = of_int (int n * raw) / of_int (20 * slot)"
    by (simp add: r_def s_def mult.commute)
  ultimately show ?thesis
    by (simp add: fdiv_def fmul_def flr [unfolded r_def] p_def f_def r_def s_def mult.commute [of "of_nat n"])
qed

text \<open>A value that close to a fraction with a small denominator has its guarded floor.\<close>

lemma fround_floor_guard:
  assumes y: "\<bar>y - of_int a / of_int d\<bar> \<le> 1 / 10 ^ 8" and a: "0 \<le> a" "a \<le> 10 ^ 8"
    and d: "0 < d" "d \<le> 30000"
  shows "\<lfloor>fround y 6\<rfloor> = a div d"
proof -
  define k where "k = a div d"
  have k0: "0 \<le> k" using a d by (simp add: k_def pos_imp_zdiv_nonneg_iff)
  have ka: "k \<le> a"
  proof -
    have "k * 1 \<le> k * d" using k0 d by (intro mult_left_mono) auto
    also have "\<dots> \<le> a" using minus_mod_eq_div_mult [of a d] pos_mod_sign [OF d(1), of a]
      unfolding k_def by linarith
    finally show ?thesis by simp
  qed
  have kd: "k * d \<le> a" "a + 1 \<le> (k + 1) * d"
    using div_mult_mod_eq [of a d] pos_mod_sign [OF d(1), of a] pos_mod_bound [OF d(1), of a]
    unfolding k_def distrib_right by linarith+
  have dq: "(0 :: rat) < of_int d" using d by simp
  have "of_int (k * d) \<le> (of_int a :: rat)" using kd(1) by (simp only: of_int_le_iff)
  then have lo: "of_int k \<le> (of_int a / of_int d :: rat)"
    using dq by (simp add: pos_le_divide_eq)
  have "of_int (a + 1) \<le> (of_int ((k + 1) * d) :: rat)" using kd(2) by (simp only: of_int_le_iff)
  then have "(of_int a + 1) / of_int d \<le> (of_int k + 1 :: rat)"
    using dq by (simp add: pos_divide_le_eq)
  then have hi: "of_int a / of_int d \<le> (of_int k + 1 - 1 / of_int d :: rat)"
    by (simp add: add_divide_distrib)
  have "(1 / 30000 :: rat) \<le> 1 / of_int d" using d by (intro divide_left_mono) auto
  with hi have hi': "of_int a / of_int d \<le> (of_int k + 1 - 1 / 30000 :: rat)" by linarith
  from y have yl: "of_int a / of_int d - 1 / 10 ^ 8 \<le> y" and yu: "y \<le> of_int a / of_int d + 1 / 10 ^ 8"
    by linarith+
  define m where "m = rne (y * 10 ^ 6)"
  have lo_m: "k * 10 ^ 6 \<le> m"
    unfolding m_def by (rule rne_ge_int) (use yl lo in simp)
  have "of_int m \<le> y * 10 ^ 6 + 1 / 2"
    using rne_error [of "y * 10 ^ 6"] unfolding m_def by linarith
  also have "\<dots> \<le> (of_int k + 1) * 10 ^ 6 - 10" using yu hi' by simp
  finally have "(of_int m :: rat) \<le> of_int ((k + 1) * 10 ^ 6 - 10)" by simp
  then have hi_m: "m \<le> (k + 1) * 10 ^ 6 - 10" by (simp only: of_int_le_iff)
  have k53: "k < 2 ^ 53" using ka a by simp
  have "of_int k \<le> fl (of_int m / 10 ^ 6)"
  proof (rule fl_ge_int)
    have "of_int (k * 10 ^ 6) \<le> (of_int m :: rat)" using lo_m by (simp only: of_int_le_iff)
    then show "of_int k \<le> (of_int m / 10 ^ 6 :: rat)" by simp
  qed (use k0 k53 in simp_all)
  moreover have "fl (of_int m / 10 ^ 6) < of_int k + 1"
  proof -
    have m0: "0 \<le> m" using lo_m k0 by simp
    have mk: "of_int m / 10 ^ 6 \<le> (of_int k + 1 - 1 / 100000 :: rat)"
    proof -
      have "(of_int m :: rat) \<le> of_int ((k + 1) * 10 ^ 6 - 10)" using hi_m by (simp only: of_int_le_iff)
      then show ?thesis by simp
    qed
    have "(of_int k :: rat) \<le> 100000000"
    proof -
      have "k \<le> 10 ^ 8" using ka a by simp
      then have "(of_int k :: rat) \<le> of_int (10 ^ 8)" by (simp only: of_int_le_iff)
      then show ?thesis by simp
    qed
    with mk have "of_int m / 10 ^ 6 \<le> (100000001 :: rat)" by linarith
    moreover have "\<bar>of_int m / 10 ^ 6 :: rat\<bar> = of_int m / 10 ^ 6" using m0 by simp
    ultimately have "\<bar>fl (of_int m / 10 ^ 6) - of_int m / 10 ^ 6\<bar> \<le> 100000001 / 2 ^ 53"
      using fl_error [of "of_int m / 10 ^ 6"] by (simp add: order_trans divide_right_mono)
    then have "fl (of_int m / 10 ^ 6) \<le> of_int m / 10 ^ 6 + 100000001 / 2 ^ 53"
      by linarith
    with mk show ?thesis by simp
  qed
  ultimately have "\<lfloor>fl (of_int m / 10 ^ 6)\<rfloor> = k" by (simp add: floor_eq_iff)
  then show ?thesis by (simp add: fround_def m_def k_def)
qed

lemma floor_to_slot_floor:
  assumes "n \<le> 20" and "0 \<le> raw" and "raw \<le> 1000000" and "0 < slot" and "slot \<le> 1440"
  shows "floor_to_slot (fmul (fl (of_int raw)) (fl (of_nat n / 20))) slot
    = (int n * raw) div (20 * slot) * slot"
proof -
  have "int n * raw \<le> 20 * 1000000" using assms by (intro mult_mono) auto
  then have "\<lfloor>fround (fdiv (fmul (fl (of_int raw)) (fl (of_nat n / 20))) (of_int slot)) 6\<rfloor>
      = (int n * raw) div (20 * slot)"
    by (intro fround_floor_guard scaled_quotient_error) (use assms in simp_all)
  then show ?thesis by (simp add: floor_to_slot_def)
qed

text \<open>
  Rounding a day's minutes times a capacity factor (a multiple of 5 percent, as 0.65,
  0.80 and 0.85 are) down to slots in double arithmetic gives exactly the integer floor:
  the \<open>round(..., 6)\<close> guard absorbs all three rounding errors.
\<close>

theorem floor_to_slot_exact:
  assumes "n \<le> 20" and "0 \<le> raw" and "raw \<le> 1000000" and "0 < slot" and "slot \<le> 1440"
  shows "floor_to_slot (fmul (fl (of_int raw)) (fl (of_nat n / 20))) slot
    = (int n * raw) div (20 * slot) * slot"
  using assms by (rule floor_to_slot_floor)

lemma floor_to_slot_exact_witness:
  "floor_to_slot (fmul (fl (of_int 375)) (fl (of_nat 16 / 20))) 15 = (300 :: int)"
  using floor_to_slot_exact [of 16 375 15] by simp

section \<open>Ceilings without the guard\<close>

text \<open>
  An estimate is a whole number of slots, its safety part is never below its base
  part, and the base part covers the adjusted minutes up to one part in \<open>2 ^ 53\<close> and
  exceeds them by less than a slot and that rounding.
\<close>

theorem derive_estimate_bounds:
  assumes "0 < slot" and "map_of UNCERTAINTY_MULTIPLIER u \<noteq> None"
  shows "\<exists>e. derive_estimate raw factor u slot = Inr e \<and> slot dvd est_base e \<and> slot dvd est_safety e
    \<and> est_base e \<le> est_safety e
    \<and> (let p = fmul (fl (of_int raw)) (min FACTOR_CEILING (max FACTOR_FLOOR factor))
       in p - \<bar>p\<bar> / 2 ^ 53 \<le> of_int (est_base e) \<and> of_int (est_base e) < p + of_int slot + \<bar>p\<bar> / 2 ^ 53)"
proof -
  from assms(2) obtain mu where mu: "map_of UNCERTAINTY_MULTIPLIER u = Some mu" by auto
  define p where "p = fmul (fl (of_int raw)) (min FACTOR_CEILING (max FACTOR_FLOOR factor))"
  define base where "base = ceil_to_slot p slot"
  define q where "q = p / of_int slot"
  have s: "(0 :: rat) < of_int slot" using assms(1) by simp
  have err: "\<bar>fl q - q\<bar> \<le> \<bar>q\<bar> / 2 ^ 53" by (rule fl_error)
  have qs: "q * of_int slot = p" "\<bar>q\<bar> * of_int slot = \<bar>p\<bar>"
    using s by (simp_all add: q_def abs_divide)
  from err have el: "q - \<bar>q\<bar> / 2 ^ 53 \<le> fl q" and eu: "fl q \<le> q + \<bar>q\<bar> / 2 ^ 53"
    by linarith+
  have "(q - \<bar>q\<bar> / 2 ^ 53) * of_int slot \<le> fl q * of_int slot"
    using el s by (intro mult_right_mono) auto
  then have lo: "p - \<bar>p\<bar> / 2 ^ 53 \<le> fl q * of_int slot" by (simp add: left_diff_distrib qs)
  have "fl q * of_int slot \<le> (q + \<bar>q\<bar> / 2 ^ 53) * of_int slot"
    using eu s by (intro mult_right_mono) auto
  then have hi: "fl q * of_int slot \<le> p + \<bar>p\<bar> / 2 ^ 53" by (simp add: distrib_right qs)
  have base: "of_int base = of_int \<lceil>fl q\<rceil> * (of_int slot :: rat)"
    by (simp add: base_def ceil_to_slot_def fdiv_def q_def)
  have "fl q * of_int slot \<le> of_int base"
    unfolding base using s by (intro mult_right_mono le_of_int_ceiling) simp
  moreover have "of_int base < (fl q + 1) * of_int slot"
    unfolding base using s by (intro mult_strict_right_mono) linarith+
  ultimately have "p - \<bar>p\<bar> / 2 ^ 53 \<le> of_int base" "of_int base < p + of_int slot + \<bar>p\<bar> / 2 ^ 53"
    using lo hi by (simp_all add: distrib_right)
  moreover have "derive_estimate raw factor u slot
      = Inr \<lparr>est_base = base, est_safety = max base (ceil_to_slot (fmul (fl (of_int base)) mu) slot)\<rparr>"
    by (simp add: derive_estimate_def Let_def mu base_def p_def)
  moreover have "slot dvd ceil_to_slot x slot" for x by (simp add: ceil_to_slot_def)
  ultimately show ?thesis unfolding p_def [symmetric] by (simp add: base_def max_def)
qed

lemma derive_estimate_bounds_witness:
  "\<exists>e. derive_estimate 60 1 ''low'' 15 = Inr e \<and> (15 :: int) dvd est_base e \<and> est_base e \<le> est_safety e"
  using derive_estimate_bounds [of 15 "''low''" 60 1] by (auto simp: UNCERTAINTY_MULTIPLIER_def)

lemma fl_factor_bounds [simp]: "fl (75/100) = 3 / 4" "fl (250/100) = 5 / 2"
  using fl_evalI [of "3 / 4" "- 53" 6755399441055744] fl_evalI [of "5 / 2" "- 51" 5629499534213120]
  by (simp_all add: pow2_def)

lemma fl_medium [simp]: "fl (135/100) = 6079859496950170 / 2 ^ 52"
  using fl_evalI [of "135 / 100" "- 52" 6079859496950170] by (simp add: pow2_def)

text \<open>
  Without the guard a whole number of slots can be rounded up by one more: 700 minutes
  at factor 1 and medium uncertainty are 945 minutes exactly, and 950 come out.
\<close>

theorem derive_estimate_noise:
  "derive_estimate 700 1 ''medium'' 5 = Inr \<lparr>est_base = 700, est_safety = 950\<rparr>
    \<and> (700 * 135 :: int) = 945 * 100 \<and> (945 :: int) mod 5 = 0"
proof -
  have exact: "fl 700 = 700" "fl 140 = 140"
    using fl_of_int_exact [of 700] fl_of_int_exact [of 140] by simp_all
  have m: "fl (700 * (6079859496950170 / 2 ^ 52)) = 8312307905986561 / 2 ^ 43"
    using fl_evalI [of "700 * (6079859496950170 / 2 ^ 52)" "- 43" 8312307905986561]
    by (simp add: pow2_def)
  have d: "fl (8312307905986561 / 2 ^ 43 / 5) = 6649846324789249 / 2 ^ 45"
    using fl_evalI [of "8312307905986561 / 2 ^ 43 / 5" "- 45" 6649846324789249]
    by (simp add: pow2_def)
  have "ceil_to_slot (fmul 700 1) 5 = 700"
    by (simp add: ceil_to_slot_def fmul_def fdiv_def exact)
  moreover have "ceil_to_slot (fmul 700 (fl (135/100))) 5 = 950"
    unfolding ceil_to_slot_def fmul_def fdiv_def fl_medium m of_int_numeral d
    by (simp add: ceiling_unique [of 190])
  moreover have "map_of UNCERTAINTY_MULTIPLIER ''medium'' = Some (fl (135/100))"
    by (simp add: UNCERTAINTY_MULTIPLIER_def del: fl_medium)
  moreover have "min FACTOR_CEILING (max FACTOR_FLOOR 1) = 1"
    unfolding FACTOR_CEILING_def FACTOR_FLOOR_def fl_factor_bounds by simp
  ultimately show ?thesis
    by (simp add: derive_estimate_def Let_def exact del: fl_medium)
qed

end
