(* ===== verification/Contracts.thy ===== *)
theory Contracts
  imports Domain Floats
begin

text \<open>
  The planner's input and output contracts (\<open>contracts/input.py\<close>, \<open>contracts/output.py\<close>):
  the canonical snapshot handed to \<open>plan\<close> with the checks of its constructor, and the
  allocations, passes, today plan and risks that come back.
\<close>

section \<open>Input\<close>

record prior_allocation =
  pa_task :: task_id
  pa_start :: instant
  pa_end :: instant

record prior_plan_snapshot =
  pp_id :: uuid
  pp_input_hash :: string
  pp_allocations :: "prior_allocation list"

record planner_input =
  in_planner_version :: string
  in_now :: instant
  in_timezone :: string
  in_horizon_end :: instant
  in_slot_minutes :: int
  in_windows :: "window list"
  in_events :: "calendar_event list"
  in_tasks :: "task list"
  in_milestones :: "milestone list"
  in_dependencies :: "task_dependency list"
  in_externals :: "external_dependency list"
  in_pinned :: "task_id list"
  in_excluded_dates :: "date list"
  in_prior :: "prior_plan_snapshot option"

definition input_workspaces :: "planner_input \<Rightarrow> workspace_id list" where
  "input_workspaces v = remdups (map ts_workspace (in_tasks v) @ map mi_workspace (in_milestones v)
     @ map ce_workspace (in_events v) @ map ex_workspace (in_externals v))"

definition known_task_ids :: "planner_input \<Rightarrow> task_id list" where
  "known_task_ids v = map ts_id (in_tasks v)"

definition mk_planner_input :: "tzdb \<Rightarrow> planner_input \<Rightarrow> planner_input res" where
  "mk_planner_input tz v =
     rbind (raise_if (blank (in_planner_version v))
       (ValueError ''planner_version must not be empty'')) (\<lambda>_.
     rbind (raise_if (in_horizon_end v \<le> in_now v)
       (ValueError ''horizon must end after now'')) (\<lambda>_.
     rbind (raise_if (in_slot_minutes v \<le> 0)
       (ValueError ''slot_minutes must be positive'')) (\<lambda>_.
     rbind (raise_if (blank (in_timezone v))
       (ValueError ''user_timezone must not be empty'')) (\<lambda>_.
     rbind (raise_if (\<not> tz_known tz (in_timezone v))
       (ValueError ''user_timezone must be a valid IANA name'')) (\<lambda>_.
     rbind (raise_if (1 < length (input_workspaces v))
       (ValueError ''all input entities must belong to one workspace'')) (\<lambda>_.
     rbind (raise_if (list_ex (\<lambda>d. dp_predecessor d \<notin> set (known_task_ids v)
           \<or> dp_successor d \<notin> set (known_task_ids v)) (in_dependencies v))
       (ValueError ''task dependencies reference unknown tasks'')) (\<lambda>_.
     rbind (raise_if (list_ex (\<lambda>x. list_ex (\<lambda>t. t \<notin> set (known_task_ids v)) (ex_affected_tasks x))
           (in_externals v))
       (ValueError ''external dependencies affect unknown tasks'')) (\<lambda>_.
     Inr v))))))))"

definition wf_input :: "tzdb \<Rightarrow> planner_input \<Rightarrow> bool" where
  "wf_input tz v \<longleftrightarrow> \<not> blank (in_planner_version v) \<and> in_now v < in_horizon_end v
     \<and> 0 < in_slot_minutes v \<and> \<not> blank (in_timezone v) \<and> tz_known tz (in_timezone v)
     \<and> length (input_workspaces v) \<le> 1
     \<and> (\<forall>d\<in>set (in_dependencies v). dp_predecessor d \<in> set (known_task_ids v)
          \<and> dp_successor d \<in> set (known_task_ids v))
     \<and> (\<forall>x\<in>set (in_externals v). set (ex_affected_tasks x) \<subseteq> set (known_task_ids v))"

lemma mk_planner_input_iff: "mk_planner_input tz v = Inr v' \<longleftrightarrow> wf_input tz v \<and> v' = v"
  by (auto simp: mk_planner_input_def wf_input_def res_simps list_ex_iff not_less not_le subset_iff)

section \<open>Output\<close>

datatype pass_type = BASE | SAFETY

fun pass_type_value :: "pass_type \<Rightarrow> string" where
  "pass_type_value BASE = ''base''"
| "pass_type_value SAFETY = ''safety''"

text \<open>\<open>PassType(s)\<close>\<close>

definition pass_type_of :: "string \<Rightarrow> pass_type res" where
  "pass_type_of s = (if s = ''base'' then Inr BASE else if s = ''safety'' then Inr SAFETY
     else Inl (ValueError ''not a valid PassType''))"

lemma pass_type_of_value [simp]: "pass_type_of (pass_type_value p) = Inr p"
  by (cases p) (simp_all add: pass_type_of_def)

record task_allocation =
  al_task :: task_id
  al_pass :: pass_type
  al_start :: instant
  al_end :: instant
  al_chunk :: int
  al_kind :: string
  al_slots :: "string list"

definition mk_allocation :: "task_allocation \<Rightarrow> task_allocation res" where
  "mk_allocation a =
     rbind (raise_if (al_end a \<le> al_start a)
       (ValueError ''allocation end must be after start'')) (\<lambda>_.
     rbind (raise_if (al_chunk a < 0) (ValueError ''chunk_index must not be negative'')) (\<lambda>_.
     Inr a))"

lemma mk_allocation_iff:
  "mk_allocation a = Inr a' \<longleftrightarrow> a' = a \<and> al_start a < al_end a \<and> 0 \<le> al_chunk a"
  by (auto simp: mk_allocation_def res_simps not_le not_less)

definition al_minutes :: "task_allocation \<Rightarrow> int" where
  "al_minutes a = minutes_between (al_start a) (al_end a)"

record plan_pass_result =
  pr_pass :: pass_type
  pr_allocations :: "task_allocation list"
  pr_unallocated_base :: int
  pr_unallocated_safety :: int

record today_plan =
  td_core :: "task_id option"
  td_must_do :: "task_id list"
  td_next_queue :: "task_id list"
  td_opportunistic :: "task_id list"
  td_excluded :: "task_id list"

record milestone_risk =
  mr_milestone :: milestone_id
  mr_level :: string
  mr_base_coverage :: rat
  mr_safety_coverage :: rat
  mr_slack :: "int option"
  mr_reasons :: "string list"

record planner_output =
  out_planner_version :: string
  out_input_hash :: string
  out_generated_at :: instant
  out_base_plan :: "plan_pass_result option"
  out_safety_plan :: "plan_pass_result option"
  out_today :: "today_plan option"
  out_risks :: "milestone_risk list"
  out_warnings :: "string list"
  out_status :: string
  out_external_warnings :: "string list"

definition mk_output :: "planner_output \<Rightarrow> planner_output res" where
  "mk_output r =
     rbind (raise_if (blank (out_planner_version r))
       (ValueError ''planner_version must not be empty'')) (\<lambda>_.
     rbind (raise_if (blank (out_input_hash r)) (ValueError ''input_hash must not be empty'')) (\<lambda>_.
     Inr r))"

definition invalid_output :: "string \<Rightarrow> instant \<Rightarrow> string list \<Rightarrow> string \<Rightarrow> planner_output res" where
  "invalid_output hash now warnings version =
     mk_output \<lparr>out_planner_version = version, out_input_hash = hash, out_generated_at = now,
       out_base_plan = None, out_safety_plan = None, out_today = None, out_risks = [],
       out_warnings = warnings, out_status = ''INVALID_INPUT'', out_external_warnings = []\<rparr>"

section \<open>A small input\<close>

text \<open>
  Two tasks of half an hour, the first of which blocks the second, a milestone with a
  verified deadline, one availability window of eight hours, and an external delivery the
  second task waits for.
\<close>

definition small_task :: "task_id \<Rightarrow> task" where
  "small_task t = \<lparr>ts_id = t, ts_workspace = WorkspaceId 1, ts_workstream = WorkstreamId 1,
     ts_milestone = Some (MilestoneId 1), ts_title = ''task'', ts_status = READY,
     ts_deadline_date = None, ts_deadline_at = None, ts_deadline_time_known = False,
     ts_start_after = None, ts_base_duration = 30, ts_safety_duration = 45, ts_remaining_base = 30,
     ts_remaining_safety = 45, ts_uncertainty = MEDIUM_U, ts_splittable = True, ts_min_chunk = 15,
     ts_pinned = False, ts_waiting_reason = None, ts_version = 1\<rparr>"

definition small_milestone :: milestone where
  "small_milestone = \<lparr>mi_id = MilestoneId 1, mi_workspace = WorkspaceId 1,
     mi_workstream = WorkstreamId 1, mi_title = ''release'', mi_deadline_date = None,
     mi_deadline_at = Some us_per_day, mi_deadline_date_known = False, mi_deadline_time_known = True,
     mi_deadline_type = HARD_DEADLINE, mi_required_buffer = 60, mi_version = 1\<rparr>"

definition small_external :: external_dependency where
  "small_external = \<lparr>ex_id = ExternalDependencyId 1, ex_workspace = WorkspaceId 1,
     ex_deliverable = ''figures'', ex_owner_label = None, ex_expected_delivery = Some us_per_hour,
     ex_uncertainty_buffer = 30, ex_fallback_available = False, ex_fallback_tasks = [],
     ex_affected_tasks = [TaskId 2], ex_version = 1\<rparr>"

definition small_input :: planner_input where
  "small_input = \<lparr>in_planner_version = ''1'', in_now = 0, in_timezone = ''UTC'',
     in_horizon_end = 7 * us_per_day, in_slot_minutes = 15,
     in_windows = [\<lparr>aw_start = 0, aw_end = 8 * us_per_hour, aw_tags = []\<rparr>], in_events = [],
     in_tasks = [small_task (TaskId 1), small_task (TaskId 2)], in_milestones = [small_milestone],
     in_dependencies = [\<lparr>dp_predecessor = TaskId 1, dp_successor = TaskId 2, dp_type = BLOCKS_START\<rparr>],
     in_externals = [small_external], in_pinned = [], in_excluded_dates = [], in_prior = None\<rparr>"

lemmas small_defs = small_input_def small_task_def small_milestone_def small_external_def

lemma small_input_wf: "wf_input utc_tzdb small_input"
  by (simp add: wf_input_def small_defs input_workspaces_def known_task_ids_def utc_tzdb_def
      blank_iff is_py_space_def)

lemma small_task_wf: "wf_task (small_task t)"
  by (simp add: wf_task_def small_task_def blank_iff is_py_space_def)

end
