(* ===== verification/Slots.thy ===== *)
theory Slots
  imports Capacity Contracts
begin

text \<open>
  Availability slots (\<open>availability/slots.py\<close>): windows are split into slots, fixed events
  and protected focus blocks reserve theirs, and the daily capacity factor turns the tail of
  every local day into buffer. The counter list the source passes around is threaded
  through. The results: the slots tile the windows, their ids are distinct, every slot has
  exactly the state its reservations give it, and no more than the capacity of a day is free.
\<close>

datatype slot_state = FREE | FIXED_EVENT | PROTECTED_FOCUS_BLOCK | BUFFER

record interval =
  iv_start :: instant
  iv_end :: instant

record slot =
  sl_id :: string
  sl_start :: instant
  sl_end :: instant
  sl_state :: slot_state

definition sl_minutes :: "slot \<Rightarrow> int" where
  "sl_minutes s = minutes_between (sl_start s) (sl_end s)"

definition sl_is_free :: "slot \<Rightarrow> bool" where
  "sl_is_free s \<longleftrightarrow> sl_state s = FREE"

definition overlaps_interval :: "slot \<Rightarrow> interval \<Rightarrow> bool" where
  "overlaps_interval s i \<longleftrightarrow> sl_start s < iv_end i \<and> iv_start i < sl_end s"

record availability_context =
  ac_windows :: "window list"
  ac_events :: "calendar_event list"
  ac_focus_blocks :: "interval list"
  ac_slot_minutes :: int
  ac_capacity_factor :: rat
  ac_timezone :: string

definition fixed_event_intervals :: "availability_context \<Rightarrow> interval list" where
  "fixed_event_intervals c =
     map (\<lambda>e. \<lparr>iv_start = ce_start e, iv_end = ce_end e\<rparr>)
       (filter (\<lambda>e. calendar_event_kind_value (ce_kind e) = ''fixed_busy'') (ac_events c))"

definition slot_id :: "instant \<Rightarrow> nat \<Rightarrow> string" where
  "slot_id cursor n = ''slot-'' @ stamp cursor @ ''-'' @ pad 4 n"

text \<open>
  One window. With a step that is not positive the source's loop never passes the end (a
  zero step repeats the cursor, a negative one runs to the start of the calendar).
\<close>

function split_window :: "int \<Rightarrow> instant \<Rightarrow> instant \<Rightarrow> nat \<Rightarrow> (slot list \<times> nat) res" where
  "split_window slot cursor e n =
     (if cursor < e then
        if minutes_delta slot \<le> 0 then Inl Diverges
        else (let step_end = min (cursor + minutes_delta slot) e; n' = n + 1
          in rbind (split_window slot step_end e n') (\<lambda>(rest, n''). Inr
            (\<lparr>sl_id = slot_id cursor n', sl_start = cursor, sl_end = step_end, sl_state = FREE\<rparr> # rest, n'')))
      else Inr ([], n))"
  by pat_completeness auto
termination
  by (relation "measure (\<lambda>(slot, cursor, e, n). nat (e - cursor))") auto

declare split_window.simps [simp del]

fun split_windows :: "int \<Rightarrow> window list \<Rightarrow> nat \<Rightarrow> slot list res" where
  "split_windows slot [] n = Inr []"
| "split_windows slot (w # ws) n =
     rbind (split_window slot (aw_start w) (aw_end w) n) (\<lambda>(xs, n').
     rbind (split_windows slot ws n') (\<lambda>ys. Inr (xs @ ys)))"

definition reserve_intervals :: "slot list \<Rightarrow> interval list \<Rightarrow> slot_state \<Rightarrow> slot list" where
  "reserve_intervals slots intervals state =
     (if intervals = [] then slots
      else map (\<lambda>s. if list_ex (overlaps_interval s) intervals \<and> sl_state s = FREE
        then s\<lparr>sl_state := state\<rparr> else s) slots)"

definition slots_by_day :: "(instant \<Rightarrow> date) \<Rightarrow> slot list \<Rightarrow> (date, nat list) dict" where
  "slots_by_day day slots =
     fold (\<lambda>(i, s). dappend (day (sl_start s)) i) (enumerate 0 slots) []"

fun cut_tail :: "nat list \<Rightarrow> int \<Rightarrow> slot list \<Rightarrow> slot list" where
  "cut_tail [] allowed result = result"
| "cut_tail (i # is) allowed result =
     (if sl_minutes (result ! i) \<le> allowed then cut_tail is (allowed - sl_minutes (result ! i)) result
      else cut_tail is allowed (result[i := (result ! i)\<lparr>sl_state := BUFFER\<rparr>]))"

definition cut_day :: "rat \<Rightarrow> int \<Rightarrow> nat list \<Rightarrow> slot list \<Rightarrow> slot list" where
  "cut_day factor slot idx result =
     (let free = filter (\<lambda>i. sl_state (result ! i) = FREE) idx;
          raw = sum_list (map (\<lambda>i. sl_minutes (result ! i)) free)
      in cut_tail free (floor_to_slot (fmul (fl (of_int raw)) factor) slot) result)"

definition apply_daily_capacity :: "tzdb \<Rightarrow> slot list \<Rightarrow> rat \<Rightarrow> int \<Rightarrow> string \<Rightarrow> slot list" where
  "apply_daily_capacity tz slots factor slot name =
     (let by_day = slots_by_day (\<lambda>t. local_day tz t name) slots
      in fold (\<lambda>d. cut_day factor slot (dget by_day d [])) (sort (map fst by_day)) slots)"

definition build_unique_slots :: "tzdb \<Rightarrow> availability_context \<Rightarrow> slot list res" where
  "build_unique_slots tz c =
     rbind (split_windows (ac_slot_minutes c) (ac_windows c) 0) (\<lambda>slots.
     let r1 = reserve_intervals slots (fixed_event_intervals c) FIXED_EVENT;
         r2 = reserve_intervals r1 (ac_focus_blocks c) PROTECTED_FOCUS_BLOCK
     in Inr (apply_daily_capacity tz r2 (ac_capacity_factor c) (ac_slot_minutes c) (ac_timezone c)))"

section \<open>Splitting: tiling and distinct ids\<close>

fun tiles :: "instant \<Rightarrow> slot list \<Rightarrow> instant \<Rightarrow> bool" where
  "tiles a [] b = (a = b)"
| "tiles a (s # ss) b = (sl_start s = a \<and> a < sl_end s \<and> tiles (sl_end s) ss b)"

lemma slot_id_inject: "slot_id c n = slot_id c' m \<Longrightarrow> n = m"
proof -
  have last: "takeWhile (\<lambda>x. x \<noteq> CHR ''-'') (rev (slot_id c n)) = rev (pad 4 n)" for c n
  proof -
    have "\<forall>x\<in>set (rev (pad 4 n)). x \<noteq> CHR ''-''" using pad_no_dash [of 4 n] by auto
    then have "takeWhile (\<lambda>x. x \<noteq> CHR ''-'') (rev (pad 4 n) @ ys)
        = rev (pad 4 n) @ takeWhile (\<lambda>x. x \<noteq> CHR ''-'') ys" for ys
      by (intro takeWhile_append2) blast
    then show ?thesis by (simp add: slot_id_def)
  qed
  assume "slot_id c n = slot_id c' m"
  then have "rev (pad 4 n) = rev (pad 4 m)" using last by metis
  then show ?thesis by (simp add: pad_inject)
qed

lemma split_window_result:
  "0 < slot \<Longrightarrow> cursor \<le> e \<Longrightarrow> \<exists>ss. split_window slot cursor e n = Inr (ss, n + length ss)
     \<and> tiles cursor ss e \<and> (\<forall>s\<in>set ss. sl_state s = FREE \<and> sl_end s - sl_start s \<le> minutes_delta slot)
     \<and> (\<forall>i<length ss. \<exists>c. sl_id (ss ! i) = slot_id c (Suc (n + i)))"
proof (induction slot cursor e n rule: split_window.induct)
  case (1 slot cursor e n)
  show ?case
  proof (cases "cursor < e")
    case False
    then have "split_window slot cursor e n = Inr ([], n)" "cursor = e"
      using 1(3) by (subst split_window.simps, simp) (use False 1(3) in simp)
    then show ?thesis by (intro exI [of _ "[]"]) simp
  next
    case True
    define step_end where "step_end = min (cursor + minutes_delta slot) e"
    have pos: "0 < minutes_delta slot" using 1 by (simp add: minutes_delta_def)
    then have se: "cursor < step_end" "step_end \<le> e" using True by (auto simp: step_end_def)
    from 1(1) [OF True _ step_end_def refl] pos 1(2) se obtain ss where
      ss: "split_window slot step_end e (n + 1) = Inr (ss, n + 1 + length ss)" "tiles step_end ss e"
        "\<forall>s\<in>set ss. sl_state s = FREE \<and> sl_end s - sl_start s \<le> minutes_delta slot"
        "\<forall>i<length ss. \<exists>c. sl_id (ss ! i) = slot_id c (Suc (n + 1 + i))" by auto
    let ?s = "\<lparr>sl_id = slot_id cursor (n + 1), sl_start = cursor, sl_end = step_end, sl_state = FREE\<rparr>"
    have "split_window slot cursor e n = Inr (?s # ss, n + length (?s # ss))"
      using True pos ss(1) by (simp add: split_window.simps [of slot cursor] Let_def step_end_def)
    moreover have "\<exists>c. sl_id ((?s # ss) ! i) = slot_id c (Suc (n + i))" if "i < length (?s # ss)" for i
      using that ss(4) by (cases i) auto
    ultimately show ?thesis using ss se
      by (intro exI [of _ "?s # ss"]) (auto simp: step_end_def)
  qed
qed

definition tile_parts :: "window list \<Rightarrow> slot list \<Rightarrow> bool" where
  "tile_parts ws slots \<longleftrightarrow> (\<exists>parts. slots = concat parts
     \<and> list_all2 (\<lambda>w p. tiles (aw_start w) p (aw_end w)) ws parts)"

lemma split_windows_result:
  "0 < slot \<Longrightarrow> \<forall>w\<in>set ws. aw_start w \<le> aw_end w \<Longrightarrow> \<exists>ss. split_windows slot ws n = Inr ss
     \<and> tile_parts ws ss \<and> (\<forall>s\<in>set ss. sl_state s = FREE \<and> sl_end s - sl_start s \<le> minutes_delta slot)
     \<and> (\<forall>i<length ss. \<exists>c. sl_id (ss ! i) = slot_id c (Suc (n + i)))"
proof (induction ws arbitrary: n)
  case Nil
  show ?case by (auto simp: tile_parts_def)
next
  case (Cons w ws)
  from split_window_result [of slot "aw_start w" "aw_end w" n] Cons.prems obtain xs where
    xs: "split_window slot (aw_start w) (aw_end w) n = Inr (xs, n + length xs)"
      "tiles (aw_start w) xs (aw_end w)"
      "\<forall>s\<in>set xs. sl_state s = FREE \<and> sl_end s - sl_start s \<le> minutes_delta slot"
      "\<forall>i<length xs. \<exists>c. sl_id (xs ! i) = slot_id c (Suc (n + i))" by auto
  from Cons.IH [of "n + length xs"] Cons.prems obtain ys where
    ys: "split_windows slot ws (n + length xs) = Inr ys" "tile_parts ws ys"
      "\<forall>s\<in>set ys. sl_state s = FREE \<and> sl_end s - sl_start s \<le> minutes_delta slot"
      "\<forall>i<length ys. \<exists>c. sl_id (ys ! i) = slot_id c (Suc (n + length xs + i))" by auto
  from ys(2) obtain parts where parts: "ys = concat parts"
      "list_all2 (\<lambda>w p. tiles (aw_start w) p (aw_end w)) ws parts" by (auto simp: tile_parts_def)
  have "tile_parts (w # ws) (xs @ ys)"
    unfolding tile_parts_def using parts xs(2) by (intro exI [of _ "xs # parts"]) simp
  moreover have "\<exists>c. sl_id ((xs @ ys) ! i) = slot_id c (Suc (n + i))" if "i < length (xs @ ys)" for i
  proof (cases "i < length xs")
    case True
    with xs(4) show ?thesis by (auto simp: nth_append)
  next
    case False
    with that ys(4) [rule_format, of "i - length xs"] show ?thesis by (simp add: nth_append)
  qed
  ultimately show ?case using xs ys by (auto simp del: length_append)
qed

lemma distinct_slot_ids:
  assumes "\<forall>i<length ss. \<exists>c. sl_id (ss ! i) = slot_id c (Suc (n + i))"
  shows "distinct (map sl_id ss)"
  unfolding distinct_conv_nth
proof (intro allI impI)
  fix i j assume ij: "i < length (map sl_id ss)" "j < length (map sl_id ss)" "i \<noteq> j"
  with assms obtain c d where "sl_id (ss ! i) = slot_id c (Suc (n + i))"
    "sl_id (ss ! j) = slot_id d (Suc (n + j))" by (metis length_map)
  with ij slot_id_inject [of c "Suc (n + i)" d "Suc (n + j)"]
  show "map sl_id ss ! i \<noteq> map sl_id ss ! j" by auto
qed

section \<open>Only the states change afterwards\<close>

text \<open>Two slot lists that differ at most in their states.\<close>

definition slot_shape :: "slot \<Rightarrow> string \<times> instant \<times> instant" where
  "slot_shape s = (sl_id s, sl_start s, sl_end s)"

definition same_shape :: "slot list \<Rightarrow> slot list \<Rightarrow> bool" where
  "same_shape xs ys \<longleftrightarrow> map slot_shape xs = map slot_shape ys"

lemma slot_shape_update [simp]: "slot_shape (s\<lparr>sl_state := st\<rparr>) = slot_shape s"
  by (simp add: slot_shape_def)

lemma same_shape_refl [simp]: "same_shape xs xs"
  by (simp add: same_shape_def)

lemma same_shape_trans: "same_shape xs ys \<Longrightarrow> same_shape ys zs \<Longrightarrow> same_shape xs zs"
  by (simp add: same_shape_def)

lemma same_shape_length: "same_shape xs ys \<Longrightarrow> length ys = length xs"
  unfolding same_shape_def by (rule map_eq_imp_length_eq [OF sym])

lemma same_shape_nth:
  assumes "same_shape xs ys" and "i < length xs"
  shows "sl_id (ys ! i) = sl_id (xs ! i) \<and> sl_start (ys ! i) = sl_start (xs ! i) \<and> sl_end (ys ! i) = sl_end (xs ! i)"
proof -
  have "map slot_shape xs ! i = map slot_shape ys ! i" using assms(1) by (simp add: same_shape_def)
  then show ?thesis using assms(2) same_shape_length [OF assms(1)] by (simp add: slot_shape_def)
qed

lemma same_shape_minutes: "same_shape xs ys \<Longrightarrow> i < length xs \<Longrightarrow> sl_minutes (ys ! i) = sl_minutes (xs ! i)"
  using same_shape_nth [of xs ys i] by (simp add: sl_minutes_def)

lemma same_shape_ids:
  assumes "same_shape xs ys"
  shows "map sl_id ys = map sl_id xs"
proof -
  have eq: "map sl_id zs = map fst (map slot_shape zs)" for zs by (simp add: slot_shape_def)
  show ?thesis unfolding eq using assms by (simp only: same_shape_def)
qed

lemma same_shape_tiles: "same_shape xs ys \<Longrightarrow> tiles a xs b \<Longrightarrow> tiles a ys b"
proof (induction xs arbitrary: a ys)
  case Nil
  then show ?case by (simp add: same_shape_def)
next
  case (Cons x xs)
  then show ?case by (cases ys) (auto simp: same_shape_def slot_shape_def)
qed

lemma same_shape_append:
  "same_shape (xs @ ys) zs \<Longrightarrow> \<exists>us vs. zs = us @ vs \<and> same_shape xs us \<and> same_shape ys vs"
  by (auto simp: same_shape_def append_eq_map_conv)

lemma same_shape_tile_parts: "tile_parts ws xs \<Longrightarrow> same_shape xs ys \<Longrightarrow> tile_parts ws ys"
proof -
  have "\<exists>parts'. ys = concat parts' \<and> list_all2 (\<lambda>w p. tiles (aw_start w) p (aw_end w)) ws parts'"
    if "list_all2 (\<lambda>w p. tiles (aw_start w) p (aw_end w)) ws parts" "same_shape (concat parts) ys" for parts
    using that
  proof (induction arbitrary: ys rule: list_all2_induct)
    case Nil
    then show ?case by (auto simp: same_shape_def)
  next
    case (Cons w ws p parts)
    from same_shape_append [of p "concat parts" ys] Cons.prems obtain us vs where
      uv: "ys = us @ vs" "same_shape p us" "same_shape (concat parts) vs" by auto
    from Cons.IH [OF uv(3)] obtain parts' where
      "vs = concat parts'" "list_all2 (\<lambda>w p. tiles (aw_start w) p (aw_end w)) ws parts'" by blast
    then show ?case using uv same_shape_tiles Cons.hyps(1) by (intro exI [of _ "us # parts'"]) auto
  qed
  moreover assume "tile_parts ws xs" "same_shape xs ys"
  ultimately show ?thesis unfolding tile_parts_def by blast
qed

lemma reserve_same_shape: "same_shape xs (reserve_intervals xs is st)"
  by (auto simp: reserve_intervals_def same_shape_def)

lemma reserve_state:
  "i < length xs \<Longrightarrow> sl_state (reserve_intervals xs is st ! i) =
     (if list_ex (overlaps_interval (xs ! i)) is \<and> sl_state (xs ! i) = FREE then st else sl_state (xs ! i))"
  by (auto simp: reserve_intervals_def)

lemma update_same_shape: "same_shape xs (xs[i := (xs ! i)\<lparr>sl_state := st\<rparr>])"
  unfolding same_shape_def map_update slot_shape_update
  by (cases "i < length xs") (simp_all flip: nth_map, simp_all add: list_update_beyond)

lemma cut_tail_same_shape: "same_shape xs (cut_tail is a xs)"
  by (induction "is" a xs rule: cut_tail.induct)
     (auto intro: same_shape_trans update_same_shape)

lemma cut_tail_other: "i \<notin> set is \<Longrightarrow> cut_tail is a xs ! i = xs ! i"
  by (induction "is" a xs rule: cut_tail.induct) auto

lemma cut_tail_state:
  "i \<in> set is \<Longrightarrow> i < length xs \<Longrightarrow>
     sl_state (cut_tail is a xs ! i) = sl_state (xs ! i) \<or> sl_state (cut_tail is a xs ! i) = BUFFER"
proof (induction "is" a xs rule: cut_tail.induct)
  case (2 j "is" a xs)
  show ?case
  proof (cases "i \<in> set is")
    case True
    with 2 show ?thesis by (cases "i = j") (auto simp: nth_list_update split: if_splits)
  next
    case False
    with 2(3,4) show ?thesis by (auto simp: cut_tail_other nth_list_update)
  qed
qed simp

definition free_minutes_at :: "slot list \<Rightarrow> nat list \<Rightarrow> int" where
  "free_minutes_at xs is = sum_list (map (\<lambda>i. sl_minutes (xs ! i)) (filter (\<lambda>i. sl_state (xs ! i) = FREE) is))"

lemma cut_tail_minutes: "i < length xs \<Longrightarrow> sl_minutes (cut_tail is a xs ! i) = sl_minutes (xs ! i)"
  by (rule same_shape_minutes [OF cut_tail_same_shape])

lemma cut_tail_cap:
  "distinct is \<Longrightarrow> \<forall>i\<in>set is. i < length xs \<and> 0 \<le> sl_minutes (xs ! i) \<Longrightarrow> 0 \<le> a \<Longrightarrow>
     free_minutes_at (cut_tail is a xs) is \<le> a"
proof (induction "is" a xs rule: cut_tail.induct)
  case (2 j "is" a xs)
  show ?case
  proof (cases "sl_minutes (xs ! j) \<le> a")
    case True
    then have "free_minutes_at (cut_tail is (a - sl_minutes (xs ! j)) xs) is \<le> a - sl_minutes (xs ! j)"
      using 2 by auto
    moreover have "cut_tail is (a - sl_minutes (xs ! j)) xs ! j = xs ! j"
      using 2(3) by (intro cut_tail_other) simp
    ultimately show ?thesis using True 2(4) by (simp add: free_minutes_at_def)
  next
    case False
    let ?xs = "xs[j := (xs ! j)\<lparr>sl_state := BUFFER\<rparr>]"
    have "free_minutes_at (cut_tail is a ?xs) is \<le> a"
      using False 2(2) [OF False] 2(3-5) same_shape_minutes [OF update_same_shape [of xs j BUFFER]]
      by auto
    moreover have "cut_tail is a ?xs ! j = ?xs ! j" using 2(3) by (intro cut_tail_other) simp
    ultimately show ?thesis using False 2(4) by (simp add: free_minutes_at_def)
  qed
qed (simp add: free_minutes_at_def)

section \<open>Days\<close>

lemma enumerate_nth: "enumerate 0 xs = map (\<lambda>i. (i, xs ! i)) [0..<length xs]"
  by (rule nth_equalityI) (simp_all add: nth_enumerate_eq)

lemma filter_nth_map:
  "map (\<lambda>i. f (xs ! i)) (filter (\<lambda>i. P (xs ! i)) [0..<length xs]) = map f (filter P xs)"
proof -
  have "map f (filter P (map ((!) xs) [0..<length xs])) = map f (filter P xs)"
    by (simp only: map_nth)
  then show ?thesis by (simp add: filter_map comp_def)
qed

lemma fold_dappend_get:
  "dget (fold (\<lambda>(i, s). dappend (g s) i) ps acc) d [] = dget acc d [] @ map fst (filter (\<lambda>(i, s). g s = d) ps)"
  by (induction ps arbitrary: acc) (auto simp: dict_simps)

lemma slots_by_day_get:
  "dget (slots_by_day day slots) d [] = filter (\<lambda>i. day (sl_start (slots ! i)) = d) [0..<length slots]"
  unfolding slots_by_day_def fold_dappend_get
  by (simp add: dict_simps enumerate_nth filter_map comp_def)

lemma fold_dappend_distinct:
  "distinct (map fst acc) \<Longrightarrow> distinct (map fst (fold (\<lambda>(i, s). dappend (g s) i) ps acc))"
  by (induction ps arbitrary: acc) (simp_all add: dappend_def distinct_keys_update split: prod.splits)

lemma cut_day_same_shape: "same_shape xs (cut_day f slot idx xs)"
  by (simp add: cut_day_def Let_def cut_tail_same_shape)

lemma cut_day_other: "i \<notin> set idx \<Longrightarrow> cut_day f slot idx xs ! i = xs ! i"
  by (simp add: cut_day_def Let_def cut_tail_other)

lemma cut_day_state:
  assumes "i < length xs"
  shows "sl_state (cut_day f slot idx xs ! i) = sl_state (xs ! i)
    \<or> sl_state (xs ! i) = FREE \<and> sl_state (cut_day f slot idx xs ! i) = BUFFER"
proof (cases "i \<in> set (filter (\<lambda>i. sl_state (xs ! i) = FREE) idx)")
  case True
  then show ?thesis using cut_tail_state [OF True assms] by (auto simp: cut_day_def Let_def)
next
  case False
  then show ?thesis by (simp add: cut_day_def Let_def cut_tail_other)
qed

lemma floor_to_slot_nonneg: "0 \<le> x \<Longrightarrow> 0 < slot \<Longrightarrow> 0 \<le> floor_to_slot x slot"
proof -
  assume x: "0 \<le> x" and slot: "0 < slot"
  then have "0 \<le> fdiv x (of_int slot)" by (simp add: fdiv_def fl_nonneg)
  then have "0 \<le> rne (fdiv x (of_int slot) * 10 ^ 6)"
    by (intro rne_ge_int) (auto intro: less_le_trans [of _ 0])
  then have "0 \<le> fround (fdiv x (of_int slot)) 6" by (simp add: fround_def fl_nonneg)
  then show ?thesis using slot by (simp add: floor_to_slot_def)
qed

lemma cut_day_cap:
  assumes "distinct idx" and "\<forall>i\<in>set idx. i < length xs \<and> 0 \<le> sl_minutes (xs ! i)"
    and "0 \<le> f" and "0 < slot"
  shows "free_minutes_at (cut_day f slot idx xs) idx
    \<le> floor_to_slot (fmul (fl (of_int (free_minutes_at xs idx))) f) slot"
proof -
  let ?free = "filter (\<lambda>i. sl_state (xs ! i) = FREE) idx"
  let ?cap = "floor_to_slot (fmul (fl (of_int (free_minutes_at xs idx))) f) slot"
  let ?ys = "cut_tail ?free ?cap xs"
  have "0 \<le> free_minutes_at xs idx"
    unfolding free_minutes_at_def using assms(2) by (intro sum_list_nonneg_int) auto
  then have "0 \<le> ?cap" using assms(3,4)
    by (intro floor_to_slot_nonneg) (simp_all add: fmul_def fl_nonneg)
  then have "free_minutes_at ?ys ?free \<le> ?cap"
    using assms(1,2) by (intro cut_tail_cap) auto
  moreover have "filter (\<lambda>i. sl_state (?ys ! i) = FREE) ?free = filter (\<lambda>i. sl_state (?ys ! i) = FREE) idx"
  proof -
    have "sl_state (xs ! i) = FREE" if "i \<in> set idx" "sl_state (?ys ! i) = FREE" for i
      using that cut_tail_other [of i ?free ?cap xs] by (cases "i \<in> set ?free") auto
    then show ?thesis by (auto simp: filter_filter intro!: filter_cong)
  qed
  ultimately show ?thesis by (simp add: cut_day_def Let_def free_minutes_at_def)
qed

lemma fold_cut_same_shape: "same_shape xs (fold (\<lambda>d. cut_day f slot (ix d)) ds xs)"
  by (induction ds arbitrary: xs) (auto intro: same_shape_trans cut_day_same_shape)

lemma fold_cut_other: "\<forall>d\<in>set ds. i \<notin> set (ix d) \<Longrightarrow> fold (\<lambda>d. cut_day f slot (ix d)) ds xs ! i = xs ! i"
  by (induction ds arbitrary: xs) (auto simp: cut_day_other)

lemma fold_cut_state:
  "i < length xs \<Longrightarrow> sl_state (fold (\<lambda>d. cut_day f slot (ix d)) ds xs ! i) = sl_state (xs ! i)
    \<or> sl_state (xs ! i) = FREE \<and> sl_state (fold (\<lambda>d. cut_day f slot (ix d)) ds xs ! i) = BUFFER"
proof (induction ds arbitrary: xs)
  case (Cons d ds)
  have "i < length (cut_day f slot (ix d) xs)"
    using Cons.prems same_shape_length [OF cut_day_same_shape] by simp
  from Cons.IH [OF this] cut_day_state [OF Cons.prems, of f slot "ix d"] show ?case by auto
qed simp

lemma free_minutes_at_cong:
  "\<forall>i\<in>set idx. xs ! i = ys ! i \<Longrightarrow> free_minutes_at xs idx = free_minutes_at ys idx"
  by (auto simp: free_minutes_at_def cong: filter_cong intro!: arg_cong [of _ _ sum_list])

lemma fold_cut_cap:
  assumes "distinct ds" and "d \<in> set ds" and "\<And>d'. d' \<noteq> d \<Longrightarrow> set (ix d') \<inter> set (ix d) = {}"
    and "distinct (ix d)" and "\<forall>i\<in>set (ix d). i < length xs \<and> 0 \<le> sl_minutes (xs ! i)"
    and "0 \<le> f" and "0 < slot"
  shows "free_minutes_at (fold (\<lambda>d. cut_day f slot (ix d)) ds xs) (ix d)
    \<le> floor_to_slot (fmul (fl (of_int (free_minutes_at xs (ix d)))) f) slot"
proof -
  from assms(2) obtain as bs where ds: "ds = as @ d # bs" by (metis split_list)
  with assms(1) have nin: "d \<notin> set as" "d \<notin> set bs" by auto
  define ys where "ys = fold (\<lambda>d. cut_day f slot (ix d)) as xs"
  define zs where "zs = cut_day f slot (ix d) ys"
  have y: "ys ! i = xs ! i" if "i \<in> set (ix d)" for i
    unfolding ys_def using that nin(1) assms(3) by (intro fold_cut_other) (metis disjoint_iff)
  have len: "length ys = length xs" unfolding ys_def by (rule same_shape_length [OF fold_cut_same_shape])
  have z: "fold (\<lambda>d. cut_day f slot (ix d)) bs zs ! i = zs ! i" if "i \<in> set (ix d)" for i
    using that nin(2) assms(3) by (intro fold_cut_other) (metis disjoint_iff)
  have "free_minutes_at zs (ix d) \<le> floor_to_slot (fmul (fl (of_int (free_minutes_at ys (ix d)))) f) slot"
    unfolding zs_def using assms(4-7) y len by (intro cut_day_cap) auto
  moreover have "free_minutes_at ys (ix d) = free_minutes_at xs (ix d)"
    using y by (intro free_minutes_at_cong) simp
  moreover have "free_minutes_at (fold (\<lambda>d. cut_day f slot (ix d)) ds xs) (ix d) = free_minutes_at zs (ix d)"
    using z by (simp add: ds ys_def zs_def free_minutes_at_cong)
  ultimately show ?thesis by simp
qed

section \<open>The result\<close>

lemma apply_daily_same_shape: "same_shape xs (apply_daily_capacity tz xs f slot name)"
  unfolding apply_daily_capacity_def Let_def by (rule fold_cut_same_shape)

lemma apply_daily_state:
  "i < length xs \<Longrightarrow> sl_state (apply_daily_capacity tz xs f slot name ! i) = sl_state (xs ! i)
    \<or> sl_state (xs ! i) = FREE \<and> sl_state (apply_daily_capacity tz xs f slot name ! i) = BUFFER"
  unfolding apply_daily_capacity_def Let_def by (rule fold_cut_state)

abbreviation valid_windows :: "availability_context \<Rightarrow> bool" where
  "valid_windows c \<equiv> \<forall>w\<in>set (ac_windows c). aw_start w \<le> aw_end w"

text \<open>The three stages of \<open>build_unique_slots\<close>, with what the first one gives.\<close>

lemma build_stages:
  assumes "0 < ac_slot_minutes c" and "valid_windows c"
  shows "\<exists>xs r2. build_unique_slots tz c = Inr (apply_daily_capacity tz r2 (ac_capacity_factor c) (ac_slot_minutes c) (ac_timezone c))
    \<and> r2 = reserve_intervals (reserve_intervals xs (fixed_event_intervals c) FIXED_EVENT) (ac_focus_blocks c) PROTECTED_FOCUS_BLOCK
    \<and> tile_parts (ac_windows c) xs \<and> distinct (map sl_id xs)
    \<and> (\<forall>s\<in>set xs. sl_state s = FREE \<and> sl_end s - sl_start s \<le> minutes_delta (ac_slot_minutes c))"
proof -
  from split_windows_result [OF assms, of 0] obtain xs where
    xs: "split_windows (ac_slot_minutes c) (ac_windows c) 0 = Inr xs" "tile_parts (ac_windows c) xs"
      "\<forall>s\<in>set xs. sl_state s = FREE \<and> sl_end s - sl_start s \<le> minutes_delta (ac_slot_minutes c)"
      "\<forall>i<length xs. \<exists>d. sl_id (xs ! i) = slot_id d (Suc (0 + i))" by auto
  let ?r2 = "reserve_intervals (reserve_intervals xs (fixed_event_intervals c) FIXED_EVENT) (ac_focus_blocks c) PROTECTED_FOCUS_BLOCK"
  have "build_unique_slots tz c = Inr (apply_daily_capacity tz ?r2 (ac_capacity_factor c) (ac_slot_minutes c) (ac_timezone c))"
    using xs(1) by (simp add: build_unique_slots_def Let_def)
  then show ?thesis using xs(2,3) distinct_slot_ids [OF xs(4)] by blast
qed

lemma build_slots_tile:
  assumes "0 < ac_slot_minutes c" and "\<forall>w\<in>set (ac_windows c). aw_start w \<le> aw_end w"
  shows "\<exists>slots. build_unique_slots tz c = Inr slots \<and> tile_parts (ac_windows c) slots
    \<and> distinct (map sl_id slots)
    \<and> (\<forall>s\<in>set slots. sl_end s - sl_start s \<le> minutes_delta (ac_slot_minutes c))"
proof -
  from build_stages [OF assms, of tz] obtain xs r2 where
    b: "build_unique_slots tz c = Inr (apply_daily_capacity tz r2 (ac_capacity_factor c) (ac_slot_minutes c) (ac_timezone c))"
    and r2: "r2 = reserve_intervals (reserve_intervals xs (fixed_event_intervals c) FIXED_EVENT) (ac_focus_blocks c) PROTECTED_FOCUS_BLOCK"
    and t: "tile_parts (ac_windows c) xs" and d: "distinct (map sl_id xs)"
    and len: "\<forall>s\<in>set xs. sl_state s = FREE \<and> sl_end s - sl_start s \<le> minutes_delta (ac_slot_minutes c)"
    by blast
  let ?ys = "apply_daily_capacity tz r2 (ac_capacity_factor c) (ac_slot_minutes c) (ac_timezone c)"
  have sh: "same_shape xs ?ys"
    unfolding r2 using same_shape_trans reserve_same_shape apply_daily_same_shape by meson
  have "sl_end s - sl_start s \<le> minutes_delta (ac_slot_minutes c)" if s: "s \<in> set ?ys" for s
  proof -
    from s obtain i where i: "i < length ?ys" "s = ?ys ! i" by (auto simp: in_set_conv_nth)
    then have "i < length xs" using same_shape_length [OF sh] by simp
    with same_shape_nth [OF sh this] len i show ?thesis by simp
  qed
  then show ?thesis
    using b same_shape_tile_parts [OF t sh] same_shape_ids [OF sh] d by simp
qed

text \<open>
  With a positive slot length and windows that do not end before they start, slot
  generation returns: the slots cut every window, in order, into adjacent pieces without
  gap or overlap, no piece is longer than a slot, and all slot ids are distinct.
\<close>

theorem build_unique_slots_tiles:
  assumes "0 < ac_slot_minutes c" and "\<forall>w\<in>set (ac_windows c). aw_start w \<le> aw_end w"
  shows "\<exists>slots. build_unique_slots tz c = Inr slots \<and> tile_parts (ac_windows c) slots
    \<and> distinct (map sl_id slots)
    \<and> (\<forall>s\<in>set slots. sl_end s - sl_start s \<le> minutes_delta (ac_slot_minutes c))"
  using assms by (rule build_slots_tile)

lemma build_slots_state:
  assumes "0 < ac_slot_minutes c" and "\<forall>w\<in>set (ac_windows c). aw_start w \<le> aw_end w"
    and "build_unique_slots tz c = Inr slots" and "s \<in> set slots"
  shows "sl_state s \<in> (if list_ex (overlaps_interval s) (fixed_event_intervals c) then {FIXED_EVENT}
    else if list_ex (overlaps_interval s) (ac_focus_blocks c) then {PROTECTED_FOCUS_BLOCK}
    else {FREE, BUFFER})"
proof -
  from build_stages [OF assms(1,2), of tz] obtain xs r2 where
    b: "build_unique_slots tz c = Inr (apply_daily_capacity tz r2 (ac_capacity_factor c) (ac_slot_minutes c) (ac_timezone c))"
    and r2: "r2 = reserve_intervals (reserve_intervals xs (fixed_event_intervals c) FIXED_EVENT) (ac_focus_blocks c) PROTECTED_FOCUS_BLOCK"
    and fr: "\<forall>s\<in>set xs. sl_state s = FREE \<and> sl_end s - sl_start s \<le> minutes_delta (ac_slot_minutes c)"
    by blast
  let ?r1 = "reserve_intervals xs (fixed_event_intervals c) FIXED_EVENT"
  have sh1: "same_shape xs ?r1" by (rule reserve_same_shape)
  have sh2: "same_shape xs r2" unfolding r2 using same_shape_trans reserve_same_shape by meson
  have slots: "slots = apply_daily_capacity tz r2 (ac_capacity_factor c) (ac_slot_minutes c) (ac_timezone c)"
    using b assms(3) by simp
  have sh3: "same_shape xs slots"
    unfolding slots using sh2 same_shape_trans apply_daily_same_shape by meson
  from assms(4) obtain i where i: "i < length slots" "s = slots ! i" by (auto simp: in_set_conv_nth)
  then have ix: "i < length xs" using same_shape_length [OF sh3] by simp
  then have ir: "i < length ?r1" "i < length r2"
    using same_shape_length [OF sh1] same_shape_length [OF sh2] by simp_all
  have free: "sl_state (xs ! i) = FREE" using fr ix by simp
  have ov: "overlaps_interval (ys ! i) = overlaps_interval s" if "same_shape xs ys" for ys
    using same_shape_nth [OF that ix] same_shape_nth [OF sh3 ix] i
    by (simp add: overlaps_interval_def fun_eq_iff)
  have s1: "sl_state (?r1 ! i) = (if list_ex (overlaps_interval s) (fixed_event_intervals c) then FIXED_EVENT else FREE)"
    using reserve_state [OF ix, of "fixed_event_intervals c" FIXED_EVENT] free ov [of xs] by simp
  have s2: "sl_state (r2 ! i) = (if list_ex (overlaps_interval s) (ac_focus_blocks c) \<and> sl_state (?r1 ! i) = FREE
      then PROTECTED_FOCUS_BLOCK else sl_state (?r1 ! i))"
    using reserve_state [OF ir(1), of "ac_focus_blocks c" PROTECTED_FOCUS_BLOCK] ov [OF sh1] by (simp add: r2)
  from apply_daily_state [OF ir(2), of tz "ac_capacity_factor c" "ac_slot_minutes c" "ac_timezone c"]
  show ?thesis using s1 s2 i(2) by (auto simp: slots [symmetric] split: if_splits)
qed

text \<open>
  A slot's state is decided by what it overlaps: fixed events first, protected focus
  blocks next, and only the rest is divided into free slots and buffer.
\<close>

theorem build_unique_slots_states:
  assumes "0 < ac_slot_minutes c" and "\<forall>w\<in>set (ac_windows c). aw_start w \<le> aw_end w"
    and "build_unique_slots tz c = Inr slots" and "s \<in> set slots"
  shows "sl_state s \<in> (if list_ex (overlaps_interval s) (fixed_event_intervals c) then {FIXED_EVENT}
    else if list_ex (overlaps_interval s) (ac_focus_blocks c) then {PROTECTED_FOCUS_BLOCK}
    else {FREE, BUFFER})"
  using assms by (rule build_slots_state)

text \<open>The minutes of a local day whose slots are in one of the given states.\<close>

definition day_minutes :: "tzdb \<Rightarrow> string \<Rightarrow> slot list \<Rightarrow> date \<Rightarrow> slot_state list \<Rightarrow> int" where
  "day_minutes tz name slots d sts = sum_list (map sl_minutes
     (filter (\<lambda>s. local_day tz (sl_start s) name = d \<and> sl_state s \<in> set sts) slots))"

lemma tiles_minutes:
  "tiles a ss b \<Longrightarrow> a \<le> b \<and> (\<forall>s\<in>set ss. 0 \<le> sl_minutes s) \<and> sum_list (map sl_minutes ss) \<le> minutes_between a b"
proof (induction ss arbitrary: a)
  case (Cons s ss)
  then have "sl_end s \<le> b" "\<forall>s\<in>set ss. 0 \<le> sl_minutes s"
    "sum_list (map sl_minutes ss) \<le> minutes_between (sl_end s) b" by auto
  moreover have "sl_minutes s = minutes_between a (sl_end s)" "a < sl_end s"
    using Cons.prems by (simp_all add: sl_minutes_def)
  ultimately show ?case using minutes_between_split [of a "sl_end s" b] by (auto simp: minutes_between_nonneg)
qed simp

lemma tile_parts_minutes:
  assumes "tile_parts ws slots"
  shows "(\<forall>s\<in>set slots. 0 \<le> sl_minutes s) \<and> sum_list (map sl_minutes slots) \<le> sum_list (map window_minutes ws)"
proof -
  from assms obtain parts where "slots = concat parts"
    "list_all2 (\<lambda>w p. tiles (aw_start w) p (aw_end w)) ws parts" by (auto simp: tile_parts_def)
  moreover have "(\<forall>s\<in>set (concat parts). 0 \<le> sl_minutes s)
      \<and> sum_list (map sl_minutes (concat parts)) \<le> sum_list (map window_minutes ws)"
    if "list_all2 (\<lambda>w p. tiles (aw_start w) p (aw_end w)) ws parts" for parts
    using that
  proof (induction rule: list_all2_induct)
    case (Cons w ws p parts)
    then show ?case using tiles_minutes [OF Cons.hyps(1)] by (auto simp: window_minutes_def)
  qed simp
  ultimately show ?thesis by simp
qed

lemma free_minutes_at_day:
  "free_minutes_at xs (filter (\<lambda>i. local_day tz (sl_start (xs ! i)) name = d) [0..<length xs])
    = day_minutes tz name xs d [FREE]"
  unfolding free_minutes_at_def day_minutes_def filter_filter
  using filter_nth_map [of sl_minutes xs "\<lambda>s. local_day tz (sl_start s) name = d \<and> sl_state s = FREE"]
  by (simp add: conj_commute)

lemma day_index_same_shape:
  assumes "same_shape xs ys"
  shows "filter (\<lambda>i. day (sl_start (xs ! i)) = d) [0..<length xs] = filter (\<lambda>i. day (sl_start (ys ! i)) = d) [0..<length ys]"
proof -
  have "filter (\<lambda>i. day (sl_start (xs ! i)) = d) [0..<length xs] = filter (\<lambda>i. day (sl_start (ys ! i)) = d) [0..<length xs]"
    using same_shape_nth [OF assms] by (intro filter_cong) auto
  then show ?thesis using same_shape_length [OF assms] by simp
qed

text \<open>The capacity stage on any list of slots.\<close>

lemma apply_daily_cap:
  assumes nn: "\<forall>s\<in>set xs. 0 \<le> sl_minutes s" and f: "0 \<le> f" and slot: "0 < slot"
  shows "day_minutes tz name (apply_daily_capacity tz xs f slot name) d [FREE]
    \<le> floor_to_slot (fmul (fl (of_int (day_minutes tz name xs d [FREE]))) f) slot"
proof -
  let ?day = "\<lambda>t. local_day tz t name"
  let ?ix = "\<lambda>d. filter (\<lambda>i. ?day (sl_start (xs ! i)) = d) [0..<length xs]"
  let ?by = "slots_by_day ?day xs"
  let ?ys = "apply_daily_capacity tz xs f slot name"
  have ys: "?ys = fold (\<lambda>d. cut_day f slot (?ix d)) (sort (map fst ?by)) xs"
    unfolding apply_daily_capacity_def Let_def slots_by_day_get ..
  have xs_ix: "free_minutes_at xs (?ix d) = day_minutes tz name xs d [FREE]"
    by (rule free_minutes_at_day)
  have ys_ix: "free_minutes_at ?ys (?ix d) = day_minutes tz name ?ys d [FREE]"
    unfolding day_index_same_shape [OF apply_daily_same_shape, of ?day xs d tz f slot name]
    by (rule free_minutes_at_day)
  show ?thesis
  proof (cases "d \<in> set (map fst ?by)")
    case True
    have "free_minutes_at ?ys (?ix d) \<le> floor_to_slot (fmul (fl (of_int (free_minutes_at xs (?ix d)))) f) slot"
      unfolding ys
    proof (rule fold_cut_cap)
      show "distinct (sort (map fst ?by))"
        unfolding slots_by_day_def using fold_dappend_distinct [of "[]"] by simp
      show "d \<in> set (sort (map fst ?by))" using True by simp
      show "\<forall>i\<in>set (?ix d). i < length xs \<and> 0 \<le> sl_minutes (xs ! i)" using nn by simp
    qed (use f slot in auto)
    then show ?thesis by (simp only: xs_ix ys_ix)
  next
    case False
    then have "map_of ?by d = None" by (simp add: map_of_eq_None_iff)
    then have "dget ?by d [] = []" by (simp add: dget_def)
    then have "?ix d = []" unfolding slots_by_day_get .
    then have e: "free_minutes_at zs (?ix d) = 0" for zs by (simp add: free_minutes_at_def)
    have "day_minutes tz name xs d [FREE] = 0" "day_minutes tz name ?ys d [FREE] = 0"
      using e xs_ix ys_ix by simp_all
    then show ?thesis using f slot by (simp add: floor_to_slot_nonneg fmul_def)
  qed
qed

lemma day_minutes_index:
  "day_minutes tz name xs d sts = sum_list (map (\<lambda>i. sl_minutes (xs ! i))
     (filter (\<lambda>i. local_day tz (sl_start (xs ! i)) name = d \<and> sl_state (xs ! i) \<in> set sts) [0..<length xs]))"
  unfolding day_minutes_def
  using filter_nth_map [of sl_minutes xs "\<lambda>s. local_day tz (sl_start s) name = d \<and> sl_state s \<in> set sts"]
  by simp

lemma day_minutes_unreserved:
  assumes "same_shape xs ys"
    and "\<And>i. i < length xs \<Longrightarrow> sl_state (xs ! i) = FREE \<longleftrightarrow> sl_state (ys ! i) \<in> set sts"
  shows "day_minutes tz name xs d [FREE] = day_minutes tz name ys d sts"
proof -
  have "filter (\<lambda>i. local_day tz (sl_start (xs ! i)) name = d \<and> sl_state (xs ! i) \<in> set [FREE]) [0..<length xs]
      = filter (\<lambda>i. local_day tz (sl_start (ys ! i)) name = d \<and> sl_state (ys ! i) \<in> set sts) [0..<length xs]"
    using same_shape_nth [OF assms(1)] assms(2) by (intro filter_cong) auto
  moreover have "map (\<lambda>i. sl_minutes (xs ! i)) is = map (\<lambda>i. sl_minutes (ys ! i)) is"
    if "set is \<subseteq> {..<length xs}" for "is"
    using that same_shape_minutes [OF assms(1)] by (intro map_cong) auto
  ultimately show ?thesis
    unfolding day_minutes_index same_shape_length [OF assms(1)] by (metis (no_types, lifting)
      atLeastLessThan_iff atLeast_upt filter_is_subset lessThan_iff set_upt subset_iff)
qed

lemma day_minutes_le:
  "\<forall>s\<in>set xs. 0 \<le> sl_minutes s \<Longrightarrow> 0 \<le> day_minutes tz name xs d sts
     \<and> day_minutes tz name xs d sts \<le> sum_list (map sl_minutes xs)"
  unfolding day_minutes_def by (auto intro!: sum_list_filter_le sum_list_nonneg_int)

text \<open>
  C8. The capacity factor is never exceeded: on every local day the free minutes are at
  most that share of the minutes not taken by events and focus blocks. Factors are the
  multiples of 5 percent, slots last at most a day, and the windows have at most a million
  minutes together.
\<close>

theorem build_unique_slots_capacity:
  assumes "0 < ac_slot_minutes c" and "ac_slot_minutes c \<le> 1440"
    and "\<forall>w\<in>set (ac_windows c). aw_start w \<le> aw_end w"
    and "sum_list (map window_minutes (ac_windows c)) \<le> 1000000"
    and "ac_capacity_factor c = fl (of_nat n / 20)" and "n \<le> 20"
    and "build_unique_slots tz c = Inr slots"
  shows "20 * day_minutes tz (ac_timezone c) slots d [FREE]
    \<le> int n * day_minutes tz (ac_timezone c) slots d [FREE, BUFFER]"
proof -
  from build_stages [OF assms(1,3), of tz] obtain xs r2 where
    b: "build_unique_slots tz c = Inr (apply_daily_capacity tz r2 (ac_capacity_factor c) (ac_slot_minutes c) (ac_timezone c))"
    and r2: "r2 = reserve_intervals (reserve_intervals xs (fixed_event_intervals c) FIXED_EVENT) (ac_focus_blocks c) PROTECTED_FOCUS_BLOCK"
    and t: "tile_parts (ac_windows c) xs"
    and fr: "\<forall>s\<in>set xs. sl_state s = FREE \<and> sl_end s - sl_start s \<le> minutes_delta (ac_slot_minutes c)"
    by blast
  have slots: "slots = apply_daily_capacity tz r2 (ac_capacity_factor c) (ac_slot_minutes c) (ac_timezone c)"
    using b assms(7) by simp
  let ?r1 = "reserve_intervals xs (fixed_event_intervals c) FIXED_EVENT"
  have sh2: "same_shape xs r2" unfolding r2 using same_shape_trans reserve_same_shape by meson
  have sh3: "same_shape r2 slots" unfolding slots by (rule apply_daily_same_shape)
  have nobuf: "sl_state (r2 ! i) \<noteq> BUFFER" if "i < length r2" for i
  proof -
    have ix: "i < length xs" "i < length ?r1"
      using that same_shape_length [OF sh2] same_shape_length [OF reserve_same_shape, of xs] by simp_all
    show ?thesis using reserve_state [OF ix(1), of "fixed_event_intervals c" FIXED_EVENT]
        reserve_state [OF ix(2), of "ac_focus_blocks c" PROTECTED_FOCUS_BLOCK] fr ix
      by (auto simp: r2)
  qed
  have nn: "\<forall>s\<in>set r2. 0 \<le> sl_minutes s" and tot: "sum_list (map sl_minutes r2) \<le> 1000000"
    using tile_parts_minutes [OF same_shape_tile_parts [OF t sh2]] assms(4) by auto
  define raw where "raw = day_minutes tz (ac_timezone c) r2 d [FREE]"
  have raw: "0 \<le> raw" "raw \<le> 1000000"
    using day_minutes_le [OF nn, of tz "ac_timezone c" d "[FREE]"] tot by (simp_all add: raw_def)
  have "raw = day_minutes tz (ac_timezone c) slots d [FREE, BUFFER]"
    unfolding raw_def
  proof (rule day_minutes_unreserved [OF sh3])
    fix i assume i: "i < length r2"
    from apply_daily_state [OF i, of tz "ac_capacity_factor c" "ac_slot_minutes c" "ac_timezone c"] nobuf [OF i]
    show "sl_state (r2 ! i) = FREE \<longleftrightarrow> sl_state (slots ! i) \<in> set [FREE, BUFFER]"
      by (auto simp: slots [symmetric])
  qed
  moreover have "day_minutes tz (ac_timezone c) slots d [FREE] \<le> (int n * raw) div (20 * ac_slot_minutes c) * ac_slot_minutes c"
    using apply_daily_cap [OF nn _ assms(1), of "ac_capacity_factor c" tz "ac_timezone c" d]
      floor_to_slot_floor [OF assms(6) raw assms(1,2)]
    by (simp add: slots raw_def [symmetric] assms(5) fl_nonneg)
  moreover have "20 * ((int n * raw) div (20 * ac_slot_minutes c) * ac_slot_minutes c) \<le> int n * raw"
  proof -
    have "0 \<le> (int n * raw) mod (20 * ac_slot_minutes c)" using assms(1) by (intro pos_mod_sign) simp
    then show ?thesis using div_mult_mod_eq [of "int n * raw" "20 * ac_slot_minutes c"]
      by (simp add: mult.left_commute)
  qed
  ultimately show ?thesis by (metis mult_left_mono order_trans zero_le_numeral)
qed

text \<open>A day with one window of an hour and a meeting in its second half hour.\<close>

definition sample_context :: availability_context where
  "sample_context = \<lparr>ac_windows = [\<lparr>aw_start = 0, aw_end = us_per_hour, aw_tags = []\<rparr>],
     ac_events = [\<lparr>ce_id = CalendarEventId 1, ce_workspace = WorkspaceId 1, ce_title = ''standup'',
       ce_start = 30 * us_per_minute, ce_end = us_per_hour, ce_kind = FIXED_BUSY,
       ce_deadline_date = None, ce_version = 1\<rparr>],
     ac_focus_blocks = [], ac_slot_minutes = 15, ac_capacity_factor = fl (80/100),
     ac_timezone = ''UTC''\<rparr>"

lemma sample_context_simps:
  "ac_slot_minutes sample_context = 15" "ac_timezone sample_context = ''UTC''"
  "ac_capacity_factor sample_context = fl (of_nat 16 / 20)"
  "ac_windows sample_context = [\<lparr>aw_start = 0, aw_end = us_per_hour, aw_tags = []\<rparr>]"
  by (simp_all add: sample_context_def)

lemma build_unique_slots_tiles_witness:
  "\<exists>slots. build_unique_slots utc_tzdb sample_context = Inr slots \<and> distinct (map sl_id slots)"
  using build_unique_slots_tiles [of sample_context utc_tzdb] by (auto simp: sample_context_simps)

lemma sample_build: "\<exists>slots. build_unique_slots utc_tzdb sample_context = Inr slots"
  using build_stages [of sample_context utc_tzdb] by (auto simp: sample_context_simps)

lemma sample_slots_nonempty:
  assumes "build_unique_slots utc_tzdb sample_context = Inr slots"
  shows "\<exists>s\<in>set slots. sl_start s = 0"
proof -
  from build_stages [of sample_context utc_tzdb] assms obtain xs r2 where
    s: "slots = apply_daily_capacity utc_tzdb r2 (ac_capacity_factor sample_context) 15 ''UTC''"
    and r2: "r2 = reserve_intervals (reserve_intervals xs (fixed_event_intervals sample_context) FIXED_EVENT) (ac_focus_blocks sample_context) PROTECTED_FOCUS_BLOCK"
    and t: "tile_parts (ac_windows sample_context) xs"
    by (auto simp: sample_context_simps)
  have "same_shape xs slots"
    unfolding s r2 using same_shape_trans reserve_same_shape apply_daily_same_shape by meson
  from same_shape_tile_parts [OF t this] obtain p where "slots = p" "tiles 0 p us_per_hour"
    by (auto simp: tile_parts_def sample_context_simps list_all2_Cons1)
  then show ?thesis by (cases p) auto
qed

lemma build_unique_slots_states_witness:
  "\<exists>slots s. build_unique_slots utc_tzdb sample_context = Inr slots \<and> s \<in> set slots
    \<and> sl_state s \<in> (if list_ex (overlaps_interval s) (fixed_event_intervals sample_context) then {FIXED_EVENT} else {FREE, BUFFER})"
proof -
  from sample_build obtain slots where b: "build_unique_slots utc_tzdb sample_context = Inr slots" ..
  from sample_slots_nonempty [OF b] obtain s where s: "s \<in> set slots" by blast
  from build_unique_slots_states [OF _ _ b s] b s show ?thesis
    by (intro exI [of _ slots] exI [of _ s]) (auto simp: sample_context_simps sample_context_def)
qed

lemma build_unique_slots_capacity_witness:
  "\<exists>slots. build_unique_slots utc_tzdb sample_context = Inr slots
    \<and> 20 * day_minutes utc_tzdb ''UTC'' slots 0 [FREE] \<le> 16 * day_minutes utc_tzdb ''UTC'' slots 0 [FREE, BUFFER]"
proof -
  from sample_build obtain slots where b: "build_unique_slots utc_tzdb sample_context = Inr slots" ..
  from build_unique_slots_capacity [OF _ _ _ _ sample_context_simps(3) _ b, of 0] b show ?thesis
    by (auto simp: sample_context_simps window_minutes_def minutes_between_def)
qed

section \<open>Disjointness, and what overlapping windows do\<close>

definition slots_apart :: "slot \<Rightarrow> slot \<Rightarrow> bool" where
  "slots_apart s t \<longleftrightarrow> sl_end s \<le> sl_start t \<or> sl_end t \<le> sl_start s"

definition windows_apart :: "window \<Rightarrow> window \<Rightarrow> bool" where
  "windows_apart v w \<longleftrightarrow> aw_end v \<le> aw_start w \<or> aw_end w \<le> aw_start v"

lemma tiles_inside: "tiles a p b \<Longrightarrow> s \<in> set p \<Longrightarrow> a \<le> sl_start s \<and> sl_end s \<le> b"
proof (induction p arbitrary: a)
  case (Cons t p)
  then have "sl_end t \<le> b" using tiles_minutes [of "sl_end t" p b] by simp
  with Cons show ?case by (cases "s = t") force+
qed simp

lemma tiles_apart: "tiles a p b \<Longrightarrow> sorted_wrt slots_apart p"
proof (induction p arbitrary: a)
  case (Cons t p)
  then show ?case using tiles_inside [of "sl_end t" p b] by (auto simp: slots_apart_def)
qed simp

lemma tile_parts_apart:
  assumes "tile_parts ws slots" and "sorted_wrt windows_apart ws"
  shows "sorted_wrt slots_apart slots"
proof -
  from assms(1) obtain parts where "slots = concat parts"
    "list_all2 (\<lambda>w p. tiles (aw_start w) p (aw_end w)) ws parts" by (auto simp: tile_parts_def)
  moreover have "sorted_wrt slots_apart (concat parts)"
    if "list_all2 (\<lambda>w p. tiles (aw_start w) p (aw_end w)) ws parts" "sorted_wrt windows_apart ws" for parts
    using that
  proof (induction rule: list_all2_induct)
    case (Cons w ws p parts)
    have "slots_apart s t" if s: "s \<in> set p" and t: "t \<in> set (concat parts)" for s t
    proof -
      from t obtain q where q: "q \<in> set parts" "t \<in> set q" by auto
      then obtain i where i: "i < length parts" "q = parts ! i" by (auto simp: in_set_conv_nth)
      have v: "ws ! i \<in> set ws" "tiles (aw_start (ws ! i)) q (aw_end (ws ! i))"
        using i list_all2_lengthD [OF Cons.hyps(2)] list_all2_nthD2 [OF Cons.hyps(2) i(1)] by simp_all
      have "windows_apart w (ws ! i)" using Cons.prems v(1) by simp
      with tiles_inside [OF Cons.hyps(1) s] tiles_inside [OF v(2) q(2)] show ?thesis
        by (auto simp: windows_apart_def slots_apart_def)
    qed
    then show ?case using tiles_apart [OF Cons.hyps(1)] Cons.IH Cons.prems
      by (auto simp: sorted_wrt_append)
  qed simp
  ultimately show ?thesis using assms(2) by simp
qed

lemma build_slots_apart:
  assumes "0 < ac_slot_minutes c" and "\<forall>w\<in>set (ac_windows c). aw_start w \<le> aw_end w"
    and "sorted_wrt windows_apart (ac_windows c)" and "build_unique_slots tz c = Inr slots"
  shows "sorted_wrt slots_apart slots"
proof -
  from build_stages [OF assms(1,2), of tz] assms(4) obtain xs r2 where
    s: "slots = apply_daily_capacity tz r2 (ac_capacity_factor c) (ac_slot_minutes c) (ac_timezone c)"
    and r2: "r2 = reserve_intervals (reserve_intervals xs (fixed_event_intervals c) FIXED_EVENT) (ac_focus_blocks c) PROTECTED_FOCUS_BLOCK"
    and t: "tile_parts (ac_windows c) xs" by auto
  have "same_shape xs slots"
    unfolding s r2 using same_shape_trans reserve_same_shape apply_daily_same_shape by meson
  then show ?thesis using same_shape_tile_parts [OF t] tile_parts_apart assms(3) by blast
qed

text \<open>
  When no two availability windows overlap, no two slots do: an instant belongs to at
  most one slot.
\<close>

theorem build_unique_slots_disjoint:
  assumes "0 < ac_slot_minutes c" and "\<forall>w\<in>set (ac_windows c). aw_start w \<le> aw_end w"
    and "sorted_wrt windows_apart (ac_windows c)" and "build_unique_slots tz c = Inr slots"
  shows "sorted_wrt slots_apart slots"
  using assms by (rule build_slots_apart)

lemma build_unique_slots_disjoint_witness:
  "\<exists>slots. build_unique_slots utc_tzdb sample_context = Inr slots \<and> sorted_wrt slots_apart slots"
proof -
  from sample_build obtain slots where b: "build_unique_slots utc_tzdb sample_context = Inr slots" ..
  from build_unique_slots_disjoint [OF _ _ _ b] b show ?thesis by (auto simp: sample_context_simps)
qed

text \<open>Two identical windows of an hour, all of it schedulable.\<close>

definition overlap_context :: availability_context where
  "overlap_context = \<lparr>ac_windows = [\<lparr>aw_start = 0, aw_end = us_per_hour, aw_tags = []\<rparr>,
       \<lparr>aw_start = 0, aw_end = us_per_hour, aw_tags = []\<rparr>],
     ac_events = [], ac_focus_blocks = [], ac_slot_minutes = 60, ac_capacity_factor = 1,
     ac_timezone = ''UTC''\<rparr>"

text \<open>
  Overlapping windows are not merged: the same hour given twice becomes two free slots
  over the same time, each of which can be given to another task.
\<close>

theorem overlapping_windows_double_slots:
  "\<exists>s t. build_unique_slots utc_tzdb overlap_context = Inr [s, t] \<and> sl_state s = FREE \<and> sl_state t = FREE
    \<and> sl_start s = sl_start t \<and> sl_end s = sl_end t \<and> sl_id s \<noteq> sl_id t"
proof -
  let ?s = "\<lambda>n. \<lparr>sl_id = slot_id 0 n, sl_start = 0, sl_end = us_per_hour, sl_state = FREE\<rparr>"
  have w: "split_window 60 0 us_per_hour n = Inr ([?s (n + 1)], n + 1)" for n
    by (simp add: split_window.simps [of 60 0] split_window.simps [of 60 us_per_hour] minutes_delta_def)
  have sp: "split_windows 60 (ac_windows overlap_context) 0 = Inr [?s 1, ?s 2]"
    using w [of 0] w [of 1] by (simp add: overlap_context_def numeral_2_eq_2)
  have by_day: "slots_by_day (\<lambda>t. local_day utc_tzdb t ''UTC'') [?s 1, ?s 2] = [(0, [0, 1])]"
    by (simp add: slots_by_day_def local_day_def utc_tzdb_def utc_date_def dappend_def dget_def)
  have cap: "floor_to_slot (fmul (fl 120) 1) 60 = 120"
    using fl_of_int_exact [of 120] fl_of_int_exact [of 2]
    by (simp add: floor_to_slot_def fmul_def fdiv_def fround_def)
  have "apply_daily_capacity utc_tzdb [?s 1, ?s 2] 1 60 ''UTC'' = [?s 1, ?s 2]"
    unfolding apply_daily_capacity_def Let_def by_day
    by (simp add: dget_def cut_day_def sl_minutes_def minutes_between_def cap)
  then have "build_unique_slots utc_tzdb overlap_context = Inr [?s 1, ?s 2]"
    using sp by (simp add: build_unique_slots_def Let_def overlap_context_def
      fixed_event_intervals_def reserve_intervals_def)
  moreover have "slot_id 0 1 \<noteq> slot_id 0 2" using slot_id_inject [of 0 1 0 2] by auto
  ultimately show ?thesis by (intro exI [of _ "?s 1"] exI [of _ "?s 2"]) simp
qed

section \<open>When slot generation returns\<close>

lemma split_window_returns:
  "(\<exists>r. split_window slot cursor e n = Inr r) \<longleftrightarrow> 0 < minutes_delta slot \<or> e \<le> cursor"
proof (induction slot cursor e n rule: split_window.induct)
  case (1 slot cursor e n)
  show ?case
  proof (cases "cursor < e \<and> 0 < minutes_delta slot")
    case True
    then have "\<exists>r. split_window slot (min (cursor + minutes_delta slot) e) e (n + 1) = Inr r" using 1 by simp
    then obtain xs n' where "split_window slot (min (cursor + minutes_delta slot) e) e (n + 1) = Inr (xs, n')" by auto
    then show ?thesis using True by (subst split_window.simps) (simp add: Let_def)
  next
    case False
    then show ?thesis by (subst split_window.simps) auto
  qed
qed

lemma split_window_diverges: "split_window slot cursor e n = Inl x \<Longrightarrow> x = Diverges"
proof (induction slot cursor e n rule: split_window.induct)
  case (1 slot cursor e n)
  then show ?case by (subst (asm) (2) split_window.simps) (auto simp: Let_def split: if_splits sum.splits elim!: rbind.elims)
qed

text \<open>The pieces of a window: its length over the slot length, rounded up.\<close>

definition pieces_of :: "int \<Rightarrow> window \<Rightarrow> int" where
  "pieces_of slot w = (if aw_start w < aw_end w
     then (aw_end w - aw_start w + minutes_delta slot - 1) div minutes_delta slot else 0)"

lemma split_window_pieces:
  assumes "split_window slot cursor e n = Inr (xs, n')" and "0 < minutes_delta slot"
  shows "int (length xs) = (if cursor < e then (e - cursor + minutes_delta slot - 1) div minutes_delta slot else 0)"
  using assms
proof (induction slot cursor e n arbitrary: xs n' rule: split_window.induct)
  case (1 slot cursor e n)
  let ?d = "minutes_delta slot" and ?c = "min (cursor + minutes_delta slot) e"
  show ?case
  proof (cases "cursor < e")
    case True
    then obtain ys where ys: "split_window slot ?c e (n + 1) = Inr (ys, n')" "length xs = Suc (length ys)"
      using "1.prems" by (subst (asm) split_window.simps) (auto simp: Let_def res_simps)
    have count: "int (length ys) = (if ?c < e then (e - ?c + ?d - 1) div ?d else 0)"
      by (rule "1.IH") (use True ys "1.prems" in auto)
    show ?thesis
    proof (cases "cursor + ?d < e")
      case True
      have "(e - cursor + ?d - 1) div ?d = (e - (cursor + ?d) + ?d - 1) div ?d + 1"
        using "1.prems"(2) div_add_self2 [of ?d "e - cursor - 1"] by (simp add: algebra_simps)
      then show ?thesis using True count ys(2) \<open>cursor < e\<close> by simp
    next
      case False
      have "(e - cursor + ?d - 1) div ?d = 1"
        using False \<open>cursor < e\<close> by (intro int_div_pos_eq [where r = "e - cursor - 1"]) auto
      then show ?thesis using False count ys(2) \<open>cursor < e\<close> by simp
    qed
  next
    case False
    then show ?thesis using "1.prems" by (subst (asm) split_window.simps) simp
  qed
qed

lemma split_windows_returns:
  "(\<exists>xs. split_windows slot ws n = Inr xs) \<longleftrightarrow> 0 < minutes_delta slot \<or> (\<forall>w\<in>set ws. aw_end w \<le> aw_start w)"
proof (induction ws arbitrary: n)
  case (Cons w ws)
  show ?case
  proof (cases "\<exists>r. split_window slot (aw_start w) (aw_end w) n = Inr r")
    case True
    then obtain xs n' where r: "split_window slot (aw_start w) (aw_end w) n = Inr (xs, n')" by auto
    then have "0 < minutes_delta slot \<or> aw_end w \<le> aw_start w" using split_window_returns by blast
    moreover have "(\<exists>zs. split_windows slot (w # ws) n = Inr zs) \<longleftrightarrow> (\<exists>ys. split_windows slot ws n' = Inr ys)"
      by (auto simp: r res_simps)
    ultimately show ?thesis unfolding Cons.IH by auto
  next
    case False
    then have "\<not> (\<exists>zs. split_windows slot (w # ws) n = Inr zs)" by (auto simp: res_simps)
    then show ?thesis using False unfolding split_window_returns by auto
  qed
qed simp

lemma split_windows_diverges: "split_windows slot ws n = Inl x \<Longrightarrow> x = Diverges"
proof (induction ws arbitrary: n)
  case (Cons w ws)
  show ?case
  proof (cases "split_window slot (aw_start w) (aw_end w) n")
    case (Inl e)
    then show ?thesis using Cons.prems split_window_diverges by simp
  next
    case (Inr r)
    obtain xs n' where r: "r = (xs, n')" by fastforce
    show ?thesis using Cons by (cases "split_windows slot ws n'") (simp_all add: Inr r)
  qed
qed simp

lemma split_windows_pieces:
  assumes "split_windows slot ws n = Inr xs" and "0 < minutes_delta slot"
  shows "int (length xs) = sum_list (map (pieces_of slot) ws)"
  using assms
proof (induction ws arbitrary: n xs)
  case (Cons w ws)
  then obtain a n' b where "split_window slot (aw_start w) (aw_end w) n = Inr (a, n')" "split_windows slot ws n' = Inr b" "xs = a @ b"
    by (auto simp: res_simps)
  note parts = this
  have "int (length a) = pieces_of slot w" using split_window_pieces [OF parts(1) Cons.prems(2)] by (simp add: pieces_of_def)
  moreover have "int (length b) = sum_list (map (pieces_of slot) ws)" by (rule Cons.IH [OF parts(2) Cons.prems(2)])
  ultimately show ?case by (simp add: parts(3))
qed simp



end
