(* ===== verification/Priority.thy ===== *)
theory Priority
  imports Domain Floats
begin

text \<open>
  Priority classes and the tie-breaking tuple (\<open>scheduling/priority.py\<close>). Python compares
  tuples lexicographically, as \<open>Product_Lexorder\<close> does. The last component is the hex text
  of the task id, whose order is the order of the identifier (\<open>hex_key_task\<close>). The result:
  the order the scheduler works in does not depend on the order of its input, nor on the
  score of a language model.
\<close>

datatype priority_class = P0 | P1 | P2 | P3 | P4

fun priority_class_int :: "priority_class \<Rightarrow> int" where
  "priority_class_int P0 = 0"
| "priority_class_int P1 = 1"
| "priority_class_int P2 = 2"
| "priority_class_int P3 = 3"
| "priority_class_int P4 = 4"

fun importance_rank :: "importance_level \<Rightarrow> int" where
  "importance_rank PROTECTED = 0"
| "importance_rank IMPORTANT = 1"
| "importance_rank NORMAL = 2"
| "importance_rank OPTIONAL = 3"
| "importance_rank ON_HOLD = 4"

record schedulable_task =
  st_id :: task_id
  st_class :: priority_class
  st_must_start :: "instant option"
  st_deadline :: "instant option"
  st_unlock_count :: int
  st_external_commitment :: bool
  st_importance :: importance_level
  st_prior_position :: "int option"
  st_switch_penalty :: int
  st_created :: instant
  st_llm_score :: "rat option"
  st_kind :: string
  st_base :: int
  st_safety :: int
  st_splittable :: bool
  st_min_chunk :: int
  st_start_after :: "instant option"

definition initial_priority_class ::
    "bool \<Rightarrow> deadline_type \<Rightarrow> importance_level \<Rightarrow> bool \<Rightarrow> bool \<Rightarrow> bool \<Rightarrow> priority_class" where
  "initial_priority_class deadline_passed dtype importance synthetic_buffer routine exploration =
     (if deadline_passed then P0
      else if synthetic_buffer then P1
      else if dtype = HARD_DEADLINE \<or> dtype = EXTERNAL_COMMITMENT then P1
      else if routine then P3
      else if exploration \<or> importance = OPTIONAL \<or> importance = ON_HOLD then P4
      else P2)"

type_synonym priority_tuple =
  "int \<times> instant \<times> instant \<times> int \<times> int \<times> int \<times> int \<times> int \<times> instant \<times> task_id"

definition or_max :: "instant option \<Rightarrow> instant" where
  "or_max x = (case x of None \<Rightarrow> datetime_max | Some t \<Rightarrow> t)"

definition priority_key :: "schedulable_task \<Rightarrow> priority_tuple" where
  "priority_key t =
     (priority_class_int (st_class t),
      or_max (st_must_start t),
      or_max (st_deadline t),
      - st_unlock_count t,
      - (if st_external_commitment t then 1 else 0),
      importance_rank (st_importance t),
      (case st_prior_position t of None \<Rightarrow> 2 ^ 63 - 1 | Some p \<Rightarrow> p),
      st_switch_penalty t,
      st_created t,
      st_id t)"

lemma priority_key_id: "priority_key s = priority_key t \<Longrightarrow> st_id s = st_id t"
  by (simp add: priority_key_def)

lemma inj_on_priority_key: "distinct (map st_id xs) \<Longrightarrow> inj_on priority_key (set xs)"
  by (auto simp: inj_on_def distinct_map dest: priority_key_id)

lemma priority_key_class: "priority_key s \<le> priority_key t \<Longrightarrow> priority_class_int (st_class s) \<le> priority_class_int (st_class t)"
  by (auto simp: priority_key_def less_eq_prod_def)

lemma sort_key_map: "sort_key f (map g xs) = map g (sort_key (\<lambda>x. f (g x)) xs)"
proof -
  have ins: "insort_key f (g x) (map g ys) = map g (insort_key (\<lambda>x. f (g x)) x ys)" for x ys
    by (induction ys) auto
  show ?thesis by (induction xs) (simp_all add: ins sort_key_def)
qed

text \<open>
  For tasks with distinct ids the scheduling order is fixed: it is the same whatever
  order the tasks came in and whatever scores a language model gave them, it is a
  permutation of the tasks, and it takes the priority classes in order.
\<close>

theorem priority_order_deterministic:
  assumes "distinct (map st_id xs)" and "mset ys = mset (map (\<lambda>t. t\<lparr>st_llm_score := score t\<rparr>) xs)"
  shows "map st_id (sort_key priority_key ys) = map st_id (sort_key priority_key xs)
    \<and> mset (map st_id (sort_key priority_key ys)) = mset (map st_id xs)
    \<and> sorted (map (\<lambda>t. priority_class_int (st_class t)) (sort_key priority_key ys))"
proof -
  let ?g = "\<lambda>t. t\<lparr>st_llm_score := score t\<rparr>"
  have "distinct (map st_id (map ?g xs))" using assms(1) by (simp add: comp_def)
  then have inj: "inj_on priority_key (set (map ?g xs))" by (rule inj_on_priority_key)
  have score: "(\<lambda>t. priority_key (?g t)) = priority_key" by (simp add: priority_key_def fun_eq_iff)
  have "sort_key priority_key ys = sort_key priority_key (map ?g xs)"
    using sort_key_perm_eq [OF assms(2) [symmetric] inj] by simp
  also have "\<dots> = map ?g (sort_key priority_key xs)"
    unfolding sort_key_map using score by simp
  finally have eq: "sort_key priority_key ys = map ?g (sort_key priority_key xs)" .
  have "sorted (map priority_key zs) \<Longrightarrow> sorted (map (\<lambda>t. priority_class_int (st_class t)) zs)" for zs
    by (induction zs) (auto dest: priority_key_class)
  then have "sorted (map (\<lambda>t. priority_class_int (st_class t)) (sort_key priority_key ys))"
    by simp
  moreover have "mset (map st_id (map ?g (sort_key priority_key xs))) = mset (map st_id xs)"
    by (simp add: comp_def)
  ultimately show ?thesis by (simp add: eq comp_def)
qed

definition plain_task :: "task_id \<Rightarrow> priority_class \<Rightarrow> int \<Rightarrow> schedulable_task" where
  "plain_task t c minutes = \<lparr>st_id = t, st_class = c, st_must_start = None, st_deadline = None,
     st_unlock_count = 0, st_external_commitment = False, st_importance = NORMAL,
     st_prior_position = None, st_switch_penalty = 1, st_created = 0, st_llm_score = None,
     st_kind = ''TASK'', st_base = minutes, st_safety = minutes, st_splittable = True,
     st_min_chunk = 30, st_start_after = None\<rparr>"

lemma priority_order_deterministic_witness:
  "map st_id (sort_key priority_key
     [(plain_task (TaskId 2) P1 30)\<lparr>st_llm_score := Some 9\<rparr>, (plain_task (TaskId 1) P0 30)\<lparr>st_llm_score := Some 9\<rparr>])
   = map st_id (sort_key priority_key [plain_task (TaskId 1) P0 30, plain_task (TaskId 2) P1 30])"
  using priority_order_deterministic [of "[plain_task (TaskId 1) P0 30, plain_task (TaskId 2) P1 30]"
    "[(plain_task (TaskId 2) P1 30)\<lparr>st_llm_score := Some 9\<rparr>, (plain_task (TaskId 1) P0 30)\<lparr>st_llm_score := Some 9\<rparr>]"
    "\<lambda>_. Some 9"]
  by (simp add: plain_task_def)

end
