(* ===== verification/Graph_Analysis.thy ===== *)
theory Graph_Analysis
  imports Timing Scc Capacity Contracts
begin

text \<open>
  Graph analysis of an input (\<open>graph/build.py\<close>): blocked tasks, effective deadlines and
  milestone limits, backward timing, unlock counts, total demand and the latest safe
  handoff of every external dependency. The result: the analysis fails exactly when the
  dependency graph cannot be built, and it blocks exactly the tasks on a cycle.
\<close>

record external_dependency_risk =
  er_id :: external_dependency_id
  er_latest_safe_handoff :: "instant option"
  er_expected_delivery :: "instant option"
  er_fallback_available :: bool

record graph_analysis =
  ga_blocked :: "task_id list"
  ga_cycles :: "cycle_report list"
  ga_must_start :: "(task_id, instant) dict"
  ga_unlock_count :: "(task_id, nat) dict"
  ga_demand :: int
  ga_externals :: "external_dependency_risk list"

definition ready_to_schedule :: "graph_analysis \<Rightarrow> task_id \<Rightarrow> bool" where
  "ready_to_schedule a t \<longleftrightarrow> t \<notin> set (ga_blocked a)"

definition deadline_type_is_buffered :: "milestone \<Rightarrow> bool" where
  "deadline_type_is_buffered m \<longleftrightarrow>
     0 < mi_required_buffer m \<and> (mi_deadline_time_known m \<or> mi_deadline_date_known m)"

definition effective_deadline_from_task :: "tzdb \<Rightarrow> task \<Rightarrow> string \<Rightarrow> instant option" where
  "effective_deadline_from_task tz t name =
     (if ts_deadline_time_known t \<and> ts_deadline_at t \<noteq> None then ts_deadline_at t
      else map_option (zone_midnight (tz_zone tz name)) (ts_deadline_date t))"

definition milestone_limits :: "tzdb \<Rightarrow> string \<Rightarrow> milestone list \<Rightarrow> limits" where
  "milestone_limits tz name ms = fold (\<lambda>m limits.
     case ed_instant (effective_deadline tz m name) of
       None \<Rightarrow> limits
     | Some limit \<Rightarrow> AList.update (mi_id m)
         (if deadline_type_is_buffered m then limit - minutes_delta (mi_required_buffer m) else limit)
         limits) ms []"

definition schedulable_statuses :: "task_status list" where
  "schedulable_statuses = [DRAFT, PLANNED, READY, IN_PROGRESS, WAITING, BLOCKED, DEFERRED]"

definition timing_nodes :: "tzdb \<Rightarrow> string \<Rightarrow> task list \<Rightarrow> nodes" where
  "timing_nodes tz name ts = fold (\<lambda>t nodes. AList.update (ts_id t)
     \<lparr>tn_id = ts_id t, tn_safety = ts_safety_duration t, tn_status = ts_status t,
       tn_milestone = ts_milestone t, tn_deadline = effective_deadline_from_task tz t name\<rparr> nodes) ts []"

definition required_demand :: "task list \<Rightarrow> int" where
  "required_demand ts = sum_list (map ts_safety_duration
     (filter (\<lambda>t. ts_status t \<in> set schedulable_statuses) ts))"

text \<open>\<open>min(known_handoffs) if known_handoffs else None\<close>\<close>

definition opt_min :: "'a :: linorder list \<Rightarrow> 'a option" where
  "opt_min xs = (case xs of [] \<Rightarrow> None | y # ys \<Rightarrow> Some (fold min ys y))"

definition external_risk :: "timing_result \<Rightarrow> external_dependency \<Rightarrow> external_dependency_risk" where
  "external_risk timing x =
     (let handoffs = map (must_start_by timing)
            (filter (\<lambda>t. map_of (tr_must_start timing) t \<noteq> None) (ex_affected_tasks x));
          known = map the (filter (\<lambda>h. h \<noteq> None) handoffs)
      in \<lparr>er_id = ex_id x, er_latest_safe_handoff = opt_min known,
          er_expected_delivery = ex_expected_delivery x,
          er_fallback_available = ex_fallback_available x\<rparr>)"

definition build_graph_analysis :: "tzdb \<Rightarrow> planner_input \<Rightarrow> graph_analysis res" where
  "build_graph_analysis tz v =
     rbind (from_dependencies (in_dependencies v)) (\<lambda>graph.
     rbind (cycles graph) (\<lambda>cs.
     let reports = map cycle_report_of cs;
         blocked = remdups (concat (map cr_task_ids reports));
         limits = milestone_limits tz (in_timezone v) (in_milestones v);
         nodes = timing_nodes tz (in_timezone v) (in_tasks v)
     in rbind (backward_timing nodes graph limits (in_horizon_end v)) (\<lambda>timing.
     Inr \<lparr>ga_blocked = blocked, ga_cycles = reports, ga_must_start = tr_must_start timing,
       ga_unlock_count = unlock_counts nodes graph, ga_demand = required_demand (in_tasks v),
       ga_externals = map (external_risk timing) (in_externals v)\<rparr>)))"

section \<open>Lemmas\<close>

lemma opt_min_None [simp]: "opt_min xs = None \<longleftrightarrow> xs = []"
  by (simp add: opt_min_def split: list.splits)

lemma opt_min_Some: "opt_min xs = Some m \<Longrightarrow> m \<in> set xs \<and> (\<forall>x\<in>set xs. m \<le> x)"
proof -
  assume a: "opt_min xs = Some m"
  then obtain y ys where xs: "xs = y # ys" and m: "m = fold min ys y"
    by (auto simp: opt_min_def split: list.splits)
  then have "m = Min (set xs)" by (simp only: Min.set_eq_fold)
  then show ?thesis using xs Min_in [of "set xs"] by simp
qed

lemma schedulable_statuses_iff: "s \<in> set schedulable_statuses \<longleftrightarrow> \<not> closed_status s"
  by (cases s) (simp_all add: schedulable_statuses_def)

lemma timing_nodes_keys: "dom (map_of (timing_nodes tz name ts)) = ts_id ` set ts"
proof -
  have "dom (map_of (fold (\<lambda>t. AList.update (ts_id t) (f t)) ts d)) = ts_id ` set ts \<union> dom (map_of d)"
    for f and d :: nodes
    by (induction ts arbitrary: d) (auto simp: dict_simps)
  then show ?thesis by (simp add: timing_nodes_def)
qed

lemma must_start_total:
  assumes "backward_timing nodes g ml h = Inr r" and "map_of nodes t \<noteq> None"
  shows "map_of (tr_must_start r) t \<noteq> None"
proof -
  from assms(2) obtain n where "map_of nodes t = Some n" by blast
  with backward_timing_spec [of nodes g ml h] assms(1) show ?thesis by (auto simp: must_start_by_def)
qed

lemma must_start_dom:
  assumes "backward_timing nodes g ml h = Inr r"
  shows "dom (map_of (tr_must_start r)) = dom (map_of nodes)"
proof
  show "dom (map_of nodes) \<subseteq> dom (map_of (tr_must_start r))"
    using must_start_total [OF assms] by auto
  from assms obtain latest where "tr_must_start r = map (\<lambda>(t, n). (t, dget latest t 0 - minutes_delta (tn_safety n)))
         (filter (\<lambda>(t, n). map_of latest t \<noteq> None) nodes)"
    by (auto simp: backward_timing_def res_simps)
  then show "dom (map_of (tr_must_start r)) \<subseteq> dom (map_of nodes)"
    by (auto simp only: map_of_must_start split: option.splits)
qed

lemma external_risk_handoff:
  assumes "ex_affected_tasks x \<noteq> []" and "\<forall>t\<in>set (ex_affected_tasks x). map_of (tr_must_start r) t \<noteq> None"
  shows "\<exists>h. er_latest_safe_handoff (external_risk r x) = Some h
    \<and> (\<exists>t\<in>set (ex_affected_tasks x). map_of (tr_must_start r) t = Some h)
    \<and> (\<forall>t\<in>set (ex_affected_tasks x). \<forall>m. map_of (tr_must_start r) t = Some m \<longrightarrow> h \<le> m)"
proof -
  let ?hs = "map (\<lambda>t. the (map_of (tr_must_start r) t)) (ex_affected_tasks x)"
  have f: "filter (\<lambda>t. map_of (tr_must_start r) t \<noteq> None) (ex_affected_tasks x) = ex_affected_tasks x"
    using assms(2) by (simp only: filter_id_conv)
  have g: "filter (\<lambda>h. h \<noteq> None) (map (must_start_by r) (ex_affected_tasks x)) = map (must_start_by r) (ex_affected_tasks x)"
    using assms(2) by (auto simp only: filter_id_conv must_start_by_def set_map)
  have "er_latest_safe_handoff (external_risk r x) = opt_min ?hs"
    unfolding external_risk_def Let_def f g external_dependency_risk.simps
    by (simp add: must_start_by_def comp_def)
  moreover obtain h where h: "opt_min ?hs = Some h" using assms(1) by (cases "opt_min ?hs") auto
  moreover have "\<exists>t\<in>set (ex_affected_tasks x). map_of (tr_must_start r) t = Some h"
    using opt_min_Some [OF h] assms(2) by auto
  moreover have "h \<le> m" if t: "t \<in> set (ex_affected_tasks x)" "map_of (tr_must_start r) t = Some m" for t m
  proof -
    have "m \<in> set ?hs" using t by (metis (mono_tags, lifting) image_eqI list.set_map option.sel)
    with opt_min_Some [OF h] show ?thesis by blast
  qed
  ultimately show ?thesis by auto
qed

text \<open>The fields of a successful analysis.\<close>

lemma build_graph_analysis_result:
  assumes "\<forall>d\<in>set (in_dependencies v). tid_value (dp_predecessor d) \<noteq> 0"
  shows "\<exists>a r. build_graph_analysis tz v = Inr a
    \<and> backward_timing (timing_nodes tz (in_timezone v) (in_tasks v)) (mk_graph (in_dependencies v))
         (milestone_limits tz (in_timezone v) (in_milestones v)) (in_horizon_end v) = Inr r
    \<and> ga_must_start a = tr_must_start r \<and> ga_externals a = map (external_risk r) (in_externals v)
    \<and> (\<forall>t. t \<in> set (ga_blocked a) \<longleftrightarrow> (t, t) \<in> (dep_rel (mk_graph (in_dependencies v)))\<^sup>+)"
proof -
  let ?g = "mk_graph (in_dependencies v)"
  have g: "from_dependencies (in_dependencies v) = Inr ?g"
    using assms by (auto simp: from_dependencies_def check_dependencies_result)
  obtain cs where cs: "cycles ?g = Inr cs" "\<forall>t. t \<in> set (concat cs) \<longleftrightarrow> (t, t) \<in> (dep_rel ?g)\<^sup>+"
    using cycles_spec [of ?g] by blast
  obtain r where r: "backward_timing (timing_nodes tz (in_timezone v) (in_tasks v)) ?g
      (milestone_limits tz (in_timezone v) (in_milestones v)) (in_horizon_end v) = Inr r"
    using backward_timing_spec by blast
  have "map cr_task_ids (map cycle_report_of cs) = cs"
    by (simp add: cycle_report_of_def comp_def)
  then show ?thesis using g cs r
    by (simp add: build_graph_analysis_def Let_def del: set_concat map_map)
qed

text \<open>
  When no dependency has the nil predecessor, the analysis of a well-formed input
  succeeds. It blocks exactly the tasks on a dependency cycle, gives a latest start to
  exactly the input's tasks, and takes as the safe handoff of an external dependency the
  earliest latest start among the tasks it affects.
\<close>

theorem build_graph_analysis_correct:
  assumes "wf_input tz v" and "\<forall>x\<in>set (in_externals v). ex_affected_tasks x \<noteq> []"
    and "\<forall>d\<in>set (in_dependencies v). tid_value (dp_predecessor d) \<noteq> 0"
  shows "\<exists>a. build_graph_analysis tz v = Inr a
    \<and> (\<forall>t. ready_to_schedule a t \<longleftrightarrow> (t, t) \<notin> (dep_rel (mk_graph (in_dependencies v)))\<^sup>+)
    \<and> dom (map_of (ga_must_start a)) = ts_id ` set (in_tasks v)
    \<and> map er_id (ga_externals a) = map ex_id (in_externals v)
    \<and> (\<forall>i<length (in_externals v). \<exists>h. er_latest_safe_handoff (ga_externals a ! i) = Some h
         \<and> (\<exists>t\<in>set (ex_affected_tasks (in_externals v ! i)). map_of (ga_must_start a) t = Some h)
         \<and> (\<forall>t\<in>set (ex_affected_tasks (in_externals v ! i)).
              \<forall>m. map_of (ga_must_start a) t = Some m \<longrightarrow> h \<le> m))"
proof -
  from build_graph_analysis_result [OF assms(3), of tz] obtain a r where
    a: "build_graph_analysis tz v = Inr a"
    and r: "backward_timing (timing_nodes tz (in_timezone v) (in_tasks v)) (mk_graph (in_dependencies v))
         (milestone_limits tz (in_timezone v) (in_milestones v)) (in_horizon_end v) = Inr r"
    and ms: "ga_must_start a = tr_must_start r" and ext: "ga_externals a = map (external_risk r) (in_externals v)"
    and bl: "\<forall>t. t \<in> set (ga_blocked a) \<longleftrightarrow> (t, t) \<in> (dep_rel (mk_graph (in_dependencies v)))\<^sup>+"
    by blast
  have dm: "dom (map_of (ga_must_start a)) = ts_id ` set (in_tasks v)"
    unfolding ms must_start_dom [OF r] by (rule timing_nodes_keys)
  have "\<exists>h. er_latest_safe_handoff (ga_externals a ! i) = Some h
         \<and> (\<exists>t\<in>set (ex_affected_tasks (in_externals v ! i)). map_of (ga_must_start a) t = Some h)
         \<and> (\<forall>t\<in>set (ex_affected_tasks (in_externals v ! i)).
              \<forall>m. map_of (ga_must_start a) t = Some m \<longrightarrow> h \<le> m)" if i: "i < length (in_externals v)" for i
  proof -
    let ?x = "in_externals v ! i"
    have x: "?x \<in> set (in_externals v)" using i by simp
    have "set (ex_affected_tasks ?x) \<subseteq> ts_id ` set (in_tasks v)"
      using assms(1) x by (auto simp: wf_input_def known_task_ids_def)
    then have "\<forall>t\<in>set (ex_affected_tasks ?x). map_of (tr_must_start r) t \<noteq> None"
      using dm unfolding ms by blast
    from external_risk_handoff [OF _ this] assms(2) x i show ?thesis by (simp add: ms ext)
  qed
  moreover have "map er_id (ga_externals a) = map ex_id (in_externals v)"
    by (simp add: ext external_risk_def Let_def)
  ultimately show ?thesis using a bl dm by (auto simp: ready_to_schedule_def)
qed

lemma build_graph_analysis_correct_witness:
  "\<exists>a. build_graph_analysis utc_tzdb small_input = Inr a
    \<and> dom (map_of (ga_must_start a)) = {TaskId 1, TaskId 2}"
  using build_graph_analysis_correct [OF small_input_wf] by (force simp: small_defs)

end
