(* ===== verification/Ledger.thy ===== *)
theory Ledger
  imports Slots Priority
begin

text \<open>
  The slot ledger of one pass (\<open>SlotLedger\<close> of \<open>scheduling/serial.py\<close>): slots sorted by
  start, each free or owned. The interface the scheduler relies on is the locale
  \<open>slot_book\<close>: what is free after a claim and who owns it. Its client lemmas say that a
  sequence of claims of free slots never gives a slot to two owners; the ledger is an
  instance.
\<close>

section \<open>The interface\<close>

locale slot_book =
  fixes free :: "'l \<Rightarrow> 'id set"
    and owner :: "'l \<Rightarrow> 'id \<Rightarrow> 'o option"
    and claim :: "'id list \<Rightarrow> 'o \<Rightarrow> 'l \<Rightarrow> 'l"
  assumes free_claim: "free (claim ids w l) = free l - set ids"
    and owner_claim: "i \<in> free l \<Longrightarrow> i \<in> set ids \<Longrightarrow> owner (claim ids w l) i = Some w"
    and owner_claim_other: "i \<notin> set ids \<Longrightarrow> owner (claim ids w l) i = owner l i"
begin

text \<open>A sequence of claims, each of slots that are free when it is made.\<close>

fun serves :: "'l \<Rightarrow> ('id list \<times> 'o) list \<Rightarrow> 'l \<Rightarrow> bool" where
  "serves l [] l' = (l' = l)"
| "serves l ((ids, w) # cs) l' = (distinct ids \<and> set ids \<subseteq> free l \<and> serves (claim ids w l) cs l')"

lemma serves_append: "serves l (cs @ ds) l'' \<longleftrightarrow> (\<exists>l'. serves l cs l' \<and> serves l' ds l'')"
  by (induction l cs l'' rule: serves.induct) auto

lemma serves_free: "serves l cs l' \<Longrightarrow> free l' = free l - set (concat (map fst cs))"
  by (induction l cs l' rule: serves.induct) (auto simp: free_claim)

lemma serves_free_ids: "serves l cs l' \<Longrightarrow> set (concat (map fst cs)) \<subseteq> free l"
  by (induction l cs l' rule: serves.induct) (auto simp: free_claim)

lemma serves_distinct: "serves l cs l' \<Longrightarrow> distinct (concat (map fst cs))"
proof (induction l cs l' rule: serves.induct)
  case (2 l ids w cs l')
  then show ?case using serves_free_ids [of "claim ids w l" cs l'] by (auto simp: free_claim)
qed simp

lemma serves_owner_other:
  "serves l cs l' \<Longrightarrow> i \<notin> set (concat (map fst cs)) \<Longrightarrow> owner l' i = owner l i"
  by (induction l cs l' rule: serves.induct) (auto simp: owner_claim_other)

lemma serves_owner:
  "serves l cs l' \<Longrightarrow> (ids, w) \<in> set cs \<Longrightarrow> i \<in> set ids \<Longrightarrow> owner l' i = Some w"
proof (induction l cs l' rule: serves.induct)
  case (2 l js v cs l')
  show ?case
  proof (cases "(ids, w) \<in> set cs")
    case True
    then show ?thesis using 2 by simp
  next
    case False
    with 2 have eq: "ids = js" "w = v" by auto
    have "i \<notin> set (concat (map fst cs))"
      using 2(2,4) serves_free_ids [of "claim js v l" cs l'] eq by (auto simp: free_claim)
    then show ?thesis using 2 eq serves_owner_other [of "claim js v l" cs l' i] owner_claim by auto
  qed
qed simp

end

section \<open>The ledger\<close>

record ledger_slot =
  ls_id :: string
  ls_start :: instant
  ls_end :: instant
  ls_free :: bool
  ls_owner :: "task_id option"

type_synonym ledger = "ledger_slot list"

definition ls_minutes :: "ledger_slot \<Rightarrow> int" where
  "ls_minutes s = minutes_between (ls_start s) (ls_end s)"

definition new_ledger :: "slot list \<Rightarrow> ledger" where
  "new_ledger slots = map (\<lambda>s. \<lparr>ls_id = sl_id s, ls_start = sl_start s, ls_end = sl_end s,
     ls_free = sl_is_free s, ls_owner = None\<rparr>) (sort_key sl_start slots)"

definition free_slots :: "ledger \<Rightarrow> ledger_slot list" where
  "free_slots l = filter ls_free l"

definition allocate :: "string list \<Rightarrow> task_id \<Rightarrow> ledger \<Rightarrow> ledger" where
  "allocate ids w l = map (\<lambda>s. if ls_id s \<in> set ids then s\<lparr>ls_free := False, ls_owner := Some w\<rparr> else s) l"

definition reserve_interval :: "instant \<Rightarrow> instant \<Rightarrow> task_id \<Rightarrow> ledger \<Rightarrow> ledger" where
  "reserve_interval a b w l =
     allocate (map ls_id (filter (\<lambda>s. ls_free s \<and> ls_start s < b \<and> a < ls_end s) l)) w l"

definition owned_minutes :: "task_id \<Rightarrow> ledger \<Rightarrow> int" where
  "owned_minutes w l = sum_list (map ls_minutes (filter (\<lambda>s. ls_owner s = Some w) l))"

fun runs_from :: "ledger_slot list \<Rightarrow> ledger_slot list \<Rightarrow> ledger_slot list list" where
  "runs_from current [] = (if current = [] then [] else [current])"
| "runs_from current (s # ss) =
     (if current = [] then runs_from [s] ss
      else if ls_end (last current) = ls_start s then runs_from (current @ [s]) ss
      else current # runs_from [s] ss)"

definition contiguous_runs :: "ledger_slot list \<Rightarrow> ledger_slot list list" where
  "contiguous_runs ss = runs_from [] ss"

definition run_minutes :: "ledger_slot list \<Rightarrow> int" where
  "run_minutes run = sum_list (map ls_minutes run)"

section \<open>The ledger is a slot book\<close>

definition free_ids :: "ledger \<Rightarrow> string set" where
  "free_ids l = {i. \<exists>s\<in>set l. ls_id s = i} - {i. \<exists>s\<in>set l. ls_id s = i \<and> \<not> ls_free s}"

definition owner_of :: "ledger \<Rightarrow> string \<Rightarrow> task_id option" where
  "owner_of l i = (case filter (\<lambda>s. ls_id s = i) l of [] \<Rightarrow> None | s # _ \<Rightarrow> ls_owner s)"

lemma allocate_Cons:
  "allocate ids w (s # l) = (if ls_id s \<in> set ids then s\<lparr>ls_free := False, ls_owner := Some w\<rparr> else s) # allocate ids w l"
  by (simp add: allocate_def)

lemma free_ids_allocate: "free_ids (allocate ids w l) = free_ids l - set ids"
  by (auto simp: free_ids_def allocate_def split: if_splits)

lemma filter_allocate:
  "filter (\<lambda>s. ls_id s = i) (allocate ids w l) =
     map (\<lambda>s. if i \<in> set ids then s\<lparr>ls_free := False, ls_owner := Some w\<rparr> else s) (filter (\<lambda>s. ls_id s = i) l)"
  by (induction l) (auto simp: allocate_def)

interpretation book: slot_book free_ids owner_of allocate
proof
  show "free_ids (allocate ids w l) = free_ids l - set ids" for ids w l
    by (rule free_ids_allocate)
  show "owner_of (allocate ids w l) i = Some w" if "i \<in> free_ids l" "i \<in> set ids" for i l ids w
  proof -
    from that(1) have "filter (\<lambda>s. ls_id s = i) l \<noteq> []" by (auto simp: free_ids_def filter_empty_conv)
    then show ?thesis using that(2)
      by (cases "filter (\<lambda>s. ls_id s = i) l") (simp_all add: owner_of_def filter_allocate)
  qed
  show "owner_of (allocate ids w l) i = owner_of l i" if "i \<notin> set ids" for i ids w l
    using that by (simp add: owner_of_def filter_allocate)
qed

text \<open>Allocation leaves the slots' ids and times alone.\<close>

definition ls_shape :: "ledger_slot \<Rightarrow> string \<times> instant \<times> instant" where
  "ls_shape s = (ls_id s, ls_start s, ls_end s)"

lemma allocate_shape [simp]: "map ls_shape (allocate ids w l) = map ls_shape l"
  by (simp add: allocate_def ls_shape_def)

lemma free_slots_allocate: "free_slots (allocate ids w l) = filter (\<lambda>s. ls_id s \<notin> set ids) (free_slots l)"
  by (induction l) (auto simp: free_slots_def allocate_def)

lemma free_slots_ids: "distinct (map ls_id l) \<Longrightarrow> set (map ls_id (free_slots l)) = free_ids l"
proof -
  assume d: "distinct (map ls_id l)"
  have "ls_free s" if "s \<in> set l" "t \<in> set l" "ls_free t" "ls_id s = ls_id t" for s t
    using that d by (metis distinct_map inj_onD)
  then show ?thesis by (auto simp: free_slots_def free_ids_def)
qed

lemma set_new_ledger: "set (new_ledger slots) = (\<lambda>s. \<lparr>ls_id = sl_id s, ls_start = sl_start s, ls_end = sl_end s,
     ls_free = sl_is_free s, ls_owner = None\<rparr>) ` set slots"
  by (simp add: new_ledger_def)

lemma new_ledger_sorted: "sorted (map ls_start (new_ledger slots))"
  by (simp add: new_ledger_def comp_def)

lemma new_ledger_ids: "distinct (map sl_id slots) \<Longrightarrow> distinct (map ls_id (new_ledger slots))"
proof -
  assume d: "distinct (map sl_id slots)"
  have "mset (map sl_id (sort_key sl_start slots)) = mset (map sl_id slots)" by simp
  from mset_eq_imp_distinct_iff [OF this] d have "distinct (map sl_id (sort_key sl_start slots))" by (rule iffD2)
  then show ?thesis by (simp add: new_ledger_def comp_def)
qed

section \<open>Runs\<close>

text \<open>A run is an uninterrupted stretch of time.\<close>

fun contiguous :: "ledger_slot list \<Rightarrow> bool" where
  "contiguous [] = True"
| "contiguous [s] = True"
| "contiguous (s # t # ss) = (ls_end s = ls_start t \<and> contiguous (t # ss))"

lemma contiguous_snoc: "xs \<noteq> [] \<Longrightarrow> contiguous xs \<Longrightarrow> ls_end (last xs) = ls_start s \<Longrightarrow> contiguous (xs @ [s])"
  by (induction xs rule: contiguous.induct) auto

lemma runs_from_concat: "concat (runs_from current ss) = current @ ss"
  by (induction current ss rule: runs_from.induct) auto

lemma runs_from_contiguous:
  "contiguous current \<Longrightarrow> r \<in> set (runs_from current ss) \<Longrightarrow> contiguous r \<and> r \<noteq> []"
  by (induction current ss rule: runs_from.induct) (auto simp: contiguous_snoc split: if_splits)

lemma contiguous_runs_concat: "concat (contiguous_runs ss) = ss"
  by (simp add: contiguous_runs_def runs_from_concat)

lemma contiguous_runs_contiguous: "r \<in> set (contiguous_runs ss) \<Longrightarrow> contiguous r \<and> r \<noteq> []"
  unfolding contiguous_runs_def by (rule runs_from_contiguous) simp_all

end
