(* ===== verification/Placement.thy ===== *)
theory Placement
  imports Ledger
begin

text \<open>
  Placing one task (\<open>_place_task\<close> of \<open>scheduling/serial.py\<close>): repeated passes over the
  contiguous runs of free slots, each placing at most one chunk per run. The outer
  \<open>while\<close> loop ends because a pass that places something claims a free slot. The runs of
  a pass are computed once, before it, as in the source.
\<close>

section \<open>The code\<close>

definition MAX_CHUNKS_PER_DAY :: int where
  "MAX_CHUNKS_PER_DAY = 3"

record placement =
  pl_ledger :: ledger
  pl_remaining :: int
  pl_allocs :: "task_allocation list"
  pl_chunk :: int
  pl_day_chunks :: "(date, int) dict"

text \<open>The loops that collect slots until \<open>take\<close> minutes are reached.\<close>

fun take_slots :: "int \<Rightarrow> int \<Rightarrow> ledger_slot list \<Rightarrow> ledger_slot list \<times> int" where
  "take_slots n acc [] = ([], acc)"
| "take_slots n acc (s # ss) =
     (let acc' = acc + ls_minutes s in
      if n \<le> acc' then ([s], acc')
      else (case take_slots n acc' ss of (xs, a) \<Rightarrow> (s # xs, a)))"

definition effective_start :: "instant option \<Rightarrow> ledger_slot list \<Rightarrow> instant" where
  "effective_start earliest run = (case earliest of
     None \<Rightarrow> ls_start (hd run)
   | Some e \<Rightarrow> if e < ls_end (last run) then max (ls_start (hd run)) e else ls_start (hd run))"

text \<open>One turn of \<open>for run in runs\<close>; \<open>None\<close> is \<open>continue\<close>.\<close>

definition place_run :: "schedulable_task \<Rightarrow> string \<Rightarrow> instant option \<Rightarrow> ledger_slot list
    \<Rightarrow> placement \<Rightarrow> placement option res" where
  "place_run t pass earliest run p =
     (let eff = effective_start earliest run;
          available = run_minutes (filter (\<lambda>s. eff < ls_end s) run);
          minimum_chunk = min (st_min_chunk t) (pl_remaining p);
          day = utc_date (ls_start (hd run))
      in if available \<le> 0 then Inr None
      else if available < minimum_chunk then Inr None
      else if \<not> st_splittable t \<and> available < pl_remaining p then Inr None
      else if st_splittable t \<and> MAX_CHUNKS_PER_DAY \<le> dget (pl_day_chunks p) day 0 then Inr None
      else (let n = (if st_splittable t then min available (pl_remaining p) else pl_remaining p);
                selected = fst (take_slots n 0 (filter (\<lambda>s. \<not> ls_end s \<le> eff) run));
                trimmed = fst (take_slots n 0 selected);
                acc = snd (take_slots n 0 selected)
        in if trimmed = [] then Inl IndexError
        else (let ids = map ls_id trimmed; start = ls_start (hd trimmed); e = ls_end (last trimmed)
          in rbind (pass_type_of pass) (\<lambda>pt.
             rbind (mk_allocation \<lparr>al_task = st_id t, al_pass = pt, al_start = start, al_end = e,
               al_chunk = pl_chunk p, al_kind = st_kind t, al_slots = ids\<rparr>) (\<lambda>a.
             Inr (Some \<lparr>pl_ledger = allocate ids (st_id t) (pl_ledger p),
               pl_remaining = pl_remaining p - acc, pl_allocs = pl_allocs p @ [a],
               pl_chunk = pl_chunk p + 1,
               pl_day_chunks = AList.update (utc_date start)
                 (dget (pl_day_chunks p) (utc_date start) 0 + 1) (pl_day_chunks p)\<rparr>))))))"

fun place_runs :: "schedulable_task \<Rightarrow> string \<Rightarrow> instant option \<Rightarrow> ledger_slot list list
    \<Rightarrow> placement \<Rightarrow> bool \<Rightarrow> (bool \<times> placement) res" where
  "place_runs t pass earliest [] p placed = Inr (placed, p)"
| "place_runs t pass earliest (run # runs) p placed =
     rbind (place_run t pass earliest run p) (\<lambda>r. case r of
       None \<Rightarrow> place_runs t pass earliest runs p placed
     | Some p' \<Rightarrow> if pl_remaining p' \<le> 0 then Inr (True, p')
         else place_runs t pass earliest runs p' True)"

definition usable_runs :: "instant option \<Rightarrow> ledger \<Rightarrow> ledger_slot list list" where
  "usable_runs earliest l = filter (\<lambda>run. case earliest of None \<Rightarrow> True | Some e \<Rightarrow> e < ls_end (last run))
     (contiguous_runs (free_slots l))"

section \<open>Every pass that places claims a free slot\<close>

lemma take_slots_prefix:
  "\<exists>rest. xs = fst (take_slots n acc xs) @ rest \<and> snd (take_slots n acc xs) = acc + run_minutes (fst (take_slots n acc xs))"
proof (induction xs arbitrary: acc)
  case Nil
  show ?case by (simp add: run_minutes_def)
next
  case (Cons s xs)
  from Cons.IH [of "acc + ls_minutes s"] show ?case
    by (auto simp: Let_def run_minutes_def split: prod.splits)
qed

lemma take_slots_subset: "set (fst (take_slots n acc xs)) \<subseteq> set xs"
  using take_slots_prefix [of xs n acc] by (metis Un_upper1 set_append)

lemma take_slots_enough:
  "acc < n \<Longrightarrow> n \<le> acc + run_minutes xs \<Longrightarrow> n \<le> snd (take_slots n acc xs)"
proof (induction xs arbitrary: acc)
  case (Cons s xs)
  show ?case
  proof (cases "n \<le> acc + ls_minutes s")
    case False
    then have "n \<le> snd (take_slots n (acc + ls_minutes s) xs)"
      using Cons.IH [of "acc + ls_minutes s"] Cons.prems by (simp add: run_minutes_def)
    then show ?thesis using False by (auto simp: Let_def split: prod.splits)
  qed simp
qed (simp add: run_minutes_def)

text \<open>What one chunk is: a segment of the run, in the ledger and in the allocation.\<close>

lemma place_run_Some:
  assumes "place_run t pass earliest run p = Inr (Some p')"
  shows "\<exists>seg rest pt. seg \<noteq> [] \<and> filter (\<lambda>s. effective_start earliest run < ls_end s) run = seg @ rest
    \<and> pass_type_of pass = Inr pt \<and> ls_start (hd seg) < ls_end (last seg) \<and> 0 \<le> pl_chunk p
    \<and> pl_ledger p' = allocate (map ls_id seg) (st_id t) (pl_ledger p)
    \<and> pl_remaining p' = pl_remaining p - run_minutes seg \<and> pl_chunk p' = pl_chunk p + 1
    \<and> (\<not> st_splittable t \<longrightarrow> 0 < pl_remaining p \<longrightarrow> pl_remaining p' \<le> 0)
    \<and> pl_allocs p' = pl_allocs p @ [\<lparr>al_task = st_id t, al_pass = pt, al_start = ls_start (hd seg),
        al_end = ls_end (last seg), al_chunk = pl_chunk p, al_kind = st_kind t, al_slots = map ls_id seg\<rparr>]"
proof -
  define xs where "xs = filter (\<lambda>s. effective_start earliest run < ls_end s) run"
  have flt: "filter (\<lambda>s. \<not> ls_end s \<le> effective_start earliest run) run = xs"
    by (simp add: xs_def not_le)
  define n where "n = (if st_splittable t then min (run_minutes xs) (pl_remaining p) else pl_remaining p)"
  define sel where "sel = fst (take_slots n 0 xs)"
  define seg where "seg = fst (take_slots n 0 sel)"
  obtain r1 where r1: "xs = sel @ r1" using take_slots_prefix [of xs n 0] by (auto simp: sel_def)
  obtain r2 where r2: "sel = seg @ r2" "snd (take_slots n 0 sel) = run_minutes seg"
    using take_slots_prefix [of sel n 0] by (auto simp: seg_def)
  have "pl_remaining p \<le> run_minutes seg"
    if "\<not> st_splittable t" "0 < pl_remaining p" "pl_remaining p \<le> run_minutes xs"
  proof -
    have "n \<le> run_minutes sel"
      using take_slots_enough [of 0 n xs] take_slots_prefix [of xs n 0] that by (simp add: n_def sel_def)
    then show ?thesis using take_slots_enough [of 0 n sel] r2(2) that by (simp add: n_def)
  qed
  moreover from assms obtain pt where "seg \<noteq> []" "pass_type_of pass = Inr pt"
    "\<not> st_splittable t \<longrightarrow> pl_remaining p \<le> run_minutes xs"
    "ls_start (hd seg) < ls_end (last seg)" "0 \<le> pl_chunk p"
    "p' = \<lparr>pl_ledger = allocate (map ls_id seg) (st_id t) (pl_ledger p),
       pl_remaining = pl_remaining p - run_minutes seg,
       pl_allocs = pl_allocs p @ [\<lparr>al_task = st_id t, al_pass = pt, al_start = ls_start (hd seg),
        al_end = ls_end (last seg), al_chunk = pl_chunk p, al_kind = st_kind t, al_slots = map ls_id seg\<rparr>],
       pl_chunk = pl_chunk p + 1,
       pl_day_chunks = AList.update (utc_date (ls_start (hd seg)))
         (dget (pl_day_chunks p) (utc_date (ls_start (hd seg))) 0 + 1) (pl_day_chunks p)\<rparr>"
    unfolding place_run_def Let_def flt xs_def [symmetric] n_def [symmetric] sel_def [symmetric]
      seg_def [symmetric] r2(2)
    by (auto simp: res_simps mk_allocation_iff split: if_splits)
  ultimately show ?thesis using r1 r2(1) unfolding xs_def [symmetric] by auto
qed

lemma length_free_allocate: "length (free_slots (allocate ids w l)) \<le> length (free_slots l)"
  by (simp add: free_slots_allocate)

lemma length_free_allocate_less:
  "s \<in> set (free_slots l) \<Longrightarrow> ls_id s \<in> set ids \<Longrightarrow> length (free_slots (allocate ids w l)) < length (free_slots l)"
  unfolding free_slots_allocate by (rule length_filter_less [of s]) simp_all

lemma place_run_free:
  assumes "place_run t pass earliest run p = Inr (Some p')"
  shows "length (free_slots (pl_ledger p')) \<le> length (free_slots (pl_ledger p))"
    and "set run \<subseteq> set (free_slots (pl_ledger p)) \<Longrightarrow>
      length (free_slots (pl_ledger p')) < length (free_slots (pl_ledger p))"
proof -
  from place_run_Some [OF assms] obtain seg rest where
    seg: "seg \<noteq> []" "filter (\<lambda>s. effective_start earliest run < ls_end s) run = seg @ rest"
    and l: "pl_ledger p' = allocate (map ls_id seg) (st_id t) (pl_ledger p)" by blast
  show "length (free_slots (pl_ledger p')) \<le> length (free_slots (pl_ledger p))"
    unfolding l by (rule length_free_allocate)
  assume "set run \<subseteq> set (free_slots (pl_ledger p))"
  moreover have "hd seg \<in> set run" using seg
    by (metis UnCI filter_is_subset hd_in_set set_append subset_eq)
  ultimately show "length (free_slots (pl_ledger p')) < length (free_slots (pl_ledger p))"
    unfolding l using seg(1) by (intro length_free_allocate_less [of "hd seg"]) auto
qed

lemma place_runs_free:
  "place_runs t pass earliest runs p b = Inr (b', p') \<Longrightarrow>
     length (free_slots (pl_ledger p')) \<le> length (free_slots (pl_ledger p))"
proof (induction runs arbitrary: p b)
  case (Cons run runs)
  from Cons.prems obtain r where r: "place_run t pass earliest run p = Inr r"
    by (auto simp: res_simps)
  show ?case
  proof (cases r)
    case None
    with r Cons show ?thesis by simp
  next
    case (Some p1)
    then have "length (free_slots (pl_ledger p1)) \<le> length (free_slots (pl_ledger p))"
      using place_run_free(1) r by simp
    then show ?thesis using Cons.prems r Some Cons.IH [of p1 True]
      by (auto split: if_splits)
  qed
qed simp

lemma place_runs_free_less:
  "place_runs t pass earliest runs p False = Inr (True, p') \<Longrightarrow>
     \<forall>run\<in>set runs. set run \<subseteq> set (free_slots (pl_ledger p)) \<Longrightarrow>
     length (free_slots (pl_ledger p')) < length (free_slots (pl_ledger p))"
proof (induction runs)
  case (Cons run runs)
  from Cons.prems(1) obtain r where r: "place_run t pass earliest run p = Inr r"
    by (auto simp: res_simps)
  show ?case
  proof (cases r)
    case None
    with r Cons show ?thesis by simp
  next
    case (Some p1)
    then have "length (free_slots (pl_ledger p1)) < length (free_slots (pl_ledger p))"
      using place_run_free(2) r Cons.prems(2) by simp
    moreover have "p' = p1 \<or> place_runs t pass earliest runs p1 True = Inr (True, p')"
      using Cons.prems(1) r Some by (simp split: if_splits)
    then have "length (free_slots (pl_ledger p')) \<le> length (free_slots (pl_ledger p1))"
      using place_runs_free by blast
    ultimately show ?thesis by simp
  qed
qed simp

lemma usable_runs_free: "run \<in> set (usable_runs e l) \<Longrightarrow> set run \<subseteq> set (free_slots l)"
proof -
  assume "run \<in> set (usable_runs e l)"
  then have "set run \<subseteq> set (concat (contiguous_runs (free_slots l)))"
    by (auto simp: usable_runs_def)
  then show ?thesis by (simp only: contiguous_runs_concat)
qed

section \<open>The loop\<close>

function place_loop :: "schedulable_task \<Rightarrow> string \<Rightarrow> instant option \<Rightarrow> placement \<Rightarrow> placement res" where
  "place_loop t pass earliest p =
     (if 0 < pl_remaining p then
        rbind (place_runs t pass earliest (usable_runs earliest (pl_ledger p)) p False) (\<lambda>(placed, p').
          if placed then place_loop t pass earliest p' else Inr p')
      else Inr p)"
  by pat_completeness auto
termination
proof (relation "measure (\<lambda>(t, pass, earliest, p). length (free_slots (pl_ledger p)))", goal_cases)
  case (2 t pass earliest p x placed p')
  then have "place_runs t pass earliest (usable_runs earliest (pl_ledger p)) p False = Inr (True, p')"
    by simp
  from place_runs_free_less [OF this] usable_runs_free show ?case by simp
qed simp

declare place_loop.simps [simp del]

text \<open>\<open>earliest\<close>: the later of the task's own \<open>start_after\<close> and the caller's bound.\<close>

definition earliest_of :: "instant option \<Rightarrow> instant option \<Rightarrow> instant option" where
  "earliest_of start_after bound = (case bound of
     None \<Rightarrow> start_after
   | Some b \<Rightarrow> (case start_after of None \<Rightarrow> Some b | Some e \<Rightarrow> if e < b then Some b else Some e))"

definition place_task :: "ledger \<Rightarrow> schedulable_task \<Rightarrow> int \<Rightarrow> string \<Rightarrow> instant option
    \<Rightarrow> (task_allocation list \<times> ledger) res" where
  "place_task l t required pass bound =
     rbind (place_loop t pass (earliest_of (st_start_after t) bound)
       \<lparr>pl_ledger = l, pl_remaining = required, pl_allocs = [], pl_chunk = 0, pl_day_chunks = []\<rparr>)
       (\<lambda>p. Inr (pl_allocs p, pl_ledger p))"

section \<open>Segments\<close>

abbreviation positive :: "ledger_slot list \<Rightarrow> bool" where
  "positive ss \<equiv> \<forall>s\<in>set ss. ls_start s < ls_end s"

lemma contiguous_append: "contiguous (xs @ ys) \<Longrightarrow> contiguous xs \<and> contiguous ys"
proof (induction xs rule: contiguous.induct)
  case (2 s)
  then show ?case by (cases ys) auto
qed auto

lemma contiguous_after:
  "contiguous (s # ss) \<Longrightarrow> positive (s # ss) \<Longrightarrow> t \<in> set ss \<Longrightarrow> ls_end s \<le> ls_start t"
proof (induction ss arbitrary: s)
  case (Cons u us)
  show ?case
  proof (cases "t = u")
    case False
    then have "ls_end u \<le> ls_start t" using Cons by simp
    moreover have "ls_end s = ls_start u" "ls_start u < ls_end u" using Cons.prems by auto
    ultimately show ?thesis by simp
  qed (use Cons.prems in simp)
qed simp

lemma contiguous_distinct: "contiguous ss \<Longrightarrow> positive ss \<Longrightarrow> distinct ss"
proof (induction ss)
  case (Cons s ss)
  have "s \<notin> set ss" using contiguous_after [of s ss s] Cons.prems by force
  moreover have "contiguous ss" using contiguous_append [of "[s]" ss] Cons.prems(1) by simp
  ultimately show ?case using Cons by simp
qed simp

lemma contiguous_filter_end:
  "contiguous ss \<Longrightarrow> positive ss \<Longrightarrow> contiguous (filter (\<lambda>s. e < ls_end s) ss)"
proof (induction ss)
  case (Cons s ss)
  have c: "contiguous ss" using contiguous_append [of "[s]" ss] Cons.prems(1) by simp
  show ?case
  proof (cases "e < ls_end s")
    case True
    have "e < ls_end t" if "t \<in> set ss" for t
      using contiguous_after [OF Cons.prems that] Cons.prems(2) that True by force
    then have "filter (\<lambda>s. e < ls_end s) (s # ss) = s # ss" using True by (simp add: filter_id_conv)
    then show ?thesis using Cons.prems(1) by simp
  next
    case False
    then show ?thesis using Cons.IH c Cons.prems(2) by simp
  qed
qed simp

lemma contiguous_span:
  "contiguous ss \<Longrightarrow> positive ss \<Longrightarrow> ss \<noteq> [] \<Longrightarrow>
     ls_start (hd ss) < ls_end (last ss) \<and> run_minutes ss \<le> minutes_between (ls_start (hd ss)) (ls_end (last ss))"
proof (induction ss rule: contiguous.induct)
  case (2 s)
  then show ?case by (simp add: run_minutes_def ls_minutes_def)
next
  case (3 s t ss)
  then have "ls_start t < ls_end (last (t # ss))"
    "run_minutes (t # ss) \<le> minutes_between (ls_start t) (ls_end (last (t # ss)))" by auto
  moreover have "ls_end s = ls_start t" "ls_start s < ls_end s" using 3 by auto
  ultimately show ?case using minutes_between_split [of "ls_start s" "ls_end s" "ls_end (last (t # ss))"]
    by (simp add: run_minutes_def ls_minutes_def)
qed simp

lemma distinct_ids_subset:
  "distinct (map ls_id l) \<Longrightarrow> set seg \<subseteq> set l \<Longrightarrow> distinct seg \<Longrightarrow> distinct (map ls_id seg)"
  by (metis distinct_map inj_on_subset)

section \<open>What placing a task guarantees\<close>

text \<open>
  An allocation taken from the free slots of a ledger: a segment of adjacent slots, none of
  which ends before the bound.
\<close>

definition seg_alloc :: "ledger \<Rightarrow> instant option \<Rightarrow> task_allocation \<Rightarrow> bool" where
  "seg_alloc l earliest a \<longleftrightarrow> (\<exists>seg. seg \<noteq> [] \<and> set seg \<subseteq> set (free_slots l) \<and> contiguous seg
     \<and> al_slots a = map ls_id seg \<and> al_start a = ls_start (hd seg) \<and> al_end a = ls_end (last seg)
     \<and> (\<forall>s\<in>set seg. \<forall>e. earliest = Some e \<longrightarrow> e < ls_end s))"

abbreviation claim_of :: "task_allocation \<Rightarrow> string list \<times> task_id" where
  "claim_of a \<equiv> (al_slots a, al_task a)"

definition placed_ok :: "ledger \<Rightarrow> schedulable_task \<Rightarrow> instant option \<Rightarrow> int \<Rightarrow> placement \<Rightarrow> bool" where
  "placed_ok l t earliest required p \<longleftrightarrow>
     map ls_shape (pl_ledger p) = map ls_shape l \<and> distinct (map ls_id (pl_ledger p))
     \<and> set (free_slots (pl_ledger p)) \<subseteq> set (free_slots l)
     \<and> book.serves l (map claim_of (pl_allocs p)) (pl_ledger p)
     \<and> (\<forall>a\<in>set (pl_allocs p). al_task a = st_id t \<and> al_kind a = st_kind t \<and> seg_alloc l earliest a)
     \<and> 0 \<le> pl_chunk p
     \<and> required - pl_remaining p \<le> sum_list (map al_minutes (pl_allocs p))"

lemma seg_alloc_mono: "seg_alloc l' e a \<Longrightarrow> set (free_slots l') \<subseteq> set (free_slots l) \<Longrightarrow> seg_alloc l e a"
  by (auto simp: seg_alloc_def)

lemma take_slots_nonempty: "xs \<noteq> [] \<Longrightarrow> fst (take_slots n acc xs) \<noteq> []"
  by (cases xs) (auto simp: Let_def split: prod.splits)

lemma place_run_ok:
  assumes inv: "placed_ok l t earliest required p" and pos: "positive l"
    and run: "run \<noteq> []" "contiguous run" "set run \<subseteq> set (free_slots (pl_ledger p))"
    and use: "\<And>e. earliest = Some e \<Longrightarrow> e < ls_end (last run)"
    and pt: "pass_type_of pass = Inr pt"
  shows "\<exists>r. place_run t pass earliest run p = Inr r \<and> (\<forall>p'. r = Some p' \<longrightarrow>
    placed_ok l t earliest required p'
    \<and> (\<forall>s\<in>set (free_slots (pl_ledger p)). ls_id s \<notin> ls_id ` set run \<longrightarrow> s \<in> set (free_slots (pl_ledger p'))))"
proof -
  have fl: "set (free_slots (pl_ledger p)) \<subseteq> set (free_slots l)" using inv by (simp add: placed_ok_def)
  then have posr: "positive run" using run(3) pos by (force simp: free_slots_def)
  define xs where "xs = filter (\<lambda>s. effective_start earliest run < ls_end s) run"
  have cxs: "contiguous xs" "set xs \<subseteq> set run" "positive xs"
    using contiguous_filter_end [OF run(2) posr] posr by (auto simp: xs_def)
  have seg: "ls_start (hd seg) < ls_end (last seg) \<and> run_minutes seg \<le> minutes_between (ls_start (hd seg)) (ls_end (last seg))
      \<and> contiguous seg \<and> distinct (map ls_id seg) \<and> set seg \<subseteq> set run"
    if "xs = seg @ rest" "seg \<noteq> []" for seg rest
  proof -
    have c: "contiguous seg" "positive seg" "set seg \<subseteq> set run"
      using that cxs contiguous_append [of seg rest] by auto
    have "set seg \<subseteq> set (pl_ledger p)" using c(3) run(3) by (auto simp: free_slots_def)
    moreover have "distinct (map ls_id (pl_ledger p))" using inv by (simp add: placed_ok_def)
    ultimately have "distinct (map ls_id seg)"
      using distinct_ids_subset contiguous_distinct [OF c(1,2)] by blast
    then show ?thesis using contiguous_span [OF c(1,2) that(2)] c by simp
  qed
  have ok: "\<exists>r. place_run t pass earliest run p = Inr r"
  proof -
    define n where "n = (if st_splittable t then min (run_minutes xs) (pl_remaining p) else pl_remaining p)"
    define sg where "sg = fst (take_slots n 0 (fst (take_slots n 0 xs)))"
    have flt: "filter (\<lambda>s. \<not> ls_end s \<le> effective_start earliest run) run = xs"
      by (simp add: xs_def not_le)
    obtain rest where sgx: "xs = sg @ rest"
      using take_slots_prefix [of xs n 0] take_slots_prefix [of "fst (take_slots n 0 xs)" n 0]
      unfolding sg_def by (metis append.assoc)
    have ck: "0 \<le> pl_chunk p" using inv by (simp add: placed_ok_def)
    have ne: "sg \<noteq> []" if "\<not> run_minutes xs \<le> 0"
    proof -
      have "xs \<noteq> []" using that by (auto simp: run_minutes_def)
      then show ?thesis unfolding sg_def by (intro take_slots_nonempty)
    qed
    have mk: "mk_allocation \<lparr>al_task = st_id t, al_pass = pt, al_start = ls_start (hd sg), al_end = ls_end (last sg),
               al_chunk = pl_chunk p, al_kind = st_kind t, al_slots = map ls_id sg\<rparr> =
             Inr \<lparr>al_task = st_id t, al_pass = pt, al_start = ls_start (hd sg), al_end = ls_end (last sg),
               al_chunk = pl_chunk p, al_kind = st_kind t, al_slots = map ls_id sg\<rparr>" if "sg \<noteq> []"
      using seg [OF sgx that] ck by (simp add: mk_allocation_iff)
    show ?thesis
      unfolding place_run_def Let_def flt xs_def [symmetric] n_def [symmetric] sg_def [symmetric]
      using mk pt ne by auto
  qed
  then obtain r where r: "place_run t pass earliest run p = Inr r" by blast
  have "placed_ok l t earliest required p'
      \<and> (\<forall>s\<in>set (free_slots (pl_ledger p)). ls_id s \<notin> ls_id ` set run \<longrightarrow> s \<in> set (free_slots (pl_ledger p')))"
    if r': "r = Some p'" for p'
  proof -
    from place_run_Some [OF r [unfolded r']] obtain sg rest pt' where
      sg: "sg \<noteq> []" "xs = sg @ rest"
      and l': "pl_ledger p' = allocate (map ls_id sg) (st_id t) (pl_ledger p)"
      and rem: "pl_remaining p' = pl_remaining p - run_minutes sg" and ch: "pl_chunk p' = pl_chunk p + 1"
      and al: "pl_allocs p' = pl_allocs p @ [\<lparr>al_task = st_id t, al_pass = pt', al_start = ls_start (hd sg),
        al_end = ls_end (last sg), al_chunk = pl_chunk p, al_kind = st_kind t, al_slots = map ls_id sg\<rparr>]"
      unfolding xs_def by blast
    note s = seg [OF sg(2,1)]
    have "free_ids (pl_ledger p) = ls_id ` set (free_slots (pl_ledger p))"
      using inv free_slots_ids [of "pl_ledger p"] by (simp add: placed_ok_def)
    moreover have "set sg \<subseteq> set (free_slots (pl_ledger p))" using s run(3) by blast
    ultimately have ids: "set (map ls_id sg) \<subseteq> free_ids (pl_ledger p)" by auto
    have bound: "e < ls_end u" if "u \<in> set sg" "earliest = Some e" for u e
    proof -
      have "u \<in> set xs" using that(1) sg(2) by simp
      then have "effective_start earliest run < ls_end u" by (simp add: xs_def)
      moreover have "e \<le> effective_start earliest run"
        using use [OF that(2)] that(2) by (simp add: effective_start_def)
      ultimately show ?thesis by simp
    qed
    have sa: "seg_alloc l earliest \<lparr>al_task = st_id t, al_pass = pt', al_start = ls_start (hd sg),
        al_end = ls_end (last sg), al_chunk = pl_chunk p, al_kind = st_kind t, al_slots = map ls_id sg\<rparr>"
      unfolding seg_alloc_def using sg(1) s run(3) fl bound by (intro exI [of _ sg]) auto
    have "map ls_id (pl_ledger p') = map ls_id (pl_ledger p)"
      unfolding l' by (simp add: allocate_def)
    then have "placed_ok l t earliest required p'"
      using inv s sa ids unfolding placed_ok_def l' rem ch al
      by (auto simp: book.serves_append free_slots_allocate al_minutes_def)
    moreover have "u \<in> set (free_slots (pl_ledger p'))"
      if "u \<in> set (free_slots (pl_ledger p))" "ls_id u \<notin> ls_id ` set run" for u
      using that s unfolding l' by (auto simp: free_slots_allocate)
    ultimately show ?thesis by blast
  qed
  then show ?thesis using r by blast
qed

lemma place_runs_ok:
  assumes "positive l" and "pass_type_of pass = Inr pt"
  shows "placed_ok l t earliest required p \<Longrightarrow> distinct (map ls_id (concat runs)) \<Longrightarrow>
    \<forall>run\<in>set runs. run \<noteq> [] \<and> contiguous run \<and> set run \<subseteq> set (free_slots (pl_ledger p))
      \<and> (\<forall>e. earliest = Some e \<longrightarrow> e < ls_end (last run)) \<Longrightarrow>
    \<exists>b' p'. place_runs t pass earliest runs p b = Inr (b', p') \<and> placed_ok l t earliest required p'"
proof (induction runs arbitrary: p b)
  case (Cons run runs)
  from place_run_ok [OF Cons.prems(1) assms(1) _ _ _ _ assms(2), of run] Cons.prems(3) obtain r where
    r: "place_run t pass earliest run p = Inr r" and
    p1: "\<And>p'. r = Some p' \<Longrightarrow> placed_ok l t earliest required p' \<and>
      (\<forall>s\<in>set (free_slots (pl_ledger p)). ls_id s \<notin> ls_id ` set run \<longrightarrow> s \<in> set (free_slots (pl_ledger p')))"
    by auto
  have d: "distinct (map ls_id (concat runs))" using Cons.prems(2) by simp
  show ?case
  proof (cases r)
    case None
    then show ?thesis using r Cons.IH [OF Cons.prems(1) d] Cons.prems(3) by simp
  next
    case (Some p')
    have inv': "placed_ok l t earliest required p'" using p1 [OF Some] by simp
    have "set u \<subseteq> set (free_slots (pl_ledger p'))" if "u \<in> set runs" for u
    proof
      fix s assume s: "s \<in> set u"
      then have "s \<in> set (concat runs)" using that by auto
      then have "ls_id s \<notin> ls_id ` set run" using Cons.prems(2) by auto
      moreover have "s \<in> set (free_slots (pl_ledger p))" using Cons.prems(3) that s by auto
      ultimately show "s \<in> set (free_slots (pl_ledger p'))" using p1 [OF Some] by blast
    qed
    then show ?thesis using r Some inv' Cons.IH [OF inv' d] Cons.prems(3)
      by (cases "pl_remaining p' \<le> 0") auto
  qed
qed simp

lemma concat_filter_distinct:
  "distinct (map f (concat xss)) \<Longrightarrow> distinct (map f (concat (filter P xss)))"
  by (induction xss) auto

lemma usable_runs_ok:
  assumes "distinct (map ls_id l)"
  shows "distinct (map ls_id (concat (usable_runs earliest l)))
    \<and> (\<forall>run\<in>set (usable_runs earliest l). run \<noteq> [] \<and> contiguous run \<and> set run \<subseteq> set (free_slots l)
      \<and> (\<forall>e. earliest = Some e \<longrightarrow> e < ls_end (last run)))"
proof -
  have "distinct (map ls_id (free_slots l))"
    unfolding free_slots_def using assms by (simp add: distinct_map_filter)
  then have "distinct (map ls_id (concat (contiguous_runs (free_slots l))))"
    by (simp only: contiguous_runs_concat)
  then have "distinct (map ls_id (concat (usable_runs earliest l)))"
    unfolding usable_runs_def by (rule concat_filter_distinct)
  moreover have "run \<noteq> [] \<and> contiguous run \<and> set run \<subseteq> set (free_slots l)
      \<and> (\<forall>e. earliest = Some e \<longrightarrow> e < ls_end (last run))" if run: "run \<in> set (usable_runs earliest l)" for run
  proof -
    from run have "run \<in> set (contiguous_runs (free_slots l))"
      "case earliest of None \<Rightarrow> True | Some e \<Rightarrow> e < ls_end (last run)" by (auto simp: usable_runs_def)
    with contiguous_runs_contiguous usable_runs_free [OF run] show ?thesis by fastforce
  qed
  ultimately show ?thesis by blast
qed

lemma place_loop_ok:
  assumes "positive l" and "pass_type_of pass = Inr pt"
  shows "placed_ok l t earliest required p \<Longrightarrow>
    \<exists>p'. place_loop t pass earliest p = Inr p' \<and> placed_ok l t earliest required p'"
proof (induction "length (free_slots (pl_ledger p))" arbitrary: p rule: less_induct)
  case less
  show ?case
  proof (cases "0 < pl_remaining p")
    case True
    have d: "distinct (map ls_id (pl_ledger p))" using less.prems by (simp add: placed_ok_def)
    from place_runs_ok [OF assms less.prems, of "usable_runs earliest (pl_ledger p)" False] usable_runs_ok [OF d]
    obtain b' p' where r: "place_runs t pass earliest (usable_runs earliest (pl_ledger p)) p False = Inr (b', p')"
      "placed_ok l t earliest required p'" by blast
    show ?thesis
    proof (cases b')
      case True
      with r(1) have "place_runs t pass earliest (usable_runs earliest (pl_ledger p)) p False = Inr (True, p')" by simp
      from place_runs_free_less [OF this] usable_runs_free
      have "length (free_slots (pl_ledger p')) < length (free_slots (pl_ledger p))" by blast
      from less.hyps [OF this r(2)] show ?thesis
        using \<open>0 < pl_remaining p\<close> r(1) True by (simp add: place_loop.simps [of t pass earliest p])
    next
      case False
      then show ?thesis using \<open>0 < pl_remaining p\<close> r by (simp add: place_loop.simps [of t pass earliest p])
    qed
  next
    case False
    then show ?thesis using less.prems by (simp add: place_loop.simps [of t pass earliest p])
  qed
qed

lemma place_task_ok:
  assumes pos: "positive l" and d: "distinct (map ls_id l)" and pt: "pass_type_of pass = Inr pt"
  shows "\<exists>as l'. place_task l t required pass bound = Inr (as, l')
    \<and> map ls_shape l' = map ls_shape l \<and> distinct (map ls_id l') \<and> set (free_slots l') \<subseteq> set (free_slots l)
    \<and> book.serves l (map claim_of as) l'
    \<and> (\<forall>a\<in>set as. al_task a = st_id t \<and> al_kind a = st_kind t
         \<and> seg_alloc l (earliest_of (st_start_after t) bound) a)"
proof -
  let ?p = "\<lparr>pl_ledger = l, pl_remaining = required, pl_allocs = [], pl_chunk = 0, pl_day_chunks = []\<rparr>"
  have "placed_ok l t (earliest_of (st_start_after t) bound) required ?p"
    using d by (simp add: placed_ok_def)
  from place_loop_ok [OF pos pt this] show ?thesis
    by (auto simp: place_task_def placed_ok_def)
qed

section \<open>Tasks that may not be split\<close>

definition available_minutes :: "instant option \<Rightarrow> ledger_slot list \<Rightarrow> int" where
  "available_minutes earliest run = run_minutes (filter (\<lambda>s. effective_start earliest run < ls_end s) run)"

lemma place_run_refused:
  assumes "place_run t pass earliest run p = Inr None" and "\<not> st_splittable t" and "0 < pl_remaining p"
  shows "available_minutes earliest run < pl_remaining p"
  using assms unfolding place_run_def available_minutes_def Let_def
  by (auto simp: res_simps split: if_splits)

lemma place_runs_whole:
  assumes "\<not> st_splittable t"
  shows "0 < pl_remaining p \<Longrightarrow> place_runs t pass earliest runs p b = Inr (b', p') \<Longrightarrow>
    (p' = p \<and> b' = b \<and> (\<forall>run\<in>set runs. available_minutes earliest run < pl_remaining p))
    \<or> (b' \<and> pl_remaining p' \<le> 0 \<and> length (pl_allocs p') = Suc (length (pl_allocs p)))"
proof (induction runs)
  case (Cons run runs)
  from Cons.prems(2) obtain r where r: "place_run t pass earliest run p = Inr r"
    by (auto simp: res_simps)
  show ?case
  proof (cases r)
    case None
    with r have "available_minutes earliest run < pl_remaining p"
      using place_run_refused assms Cons.prems(1) by blast
    then show ?thesis using Cons r None by auto
  next
    case (Some p1)
    from place_run_Some [OF r [unfolded Some]] assms Cons.prems(1)
    have "pl_remaining p1 \<le> 0 \<and> length (pl_allocs p1) = Suc (length (pl_allocs p))" by auto
    then show ?thesis using Cons.prems(2) r Some by auto
  qed
qed simp

lemma place_loop_whole:
  assumes "\<not> st_splittable t" and "0 < pl_remaining p" and "place_loop t pass earliest p = Inr p'"
  shows "(p' = p \<and> (\<forall>run\<in>set (usable_runs earliest (pl_ledger p)). available_minutes earliest run < pl_remaining p))
    \<or> (pl_remaining p' \<le> 0 \<and> length (pl_allocs p') = Suc (length (pl_allocs p)))"
proof -
  from assms(2,3) obtain b p1 where
    r: "place_runs t pass earliest (usable_runs earliest (pl_ledger p)) p False = Inr (b, p1)"
    and rest: "(if b then place_loop t pass earliest p1 else Inr p1) = Inr p'"
    by (auto simp: place_loop.simps [of t pass earliest p] res_simps)
  from place_runs_whole [OF assms(1,2) r] show ?thesis
  proof
    assume a: "b \<and> pl_remaining p1 \<le> 0 \<and> length (pl_allocs p1) = Suc (length (pl_allocs p))"
    then have "place_loop t pass earliest p1 = Inr p1" by (simp add: place_loop.simps [of t pass earliest p1])
    with a rest show ?thesis by simp
  qed (use rest in auto)
qed

lemma pass_type_of_Inr: "pass \<in> {''base'', ''safety''} \<Longrightarrow> \<exists>pt. pass_type_of pass = Inr pt"
  by (auto simp: pass_type_of_def)

text \<open>
  Placing a task on a ledger with distinct slot ids never raises. Every chunk is a
  segment of adjacent free slots and lasts exactly from the start of the first to the end
  of the last, each ending after the earliest start; no slot is used twice, every slot
  used is owned by the task afterwards, and exactly those slots stop being free.
\<close>

theorem place_task_sound:
  assumes "\<forall>s\<in>set l. ls_start s < ls_end s" and "distinct (map ls_id l)"
    and "pass \<in> {''base'', ''safety''}"
  shows "\<exists>as l'. place_task l t required pass bound = Inr (as, l')
    \<and> (\<forall>a\<in>set as. al_task a = st_id t \<and> seg_alloc l (earliest_of (st_start_after t) bound) a
         \<and> (\<forall>i\<in>set (al_slots a). owner_of l' i = Some (st_id t)))
    \<and> distinct (concat (map al_slots as))
    \<and> free_ids l' = free_ids l - set (concat (map al_slots as))"
proof -
  obtain pt where pt: "pass_type_of pass = Inr pt" using pass_type_of_Inr [OF assms(3)] by blast
  from place_task_ok [OF assms(1,2) pt, of t required bound] obtain as l' where
    r: "place_task l t required pass bound = Inr (as, l')"
    and s: "book.serves l (map claim_of as) l'"
    and a: "\<forall>a\<in>set as. al_task a = st_id t \<and> al_kind a = st_kind t \<and> seg_alloc l (earliest_of (st_start_after t) bound) a"
    by blast
  have c: "concat (map fst (map claim_of as)) = concat (map al_slots as)" by (simp add: comp_def)
  have "owner_of l' i = Some (st_id t)" if "x \<in> set as" "i \<in> set (al_slots x)" for x i
  proof -
    have "(al_slots x, st_id t) \<in> set (map claim_of as)" using that(1) a by force
    from book.serves_owner [OF s this that(2)] show ?thesis .
  qed
  then show ?thesis using r a book.serves_distinct [OF s] book.serves_free [OF s] unfolding c by blast
qed

text \<open>A ledger of three slots of half an hour, the last one after a gap.\<close>

definition sample_ledger :: ledger where
  "sample_ledger = map (\<lambda>(i, a). \<lparr>ls_id = i, ls_start = minutes_delta a, ls_end = minutes_delta (a + 30),
     ls_free = True, ls_owner = None\<rparr>) [(''a'', 0), (''b'', 30), (''c'', 90)]"

lemma place_task_sound_witness:
  "\<exists>as l'. place_task sample_ledger (plain_task (TaskId 1) P2 75) 75 ''base'' None = Inr (as, l')
    \<and> distinct (concat (map al_slots as))"
  using place_task_sound [of sample_ledger "''base''" "plain_task (TaskId 1) P2 75" 75 None]
  by (auto simp: sample_ledger_def minutes_delta_def)

lemma sample_placement:
  "(case place_task sample_ledger (plain_task (TaskId 1) P2 75) 75 ''base'' None of
     Inr (as, l') \<Rightarrow> map (\<lambda>a. (al_slots a, al_start a, al_end a, al_chunk a)) as | Inl e \<Rightarrow> [])
   = [([''a'', ''b''], 0, us_per_hour, 0), ([''c''], 90 * us_per_minute, 2 * us_per_hour, 1)]"
  by code_simp

text \<open>
  A task that may not be split is placed whole or not at all, and it is left out only
  when no run of free slots that ends late enough offers the minutes it needs.
\<close>

theorem place_task_unsplit:
  assumes "\<forall>s\<in>set l. ls_start s < ls_end s" and "distinct (map ls_id l)"
    and "pass \<in> {''base'', ''safety''}" and "\<not> st_splittable t" and "0 < required"
    and "place_task l t required pass bound = Inr (as, l')"
  shows "(as = [] \<and> l' = l \<and> (\<forall>run\<in>set (usable_runs (earliest_of (st_start_after t) bound) l).
      available_minutes (earliest_of (st_start_after t) bound) run < required))
    \<or> (\<exists>a. as = [a] \<and> required \<le> al_minutes a)"
proof -
  let ?e = "earliest_of (st_start_after t) bound"
  let ?p = "\<lparr>pl_ledger = l, pl_remaining = required, pl_allocs = [], pl_chunk = 0, pl_day_chunks = []\<rparr>"
  obtain pt where pt: "pass_type_of pass = Inr pt" using pass_type_of_Inr [OF assms(3)] by blast
  from assms(6) obtain p where p: "place_loop t pass ?e ?p = Inr p" "as = pl_allocs p" "l' = pl_ledger p"
    by (auto simp: place_task_def res_simps)
  have "placed_ok l t ?e required ?p" using assms(2) by (simp add: placed_ok_def)
  from place_loop_ok [OF assms(1) pt this] p(1) have ok: "placed_ok l t ?e required p" by auto
  have "0 < pl_remaining ?p" using assms(5) by simp
  from place_loop_whole [OF assms(4) this p(1)] show ?thesis
  proof (elim disjE)
    assume "pl_remaining p \<le> 0 \<and> length (pl_allocs p) = Suc (length (pl_allocs ?p))"
    then obtain a where "pl_allocs p = [a]" "pl_remaining p \<le> 0" by (auto simp: length_Suc_conv)
    then show ?thesis using ok p(2) by (auto simp: placed_ok_def)
  qed (use p in auto)
qed

lemma place_task_unsplit_witness:
  "(\<forall>run\<in>set (usable_runs None sample_ledger). available_minutes None run < 75)
    \<or> (\<exists>a. fst (case place_task sample_ledger ((plain_task (TaskId 1) P2 75)\<lparr>st_splittable := False\<rparr>) 75 ''base'' None of
        Inr r \<Rightarrow> r | Inl e \<Rightarrow> ([], [])) = [a] \<and> 75 \<le> al_minutes a)"
proof -
  let ?t = "(plain_task (TaskId 1) P2 75)\<lparr>st_splittable := False\<rparr>"
  have pos: "\<forall>s\<in>set sample_ledger. ls_start s < ls_end s" and d: "distinct (map ls_id sample_ledger)"
    by (simp_all add: sample_ledger_def minutes_delta_def)
  from place_task_ok [OF pos d pass_type_of_value [of BASE], of ?t 75 None] obtain as l' where
    r: "place_task sample_ledger ?t 75 ''base'' None = Inr (as, l')" by auto
  from place_task_unsplit [OF pos d _ _ _ r] r show ?thesis
    by (auto simp: earliest_of_def plain_task_def)
qed

section \<open>Bounds on the start\<close>

lemma seg_alloc_start:
  assumes "seg_alloc l (Some e) a" and "\<forall>s\<in>set l. \<not> (ls_start s < e \<and> e < ls_end s)"
  shows "e \<le> al_start a"
proof -
  from assms(1) obtain seg where seg: "seg \<noteq> []" "set seg \<subseteq> set (free_slots l)"
    "al_start a = ls_start (hd seg)" "\<forall>s\<in>set seg. e < ls_end s" by (auto simp: seg_alloc_def)
  have h: "hd seg \<in> set seg" using seg(1) by simp
  then have "hd seg \<in> set (free_slots l)" using seg(2) by blast
  then have "hd seg \<in> set l" by (simp add: free_slots_def)
  with assms(2) seg(3,4) h show ?thesis by force
qed

text \<open>
  When no slot straddles the earliest start, every chunk starts at or after it: the
  task's own \<open>start_after\<close> and the completion of its predecessors are respected.
\<close>

theorem place_task_starts_late_enough:
  assumes "\<forall>s\<in>set l. ls_start s < ls_end s" and "distinct (map ls_id l)"
    and "pass \<in> {''base'', ''safety''}"
    and "earliest_of (st_start_after t) bound = Some e"
    and "\<forall>s\<in>set l. \<not> (ls_start s < e \<and> e < ls_end s)"
    and "place_task l t required pass bound = Inr (as, l')" and "a \<in> set as"
  shows "e \<le> al_start a"
proof -
  obtain pt where pt: "pass_type_of pass = Inr pt" using pass_type_of_Inr [OF assms(3)] by blast
  from place_task_ok [OF assms(1,2) pt, of t required bound] assms(6,7) have
    "seg_alloc l (earliest_of (st_start_after t) bound) a" by auto
  then show ?thesis using seg_alloc_start assms(4,5) by simp
qed

lemma place_task_starts_late_enough_witness:
  "\<exists>as l'. place_task sample_ledger (plain_task (TaskId 1) P2 30) 30 ''base'' (Some (30 * us_per_minute)) = Inr (as, l')
    \<and> (\<forall>a\<in>set as. 30 * us_per_minute \<le> al_start a)"
proof -
  have pos: "\<forall>s\<in>set sample_ledger. ls_start s < ls_end s" and d: "distinct (map ls_id sample_ledger)"
    by (simp_all add: sample_ledger_def minutes_delta_def)
  from place_task_ok [OF pos d pass_type_of_value [of BASE], of "plain_task (TaskId 1) P2 30" 30 "Some (30 * us_per_minute)"]
  obtain as l' where r: "place_task sample_ledger (plain_task (TaskId 1) P2 30) 30 ''base'' (Some (30 * us_per_minute)) = Inr (as, l')"
    by auto
  have e: "earliest_of (st_start_after (plain_task (TaskId 1) P2 30)) (Some (30 * us_per_minute)) = Some (30 * us_per_minute)"
    by (simp add: earliest_of_def plain_task_def)
  have al: "\<forall>s\<in>set sample_ledger. \<not> (ls_start s < 30 * us_per_minute \<and> 30 * us_per_minute < ls_end s)"
    by (simp add: sample_ledger_def minutes_delta_def)
  from place_task_starts_late_enough [OF pos d _ e al r] r show ?thesis by auto
qed

text \<open>
  When a slot straddles it, the bound is not respected: a task that may start from
  quarter past on is placed on the hour, because the whole slot is taken.
\<close>

theorem start_after_inside_slot:
  "\<exists>a l'. place_task sample_ledger ((plain_task (TaskId 1) P2 30)\<lparr>st_start_after := Some (15 * us_per_minute)\<rparr>)
     30 ''base'' None = Inr ([a], l') \<and> al_start a = 0"
proof -
  let ?r = "place_task sample_ledger ((plain_task (TaskId 1) P2 30)\<lparr>st_start_after := Some (15 * us_per_minute)\<rparr>) 30 ''base'' None"
  have "map_option (\<lambda>(as, l'). map al_start as) (case ?r of Inr r \<Rightarrow> Some r | Inl e \<Rightarrow> None) = Some [0]"
    by code_simp
  then show ?thesis by (auto split: sum.splits)
qed

section \<open>The cap on chunks per day\<close>

text \<open>
  A run that crosses midnight, and three hours of the next day, each of them apart from the
  others.
\<close>

definition midnight_ledger :: ledger where
  "midnight_ledger = map (\<lambda>(i, a, b). \<lparr>ls_id = i, ls_start = minutes_delta a, ls_end = minutes_delta b,
     ls_free = True, ls_owner = None\<rparr>)
     [(''a'', 1410, 1440), (''b'', 1440, 1470), (''c'', 1500, 1560), (''d'', 1620, 1680), (''e'', 1740, 1800)]"

text \<open>
  The cap of three chunks a day can be passed: the check counts the day on which the
  free run starts, while the chunk is counted for the day on which it starts itself. A
  task that may start at midnight gets a fourth chunk on that day.
\<close>

theorem chunk_cap_exceeded:
  "\<exists>as l'. place_task midnight_ledger ((plain_task (TaskId 1) P2 210)\<lparr>st_min_chunk := 60\<rparr>) 210 ''base'' (Some us_per_day)
      = Inr (as, l') \<and> length (filter (\<lambda>a. utc_date (al_start a) = 1) as) = 4 \<and> MAX_CHUNKS_PER_DAY = 3"
proof -
  let ?r = "place_task midnight_ledger ((plain_task (TaskId 1) P2 210)\<lparr>st_min_chunk := 60\<rparr>) 210 ''base'' (Some us_per_day)"
  have "map_option (\<lambda>(as, l'). length (filter (\<lambda>a. utc_date (al_start a) = 1) as)) (case ?r of Inr r \<Rightarrow> Some r | Inl e \<Rightarrow> None) = Some 4"
    by code_simp
  then show ?thesis by (auto simp: MAX_CHUNKS_PER_DAY_def split: sum.splits)
qed

end
