(* ===== verification/Serial.thy ===== *)
theory Serial
  imports Placement
begin

text \<open>
  Serial schedule generation (\<open>serial_schedule\<close> of \<open>scheduling/serial.py\<close>): the ledger with
  the preallocated intervals reserved, and the loop that takes the first ready task in
  priority order. A \<open>set\<close> of task ids is a list; \<open>duration_field\<close>, the name of an
  attribute, is the selector of that attribute. The results: one owner per slot and no use
  of reserved time, every task either reported unallocated or given its minutes, and the
  start gates respected.
\<close>

section \<open>The code\<close>

type_synonym start_gates = "(task_id, task_id list) dict"

record schedule_result =
  sr_allocations :: "task_allocation list"
  sr_unallocated :: "task_id list"
  sr_total :: int
  sr_ledger :: ledger

record schedule_state =
  ss_ledger :: ledger
  ss_allocs :: "task_allocation list"
  ss_total :: int
  ss_unallocated :: "task_id list"
  ss_placed :: "task_id list"
  ss_completion :: "(task_id, instant) dict"

text \<open>\<open>max(xs, default=None)\<close>\<close>

definition opt_max :: "'a :: linorder list \<Rightarrow> 'a option" where
  "opt_max xs = (case xs of [] \<Rightarrow> None | y # ys \<Rightarrow> Some (fold max ys y))"

fun pick_ready :: "(schedulable_task \<Rightarrow> bool) \<Rightarrow> schedulable_task list
    \<Rightarrow> (schedulable_task \<times> schedulable_task list) option" where
  "pick_ready ready [] = None"
| "pick_ready ready (t # ts) =
     (if ready t then Some (t, ts) else map_option (\<lambda>(u, us). (u, t # us)) (pick_ready ready ts))"

definition gates_of :: "start_gates \<Rightarrow> schedulable_task \<Rightarrow> task_id list" where
  "gates_of gates t = dget gates (st_id t) []"

definition schedule_task :: "(schedulable_task \<Rightarrow> int) \<Rightarrow> string \<Rightarrow> start_gates
    \<Rightarrow> (task_id, task_allocation list) dict \<Rightarrow> schedulable_task \<Rightarrow> schedule_state \<Rightarrow> schedule_state res" where
  "schedule_task duration pass gates pre t st =
     (let prior = dget pre (st_id t) [];
          prior_minutes = sum_list (map al_minutes prior);
          required_total = duration t;
          required = max 0 (required_total - prior_minutes);
          own_prior_end = opt_max (map al_end prior)
      in if required \<le> 0 then Inr (st\<lparr>ss_placed := List.insert (st_id t) (ss_placed st),
           ss_completion := (case own_prior_end of None \<Rightarrow> ss_completion st
             | Some e \<Rightarrow> AList.update (st_id t) e (ss_completion st))\<rparr>)
      else (let predecessor_end = opt_max (map (\<lambda>p. dget (ss_completion st) p 0)
                  (filter (\<lambda>p. map_of (ss_completion st) p \<noteq> None) (gates_of gates t)));
                bound = opt_max (map the (filter (\<lambda>x. x \<noteq> None) [predecessor_end, own_prior_end]))
        in rbind (place_task (ss_ledger st) t required pass bound) (\<lambda>(produced, ledger).
           let placed = sum_list (map al_minutes produced);
               st' = st\<lparr>ss_ledger := ledger, ss_allocs := ss_allocs st @ produced,
                 ss_total := ss_total st + placed\<rparr>
           in if prior_minutes + placed < required_total
              then Inr (st'\<lparr>ss_unallocated := List.insert (st_id t) (ss_unallocated st)\<rparr>)
              else (case opt_max (map al_end (prior @ produced)) of
                None \<Rightarrow> Inl (ValueError ''max() iterable argument is empty'')
              | Some e \<Rightarrow> Inr (st'\<lparr>ss_placed := List.insert (st_id t) (ss_placed st),
                  ss_completion := AList.update (st_id t) e (ss_completion st)\<rparr>)))))"

lemma pick_ready_Some:
  "pick_ready ready ts = Some (t, us) \<Longrightarrow>
     ready t \<and> (\<exists>as bs. ts = as @ t # bs \<and> us = as @ bs \<and> (\<forall>a\<in>set as. \<not> ready a))"
proof (induction ts arbitrary: us)
  case (Cons u ts)
  show ?case
  proof (cases "ready u")
    case True
    with Cons.prems have "ready t" "u # ts = [] @ t # us" "us = [] @ us" by auto
    then show ?thesis by (metis empty_iff empty_set)
  next
    case False
    with Cons.prems obtain vs where v: "pick_ready ready ts = Some (t, vs)" "us = u # vs" by auto
    from Cons.IH [OF v(1)] obtain as bs where
      "ready t" "ts = as @ t # bs" "vs = as @ bs" "\<forall>a\<in>set as. \<not> ready a" by blast
    then have "ready t \<and> u # ts = (u # as) @ t # bs \<and> us = (u # as) @ bs \<and> (\<forall>a\<in>set (u # as). \<not> ready a)"
      using v(2) False by simp
    then show ?thesis by blast
  qed
qed simp

lemma pick_ready_None: "pick_ready ready ts = None \<longleftrightarrow> (\<forall>t\<in>set ts. \<not> ready t)"
  by (induction ts) auto

lemma pick_ready_length: "pick_ready ready ts = Some (t, us) \<Longrightarrow> length us < length ts"
  using pick_ready_Some by fastforce

function serial_loop :: "(schedulable_task \<Rightarrow> int) \<Rightarrow> string \<Rightarrow> start_gates
    \<Rightarrow> (task_id, task_allocation list) dict \<Rightarrow> schedulable_task list \<Rightarrow> schedule_state \<Rightarrow> schedule_state res" where
  "serial_loop duration pass gates pre pending st =
     (if pending = [] then Inr st
      else (case pick_ready (\<lambda>c. list_all (\<lambda>p. p \<in> set (ss_placed st)) (gates_of gates c)) pending of
        None \<Rightarrow> Inr (st\<lparr>ss_unallocated := fold List.insert (map st_id pending) (ss_unallocated st)\<rparr>)
      | Some (t, rest) \<Rightarrow> rbind (schedule_task duration pass gates pre t st)
          (serial_loop duration pass gates pre rest)))"
  by pat_completeness auto
termination
  by (relation "measure (\<lambda>(duration, pass, gates, pre, pending, st). length pending)")
     (auto dest: pick_ready_length)

declare serial_loop.simps [simp del]

definition reserve_all :: "task_allocation list \<Rightarrow> ledger \<Rightarrow> ledger" where
  "reserve_all pre l = fold (\<lambda>a. reserve_interval (al_start a) (al_end a) (al_task a)) pre l"

definition group_by_task :: "task_allocation list \<Rightarrow> (task_id, task_allocation list) dict" where
  "group_by_task as = fold (\<lambda>a. dappend (al_task a) a) as []"

definition serial_schedule :: "(schedulable_task \<Rightarrow> int) \<Rightarrow> schedulable_task list \<Rightarrow> slot list \<Rightarrow> string
    \<Rightarrow> start_gates \<Rightarrow> task_allocation list \<Rightarrow> schedule_result res" where
  "serial_schedule duration tasks slots pass gates preallocated =
     rbind (serial_loop duration pass gates (group_by_task preallocated) (sort_key priority_key tasks)
       \<lparr>ss_ledger = reserve_all preallocated (new_ledger slots), ss_allocs = preallocated,
         ss_total = sum_list (map al_minutes preallocated), ss_unallocated = [], ss_placed = [],
         ss_completion = []\<rparr>)
       (\<lambda>st. Inr \<lparr>sr_allocations = ss_allocs st, sr_unallocated = ss_unallocated st,
         sr_total = ss_total st, sr_ledger = ss_ledger st\<rparr>)"

section \<open>Lemmas\<close>

lemma opt_max_None [simp]: "opt_max xs = None \<longleftrightarrow> xs = []"
  by (simp add: opt_max_def split: list.splits)

lemma opt_max_Some: "opt_max xs = Some m \<Longrightarrow> m \<in> set xs \<and> (\<forall>x\<in>set xs. x \<le> m)"
proof -
  assume a: "opt_max xs = Some m"
  then obtain y ys where xs: "xs = y # ys" and m: "m = fold max ys y"
    by (auto simp: opt_max_def split: list.splits)
  then have "m = Max (set xs)" by (simp only: Max.set_eq_fold)
  then show ?thesis using xs Max_in [of "set xs"] by simp
qed

lemma group_by_task_get: "dget (group_by_task as) t [] = filter (\<lambda>a. al_task a = t) as"
proof -
  have "dget (fold (\<lambda>a. dappend (al_task a) a) as d) t [] = dget d t [] @ filter (\<lambda>a. al_task a = t) as" for d
    by (induction as arbitrary: d) (auto simp: dict_simps)
  then show ?thesis by (simp add: group_by_task_def dict_simps)
qed

lemma set_fold_insert: "set (fold List.insert xs ys) = set xs \<union> set ys"
  by (induction xs arbitrary: ys) auto

lemma reserve_all_shape: "map ls_shape (reserve_all pre l) = map ls_shape l"
  by (induction pre arbitrary: l) (simp_all add: reserve_all_def reserve_interval_def)

text \<open>A slot still free after the reservations was free before and meets none of them.\<close>

lemma reserve_all_free:
  "set (free_slots (reserve_all pre l)) \<subseteq> {s \<in> set (free_slots l). \<forall>a\<in>set pre. \<not> (ls_start s < al_end a \<and> al_start a < ls_end s)}"
proof (induction pre arbitrary: l)
  case Nil
  show ?case by (auto simp: reserve_all_def)
next
  case (Cons a pre)
  have "set (free_slots (reserve_interval (al_start a) (al_end a) (al_task a) l))
      \<subseteq> {s \<in> set (free_slots l). \<not> (ls_start s < al_end a \<and> al_start a < ls_end s)}"
    unfolding reserve_interval_def free_slots_allocate by (auto simp: free_slots_def)
  moreover have "reserve_all (a # pre) l = reserve_all pre (reserve_interval (al_start a) (al_end a) (al_task a) l)"
    by (simp add: reserve_all_def)
  ultimately show ?case using Cons.IH [of "reserve_interval (al_start a) (al_end a) (al_task a) l"] by auto
qed

lemma ls_shape_ids: "map ls_shape l = map ls_shape l' \<Longrightarrow> map ls_id l = map ls_id l'"
proof -
  have eq: "map ls_id l = map fst (map ls_shape l)" for l by (simp add: ls_shape_def)
  assume "map ls_shape l = map ls_shape l'"
  then show ?thesis unfolding eq by (simp only:)
qed

lemma positive_shape: "map ls_shape l = map ls_shape l' \<Longrightarrow> positive l \<Longrightarrow> positive l'"
proof -
  have eq: "positive l \<longleftrightarrow> (\<forall>x\<in>set (map ls_shape l). fst (snd x) < snd (snd x))" for l
    by (simp add: ls_shape_def)
  assume "map ls_shape l = map ls_shape l'" "positive l"
  then show ?thesis unfolding eq by (simp only:)
qed

section \<open>The invariant of the loop\<close>

text \<open>
  \<open>l\<close> is the ledger after the reservations, \<open>pre\<close> the preallocated allocations, \<open>made\<close> what
  the loop has produced, \<open>handled\<close> the tasks it has taken so far.
\<close>

definition slots_disjoint :: "ledger \<Rightarrow> bool" where
  "slots_disjoint l \<longleftrightarrow> (\<forall>s\<in>set l. \<forall>u\<in>set l. s \<noteq> u \<longrightarrow> ls_end s \<le> ls_start u \<or> ls_end u \<le> ls_start s)"

definition minutes_of :: "task_id \<Rightarrow> task_allocation list \<Rightarrow> int" where
  "minutes_of t as = sum_list (map al_minutes (filter (\<lambda>a. al_task a = t) as))"

definition ledger_inv :: "ledger \<Rightarrow> task_allocation list \<Rightarrow> ledger \<Rightarrow> bool" where
  "ledger_inv l made l' \<longleftrightarrow> map ls_shape l' = map ls_shape l \<and> set (free_slots l') \<subseteq> set (free_slots l)
     \<and> book.serves l (map claim_of made) l' \<and> (\<forall>a\<in>set made. seg_alloc l None a)"

definition task_inv :: "(schedulable_task \<Rightarrow> int) \<Rightarrow> schedulable_task list \<Rightarrow> task_allocation list \<Rightarrow> schedule_state \<Rightarrow> bool" where
  "task_inv duration handled made st \<longleftrightarrow>
     ss_total st = sum_list (map al_minutes (ss_allocs st))
     \<and> (\<forall>a\<in>set made. al_task a \<in> st_id ` set handled)
     \<and> set (ss_placed st) \<subseteq> st_id ` set handled \<and> set (ss_unallocated st) \<subseteq> st_id ` set handled
     \<and> (\<forall>t\<in>set handled. st_id t \<in> set (ss_unallocated st)
          \<or> (st_id t \<in> set (ss_placed st) \<and> duration t \<le> minutes_of (st_id t) (ss_allocs st)))
     \<and> (\<forall>p\<in>set (ss_placed st). \<forall>b\<in>set (ss_allocs st). al_task b = p \<longrightarrow>
          (\<exists>c. map_of (ss_completion st) p = Some c \<and> al_end b \<le> c))"

definition gate_inv :: "start_gates \<Rightarrow> task_allocation list \<Rightarrow> schedule_state \<Rightarrow> bool" where
  "gate_inv gates made st \<longleftrightarrow> (\<forall>a\<in>set made. \<forall>p\<in>set (dget gates (al_task a) []). p \<in> set (ss_placed st)
     \<and> (\<forall>b\<in>set (ss_allocs st). al_task b = p \<longrightarrow> al_end b \<le> al_start a))"

text \<open>What the ledger part of the invariant says about one more placement.\<close>

lemma seg_alloc_bound: "seg_alloc l e a \<Longrightarrow> seg_alloc l None a"
  by (auto simp: seg_alloc_def)

lemma ledger_inv_step:
  assumes inv: "ledger_inv l made l1" and pos: "positive l" and d: "distinct (map ls_id l)"
    and pt: "pass_type_of pass = Inr pt"
  shows "\<exists>as l2. place_task l1 t required pass bound = Inr (as, l2) \<and> ledger_inv l (made @ as) l2
    \<and> (\<forall>a\<in>set as. al_task a = st_id t \<and> seg_alloc l1 (earliest_of (st_start_after t) bound) a)"
proof -
  have sh: "map ls_shape l1 = map ls_shape l" using inv by (simp add: ledger_inv_def)
  have "positive l1" "distinct (map ls_id l1)"
    using positive_shape [OF sh [symmetric] pos] ls_shape_ids [OF sh] d by simp_all
  from place_task_ok [OF this pt, of t required bound] obtain as l2 where
    r: "place_task l1 t required pass bound = Inr (as, l2)" "map ls_shape l2 = map ls_shape l1"
      "set (free_slots l2) \<subseteq> set (free_slots l1)" "book.serves l1 (map claim_of as) l2"
      "\<forall>a\<in>set as. al_task a = st_id t \<and> al_kind a = st_kind t
         \<and> seg_alloc l1 (earliest_of (st_start_after t) bound) a" by blast
  have "seg_alloc l None a" if "a \<in> set as" for a
    using seg_alloc_bound seg_alloc_mono that r(5) inv unfolding ledger_inv_def by blast
  then have "ledger_inv l (made @ as) l2"
    using inv r sh unfolding ledger_inv_def map_append book.serves_append by auto
  then show ?thesis using r by blast
qed

text \<open>
  A chunk placed after a bound starts after every allocation that ends by the bound:
  allocations already made because they hold other slots, reservations because their time
  is not free.
\<close>

lemma chunk_after:
  assumes inv: "ledger_inv l made l1" and pos: "positive l" and d: "distinct (map ls_id l)"
    and dis: "slots_disjoint l" and free: "\<forall>s\<in>set (free_slots l). \<forall>b\<in>set pre. \<not> (ls_start s < al_end b \<and> al_start b < ls_end s)"
    and pre: "\<forall>b\<in>set pre. al_start b < al_end b"
    and a: "seg_alloc l1 (Some e) a" and b: "b \<in> set (pre @ made)" "al_end b \<le> e"
  shows "al_end b \<le> al_start a"
proof -
  from a obtain seg where seg: "seg \<noteq> []" "set seg \<subseteq> set (free_slots l1)" "al_start a = ls_start (hd seg)"
    "\<forall>s\<in>set seg. e < ls_end s" by (auto simp: seg_alloc_def)
  define s where "s = hd seg"
  have "s \<in> set seg" using seg(1) by (simp add: s_def)
  then have s: "s \<in> set (free_slots l1)" "e < ls_end s" "al_start a = ls_start s"
    using seg by (auto simp: s_def)
  then have sl: "s \<in> set (free_slots l)" using inv by (auto simp: ledger_inv_def)
  show ?thesis
  proof (cases "b \<in> set pre")
    case True
    then have "\<not> (ls_start s < al_end b \<and> al_start b < ls_end s)" "al_start b < al_end b"
      using free pre sl by auto
    then show ?thesis using s b(2) by auto
  next
    case False
    then have bp: "b \<in> set made" using b(1) by simp
    with inv obtain segb where sb: "segb \<noteq> []" "set segb \<subseteq> set (free_slots l)"
      "al_slots b = map ls_id segb" "al_end b = ls_end (last segb)" by (auto simp: ledger_inv_def seg_alloc_def)
    define q where "q = last segb"
    have q: "q \<in> set segb" "al_end b = ls_end q" using sb by (simp_all add: q_def)
    have "free_ids l1 = free_ids l - set (concat (map fst (map claim_of made)))"
      using inv book.serves_free [of l "map claim_of made" l1] by (simp add: ledger_inv_def)
    moreover have "ls_id q \<in> set (concat (map fst (map claim_of made)))"
      using bp q(1) sb(3) by force
    ultimately have "ls_id q \<notin> free_ids l1" by blast
    moreover have "ls_id s \<in> free_ids l1"
    proof -
      have "map ls_shape l1 = map ls_shape l" using inv by (simp add: ledger_inv_def)
      then have "distinct (map ls_id l1)" using ls_shape_ids d by metis
      from free_slots_ids [OF this] s(1) show ?thesis by auto
    qed
    ultimately have "s \<noteq> q" by auto
    moreover have "s \<in> set l" "q \<in> set l" using sl q(1) sb(2) by (auto simp: free_slots_def)
    ultimately have "ls_end s \<le> ls_start q \<or> ls_end q \<le> ls_start s" "ls_start q < ls_end q"
      using dis pos by (auto simp: slots_disjoint_def)
    then show ?thesis using q(2) s b(2) by auto
  qed
qed

lemma minutes_of_append: "minutes_of t (as @ bs) = minutes_of t as + minutes_of t bs"
  by (simp add: minutes_of_def)

lemma minutes_of_none: "\<forall>a\<in>set as. al_task a \<noteq> t \<Longrightarrow> minutes_of t as = 0"
  by (simp add: minutes_of_def filter_False)

lemma minutes_of_all: "\<forall>a\<in>set as. al_task a = t \<Longrightarrow> minutes_of t as = sum_list (map al_minutes as)"
  by (simp add: minutes_of_def filter_True)

text \<open>The two bookkeeping outcomes of a task keep the invariant.\<close>

lemma task_inv_placed:
  assumes inv: "task_inv duration handled made st" and fresh: "st_id t \<notin> st_id ` set handled"
    and as: "\<forall>a\<in>set as. al_task a = st_id t"
    and enough: "duration t \<le> minutes_of (st_id t) (ss_allocs st @ as)"
    and cmpl: "\<forall>p. p \<noteq> st_id t \<longrightarrow> map_of cmpl p = map_of (ss_completion st) p"
    and last: "\<forall>b\<in>set (ss_allocs st @ as). al_task b = st_id t \<longrightarrow> (\<exists>c. map_of cmpl (st_id t) = Some c \<and> al_end b \<le> c)"
  shows "task_inv duration (t # handled) (made @ as) (st\<lparr>ss_ledger := ledger, ss_allocs := ss_allocs st @ as,
    ss_total := ss_total st + sum_list (map al_minutes as), ss_placed := List.insert (st_id t) (ss_placed st),
    ss_completion := cmpl\<rparr>)"
proof -
  have other: "minutes_of (st_id u) as = 0" if "u \<in> set handled" for u
    using as that fresh by (intro minutes_of_none) force
  have pl: "p \<noteq> st_id t" if "p \<in> set (ss_placed st)" for p
    using inv that fresh by (auto simp: task_inv_def)
  have "\<exists>c. map_of cmpl p = Some c \<and> al_end b \<le> c"
    if p: "p \<in> set (ss_placed st)" "b \<in> set (ss_allocs st @ as)" "al_task b = p" for p b
  proof -
    have "b \<in> set (ss_allocs st)" using as p pl [OF p(1)] by auto
    then show ?thesis using inv p pl [OF p(1)] cmpl by (auto simp: task_inv_def)
  qed
  then show ?thesis
    using inv as enough last other unfolding task_inv_def by (auto simp: minutes_of_append)
qed

lemma task_inv_unallocated:
  assumes inv: "task_inv duration handled made st" and fresh: "st_id t \<notin> st_id ` set handled"
    and as: "\<forall>a\<in>set as. al_task a = st_id t"
  shows "task_inv duration (t # handled) (made @ as) (st\<lparr>ss_ledger := ledger, ss_allocs := ss_allocs st @ as,
    ss_total := ss_total st + sum_list (map al_minutes as), ss_unallocated := List.insert (st_id t) (ss_unallocated st)\<rparr>)"
proof -
  have other: "minutes_of (st_id u) as = 0" if "u \<in> set handled" for u
    using as that fresh by (intro minutes_of_none) force
  have "p \<noteq> st_id t" if "p \<in> set (ss_placed st)" for p
    using inv that fresh by (auto simp: task_inv_def)
  then show ?thesis
    using inv as other unfolding task_inv_def by (auto simp: minutes_of_append)
qed

text \<open>The bound handed to the placement lies after every predecessor.\<close>

lemma bound_covers:
  assumes "p \<in> set ps" and "map_of cmpl p = Some c"
  shows "\<exists>e. opt_max (map the (filter (\<lambda>x. x \<noteq> None)
     [opt_max (map (\<lambda>p. dget cmpl p 0) (filter (\<lambda>p. map_of cmpl p \<noteq> None) ps)), own])) = Some e \<and> c \<le> e"
proof -
  let ?ends = "map (\<lambda>p. dget cmpl p 0) (filter (\<lambda>p. map_of cmpl p \<noteq> None) ps)"
  have c: "c \<in> set ?ends" using assms by (force simp: dget_def)
  then have "?ends \<noteq> []" by (metis empty_iff list.set(1))
  then obtain m where m: "opt_max ?ends = Some m" using opt_max_None by blast
  with c have "c \<le> m" using opt_max_Some by blast
  let ?xs = "map the (filter (\<lambda>x. x \<noteq> None) [opt_max ?ends, own])"
  have mx: "m \<in> set ?xs" using m by simp
  then have "?xs \<noteq> []" by (metis empty_iff list.set(1))
  then obtain e where e: "opt_max ?xs = Some e" using opt_max_None by blast
  with mx have "m \<le> e" using opt_max_Some by blast
  with e \<open>c \<le> m\<close> show ?thesis by (intro exI [of _ e]) simp
qed

lemma earliest_of_bound: "\<exists>e'. earliest_of sa (Some e) = Some e' \<and> e \<le> e'"
  by (auto simp: earliest_of_def split: option.splits)

lemma gate_inv_step:
  assumes inv: "gate_inv gates made st" and al: "ss_allocs st = pre @ made"
    and ti: "task_inv duration handled made st" and fresh: "st_id t \<notin> st_id ` set handled"
    and ready: "\<forall>p\<in>set (gates_of gates t). p \<in> set (ss_placed st)"
    and as: "\<forall>a\<in>set as. al_task a = st_id t
       \<and> (\<forall>p\<in>set (gates_of gates t). \<forall>b\<in>set (ss_allocs st). al_task b = p \<longrightarrow> al_end b \<le> al_start a)"
    and st': "ss_allocs st' = ss_allocs st @ as" "set (ss_placed st) \<subseteq> set (ss_placed st')"
  shows "gate_inv gates (made @ as) st'"
  unfolding gate_inv_def
proof (intro ballI)
  fix a p assume a: "a \<in> set (made @ as)" and p: "p \<in> set (dget gates (al_task a) [])"
  have pl: "p \<in> set (ss_placed st)"
    using a p inv ready as by (auto simp: gate_inv_def gates_of_def)
  then have "p \<noteq> st_id t" using ti fresh by (auto simp: task_inv_def)
  then have old: "b \<in> set (ss_allocs st)" if "b \<in> set (ss_allocs st')" "al_task b = p" for b
    using that as st'(1) by auto
  show "p \<in> set (ss_placed st') \<and> (\<forall>b\<in>set (ss_allocs st'). al_task b = p \<longrightarrow> al_end b \<le> al_start a)"
    using a p inv as pl old st'(2) by (auto simp: gate_inv_def gates_of_def)
qed

text \<open>One task: what \<open>schedule_task\<close> returns and keeps.\<close>

lemma schedule_task_ok:
  assumes li: "ledger_inv l made (ss_ledger st)" and ti: "task_inv duration handled made st"
    and al: "ss_allocs st = pre @ made" and fresh: "st_id t \<notin> st_id ` set handled"
    and ready: "\<forall>p\<in>set (gates_of gates t). p \<in> set (ss_placed st)"
    and pos: "positive l" and d: "distinct (map ls_id l)" and pt: "pass_type_of pass = Inr pt"
  shows "\<exists>st' as. schedule_task duration pass gates (group_by_task pre) t st = Inr st'
    \<and> ledger_inv l (made @ as) (ss_ledger st') \<and> task_inv duration (t # handled) (made @ as) st'
    \<and> ss_allocs st' = pre @ made @ as
    \<and> (slots_disjoint l
        \<and> (\<forall>s\<in>set (free_slots l). \<forall>b\<in>set pre. \<not> (ls_start s < al_end b \<and> al_start b < ls_end s))
        \<and> (\<forall>b\<in>set pre. al_start b < al_end b)
        \<and> gate_inv gates made st \<longrightarrow> gate_inv gates (made @ as) st')"
proof -
  let ?prior = "dget (group_by_task pre) (st_id t) []"
  have prior: "?prior = filter (\<lambda>a. al_task a = st_id t) pre" by (rule group_by_task_get)
  have made_t: "\<forall>a\<in>set made. al_task a \<noteq> st_id t" using ti fresh by (force simp: task_inv_def)
  have mins: "minutes_of (st_id t) (ss_allocs st) = sum_list (map al_minutes ?prior)"
    using minutes_of_none [OF made_t] by (simp add: al minutes_of_append prior) (simp add: minutes_of_def)
  have mine: "b \<in> set ?prior" if "b \<in> set (ss_allocs st)" "al_task b = st_id t" for b
    using that made_t by (auto simp: al prior)
  define own where "own = opt_max (map al_end ?prior)"
  have own: "\<exists>c. own = Some c \<and> al_end b \<le> c" if "b \<in> set ?prior" for b
    using that opt_max_Some [of "map al_end ?prior"] by (cases own) (auto simp: own_def)
  show ?thesis
  proof (cases "duration t - sum_list (map al_minutes ?prior) \<le> 0")
    case True
    define c where "c = (case own of None \<Rightarrow> ss_completion st | Some e \<Rightarrow> AList.update (st_id t) e (ss_completion st))"
    let ?st' = "st\<lparr>ss_placed := List.insert (st_id t) (ss_placed st), ss_completion := c\<rparr>"
    have r: "schedule_task duration pass gates (group_by_task pre) t st = Inr ?st'"
      using True by (simp add: schedule_task_def Let_def c_def own_def)
    have "\<forall>p. p \<noteq> st_id t \<longrightarrow> map_of c p = map_of (ss_completion st) p"
      by (auto simp: c_def dict_simps split: option.splits)
    moreover have "\<forall>b\<in>set (ss_allocs st @ []). al_task b = st_id t \<longrightarrow> (\<exists>x. map_of c (st_id t) = Some x \<and> al_end b \<le> x)"
    proof (intro ballI impI)
      fix b assume "b \<in> set (ss_allocs st @ [])" "al_task b = st_id t"
      then obtain e where "own = Some e" "al_end b \<le> e" using own mine by fastforce
      then show "\<exists>x. map_of c (st_id t) = Some x \<and> al_end b \<le> x" by (simp add: c_def dict_simps)
    qed
    ultimately have "task_inv duration (t # handled) (made @ []) (st\<lparr>ss_ledger := ss_ledger st, ss_allocs := ss_allocs st @ [],
      ss_total := ss_total st + sum_list (map al_minutes []), ss_placed := List.insert (st_id t) (ss_placed st), ss_completion := c\<rparr>)"
      using True mins by (intro task_inv_placed [OF ti fresh]) auto
    moreover have "st\<lparr>ss_ledger := ss_ledger st, ss_allocs := ss_allocs st @ [], ss_total := ss_total st + sum_list (map al_minutes []),
        ss_placed := List.insert (st_id t) (ss_placed st), ss_completion := c\<rparr> = ?st'" by (cases st) simp
    ultimately have "task_inv duration (t # handled) made ?st'" by simp
    moreover have "gate_inv gates (made @ []) ?st'" if "gate_inv gates made st"
      by (rule gate_inv_step [OF that al ti fresh ready]) auto
    ultimately show ?thesis using r li al by (intro exI [of _ ?st'] exI [of _ "[]"]) auto
  next
    case False
    define bound where "bound = opt_max (map the (filter (\<lambda>x. x \<noteq> None)
      [opt_max (map (\<lambda>p. dget (ss_completion st) p 0) (filter (\<lambda>p. map_of (ss_completion st) p \<noteq> None) (gates_of gates t))), own]))"
    define required where "required = duration t - sum_list (map al_minutes ?prior)"
    have rq: "max 0 (duration t - sum_list (map al_minutes ?prior)) = required" "\<not> required \<le> 0"
      using False by (simp_all add: required_def)
    from ledger_inv_step [OF li pos d pt, of t required bound] obtain as l2 where
      p: "place_task (ss_ledger st) t required pass bound = Inr (as, l2)" "ledger_inv l (made @ as) l2"
        "\<forall>a\<in>set as. al_task a = st_id t \<and> seg_alloc (ss_ledger st) (earliest_of (st_start_after t) bound) a"
      by blast
    have ast: "\<forall>a\<in>set as. al_task a = st_id t" using p(3) by blast
    define placed where "placed = sum_list (map al_minutes as)"
    let ?st1 = "st\<lparr>ss_ledger := l2, ss_allocs := ss_allocs st @ as, ss_total := ss_total st + placed\<rparr>"
    have after: "al_end b \<le> al_start a"
      if a: "a \<in> set as" and q: "q \<in> set (gates_of gates t)" and b: "b \<in> set (ss_allocs st)" "al_task b = q"
      and dis: "slots_disjoint l" "\<forall>s\<in>set (free_slots l). \<forall>b\<in>set pre. \<not> (ls_start s < al_end b \<and> al_start b < ls_end s)"
        "\<forall>b\<in>set pre. al_start b < al_end b" for a q b
    proof -
      from ti ready q b obtain c where c: "map_of (ss_completion st) q = Some c" "al_end b \<le> c"
        unfolding task_inv_def by blast
      from bound_covers [OF q c(1), of own] obtain e where e: "bound = Some e" "c \<le> e"
        unfolding bound_def by blast
      from earliest_of_bound [of "st_start_after t" e] obtain e' where
        e': "earliest_of (st_start_after t) bound = Some e'" "e \<le> e'" using e(1) by blast
      have "seg_alloc (ss_ledger st) (Some e') a" using p(3) a e'(1) by auto
      from chunk_after [OF li pos d dis this] b(1) al c(2) e(2) e'(2) show ?thesis by simp
    qed
    have "\<exists>st'. schedule_task duration pass gates (group_by_task pre) t st = Inr st' \<and> ss_ledger st' = l2
      \<and> task_inv duration (t # handled) (made @ as) st' \<and> ss_allocs st' = ss_allocs st @ as
      \<and> set (ss_placed st) \<subseteq> set (ss_placed st')"
    proof (cases "sum_list (map al_minutes ?prior) + placed < duration t")
      case True
      let ?st' = "?st1\<lparr>ss_unallocated := List.insert (st_id t) (ss_unallocated st)\<rparr>"
      have "schedule_task duration pass gates (group_by_task pre) t st = Inr ?st'"
        using p(1) True rq(2)
        unfolding schedule_task_def Let_def rq(1) own_def [symmetric] bound_def [symmetric]
        by (simp add: placed_def)
      moreover have "task_inv duration (t # handled) (made @ as) ?st'"
        using task_inv_unallocated [OF ti fresh ast, of l2] by (simp add: placed_def)
      ultimately show ?thesis by (intro exI [of _ ?st']) auto
    next
      case no: False
      have "?prior @ as \<noteq> []"
      proof
        assume "?prior @ as = []"
        then have "?prior = []" "as = []" by auto
        then show False using no rq(2) by (simp add: placed_def required_def)
      qed
      then obtain e where e: "opt_max (map al_end (?prior @ as)) = Some e"
        using opt_max_None by (metis map_is_Nil_conv option.exhaust)
      let ?c = "AList.update (st_id t) e (ss_completion st)"
      let ?st' = "?st1\<lparr>ss_placed := List.insert (st_id t) (ss_placed st), ss_completion := ?c\<rparr>"
      have "schedule_task duration pass gates (group_by_task pre) t st = Inr ?st'"
        using p(1) no rq(2) e
        unfolding schedule_task_def Let_def rq(1) own_def [symmetric] bound_def [symmetric]
        by (simp add: placed_def)
      moreover have "task_inv duration (t # handled) (made @ as) ?st'"
      proof -
        have "al_end b \<le> e" if "b \<in> set (ss_allocs st @ as)" "al_task b = st_id t" for b
          using that mine opt_max_Some [OF e] by auto
        then show ?thesis using task_inv_placed [OF ti fresh ast, of ?c l2] no mins
          minutes_of_all [OF ast] by (simp add: placed_def minutes_of_append dict_simps)
      qed
      ultimately show ?thesis by (intro exI [of _ ?st']) auto
    qed
    then obtain st' where st': "schedule_task duration pass gates (group_by_task pre) t st = Inr st'" "ss_ledger st' = l2"
      "task_inv duration (t # handled) (made @ as) st'" "ss_allocs st' = ss_allocs st @ as"
      "set (ss_placed st) \<subseteq> set (ss_placed st')" by blast
    have "gate_inv gates (made @ as) st'"
      if "slots_disjoint l" "\<forall>s\<in>set (free_slots l). \<forall>b\<in>set pre. \<not> (ls_start s < al_end b \<and> al_start b < ls_end s)"
        "\<forall>b\<in>set pre. al_start b < al_end b" "gate_inv gates made st"
      using after that ast by (intro gate_inv_step [OF that(4) al ti fresh ready _ st'(4,5)]) blast
    then show ?thesis using st' p(2) al by auto
  qed
qed

text \<open>The whole loop.\<close>

lemma serial_loop_ok:
  assumes pos: "positive l" and d: "distinct (map ls_id l)" and pt: "pass_type_of pass = Inr pt"
  shows "ledger_inv l made (ss_ledger st) \<Longrightarrow> task_inv duration handled made st \<Longrightarrow> ss_allocs st = pre @ made \<Longrightarrow>
    distinct (map st_id pending) \<Longrightarrow> st_id ` set pending \<inter> st_id ` set handled = {} \<Longrightarrow>
    \<exists>st' made'. serial_loop duration pass gates (group_by_task pre) pending st = Inr st'
      \<and> ledger_inv l made' (ss_ledger st') \<and> ss_allocs st' = pre @ made'
      \<and> ss_total st' = sum_list (map al_minutes (ss_allocs st'))
      \<and> (\<forall>t\<in>set pending \<union> set handled. st_id t \<in> set (ss_unallocated st')
          \<or> duration t \<le> minutes_of (st_id t) (ss_allocs st'))
      \<and> set (ss_unallocated st') \<subseteq> st_id ` (set pending \<union> set handled)
      \<and> (slots_disjoint l
        \<and> (\<forall>s\<in>set (free_slots l). \<forall>b\<in>set pre. \<not> (ls_start s < al_end b \<and> al_start b < ls_end s))
        \<and> (\<forall>b\<in>set pre. al_start b < al_end b)
        \<and> gate_inv gates made st \<longrightarrow> gate_inv gates made' st')"
proof (induction "length pending" arbitrary: pending st made handled rule: less_induct)
  case less
  let ?ready = "\<lambda>c. list_all (\<lambda>p. p \<in> set (ss_placed st)) (gates_of gates c)"
  note loop = serial_loop.simps [of duration pass gates "group_by_task pre" pending st]
  show ?case
  proof (cases "pick_ready ?ready pending")
    case None
    let ?st' = "if pending = [] then st else st\<lparr>ss_unallocated := fold List.insert (map st_id pending) (ss_unallocated st)\<rparr>"
    have "serial_loop duration pass gates (group_by_task pre) pending st = Inr ?st'"
      using None by (simp add: loop)
    moreover have "gate_inv gates made st \<Longrightarrow> gate_inv gates made ?st'" by (simp add: gate_inv_def)
    ultimately show ?thesis using less.prems
      by (intro exI [of _ ?st'] exI [of _ made]) (auto simp: task_inv_def set_fold_insert)
  next
    case (Some p)
    then obtain t rest where p: "pick_ready ?ready pending = Some (t, rest)" by (cases p) auto
    from pick_ready_Some [OF p] obtain as bs where
      ready: "?ready t" and pend: "pending = as @ t # bs" "rest = as @ bs" by blast
    have fresh: "st_id t \<notin> st_id ` set handled" using less.prems(5) pend by auto
    have rr: "\<forall>p\<in>set (gates_of gates t). p \<in> set (ss_placed st)" using ready by (simp add: list_all_iff)
    from schedule_task_ok [OF less.prems(1-3) fresh rr pos d pt] obtain st1 cs where
      s1: "schedule_task duration pass gates (group_by_task pre) t st = Inr st1"
      "ledger_inv l (made @ cs) (ss_ledger st1)" "task_inv duration (t # handled) (made @ cs) st1"
      "ss_allocs st1 = pre @ made @ cs"
      and g1: "slots_disjoint l
        \<and> (\<forall>s\<in>set (free_slots l). \<forall>b\<in>set pre. \<not> (ls_start s < al_end b \<and> al_start b < ls_end s))
        \<and> (\<forall>b\<in>set pre. al_start b < al_end b)
        \<and> gate_inv gates made st \<longrightarrow> gate_inv gates (made @ cs) st1"
      by blast
    have len: "length rest < length pending" using pend by simp
    have dr: "distinct (map st_id rest)" using less.prems(4) pend by simp
    have disj: "st_id ` set rest \<inter> st_id ` set (t # handled) = {}"
      using less.prems(4,5) unfolding pend by auto
    have al1: "ss_allocs st1 = pre @ (made @ cs)" using s1(4) by simp
    from less.hyps [OF len s1(2,3) al1 dr disj] obtain st' made' where
      s2: "serial_loop duration pass gates (group_by_task pre) rest st1 = Inr st'"
      "ledger_inv l made' (ss_ledger st')" "ss_allocs st' = pre @ made'"
      "ss_total st' = sum_list (map al_minutes (ss_allocs st'))"
      "\<forall>t\<in>set rest \<union> set (t # handled). st_id t \<in> set (ss_unallocated st')
          \<or> duration t \<le> minutes_of (st_id t) (ss_allocs st')"
      "set (ss_unallocated st') \<subseteq> st_id ` (set rest \<union> set (t # handled))"
      and g2: "slots_disjoint l
        \<and> (\<forall>s\<in>set (free_slots l). \<forall>b\<in>set pre. \<not> (ls_start s < al_end b \<and> al_start b < ls_end s))
        \<and> (\<forall>b\<in>set pre. al_start b < al_end b)
        \<and> gate_inv gates (made @ cs) st1 \<longrightarrow> gate_inv gates made' st'" by blast
    have "serial_loop duration pass gates (group_by_task pre) pending st = Inr st'"
    proof -
      have "pending \<noteq> []" using pend(1) by simp
      then show ?thesis using p s1(1) s2(1) by (simp add: loop)
    qed
    moreover have "set rest \<union> set (t # handled) = set pending \<union> set handled" using pend by auto
    ultimately show ?thesis using s2 g1 g2 by metis
  qed
qed

section \<open>The schedule\<close>

definition valid_slots :: "slot list \<Rightarrow> bool" where
  "valid_slots slots \<longleftrightarrow> distinct (map sl_id slots) \<and> (\<forall>s\<in>set slots. sl_start s < sl_end s)"

lemma new_ledger_positive: "valid_slots slots \<Longrightarrow> positive (new_ledger slots)"
  by (auto simp: valid_slots_def set_new_ledger)

lemma slots_disjoint_shape:
  assumes sh: "map ls_shape l' = map ls_shape l" and d: "distinct (map ls_id l')" and dis: "slots_disjoint l"
  shows "slots_disjoint l'"
  unfolding slots_disjoint_def
proof (intro ballI impI)
  fix s u assume su: "s \<in> set l'" "u \<in> set l'" "s \<noteq> u"
  have old: "\<exists>v\<in>set l. ls_shape v = ls_shape w" if "w \<in> set l'" for w
  proof -
    have "ls_shape w \<in> set (map ls_shape l')" using that by simp
    then show ?thesis unfolding sh by auto
  qed
  from old [OF su(1)] old [OF su(2)] obtain s0 u0 where
    o: "s0 \<in> set l" "ls_shape s0 = ls_shape s" "u0 \<in> set l" "ls_shape u0 = ls_shape u" by blast
  have "ls_id s \<noteq> ls_id u" using d su by (metis distinct_map inj_onD)
  then have "s0 \<noteq> u0" using o by (auto simp: ls_shape_def)
  then show "ls_end s \<le> ls_start u \<or> ls_end u \<le> ls_start s"
  proof -
    have "ls_end s0 \<le> ls_start u0 \<or> ls_end u0 \<le> ls_start s0"
      using dis o(1,3) \<open>s0 \<noteq> u0\<close> unfolding slots_disjoint_def by blast
    then show ?thesis using o(2,4) by (simp add: ls_shape_def)
  qed
qed

lemma serial_schedule_ok:
  assumes slots: "valid_slots slots" and ids: "distinct (map st_id tasks)" and pass: "pass \<in> {''base'', ''safety''}"
  shows "\<exists>r made st. serial_schedule duration tasks slots pass gates pre = Inr r
    \<and> sr_allocations r = pre @ made \<and> sr_total r = sum_list (map al_minutes (sr_allocations r))
    \<and> ledger_inv (reserve_all pre (new_ledger slots)) made (sr_ledger r)
    \<and> (\<forall>t\<in>set tasks. st_id t \<in> set (sr_unallocated r) \<or> duration t \<le> minutes_of (st_id t) (sr_allocations r))
    \<and> set (sr_unallocated r) \<subseteq> st_id ` set tasks
    \<and> (sorted_wrt slots_apart slots \<and> (\<forall>b\<in>set pre. al_start b < al_end b)
       \<longrightarrow> (ss_allocs st = pre @ made \<and> gate_inv gates made st))"
proof -
  let ?l = "reserve_all pre (new_ledger slots)"
  obtain pt where pt: "pass_type_of pass = Inr pt" using pass_type_of_Inr [OF pass] by blast
  have sh: "map ls_shape ?l = map ls_shape (new_ledger slots)" by (rule reserve_all_shape)
  have pos: "positive ?l" using positive_shape [OF sh [symmetric] new_ledger_positive [OF slots]] .
  have d: "distinct (map ls_id ?l)"
    using ls_shape_ids [OF sh] new_ledger_ids slots by (simp add: valid_slots_def)
  let ?st = "\<lparr>ss_ledger = ?l, ss_allocs = pre, ss_total = sum_list (map al_minutes pre), ss_unallocated = [],
    ss_placed = [], ss_completion = []\<rparr>"
  have li: "ledger_inv ?l [] (ss_ledger ?st)" by (simp add: ledger_inv_def)
  have ti: "task_inv duration [] [] ?st" by (simp add: task_inv_def)
  have al: "ss_allocs ?st = pre @ []" by simp
  have dp: "distinct (map st_id (sort_key priority_key tasks))"
    using ids mset_eq_imp_distinct_iff [of "map st_id (sort_key priority_key tasks)" "map st_id tasks"] by simp
  have dis0: "st_id ` set (sort_key priority_key tasks) \<inter> st_id ` set [] = {}" by simp
  from serial_loop_ok [OF pos d pt li ti al dp dis0, of gates] obtain st' made where
    s: "serial_loop duration pass gates (group_by_task pre) (sort_key priority_key tasks) ?st = Inr st'"
      "ledger_inv ?l made (ss_ledger st')" "ss_allocs st' = pre @ made"
      "ss_total st' = sum_list (map al_minutes (ss_allocs st'))"
      "\<forall>t\<in>set (sort_key priority_key tasks) \<union> set []. st_id t \<in> set (ss_unallocated st')
          \<or> duration t \<le> minutes_of (st_id t) (ss_allocs st')"
      "set (ss_unallocated st') \<subseteq> st_id ` (set (sort_key priority_key tasks) \<union> set [])"
    and g: "slots_disjoint ?l
        \<and> (\<forall>s\<in>set (free_slots ?l). \<forall>b\<in>set pre. \<not> (ls_start s < al_end b \<and> al_start b < ls_end s))
        \<and> (\<forall>b\<in>set pre. al_start b < al_end b)
        \<and> gate_inv gates [] ?st \<longrightarrow> gate_inv gates made st'" by blast
  have "gate_inv gates made st'"
    if ap: "sorted_wrt slots_apart slots" and pre: "\<forall>b\<in>set pre. al_start b < al_end b"
  proof -
    have sym: "slots_apart s t \<Longrightarrow> slots_apart t s" for s t by (auto simp: slots_apart_def)
    have "slots_apart s t" if "s \<in> set slots" "t \<in> set slots" "s \<noteq> t" for s t
      using ap that sym by (induction slots) auto
    then have "slots_disjoint (new_ledger slots)"
      unfolding slots_disjoint_def set_new_ledger by (fastforce simp: slots_apart_def)
    then have "slots_disjoint ?l" by (rule slots_disjoint_shape [OF sh d])
    moreover have "\<forall>s\<in>set (free_slots ?l). \<forall>b\<in>set pre. \<not> (ls_start s < al_end b \<and> al_start b < ls_end s)"
      using reserve_all_free by blast
    moreover have "gate_inv gates [] ?st" by (simp add: gate_inv_def)
    ultimately show ?thesis using g pre by blast
  qed
  then show ?thesis using s by (auto simp: serial_schedule_def)
qed

text \<open>A chunk made of slots that all keep clear of an interval keeps clear of it as a whole.\<close>

lemma contiguous_avoid:
  assumes ab: "a < b"
  shows "contiguous ss \<Longrightarrow> positive ss \<Longrightarrow> ss \<noteq> [] \<Longrightarrow> \<forall>s\<in>set ss. \<not> (ls_start s < b \<and> a < ls_end s) \<Longrightarrow>
    ls_end (last ss) \<le> a \<or> b \<le> ls_start (hd ss)"
proof (induction ss rule: contiguous.induct)
  case (3 s t ss)
  then have "ls_end (last (t # ss)) \<le> a \<or> b \<le> ls_start t" by auto
  moreover have "ls_end s = ls_start t" "ls_start s < ls_end s" "\<not> (ls_start s < b \<and> a < ls_end s)"
    using 3 by auto
  ultimately show ?case using ab by auto
qed (use ab in auto)

lemma made_avoids:
  assumes li: "ledger_inv (reserve_all pre l) made l'" and pos: "positive l"
    and a: "a \<in> set made" and b: "b \<in> set pre" "al_start b < al_end b"
  shows "al_end a \<le> al_start b \<or> al_end b \<le> al_start a"
proof -
  from li a obtain seg where seg: "seg \<noteq> []" "set seg \<subseteq> set (free_slots (reserve_all pre l))" "contiguous seg"
    "al_start a = ls_start (hd seg)" "al_end a = ls_end (last seg)" by (auto simp: ledger_inv_def seg_alloc_def)
  have "positive (reserve_all pre l)" using positive_shape [OF reserve_all_shape [symmetric] pos] .
  then have "positive seg" using seg(2) by (auto simp: free_slots_def)
  moreover have "\<forall>s\<in>set seg. \<not> (ls_start s < al_end b \<and> al_start b < ls_end s)"
    using seg(2) reserve_all_free [of pre l] b(1) by blast
  ultimately show ?thesis using contiguous_avoid [OF b(2) seg(3)] seg by simp
qed

text \<open>A produced allocation in terms of the availability slots.\<close>

fun adjacent :: "slot list \<Rightarrow> bool" where
  "adjacent [] = True"
| "adjacent [s] = True"
| "adjacent (s # t # ss) = (sl_end s = sl_start t \<and> adjacent (t # ss))"

lemma made_slots:
  assumes li: "ledger_inv (reserve_all pre (new_ledger slots)) made l'" and a: "a \<in> set made"
  shows "\<exists>seg. seg \<noteq> [] \<and> set seg \<subseteq> set slots \<and> (\<forall>s\<in>set seg. sl_state s = FREE) \<and> adjacent seg
    \<and> al_slots a = map sl_id seg \<and> al_start a = sl_start (hd seg) \<and> al_end a = sl_end (last seg)"
proof -
  let ?f = "\<lambda>s. \<lparr>ls_id = sl_id s, ls_start = sl_start s, ls_end = sl_end s, ls_free = sl_is_free s, ls_owner = None\<rparr>"
  from li a obtain seg where seg: "seg \<noteq> []" "set seg \<subseteq> set (free_slots (reserve_all pre (new_ledger slots)))"
    "contiguous seg" "al_slots a = map ls_id seg" "al_start a = ls_start (hd seg)" "al_end a = ls_end (last seg)"
    by (auto simp: ledger_inv_def seg_alloc_def)
  have "set seg \<subseteq> ?f ` {s \<in> set slots. sl_state s = FREE}"
  proof
    fix x assume "x \<in> set seg"
    then have "x \<in> set (free_slots (new_ledger slots))"
      using seg(2) reserve_all_free [of pre "new_ledger slots"] by blast
    then have "ls_free x" "x \<in> ?f ` set slots" by (simp_all add: free_slots_def set_new_ledger)
    then show "x \<in> ?f ` {s \<in> set slots. sl_state s = FREE}" by (auto simp: sl_is_free_def)
  qed
  then have "\<exists>us. seg = map ?f us \<and> set us \<subseteq> {s \<in> set slots. sl_state s = FREE}"
  proof (induction seg)
    case (Cons x xs)
    then obtain us y where "xs = map ?f us" "set us \<subseteq> {s \<in> set slots. sl_state s = FREE}"
      "x = ?f y" "y \<in> set slots" "sl_state y = FREE" by auto
    then show ?case by (intro exI [of _ "y # us"]) simp
  qed simp
  then obtain us where us: "seg = map ?f us" "set us \<subseteq> {s \<in> set slots. sl_state s = FREE}" by blast
  have adj: "contiguous (map ?f vs) \<Longrightarrow> adjacent vs" for vs
    by (induction vs rule: adjacent.induct) auto
  have "adjacent us" using adj seg(3) us(1) by blast
  then show ?thesis using seg us by (intro exI [of _ us]) (auto simp: hd_map last_map comp_def)
qed

text \<open>
  Scheduling over valid slots never raises. The result is the preallocated
  allocations followed by new ones; each new one is exactly a segment of adjacent free
  slots outside the preallocated time, no slot is used twice, and every slot used belongs
  to the allocation's task at the end.
\<close>

theorem serial_schedule_single_owner:
  assumes "valid_slots slots" and "distinct (map st_id tasks)" and "pass \<in> {''base'', ''safety''}"
    and "\<forall>b\<in>set pre. al_start b < al_end b"
  shows "\<exists>r made. serial_schedule duration tasks slots pass gates pre = Inr r \<and> sr_allocations r = pre @ made
    \<and> distinct (concat (map al_slots made))
    \<and> (\<forall>a\<in>set made. (\<exists>seg. seg \<noteq> [] \<and> set seg \<subseteq> set slots \<and> (\<forall>s\<in>set seg. sl_state s = FREE) \<and> adjacent seg
           \<and> al_slots a = map sl_id seg \<and> al_start a = sl_start (hd seg) \<and> al_end a = sl_end (last seg))
         \<and> (\<forall>b\<in>set pre. al_end a \<le> al_start b \<or> al_end b \<le> al_start a)
         \<and> (\<forall>i\<in>set (al_slots a). owner_of (sr_ledger r) i = Some (al_task a)))"
proof -
  from serial_schedule_ok [OF assms(1-3), of duration gates pre] obtain r made where
    r: "serial_schedule duration tasks slots pass gates pre = Inr r" "sr_allocations r = pre @ made"
      "ledger_inv (reserve_all pre (new_ledger slots)) made (sr_ledger r)" by blast
  from r(3) have s: "book.serves (reserve_all pre (new_ledger slots)) (map claim_of made) (sr_ledger r)"
    by (simp add: ledger_inv_def)
  have "owner_of (sr_ledger r) i = Some (al_task a)" if "a \<in> set made" "i \<in> set (al_slots a)" for a i
    using book.serves_owner [OF s _ that(2), of "al_task a"] that(1) by force
  moreover have "distinct (concat (map al_slots made))"
    using book.serves_distinct [OF s] by (simp add: comp_def)
  ultimately show ?thesis
    using r made_slots [OF r(3)] made_avoids [OF r(3) new_ledger_positive [OF assms(1)]] assms(4) by blast
qed


text \<open>
  C6. Start gates are respected. When slots do not overlap, every new allocation of a task
  starts at or after the end of every allocation of each task that blocks its start.
\<close>

theorem serial_schedule_gates:
  assumes "valid_slots slots" and "distinct (map st_id tasks)" and "pass \<in> {''base'', ''safety''}"
    and "\<forall>b\<in>set pre. al_start b < al_end b" and "sorted_wrt slots_apart slots"
  shows "\<exists>r made. serial_schedule duration tasks slots pass gates pre = Inr r \<and> sr_allocations r = pre @ made
    \<and> (\<forall>a\<in>set made. \<forall>p\<in>set (dget gates (al_task a) []). \<forall>b\<in>set (sr_allocations r).
         al_task b = p \<longrightarrow> al_end b \<le> al_start a)"
proof -
  from serial_schedule_ok [OF assms(1-3), of duration gates pre] obtain r made st where
    r: "serial_schedule duration tasks slots pass gates pre = Inr r" "sr_allocations r = pre @ made"
    and g: "sorted_wrt slots_apart slots \<and> (\<forall>b\<in>set pre. al_start b < al_end b)
       \<longrightarrow> (ss_allocs st = pre @ made \<and> gate_inv gates made st)" by blast
  then have "ss_allocs st = pre @ made" "gate_inv gates made st" using assms(4,5) by blast+
  then have "\<forall>a\<in>set made. \<forall>p\<in>set (dget gates (al_task a) []). \<forall>b\<in>set (sr_allocations r).
         al_task b = p \<longrightarrow> al_end b \<le> al_start a" unfolding gate_inv_def r(2) by simp
  then show ?thesis using r by blast
qed

text \<open>Three adjacent slots, two tasks, the first of which gates the second.\<close>

definition three_slots :: "slot list" where
  "three_slots = map (\<lambda>(i, a). \<lparr>sl_id = i, sl_start = minutes_delta a, sl_end = minutes_delta (a + 30), sl_state = FREE\<rparr>)
     [(''a'', 0), (''b'', 30), (''c'', 60)]"

definition two_tasks :: "schedulable_task list" where
  "two_tasks = [plain_task (TaskId 1) P2 30, plain_task (TaskId 2) P1 30]"

definition one_gate :: start_gates where
  "one_gate = [(TaskId 2, [TaskId 1])]"

lemma three_slots_valid: "valid_slots three_slots" "sorted_wrt slots_apart three_slots" "distinct (map st_id two_tasks)"
  by (simp_all add: valid_slots_def three_slots_def two_tasks_def plain_task_def slots_apart_def minutes_delta_def)

lemma serial_schedule_single_owner_witness:
  "\<exists>r made. serial_schedule st_base two_tasks three_slots ''base'' one_gate [] = Inr r \<and> sr_allocations r = [] @ made
    \<and> distinct (concat (map al_slots made))"
  using serial_schedule_single_owner [OF three_slots_valid(1,3), of "''base''" "[]" st_base one_gate] by auto


lemma serial_schedule_gates_witness:
  "\<exists>r made. serial_schedule st_base two_tasks three_slots ''base'' one_gate [] = Inr r \<and> sr_allocations r = [] @ made
    \<and> (\<forall>a\<in>set made. \<forall>p\<in>set (dget one_gate (al_task a) []). \<forall>b\<in>set (sr_allocations r).
         al_task b = p \<longrightarrow> al_end b \<le> al_start a)"
  using serial_schedule_gates [OF three_slots_valid(1,3) _ _ three_slots_valid(2), of "''base''" "[]" st_base one_gate]
  by simp

lemma two_tasks_schedule:
  "(case serial_schedule st_base two_tasks three_slots ''base'' one_gate [] of
     Inr r \<Rightarrow> map (\<lambda>a. (al_task a, al_slots a)) (sr_allocations r) | Inl e \<Rightarrow> [])
   = [(TaskId 1, [''a'']), (TaskId 2, [''b''])]"
  by code_simp

end
