(* ===== verification/Passes.thy ===== *)
theory Passes
  imports Serial Graph_Analysis
begin

text \<open>
  Provisional, Base and Safety passes (\<open>scheduling/passes.py\<close>): the enriched tasks, the
  synthetic review and submission buffers, the start gates, the preallocated work and the
  single promotion of infeasible required tasks. \<open>uuid5(NAMESPACE_URL, name)\<close> of the
  standard library is the parameter \<open>uuid5\<close>. The results: a promotion changes classes
  only, and a pass plans inside the availability windows, around fixed events, without
  overlap and in dependency order.
\<close>

section \<open>The code\<close>

record planning_passes =
  ps_provisional :: schedule_result
  ps_base :: schedule_result
  ps_safety :: schedule_result
  ps_promoted :: nat
  ps_buffers :: "(milestone_id, schedulable_task list) dict"

definition verified_deadline_passed :: "task \<Rightarrow> instant \<Rightarrow> bool" where
  "verified_deadline_passed t now =
     (case ts_deadline_at t of Some d \<Rightarrow> ts_deadline_time_known t \<and> d \<le> now | None \<Rightarrow> False)"

definition milestone_types :: "planner_input \<Rightarrow> (milestone_id, deadline_type) dict" where
  "milestone_types v = fold (\<lambda>m. AList.update (mi_id m) (mi_deadline_type m)) (in_milestones v) []"

definition deadline_type_for :: "task \<Rightarrow> (milestone_id, deadline_type) dict \<Rightarrow> deadline_type" where
  "deadline_type_for t types = (case ts_milestone t of None \<Rightarrow> SOFT_GOAL
     | Some m \<Rightarrow> (case map_of types m of None \<Rightarrow> SOFT_GOAL | Some d \<Rightarrow> d))"

definition prior_positions :: "planner_input \<Rightarrow> (task_id, int) dict" where
  "prior_positions v = (case in_prior v of None \<Rightarrow> []
     | Some s \<Rightarrow> fold (\<lambda>(i, a). dsetdefault (pa_task a) (int i)) (enumerate 0 (pp_allocations s)) [])"

definition enrich_tasks :: "planner_input \<Rightarrow> graph_analysis \<Rightarrow> schedulable_task list" where
  "enrich_tasks v analysis =
     (let types = milestone_types v;
          external_affected = concat (map ex_affected_tasks (in_externals v));
          positions = prior_positions v
      in map (\<lambda>t. \<lparr>st_id = ts_id t,
           st_class = initial_priority_class (verified_deadline_passed t (in_now v))
             (deadline_type_for t types) NORMAL False False False,
           st_must_start = map_of (ga_must_start analysis) (ts_id t),
           st_deadline = (if ts_deadline_time_known t \<and> ts_deadline_at t \<noteq> None then ts_deadline_at t else None),
           st_unlock_count = int (dget (ga_unlock_count analysis) (ts_id t) 0),
           st_external_commitment = (ts_id t \<in> set external_affected),
           st_importance = NORMAL, st_prior_position = map_of positions (ts_id t),
           st_switch_penalty = 1, st_created = in_now v, st_llm_score = None, st_kind = ''TASK'',
           st_base = ts_remaining_base t, st_safety = ts_remaining_safety t,
           st_splittable = ts_splittable t, st_min_chunk = ts_min_chunk t,
           st_start_after = ts_start_after t\<rparr>)
         (filter (\<lambda>t. \<not> closed_status (ts_status t)) (in_tasks v)))"

definition buffer_id :: "(string \<Rightarrow> uuid) \<Rightarrow> milestone_id \<Rightarrow> string \<Rightarrow> task_id" where
  "buffer_id uuid5 m kind = TaskId (uuid5 (''buffer:'' @ hex_of (ms_value m) @ '':'' @ kind))"

definition synthetic_buffer :: "(string \<Rightarrow> uuid) \<Rightarrow> milestone \<Rightarrow> instant \<Rightarrow> instant \<Rightarrow> string \<Rightarrow> int \<Rightarrow> schedulable_task" where
  "synthetic_buffer uuid5 m limit now kind minutes =
     \<lparr>st_id = buffer_id uuid5 (mi_id m) kind, st_class = P1, st_must_start = Some limit,
      st_deadline = Some limit, st_unlock_count = 0, st_external_commitment = False,
      st_importance = PROTECTED, st_prior_position = None, st_switch_penalty = 0, st_created = now,
      st_llm_score = None, st_kind = kind, st_base = minutes, st_safety = minutes,
      st_splittable = False, st_min_chunk = min minutes 30, st_start_after = None\<rparr>"

definition milestone_buffers :: "(string \<Rightarrow> uuid) \<Rightarrow> tzdb \<Rightarrow> planner_input \<Rightarrow> milestone \<Rightarrow> schedulable_task list" where
  "milestone_buffers uuid5 tz v m =
     (case ed_instant (effective_deadline tz m (in_timezone v)) of
        None \<Rightarrow> []
      | Some limit \<Rightarrow>
          if mi_required_buffer m \<le> 0 then []
          else (let total = mi_required_buffer m;
                    review = - ((- total) div 2);
                    submission = total - review
            in map (\<lambda>(kind, minutes). synthetic_buffer uuid5 m limit (in_now v) kind minutes)
                 (filter (\<lambda>(kind, minutes). 0 < minutes)
                   [(''REVIEW_BUFFER'', review), (''SUBMISSION_BUFFER'', submission)])))"

text \<open>\<open>setdefault(milestone.id, []).append(...)\<close> for every buffer of every milestone\<close>

definition create_synthetic_buffers :: "(string \<Rightarrow> uuid) \<Rightarrow> tzdb \<Rightarrow> planner_input
    \<Rightarrow> (milestone_id, schedulable_task list) dict" where
  "create_synthetic_buffers uuid5 tz v =
     fold (\<lambda>m d. fold (dappend (mi_id m)) (milestone_buffers uuid5 tz v m) d) (in_milestones v) []"

definition fresh_slots :: "tzdb \<Rightarrow> planner_input \<Rightarrow> interval list \<Rightarrow> slot list res" where
  "fresh_slots tz v extra = build_unique_slots tz
     \<lparr>ac_windows = in_windows v, ac_events = in_events v, ac_focus_blocks = extra,
      ac_slot_minutes = in_slot_minutes v, ac_capacity_factor = fl (80/100),
      ac_timezone = in_timezone v\<rparr>"

definition is_required :: "deadline_type \<Rightarrow> bool" where
  "is_required d \<longleftrightarrow> d = HARD_DEADLINE \<or> d = EXTERNAL_COMMITMENT"

definition build_start_gates :: "planner_input \<Rightarrow> start_gates" where
  "build_start_gates v =
     (let active = map ts_id (filter (\<lambda>t. \<not> closed_status (ts_status t)) (in_tasks v))
      in fold (\<lambda>d gates. if dp_type d \<noteq> BLOCKS_START then gates
           else if dp_successor d \<in> set active
           then AList.update (dp_successor d) (List.insert (dp_predecessor d) (dget gates (dp_successor d) [])) gates
           else gates) (in_dependencies v) [])"

fun number_chunks :: "pass_type \<Rightarrow> (task_id, int) dict \<Rightarrow> prior_allocation list \<Rightarrow> task_allocation list res" where
  "number_chunks pt chunks [] = Inr []"
| "number_chunks pt chunks (a # as) =
     (let c = dget chunks (pa_task a) 0 in
      rbind (mk_allocation \<lparr>al_task = pa_task a, al_pass = pt, al_start = pa_start a, al_end = pa_end a,
        al_chunk = c, al_kind = ''TASK'', al_slots = []\<rparr>) (\<lambda>x.
      rbind (number_chunks pt (AList.update (pa_task a) (c + 1) chunks) as) (\<lambda>xs. Inr (x # xs))))"

definition preallocated_for_pass :: "prior_allocation list \<Rightarrow> pass_type \<Rightarrow> task_allocation list res" where
  "preallocated_for_pass as pt = number_chunks pt [] (sort_key (\<lambda>a. (pa_start a, pa_task a)) as)"

definition promotable :: "(milestone_id, deadline_type) dict \<Rightarrow> (task_id, milestone_id option) dict
    \<Rightarrow> schedule_result \<Rightarrow> schedulable_task \<Rightarrow> bool" where
  "promotable types by_task provisional t \<longleftrightarrow>
     st_kind t = ''TASK'' \<and> st_class t \<noteq> P0 \<and> st_id t \<in> set (sr_unallocated provisional)
     \<and> is_required (case dget by_task (st_id t) None of None \<Rightarrow> SOFT_GOAL | Some m \<Rightarrow> dget types m SOFT_GOAL)"

definition promote_infeasible_required_paths_once ::
    "schedulable_task list \<Rightarrow> schedule_result \<Rightarrow> planner_input \<Rightarrow> schedulable_task list \<times> nat" where
  "promote_infeasible_required_paths_once tasks provisional v =
     (let types = milestone_types v;
          by_task = fold (\<lambda>t. AList.update (ts_id t) (ts_milestone t)) (in_tasks v) [];
          p = promotable types by_task provisional
      in (map (\<lambda>t. if p t then t\<lparr>st_class := P0\<rparr> else t) tasks, length (filter p tasks)))"

definition run_planning_passes :: "(string \<Rightarrow> uuid) \<Rightarrow> tzdb \<Rightarrow> planner_input \<Rightarrow> interval list
    \<Rightarrow> prior_allocation list \<Rightarrow> planning_passes res" where
  "run_planning_passes uuid5 tz v extra preallocated =
     rbind (build_graph_analysis tz v) (\<lambda>analysis.
     let tasks = enrich_tasks v analysis;
         buffers = create_synthetic_buffers uuid5 tz v;
         schedulable = tasks @ concat (map snd buffers);
         gates = build_start_gates v
     in rbind (preallocated_for_pass preallocated BASE) (\<lambda>pre_base.
     rbind (preallocated_for_pass preallocated SAFETY) (\<lambda>pre_safety.
     rbind (fresh_slots tz v extra) (\<lambda>slots0.
     rbind (serial_schedule st_base schedulable slots0 ''base'' gates pre_base) (\<lambda>provisional.
     case promote_infeasible_required_paths_once schedulable provisional v of (final, promoted) \<Rightarrow>
     rbind (fresh_slots tz v extra) (\<lambda>slots1.
     rbind (serial_schedule st_base final slots1 ''base'' gates pre_base) (\<lambda>base.
     rbind (fresh_slots tz v extra) (\<lambda>slots2.
     rbind (serial_schedule st_safety final slots2 ''safety'' gates pre_safety) (\<lambda>safety.
     Inr \<lparr>ps_provisional = provisional, ps_base = base, ps_safety = safety, ps_promoted = promoted,
       ps_buffers = buffers\<rparr>)))))))))"

section \<open>Promotion\<close>

lemma dget_eqI: "map_of d k = Some v \<Longrightarrow> dget d k w = v"
  by (simp add: dget_def)

lemma dget_None: "map_of d k = None \<Longrightarrow> dget d k w = w"
  by (simp add: dget_def)

text \<open>The task stands for an open task of the input whose milestone has a required deadline.\<close>

definition required_by_milestone :: "planner_input \<Rightarrow> task_id \<Rightarrow> bool" where
  "required_by_milestone v t \<longleftrightarrow> (\<exists>x\<in>set (in_tasks v). ts_id x = t
     \<and> (\<exists>m\<in>set (in_milestones v). ts_milestone x = Some (mi_id m)
          \<and> (mi_deadline_type m = HARD_DEADLINE \<or> mi_deadline_type m = EXTERNAL_COMMITMENT)))"

lemma is_required_iff:
  assumes "distinct (map ts_id (in_tasks v))" and "distinct (map mi_id (in_milestones v))"
  shows "is_required (case dget (fold (\<lambda>t. AList.update (ts_id t) (ts_milestone t)) (in_tasks v) []) t None of
      None \<Rightarrow> SOFT_GOAL | Some m \<Rightarrow> dget (milestone_types v) m SOFT_GOAL) \<longleftrightarrow> required_by_milestone v t"
proof -
  let ?d = "fold (\<lambda>t. AList.update (ts_id t) (ts_milestone t)) (in_tasks v) []"
  note dt = fold_update_Some_iff [OF assms(1), of ts_milestone]
  note dm = fold_update_Some_iff [OF assms(2), of mi_deadline_type, folded milestone_types_def]
  have task: "x = y" if "x \<in> set (in_tasks v)" "y \<in> set (in_tasks v)" "ts_id x = ts_id y" for x y
    using assms(1) that by (auto simp: distinct_map dest: inj_onD)
  have mile: "m = n" if "m \<in> set (in_milestones v)" "n \<in> set (in_milestones v)" "mi_id m = mi_id n" for m n
    using assms(2) that by (auto simp: distinct_map dest: inj_onD)
  show ?thesis
  proof (cases "map_of ?d t")
    case None
    then have "\<not> (\<exists>x\<in>set (in_tasks v). ts_id x = t)" using dt [of t] by auto
    then show ?thesis using None by (auto simp: dget_None required_by_milestone_def is_required_def)
  next
    case (Some mo)
    then obtain x where x: "x \<in> set (in_tasks v)" "ts_id x = t" "ts_milestone x = mo" using dt [of t mo] by auto
    have red: "required_by_milestone v t \<longleftrightarrow> (\<exists>m\<in>set (in_milestones v). mo = Some (mi_id m)
          \<and> (mi_deadline_type m = HARD_DEADLINE \<or> mi_deadline_type m = EXTERNAL_COMMITMENT))"
      unfolding required_by_milestone_def using x task by blast
    show ?thesis
    proof (cases mo)
      case None
      then show ?thesis using Some red by (simp add: dget_eqI is_required_def)
    next
      case mid: (Some mid)
      show ?thesis
      proof (cases "map_of (milestone_types v) mid")
        case None
        then have "\<not> (\<exists>m\<in>set (in_milestones v). mi_id m = mid)" using dm [of mid] by auto
        then show ?thesis using Some red mid None
          by (auto simp: dget_eqI dget_None is_required_def)
      next
        case dd: (Some dd)
        then obtain m where m: "m \<in> set (in_milestones v)" "mi_id m = mid" "mi_deadline_type m = dd"
          using dm [of mid dd] by auto
        have "required_by_milestone v t \<longleftrightarrow> is_required dd"
          unfolding red is_required_def using m mid mile by auto
        then show ?thesis using Some mid dd by (simp add: dget_eqI)
      qed
    qed
  qed
qed

text \<open>
  For distinct task and milestone ids, promotion puts exactly those tasks into the
  rescue class that the provisional pass left out, that are not in it yet, and whose
  milestone has a hard or externally committed deadline; it counts them and leaves
  buffers, order and every other field alone.
\<close>

theorem promotion_exact:
  assumes "distinct (map ts_id (in_tasks v))" and "distinct (map mi_id (in_milestones v))"
  shows "promote_infeasible_required_paths_once tasks provisional v =
    (let p = (\<lambda>t. st_kind t = ''TASK'' \<and> st_class t \<noteq> P0 \<and> st_id t \<in> set (sr_unallocated provisional)
         \<and> required_by_milestone v (st_id t))
     in (map (\<lambda>t. if p t then t\<lparr>st_class := P0\<rparr> else t) tasks, length (filter p tasks)))"
  unfolding promote_infeasible_required_paths_once_def promotable_def is_required_iff [OF assms] Let_def ..

lemma promotion_exact_witness:
  "promote_infeasible_required_paths_once [plain_task (TaskId 1) P1 30, plain_task (TaskId 3) P1 30]
     \<lparr>sr_allocations = [], sr_unallocated = [TaskId 1, TaskId 3], sr_total = 0, sr_ledger = []\<rparr> small_input
   = ([plain_task (TaskId 1) P0 30, plain_task (TaskId 3) P1 30], 1)"
  using promotion_exact [of small_input "[plain_task (TaskId 1) P1 30, plain_task (TaskId 3) P1 30]"
    "\<lparr>sr_allocations = [], sr_unallocated = [TaskId 1, TaskId 3], sr_total = 0, sr_ledger = []\<rparr>"]
  by (simp add: small_defs plain_task_def required_by_milestone_def Let_def)

section \<open>What a pass plans\<close>

definition busy :: "task_allocation \<Rightarrow> instant \<Rightarrow> bool" where
  "busy a x \<longleftrightarrow> al_start a \<le> x \<and> x < al_end a"

definition prior_block :: "prior_allocation \<Rightarrow> task_id \<times> instant \<times> instant" where
  "prior_block p = (pa_task p, pa_start p, pa_end p)"

definition plan_block :: "task_allocation \<Rightarrow> task_id \<times> instant \<times> instant" where
  "plan_block a = (al_task a, al_start a, al_end a)"

text \<open>
  A sound plan: the kept prior work exactly where it was, followed by new work that stays
  inside the windows and off fixed events, protected intervals and kept work, never doubles
  up, and starts after whatever blocks it.
\<close>

definition sound_plan :: "planner_input \<Rightarrow> interval list \<Rightarrow> prior_allocation list \<Rightarrow> schedule_result \<Rightarrow> bool" where
  "sound_plan v extra kept r \<longleftrightarrow> (\<exists>pre made. sr_allocations r = pre @ made
     \<and> mset (map plan_block pre) = mset (map prior_block kept)
     \<and> (\<forall>a\<in>set made. \<forall>x. busy a x \<longrightarrow>
          (\<exists>w\<in>set (in_windows v). aw_start w \<le> x \<and> x < aw_end w)
          \<and> (\<forall>e\<in>set (in_events v). ce_kind e = FIXED_BUSY \<longrightarrow> \<not> (ce_start e \<le> x \<and> x < ce_end e))
          \<and> (\<forall>i\<in>set extra. \<not> (iv_start i \<le> x \<and> x < iv_end i))
          \<and> (\<forall>b\<in>set pre. \<not> busy b x))
     \<and> (\<forall>i<length made. \<forall>j<length made. i \<noteq> j \<longrightarrow> \<not> (\<exists>x. busy (made ! i) x \<and> busy (made ! j) x))
     \<and> (\<forall>d\<in>set (in_dependencies v). dp_type d = BLOCKS_START \<longrightarrow>
          (\<exists>t\<in>set (in_tasks v). ts_id t = dp_successor d \<and> \<not> closed_status (ts_status t)) \<longrightarrow>
          (\<forall>a\<in>set made. \<forall>b\<in>set (sr_allocations r). al_task a = dp_successor d \<longrightarrow>
             al_task b = dp_predecessor d \<longrightarrow> al_end b \<le> al_start a)))"

lemma adjacent_cover:
  "adjacent ss \<Longrightarrow> ss \<noteq> [] \<Longrightarrow> sl_start (hd ss) \<le> x \<Longrightarrow> x < sl_end (last ss) \<Longrightarrow>
     \<exists>s\<in>set ss. sl_start s \<le> x \<and> x < sl_end s"
proof (induction ss rule: adjacent.induct)
  case (3 s t ss)
  show ?case
  proof (cases "x < sl_end s")
    case False
    then have "\<exists>u\<in>set (t # ss). sl_start u \<le> x \<and> x < sl_end u" using 3 by simp
    then show ?thesis by auto
  qed (use 3 in auto)
qed auto

lemma tile_parts_window:
  assumes "tile_parts ws slots" and "s \<in> set slots"
  shows "sl_start s < sl_end s \<and> (\<exists>w\<in>set ws. aw_start w \<le> sl_start s \<and> sl_end s \<le> aw_end w)"
proof -
  have pos: "tiles a p b \<Longrightarrow> s \<in> set p \<Longrightarrow> sl_start s < sl_end s" for a p b
    by (induction p arbitrary: a) auto
  from assms obtain parts q where q: "list_all2 (\<lambda>w p. tiles (aw_start w) p (aw_end w)) ws parts"
    "q \<in> set parts" "s \<in> set q" by (auto simp: tile_parts_def)
  then obtain i where i: "i < length parts" "q = parts ! i" by (auto simp: in_set_conv_nth)
  have "tiles (aw_start (ws ! i)) q (aw_end (ws ! i))" "ws ! i \<in> set ws"
    using i list_all2_lengthD [OF q(1)] list_all2_nthD2 [OF q(1) i(1)] by simp_all
  then show ?thesis using tiles_inside pos q(3) by blast
qed

text \<open>The slots a pass works on.\<close>

lemma fresh_slots_ok:
  assumes slot: "0 < in_slot_minutes v" and ws: "\<forall>w\<in>set (in_windows v). aw_start w \<le> aw_end w"
    and ap: "sorted_wrt windows_apart (in_windows v)"
  shows "\<exists>slots. fresh_slots tz v extra = Inr slots \<and> valid_slots slots \<and> sorted_wrt slots_apart slots
    \<and> (\<forall>s\<in>set slots. (\<exists>w\<in>set (in_windows v). aw_start w \<le> sl_start s \<and> sl_end s \<le> aw_end w)
       \<and> (sl_state s = FREE \<longrightarrow>
          (\<forall>e\<in>set (in_events v). ce_kind e = FIXED_BUSY \<longrightarrow> \<not> (sl_start s < ce_end e \<and> ce_start e < sl_end s))
          \<and> (\<forall>i\<in>set extra. \<not> (sl_start s < iv_end i \<and> iv_start i < sl_end s))))"
proof -
  define c where "c = \<lparr>ac_windows = in_windows v, ac_events = in_events v, ac_focus_blocks = extra,
      ac_slot_minutes = in_slot_minutes v, ac_capacity_factor = fl (80/100), ac_timezone = in_timezone v\<rparr>"
  have cs: "ac_windows c = in_windows v" "ac_events c = in_events v" "ac_focus_blocks c = extra"
    "ac_slot_minutes c = in_slot_minutes v" by (simp_all add: c_def)
  have fr: "fresh_slots tz v extra = build_unique_slots tz c" by (simp add: fresh_slots_def c_def)
  have c: "0 < ac_slot_minutes c" "\<forall>w\<in>set (ac_windows c). aw_start w \<le> aw_end w"
    "sorted_wrt windows_apart (ac_windows c)" using assms by (simp_all add: cs)
  from build_slots_tile [OF c(1,2), of tz] obtain slots where
    b: "build_unique_slots tz c = Inr slots" and t: "tile_parts (in_windows v) slots"
    and d: "distinct (map sl_id slots)" by (auto simp: cs)
  have st: "sl_state s \<in> (if list_ex (overlaps_interval s) (fixed_event_intervals c) then {FIXED_EVENT}
    else if list_ex (overlaps_interval s) extra then {PROTECTED_FOCUS_BLOCK} else {FREE, BUFFER})"
    if "s \<in> set slots" for s
    using build_slots_state [OF c(1,2) b that] unfolding cs .
  have free: "\<not> (sl_start s < ce_end e \<and> ce_start e < sl_end s)"
    if s: "s \<in> set slots" "sl_state s = FREE" and e: "e \<in> set (in_events v)" "ce_kind e = FIXED_BUSY" for s e
  proof -
    have "\<not> list_ex (overlaps_interval s) (fixed_event_intervals c)"
      using st [OF s(1)] s(2) by (auto split: if_splits)
    then show ?thesis using e by (auto simp: list_ex_iff fixed_event_intervals_def overlaps_interval_def cs)
  qed
  have free': "\<not> (sl_start s < iv_end i \<and> iv_start i < sl_end s)"
    if s: "s \<in> set slots" "sl_state s = FREE" and i: "i \<in> set extra" for s i
  proof -
    have "\<not> list_ex (overlaps_interval s) extra" using st [OF s(1)] s(2) by (auto split: if_splits)
    then show ?thesis using i by (auto simp: list_ex_iff overlaps_interval_def)
  qed
  have "valid_slots slots" using d tile_parts_window [OF t] by (auto simp: valid_slots_def)
  moreover have "sorted_wrt slots_apart slots" by (rule build_slots_apart [OF c b])
  ultimately show ?thesis
    unfolding fr using b free free' tile_parts_window [OF t] by blast
qed

lemma start_gates_member:
  assumes "d \<in> set (in_dependencies v)" and "dp_type d = BLOCKS_START"
    and "\<exists>t\<in>set (in_tasks v). ts_id t = dp_successor d \<and> \<not> closed_status (ts_status t)"
  shows "dp_predecessor d \<in> set (dget (build_start_gates v) (dp_successor d) [])"
proof -
  define active where "active = map ts_id (filter (\<lambda>t. \<not> closed_status (ts_status t)) (in_tasks v))"
  define step where "step = (\<lambda>(d :: task_dependency) gates. if dp_type d \<noteq> BLOCKS_START then gates
           else if dp_successor d \<in> set active
           then AList.update (dp_successor d) (List.insert (dp_predecessor d) (dget gates (dp_successor d) [])) gates
           else gates)"
  have act: "dp_successor d \<in> set active" using assms(3) by (force simp: active_def)
  have keep: "p \<in> set (dget g s []) \<Longrightarrow> p \<in> set (dget (fold step ds g) s [])" for p s ds g
  proof (induction ds arbitrary: g)
    case (Cons e ds)
    have "p \<in> set (dget (step e g) s [])" using Cons.prems by (auto simp: step_def dict_simps)
    from Cons.IH [OF this] show ?case by simp
  qed simp
  have "d \<in> set ds \<Longrightarrow> dp_predecessor d \<in> set (dget (fold step ds g) (dp_successor d) [])" for ds g
  proof (induction ds arbitrary: g)
    case (Cons e ds)
    show ?case
    proof (cases "e = d")
      case True
      then show ?thesis using keep [of "dp_predecessor d" "step d g" "dp_successor d" ds] act assms(2)
        by (simp add: step_def dict_simps)
    qed (use Cons in simp)
  qed simp
  then show ?thesis using assms(1)
    unfolding build_start_gates_def Let_def active_def [symmetric] step_def [symmetric] by blast
qed

lemma number_chunks_ok:
  "\<forall>a\<in>set as. pa_start a < pa_end a \<Longrightarrow> \<forall>t. 0 \<le> dget ch t 0 \<Longrightarrow>
     \<exists>xs. number_chunks pt ch as = Inr xs \<and> (\<forall>x\<in>set xs. al_start x < al_end x)"
proof (induction as arbitrary: ch)
  case (Cons a as)
  let ?ch = "AList.update (pa_task a) (dget ch (pa_task a) 0 + 1) ch"
  have "\<forall>t. 0 \<le> dget ?ch t 0" using Cons.prems(2) by (auto simp: dict_simps add_nonneg_nonneg)
  with Cons.IH [of ?ch] Cons.prems(1) obtain xs where
    "number_chunks pt ?ch as = Inr xs" "\<forall>x\<in>set xs. al_start x < al_end x" by auto
  moreover have "mk_allocation \<lparr>al_task = pa_task a, al_pass = pt, al_start = pa_start a, al_end = pa_end a,
        al_chunk = dget ch (pa_task a) 0, al_kind = ''TASK'', al_slots = []\<rparr> = Inr \<lparr>al_task = pa_task a, al_pass = pt, al_start = pa_start a, al_end = pa_end a,
        al_chunk = dget ch (pa_task a) 0, al_kind = ''TASK'', al_slots = []\<rparr>"
    using Cons.prems by (simp add: mk_allocation_iff)
  ultimately show ?case using Cons.prems(1) by (auto simp: Let_def)
qed simp

lemma number_chunks_blocks:
  "number_chunks pt chunks as = Inr xs \<Longrightarrow> map plan_block xs = map prior_block as"
proof (induction as arbitrary: chunks xs)
  case (Cons a as)
  from Cons.prems obtain x ys where "xs = x # ys" "plan_block x = prior_block a"
    "number_chunks pt (AList.update (pa_task a) (dget chunks (pa_task a) 0 + 1) chunks) as = Inr ys"
    by (auto simp: Let_def res_simps mk_allocation_iff plan_block_def prior_block_def)
  with Cons.IH show ?case by simp
qed simp

lemma preallocated_ok:
  assumes "\<forall>a\<in>set as. pa_start a < pa_end a"
  shows "\<exists>xs. preallocated_for_pass as pt = Inr xs \<and> (\<forall>x\<in>set xs. al_start x < al_end x)
     \<and> mset (map plan_block xs) = mset (map prior_block as)"
proof -
  have "\<exists>xs. preallocated_for_pass as pt = Inr xs \<and> (\<forall>x\<in>set xs. al_start x < al_end x)"
    unfolding preallocated_for_pass_def by (rule number_chunks_ok) (simp_all add: dict_simps assms)
  then obtain xs where xs: "preallocated_for_pass as pt = Inr xs" "\<forall>x\<in>set xs. al_start x < al_end x" by blast
  have "map plan_block xs = map prior_block (sort_key (\<lambda>a. (pa_start a, pa_task a)) as)"
    by (rule number_chunks_blocks) (rule xs(1) [unfolded preallocated_for_pass_def])
  then have "mset (map plan_block xs) = mset (map prior_block as)" by (simp only: mset_map mset_sort)
  with xs show ?thesis by blast
qed

text \<open>One schedule over fresh slots is a sound plan.\<close>

lemma schedule_sound:
  assumes slots: "fresh_slots tz v extra = Inr slots" "valid_slots slots" "sorted_wrt slots_apart slots"
    and sl: "\<forall>s\<in>set slots. (\<exists>w\<in>set (in_windows v). aw_start w \<le> sl_start s \<and> sl_end s \<le> aw_end w)
       \<and> (sl_state s = FREE \<longrightarrow>
          (\<forall>e\<in>set (in_events v). ce_kind e = FIXED_BUSY \<longrightarrow> \<not> (sl_start s < ce_end e \<and> ce_start e < sl_end s))
          \<and> (\<forall>i\<in>set extra. \<not> (sl_start s < iv_end i \<and> iv_start i < sl_end s)))"
    and ids: "distinct (map st_id tasks)" and pass: "pass \<in> {''base'', ''safety''}"
    and pre: "\<forall>b\<in>set pre. al_start b < al_end b" and kept: "mset (map plan_block pre) = mset (map prior_block kept)"
  shows "\<exists>r. serial_schedule duration tasks slots pass (build_start_gates v) pre = Inr r \<and> sound_plan v extra kept r"
proof -
  from serial_schedule_ok [OF slots(2) ids pass, of duration "build_start_gates v" pre] obtain r made st where
    r: "serial_schedule duration tasks slots pass (build_start_gates v) pre = Inr r" "sr_allocations r = pre @ made"
    and li: "ledger_inv (reserve_all pre (new_ledger slots)) made (sr_ledger r)"
    and g: "ss_allocs st = pre @ made" "gate_inv (build_start_gates v) made st"
    using slots(3) pre by blast
  have seg: "\<exists>seg. set seg \<subseteq> set slots \<and> al_slots a = map sl_id seg \<and> (\<forall>s\<in>set seg. sl_state s = FREE)
      \<and> (\<forall>x. busy a x \<longrightarrow> (\<exists>s\<in>set seg. sl_start s \<le> x \<and> x < sl_end s))" if "a \<in> set made" for a
    using made_slots [OF li that] adjacent_cover unfolding busy_def by metis
  have cover: "\<exists>s\<in>set slots. sl_state s = FREE \<and> sl_id s \<in> set (al_slots a) \<and> sl_start s \<le> x \<and> x < sl_end s"
    if "a \<in> set made" "busy a x" for a x
    using seg [OF that(1)] that(2) by (metis image_eqI list.set_map subsetD)
  have dist: "distinct (concat (map al_slots made))"
    using li book.serves_distinct [of "reserve_all pre (new_ledger slots)" "map claim_of made" "sr_ledger r"]
    by (simp add: ledger_inv_def comp_def)
  have sym: "slots_apart s u \<Longrightarrow> slots_apart u s" for s u by (auto simp: slots_apart_def)
  have apart: "slots_apart s u" if "s \<in> set slots" "u \<in> set slots" "s \<noteq> u" for s u
    using slots(3) that sym by (induction slots) auto
  have double: "\<not> (busy (made ! i) x \<and> busy (made ! j) x)" if ij: "i < length made" "j < length made" "i \<noteq> j" for i j x
  proof
    assume "busy (made ! i) x \<and> busy (made ! j) x"
    with cover ij obtain s u where su: "s \<in> set slots" "sl_id s \<in> set (al_slots (made ! i))" "sl_start s \<le> x" "x < sl_end s"
      "u \<in> set slots" "sl_id u \<in> set (al_slots (made ! j))" "sl_start u \<le> x" "x < sl_end u" by (metis nth_mem)
    then have "\<not> slots_apart s u" by (auto simp: slots_apart_def)
    then have "s = u" using apart su(1,5) by blast
    then have "sl_id s \<in> set (map al_slots made ! i) \<inter> set (map al_slots made ! j)" using su ij by simp
    moreover have "set (map al_slots made ! i) \<inter> set (map al_slots made ! j) = {}"
      using distinct_concat_nth [OF dist] ij by simp
    ultimately show False by blast
  qed
  have "sound_plan v extra kept r"
    unfolding sound_plan_def
  proof (rule exI [of _ pre], rule exI [of _ made], intro conjI ballI allI impI)
    show "sr_allocations r = pre @ made" by (rule r(2))
    show "mset (map plan_block pre) = mset (map prior_block kept)" by (rule kept)
  next
    fix a x assume a: "a \<in> set made" "busy a x"
    from cover [OF a] obtain s where s: "s \<in> set slots" "sl_state s = FREE" "sl_start s \<le> x" "x < sl_end s" by blast
    with sl show "\<exists>w\<in>set (in_windows v). aw_start w \<le> x \<and> x < aw_end w" by force
    show "\<not> (ce_start e \<le> x \<and> x < ce_end e)" if "e \<in> set (in_events v)" "ce_kind e = FIXED_BUSY" for e
      using sl s that by force
    show "\<not> (iv_start i \<le> x \<and> x < iv_end i)" if "i \<in> set extra" for i
      using sl s that by force
    show "\<not> busy b x" if b: "b \<in> set pre" for b
      using made_avoids [OF li new_ledger_positive [OF slots(2)] a(1) b] pre b a(2) by (auto simp: busy_def)
  next
    fix i j assume "i < length made" "j < length made" "i \<noteq> j"
    then show "\<not> (\<exists>x. busy (made ! i) x \<and> busy (made ! j) x)" using double by blast
  next
    fix d a b assume d: "d \<in> set (in_dependencies v)" "dp_type d = BLOCKS_START"
      "\<exists>t\<in>set (in_tasks v). ts_id t = dp_successor d \<and> \<not> closed_status (ts_status t)"
      and ab: "a \<in> set made" "b \<in> set (sr_allocations r)" "al_task a = dp_successor d" "al_task b = dp_predecessor d"
    from start_gates_member [OF d] g ab r(2) show "al_end b \<le> al_start a"
      unfolding gate_inv_def by metis
  qed
  then show ?thesis using r(1) by blast
qed

text \<open>The ids of the input's tasks and of the buffers derived from its milestones are all different.\<close>

definition distinct_task_ids :: "(string \<Rightarrow> uuid) \<Rightarrow> tzdb \<Rightarrow> planner_input \<Rightarrow> bool" where
  "distinct_task_ids uuid5 tz v \<longleftrightarrow> distinct (map ts_id (in_tasks v)
     @ map st_id (concat (map snd (create_synthetic_buffers uuid5 tz v))))"

abbreviation plannable :: "(string \<Rightarrow> uuid) \<Rightarrow> tzdb \<Rightarrow> planner_input \<Rightarrow> bool" where
  "plannable uuid5 tz v \<equiv> wf_input tz v \<and> (\<forall>w\<in>set (in_windows v). aw_start w \<le> aw_end w)
     \<and> sorted_wrt windows_apart (in_windows v) \<and> distinct_task_ids uuid5 tz v
     \<and> (\<forall>d\<in>set (in_dependencies v). tid_value (dp_predecessor d) \<noteq> 0)"

lemma enrich_ids: "map st_id (enrich_tasks v a) = map ts_id (filter (\<lambda>t. \<not> closed_status (ts_status t)) (in_tasks v))"
  by (simp add: enrich_tasks_def Let_def)

lemma promotion_ids: "map st_id (fst (promote_infeasible_required_paths_once ts r v)) = map st_id ts"
  by (simp add: promote_infeasible_required_paths_once_def Let_def)

lemma run_planning_passes_ok:
  assumes "plannable uuid5 tz v" and "\<forall>a\<in>set preallocated. pa_start a < pa_end a"
  shows "\<exists>ps. run_planning_passes uuid5 tz v extra preallocated = Inr ps
    \<and> sound_plan v extra preallocated (ps_provisional ps) \<and> sound_plan v extra preallocated (ps_base ps) \<and> sound_plan v extra preallocated (ps_safety ps)
    \<and> ps_buffers ps = create_synthetic_buffers uuid5 tz v"
proof -
  from build_graph_analysis_result [of v tz] assms(1) obtain a where a: "build_graph_analysis tz v = Inr a" by blast
  define ts where "ts = enrich_tasks v a @ concat (map snd (create_synthetic_buffers uuid5 tz v))"
  have ids: "distinct (map st_id ts)"
    using assms(1) unfolding ts_def map_append enrich_ids distinct_task_ids_def
    by (auto simp: distinct_map_filter)
  have slot: "0 < in_slot_minutes v" using assms(1) by (simp add: wf_input_def)
  from fresh_slots_ok [OF slot, of tz extra] assms(1) obtain slots where
    fs: "fresh_slots tz v extra = Inr slots" "valid_slots slots" "sorted_wrt slots_apart slots"
    and sl: "\<forall>s\<in>set slots. (\<exists>w\<in>set (in_windows v). aw_start w \<le> sl_start s \<and> sl_end s \<le> aw_end w)
       \<and> (sl_state s = FREE \<longrightarrow>
          (\<forall>e\<in>set (in_events v). ce_kind e = FIXED_BUSY \<longrightarrow> \<not> (sl_start s < ce_end e \<and> ce_start e < sl_end s))
          \<and> (\<forall>i\<in>set extra. \<not> (sl_start s < iv_end i \<and> iv_start i < sl_end s)))" by blast
  note sound = schedule_sound [OF fs sl]
  from preallocated_ok [OF assms(2)] obtain pb where
    pb: "preallocated_for_pass preallocated BASE = Inr pb" "\<forall>b\<in>set pb. al_start b < al_end b"
    "mset (map plan_block pb) = mset (map prior_block preallocated)" by blast
  from preallocated_ok [OF assms(2)] obtain ps where
    ps: "preallocated_for_pass preallocated SAFETY = Inr ps" "\<forall>b\<in>set ps. al_start b < al_end b"
    "mset (map plan_block ps) = mset (map prior_block preallocated)" by blast
  from sound [OF ids _ pb(2,3), of "''base''" st_base] obtain r0 where
    r0: "serial_schedule st_base ts slots ''base'' (build_start_gates v) pb = Inr r0" "sound_plan v extra preallocated r0" by auto
  obtain final n where f: "promote_infeasible_required_paths_once ts r0 v = (final, n)" by fastforce
  have ids': "distinct (map st_id final)" using promotion_ids [of ts r0 v] f ids by simp
  from sound [OF ids' _ pb(2,3), of "''base''" st_base] obtain r1 where
    r1: "serial_schedule st_base final slots ''base'' (build_start_gates v) pb = Inr r1" "sound_plan v extra preallocated r1" by auto
  from sound [OF ids' _ ps(2,3), of "''safety''" st_safety] obtain r2 where
    r2: "serial_schedule st_safety final slots ''safety'' (build_start_gates v) ps = Inr r2" "sound_plan v extra preallocated r2" by auto
  show ?thesis
    unfolding run_planning_passes_def a rbind.simps Let_def pb(1) ps(1) fs(1) ts_def [symmetric] r0(1) f prod.case r1(1) r2(1)
    using r0(2) r1(2) r2(2) by simp
qed

text \<open>
  Planning passes succeed on every well-formed input with non-overlapping windows,
  distinct task ids and no nil predecessor, whatever intervals are protected and whatever
  work is preallocated, and each of the three plans is sound: it consists of exactly the
  preallocated blocks, unmoved, and new work that lies inside the windows, off fixed events,
  protected intervals and preallocated work, is never doubled up, and starts after
  everything that blocks it.
\<close>

theorem run_planning_passes_sound:
  assumes "plannable uuid5 tz v" and "\<forall>a\<in>set preallocated. pa_start a < pa_end a"
  shows "\<exists>ps. run_planning_passes uuid5 tz v extra preallocated = Inr ps
    \<and> sound_plan v extra preallocated (ps_provisional ps) \<and> sound_plan v extra preallocated (ps_base ps) \<and> sound_plan v extra preallocated (ps_safety ps)"
  using run_planning_passes_ok [OF assms] by blast

text \<open>A stand-in for \<open>uuid5\<close> that tells the two buffer names of the small input apart.\<close>

definition length_uuid5 :: "string \<Rightarrow> uuid" where
  "length_uuid5 s = word_of_nat (100 + length s)"

lemma small_input_plannable: "plannable length_uuid5 utc_tzdb small_input"
proof -
  have "distinct_task_ids length_uuid5 utc_tzdb small_input"
    by (simp add: distinct_task_ids_def create_synthetic_buffers_def milestone_buffers_def effective_deadline_def
        small_defs synthetic_buffer_def buffer_id_def length_uuid5_def hex_of_def dappend_def dget_def Let_def)
  moreover have "\<forall>w\<in>set (in_windows small_input). aw_start w \<le> aw_end w" "sorted_wrt windows_apart (in_windows small_input)"
    "\<forall>d\<in>set (in_dependencies small_input). tid_value (dp_predecessor d) \<noteq> 0" by (simp_all add: small_defs)
  ultimately show ?thesis using small_input_wf by simp
qed

lemma run_planning_passes_sound_witness:
  "\<exists>ps. run_planning_passes length_uuid5 utc_tzdb small_input [] [] = Inr ps \<and> sound_plan small_input [] [] (ps_base ps)"
  using run_planning_passes_sound [OF small_input_plannable, of "[]" "[]"] by auto

end
