(* ===== verification/Risk.thy ===== *)
theory Risk
  imports Passes
begin

text \<open>
  Coverage, slack and risk classes (\<open>risk/coverage.py\<close>, \<open>risk/classify.py\<close>) and the risk of
  external deliveries (\<open>risk/external.py\<close>). Coverages are quotients of minutes in double
  arithmetic. The results: the classification agrees with its integer specification, with
  no rounding effect on any comparison, and so does the classification of deliveries.
\<close>

section \<open>Coverage\<close>

record milestone_coverage =
  cv_milestone :: milestone_id
  cv_base_required :: int
  cv_safety_required :: int
  cv_base_allocated :: int
  cv_safety_allocated :: int
  cv_buffers_allocated :: int
  cv_buffer_required :: int
  cv_deadline_limit :: "instant option"
  cv_date_only :: bool
  cv_has_cycle_member :: bool

definition base_coverage :: "milestone_coverage \<Rightarrow> rat" where
  "base_coverage c = (if cv_base_required c \<le> 0 then 1
     else fl (of_int (cv_base_allocated c) / of_int (cv_base_required c)))"

definition safety_coverage :: "milestone_coverage \<Rightarrow> rat" where
  "safety_coverage c = (let required = cv_safety_required c + cv_buffer_required c in
     if required \<le> 0 then 1
     else fl (of_int (cv_safety_allocated c + cv_buffers_allocated c) / of_int required))"

definition unallocated_safety_minutes :: "milestone_coverage \<Rightarrow> int" where
  "unallocated_safety_minutes c = (let required = cv_safety_required c + cv_buffer_required c in
     max 0 (required - cv_safety_allocated c - cv_buffers_allocated c))"

definition ends_with :: "string \<Rightarrow> string \<Rightarrow> bool" where
  "ends_with s suf \<longleftrightarrow> drop (length s - length suf) s = suf"

definition allocation_minutes_before :: "schedule_result \<Rightarrow> task_id list \<Rightarrow> instant option \<Rightarrow> int" where
  "allocation_minutes_before r members limit =
     fold (\<lambda>a n.
       if al_task a \<notin> set members then n
       else if al_kind a \<noteq> ''TASK'' \<and> \<not> ends_with (al_kind a) ''_BUFFER'' then n
       else if (case limit of None \<Rightarrow> True | Some l \<Rightarrow> al_end a \<le> l) then n + al_minutes a
       else n) (sr_allocations r) 0"

definition free_slack_after_pass :: "planner_input \<Rightarrow> planning_passes \<Rightarrow> instant option \<Rightarrow> int" where
  "free_slack_after_pass v ps limit = (case limit of None \<Rightarrow> 0
     | Some l \<Rightarrow> if l \<le> in_now v then 0
         else sum_list (map ls_minutes (filter (\<lambda>s. in_now v \<le> ls_start s \<and> ls_end s \<le> l)
           (free_slots (sr_ledger (ps_safety ps))))))"

definition tasks_by_milestone :: "planner_input \<Rightarrow> (milestone_id option, task list) dict" where
  "tasks_by_milestone v = fold (\<lambda>t. dappend (ts_milestone t) t)
     (filter (\<lambda>t. \<not> closed_status (ts_status t)) (in_tasks v)) []"

definition milestone_coverage_of :: "tzdb \<Rightarrow> planner_input \<Rightarrow> planning_passes \<Rightarrow> graph_analysis
    \<Rightarrow> milestone \<Rightarrow> milestone_coverage" where
  "milestone_coverage_of tz v ps analysis m =
     (let member_tasks = dget (tasks_by_milestone v) (Some (mi_id m)) [];
          members = map ts_id member_tasks;
          limit = ed_instant (effective_deadline tz m (in_timezone v));
          buffers = dget (ps_buffers ps) (mi_id m) []
      in \<lparr>cv_milestone = mi_id m,
          cv_base_required = sum_list (map ts_remaining_base member_tasks),
          cv_safety_required = sum_list (map ts_remaining_safety member_tasks),
          cv_base_allocated = allocation_minutes_before (ps_base ps) members limit,
          cv_safety_allocated = allocation_minutes_before (ps_safety ps) members limit,
          cv_buffers_allocated = allocation_minutes_before (ps_safety ps) (map st_id buffers) limit,
          cv_buffer_required = sum_list (map st_safety buffers),
          cv_deadline_limit = limit,
          cv_date_only = (mi_deadline_date_known m \<and> \<not> mi_deadline_time_known m),
          cv_has_cycle_member = list_ex (\<lambda>t. t \<in> set (ga_blocked analysis)) members\<rparr>)"

definition milestone_coverages :: "tzdb \<Rightarrow> planner_input \<Rightarrow> planning_passes \<Rightarrow> graph_analysis
    \<Rightarrow> milestone_coverage list" where
  "milestone_coverages tz v ps analysis = map (milestone_coverage_of tz v ps analysis) (in_milestones v)"

section \<open>Classification\<close>

datatype risk_level = CRITICAL | HIGH | MEDIUM | LOW | UNKNOWN

fun risk_level_value :: "risk_level \<Rightarrow> string" where
  "risk_level_value CRITICAL = ''CRITICAL''"
| "risk_level_value HIGH = ''HIGH''"
| "risk_level_value MEDIUM = ''MEDIUM''"
| "risk_level_value LOW = ''LOW''"
| "risk_level_value UNKNOWN = ''UNKNOWN''"

record risk_assessment =
  ra_milestone :: milestone_id
  ra_level :: string
  ra_base_coverage :: rat
  ra_safety_coverage :: rat
  ra_slack :: "int option"
  ra_reasons :: "string list"

definition medium_threshold :: "int \<Rightarrow> int \<Rightarrow> int" where
  "medium_threshold minutes slot =
     max 30 (\<lceil>fdiv (fmul (fl (10/100)) (fl (of_int minutes))) (of_int slot)\<rceil> * slot)"

definition classify_milestone :: "milestone_coverage \<Rightarrow> int option \<Rightarrow> int \<Rightarrow> risk_level \<times> string list" where
  "classify_milestone c slack slot =
     (if cv_has_cycle_member c then (CRITICAL, [''DEPENDENCY_CYCLE_BLOCKS_REQUIRED_PATH''])
      else if cv_date_only c then (UNKNOWN, [''UNKNOWN_DATE_ONLY_DEADLINE''])
      else if cv_deadline_limit c = None then (UNKNOWN, [''UNKNOWN_MISSING_DEADLINE''])
      else if base_coverage c < 1 then (CRITICAL, [''BASE_COVERAGE_BELOW_ONE''])
      else if safety_coverage c < 1 then (HIGH, [''SAFETY_COVERAGE_BELOW_ONE''])
      else if cv_buffers_allocated c < cv_buffer_required c then (HIGH, [''MANDATORY_BUFFER_UNALLOCATED''])
      else (let threshold = medium_threshold (cv_safety_required c + cv_buffer_required c) slot;
                effective_slack = (case slack of None \<Rightarrow> 0 | Some s \<Rightarrow> s)
        in if effective_slack < threshold then (MEDIUM, [''SLACK_BELOW_THRESHOLD'']) else (LOW, [])))"

definition assess_milestone :: "planner_input \<Rightarrow> planning_passes \<Rightarrow> milestone_coverage \<Rightarrow> risk_assessment" where
  "assess_milestone v ps c =
     (let provisional = classify_milestone c None (in_slot_minutes v);
          reclassify = (fst provisional = MEDIUM \<or> fst provisional = LOW);
          slack = (if reclassify then Some (free_slack_after_pass v ps (cv_deadline_limit c)) else None);
          result = (if reclassify then classify_milestone c slack (in_slot_minutes v) else provisional)
      in \<lparr>ra_milestone = cv_milestone c, ra_level = risk_level_value (fst result),
          ra_base_coverage = fround (base_coverage c) 4, ra_safety_coverage = fround (safety_coverage c) 4,
          ra_slack = slack, ra_reasons = snd result\<rparr>)"

record risk_context =
  rc_value :: planner_input
  rc_analysis :: graph_analysis

definition build_risk_context :: "tzdb \<Rightarrow> planner_input \<Rightarrow> risk_context res" where
  "build_risk_context tz v = rbind (build_graph_analysis tz v) (\<lambda>a. Inr \<lparr>rc_value = v, rc_analysis = a\<rparr>)"

definition calculate_risks :: "tzdb \<Rightarrow> planning_passes \<Rightarrow> risk_context \<Rightarrow> (milestone_id, risk_assessment) dict" where
  "calculate_risks tz ps c =
     fold (\<lambda>cov. AList.update (cv_milestone cov) (assess_milestone (rc_value c) ps cov))
       (milestone_coverages tz (rc_value c) ps (rc_analysis c)) []"

section \<open>External deliveries\<close>

record external_risk_assessment =
  xa_id :: external_dependency_id
  xa_level :: string
  xa_latest_safe_handoff :: "instant option"
  xa_reasons :: "string list"

definition find_entry :: "external_dependency_id \<Rightarrow> graph_analysis \<Rightarrow> external_dependency_risk option" where
  "find_entry i analysis = (case filter (\<lambda>e. er_id e = i) (ga_externals analysis) of [] \<Rightarrow> None | e # _ \<Rightarrow> Some e)"

definition assess_external :: "instant \<Rightarrow> graph_analysis \<Rightarrow> external_dependency \<Rightarrow> external_risk_assessment" where
  "assess_external now analysis x =
     (let handoff = (case find_entry (ex_id x) analysis of None \<Rightarrow> None | Some e \<Rightarrow> er_latest_safe_handoff e)
      in case (handoff, ex_expected_delivery x) of
        (Some h, Some d) \<Rightarrow>
          (let margin = h - d;
               verdict = (if h < now \<and> \<not> ex_fallback_available x then (CRITICAL, [''HANDOFF_PASSED_WITHOUT_FALLBACK''])
                 else if margin < 0 then (HIGH, [''EXPECTED_DELIVERY_AFTER_LATEST_SAFE_HANDOFF''])
                 else if margin \<le> minutes_delta (ex_uncertainty_buffer x)
                   then (MEDIUM, [''DELIVERY_MARGIN_WITHIN_UNCERTAINTY_BUFFER''])
                 else (LOW, []))
           in \<lparr>xa_id = ex_id x, xa_level = risk_level_value (fst verdict), xa_latest_safe_handoff = handoff,
               xa_reasons = snd verdict\<rparr>)
      | _ \<Rightarrow> \<lparr>xa_id = ex_id x, xa_level = risk_level_value UNKNOWN, xa_latest_safe_handoff = handoff,
               xa_reasons = [''EXTERNAL_TIMING_UNKNOWN'']\<rparr>)"

definition assess_external_dependencies :: "planner_input \<Rightarrow> graph_analysis \<Rightarrow> external_risk_assessment list" where
  "assess_external_dependencies v analysis = map (assess_external (in_now v) analysis) (in_externals v)"

section \<open>No rounding shows in the classification\<close>

lemma fl_quotient_below_one:
  assumes "0 \<le> a" and "0 < b" and "b < 2 ^ 53"
  shows "fl (of_int a / of_int b) < 1 \<longleftrightarrow> a < b"
proof
  assume "fl (of_int a / of_int b) < 1"
  show "a < b"
  proof (rule ccontr)
    assume "\<not> a < b"
    then have "of_int 1 \<le> (of_int a / of_int b :: rat)" using assms by (simp add: le_divide_eq)
    then have "of_int 1 \<le> fl (of_int a / of_int b)" by (rule fl_ge_int) simp_all
    with \<open>fl (of_int a / of_int b) < 1\<close> show False by simp
  qed
next
  assume ab: "a < b"
  have b: "(0 :: rat) < of_int b" using assms(2) by simp
  have top: "fl (9007199254740991 / 2 ^ 53) = (9007199254740991 / 2 ^ 53 :: rat)"
    using fl_evalI [of "9007199254740991 / 2 ^ 53" "- 53" 9007199254740991] by (simp add: pow2_def)
  have "of_int a * 2 ^ 53 \<le> (of_int b * 9007199254740991 :: rat)"
  proof -
    have "a * 2 ^ 53 \<le> (b - 1) * 2 ^ 53" using ab by simp
    also have "\<dots> \<le> b * 9007199254740991" using assms(3) by simp
    finally have "of_int (a * 2 ^ 53) \<le> (of_int (b * 9007199254740991) :: rat)" by (simp only: of_int_le_iff)
    then show ?thesis by simp
  qed
  then have "of_int a / of_int b \<le> (9007199254740991 / 2 ^ 53 :: rat)"
    using b by (simp add: divide_le_eq le_divide_eq)
  moreover have "(0 :: rat) \<le> of_int a / of_int b" using assms by simp
  ultimately have "fl (of_int a / of_int b) \<le> fl (9007199254740991 / 2 ^ 53)" by (intro fl_mono)
  then show "fl (of_int a / of_int b) < 1" unfolding top by simp
qed

text \<open>A tenth of a multiple of ten: the double 0.1 is off, the product is not.\<close>

lemma fl_tenth: "fl (10/100) = 7205759403792794 / 2 ^ 56"
  using fl_evalI [of "10/100" "- 56" 7205759403792794] by (simp add: pow2_def)

lemma fl_tenth_exact:
  assumes m: "0 < m" "m \<le> 1000000"
  shows "fl (fl (10/100) * of_int (10 * m)) = of_int m"
proof -
  define x where "x = fl (10/100) * (of_int (10 * m) :: rat)"
  define e where "e = dbl_exp (of_int m)"
  define y where "y = (of_int m :: rat) / pow2 e"
  have mq: "(0 :: rat) < of_int m" "(of_int m :: rat) \<le> 1000000" using m by simp_all
  have r: "2 ^ 52 \<le> y" "y < 2 ^ 53" using dbl_exp_range [OF mq(1)] by (simp_all add: y_def e_def)
  have neg: "e < 0"
  proof (rule ccontr)
    assume "\<not> e < 0"
    then have "1 \<le> pow2 e" by (simp add: pow2_def)
    then have "y \<le> of_int m" using mq(1) unfolding y_def by (simp add: divide_le_eq mult_le_cancel_left1)
    with r(1) mq(2) show False by simp
  qed
  define k where "k = m * 2 ^ nat (- e)"
  have yk: "y = of_int k" using neg by (simp add: y_def k_def pow2_def)
  have "(of_int k :: rat) < of_int (2 ^ 53)" using r(2) unfolding yk by simp
  then have "k < 2 ^ 53" by (simp only: of_int_less_iff)
  then have k53: "(of_int k :: rat) \<le> 2 ^ 53 - 1"
  proof -
    assume "k < 2 ^ 53"
    then have "(of_int k :: rat) \<le> of_int (2 ^ 53 - 1)" by (simp only: of_int_le_iff)
    then show ?thesis by simp
  qed
  have xv: "x = of_int m * (1 + 1 / 2 ^ 54)" unfolding x_def fl_tenth by simp
  then have xy: "x / pow2 e = y + y / 2 ^ 54" by (simp add: y_def field_simps)
  have small: "y / 2 ^ 54 < 1 / 2" "0 < y / 2 ^ 54" using r by simp_all
  have "fl x = of_int k * pow2 e"
  proof (rule fl_evalI)
    show "0 < x" using mq(1) xv by simp
    show "2 ^ 52 \<le> x / pow2 e" unfolding xy using r(1) small by linarith
    show "x / pow2 e < 2 ^ 53" unfolding xy using k53 small yk by linarith
    show "\<bar>x / pow2 e - of_int k\<bar> < 1 / 2" unfolding xy yk [symmetric] using small by linarith
  qed
  also have "\<dots> = of_int m" unfolding yk [symmetric] by (simp add: y_def)
  finally show ?thesis by (simp add: x_def)
qed

text \<open>The threshold in integers: a tenth, rounded up to slots, and at least half an hour.\<close>

definition threshold_spec :: "int \<Rightarrow> int \<Rightarrow> int" where
  "threshold_spec minutes slot = max 30 ((minutes + 10 * slot - 1) div (10 * slot) * slot)"

lemma medium_threshold_exact:
  assumes "0 \<le> n" and "n \<le> 1000000" and slot: "0 < slot" "slot \<le> 1440"
  shows "medium_threshold n slot = threshold_spec n slot"
proof -
  define k where "k = (n + 10 * slot - 1) div (10 * slot)"
  define q where "q = fdiv (fmul (fl (10/100)) (fl (of_int n))) (of_int slot)"
  have fn: "fl (of_int n) = (of_int n :: rat)" by (rule fl_of_int_exact) (use assms in simp)
  have sq: "(0 :: rat) < of_int slot" using slot by simp
  have "\<lceil>q\<rceil> = k"
  proof (cases "10 * slot dvd n")
    case True
    then obtain j where j: "n = 10 * slot * j" by (auto simp: dvd_def)
    have "k = (j * (10 * slot) + (10 * slot - 1)) div (10 * slot)" by (simp add: k_def j algebra_simps)
    also have "\<dots> = j" using slot by (subst div_mult_self3) simp_all
    finally have kj: "k = j" .
    have j0: "0 \<le> j" using j assms(1) slot by (simp add: zero_le_mult_iff)
    show ?thesis
    proof (cases "j = 0")
      case True
      then show ?thesis using kj j by (simp add: q_def fmul_def fdiv_def)
    next
      case False
      define m where "m = slot * j"
      have n10: "n = 10 * m" by (simp add: m_def j)
      have m0: "0 < m" using False j0 slot by (simp add: m_def)
      moreover have "10 * m \<le> 1000000" using assms(2) n10 by simp
      ultimately have m: "0 < m" "m \<le> 1000000" by linarith+
      have jm: "j \<le> m" using slot(1) j0 mult_right_mono [of 1 slot j] by (simp add: m_def)
      have "q = fl (of_int m / of_int slot)"
        unfolding q_def fdiv_def fmul_def fn unfolding n10 fl_tenth_exact [OF m] ..
      also have "of_int m / of_int slot = (of_int j :: rat)" using sq by (simp add: m_def)
      also have "fl (of_int j) = (of_int j :: rat)" by (rule fl_of_int_exact) (use j0 jm m in simp)
      finally show ?thesis by (simp add: kj)
    qed
  next
    case False
    have d: "0 < 10 * slot" using slot by simp
    have nm: "n = n div (10 * slot) * (10 * slot) + n mod (10 * slot)"
      using div_mult_mod_eq [of n "10 * slot"] by linarith
    have md: "0 < n mod (10 * slot)" "n mod (10 * slot) < 10 * slot"
      using False pos_mod_sign [OF d, of n] pos_mod_bound [OF d, of n] by (auto simp: dvd_eq_mod_eq_0 order.strict_iff_order)
    have k: "k = n div (10 * slot) + 1"
    proof -
      have "n + 10 * slot - 1 = (n mod (10 * slot) - 1) + (n div (10 * slot) + 1) * (10 * slot)"
        using nm by (simp add: distrib_right)
      then have "k = (n mod (10 * slot) - 1) div (10 * slot) + (n div (10 * slot) + 1)"
        unfolding k_def using d by (metis div_mult_self1 add.commute less_irrefl)
      also have "(n mod (10 * slot) - 1) div (10 * slot) = 0" using md by (intro div_pos_pos_trivial) simp_all
      finally show ?thesis by simp
    qed
    have close: "\<bar>q - of_int n / of_int (10 * slot)\<bar> \<le> 1 / 10 ^ 8"
      using scaled_quotient_error [of 2 n slot] assms
      by (simp add: q_def fmul_def mult.commute)
    have dq: "(0 :: rat) < of_int (10 * slot)" using d by simp
    have nq: "of_int n / of_int (10 * slot) = (of_int (n div (10 * slot)) + of_int (n mod (10 * slot)) / of_int (10 * slot) :: rat)"
    proof -
      have "(of_int n :: rat) = of_int (n div (10 * slot)) * of_int (10 * slot) + of_int (n mod (10 * slot))"
        using arg_cong [OF nm, of "of_int :: int \<Rightarrow> rat"] by (simp only: of_int_add of_int_mult)
      then show ?thesis using dq by (simp add: add_divide_distrib)
    qed
    have lo: "(1 / 14400 :: rat) \<le> of_int (n mod (10 * slot)) / of_int (10 * slot)"
    proof -
      have "(1 / 14400 :: rat) \<le> 1 / of_int (10 * slot)" using slot by (intro divide_left_mono) auto
      also have "\<dots> \<le> of_int (n mod (10 * slot)) / of_int (10 * slot)"
        using md(1) dq by (intro divide_right_mono) auto
      finally show ?thesis .
    qed
    have hi: "of_int (n mod (10 * slot)) / of_int (10 * slot) \<le> (1 - 1 / 14400 :: rat)"
    proof -
      have "(of_int (n mod (10 * slot)) :: rat) \<le> of_int (10 * slot - 1)" using md(2) by (simp only: of_int_le_iff)
      then have "of_int (n mod (10 * slot)) / of_int (10 * slot) \<le> (of_int (10 * slot) - 1) / (of_int (10 * slot) :: rat)"
        using dq by (intro divide_right_mono) simp_all
      also have "\<dots> = 1 - 1 / of_int (10 * slot)" using dq by (simp add: diff_divide_distrib)
      also have "\<dots> \<le> 1 - 1 / 14400" using slot by (intro diff_left_mono divide_left_mono) auto
      finally show ?thesis .
    qed
    define w where "w = (of_int (n mod (10 * slot)) / of_int (10 * slot) :: rat)"
    define z where "z = (of_int (n div (10 * slot)) :: rat)"
    have "\<bar>q - (z + w)\<bar> \<le> 1 / 10 ^ 8" using close unfolding nq w_def z_def .
    moreover have "1 / 14400 \<le> w" "w \<le> 1 - 1 / 14400" using lo hi by (simp_all add: w_def)
    moreover have "(1 / 10 ^ 8 :: rat) < 1 / 14400" by simp
    ultimately have "z < q" "q \<le> z + 1" by linarith+
    then show ?thesis unfolding k z_def by (intro ceiling_unique) simp_all
  qed
  then show ?thesis by (simp add: medium_threshold_def threshold_spec_def q_def k_def)
qed

text \<open>The specification of the classes: integers only, each class with its condition.\<close>

definition classify_spec :: "milestone_coverage \<Rightarrow> int \<Rightarrow> int \<Rightarrow> risk_level" where
  "classify_spec c slack slot =
     (if cv_has_cycle_member c then CRITICAL
      else if cv_date_only c \<or> cv_deadline_limit c = None then UNKNOWN
      else if cv_base_allocated c < cv_base_required c then CRITICAL
      else if cv_safety_allocated c + cv_buffers_allocated c < cv_safety_required c + cv_buffer_required c
        \<or> cv_buffers_allocated c < cv_buffer_required c then HIGH
      else if slack < threshold_spec (cv_safety_required c + cv_buffer_required c) slot then MEDIUM
      else LOW)"

abbreviation coverage_bounds :: "milestone_coverage \<Rightarrow> bool" where
  "coverage_bounds c \<equiv> 0 \<le> cv_base_allocated c \<and> 0 \<le> cv_safety_allocated c \<and> 0 \<le> cv_buffers_allocated c
     \<and> 0 \<le> cv_base_required c \<and> cv_base_required c \<le> 1000000
     \<and> 0 \<le> cv_safety_required c \<and> 0 \<le> cv_buffer_required c
     \<and> cv_safety_required c + cv_buffer_required c \<le> 1000000"

lemma base_coverage_below:
  "coverage_bounds c \<Longrightarrow> base_coverage c < 1 \<longleftrightarrow> cv_base_allocated c < cv_base_required c"
  using fl_quotient_below_one [of "cv_base_allocated c" "cv_base_required c"]
  by (auto simp: base_coverage_def)

lemma safety_coverage_below:
  "coverage_bounds c \<Longrightarrow> safety_coverage c < 1 \<longleftrightarrow>
     cv_safety_allocated c + cv_buffers_allocated c < cv_safety_required c + cv_buffer_required c"
  using fl_quotient_below_one [of "cv_safety_allocated c + cv_buffers_allocated c" "cv_safety_required c + cv_buffer_required c"]
  by (auto simp: safety_coverage_def Let_def)

lemma classify_milestone_spec:
  assumes "coverage_bounds c" and "0 < slot" and "slot \<le> 1440"
  shows "fst (classify_milestone c (Some slack) slot) = classify_spec c slack slot"
  using base_coverage_below [OF assms(1)] safety_coverage_below [OF assms(1)]
    medium_threshold_exact [of "cv_safety_required c + cv_buffer_required c" slot] assms
  by (auto simp: classify_milestone_def classify_spec_def Let_def)

text \<open>
  For up to a million minutes per milestone and slots of at most a day, the class
  computed with floating-point coverages and threshold is the class of the integer
  specification: no minute is lost or gained to rounding. In particular a milestone with
  only a date is never rated low, and one is rated low only when base, safety and buffer
  demand are all met and the slack reaches the threshold.
\<close>

theorem classify_milestone_exact:
  assumes "coverage_bounds c" and "0 < slot" and "slot \<le> 1440"
  shows "fst (classify_milestone c (Some slack) slot) = classify_spec c slack slot
    \<and> (fst (classify_milestone c (Some slack) slot) = LOW \<longleftrightarrow>
        \<not> cv_has_cycle_member c \<and> \<not> cv_date_only c \<and> cv_deadline_limit c \<noteq> None
        \<and> cv_base_required c \<le> cv_base_allocated c
        \<and> cv_safety_required c + cv_buffer_required c \<le> cv_safety_allocated c + cv_buffers_allocated c
        \<and> cv_buffer_required c \<le> cv_buffers_allocated c
        \<and> threshold_spec (cv_safety_required c + cv_buffer_required c) slot \<le> slack)"
  using classify_milestone_spec [OF assms] by (simp add: classify_spec_def not_less)

definition sample_coverage :: milestone_coverage where
  "sample_coverage = \<lparr>cv_milestone = MilestoneId 1, cv_base_required = 60, cv_safety_required = 90,
     cv_base_allocated = 60, cv_safety_allocated = 90, cv_buffers_allocated = 30, cv_buffer_required = 30,
     cv_deadline_limit = Some us_per_day, cv_date_only = False, cv_has_cycle_member = False\<rparr>"

lemma classify_milestone_exact_witness:
  "fst (classify_milestone sample_coverage (Some 30) 15) = LOW
    \<and> fst (classify_milestone sample_coverage (Some 29) 15) = MEDIUM"
  using classify_milestone_exact [of sample_coverage 15 30] classify_milestone_exact [of sample_coverage 15 29]
  by (simp add: sample_coverage_def classify_spec_def threshold_spec_def)

lemma assess_external_level:
  "find_entry (ex_id x) analysis = Some e \<Longrightarrow> er_latest_safe_handoff e = Some h \<Longrightarrow> ex_expected_delivery x = Some d \<Longrightarrow>
    xa_level (assess_external now analysis x) =
      (if h < now \<and> \<not> ex_fallback_available x then ''CRITICAL''
       else if h < d then ''HIGH''
       else if h \<le> d + minutes_delta (ex_uncertainty_buffer x) then ''MEDIUM''
       else ''LOW'')"
  by (auto simp: assess_external_def Let_def)

lemma find_entry_map:
  "distinct (map ex_id xs) \<Longrightarrow> ga_externals a = map (external_risk r) xs \<Longrightarrow> x \<in> set xs \<Longrightarrow>
     find_entry (ex_id x) a = Some (external_risk r x)"
proof -
  assume d: "distinct (map ex_id xs)" and e: "ga_externals a = map (external_risk r) xs" and x: "x \<in> set xs"
  have i: "er_id (external_risk r y) = ex_id y" for y by (simp add: external_risk_def Let_def)
  have "filter (\<lambda>y. ex_id y = ex_id x) xs = [x]"
    using d x by (induction xs) (auto simp: filter_empty_conv image_iff)
  then show ?thesis by (simp add: find_entry_def e filter_map comp_def i)
qed

text \<open>
  The rating of an external delivery speaks for every task it affects. With the
  analysis of a well-formed input, a delivery with a known date is rated low exactly when
  it comes, buffer included, before the latest start of each affected task, and either
  there is a fallback or none of those latest starts has passed.
\<close>

theorem external_low_iff:
  assumes "wf_input tz v" and "\<forall>d\<in>set (in_dependencies v). tid_value (dp_predecessor d) \<noteq> 0"
    and "distinct (map ex_id (in_externals v))" and "x \<in> set (in_externals v)" and "ex_affected_tasks x \<noteq> []"
    and "ex_expected_delivery x = Some d" and "0 \<le> ex_uncertainty_buffer x"
  shows "\<exists>a. build_graph_analysis tz v = Inr a \<and>
    (xa_level (assess_external (in_now v) a x) = ''LOW'' \<longleftrightarrow>
      (\<forall>t\<in>set (ex_affected_tasks x). \<exists>m. map_of (ga_must_start a) t = Some m
         \<and> d + minutes_delta (ex_uncertainty_buffer x) < m \<and> (ex_fallback_available x \<or> in_now v \<le> m)))"
proof -
  from build_graph_analysis_result [OF assms(2), of tz] obtain a r where
    a: "build_graph_analysis tz v = Inr a"
    and r: "backward_timing (timing_nodes tz (in_timezone v) (in_tasks v)) (mk_graph (in_dependencies v))
         (milestone_limits tz (in_timezone v) (in_milestones v)) (in_horizon_end v) = Inr r"
    and ms: "ga_must_start a = tr_must_start r" and ext: "ga_externals a = map (external_risk r) (in_externals v)"
    by blast
  have "set (ex_affected_tasks x) \<subseteq> ts_id ` set (in_tasks v)"
    using assms(1,4) by (auto simp: wf_input_def known_task_ids_def)
  then have known: "\<forall>t\<in>set (ex_affected_tasks x). map_of (tr_must_start r) t \<noteq> None"
    using must_start_dom [OF r] timing_nodes_keys [of tz "in_timezone v" "in_tasks v"] by (metis domIff subsetD)
  from external_risk_handoff [OF assms(5) known] obtain h where
    h: "er_latest_safe_handoff (external_risk r x) = Some h"
    and h1: "\<exists>t\<in>set (ex_affected_tasks x). map_of (tr_must_start r) t = Some h"
    and h2: "\<forall>t\<in>set (ex_affected_tasks x). \<forall>m. map_of (tr_must_start r) t = Some m \<longrightarrow> h \<le> m" by blast
  note level = assess_external_level [OF find_entry_map [OF assms(3) ext assms(4)] h assms(6), of "in_now v"]
  have "0 \<le> minutes_delta (ex_uncertainty_buffer x)" using assms(7) by (simp add: minutes_delta_def)
  then have low: "xa_level (assess_external (in_now v) a x) = ''LOW'' \<longleftrightarrow>
      d + minutes_delta (ex_uncertainty_buffer x) < h \<and> (ex_fallback_available x \<or> in_now v \<le> h)"
    unfolding level by auto
  also have "\<dots> \<longleftrightarrow> (\<forall>t\<in>set (ex_affected_tasks x). \<exists>m. map_of (ga_must_start a) t = Some m
         \<and> d + minutes_delta (ex_uncertainty_buffer x) < m \<and> (ex_fallback_available x \<or> in_now v \<le> m))"
  proof
    assume l: "d + minutes_delta (ex_uncertainty_buffer x) < h \<and> (ex_fallback_available x \<or> in_now v \<le> h)"
    show "\<forall>t\<in>set (ex_affected_tasks x). \<exists>m. map_of (ga_must_start a) t = Some m
         \<and> d + minutes_delta (ex_uncertainty_buffer x) < m \<and> (ex_fallback_available x \<or> in_now v \<le> m)"
    proof
      fix t assume t: "t \<in> set (ex_affected_tasks x)"
      with known obtain m where m: "map_of (tr_must_start r) t = Some m" by blast
      with h2 t have "h \<le> m" by blast
      with l m show "\<exists>m. map_of (ga_must_start a) t = Some m
         \<and> d + minutes_delta (ex_uncertainty_buffer x) < m \<and> (ex_fallback_available x \<or> in_now v \<le> m)"
        by (intro exI [of _ m]) (auto simp: ms)
    qed
  qed (use h1 in \<open>auto simp: ms\<close>)
  finally show ?thesis using a by blast
qed

lemma external_low_iff_witness:
  "\<exists>a. build_graph_analysis utc_tzdb small_input = Inr a \<and>
    (xa_level (assess_external 0 a small_external) = ''LOW'' \<longleftrightarrow>
      (\<exists>m. map_of (ga_must_start a) (TaskId 2) = Some m \<and> us_per_hour + 30 * us_per_minute < m \<and> 0 \<le> m))"
  using external_low_iff [OF small_input_wf, of small_external us_per_hour]
  by (simp add: small_defs minutes_delta_def)

end
