(* ===== verification/Proposals.thy ===== *)
theory Proposals
  imports Domain
begin

text \<open>
  Overload negotiation proposals (\<open>proposals/overload.py\<close>). \<open>uuid5(NAMESPACE_URL, name)\<close> is
  the parameter \<open>uuid5\<close>. The result: the sequence offers the steps in the normative order,
  one each, and nothing that needs no approval beyond the removal of optional work.
\<close>

record proposal =
  po_id :: string
  po_kind :: string
  po_approval :: auth_level
  po_tasks :: "task_id list"
  po_milestone :: "milestone_id option"
  po_minutes :: int
  po_rule :: string

definition proposal_id_for :: "(string \<Rightarrow> uuid) \<Rightarrow> string \<Rightarrow> uuid \<Rightarrow> string" where
  "proposal_id_for uuid5 kind seed = uuid_str (uuid5 (''proposal:'' @ kind @ '':'' @ hex_of seed))"

definition proposal_for_disallowed_move :: "(string \<Rightarrow> uuid) \<Rightarrow> task_id \<Rightarrow> string \<Rightarrow> milestone_id option
    \<Rightarrow> int \<Rightarrow> proposal" where
  "proposal_for_disallowed_move uuid5 t rule milestone minutes =
     \<lparr>po_id = proposal_id_for uuid5 ''DISALLOWED_MOVE'' (tid_value t),
      po_kind = ''DISALLOWED_MOVE_REQUIRED'', po_approval = APPROVAL, po_tasks = [t],
      po_milestone = milestone, po_minutes = minutes, po_rule = rule\<rparr>"

definition add_proposal :: "(string \<Rightarrow> uuid) \<Rightarrow> string \<Rightarrow> task_id list \<Rightarrow> auth_level \<Rightarrow> string \<Rightarrow> proposal list" where
  "add_proposal uuid5 kind ids level rule =
     (if ids = [] then []
      else [\<lparr>po_id = proposal_id_for uuid5 kind (tid_value (hd ids)), po_kind = kind, po_approval = level,
             po_tasks = ids, po_milestone = None, po_minutes = 0, po_rule = rule\<rparr>])"

definition plain_proposal :: "(string \<Rightarrow> uuid) \<Rightarrow> string \<Rightarrow> string \<Rightarrow> uuid \<Rightarrow> auth_level
    \<Rightarrow> milestone_id option \<Rightarrow> string \<Rightarrow> proposal" where
  "plain_proposal uuid5 seed_kind kind seed level milestone rule =
     \<lparr>po_id = proposal_id_for uuid5 seed_kind seed, po_kind = kind, po_approval = level, po_tasks = [],
      po_milestone = milestone, po_minutes = 0, po_rule = rule\<rparr>"

definition overload_proposal_sequence :: "(string \<Rightarrow> uuid) \<Rightarrow> task_id list \<Rightarrow> task_id list
    \<Rightarrow> milestone_id list \<Rightarrow> bool \<Rightarrow> bool \<Rightarrow> bool \<Rightarrow> proposal list" where
  "overload_proposal_sequence uuid5 optional deferrable reducible negotiation extra_hours cancellable =
     add_proposal uuid5 ''REMOVE_OPTIONAL'' optional AUTOMATIC_NOTIFY ''OVERLOAD_STEP_REMOVE_P4''
     @ add_proposal uuid5 ''DEFER_FLEXIBLE'' deferrable APPROVAL ''OVERLOAD_STEP_DEFER_P3_LOW_P2''
     @ (if reducible = [] then []
        else [plain_proposal uuid5 ''SCOPE_REDUCTION'' ''SCOPE_REDUCTION'' (ms_value (hd reducible)) APPROVAL
          (Some (hd reducible)) ''OVERLOAD_STEP_SCOPE_REDUCTION''])
     @ (if negotiation
        then [plain_proposal uuid5 ''EXTERNAL_NEGOTIATION'' ''EXTERNAL_NEGOTIATION'' 0 RECONFIRM None
          ''OVERLOAD_STEP_EXTERNAL_NEGOTIATION''] else [])
     @ (if extra_hours
        then [plain_proposal uuid5 ''EXTRA_HOURS'' ''LIMITED_EXTRA_HOURS'' 0 APPROVAL None
          ''OVERLOAD_STEP_LIMITED_EXTRA_TIME''] else [])
     @ (if cancellable
        then [plain_proposal uuid5 ''PROJECT_CANCEL_REVIEW'' ''PROJECT_CANCEL_REVIEW'' 0 RECONFIRM None
          ''OVERLOAD_STEP_CANCEL_REVIEW''] else [])"

text \<open>The normative order of the steps.\<close>

definition overload_steps :: "string list" where
  "overload_steps = [''REMOVE_OPTIONAL'', ''DEFER_FLEXIBLE'', ''SCOPE_REDUCTION'', ''EXTERNAL_NEGOTIATION'',
     ''LIMITED_EXTRA_HOURS'', ''PROJECT_CANCEL_REVIEW'']"

definition step_applies :: "task_id list \<Rightarrow> task_id list \<Rightarrow> milestone_id list \<Rightarrow> bool \<Rightarrow> bool \<Rightarrow> bool
    \<Rightarrow> string \<Rightarrow> bool" where
  "step_applies optional deferrable reducible negotiation extra_hours cancellable k =
     (if k = ''REMOVE_OPTIONAL'' then optional \<noteq> []
      else if k = ''DEFER_FLEXIBLE'' then deferrable \<noteq> []
      else if k = ''SCOPE_REDUCTION'' then reducible \<noteq> []
      else if k = ''EXTERNAL_NEGOTIATION'' then negotiation
      else if k = ''LIMITED_EXTRA_HOURS'' then extra_hours
      else k = ''PROJECT_CANCEL_REVIEW'' \<and> cancellable)"

text \<open>
  The kinds offered are exactly the normative steps that apply, in their order, each
  once. Only the removal of optional work goes without approval: every other proposal
  needs approval or reconfirmation.
\<close>

theorem overload_sequence_order:
  "map po_kind (overload_proposal_sequence uuid5 optional deferrable reducible negotiation extra_hours cancellable)
     = filter (step_applies optional deferrable reducible negotiation extra_hours cancellable) overload_steps
   \<and> distinct (map po_kind (overload_proposal_sequence uuid5 optional deferrable reducible negotiation extra_hours cancellable))
   \<and> (\<forall>p\<in>set (overload_proposal_sequence uuid5 optional deferrable reducible negotiation extra_hours cancellable).
        (po_kind p = ''REMOVE_OPTIONAL'') = (po_approval p = AUTOMATIC_NOTIFY))"
proof (intro conjI)
  show kinds: "map po_kind (overload_proposal_sequence uuid5 optional deferrable reducible negotiation extra_hours cancellable)
     = filter (step_applies optional deferrable reducible negotiation extra_hours cancellable) overload_steps"
    by (simp add: overload_proposal_sequence_def add_proposal_def plain_proposal_def overload_steps_def step_applies_def)
  show "distinct (map po_kind (overload_proposal_sequence uuid5 optional deferrable reducible negotiation extra_hours cancellable))"
    unfolding kinds by (rule distinct_filter) (simp add: overload_steps_def)
  show "\<forall>p\<in>set (overload_proposal_sequence uuid5 optional deferrable reducible negotiation extra_hours cancellable).
        (po_kind p = ''REMOVE_OPTIONAL'') = (po_approval p = AUTOMATIC_NOTIFY)"
    by (auto simp: overload_proposal_sequence_def add_proposal_def plain_proposal_def)
qed

lemma overload_sequence_order_witness:
  "map po_kind (overload_proposal_sequence (\<lambda>_. 0) [TaskId 1] [] [] False True False) = [''REMOVE_OPTIONAL'', ''LIMITED_EXTRA_HOURS'']"
  using overload_sequence_order [of "\<lambda>_. 0" "[TaskId 1]" "[]" "[]" False True False]
  by (simp add: overload_steps_def step_applies_def)

end
