(* ===== verification/Replan.thy ===== *)
theory Replan
  imports Risk Proposals
begin

text \<open>
  Minimal-change replanning (\<open>replanning/cost.py\<close>, \<open>replanning/diff.py\<close>,
  \<open>replanning/optimize.py\<close>): what changed against the prior plan, what it costs, which
  changes touch protected work, and the plan that is selected. The results: the
  lexicographic choice, and that pinned and imminent work of the prior plan stays exactly
  where it was in the plan selected.
\<close>

section \<open>Costs and metrics\<close>

definition FREEZE_WINDOW_MINUTES :: int where
  "FREEZE_WINDOW_MINUTES = 120"

record replan_metrics =
  rm_hard_constraint_violations :: int
  rm_authorization_violations :: int
  rm_critical_milestones :: int
  rm_base_unallocated :: int
  rm_high_milestones :: int
  rm_safety_unallocated :: int
  rm_change_cost :: int
  rm_context_switches :: int
  rm_energy_mismatch :: int

definition metrics_tuple :: "replan_metrics \<Rightarrow> int list" where
  "metrics_tuple m = [rm_hard_constraint_violations m, rm_authorization_violations m,
     rm_critical_milestones m, rm_base_unallocated m, rm_high_milestones m, rm_safety_unallocated m,
     rm_change_cost m, rm_context_switches m, rm_energy_mismatch m]"

definition is_in_freeze_window :: "instant \<Rightarrow> instant \<Rightarrow> bool" where
  "is_in_freeze_window start now \<longleftrightarrow> start \<le> now + minutes_delta FREEZE_WINDOW_MINUTES"

definition move_cost :: "instant \<Rightarrow> instant \<Rightarrow> int" where
  "move_cost old new =
     (if utc_date old \<noteq> utc_date new then 40
      else (let delta = \<bar>minutes_between old new\<bar> in
        if 120 \<le> delta then 10 else if delta = 0 then 0 else 2))"

text \<open>\<open>min(candidates, key=metrics_tuple)\<close>: the first of the least ones.\<close>

definition choose_candidate :: "replan_metrics list \<Rightarrow> replan_metrics res" where
  "choose_candidate ms = (case ms of
     [] \<Rightarrow> Inl (ValueError ''min() iterable argument is empty'')
   | m # rest \<Rightarrow> Inr (fold (\<lambda>x best. if metrics_tuple x < metrics_tuple best then x else best) rest m))"

section \<open>Differences\<close>

record move_record =
  mv_task :: task_id
  mv_prior_start :: instant
  mv_new_start :: instant
  mv_kind :: string

record replan_diff =
  df_changed_count :: nat
  df_moves :: "move_record list"
  df_removed :: "task_id list"

definition current_by_task :: "task_allocation list \<Rightarrow> (task_id, task_allocation list) dict" where
  "current_by_task as = fold (\<lambda>a. dappend (al_task a) a) (filter (\<lambda>a. al_kind a = ''TASK'') as) []"

text \<open>One prior allocation: nothing, a move or extension, or a removal.\<close>

definition diff_one :: "(task_id, task_allocation list) dict \<Rightarrow> prior_allocation \<Rightarrow> move_record list \<times> task_id list" where
  "diff_one current p =
     (case dget current (pa_task p) [] of
        [] \<Rightarrow> ([], [pa_task p])
      | c # cs \<Rightarrow>
          (let candidates = c # cs; first = hd (sort_key al_start candidates);
               same_start = (al_start first = pa_start p);
               covers_prior_end = (pa_end p \<le> al_end first)
           in if same_start \<and> covers_prior_end \<and> length candidates = 1
              then if al_end first = pa_end p then ([], [])
                else ([\<lparr>mv_task = pa_task p, mv_prior_start = pa_start p, mv_new_start = al_start first,
                        mv_kind = ''EXTEND''\<rparr>], [])
              else ([\<lparr>mv_task = pa_task p, mv_prior_start = pa_start p, mv_new_start = al_start first,
                      mv_kind = ''MOVE''\<rparr>], [])))"

definition diff_from_prior :: "prior_plan_snapshot option \<Rightarrow> task_allocation list \<Rightarrow> replan_diff" where
  "diff_from_prior prior as = (case prior of
     None \<Rightarrow> \<lparr>df_changed_count = 0, df_moves = [], df_removed = []\<rparr>
   | Some s \<Rightarrow>
       (let parts = map (diff_one (current_by_task as)) (pp_allocations s);
            moves = concat (map fst parts); removed = concat (map snd parts)
        in \<lparr>df_changed_count = length moves + length removed, df_moves = moves, df_removed = removed\<rparr>))"

section \<open>Replanning\<close>

record applied_move =
  am_task :: task_id
  am_old_start :: instant
  am_new_start :: instant
  am_cost :: int

record replan_outcome =
  ro_before :: replan_metrics
  ro_after :: replan_metrics
  ro_diff :: replan_diff
  ro_applied :: "applied_move list"
  ro_proposals :: "proposal list"
  ro_selected :: planning_passes

definition prior_allocations :: "planner_input \<Rightarrow> prior_allocation list" where
  "prior_allocations v = (case in_prior v of None \<Rightarrow> [] | Some s \<Rightarrow> pp_allocations s)"

definition prior_intervals :: "planner_input \<Rightarrow> interval list" where
  "prior_intervals v = map (\<lambda>p. \<lparr>iv_start = pa_start p, iv_end = pa_end p\<rparr>) (prior_allocations v)"

definition protected_prior_allocations :: "planner_input \<Rightarrow> prior_allocation list" where
  "protected_prior_allocations v = filter (\<lambda>p. pa_task p \<in> set (in_pinned v)
     \<or> is_in_freeze_window (pa_start p) (in_now v)) (prior_allocations v)"

definition counts_by_level :: "(milestone_id, risk_assessment) dict \<Rightarrow> (string, int) dict" where
  "counts_by_level risks = fold (\<lambda>(m, a) counts.
     AList.update (ra_level a) (dget counts (ra_level a) 0 + 1) counts) risks []"

definition metrics_from :: "planner_input \<Rightarrow> planning_passes \<Rightarrow> (milestone_id, risk_assessment) dict
    \<Rightarrow> int \<Rightarrow> int \<Rightarrow> replan_metrics" where
  "metrics_from v ps risks change_cost authorization_violations =
     (let counts = counts_by_level risks;
          open_tasks = filter (\<lambda>t. \<not> closed_status (ts_status t)) (in_tasks v);
          base_demand = sum_list (map ts_remaining_base open_tasks);
          safety_demand = sum_list (map ts_remaining_safety open_tasks)
            + sum_list (map st_safety (concat (map snd (ps_buffers ps))))
      in \<lparr>rm_hard_constraint_violations = 0, rm_authorization_violations = authorization_violations,
          rm_critical_milestones = dget counts (risk_level_value CRITICAL) 0,
          rm_base_unallocated = max 0 (base_demand - sr_total (ps_base ps)),
          rm_high_milestones = dget counts (risk_level_value HIGH) 0,
          rm_safety_unallocated = max 0 (safety_demand - sr_total (ps_safety ps)),
          rm_change_cost = change_cost, rm_context_switches = 0, rm_energy_mismatch = 0\<rparr>)"

definition disallowed_reason :: "planner_input \<Rightarrow> move_record \<Rightarrow> string option" where
  "disallowed_reason v m =
     (if mv_task m \<in> set (in_pinned v) then Some ''USER_PINNED_MOVE_FORBIDDEN''
      else if is_in_freeze_window (mv_prior_start m) (in_now v) then Some ''FREEZE_WINDOW_MOVE_FORBIDDEN''
      else None)"

definition prior_start_by_task :: "planner_input \<Rightarrow> (task_id, instant) dict" where
  "prior_start_by_task v = fold (\<lambda>p. AList.update (pa_task p) (pa_start p)) (prior_allocations v) []"

definition move_proposals :: "(string \<Rightarrow> uuid) \<Rightarrow> planner_input \<Rightarrow> move_record list \<Rightarrow> proposal list" where
  "move_proposals uuid5 v moves = concat (map (\<lambda>m. case disallowed_reason v m of
       None \<Rightarrow> []
     | Some rule \<Rightarrow> [proposal_for_disallowed_move uuid5 (mv_task m) rule None
         (minutes_between (dget (prior_start_by_task v) (mv_task m) (mv_new_start m)) (mv_new_start m))]) moves)"

definition applied_moves :: "planner_input \<Rightarrow> move_record list \<Rightarrow> applied_move list" where
  "applied_moves v moves = map (\<lambda>m. \<lparr>am_task = mv_task m, am_old_start = mv_prior_start m,
       am_new_start = mv_new_start m, am_cost = move_cost (mv_prior_start m) (mv_new_start m)\<rparr>)
     (filter (\<lambda>m. disallowed_reason v m = None) moves)"

definition removal_proposals :: "(string \<Rightarrow> uuid) \<Rightarrow> planner_input \<Rightarrow> task_id list \<Rightarrow> proposal list" where
  "removal_proposals uuid5 v removed = concat (map (\<lambda>t.
     if t \<in> pa_task ` set (protected_prior_allocations v)
     then [proposal_for_disallowed_move uuid5 t
       (if t \<in> set (in_pinned v) then ''USER_PINNED_MOVE_FORBIDDEN'' else ''FREEZE_WINDOW_MOVE_FORBIDDEN'') None 0]
     else []) removed)"

definition replan :: "(string \<Rightarrow> uuid) \<Rightarrow> tzdb \<Rightarrow> planner_input \<Rightarrow> replan_outcome res" where
  "replan uuid5 tz v =
     rbind (run_planning_passes uuid5 tz v (prior_intervals v) []) (\<lambda>before_passes.
     rbind (build_risk_context tz v) (\<lambda>context.
     let before_risks = calculate_risks tz before_passes context in
     rbind (run_planning_passes uuid5 tz v [] []) (\<lambda>after_passes.
     let after_risks = calculate_risks tz after_passes context;
         diff = diff_from_prior (in_prior v) (sr_allocations (ps_base after_passes));
         applied = applied_moves v (df_moves diff);
         proposals = move_proposals uuid5 v (df_moves diff) @ removal_proposals uuid5 v (df_removed diff)
     in rbind (if proposals \<noteq> [] then run_planning_passes uuid5 tz v [] (protected_prior_allocations v)
         else Inr after_passes) (\<lambda>selected.
       Inr \<lparr>ro_before = metrics_from v before_passes before_risks 0 0,
         ro_after = metrics_from v after_passes after_risks (sum_list (map am_cost applied)) (int (length proposals)),
         ro_diff = diff, ro_applied = applied, ro_proposals = proposals, ro_selected = selected\<rparr>))))"

section \<open>The choice of a candidate\<close>

lemma metrics_fold_min:
  "let r = fold (\<lambda>x best. if metrics_tuple x < metrics_tuple best then x else best) ms m
   in r \<in> set (m # ms) \<and> (\<forall>x\<in>set (m # ms). metrics_tuple r \<le> metrics_tuple x)"
proof (induction ms arbitrary: m)
  case (Cons y ms)
  define b where "b = (if metrics_tuple y < metrics_tuple m then y else m)"
  have "metrics_tuple b \<le> metrics_tuple y" "metrics_tuple b \<le> metrics_tuple m" "b = y \<or> b = m"
    by (auto simp: b_def)
  with Cons.IH [of b] show ?case by (auto simp: Let_def b_def [symmetric] intro: order_trans)
qed (simp add: Let_def)

text \<open>
  The candidate chosen is one of the candidates and is least in the lexicographic
  order, so it has the fewest hard violations of all, among those the fewest authorization
  violations, and among those the fewest critical milestones, whatever the changes cost.
\<close>

theorem choose_candidate_lexicographic:
  assumes "ms \<noteq> []"
  shows "\<exists>m. choose_candidate ms = Inr m \<and> m \<in> set ms \<and> (\<forall>x\<in>set ms. metrics_tuple m \<le> metrics_tuple x)
    \<and> (\<forall>x\<in>set ms. rm_hard_constraint_violations m \<le> rm_hard_constraint_violations x
         \<and> (rm_hard_constraint_violations m = rm_hard_constraint_violations x \<longrightarrow>
              rm_authorization_violations m \<le> rm_authorization_violations x
              \<and> (rm_authorization_violations m = rm_authorization_violations x \<longrightarrow>
                   rm_critical_milestones m \<le> rm_critical_milestones x)))"
proof -
  from assms obtain a as where ms: "ms = a # as" by (cases ms) auto
  define r where "r = fold (\<lambda>x best. if metrics_tuple x < metrics_tuple best then x else best) as a"
  have r: "r \<in> set ms" "\<forall>x\<in>set ms. metrics_tuple r \<le> metrics_tuple x"
    using metrics_fold_min [of as a] by (simp_all add: Let_def r_def ms)
  have lex: "rm_hard_constraint_violations r \<le> rm_hard_constraint_violations x
         \<and> (rm_hard_constraint_violations r = rm_hard_constraint_violations x \<longrightarrow>
              rm_authorization_violations r \<le> rm_authorization_violations x
              \<and> (rm_authorization_violations r = rm_authorization_violations x \<longrightarrow>
                   rm_critical_milestones r \<le> rm_critical_milestones x))" if "metrics_tuple r \<le> metrics_tuple x" for x
    using that by (auto simp: metrics_tuple_def)
  have "choose_candidate ms = Inr r" by (simp add: choose_candidate_def ms r_def)
  then show ?thesis using r lex by blast
qed

definition plain_metrics :: "int \<Rightarrow> int \<Rightarrow> replan_metrics" where
  "plain_metrics critical cost = \<lparr>rm_hard_constraint_violations = 0, rm_authorization_violations = 0,
     rm_critical_milestones = critical, rm_base_unallocated = 0, rm_high_milestones = 0,
     rm_safety_unallocated = 0, rm_change_cost = cost, rm_context_switches = 0, rm_energy_mismatch = 0\<rparr>"

lemma choose_candidate_lexicographic_witness:
  "\<exists>m. choose_candidate [plain_metrics 1 0, plain_metrics 0 80] = Inr m \<and> rm_critical_milestones m \<le> 0"
  using choose_candidate_lexicographic [of "[plain_metrics 1 0, plain_metrics 0 80]"]
  by (force simp: plain_metrics_def)

section \<open>Protected work stays where it was\<close>

lemma current_by_task_get:
  "dget (current_by_task as) t [] = filter (\<lambda>a. al_task a = t) (filter (\<lambda>a. al_kind a = ''TASK'') as)"
  using group_by_task_get [of "filter (\<lambda>a. al_kind a = ''TASK'') as" t]
  by (simp add: current_by_task_def group_by_task_def)

text \<open>A prior block that the difference leaves unmentioned is in the new plan.\<close>

lemma diff_one_empty:
  assumes "diff_one (current_by_task as) p = ([], [])"
  shows "\<exists>a\<in>set as. plan_block a = prior_block p"
proof -
  obtain c cs where c: "dget (current_by_task as) (pa_task p) [] = c # cs"
    using assms by (cases "dget (current_by_task as) (pa_task p) []") (auto simp: diff_one_def)
  define f where "f = hd (sort_key al_start (c # cs))"
  have len: "cs = []" "al_start f = pa_start p" "al_end f = pa_end p"
    using assms unfolding diff_one_def c list.case Let_def f_def [symmetric] by (simp_all split: if_splits)
  then have "f = c" by (simp add: f_def)
  moreover have "c \<in> set (dget (current_by_task as) (pa_task p) [])" by (simp add: c)
  then have "c \<in> set as" "al_task c = pa_task p" by (simp_all add: current_by_task_get)
  ultimately show ?thesis using len by (auto simp: plan_block_def prior_block_def)
qed

lemma diff_one_moves:
  "m \<in> set (fst (diff_one current p)) \<Longrightarrow> mv_task m = pa_task p \<and> mv_prior_start m = pa_start p"
  by (auto simp: diff_one_def Let_def split: list.splits if_splits)

lemma diff_one_removed: "t \<in> set (snd (diff_one current p)) \<Longrightarrow> t = pa_task p"
  by (auto simp: diff_one_def Let_def split: list.splits if_splits)

lemma protected_reason:
  assumes "p \<in> set (protected_prior_allocations v)" and "mv_task m = pa_task p" and "mv_prior_start m = pa_start p"
  shows "disallowed_reason v m \<noteq> None"
  using assms by (auto simp: protected_prior_allocations_def disallowed_reason_def)

text \<open>Without proposals the difference mentions no protected block.\<close>

lemma no_proposals_unmoved:
  assumes p: "p \<in> set (protected_prior_allocations v)"
    and none: "move_proposals uuid5 v (df_moves (diff_from_prior (in_prior v) as)) = []"
      "removal_proposals uuid5 v (df_removed (diff_from_prior (in_prior v) as)) = []"
  shows "\<exists>a\<in>set as. plan_block a = prior_block p"
proof -
  from p obtain s where s: "in_prior v = Some s" "p \<in> set (pp_allocations s)"
    by (cases "in_prior v") (auto simp: protected_prior_allocations_def prior_allocations_def)
  define d where "d = diff_one (current_by_task as) p"
  have moves: "set (fst d) \<subseteq> set (df_moves (diff_from_prior (in_prior v) as))"
    and removed: "set (snd d) \<subseteq> set (df_removed (diff_from_prior (in_prior v) as))"
    using s by (auto simp: diff_from_prior_def d_def Let_def)
  have "fst d = []"
  proof (rule ccontr)
    assume "fst d \<noteq> []"
    then have hd: "hd (fst d) \<in> set (fst d)" by simp
    have "disallowed_reason v (hd (fst d)) \<noteq> None"
      by (rule protected_reason [OF p]) (use diff_one_moves [of _ "current_by_task as" p] hd in \<open>auto simp: d_def\<close>)
    moreover have "hd (fst d) \<in> set (df_moves (diff_from_prior (in_prior v) as))" using hd moves by blast
    ultimately show False using none(1) by (auto simp: move_proposals_def split: option.splits)
  qed
  moreover have "snd d = []"
  proof (rule ccontr)
    assume "snd d \<noteq> []"
    then have hd: "hd (snd d) \<in> set (snd d)" by simp
    then have "hd (snd d) = pa_task p" unfolding d_def by (rule diff_one_removed)
    moreover have "hd (snd d) \<in> set (df_removed (diff_from_prior (in_prior v) as))" using hd removed by blast
    ultimately show False using none(2) p by (auto simp: removal_proposals_def split: if_splits)
  qed
  ultimately have "d = ([], [])" by (simp add: prod_eq_iff)
  then show ?thesis unfolding d_def by (rule diff_one_empty)
qed

lemma sound_plan_keeps:
  assumes "sound_plan v extra kept r" and "p \<in> set kept"
  shows "\<exists>a\<in>set (sr_allocations r). plan_block a = prior_block p"
proof -
  from assms(1) obtain pre made where pre: "sr_allocations r = pre @ made"
    "mset (map plan_block pre) = mset (map prior_block kept)" unfolding sound_plan_def by blast
  have "prior_block p \<in> set (map prior_block kept)" using assms(2) by simp
  then have "prior_block p \<in> set (map plan_block pre)" using pre(2) by (metis set_mset_mset)
  then show ?thesis using pre(1) by auto
qed

abbreviation valid_prior :: "planner_input \<Rightarrow> bool" where
  "valid_prior v \<equiv> \<forall>p\<in>set (prior_allocations v). pa_start p < pa_end p"

lemma replan_ok:
  assumes pl: "plannable uuid5 tz v" and prior: "valid_prior v"
  shows "\<exists>out kept. replan uuid5 tz v = Inr out
    \<and> kept = (if ro_proposals out = [] then [] else protected_prior_allocations v)
    \<and> sound_plan v [] kept (ps_base (ro_selected out)) \<and> sound_plan v [] kept (ps_safety (ro_selected out))
    \<and> ps_buffers (ro_selected out) = create_synthetic_buffers uuid5 tz v
    \<and> (\<forall>p\<in>set (protected_prior_allocations v).
         \<exists>a\<in>set (sr_allocations (ps_base (ro_selected out))). plan_block a = prior_block p)"
proof -
  note ok = run_planning_passes_ok [OF pl]
  have nil: "\<forall>a\<in>set []. pa_start a < pa_end a" by simp
  have prot: "\<forall>a\<in>set (protected_prior_allocations v). pa_start a < pa_end a"
    using prior by (auto simp: protected_prior_allocations_def)
  obtain before where b: "run_planning_passes uuid5 tz v (prior_intervals v) [] = Inr before"
    using ok [OF nil] by blast
  obtain after where a: "run_planning_passes uuid5 tz v [] [] = Inr after" "sound_plan v [] [] (ps_base after)"
    "sound_plan v [] [] (ps_safety after)" "ps_buffers after = create_synthetic_buffers uuid5 tz v"
    using ok [OF nil] by blast
  obtain sel where sel: "run_planning_passes uuid5 tz v [] (protected_prior_allocations v) = Inr sel"
    "sound_plan v [] (protected_prior_allocations v) (ps_base sel)"
    "sound_plan v [] (protected_prior_allocations v) (ps_safety sel)"
    "ps_buffers sel = create_synthetic_buffers uuid5 tz v"
    using ok [OF prot] by blast
  obtain c where c: "build_risk_context tz v = Inr c"
    using build_graph_analysis_result [of v tz] pl by (auto simp: build_risk_context_def)
  define diff where "diff = diff_from_prior (in_prior v) (sr_allocations (ps_base after))"
  define props where "props = move_proposals uuid5 v (df_moves diff) @ removal_proposals uuid5 v (df_removed diff)"
  define chosen where "chosen = (if props \<noteq> [] then sel else after)"
  have chosen: "(if props \<noteq> [] then run_planning_passes uuid5 tz v [] (protected_prior_allocations v) else Inr after) = Inr chosen"
    by (simp add: chosen_def sel(1))
  have "\<exists>out. replan uuid5 tz v = Inr out \<and> ro_proposals out = props \<and> ro_selected out = chosen"
    unfolding replan_def b c a(1) rbind.simps Let_def diff_def [symmetric] props_def [symmetric] chosen by simp
  then obtain out where out: "replan uuid5 tz v = Inr out" "ro_proposals out = props" "ro_selected out = chosen" by blast
  have keep: "\<exists>x\<in>set (sr_allocations (ps_base chosen)). plan_block x = prior_block p"
    if p: "p \<in> set (protected_prior_allocations v)" for p
  proof (cases "props = []")
    case True
    then have "move_proposals uuid5 v (df_moves (diff_from_prior (in_prior v) (sr_allocations (ps_base after)))) = []"
      "removal_proposals uuid5 v (df_removed (diff_from_prior (in_prior v) (sr_allocations (ps_base after)))) = []"
      by (simp_all add: props_def diff_def)
    from no_proposals_unmoved [OF p this] show ?thesis using True by (simp add: chosen_def)
  next
    case False
    then show ?thesis using sound_plan_keeps [OF sel(2) p] by (simp add: chosen_def)
  qed
  show ?thesis
    by (rule exI [of _ out], rule exI [of _ "if props = [] then [] else protected_prior_allocations v"])
      (use out keep sel a in \<open>simp add: chosen_def\<close>)
qed

text \<open>
  C2. Replanning succeeds on every plannable input, and protected work never moves: every
  block of the prior plan whose task is pinned or which starts within the freeze window is
  in the selected base plan with the same start and end, and the selected plan is sound. When
  nothing protected is touched, no proposal is made and the plan is the unconstrained one.
\<close>

theorem replan_keeps_protected_work:
  assumes "plannable uuid5 tz v" and "valid_prior v"
  shows "\<exists>out. replan uuid5 tz v = Inr out
    \<and> (\<forall>p\<in>set (prior_allocations v).
         pa_task p \<in> set (in_pinned v) \<or> pa_start p \<le> in_now v + minutes_delta 120 \<longrightarrow>
         (\<exists>a\<in>set (sr_allocations (ps_base (ro_selected out))).
            al_task a = pa_task p \<and> al_start a = pa_start p \<and> al_end a = pa_end p))
    \<and> (\<exists>kept. set kept \<subseteq> set (protected_prior_allocations v)
         \<and> sound_plan v [] kept (ps_base (ro_selected out)) \<and> sound_plan v [] kept (ps_safety (ro_selected out)))"
proof -
  from replan_ok [OF assms] obtain out kept where out: "replan uuid5 tz v = Inr out"
    "kept = (if ro_proposals out = [] then [] else protected_prior_allocations v)"
    "sound_plan v [] kept (ps_base (ro_selected out))" "sound_plan v [] kept (ps_safety (ro_selected out))"
    "\<forall>p\<in>set (protected_prior_allocations v).
         \<exists>a\<in>set (sr_allocations (ps_base (ro_selected out))). plan_block a = prior_block p" by blast
  have "set kept \<subseteq> set (protected_prior_allocations v)" using out(2) by simp
  moreover have "p \<in> set (protected_prior_allocations v)" if "p \<in> set (prior_allocations v)"
    "pa_task p \<in> set (in_pinned v) \<or> pa_start p \<le> in_now v + minutes_delta 120" for p
    using that by (simp add: protected_prior_allocations_def is_in_freeze_window_def FREEZE_WINDOW_MINUTES_def)
  ultimately show ?thesis using out(1,3-5) unfolding plan_block_def prior_block_def by (metis prod.inject)
qed

text \<open>The small input with a prior plan that pins the first task.\<close>

definition pinned_input :: planner_input where
  "pinned_input = small_input\<lparr>in_pinned := [TaskId 1],
     in_prior := Some \<lparr>pp_id = 9, pp_input_hash = ''h'',
       pp_allocations = [\<lparr>pa_task = TaskId 1, pa_start = 600 * us_per_minute, pa_end = 630 * us_per_minute\<rparr>]\<rparr>\<rparr>"

lemma pinned_input_plannable: "plannable length_uuid5 utc_tzdb pinned_input"
proof -
  have "create_synthetic_buffers length_uuid5 utc_tzdb pinned_input = create_synthetic_buffers length_uuid5 utc_tzdb small_input"
  proof -
    have "milestone_buffers length_uuid5 utc_tzdb pinned_input m = milestone_buffers length_uuid5 utc_tzdb small_input m" for m
      by (simp add: milestone_buffers_def pinned_input_def cong: option.case_cong if_cong)
    then show ?thesis by (simp add: create_synthetic_buffers_def pinned_input_def)
  qed
  moreover have "wf_input utc_tzdb pinned_input = wf_input utc_tzdb small_input"
    by (simp add: wf_input_def pinned_input_def input_workspaces_def known_task_ids_def)
  ultimately show ?thesis using small_input_plannable
    by (simp add: distinct_task_ids_def) (simp add: pinned_input_def)
qed

lemma replan_keeps_protected_work_witness:
  "\<exists>out. replan length_uuid5 utc_tzdb pinned_input = Inr out
    \<and> (\<exists>a\<in>set (sr_allocations (ps_base (ro_selected out))).
         al_task a = TaskId 1 \<and> al_start a = 600 * us_per_minute \<and> al_end a = 630 * us_per_minute)"
proof -
  have "valid_prior pinned_input" by (simp add: pinned_input_def prior_allocations_def)
  from replan_keeps_protected_work [OF pinned_input_plannable this]
  obtain out where out: "replan length_uuid5 utc_tzdb pinned_input = Inr out"
    "\<forall>p\<in>set (prior_allocations pinned_input).
         pa_task p \<in> set (in_pinned pinned_input) \<or> pa_start p \<le> in_now pinned_input + minutes_delta 120 \<longrightarrow>
         (\<exists>a\<in>set (sr_allocations (ps_base (ro_selected out))).
            al_task a = pa_task p \<and> al_start a = pa_start p \<and> al_end a = pa_end p)" by blast
  have "\<lparr>pa_task = TaskId 1, pa_start = 600 * us_per_minute, pa_end = 630 * us_per_minute\<rparr>
      \<in> set (prior_allocations pinned_input)" "TaskId 1 \<in> set (in_pinned pinned_input)"
    by (simp_all add: pinned_input_def prior_allocations_def)
  with out show ?thesis by fastforce
qed

end
