(* ===== verification/Canonical.thy ===== *)
theory Canonical
  imports Contracts
begin

text \<open>
  The canonical form of a planner input (\<open>_convert\<close>, \<open>_sort_key\<close>, \<open>canonical_input_bytes\<close>,
  \<open>input_hash\<close> of \<open>contracts/input.py\<close>, \<open>normalization/canonical.py\<close>): the input as JSON, printed
  with sorted keys and no spaces and encoded in UTF-8. A string is over the code points below
  256. SHA-256 is the parameter \<open>sha256\<close>. The results: the order in which the entities of a
  collection are given does not change the hash.
\<close>

section \<open>JSON\<close>

datatype json =
    JNull
  | JBool bool
  | JInt int
  | JStr string
  | JList "json list"
  | JObj "(string \<times> json) list"

text \<open>\<open>json.dumps(\<dots>, ensure_ascii=False)\<close> escapes quotes, backslashes and control characters.\<close>

definition json_char :: "char \<Rightarrow> string" where
  "json_char c =
     (if c = CHR 0x22 then [CHR 0x5C, CHR 0x22]
      else if c = CHR 0x5C then [CHR 0x5C, CHR 0x5C]
      else if c = CHR 0x0A then [CHR 0x5C, CHR 0x6E]
      else if c = CHR 0x0D then [CHR 0x5C, CHR 0x72]
      else if c = CHR 0x09 then [CHR 0x5C, CHR 0x74]
      else if c = CHR 0x0C then [CHR 0x5C, CHR 0x66]
      else if c = CHR 0x08 then [CHR 0x5C, CHR 0x62]
      else if (of_char c :: nat) < 32 then [CHR 0x5C, CHR 0x75] @ hex_digits 4 (of_char c)
      else [c])"

definition json_string :: "string \<Rightarrow> string" where
  "json_string s = CHR 0x22 # concat (map json_char s) @ [CHR 0x22]"

fun comma_sep :: "string list \<Rightarrow> string" where
  "comma_sep [] = []"
| "comma_sep [x] = x"
| "comma_sep (x # y # zs) = x @ '','' @ comma_sep (y # zs)"

text \<open>\<open>json.dumps(item, ensure_ascii=False, sort_keys=True, separators=(",", ":"))\<close>\<close>

fun dumps :: "json \<Rightarrow> string" where
  "dumps JNull = ''null''"
| "dumps (JBool b) = (if b then ''true'' else ''false'')"
| "dumps (JInt n) = int_str n"
| "dumps (JStr s) = json_string s"
| "dumps (JList xs) = ''['' @ comma_sep (map dumps xs) @ '']''"
| "dumps (JObj kvs) = ''{'' @ comma_sep (map snd (sort_key fst
     (map (\<lambda>(k, v). (k, json_string k @ '':'' @ dumps v)) kvs))) @ ''}''"

text \<open>\<open>str.encode("utf-8")\<close>\<close>

fun utf8 :: "string \<Rightarrow> nat list" where
  "utf8 [] = []"
| "utf8 (c # cs) = (let n = of_char c in
     if n < 128 then n # utf8 cs else (192 + n div 64) # (128 + n mod 64) # utf8 cs)"

section \<open>Conversion\<close>

definition json_uuid :: "uuid \<Rightarrow> json" where
  "json_uuid u = JStr (uuid_str u)"

text \<open>An identifier dataclass, converted through \<open>asdict\<close>.\<close>

definition json_id :: "uuid \<Rightarrow> json" where
  "json_id u = JObj [(''value'', json_uuid u)]"

definition json_opt :: "('a \<Rightarrow> json) \<Rightarrow> 'a option \<Rightarrow> json" where
  "json_opt f x = (case x of None \<Rightarrow> JNull | Some y \<Rightarrow> f y)"

definition json_instant :: "instant \<Rightarrow> json" where
  "json_instant t = JStr (instant_iso t)"

definition json_date :: "date \<Rightarrow> json" where
  "json_date d = JStr (date_iso d)"

text \<open>A collection sorted by \<open>_sort_key\<close>; a frozenset holds every element once.\<close>

definition json_sorted :: "json list \<Rightarrow> json" where
  "json_sorted xs = JList (sort_key dumps xs)"

definition json_set :: "('a \<Rightarrow> json) \<Rightarrow> 'a list \<Rightarrow> json" where
  "json_set f xs = json_sorted (map f (remdups xs))"

definition json_window :: "window \<Rightarrow> json" where
  "json_window w = JObj [(''start_at'', json_instant (aw_start w)), (''end_at'', json_instant (aw_end w)),
     (''tags'', json_set JStr (aw_tags w))]"

definition json_event :: "calendar_event \<Rightarrow> json" where
  "json_event e = JObj [(''id'', json_id (ev_value (ce_id e))), (''workspace_id'', json_id (ws_value (ce_workspace e))),
     (''title'', JStr (ce_title e)), (''start_at'', json_instant (ce_start e)), (''end_at'', json_instant (ce_end e)),
     (''event_kind'', JStr (calendar_event_kind_value (ce_kind e))),
     (''deadline_date'', json_opt json_date (ce_deadline_date e)), (''version'', JInt (ce_version e))]"

definition json_task :: "task \<Rightarrow> json" where
  "json_task t = JObj [(''id'', json_id (tid_value (ts_id t))), (''workspace_id'', json_id (ws_value (ts_workspace t))),
     (''workstream_id'', json_id (stream_value (ts_workstream t))),
     (''milestone_id'', json_opt (\<lambda>m. json_id (ms_value m)) (ts_milestone t)),
     (''title'', JStr (ts_title t)), (''status'', JStr (task_status_value (ts_status t))),
     (''deadline_date'', json_opt json_date (ts_deadline_date t)),
     (''deadline_at'', json_opt json_instant (ts_deadline_at t)),
     (''deadline_time_known'', JBool (ts_deadline_time_known t)),
     (''start_after'', json_opt json_instant (ts_start_after t)),
     (''base_duration_minutes'', JInt (ts_base_duration t)), (''safety_duration_minutes'', JInt (ts_safety_duration t)),
     (''remaining_base_minutes'', JInt (ts_remaining_base t)),
     (''remaining_safety_minutes'', JInt (ts_remaining_safety t)),
     (''uncertainty'', JStr (uncertainty_value (ts_uncertainty t))), (''splittable'', JBool (ts_splittable t)),
     (''min_chunk_minutes'', JInt (ts_min_chunk t)), (''pinned'', JBool (ts_pinned t)),
     (''waiting_reason'', json_opt JStr (ts_waiting_reason t)), (''version'', JInt (ts_version t))]"

definition json_milestone :: "milestone \<Rightarrow> json" where
  "json_milestone m = JObj [(''id'', json_id (ms_value (mi_id m))), (''workspace_id'', json_id (ws_value (mi_workspace m))),
     (''workstream_id'', json_id (stream_value (mi_workstream m))), (''title'', JStr (mi_title m)),
     (''deadline_date'', json_opt json_date (mi_deadline_date m)),
     (''deadline_at'', json_opt json_instant (mi_deadline_at m)),
     (''deadline_date_known'', JBool (mi_deadline_date_known m)),
     (''deadline_time_known'', JBool (mi_deadline_time_known m)),
     (''deadline_type'', JStr (deadline_type_value (mi_deadline_type m))),
     (''required_buffer_minutes'', JInt (mi_required_buffer m)), (''version'', JInt (mi_version m))]"

definition json_dependency :: "task_dependency \<Rightarrow> json" where
  "json_dependency d = JObj [(''predecessor_id'', json_id (tid_value (dp_predecessor d))),
     (''successor_id'', json_id (tid_value (dp_successor d))),
     (''dependency_type'', JStr (dependency_type_value (dp_type d)))]"

definition json_external :: "external_dependency \<Rightarrow> json" where
  "json_external x = JObj [(''id'', json_id (ext_value (ex_id x))), (''workspace_id'', json_id (ws_value (ex_workspace x))),
     (''deliverable'', JStr (ex_deliverable x)), (''owner_label'', json_opt JStr (ex_owner_label x)),
     (''expected_delivery_at'', json_opt json_instant (ex_expected_delivery x)),
     (''uncertainty_buffer_minutes'', JInt (ex_uncertainty_buffer x)),
     (''fallback_available'', JBool (ex_fallback_available x)),
     (''fallback_task_ids'', JList (map (\<lambda>t. json_id (tid_value t)) (ex_fallback_tasks x))),
     (''affected_task_ids'', JList (map (\<lambda>t. json_id (tid_value t)) (ex_affected_tasks x))),
     (''version'', JInt (ex_version x))]"

definition json_prior :: "prior_plan_snapshot \<Rightarrow> json" where
  "json_prior s = JObj [(''id'', json_uuid (pp_id s)), (''input_hash'', JStr (pp_input_hash s)),
     (''allocations'', JList (map (\<lambda>p. JObj [(''task_id'', json_id (tid_value (pa_task p))),
        (''start_at'', json_instant (pa_start p)), (''end_at'', json_instant (pa_end p))]) (pp_allocations s)))]"

definition convert_planner_input :: "planner_input \<Rightarrow> json" where
  "convert_planner_input v = JObj [
     (''planner_version'', JStr (in_planner_version v)), (''now_utc'', json_instant (in_now v)),
     (''user_timezone'', JStr (in_timezone v)), (''horizon_end_utc'', json_instant (in_horizon_end v)),
     (''slot_minutes'', JInt (in_slot_minutes v)),
     (''availability_windows'', json_sorted (map json_window (in_windows v))),
     (''calendar_events'', json_sorted (map json_event (in_events v))),
     (''tasks'', json_sorted (map json_task (in_tasks v))),
     (''milestones'', json_sorted (map json_milestone (in_milestones v))),
     (''task_dependencies'', json_sorted (map json_dependency (in_dependencies v))),
     (''external_dependencies'', json_sorted (map json_external (in_externals v))),
     (''pinned_task_ids'', json_set (\<lambda>t. json_id (tid_value t)) (in_pinned v)),
     (''excluded_dates'', json_sorted (map json_date (in_excluded_dates v))),
     (''prior_plan_snapshot'', json_opt json_prior (in_prior v))]"

definition canonical_input_bytes :: "planner_input \<Rightarrow> nat list" where
  "canonical_input_bytes v = utf8 (dumps (convert_planner_input v))"

definition input_hash :: "(nat list \<Rightarrow> string) \<Rightarrow> planner_input \<Rightarrow> string" where
  "input_hash sha256 v = sha256 (canonical_input_bytes v)"

definition canonicalize :: "planner_input \<Rightarrow> planner_input" where
  "canonicalize v = v"

definition hash_canonical_input :: "(nat list \<Rightarrow> string) \<Rightarrow> planner_input \<Rightarrow> string" where
  "hash_canonical_input sha256 v = input_hash sha256 (canonicalize v)"

section \<open>The hash does not depend on the order of collections\<close>

lemma map_sort_key_self: "map f (sort_key f xs) = sort (map f xs)"
  by (rule properties_for_sort [symmetric]) (simp_all add: mset_map [symmetric] del: mset_map, simp)

lemma json_sorted_cong:
  assumes "mset xs = mset ys"
  shows "dumps (json_sorted xs) = dumps (json_sorted ys)"
proof -
  have "sort (map dumps xs) = sort (map dumps ys)"
    by (rule properties_for_sort) (simp_all add: assms)
  then show ?thesis by (simp add: json_sorted_def map_sort_key_self)
qed

lemma json_sorted_map_cong: "mset xs = mset ys \<Longrightarrow> dumps (json_sorted (map f xs)) = dumps (json_sorted (map f ys))"
  by (rule json_sorted_cong) simp

lemma json_set_cong:
  assumes "set xs = set ys"
  shows "dumps (json_set f xs) = dumps (json_set f ys)"
proof -
  have "mset (remdups xs) = mset (remdups ys)" using assms by (metis mset_set_set distinct_remdups set_remdups)
  then show ?thesis unfolding json_set_def by (rule json_sorted_map_cong)
qed

text \<open>Two inputs that differ only in the order in which collections are given.\<close>

definition same_content :: "planner_input \<Rightarrow> planner_input \<Rightarrow> bool" where
  "same_content v v' \<longleftrightarrow> mset (in_windows v) = mset (in_windows v') \<and> mset (in_events v) = mset (in_events v')
     \<and> mset (in_tasks v) = mset (in_tasks v') \<and> mset (in_milestones v) = mset (in_milestones v')
     \<and> mset (in_dependencies v) = mset (in_dependencies v') \<and> mset (in_externals v) = mset (in_externals v')
     \<and> set (in_pinned v) = set (in_pinned v') \<and> mset (in_excluded_dates v) = mset (in_excluded_dates v')
     \<and> in_planner_version v = in_planner_version v' \<and> in_now v = in_now v' \<and> in_timezone v = in_timezone v'
     \<and> in_horizon_end v = in_horizon_end v' \<and> in_slot_minutes v = in_slot_minutes v' \<and> in_prior v = in_prior v'"

text \<open>
  The order in which windows, events, tasks, milestones, dependencies, external
  deliveries, excluded dates and pinned tasks are given does not change the canonical bytes,
  so it does not change the input hash, whatever the hash function.
\<close>

theorem input_hash_order_free:
  assumes "same_content v v'"
  shows "canonical_input_bytes v = canonical_input_bytes v' \<and> input_hash sha256 v = input_hash sha256 v'"
proof -
  note eqs = assms [unfolded same_content_def]
  have "dumps (convert_planner_input v) = dumps (convert_planner_input v')"
    unfolding convert_planner_input_def
    using eqs json_sorted_map_cong [of "in_windows v" "in_windows v'"] json_sorted_map_cong [of "in_events v" "in_events v'"]
      json_sorted_map_cong [of "in_tasks v" "in_tasks v'"] json_sorted_map_cong [of "in_milestones v" "in_milestones v'"]
      json_sorted_map_cong [of "in_dependencies v" "in_dependencies v'"]
      json_sorted_map_cong [of "in_externals v" "in_externals v'"]
      json_sorted_map_cong [of "in_excluded_dates v" "in_excluded_dates v'"]
      json_set_cong [of "in_pinned v" "in_pinned v'"]
    by (simp only: dumps.simps list.map prod.case)
  then show ?thesis by (simp add: canonical_input_bytes_def input_hash_def)
qed

lemma input_hash_order_free_witness:
  "input_hash (\<lambda>bytes. int_str (int (length bytes))) small_input
     = input_hash (\<lambda>bytes. int_str (int (length bytes))) (small_input\<lparr>in_tasks := rev (in_tasks small_input)\<rparr>)
   \<and> in_tasks small_input \<noteq> rev (in_tasks small_input)"
proof -
  have "same_content small_input (small_input\<lparr>in_tasks := rev (in_tasks small_input)\<rparr>)"
    by (simp add: same_content_def)
  from input_hash_order_free [OF this] have "input_hash (\<lambda>bytes. int_str (int (length bytes))) small_input
     = input_hash (\<lambda>bytes. int_str (int (length bytes))) (small_input\<lparr>in_tasks := rev (in_tasks small_input)\<rparr>)" by blast
  then show ?thesis by (simp add: small_defs)
qed

end
