(* ===== verification/Validation.thy ===== *)
theory Validation
  imports Canonical
begin

text \<open>
  Contract validation of a planner input (\<open>normalization/validate.py\<close>): the violations with
  their rule ids, and the typed result. The results: an input made of stored snapshots is
  always valid, and a failure names exactly the rules that are violated and keeps the prior
  plan.
\<close>

section \<open>The code\<close>

record contract_violation =
  cn_rule :: string
  cn_detail :: string

datatype normalization_result =
    ValidInput (vi_value: planner_input) (vi_hash: string)
  | InvalidInput (ii_code: string) (ii_rules: "string list") (ii_prior: "prior_plan_snapshot option")

text \<open>\<open>str(datetime)\<close> separates date and time by a space.\<close>

definition instant_str :: "instant \<Rightarrow> string" where
  "instant_str t = (case time_parts t of (h, m, s, us) \<Rightarrow>
     date_iso (utc_date t) @ '' '' @ pad 2 h @ '':'' @ pad 2 m @ '':'' @ pad 2 s
       @ (if us = 0 then [] else ''.'' @ pad 6 us) @ ''+00:00'')"

definition task_violations :: "task \<Rightarrow> contract_violation list" where
  "task_violations t =
     (if closed_status (ts_status t) \<and> (0 < ts_remaining_base t \<or> 0 < ts_remaining_safety t)
      then [\<lparr>cn_rule = ''DONE_TASK_HAS_REMAINING_TIME'',
        cn_detail = ''task '' @ hex_of (tid_value (ts_id t)) @ '' is '' @ task_status_value (ts_status t)
          @ '' with remaining minutes''\<rparr>] else [])
     @ (if ts_base_duration t \<le> 0
        then [\<lparr>cn_rule = ''BASE_DURATION_NOT_POSITIVE'', cn_detail = ''task '' @ hex_of (tid_value (ts_id t))\<rparr>] else [])
     @ (if ts_safety_duration t < ts_base_duration t
        then [\<lparr>cn_rule = ''SAFETY_DURATION_BELOW_BASE'', cn_detail = ''task '' @ hex_of (tid_value (ts_id t))\<rparr>] else [])"

definition validate_contract :: "planner_input \<Rightarrow> contract_violation list" where
  "validate_contract v =
     concat (map task_violations (in_tasks v))
     @ map (\<lambda>d. \<lparr>cn_rule = ''DEPENDENCY_REFERENCES_UNKNOWN_TASK'',
           cn_detail = hex_of (tid_value (dp_predecessor d)) @ ''->'' @ hex_of (tid_value (dp_successor d))\<rparr>)
         (filter (\<lambda>d. dp_predecessor d \<notin> set (known_task_ids v) \<or> dp_successor d \<notin> set (known_task_ids v))
           (in_dependencies v))
     @ map (\<lambda>x. \<lparr>cn_rule = ''EXTERNAL_DEPENDENCY_AFFECTS_UNKNOWN_TASK'', cn_detail = hex_of (ext_value (ex_id x))\<rparr>)
         (filter (\<lambda>x. list_ex (\<lambda>t. t \<notin> set (known_task_ids v)) (ex_affected_tasks x)) (in_externals v))
     @ (if in_horizon_end v \<le> in_now v
        then [\<lparr>cn_rule = ''HORIZON_MUST_END_AFTER_NOW'', cn_detail = instant_str (in_horizon_end v)\<rparr>] else [])"

definition normalize_and_validate :: "(nat list \<Rightarrow> string) \<Rightarrow> planner_input \<Rightarrow> normalization_result" where
  "normalize_and_validate sha256 v =
     (let violations = validate_contract v in
      if violations \<noteq> []
      then InvalidInput ''INVALID_INPUT'' (sort (remdups (map cn_rule violations))) (in_prior v)
      else ValidInput v (hash_canonical_input sha256 v))"

section \<open>What the rules say\<close>

text \<open>The violated rules of an input.\<close>

inductive violated :: "planner_input \<Rightarrow> string \<Rightarrow> bool" where
  remaining: "t \<in> set (in_tasks v) \<Longrightarrow> closed_status (ts_status t) \<Longrightarrow>
      0 < ts_remaining_base t \<or> 0 < ts_remaining_safety t \<Longrightarrow> violated v ''DONE_TASK_HAS_REMAINING_TIME''"
| base: "t \<in> set (in_tasks v) \<Longrightarrow> ts_base_duration t \<le> 0 \<Longrightarrow> violated v ''BASE_DURATION_NOT_POSITIVE''"
| safety: "t \<in> set (in_tasks v) \<Longrightarrow> ts_safety_duration t < ts_base_duration t \<Longrightarrow>
      violated v ''SAFETY_DURATION_BELOW_BASE''"
| dependency: "d \<in> set (in_dependencies v) \<Longrightarrow>
      dp_predecessor d \<notin> set (known_task_ids v) \<or> dp_successor d \<notin> set (known_task_ids v) \<Longrightarrow>
      violated v ''DEPENDENCY_REFERENCES_UNKNOWN_TASK''"
| external: "x \<in> set (in_externals v) \<Longrightarrow> t \<in> set (ex_affected_tasks x) \<Longrightarrow> t \<notin> set (known_task_ids v) \<Longrightarrow>
      violated v ''EXTERNAL_DEPENDENCY_AFFECTS_UNKNOWN_TASK''"
| horizon: "in_horizon_end v \<le> in_now v \<Longrightarrow> violated v ''HORIZON_MUST_END_AFTER_NOW''"

lemma task_violations_rules:
  "r \<in> cn_rule ` set (task_violations t) \<longleftrightarrow>
     r = ''DONE_TASK_HAS_REMAINING_TIME'' \<and> closed_status (ts_status t)
       \<and> (0 < ts_remaining_base t \<or> 0 < ts_remaining_safety t)
     \<or> r = ''BASE_DURATION_NOT_POSITIVE'' \<and> ts_base_duration t \<le> 0
     \<or> r = ''SAFETY_DURATION_BELOW_BASE'' \<and> ts_safety_duration t < ts_base_duration t"
  unfolding task_violations_def by (simp only: set_append image_Un Un_iff) auto

lemma rule_of_filtered:
  "(\<And>x. cn_rule (f x) = k) \<Longrightarrow>
     r \<in> cn_rule ` set (map f (filter P xs)) \<longleftrightarrow> r = k \<and> (\<exists>x\<in>set xs. P x)"
  by (auto simp: image_iff)

lemma rule_of_concat: "r \<in> cn_rule ` set (concat (map f xs)) \<longleftrightarrow> (\<exists>x\<in>set xs. r \<in> cn_rule ` set (f x))"
  by auto

lemma rule_of_single: "r \<in> cn_rule ` set (if c then [x] else []) \<longleftrightarrow> r = cn_rule x \<and> c"
  by (cases c) simp_all

lemma validate_contract_rules: "r \<in> cn_rule ` set (validate_contract v) \<longleftrightarrow> violated v r"
proof -
  have "r \<in> cn_rule ` set (validate_contract v) \<longleftrightarrow>
      (\<exists>t\<in>set (in_tasks v). r \<in> cn_rule ` set (task_violations t))
      \<or> r = ''DEPENDENCY_REFERENCES_UNKNOWN_TASK'' \<and> (\<exists>d\<in>set (in_dependencies v).
           dp_predecessor d \<notin> set (known_task_ids v) \<or> dp_successor d \<notin> set (known_task_ids v))
      \<or> r = ''EXTERNAL_DEPENDENCY_AFFECTS_UNKNOWN_TASK'' \<and> (\<exists>x\<in>set (in_externals v).
           list_ex (\<lambda>t. t \<notin> set (known_task_ids v)) (ex_affected_tasks x))
      \<or> r = ''HORIZON_MUST_END_AFTER_NOW'' \<and> in_horizon_end v \<le> in_now v"
    unfolding validate_contract_def set_append image_Un Un_iff rule_of_concat rule_of_single
    by (subst rule_of_filtered [where k = "''DEPENDENCY_REFERENCES_UNKNOWN_TASK''"], simp,
        subst rule_of_filtered [where k = "''EXTERNAL_DEPENDENCY_AFFECTS_UNKNOWN_TASK''"], simp,
        simp only: contract_violation.select_convs)
  also have "\<dots> \<longleftrightarrow> violated v r" (is "?L \<longleftrightarrow> _")
  proof
    assume ?L
    then show "violated v r" unfolding task_violations_rules list_ex_iff by (elim disjE bexE conjE) (simp_all add: violated.intros)
  next
    assume "violated v r"
    then show ?L
    proof cases
      case (remaining t)
      then show ?thesis unfolding task_violations_rules by (intro disjI1, intro bexI [of _ t]) simp_all
    next
      case (base t)
      then show ?thesis unfolding task_violations_rules by (intro disjI1, intro bexI [of _ t]) simp_all
    next
      case (safety t)
      then show ?thesis unfolding task_violations_rules by (intro disjI1, intro bexI [of _ t]) simp_all
    next
      case (dependency d)
      then show ?thesis by - (rule disjI2, rule disjI1, blast)
    next
      case (external x t)
      then show ?thesis unfolding list_ex_iff by - (rule disjI2, rule disjI2, rule disjI1, blast)
    next
      case horizon
      then show ?thesis by - (rule disjI2, rule disjI2, rule disjI2, blast)
    qed
  qed
  finally show ?thesis .
qed

text \<open>
  A failed validation keeps the prior plan and reports exactly the violated rules, in
  order and without repetition; validation fails only when some rule is violated, and
  otherwise hands on the input with its canonical hash.
\<close>

theorem normalize_and_validate_exact:
  "normalize_and_validate sha256 v =
     (if \<exists>r. violated v r then
        InvalidInput ''INVALID_INPUT'' (ii_rules (normalize_and_validate sha256 v)) (in_prior v)
      else ValidInput v (input_hash sha256 v))
   \<and> ((\<exists>r. violated v r) \<longrightarrow> sorted (ii_rules (normalize_and_validate sha256 v))
        \<and> distinct (ii_rules (normalize_and_validate sha256 v))
        \<and> (\<forall>r. r \<in> set (ii_rules (normalize_and_validate sha256 v)) \<longleftrightarrow> violated v r))"
proof -
  have "(\<exists>r. violated v r) \<longleftrightarrow> validate_contract v \<noteq> []"
    unfolding validate_contract_rules [symmetric] by (auto simp: neq_Nil_conv)
  moreover have "r \<in> set (sort (remdups (map cn_rule (validate_contract v)))) \<longleftrightarrow> violated v r" for r
    by (simp add: validate_contract_rules)
  ultimately show ?thesis
    by (simp add: normalize_and_validate_def hash_canonical_input_def canonicalize_def Let_def)
qed

lemma normalize_and_validate_exact_witness:
  "normalize_and_validate (\<lambda>_. ''h'') (small_input\<lparr>in_horizon_end := 0\<rparr>) =
     InvalidInput ''INVALID_INPUT'' (ii_rules (normalize_and_validate (\<lambda>_. ''h'') (small_input\<lparr>in_horizon_end := 0\<rparr>))) None
   \<and> ''HORIZON_MUST_END_AFTER_NOW'' \<in> set (ii_rules (normalize_and_validate (\<lambda>_. ''h'') (small_input\<lparr>in_horizon_end := 0\<rparr>)))"
proof -
  have "violated (small_input\<lparr>in_horizon_end := 0\<rparr>) ''HORIZON_MUST_END_AFTER_NOW''"
    by (rule violated.horizon) (simp add: small_input_def)
  moreover have "in_prior (small_input\<lparr>in_horizon_end := 0\<rparr>) = None" by (simp add: small_input_def)
  ultimately show ?thesis
    using normalize_and_validate_exact [of "\<lambda>_. ''h''" "small_input\<lparr>in_horizon_end := 0\<rparr>"] by metis
qed

inductive_cases violated_cases [elim]: "violated v r"

text \<open>An input built from stored snapshots is valid.\<close>

lemma stored_input_valid:
  assumes "wf_input tz v" and "\<forall>t\<in>set (in_tasks v). wf_task t"
  shows "normalize_and_validate sha256 v = ValidInput v (input_hash sha256 v)"
proof -
  have "\<not> violated v r" for r
  proof
    assume "violated v r"
    then show False using assms by cases (auto simp: wf_input_def wf_task_def not_less)
  qed
  then have "validate_contract v = []"
    using validate_contract_rules [of _ v] by (cases "validate_contract v") auto
  then show ?thesis
    by (simp add: normalize_and_validate_def hash_canonical_input_def canonicalize_def)
qed

end
