(* ===== verification/Today.thy ===== *)
theory Today
  imports Risk
begin

text \<open>
  The today view (\<open>today.py\<close>). Two things are parameters because they are not determined by
  the values: \<open>shared t\<close> tells whether the prior plan holds the very same \<open>TaskId\<close> object as
  the task with id \<open>t\<close> (the code compares with \<open>is\<close>; allocations made by the scheduler carry
  the task's own object, preallocated ones, which have no source slots, the prior plan's), and
  \<open>iter\<close> is the order in which CPython iterates over a set of UUIDs. The results: the three
  lists are right and disjoint, and when something is left out of all of them.
\<close>

section \<open>The code\<close>

record today_view =
  tv_core :: "task_id option"
  tv_must_do :: "task_id list"
  tv_next_queue :: "task_id list"
  tv_opportunistic :: "task_id list"
  tv_excluded :: "task_id list"
  tv_warnings :: "string list"

definition today_allocation :: "tzdb \<Rightarrow> planner_input \<Rightarrow> task_allocation \<Rightarrow> bool" where
  "today_allocation tz v a \<longleftrightarrow> al_kind a = ''TASK''
     \<and> local_day tz (al_start a) (in_timezone v) = local_day tz (in_now v) (in_timezone v)"

definition minutes_today :: "tzdb \<Rightarrow> planner_input \<Rightarrow> task_allocation list \<Rightarrow> (task_id, int) dict" where
  "minutes_today tz v as = fold (\<lambda>a m. if \<not> today_allocation tz v a then m
     else AList.update (al_task a) (dget m (al_task a) 0 + al_minutes a) m) as []"

definition active_tasks :: "planner_input \<Rightarrow> task list" where
  "active_tasks v = sort_key ts_id (filter (\<lambda>t. \<not> closed_status (ts_status t)) (in_tasks v))"

text \<open>\<open>allocation.task_id is task.id\<close>\<close>

definition same_id_object :: "(task_id \<Rightarrow> bool) \<Rightarrow> task_allocation \<Rightarrow> task \<Rightarrow> bool" where
  "same_id_object shared a t \<longleftrightarrow> al_task a = ts_id t \<and> (al_slots a \<noteq> [] \<or> shared (ts_id t))"

definition start_key :: "(task_id \<Rightarrow> bool) \<Rightarrow> task_allocation list \<Rightarrow> task \<Rightarrow> instant" where
  "start_key shared as t =
     (case filter (\<lambda>a. same_id_object shared a t \<and> al_kind a = ''TASK'') as of
        [] \<Rightarrow> datetime_max
      | a # rest \<Rightarrow> fold (\<lambda>x m. min m (al_start x)) rest (al_start a))"

definition build_today_plan :: "tzdb \<Rightarrow> (task_id \<Rightarrow> bool) \<Rightarrow> (uuid list \<Rightarrow> uuid list) \<Rightarrow> planner_input
    \<Rightarrow> planning_passes \<Rightarrow> (milestone_id, risk_assessment) dict \<Rightarrow> today_view" where
  "build_today_plan tz shared iter v ps risks =
     (let as = sr_allocations (ps_base ps);
          got = (\<lambda>t. dget (minutes_today tz v as) (ts_id t) 0);
          excluded = filter (\<lambda>t. got t \<le> 0) (active_tasks v);
          full = filter (\<lambda>t. \<not> got t \<le> 0 \<and> ts_remaining_base t \<le> got t) (active_tasks v);
          part = filter (\<lambda>t. \<not> got t \<le> 0 \<and> \<not> ts_remaining_base t \<le> got t) (active_tasks v);
          ordered_full = sort_key (start_key shared as) full;
          core = (case ordered_full of [] \<Rightarrow> None | t # _ \<Rightarrow> Some (ts_id t));
          must_do = map ts_id (take 3 ordered_full);
          core_result = (case must_do of [] \<Rightarrow> core | t # _ \<Rightarrow> Some t);
          critical = remdups (map (\<lambda>a. ms_value (ra_milestone a))
            (filter (\<lambda>a. ra_level a = risk_level_value CRITICAL) (map snd risks)))
      in \<lparr>tv_core = core_result, tv_must_do = must_do, tv_next_queue = map ts_id part,
          tv_opportunistic = [], tv_excluded = map ts_id excluded,
          tv_warnings = map (\<lambda>m. ''milestone:'' @ hex_of m @ '':CRITICAL'') (iter critical)\<rparr>)"

section \<open>The lists of the view\<close>

definition planned_today :: "tzdb \<Rightarrow> planner_input \<Rightarrow> planning_passes \<Rightarrow> task_id \<Rightarrow> int" where
  "planned_today tz v ps t = sum_list (map al_minutes
     (filter (\<lambda>a. al_task a = t \<and> today_allocation tz v a) (sr_allocations (ps_base ps))))"

lemma minutes_today_sum:
  "dget (minutes_today tz v as) t 0 = sum_list (map al_minutes (filter (\<lambda>a. al_task a = t \<and> today_allocation tz v a) as))"
proof -
  have "dget (fold (\<lambda>a m. if \<not> today_allocation tz v a then m
      else AList.update (al_task a) (dget m (al_task a) 0 + al_minutes a) m) as m) t 0
    = dget m t 0 + sum_list (map al_minutes (filter (\<lambda>a. al_task a = t \<and> today_allocation tz v a) as))" for m
    by (induction as arbitrary: m) (simp_all add: dict_simps)
  from this [of "[]"] show ?thesis by (simp add: minutes_today_def dict_simps)
qed

text \<open>The open tasks that are planned in full today.\<close>

definition done_today :: "tzdb \<Rightarrow> planner_input \<Rightarrow> planning_passes \<Rightarrow> task \<Rightarrow> bool" where
  "done_today tz v ps t \<longleftrightarrow> t \<in> set (in_tasks v) \<and> \<not> closed_status (ts_status t)
     \<and> 0 < planned_today tz v ps (ts_id t) \<and> ts_remaining_base t \<le> planned_today tz v ps (ts_id t)"

lemma set_active: "set (active_tasks v) = {t \<in> set (in_tasks v). \<not> closed_status (ts_status t)}"
  by (simp add: active_tasks_def)

lemma build_today_plan_lists:
  assumes "view = build_today_plan tz shared iter v ps risks"
  shows "\<exists>full. set full = {t. done_today tz v ps t} \<and> sorted (map (start_key shared (sr_allocations (ps_base ps))) full)
      \<and> length full = length (filter (done_today tz v ps) (in_tasks v))
      \<and> tv_must_do view = map ts_id (take 3 full)
      \<and> tv_core view = (case full of [] \<Rightarrow> None | t # _ \<Rightarrow> Some (ts_id t))
      \<and> set (tv_next_queue view) = ts_id ` {t \<in> set (active_tasks v). 0 < planned_today tz v ps (ts_id t)
           \<and> planned_today tz v ps (ts_id t) < ts_remaining_base t}
      \<and> set (tv_excluded view) = ts_id ` {t \<in> set (active_tasks v). planned_today tz v ps (ts_id t) \<le> 0}"
proof -
  define as where "as = sr_allocations (ps_base ps)"
  define full where "full = sort_key (start_key shared as) (filter (\<lambda>t. \<not> planned_today tz v ps (ts_id t) \<le> 0
      \<and> ts_remaining_base t \<le> planned_today tz v ps (ts_id t)) (active_tasks v))"
  have got: "dget (minutes_today tz v as) t 0 = planned_today tz v ps t" for t
    by (simp add: minutes_today_sum planned_today_def as_def)
  have eq: "tv_must_do view = map ts_id (take 3 full)"
      "tv_core view = (case full of [] \<Rightarrow> None | t # _ \<Rightarrow> Some (ts_id t))"
    unfolding assms build_today_plan_def Let_def as_def [symmetric] got full_def [symmetric]
    by (simp_all split: list.split)
  have sets: "set full = {t. done_today tz v ps t}"
    by (auto simp: full_def set_active done_today_def)
  have "mset full = filter_mset (\<lambda>t. \<not> planned_today tz v ps (ts_id t) \<le> 0
      \<and> ts_remaining_base t \<le> planned_today tz v ps (ts_id t)) (filter_mset (\<lambda>t. \<not> closed_status (ts_status t)) (mset (in_tasks v)))"
    by (simp add: full_def active_tasks_def)
  also have "\<dots> = mset (filter (done_today tz v ps) (in_tasks v))"
    unfolding filter_filter_mset mset_filter by (rule filter_mset_cong) (auto simp: done_today_def)
  finally have "mset full = mset (filter (done_today tz v ps) (in_tasks v))" .
  then have len: "length full = length (filter (done_today tz v ps) (in_tasks v))" by (rule mset_eq_length)
  have lists: "set (tv_next_queue view) = ts_id ` {t \<in> set (active_tasks v). 0 < planned_today tz v ps (ts_id t)
           \<and> planned_today tz v ps (ts_id t) < ts_remaining_base t}"
      "set (tv_excluded view) = ts_id ` {t \<in> set (active_tasks v). planned_today tz v ps (ts_id t) \<le> 0}"
    unfolding assms build_today_plan_def Let_def as_def [symmetric] got by (auto simp: not_le)
  show ?thesis
    by (rule exI [of _ full]) (use sets len eq lists in \<open>simp add: full_def as_def\<close>)
qed

text \<open>
  With distinct task ids, the must-do list holds at most three tasks, all open and with
  all their remaining base work planned today; the core result is its first entry; the three
  lists have no task in common; and when at most three tasks are planned in full, every open
  task is in one of them.
\<close>

theorem today_plan_lists:
  assumes "distinct (map ts_id (in_tasks v))" and "view = build_today_plan tz shared iter v ps risks"
  shows "length (tv_must_do view) \<le> 3
    \<and> (\<forall>i\<in>set (tv_must_do view). \<exists>t. done_today tz v ps t \<and> ts_id t = i)
    \<and> tv_core view = (case tv_must_do view of [] \<Rightarrow> None | i # _ \<Rightarrow> Some i)
    \<and> set (tv_must_do view) \<inter> set (tv_next_queue view) = {} \<and> set (tv_must_do view) \<inter> set (tv_excluded view) = {}
    \<and> set (tv_next_queue view) \<inter> set (tv_excluded view) = {}
    \<and> (length (filter (done_today tz v ps) (in_tasks v)) \<le> 3 \<longrightarrow>
         ts_id ` {t \<in> set (in_tasks v). \<not> closed_status (ts_status t)}
           = set (tv_must_do view) \<union> set (tv_next_queue view) \<union> set (tv_excluded view))"
proof -
  from build_today_plan_lists [OF assms(2)] obtain full where
    full: "set full = {t. done_today tz v ps t}" "length full = length (filter (done_today tz v ps) (in_tasks v))"
    and must: "tv_must_do view = map ts_id (take 3 full)"
    and core: "tv_core view = (case full of [] \<Rightarrow> None | t # _ \<Rightarrow> Some (ts_id t))"
    and nxt: "set (tv_next_queue view) = ts_id ` {t \<in> set (active_tasks v). 0 < planned_today tz v ps (ts_id t)
           \<and> planned_today tz v ps (ts_id t) < ts_remaining_base t}"
    and exc: "set (tv_excluded view) = ts_id ` {t \<in> set (active_tasks v). planned_today tz v ps (ts_id t) \<le> 0}"
    by blast
  have inj: "inj_on ts_id (set (in_tasks v))" using assms(1) by (simp add: distinct_map)
  have take: "set (take 3 full) \<subseteq> {t. done_today tz v ps t}" using full(1) set_take_subset [of 3 full] by blast
  have members: "\<forall>i\<in>set (tv_must_do view). \<exists>t. done_today tz v ps t \<and> ts_id t = i"
    using take by (auto simp: must)
  have must_facts: "0 < planned_today tz v ps i \<and> (\<forall>t\<in>set (in_tasks v). ts_id t = i \<longrightarrow> ts_remaining_base t \<le> planned_today tz v ps i)"
    if i: "i \<in> set (tv_must_do view)" for i
  proof -
    from i members obtain t where t: "done_today tz v ps t" "ts_id t = i" by blast
    then have "\<forall>u\<in>set (in_tasks v). ts_id u = i \<longrightarrow> u = t" using inj by (auto simp: done_today_def inj_on_def)
    with t show ?thesis unfolding done_today_def by blast
  qed
  have nxt_facts: "0 < planned_today tz v ps i \<and> (\<exists>t\<in>set (in_tasks v). ts_id t = i \<and> planned_today tz v ps i < ts_remaining_base t)"
    if "i \<in> set (tv_next_queue view)" for i
    using that unfolding nxt set_active by auto
  have exc_facts: "planned_today tz v ps i \<le> 0" if "i \<in> set (tv_excluded view)" for i
    using that unfolding exc by auto
  have disj: "set (tv_must_do view) \<inter> set (tv_next_queue view) = {}"
    "set (tv_must_do view) \<inter> set (tv_excluded view) = {}"
    "set (tv_next_queue view) \<inter> set (tv_excluded view) = {}"
    using must_facts nxt_facts exc_facts by (meson disjoint_iff not_le)+
  have complete: "ts_id ` {t \<in> set (in_tasks v). \<not> closed_status (ts_status t)}
      = set (tv_must_do view) \<union> set (tv_next_queue view) \<union> set (tv_excluded view)"
    if "length (filter (done_today tz v ps) (in_tasks v)) \<le> 3"
  proof -
    have "set (tv_must_do view) = ts_id ` {t. done_today tz v ps t}" using that full by (simp add: must)
    then show ?thesis unfolding nxt exc set_active done_today_def by force
  qed
  have "length (tv_must_do view) \<le> 3" by (simp add: must)
  moreover have "tv_core view = (case tv_must_do view of [] \<Rightarrow> None | i # _ \<Rightarrow> Some i)"
    unfolding core must by (cases full) simp_all
  ultimately show ?thesis using members disj complete by blast
qed

section \<open>Where the view is incomplete\<close>

text \<open>Four tasks of half an hour, all planned today, one after another.\<close>

definition four_tasks :: planner_input where
  "four_tasks = small_input\<lparr>in_tasks := map (\<lambda>i. small_task (TaskId i)) [1, 2, 3, 4]\<rparr>"

definition half_hour :: "string list \<Rightarrow> task_id \<Rightarrow> int \<Rightarrow> task_allocation" where
  "half_hour slots t k = \<lparr>al_task = t, al_pass = BASE, al_start = k * 30 * us_per_minute,
     al_end = (k + 1) * 30 * us_per_minute, al_chunk = 0, al_kind = ''TASK'', al_slots = slots\<rparr>"

definition plan_of :: "task_allocation list \<Rightarrow> planning_passes" where
  "plan_of as = (let r = \<lparr>sr_allocations = as, sr_unallocated = [], sr_total = 0, sr_ledger = []\<rparr>
     in \<lparr>ps_provisional = r, ps_base = r, ps_safety = r, ps_promoted = 0, ps_buffers = []\<rparr>)"

lemma today_plan_lists_witness:
  "length (tv_must_do (build_today_plan utc_tzdb (\<lambda>_. True) (\<lambda>x. x) four_tasks (plan_of []) [])) \<le> 3"
proof -
  have "distinct (map ts_id (in_tasks four_tasks))" by (simp add: four_tasks_def small_task_def)
  from today_plan_lists [OF this refl] show ?thesis by blast
qed

lemmas view_eval = build_today_plan_def minutes_today_def today_allocation_def active_tasks_def start_key_def
  same_id_object_def local_day_def local_date_def utc_tzdb_def utc_zone_def four_tasks_def small_defs
  datetime_max_def half_hour_def plan_of_def al_minutes_def minutes_between_def dget_def less_eq_task_id_def less_task_id_def

text \<open>
  A fourth task whose work is completely planned for today appears in no list of the
  view: it is not among the three that must be done, not in the queue, and not excluded.
\<close>

theorem fourth_full_task_dropped:
  "let view = build_today_plan utc_tzdb (\<lambda>_. True) (\<lambda>x. x) four_tasks
       (plan_of (map (\<lambda>i. half_hour [''s''] (TaskId (word_of_int i)) i) [1, 2, 3, 4])) []
   in tv_must_do view = [TaskId 1, TaskId 2, TaskId 3] \<and> tv_next_queue view = [] \<and> tv_excluded view = []
      \<and> TaskId 4 \<in> ts_id ` set (active_tasks four_tasks)"
  by (simp add: view_eval Let_def)

text \<open>
  Starts are compared only for allocations that carry the task's own id object. An
  allocation kept from the prior plan carries another object, so a task kept at the earliest
  time of the day is listed after one that starts later.
\<close>

theorem kept_task_ordered_last:
  "tv_must_do (build_today_plan utc_tzdb (\<lambda>_. False) (\<lambda>x. x) (four_tasks\<lparr>in_tasks := [small_task (TaskId 1), small_task (TaskId 2)]\<rparr>)
     (plan_of [half_hour [] (TaskId 1) 0, half_hour [''s''] (TaskId 2) 5]) []) = [TaskId 2, TaskId 1]
   \<and> al_start (half_hour [] (TaskId 1) 0) < al_start (half_hour [''s''] (TaskId 2) 5)"
  by (simp add: view_eval Let_def)

end
