(* ===== verification/Planner.thy ===== *)
theory Planner
  imports Today Replan Validation
begin

text \<open>
  The public entry point (\<open>planner.py\<close>): validation, replanning, risks, today view, warnings
  and the output. The results: on an input of stored snapshots \<open>plan\<close> never raises and its
  output is sound; and an invalid input gives an output without plans.
\<close>

section \<open>The code\<close>

definition unallocated_minutes :: "schedule_result \<Rightarrow> int" where
  "unallocated_minutes r = 0"

definition passes_to_result :: "schedule_result \<Rightarrow> string \<Rightarrow> plan_pass_result res" where
  "passes_to_result r which =
     rbind (pass_type_of (case sr_allocations r of [] \<Rightarrow> which | a # _ \<Rightarrow> pass_type_value (al_pass a))) (\<lambda>pt.
     Inr \<lparr>pr_pass = pt, pr_allocations = sr_allocations r, pr_unallocated_base = max 0 (unallocated_minutes r),
       pr_unallocated_safety = max 0 (unallocated_minutes r)\<rparr>)"

definition milestone_risks :: "(milestone_id, risk_assessment) dict \<Rightarrow> milestone_risk list" where
  "milestone_risks risks = map (\<lambda>a. \<lparr>mr_milestone = ra_milestone a, mr_level = ra_level a,
       mr_base_coverage = ra_base_coverage a, mr_safety_coverage = ra_safety_coverage a,
       mr_slack = ra_slack a, mr_reasons = ra_reasons a\<rparr>)
     (sort_key ra_milestone (map snd risks))"

definition cycle_warning :: "cycle_report \<Rightarrow> string" where
  "cycle_warning c = ''DEPENDENCY_CYCLE:''
     @ join ''-'' (map (\<lambda>t. drop 26 (hex_of (tid_value t))) (cr_task_ids c))"

definition external_warnings :: "external_risk_assessment list \<Rightarrow> string list" where
  "external_warnings xs = map (\<lambda>x. ''EXTERNAL_RISK_'' @ xa_level x @ '':'' @ join ''-'' (xa_reasons x))
     (filter (\<lambda>x. xa_level x \<noteq> ''LOW'') xs)"

definition plan :: "(string \<Rightarrow> uuid) \<Rightarrow> (nat list \<Rightarrow> string) \<Rightarrow> tzdb \<Rightarrow> (task_id \<Rightarrow> bool) \<Rightarrow> (uuid list \<Rightarrow> uuid list)
    \<Rightarrow> planner_input \<Rightarrow> planner_output res" where
  "plan uuid5 sha256 tz shared iter v =
     (case normalize_and_validate sha256 v of
        InvalidInput code rules prior \<Rightarrow>
          invalid_output (sha256 (utf8 (in_planner_version v @ '':'' @ code))) (in_now v) rules (in_planner_version v)
      | ValidInput _ _ \<Rightarrow>
          rbind (replan uuid5 tz v) (\<lambda>outcome.
          rbind (build_risk_context tz v) (\<lambda>context.
          let passes = ro_selected outcome;
              risks = calculate_risks tz passes context;
              view = build_today_plan tz shared iter v passes risks;
              warnings = tv_warnings view @ map cycle_warning (ga_cycles (rc_analysis context))
                @ map (\<lambda>p. ''PROPOSAL_REQUIRED:'' @ po_rule p) (ro_proposals outcome)
          in rbind (passes_to_result (ps_base passes) ''base'') (\<lambda>base.
             rbind (passes_to_result (ps_safety passes) ''safety'') (\<lambda>safety.
             mk_output \<lparr>out_planner_version = in_planner_version v, out_input_hash = input_hash sha256 v,
               out_generated_at = in_now v, out_base_plan = Some base, out_safety_plan = Some safety,
               out_today = Some \<lparr>td_core = tv_core view, td_must_do = tv_must_do view,
                 td_next_queue = tv_next_queue view, td_opportunistic = tv_opportunistic view,
                 td_excluded = tv_excluded view\<rparr>,
               out_risks = milestone_risks risks, out_warnings = warnings, out_status = ''OK'',
               out_external_warnings = external_warnings (assess_external_dependencies v (rc_analysis context))\<rparr>)))))"

section \<open>The output of a valid input\<close>

lemma passes_to_result_ok:
  assumes "which \<in> {''base'', ''safety''}"
  shows "\<exists>p. passes_to_result r which = Inr p \<and> pr_allocations p = sr_allocations r"
proof -
  have "\<exists>pt. pass_type_of (case sr_allocations r of [] \<Rightarrow> which | a # _ \<Rightarrow> pass_type_value (al_pass a)) = Inr pt"
  proof (cases "sr_allocations r")
    case Nil
    then show ?thesis using assms by (auto simp: pass_type_of_def)
  qed simp
  then show ?thesis by (auto simp: passes_to_result_def)
qed

definition kept_blocks :: "planner_input \<Rightarrow> replan_outcome \<Rightarrow> prior_allocation list" where
  "kept_blocks v outcome = (if ro_proposals outcome = [] then [] else protected_prior_allocations v)"

lemma plan_ok:
  assumes pl: "plannable uuid5 tz v" and stored: "\<forall>t\<in>set (in_tasks v). wf_task t" and prior: "valid_prior v"
    and hash: "\<not> blank (input_hash sha256 v)"
  shows "\<exists>out base safety outcome. plan uuid5 sha256 tz shared iter v = Inr out \<and> out_status out = ''OK''
    \<and> out_input_hash out = input_hash sha256 v \<and> replan uuid5 tz v = Inr outcome
    \<and> out_base_plan out = Some base \<and> pr_allocations base = sr_allocations (ps_base (ro_selected outcome))
    \<and> out_safety_plan out = Some safety \<and> pr_allocations safety = sr_allocations (ps_safety (ro_selected outcome))
    \<and> sound_plan v [] (kept_blocks v outcome) (ps_base (ro_selected outcome))
    \<and> sound_plan v [] (kept_blocks v outcome) (ps_safety (ro_selected outcome))
    \<and> (\<forall>p\<in>set (protected_prior_allocations v). \<exists>a\<in>set (pr_allocations base). plan_block a = prior_block p)
    \<and> (\<forall>p\<in>set (ro_proposals outcome). ''PROPOSAL_REQUIRED:'' @ po_rule p \<in> set (out_warnings out))"
proof -
  have valid: "normalize_and_validate sha256 v = ValidInput v (input_hash sha256 v)"
    by (rule stored_input_valid) (use pl stored in blast)+
  from replan_ok [OF pl prior] obtain outcome where o: "replan uuid5 tz v = Inr outcome"
    "sound_plan v [] (kept_blocks v outcome) (ps_base (ro_selected outcome))"
    "sound_plan v [] (kept_blocks v outcome) (ps_safety (ro_selected outcome))"
    "\<forall>p\<in>set (protected_prior_allocations v).
         \<exists>a\<in>set (sr_allocations (ps_base (ro_selected outcome))). plan_block a = prior_block p" unfolding kept_blocks_def by blast
  obtain c where c: "build_risk_context tz v = Inr c"
    using build_graph_analysis_result [of v tz] pl by (auto simp: build_risk_context_def)
  obtain base where b: "passes_to_result (ps_base (ro_selected outcome)) ''base'' = Inr base"
    "pr_allocations base = sr_allocations (ps_base (ro_selected outcome))"
    using passes_to_result_ok [of "''base''"] by blast
  obtain safety where s: "passes_to_result (ps_safety (ro_selected outcome)) ''safety'' = Inr safety"
    "pr_allocations safety = sr_allocations (ps_safety (ro_selected outcome))"
    using passes_to_result_ok [of "''safety''"] by blast
  have version: "\<not> blank (in_planner_version v)" using pl by (simp add: wf_input_def)
  have "\<exists>out. plan uuid5 sha256 tz shared iter v = Inr out \<and> out_status out = ''OK''
    \<and> out_input_hash out = input_hash sha256 v \<and> out_base_plan out = Some base \<and> out_safety_plan out = Some safety
    \<and> (\<forall>p\<in>set (ro_proposals outcome). ''PROPOSAL_REQUIRED:'' @ po_rule p \<in> set (out_warnings out))"
    unfolding plan_def valid normalization_result.case o(1) c rbind.simps Let_def b(1) s(1) mk_output_def
    using version hash by (simp add: raise_if_def)
  then obtain out where out: "plan uuid5 sha256 tz shared iter v = Inr out" "out_status out = ''OK''"
    "out_input_hash out = input_hash sha256 v" "out_base_plan out = Some base" "out_safety_plan out = Some safety"
    "\<forall>p\<in>set (ro_proposals outcome). ''PROPOSAL_REQUIRED:'' @ po_rule p \<in> set (out_warnings out)" by blast
  show ?thesis
    by (rule exI [of _ out], rule exI [of _ base], rule exI [of _ safety], rule exI [of _ outcome])
      (use out o b(2) s(2) in simp)
qed

text \<open>
  C1. Planning an input of stored snapshots never raises: the output is accepted, carries
  the input's canonical hash, and holds a base plan that is sound (new work inside the
  windows, off fixed events, never doubled up, in dependency order) and in which every pinned
  or imminent block of the prior plan stands where it was.
\<close>

theorem plan_sound:
  assumes "plannable uuid5 tz v" and "\<forall>t\<in>set (in_tasks v). wf_task t" and "valid_prior v"
    and "\<not> blank (input_hash sha256 v)"
  shows "\<exists>out base r kept. plan uuid5 sha256 tz shared iter v = Inr out \<and> out_status out = ''OK''
    \<and> out_input_hash out = input_hash sha256 v
    \<and> out_base_plan out = Some base \<and> pr_allocations base = sr_allocations r
    \<and> set kept \<subseteq> set (protected_prior_allocations v) \<and> sound_plan v [] kept r
    \<and> (\<forall>p\<in>set (protected_prior_allocations v). \<exists>a\<in>set (pr_allocations base).
         al_task a = pa_task p \<and> al_start a = pa_start p \<and> al_end a = pa_end p)"
proof -
  from plan_ok [OF assms, of shared iter] obtain out base outcome where p:
    "plan uuid5 sha256 tz shared iter v = Inr out" "out_status out = ''OK''" "out_input_hash out = input_hash sha256 v"
    "out_base_plan out = Some base" "pr_allocations base = sr_allocations (ps_base (ro_selected outcome))"
    "sound_plan v [] (kept_blocks v outcome) (ps_base (ro_selected outcome))"
    "\<forall>p\<in>set (protected_prior_allocations v). \<exists>a\<in>set (pr_allocations base). plan_block a = prior_block p" by blast
  have "set (kept_blocks v outcome) \<subseteq> set (protected_prior_allocations v)" by (simp add: kept_blocks_def)
  moreover have "\<forall>p\<in>set (protected_prior_allocations v). \<exists>a\<in>set (pr_allocations base).
         al_task a = pa_task p \<and> al_start a = pa_start p \<and> al_end a = pa_end p"
    using p(7) by (simp add: plan_block_def prior_block_def)
  ultimately show ?thesis using p(1-6) by blast
qed

lemma plan_sound_witness:
  "\<exists>out. plan length_uuid5 (\<lambda>_. ''h'') utc_tzdb (\<lambda>_. True) (\<lambda>x. x) pinned_input = Inr out \<and> out_status out = ''OK''
    \<and> (\<exists>base. out_base_plan out = Some base \<and> (\<exists>a\<in>set (pr_allocations base). al_start a = 600 * us_per_minute))"
proof -
  have "\<forall>t\<in>set (in_tasks pinned_input). wf_task t"
    by (simp add: pinned_input_def small_input_def small_task_wf)
  moreover have "valid_prior pinned_input" by (simp add: pinned_input_def prior_allocations_def)
  moreover have "\<not> blank (input_hash (\<lambda>_. ''h'') pinned_input)"
    by (simp add: input_hash_def blank_iff is_py_space_def)
  ultimately obtain out base where out: "plan length_uuid5 (\<lambda>_. ''h'') utc_tzdb (\<lambda>_. True) (\<lambda>x. x) pinned_input = Inr out"
    "out_status out = ''OK''" "out_base_plan out = Some base"
    "\<forall>p\<in>set (protected_prior_allocations pinned_input). \<exists>a\<in>set (pr_allocations base).
         al_task a = pa_task p \<and> al_start a = pa_start p \<and> al_end a = pa_end p"
    using plan_sound [OF pinned_input_plannable, of "\<lambda>_. ''h''" "\<lambda>_. True" "\<lambda>x. x"] by blast
  have "\<lparr>pa_task = TaskId 1, pa_start = 600 * us_per_minute, pa_end = 630 * us_per_minute\<rparr>
      \<in> set (protected_prior_allocations pinned_input)"
    by (simp add: protected_prior_allocations_def prior_allocations_def pinned_input_def)
  with out show ?thesis by fastforce
qed

text \<open>
  An input that violates a rule is answered, not raised: the output has the status
  \<open>INVALID_INPUT\<close>, no plan, no today view and no risks, and its warnings are exactly the
  violated rules.
\<close>

theorem plan_invalid:
  assumes "violated v r" and "\<not> blank (in_planner_version v)" and "\<And>bytes. \<not> blank (sha256 bytes)"
  shows "\<exists>out. plan uuid5 sha256 tz shared iter v = Inr out \<and> out_status out = ''INVALID_INPUT''
    \<and> out_base_plan out = None \<and> out_safety_plan out = None \<and> out_today out = None \<and> out_risks out = []
    \<and> (\<forall>r. r \<in> set (out_warnings out) \<longleftrightarrow> violated v r)"
proof -
  have "r \<in> cn_rule ` set (validate_contract v)" using assms(1) by (simp add: validate_contract_rules)
  then have n: "normalize_and_validate sha256 v =
      InvalidInput ''INVALID_INPUT'' (sort (remdups (map cn_rule (validate_contract v)))) (in_prior v)"
    by (auto simp: normalize_and_validate_def Let_def)
  show ?thesis
    unfolding plan_def n normalization_result.case invalid_output_def mk_output_def
    using assms(2,3) by (simp add: raise_if_def validate_contract_rules [symmetric])
qed

lemma plan_invalid_witness:
  "\<exists>out. plan length_uuid5 (\<lambda>_. ''h'') utc_tzdb (\<lambda>_. True) (\<lambda>x. x) (small_input\<lparr>in_horizon_end := 0\<rparr>) = Inr out
    \<and> out_base_plan out = None \<and> ''HORIZON_MUST_END_AFTER_NOW'' \<in> set (out_warnings out)"
proof -
  have v: "violated (small_input\<lparr>in_horizon_end := 0\<rparr>) ''HORIZON_MUST_END_AFTER_NOW''"
    by (rule violated.horizon) (simp add: small_input_def)
  moreover have "\<not> blank (in_planner_version (small_input\<lparr>in_horizon_end := 0\<rparr>))"
    by (simp add: small_input_def blank_iff is_py_space_def)
  moreover have "\<not> blank ''h''" by (simp add: blank_iff is_py_space_def)
  ultimately show ?thesis
    using plan_invalid [of "small_input\<lparr>in_horizon_end := 0\<rparr>" _ "\<lambda>_. ''h''" length_uuid5 utc_tzdb "\<lambda>_. True" "\<lambda>x. x"] by blast
qed

end
