(* ===== verification/Api_Base.thy ===== *)
theory Api_Base
  imports Canonical
begin

text \<open>
  What the application services of \<open>apps/api\<close> share: their errors (\<open>shared/errors.py\<close>), the
  acting session (\<open>identity/session.py\<close>), the rows of the tables they use
  (\<open>planning/models.py\<close>, \<open>approvals/models.py\<close>, \<open>audit/models.py\<close>) and access to a table by
  primary key as an interface. A service call is one transaction: it returns its result and
  the committed state, or raises and leaves the state alone.
\<close>

section \<open>Errors and actors\<close>

datatype api_exn =
    NotFoundError
  | StaleObjectVersionError string int
  | DomainRuleError string string
  | IntegrityError
  | DataError
  | ServiceError exn

type_synonym 'a api = "api_exn + 'a"

text \<open>The response of \<open>install_error_handlers\<close> for the errors it handles: status and code.\<close>

fun error_response :: "api_exn \<Rightarrow> (int \<times> string) option" where
  "error_response NotFoundError = Some (404, ''NOT_FOUND'')"
| "error_response (DomainRuleError code message) = Some (422, code)"
| "error_response (StaleObjectVersionError i v) = Some (409, ''STALE_OBJECT_VERSION'')"
| "error_response IntegrityError = None"
| "error_response DataError = None"
| "error_response (ServiceError e) = None"

record current_actor =
  ac_user :: uuid
  ac_workspace :: uuid
  ac_session :: uuid

section \<open>Rows\<close>

record task_row =
  tr_id :: uuid
  tr_workspace :: uuid
  tr_workstream :: uuid
  tr_milestone :: "uuid option"
  tr_title :: string
  tr_status :: string
  tr_deadline_date :: "date option"
  tr_deadline_at :: "instant option"
  tr_deadline_time_known :: bool
  tr_start_after :: "instant option"
  tr_base_duration :: int
  tr_safety_duration :: int
  tr_remaining_base :: int
  tr_remaining_safety :: int
  tr_uncertainty :: string
  tr_splittable :: bool
  tr_min_chunk :: int
  tr_pinned :: bool
  tr_waiting_reason :: "string option"
  tr_version :: int

record proposal_row =
  pm_id :: uuid
  pm_workspace :: uuid
  pm_kind :: string
  pm_level :: string
  pm_payload_hash :: string
  pm_targets :: json
  pm_status :: string
  pm_version :: int
  pm_milestone :: "uuid option"
  pm_minutes :: int
  pm_resolved_at :: "instant option"

record approval_row =
  av_id :: uuid
  av_workspace :: uuid
  av_proposal :: uuid
  av_proposal_version :: int
  av_actor :: uuid
  av_action :: string
  av_command_hash :: string
  av_targets :: json
  av_granted_at :: instant

record audit_row =
  au_workspace :: uuid
  au_actor :: "uuid option"
  au_entity_kind :: string
  au_entity_id :: string
  au_before :: json
  au_after :: json
  au_reason :: string
  au_rule_basis :: "string list"
  au_approval :: "uuid option"
  au_trace :: string
  au_reversible :: bool
  au_occurred_at :: instant

text \<open>\<open>String(200)\<close> and the checks of the table \<open>tasks\<close>; \<open>NOT NULL\<close> is in the types.\<close>

definition task_row_valid :: "task_row \<Rightarrow> bool" where
  "task_row_valid r \<longleftrightarrow> length (tr_title r) \<le> 200 \<and> 0 < tr_base_duration r \<and> tr_base_duration r \<le> tr_safety_duration r
     \<and> (tr_status r \<in> {''done'', ''cancelled''} \<longrightarrow> tr_remaining_base r = 0 \<and> tr_remaining_safety r = 0)
     \<and> (tr_deadline_time_known r \<longleftrightarrow> tr_deadline_at r \<noteq> None) \<and> 0 < tr_min_chunk r"

section \<open>Tables\<close>

text \<open>What a client relies on of a table with a primary key: reading after writing.\<close>

locale row_table =
  fixes key :: "'r \<Rightarrow> 'k" and get :: "'k \<Rightarrow> 't \<Rightarrow> 'r option" and put :: "'r \<Rightarrow> 't \<Rightarrow> 't"
  assumes get_key: "get k t = Some r \<Longrightarrow> key r = k"
    and get_put_same: "get (key r) t \<noteq> None \<Longrightarrow> get (key r) (put r t) = Some r"
    and get_put_absent: "get (key r) t = None \<Longrightarrow> put r t = t"
    and get_put_other: "k \<noteq> key r \<Longrightarrow> get k (put r t) = get k t"
begin

lemma get_put: "get k (put r t) = (if k = key r \<and> get k t \<noteq> None then Some r else get k t)"
  using get_put_same [of r t] get_put_absent [of r t] get_put_other [of k r t] by auto

lemma get_put_Some: "get k (put r t) = Some x \<Longrightarrow> (x = r \<and> k = key r) \<or> (get k t = Some x \<and> k \<noteq> key r)"
  using get_key [of k t x] by (auto simp: get_put split: if_splits)

lemma put_dom: "get k (put r t) = None \<longleftrightarrow> get k t = None"
  by (auto simp: get_put)

text \<open>Overwriting a row with one of the same key leaves every other row alone.\<close>

lemma modify_frame:
  assumes "get k t = Some r" and "key r' = key r"
  shows "get k (put r' t) = Some r'" and "\<And>k'. k' \<noteq> k \<Longrightarrow> get k' (put r' t) = get k' t"
  using assms get_key [OF assms(1)] by (simp_all add: get_put)

end

definition row_at :: "('r \<Rightarrow> uuid) \<Rightarrow> uuid \<Rightarrow> 'r list \<Rightarrow> 'r option" where
  "row_at key k rows = find (\<lambda>r. key r = k) rows"

definition put_row :: "('r \<Rightarrow> uuid) \<Rightarrow> 'r \<Rightarrow> 'r list \<Rightarrow> 'r list" where
  "put_row key r rows = map (\<lambda>x. if key x = key r then r else x) rows"

lemma row_at_key: "row_at key k rows = Some r \<Longrightarrow> key r = k"
  by (auto simp: row_at_def find_Some_iff)

lemma row_at_put_same: "row_at key (key r) rows \<noteq> None \<Longrightarrow> row_at key (key r) (put_row key r rows) = Some r"
  by (induction rows) (auto simp: row_at_def put_row_def split: if_splits)

lemma row_at_put_absent: "row_at key (key r) rows = None \<Longrightarrow> put_row key r rows = rows"
  by (induction rows) (auto simp: row_at_def put_row_def split: if_splits)

lemma row_at_put_other: "k \<noteq> key r \<Longrightarrow> row_at key k (put_row key r rows) = row_at key k rows"
  by (induction rows) (auto simp: row_at_def put_row_def)

interpretation tasks: row_table tr_id "row_at tr_id" "put_row tr_id"
  by unfold_locales (fact row_at_key row_at_put_same row_at_put_absent row_at_put_other)+

interpretation proposals: row_table pm_id "row_at pm_id" "put_row pm_id"
  by unfold_locales (fact row_at_key row_at_put_same row_at_put_absent row_at_put_other)+

text \<open>A row of the actor's workspace, \<open>None\<close> when there is none.\<close>

definition owned_row :: "('r \<Rightarrow> uuid) \<Rightarrow> ('r \<Rightarrow> uuid) \<Rightarrow> uuid \<Rightarrow> uuid \<Rightarrow> 'r list \<Rightarrow> 'r option" where
  "owned_row key workspace ws k rows = find (\<lambda>r. key r = k \<and> workspace r = ws) rows"

lemma owned_row_facts: "owned_row key workspace ws k rows = Some r \<Longrightarrow> r \<in> set rows \<and> key r = k \<and> workspace r = ws"
  by (auto simp: owned_row_def find_Some_iff)

lemma owned_row_at:
  assumes "distinct (map key rows)" and "owned_row key workspace ws k rows = Some r"
  shows "row_at key k rows = Some r"
proof -
  have r: "r \<in> set rows" "key r = k" using owned_row_facts [OF assms(2)] by auto
  then obtain x where x: "row_at key k rows = Some x" by (cases "row_at key k rows") (auto simp: row_at_def find_None_iff)
  then have "x \<in> set rows" "key x = k" by (auto simp: row_at_def find_Some_iff)
  then have "x = r" using assms(1) r by (metis distinct_map inj_onD)
  then show ?thesis using x by simp
qed

lemma put_row_keys [simp]: "map key (put_row key r rows) = map key rows"
  by (simp add: put_row_def)

lemma put_row_set: "x \<in> set (put_row key r rows) \<Longrightarrow> x = r \<or> (x \<in> set rows \<and> key x \<noteq> key r)"
  by (auto simp: put_row_def split: if_splits)

text \<open>A row to evaluate the services on.\<close>

definition a_task :: task_row where
  "a_task = \<lparr>tr_id = 2, tr_workspace = 3, tr_workstream = 4, tr_milestone = None, tr_title = ''Old'',
     tr_status = ''ready'', tr_deadline_date = None, tr_deadline_at = None, tr_deadline_time_known = False,
     tr_start_after = None, tr_base_duration = 60, tr_safety_duration = 90, tr_remaining_base = 60,
     tr_remaining_safety = 90, tr_uncertainty = ''medium'', tr_splittable = True, tr_min_chunk = 30,
     tr_pinned = False, tr_waiting_reason = None, tr_version = 7\<rparr>"

lemma a_task_valid: "task_row_valid a_task"
  by (simp add: task_row_valid_def a_task_def)

end
