(* ===== verification/Proposal_Service.thy ===== *)
theory Proposal_Service
  imports Api_Base
begin

text \<open>
  Decisions on proposals (\<open>approvals/service.py\<close> of the API): approve, reject and undo over the
  tables of proposals, tasks, approvals and audit events. The proposal row is locked for the
  call, so a call is one step. \<open>sha256\<close> is the hash, \<open>parse\<close> is \<open>UUID(text)\<close> (\<open>None\<close> when it
  raises), \<open>now\<close> the clock during the call and \<open>aid\<close> the \<open>uuid4()\<close> of a new approval row. The
  results: exactly when and how an approval takes effect, that a proposal is decided at most
  once, that workspaces do not touch each other, and what undo does not check.
\<close>

section \<open>The code\<close>

definition TASK_MUTABLE_FIELDS :: "string list" where
  "TASK_MUTABLE_FIELDS = [''title'']"

record task_change =
  tc_target_id :: string
  tc_target_version :: int
  tc_values :: "(string \<times> json) list"
  tc_before_values :: "(string \<times> json) list option"

definition canonical_targets_hash :: "(nat list \<Rightarrow> string) \<Rightarrow> json \<Rightarrow> string" where
  "canonical_targets_hash sha256 targets = sha256 (utf8 (dumps targets))"

record approval_outcome =
  oc_status :: string
  oc_executed_change :: "json option"
  oc_reason :: "string option"
  oc_level :: string

record approval_db =
  db_proposals :: "proposal_row list"
  db_tasks :: "task_row list"
  db_approvals :: "approval_row list"
  db_audit :: "audit_row list"

definition decision_conflict :: "proposal_row \<Rightarrow> int \<Rightarrow> string option" where
  "decision_conflict p expected =
     (if pm_status p \<noteq> ''pending'' then Some ''ALREADY_RESOLVED''
      else if pm_version p \<noteq> expected then Some ''PROPOSAL_VERSION_CHANGED''
      else None)"

definition hash_matches :: "(nat list \<Rightarrow> string) \<Rightarrow> proposal_row \<Rightarrow> bool" where
  "hash_matches sha256 p \<longleftrightarrow> canonical_targets_hash sha256 (pm_targets p) = pm_payload_hash p"

definition validated_task_change :: "json \<Rightarrow> task_change option" where
  "validated_task_change targets = (case targets of
     JList [JObj change] \<Rightarrow>
       (case (map_of change ''target_type'', map_of change ''target_id'', map_of change ''target_version'',
              map_of change ''values'') of
          (Some (JStr kind), Some (JStr target_id), Some (JInt version), Some (JObj values)) \<Rightarrow>
            if kind \<noteq> ''task'' \<or> values = [] \<or> list_ex (\<lambda>(k, _). k \<notin> set TASK_MUTABLE_FIELDS) values then None
            else (case map_of values ''title'' of
                Some (JStr title) \<Rightarrow>
                  if strip title = [] then None
                  else Some \<lparr>tc_target_id = target_id, tc_target_version = version, tc_values = values,
                    tc_before_values = (case map_of change ''before_values'' of Some (JObj b) \<Rightarrow> Some b | _ \<Rightarrow> None)\<rparr>
              | _ \<Rightarrow> None)
        | _ \<Rightarrow> None)
   | _ \<Rightarrow> None)"

definition change_json :: "task_change \<Rightarrow> json" where
  "change_json c = JObj ([(''target_type'', JStr ''task''), (''target_id'', JStr (tc_target_id c)),
     (''target_version'', JInt (tc_target_version c)), (''values'', JObj (tc_values c))]
     @ (case tc_before_values c of None \<Rightarrow> [] | Some b \<Rightarrow> [(''before_values'', JObj b)]))"

text \<open>\<open>setattr\<close> for every value, and the flush: the only mutable column is \<open>title\<close>.\<close>

fun set_fields :: "(string \<times> json) list \<Rightarrow> task_row \<Rightarrow> task_row api" where
  "set_fields [] r = (if length (tr_title r) \<le> 200 then Inr r else Inl DataError)"
| "set_fields ((k, v) # kvs) r = (case v of
       JStr s \<Rightarrow> set_fields kvs (r\<lparr>tr_title := s\<rparr>)
     | JNull \<Rightarrow> Inl IntegrityError
     | _ \<Rightarrow> Inl DataError)"

definition load_target :: "(string \<Rightarrow> uuid option) \<Rightarrow> current_actor \<Rightarrow> task_change \<Rightarrow> approval_db \<Rightarrow> task_row option" where
  "load_target parse actor c db = (case parse (tc_target_id c) of None \<Rightarrow> None
     | Some t \<Rightarrow> owned_row tr_id tr_workspace (ac_workspace actor) t (db_tasks db))"

definition owned_proposal :: "(string \<Rightarrow> uuid option) \<Rightarrow> current_actor \<Rightarrow> string \<Rightarrow> approval_db \<Rightarrow> proposal_row option" where
  "owned_proposal parse actor pid db = (case parse pid of None \<Rightarrow> None
     | Some i \<Rightarrow> owned_row pm_id pm_workspace (ac_workspace actor) i (db_proposals db))"

definition record_decision :: "uuid \<Rightarrow> current_actor \<Rightarrow> proposal_row \<Rightarrow> int \<Rightarrow> string \<Rightarrow> instant \<Rightarrow> approval_row" where
  "record_decision aid actor p version action now =
     \<lparr>av_id = aid, av_workspace = ac_workspace actor, av_proposal = pm_id p, av_proposal_version = version,
      av_actor = ac_user actor, av_action = action, av_command_hash = pm_payload_hash p,
      av_targets = pm_targets p, av_granted_at = now\<rparr>"

definition decision_audit :: "current_actor \<Rightarrow> proposal_row \<Rightarrow> string \<Rightarrow> json \<Rightarrow> json \<Rightarrow> uuid option \<Rightarrow> bool \<Rightarrow> instant \<Rightarrow> audit_row" where
  "decision_audit actor p reason before after approval reversible now =
     \<lparr>au_workspace = ac_workspace actor, au_actor = Some (ac_user actor), au_entity_kind = ''proposal'',
      au_entity_id = uuid_str (pm_id p), au_before = before, au_after = after, au_reason = reason,
      au_rule_basis = [''REQ-CORE-009'', ''REQ-CORE-014'', ''REQ-CORE-015''], au_approval = approval,
      au_trace = ''sess:'' @ uuid_str (ac_session actor), au_reversible = reversible, au_occurred_at = now\<rparr>"

definition state_json :: "proposal_row \<Rightarrow> (string \<times> json) list" where
  "state_json p = [(''status'', JStr (pm_status p)), (''version'', JInt (pm_version p))]"

definition resolved :: "proposal_row \<Rightarrow> string \<Rightarrow> instant \<Rightarrow> proposal_row" where
  "resolved p status now = p\<lparr>pm_status := status, pm_resolved_at := Some now, pm_version := pm_version p + 1\<rparr>"

definition outcome :: "string \<Rightarrow> json option \<Rightarrow> string option \<Rightarrow> string \<Rightarrow> approval_outcome" where
  "outcome status change reason level =
     \<lparr>oc_status = status, oc_executed_change = change, oc_reason = reason, oc_level = level\<rparr>"

definition approve :: "(nat list \<Rightarrow> string) \<Rightarrow> (string \<Rightarrow> uuid option) \<Rightarrow> instant \<Rightarrow> uuid \<Rightarrow> current_actor \<Rightarrow> string
    \<Rightarrow> int \<Rightarrow> approval_db \<Rightarrow> (approval_outcome \<times> approval_db) api" where
  "approve sha256 parse now aid actor pid expected db =
     (case owned_proposal parse actor pid db of
        None \<Rightarrow> Inr (outcome ''NOT_FOUND'' None None [], db)
      | Some p \<Rightarrow>
      (case decision_conflict p expected of
        Some why \<Rightarrow> Inr (outcome ''CONFLICT'' None (Some why) (pm_level p), db)
      | None \<Rightarrow>
      if \<not> hash_matches sha256 p
      then Inr (outcome ''CONFLICT'' None (Some ''PAYLOAD_HASH_MISMATCH'') (pm_level p), db)
      else (case validated_task_change (pm_targets p) of
        None \<Rightarrow> Inr (outcome ''INVALID'' None (Some ''INVALID_PROPOSAL_PAYLOAD'') (pm_level p), db)
      | Some c \<Rightarrow>
      (let superseded = resolved p ''superseded'' now;
           give_up = (outcome ''SUPERSEDED'' (Some (change_json c)) (Some ''TARGET_VERSION_CHANGED'') (pm_level p),
             db\<lparr>db_proposals := put_row pm_id superseded (db_proposals db),
                db_audit := db_audit db @ [decision_audit actor superseded ''proposal.superseded:TARGET_VERSION_CHANGED''
                  (JObj (state_json p)) (JObj (state_json superseded)) None False now]\<rparr>)
       in case load_target parse actor c db of
            None \<Rightarrow> Inr give_up
          | Some t \<Rightarrow>
            if tr_version t \<noteq> tc_target_version c then Inr give_up
            else (case set_fields (tc_values c) t of
                Inl e \<Rightarrow> Inl e
              | Inr t' \<Rightarrow>
                  (let executed = resolved p ''executed'' now;
                       before_values = map (\<lambda>(k, _). (k, JStr (tr_title t))) (tc_values c)
                   in Inr (outcome ''EXECUTED'' (Some (JObj (tc_values c))) None (pm_level p),
                     db\<lparr>db_tasks := put_row tr_id (t'\<lparr>tr_version := tr_version t + 1\<rparr>) (db_tasks db),
                        db_proposals := put_row pm_id executed (db_proposals db),
                        db_approvals := db_approvals db @ [record_decision aid actor executed expected ''APPROVE_TASK_CHANGE'' now],
                        db_audit := db_audit db @ [decision_audit actor executed ''proposal.executed''
                          (JObj (state_json p @ [(''target'', JObj before_values)]))
                          (JObj (state_json executed @ [(''target'', JObj (tc_values c))])) (Some aid) True now]\<rparr>)))))))"

definition reject :: "(nat list \<Rightarrow> string) \<Rightarrow> (string \<Rightarrow> uuid option) \<Rightarrow> instant \<Rightarrow> uuid \<Rightarrow> current_actor \<Rightarrow> string
    \<Rightarrow> int \<Rightarrow> approval_db \<Rightarrow> (approval_outcome \<times> approval_db) api" where
  "reject sha256 parse now aid actor pid expected db =
     (case owned_proposal parse actor pid db of
        None \<Rightarrow> Inr (outcome ''NOT_FOUND'' None None [], db)
      | Some p \<Rightarrow>
      (case decision_conflict p expected of
        Some why \<Rightarrow> Inr (outcome ''CONFLICT'' None (Some why) (pm_level p), db)
      | None \<Rightarrow>
      if \<not> hash_matches sha256 p
      then Inr (outcome ''CONFLICT'' None (Some ''PAYLOAD_HASH_MISMATCH'') (pm_level p), db)
      else (let rejected = resolved p ''rejected'' now
        in Inr (outcome ''REJECTED'' None None (pm_level p),
          db\<lparr>db_proposals := put_row pm_id rejected (db_proposals db),
             db_approvals := db_approvals db @ [record_decision aid actor rejected expected ''REJECT_PROPOSAL'' now],
             db_audit := db_audit db @ [decision_audit actor rejected ''proposal.rejected'' (JObj (state_json p))
               (JObj (state_json rejected)) (Some aid) False now]\<rparr>))))"

definition undo :: "(nat list \<Rightarrow> string) \<Rightarrow> (string \<Rightarrow> uuid option) \<Rightarrow> current_actor \<Rightarrow> string
    \<Rightarrow> approval_db \<Rightarrow> (approval_outcome \<times> approval_db) api" where
  "undo sha256 parse actor pid db =
     (case owned_proposal parse actor pid db of
        None \<Rightarrow> Inr (outcome ''NOT_FOUND'' None None [], db)
      | Some p \<Rightarrow>
      if pm_status p \<noteq> ''executed'' \<or> \<not> hash_matches sha256 p then Inr (outcome ''NOT_FOUND'' None None [], db)
      else (case validated_task_change (pm_targets p) of
        None \<Rightarrow> Inr (outcome ''CONFLICT'' None None [], db)
      | Some c \<Rightarrow>
      (case tc_before_values c of
        None \<Rightarrow> Inr (outcome ''CONFLICT'' None None [], db)
      | Some before \<Rightarrow>
      if before = [] \<or> list_ex (\<lambda>(k, _). k \<notin> set TASK_MUTABLE_FIELDS) before
      then Inr (outcome ''CONFLICT'' None None [], db)
      else (case load_target parse actor c db of
        None \<Rightarrow> Inr (outcome ''NOT_FOUND'' None None [], db)
      | Some t \<Rightarrow>
      (case set_fields before t of
        Inl e \<Rightarrow> Inl e
      | Inr t' \<Rightarrow> Inr (outcome ''UNDONE'' (Some (JObj before)) None [],
          db\<lparr>db_tasks := put_row tr_id (t'\<lparr>tr_version := tr_version t + 1\<rparr>) (db_tasks db),
             db_proposals := put_row pm_id (p\<lparr>pm_status := ''undone'', pm_version := pm_version p + 1\<rparr>)
               (db_proposals db)\<rparr>))))))"

section \<open>What one decision does\<close>

lemma set_fields_result: "set_fields kvs r = Inr r' \<Longrightarrow> \<exists>title. r' = r\<lparr>tr_title := title\<rparr> \<and> length title \<le> 200"
proof (induction kvs arbitrary: r)
  case Nil
  then show ?case by (intro exI [of _ "tr_title r"]) (simp split: if_splits)
next
  case (Cons kv kvs)
  obtain k v where kv: "kv = (k, v)" by (cases kv)
  with Cons.prems obtain s where "set_fields kvs (r\<lparr>tr_title := s\<rparr>) = Inr r'" by (cases v) auto
  from Cons.IH [OF this] show ?case by auto
qed

lemma owned_proposal_facts:
  "owned_proposal parse actor pid db = Some p \<Longrightarrow>
     p \<in> set (db_proposals db) \<and> pm_workspace p = ac_workspace actor \<and> parse pid = Some (pm_id p)"
  by (auto simp: owned_proposal_def dest: owned_row_facts split: option.splits)

lemma load_target_facts:
  "load_target parse actor c db = Some t \<Longrightarrow>
     t \<in> set (db_tasks db) \<and> tr_workspace t = ac_workspace actor \<and> parse (tc_target_id c) = Some (tr_id t)"
  by (auto simp: load_target_def dest: owned_row_facts split: option.splits)

lemma resolved_simps [simp]:
  "pm_id (resolved p s now) = pm_id p" "pm_workspace (resolved p s now) = pm_workspace p"
  "pm_status (resolved p s now) = s" "pm_version (resolved p s now) = pm_version p + 1"
  by (simp_all add: resolved_def)

lemma decision_conflict_None: "decision_conflict p v = None \<longleftrightarrow> pm_status p = ''pending'' \<and> pm_version p = v"
  by (simp add: decision_conflict_def)

text \<open>The three ways in which \<open>approve\<close> can end.\<close>

definition executes :: "(string \<Rightarrow> uuid option) \<Rightarrow> instant \<Rightarrow> uuid \<Rightarrow> current_actor \<Rightarrow> int \<Rightarrow> proposal_row \<Rightarrow> task_change
    \<Rightarrow> task_row \<Rightarrow> string \<Rightarrow> approval_db \<Rightarrow> approval_db \<Rightarrow> bool" where
  "executes parse now aid actor expected p c t title db db' \<longleftrightarrow>
     load_target parse actor c db = Some t \<and> tr_version t = tc_target_version c
     \<and> db_tasks db' = put_row tr_id (t\<lparr>tr_title := title, tr_version := tr_version t + 1\<rparr>) (db_tasks db)
     \<and> db_proposals db' = put_row pm_id (resolved p ''executed'' now) (db_proposals db)
     \<and> db_approvals db' = db_approvals db
         @ [record_decision aid actor (resolved p ''executed'' now) expected ''APPROVE_TASK_CHANGE'' now]
     \<and> (\<exists>event. db_audit db' = db_audit db @ [event] \<and> au_approval event = Some aid
          \<and> au_entity_id event = uuid_str (pm_id p) \<and> au_reason event = ''proposal.executed'')"

definition supersedes :: "instant \<Rightarrow> proposal_row \<Rightarrow> approval_db \<Rightarrow> approval_db \<Rightarrow> bool" where
  "supersedes now p db db' \<longleftrightarrow> db_tasks db' = db_tasks db \<and> db_approvals db' = db_approvals db
     \<and> db_proposals db' = put_row pm_id (resolved p ''superseded'' now) (db_proposals db)
     \<and> (\<exists>event. db_audit db' = db_audit db @ [event] \<and> au_approval event = None)"

lemma approve_cases:
  assumes r: "approve sha256 parse now aid actor pid expected db = Inr (out, db')"
  shows "db' = db \<and> oc_status out \<in> {''NOT_FOUND'', ''CONFLICT'', ''INVALID''}
    \<or> (\<exists>p c. owned_proposal parse actor pid db = Some p \<and> pm_status p = ''pending'' \<and> pm_version p = expected
        \<and> hash_matches sha256 p \<and> validated_task_change (pm_targets p) = Some c
        \<and> (oc_status out = ''EXECUTED'' \<and> (\<exists>t title. executes parse now aid actor expected p c t title db db')
         \<or> oc_status out = ''SUPERSEDED'' \<and> supersedes now p db db'
           \<and> (\<forall>t. load_target parse actor c db = Some t \<longrightarrow> tr_version t \<noteq> tc_target_version c)))"
proof (cases "owned_proposal parse actor pid db")
  case None
  then show ?thesis using r by (auto simp: approve_def outcome_def)
next
  case (Some p)
  note r = r [unfolded approve_def Some option.case]
  show ?thesis
  proof (cases "decision_conflict p expected")
    case (Some why)
    then show ?thesis using r by (auto simp: outcome_def)
  next
    case None
    note pending = None [unfolded decision_conflict_None]
    show ?thesis
    proof (cases "hash_matches sha256 p \<and> validated_task_change (pm_targets p) \<noteq> None")
      case False
      then show ?thesis using r None by (auto simp: outcome_def split: if_splits)
    next
      case True
      then obtain c where c: "hash_matches sha256 p" "validated_task_change (pm_targets p) = Some c" by blast
      note r = r [unfolded None c(2) option.case Let_def]
      have "oc_status out = ''EXECUTED'' \<and> (\<exists>t title. executes parse now aid actor expected p c t title db db')
         \<or> oc_status out = ''SUPERSEDED'' \<and> supersedes now p db db'
           \<and> (\<forall>t. load_target parse actor c db = Some t \<longrightarrow> tr_version t \<noteq> tc_target_version c)"
      proof (cases "load_target parse actor c db")
        case None
        then show ?thesis using r c(1) by (auto simp: outcome_def supersedes_def decision_audit_def)
      next
        case (Some t)
        show ?thesis
        proof (cases "tr_version t = tc_target_version c")
          case False
          then show ?thesis using r c(1) Some by (auto simp: outcome_def supersedes_def decision_audit_def)
        next
          case True
          with r c(1) Some obtain t' where t': "set_fields (tc_values c) t = Inr t'" by (auto split: sum.splits)
          from set_fields_result [OF t'] obtain title where title: "t' = t\<lparr>tr_title := title\<rparr>" by blast
          have "executes parse now aid actor expected p c t title db db'"
            using r c(1) Some True t' unfolding executes_def title
            by (auto simp: decision_audit_def)
          then show ?thesis using r c(1) Some True t' by (auto simp: outcome_def)
        qed
      qed
      then show ?thesis using Some pending c by blast
    qed
  qed
qed

lemma reject_cases:
  assumes r: "reject sha256 parse now aid actor pid expected db = Inr (out, db')"
  shows "db' = db \<or> (\<exists>p. owned_proposal parse actor pid db = Some p \<and> pm_status p = ''pending'' \<and> pm_version p = expected
      \<and> db_tasks db' = db_tasks db
      \<and> db_proposals db' = put_row pm_id (resolved p ''rejected'' now) (db_proposals db)
      \<and> db_approvals db' = db_approvals db
          @ [record_decision aid actor (resolved p ''rejected'' now) expected ''REJECT_PROPOSAL'' now])"
proof (cases "owned_proposal parse actor pid db")
  case None
  then show ?thesis using r by (simp add: reject_def)
next
  case (Some p)
  show ?thesis
  proof (cases "decision_conflict p expected = None \<and> hash_matches sha256 p")
    case True
    then have c: "decision_conflict p expected = None" "hash_matches sha256 p" by simp_all
    have "db_tasks db' = db_tasks db
        \<and> db_proposals db' = put_row pm_id (resolved p ''rejected'' now) (db_proposals db)
        \<and> db_approvals db' = db_approvals db
            @ [record_decision aid actor (resolved p ''rejected'' now) expected ''REJECT_PROPOSAL'' now]"
      using r c Some by (auto simp: reject_def Let_def)
    moreover have "pm_status p = ''pending'' \<and> pm_version p = expected" using c(1) by (simp add: decision_conflict_None)
    ultimately show ?thesis using Some by blast
  next
    case False
    then show ?thesis using r Some by (auto simp: reject_def split: option.splits if_splits)
  qed
qed

lemma undo_cases:
  assumes r: "undo sha256 parse actor pid db = Inr (out, db')"
  shows "db' = db \<or> (\<exists>p c t title. owned_proposal parse actor pid db = Some p \<and> pm_status p = ''executed''
      \<and> load_target parse actor c db = Some t
      \<and> db_tasks db' = put_row tr_id (t\<lparr>tr_title := title, tr_version := tr_version t + 1\<rparr>) (db_tasks db)
      \<and> db_proposals db' = put_row pm_id (p\<lparr>pm_status := ''undone'', pm_version := pm_version p + 1\<rparr>) (db_proposals db)
      \<and> db_approvals db' = db_approvals db)"
proof (cases "db' = db")
  case False
  from r False obtain p where p: "owned_proposal parse actor pid db = Some p"
    by (auto simp: undo_def split: option.splits)
  from r False p have ex: "pm_status p = ''executed''" "hash_matches sha256 p" by (auto simp: undo_def split: if_splits)
  from r False p ex obtain c where c: "validated_task_change (pm_targets p) = Some c"
    by (auto simp: undo_def split: option.splits)
  from r False p ex c obtain before where b: "tc_before_values c = Some before"
    by (auto simp: undo_def split: option.splits)
  from r False p ex c b obtain t where t: "load_target parse actor c db = Some t"
    by (auto simp: undo_def split: option.splits if_splits)
  from r False p ex c b t obtain t' where t': "set_fields before t = Inr t'"
    by (auto simp: undo_def split: sum.splits if_splits)
  from set_fields_result [OF t'] obtain title where title: "t' = t\<lparr>tr_title := title\<rparr>" by blast
  have "db_tasks db' = put_row tr_id (t\<lparr>tr_title := title, tr_version := tr_version t + 1\<rparr>) (db_tasks db)
      \<and> db_proposals db' = put_row pm_id (p\<lparr>pm_status := ''undone'', pm_version := pm_version p + 1\<rparr>) (db_proposals db)
      \<and> db_approvals db' = db_approvals db"
    using r False p ex c b t t' unfolding title by (auto simp: undo_def split: if_splits)
  then show ?thesis using p ex(1) t by blast
qed simp



section \<open>A proposal is decided once\<close>

text \<open>The life of the tables: the planner stores a fresh pending proposal, a service of the
  workspace edits a task and raises its version, and users decide.\<close>

inductive decision_step :: "(nat list \<Rightarrow> string) \<Rightarrow> (string \<Rightarrow> uuid option) \<Rightarrow> approval_db \<Rightarrow> approval_db \<Rightarrow> bool"
  for sha256 parse where
  propose: "pm_status p = ''pending'' \<Longrightarrow> pm_id p \<notin> set (map pm_id (db_proposals db)) \<Longrightarrow>
     decision_step sha256 parse db (db\<lparr>db_proposals := db_proposals db @ [p]\<rparr>)"
| edit: "t \<in> set (db_tasks db) \<Longrightarrow> tr_id t' = tr_id t \<Longrightarrow> tr_workspace t' = tr_workspace t \<Longrightarrow>
     tr_version t' = tr_version t + 1 \<Longrightarrow>
     decision_step sha256 parse db (db\<lparr>db_tasks := put_row tr_id t' (db_tasks db)\<rparr>)"
| approved: "approve sha256 parse now aid actor pid expected db = Inr (out, db') \<Longrightarrow> decision_step sha256 parse db db'"
| rejected: "reject sha256 parse now aid actor pid expected db = Inr (out, db') \<Longrightarrow> decision_step sha256 parse db db'"
| undone: "undo sha256 parse actor pid db = Inr (out, db') \<Longrightarrow> decision_step sha256 parse db db'"

inductive decision_reach :: "(nat list \<Rightarrow> string) \<Rightarrow> (string \<Rightarrow> uuid option) \<Rightarrow> approval_db \<Rightarrow> bool"
  for sha256 parse where
  start: "db_proposals db = [] \<Longrightarrow> db_approvals db = [] \<Longrightarrow> decision_reach sha256 parse db"
| step: "decision_reach sha256 parse db \<Longrightarrow> decision_step sha256 parse db db' \<Longrightarrow> decision_reach sha256 parse db'"

definition decisions_of :: "approval_db \<Rightarrow> uuid \<Rightarrow> string list" where
  "decisions_of db k = map av_action (filter (\<lambda>a. av_proposal a = k) (db_approvals db))"

definition decided_as :: "string \<Rightarrow> string list" where
  "decided_as status = (if status \<in> {''executed'', ''undone''} then [''APPROVE_TASK_CHANGE'']
     else if status = ''rejected'' then [''REJECT_PROPOSAL''] else [])"

definition decisions_inv :: "approval_db \<Rightarrow> bool" where
  "decisions_inv db \<longleftrightarrow> distinct (map pm_id (db_proposals db))
     \<and> (\<forall>p\<in>set (db_proposals db). decisions_of db (pm_id p) = decided_as (pm_status p))
     \<and> av_proposal ` set (db_approvals db) \<subseteq> pm_id ` set (db_proposals db)"

lemma decisions_of_append:
  "db_approvals db' = db_approvals db @ [a] \<Longrightarrow>
     decisions_of db' k = decisions_of db k @ (if av_proposal a = k then [av_action a] else [])"
  by (simp add: decisions_of_def)

lemma decisions_of_same: "db_approvals db' = db_approvals db \<Longrightarrow> decisions_of db' k = decisions_of db k"
  by (simp add: decisions_of_def)

text \<open>The invariant after a proposal was resolved, with or without an approval row.\<close>

lemma decisions_inv_resolve:
  assumes inv: "decisions_inv db" and p: "p \<in> set (db_proposals db)" and id: "pm_id q = pm_id p"
    and props: "db_proposals db' = put_row pm_id q (db_proposals db)"
    and ok: "decisions_of db' (pm_id p) = decided_as (pm_status q)"
    and frame: "\<And>k. k \<noteq> pm_id p \<Longrightarrow> decisions_of db' k = decisions_of db k"
    and fk: "av_proposal ` set (db_approvals db') \<subseteq> insert (pm_id p) (av_proposal ` set (db_approvals db))"
  shows "decisions_inv db'"
proof -
  have "decisions_of db' (pm_id x) = decided_as (pm_status x)" if "x \<in> set (db_proposals db')" for x
  proof (cases "x = q")
    case True
    then show ?thesis using ok id by simp
  next
    case False
    have "x = q \<or> (x \<in> set (db_proposals db) \<and> pm_id x \<noteq> pm_id q)"
      using that unfolding props by (rule put_row_set)
    with False id have x: "x \<in> set (db_proposals db)" "pm_id x \<noteq> pm_id p" by simp_all
    then show ?thesis using inv frame [OF x(2)] by (auto simp: decisions_inv_def)
  qed
  moreover have ids: "map pm_id (db_proposals db') = map pm_id (db_proposals db)" by (simp add: props)
  then have ids': "pm_id ` set (db_proposals db') = pm_id ` set (db_proposals db)" by (metis list.set_map)
  have "av_proposal ` set (db_approvals db') \<subseteq> pm_id ` set (db_proposals db')"
  proof -
    have "insert (pm_id p) (av_proposal ` set (db_approvals db)) \<subseteq> pm_id ` set (db_proposals db)"
      using inv imageI [OF p, of pm_id] by (simp add: decisions_inv_def)
    from subset_trans [OF fk this] show ?thesis by (simp only: ids')
  qed
  ultimately show ?thesis using inv ids by (simp add: decisions_inv_def)
qed

lemma decisions_inv_decide:
  assumes inv: "decisions_inv db" and p: "p \<in> set (db_proposals db)" and pending: "pm_status p = ''pending''"
    and props: "db_proposals db' = put_row pm_id (resolved p status now) (db_proposals db)"
    and app: "db_approvals db' = db_approvals db @ [record_decision aid actor (resolved p status now) v action now]"
    and status: "decided_as status = [action]"
  shows "decisions_inv db'"
proof (rule decisions_inv_resolve [OF inv p _ props])
  have "decisions_of db (pm_id p) = []" using inv p pending by (simp add: decisions_inv_def decided_as_def)
  then show "decisions_of db' (pm_id p) = decided_as (pm_status (resolved p status now))"
    by (simp add: decisions_of_append [OF app] record_decision_def status)
qed (auto simp: decisions_of_append [OF app] app record_decision_def)

lemma decisions_inv_keep:
  assumes inv: "decisions_inv db" and p: "p \<in> set (db_proposals db)" and id: "pm_id q = pm_id p"
    and props: "db_proposals db' = put_row pm_id q (db_proposals db)" and app: "db_approvals db' = db_approvals db"
    and status: "decided_as (pm_status q) = decided_as (pm_status p)"
  shows "decisions_inv db'"
proof (rule decisions_inv_resolve [OF inv p id props])
  show "decisions_of db' (pm_id p) = decided_as (pm_status q)"
    using inv p by (simp add: decisions_of_same [OF app] status decisions_inv_def)
qed (auto simp: decisions_of_same [OF app] app)

lemma approve_inv:
  assumes "decisions_inv db" and r: "approve sha256 parse now aid actor pid expected db = Inr (out, db')"
  shows "decisions_inv db'"
  using approve_cases [OF r]
proof (elim disjE exE conjE)
  fix p c t title
  assume p: "owned_proposal parse actor pid db = Some p" "pm_status p = ''pending''"
    and ex: "executes parse now aid actor expected p c t title db db'"
  show ?thesis
    by (rule decisions_inv_decide [OF assms(1) conjunct1 [OF owned_proposal_facts [OF p(1)]] p(2)])
      (use ex in \<open>auto simp: executes_def decided_as_def\<close>)
next
  fix p c
  assume p: "owned_proposal parse actor pid db = Some p" "pm_status p = ''pending''" and s: "supersedes now p db db'"
  show ?thesis
    by (rule decisions_inv_keep [OF assms(1) conjunct1 [OF owned_proposal_facts [OF p(1)]], of "resolved p ''superseded'' now"])
      (use s p(2) in \<open>auto simp: supersedes_def decided_as_def\<close>)
qed (use assms(1) in simp)

lemma reject_inv:
  assumes "decisions_inv db" and r: "reject sha256 parse now aid actor pid expected db = Inr (out, db')"
  shows "decisions_inv db'"
  using reject_cases [OF r]
proof (elim disjE exE conjE)
  fix p
  assume p: "owned_proposal parse actor pid db = Some p" "pm_status p = ''pending''"
    and ex: "db_proposals db' = put_row pm_id (resolved p ''rejected'' now) (db_proposals db)"
      "db_approvals db' = db_approvals db
         @ [record_decision aid actor (resolved p ''rejected'' now) expected ''REJECT_PROPOSAL'' now]"
  show ?thesis
    by (rule decisions_inv_decide [OF assms(1) conjunct1 [OF owned_proposal_facts [OF p(1)]] p(2) ex])
      (simp add: decided_as_def)
qed (use assms(1) in simp)

lemma undo_inv:
  assumes "decisions_inv db" and r: "undo sha256 parse actor pid db = Inr (out, db')"
  shows "decisions_inv db'"
  using undo_cases [OF r]
proof (elim disjE exE conjE)
  fix p c t title
  assume p: "owned_proposal parse actor pid db = Some p" "pm_status p = ''executed''"
    and ex: "db_proposals db' = put_row pm_id (p\<lparr>pm_status := ''undone'', pm_version := pm_version p + 1\<rparr>) (db_proposals db)"
      "db_approvals db' = db_approvals db"
  show ?thesis
    by (rule decisions_inv_keep [OF assms(1) conjunct1 [OF owned_proposal_facts [OF p(1)]] _ ex])
      (simp_all add: decided_as_def p(2))
qed (use assms(1) in simp)

lemma decision_step_inv: "decision_step sha256 parse db db' \<Longrightarrow> decisions_inv db \<Longrightarrow> decisions_inv db'"
proof (induction rule: decision_step.induct)
  case (propose p db)
  have "av_proposal a \<noteq> pm_id p" if "a \<in> set (db_approvals db)" for a
  proof -
    have "av_proposal a \<in> pm_id ` set (db_proposals db)"
      by (rule subsetD [OF _ imageI [OF that]]) (use propose.prems in \<open>simp add: decisions_inv_def\<close>)
    then show ?thesis using propose.hyps by auto
  qed
  then have "decisions_of db (pm_id p) = []" by (simp add: decisions_of_def filter_empty_conv)
  then show ?case using propose by (auto simp: decisions_inv_def decisions_of_def decided_as_def)
next
  case (edit t db t')
  then show ?case by (auto simp: decisions_inv_def decisions_of_def)
qed (auto intro: approve_inv reject_inv undo_inv)


section \<open>Workspaces are isolated\<close>

text \<open>A table with rows of one workspace replaced by rows of that workspace, elsewhere.\<close>

lemma put_row_frame:
  assumes "distinct (map key rows)" and "r \<in> set rows" and "key q = key r" and "w r = a" and "w q = a" and "b \<noteq> a"
  shows "filter (\<lambda>x. w x = b) (put_row key q rows) = filter (\<lambda>x. w x = b) rows"
proof -
  have key: "key x = key q \<Longrightarrow> x = r" if "x \<in> set rows" for x
    using that assms(1-3) by (metis distinct_map inj_onD)
  have "filter (\<lambda>x. w x = b) (map (\<lambda>x. if key x = key q then q else x) ys) = filter (\<lambda>x. w x = b) ys"
    if "set ys \<subseteq> set rows" for ys
    using that
  proof (induction ys)
    case (Cons y ys)
    then show ?case using key [of y] assms(4-6) by auto
  qed simp
  then show ?thesis by (simp add: put_row_def)
qed

definition same_elsewhere :: "uuid \<Rightarrow> approval_db \<Rightarrow> approval_db \<Rightarrow> bool" where
  "same_elsewhere ws db db' \<longleftrightarrow>
     filter (\<lambda>t. tr_workspace t = ws) (db_tasks db') = filter (\<lambda>t. tr_workspace t = ws) (db_tasks db)
     \<and> filter (\<lambda>p. pm_workspace p = ws) (db_proposals db') = filter (\<lambda>p. pm_workspace p = ws) (db_proposals db)"

definition own_approvals :: "current_actor \<Rightarrow> approval_db \<Rightarrow> approval_db \<Rightarrow> bool" where
  "own_approvals actor db db' \<longleftrightarrow> (\<exists>rows. db_approvals db' = db_approvals db @ rows
     \<and> list_all (\<lambda>a. av_workspace a = ac_workspace actor \<and> av_actor a = ac_user actor) rows)"

lemma same_elsewhereI:
  assumes "distinct (map tr_id (db_tasks db))" and "distinct (map pm_id (db_proposals db))"
    and "db_tasks db' = db_tasks db \<or> (\<exists>t t'. t \<in> set (db_tasks db) \<and> tr_workspace t = a \<and> tr_workspace t' = a
       \<and> tr_id t' = tr_id t \<and> db_tasks db' = put_row tr_id t' (db_tasks db))"
    and "db_proposals db' = db_proposals db \<or> (\<exists>p p'. p \<in> set (db_proposals db) \<and> pm_workspace p = a
       \<and> pm_workspace p' = a \<and> pm_id p' = pm_id p \<and> db_proposals db' = put_row pm_id p' (db_proposals db))"
    and "ws \<noteq> a"
  shows "same_elsewhere ws db db'"
  using assms(3,4) put_row_frame [OF assms(1), of _ _ tr_workspace a ws] put_row_frame [OF assms(2), of _ _ pm_workspace a ws]
    assms(5) by (auto simp: same_elsewhere_def)

lemma approve_isolated:
  assumes ids: "distinct (map tr_id (db_tasks db))" "distinct (map pm_id (db_proposals db))"
    and r: "approve sha256 parse now aid actor pid expected db = Inr (out, db')" and ws: "ws \<noteq> ac_workspace actor"
  shows "same_elsewhere ws db db' \<and> own_approvals actor db db'"
  using approve_cases [OF r]
proof (elim disjE exE conjE)
  fix p c t title
  assume p: "owned_proposal parse actor pid db = Some p" and ex: "executes parse now aid actor expected p c t title db db'"
  note p = owned_proposal_facts [OF p]
  have t: "t \<in> set (db_tasks db) \<and> tr_workspace t = ac_workspace actor"
    using ex load_target_facts by (auto simp: executes_def)
  have "same_elsewhere ws db db'"
  proof (rule same_elsewhereI [OF ids _ _ ws])
    show "db_tasks db' = db_tasks db \<or> (\<exists>t t'. t \<in> set (db_tasks db) \<and> tr_workspace t = ac_workspace actor
        \<and> tr_workspace t' = ac_workspace actor \<and> tr_id t' = tr_id t \<and> db_tasks db' = put_row tr_id t' (db_tasks db))"
      using ex t by (intro disjI2 exI [of _ t] exI [of _ "t\<lparr>tr_title := title, tr_version := tr_version t + 1\<rparr>"])
        (simp add: executes_def)
    show "db_proposals db' = db_proposals db \<or> (\<exists>p p'. p \<in> set (db_proposals db) \<and> pm_workspace p = ac_workspace actor
       \<and> pm_workspace p' = ac_workspace actor \<and> pm_id p' = pm_id p \<and> db_proposals db' = put_row pm_id p' (db_proposals db))"
      using ex p by (intro disjI2 exI [of _ p] exI [of _ "resolved p ''executed'' now"]) (simp add: executes_def)
  qed
  then show ?thesis using ex by (auto simp: own_approvals_def executes_def record_decision_def)
next
  fix p c
  assume p: "owned_proposal parse actor pid db = Some p" and s: "supersedes now p db db'"
  note p = owned_proposal_facts [OF p]
  have "same_elsewhere ws db db'"
  proof (rule same_elsewhereI [OF ids _ _ ws])
    show "db_proposals db' = db_proposals db \<or> (\<exists>p p'. p \<in> set (db_proposals db) \<and> pm_workspace p = ac_workspace actor
       \<and> pm_workspace p' = ac_workspace actor \<and> pm_id p' = pm_id p \<and> db_proposals db' = put_row pm_id p' (db_proposals db))"
      using s p by (intro disjI2 exI [of _ p] exI [of _ "resolved p ''superseded'' now"]) (simp add: supersedes_def)
  qed (use s in \<open>simp add: supersedes_def\<close>)
  then show ?thesis using s by (auto simp: own_approvals_def supersedes_def)
qed (simp add: same_elsewhere_def own_approvals_def)


lemma reject_isolated:
  assumes ids: "distinct (map tr_id (db_tasks db))" "distinct (map pm_id (db_proposals db))"
    and r: "reject sha256 parse now aid actor pid expected db = Inr (out, db')" and ws: "ws \<noteq> ac_workspace actor"
  shows "same_elsewhere ws db db' \<and> own_approvals actor db db'"
  using reject_cases [OF r]
proof (elim disjE exE conjE)
  fix p
  assume p: "owned_proposal parse actor pid db = Some p" and tasks: "db_tasks db' = db_tasks db"
    and ex: "db_proposals db' = put_row pm_id (resolved p ''rejected'' now) (db_proposals db)"
      "db_approvals db' = db_approvals db
         @ [record_decision aid actor (resolved p ''rejected'' now) expected ''REJECT_PROPOSAL'' now]"
  note p = owned_proposal_facts [OF p]
  have "same_elsewhere ws db db'"
  proof (rule same_elsewhereI [OF ids _ _ ws])
    show "db_proposals db' = db_proposals db \<or> (\<exists>p p'. p \<in> set (db_proposals db) \<and> pm_workspace p = ac_workspace actor
       \<and> pm_workspace p' = ac_workspace actor \<and> pm_id p' = pm_id p \<and> db_proposals db' = put_row pm_id p' (db_proposals db))"
      using ex p by (intro disjI2 exI [of _ p] exI [of _ "resolved p ''rejected'' now"]) simp
  qed (use tasks in simp)
  then show ?thesis using ex by (auto simp: own_approvals_def record_decision_def)
qed (simp add: same_elsewhere_def own_approvals_def)

lemma undo_isolated:
  assumes ids: "distinct (map tr_id (db_tasks db))" "distinct (map pm_id (db_proposals db))"
    and r: "undo sha256 parse actor pid db = Inr (out, db')" and ws: "ws \<noteq> ac_workspace actor"
  shows "same_elsewhere ws db db' \<and> own_approvals actor db db'"
  using undo_cases [OF r]
proof (elim disjE exE conjE)
  fix p c t title
  assume p: "owned_proposal parse actor pid db = Some p" and c: "load_target parse actor c db = Some t"
    and ex: "db_tasks db' = put_row tr_id (t\<lparr>tr_title := title, tr_version := tr_version t + 1\<rparr>) (db_tasks db)"
      "db_proposals db' = put_row pm_id (p\<lparr>pm_status := ''undone'', pm_version := pm_version p + 1\<rparr>) (db_proposals db)"
      "db_approvals db' = db_approvals db"
  note p = owned_proposal_facts [OF p] and t = load_target_facts [OF c]
  have "same_elsewhere ws db db'"
  proof (rule same_elsewhereI [OF ids _ _ ws])
    show "db_tasks db' = db_tasks db \<or> (\<exists>t t'. t \<in> set (db_tasks db) \<and> tr_workspace t = ac_workspace actor
        \<and> tr_workspace t' = ac_workspace actor \<and> tr_id t' = tr_id t \<and> db_tasks db' = put_row tr_id t' (db_tasks db))"
      using ex(1) t by (intro disjI2 exI [of _ t] exI [of _ "t\<lparr>tr_title := title, tr_version := tr_version t + 1\<rparr>"]) simp
    show "db_proposals db' = db_proposals db \<or> (\<exists>p p'. p \<in> set (db_proposals db) \<and> pm_workspace p = ac_workspace actor
       \<and> pm_workspace p' = ac_workspace actor \<and> pm_id p' = pm_id p \<and> db_proposals db' = put_row pm_id p' (db_proposals db))"
      using ex(2) p
      by (intro disjI2 exI [of _ p] exI [of _ "p\<lparr>pm_status := ''undone'', pm_version := pm_version p + 1\<rparr>"]) simp
  qed
  then show ?thesis using ex by (auto simp: own_approvals_def)
qed (simp add: same_elsewhere_def own_approvals_def)

text \<open>C15. Workspaces are isolated. Whatever an actor decides (approve, reject or undo), in tables
  with unique ids, the tasks and proposals of every other workspace are left as they are, and the
  approval rows that appear carry the actor's workspace and user.\<close>

theorem workspaces_isolated:
  assumes "distinct (map tr_id (db_tasks db))" and "distinct (map pm_id (db_proposals db))"
    and "approve sha256 parse now aid actor pid expected db = Inr (out, db')
       \<or> reject sha256 parse now aid actor pid expected db = Inr (out, db')
       \<or> undo sha256 parse actor pid db = Inr (out, db')"
    and "ws \<noteq> ac_workspace actor"
  shows "same_elsewhere ws db db' \<and> own_approvals actor db db'"
  using assms(3)
proof (elim disjE)
  assume "approve sha256 parse now aid actor pid expected db = Inr (out, db')"
  from approve_isolated [OF assms(1,2) this assms(4)] show ?thesis .
next
  assume "reject sha256 parse now aid actor pid expected db = Inr (out, db')"
  from reject_isolated [OF assms(1,2) this assms(4)] show ?thesis .
next
  assume "undo sha256 parse actor pid db = Inr (out, db')"
  from undo_isolated [OF assms(1,2) this assms(4)] show ?thesis .
qed

section \<open>A decision on concrete tables\<close>

definition a_target :: json where
  "a_target = JList [JObj [(''target_type'', JStr ''task''), (''target_id'', JStr ''2''), (''target_version'', JInt 7),
     (''values'', JObj [(''title'', JStr ''New'')]), (''before_values'', JObj [(''title'', JStr ''Old'')])]]"

definition a_proposal :: proposal_row where
  "a_proposal = \<lparr>pm_id = 1, pm_workspace = 3, pm_kind = ''task_change'', pm_level = ''approve'', pm_payload_hash = ''h'',
     pm_targets = a_target, pm_status = ''pending'', pm_version = 1, pm_milestone = None, pm_minutes = 0,
     pm_resolved_at = None\<rparr>"

definition an_actor :: current_actor where
  "an_actor = \<lparr>ac_user = 5, ac_workspace = 3, ac_session = 6\<rparr>"

definition some_tables :: approval_db where
  "some_tables = \<lparr>db_proposals = [a_proposal], db_tasks = [a_task], db_approvals = [], db_audit = []\<rparr>"

definition a_hash :: "nat list \<Rightarrow> string" where
  "a_hash bytes = ''h''"

definition a_parse :: "string \<Rightarrow> uuid option" where
  "a_parse s = (if s = ''1'' then Some 1 else if s = ''2'' then Some 2 else None)"

definition executed_tables :: approval_db where
  "executed_tables = snd (case approve a_hash a_parse 0 9 an_actor ''1'' 1 some_tables of Inr r \<Rightarrow> r | Inl e \<Rightarrow> (outcome [] None None [], some_tables))"

lemmas sample_defs = a_task_def a_target_def a_proposal_def an_actor_def some_tables_def a_hash_def a_parse_def
  owned_proposal_def load_target_def owned_row_def hash_matches_def canonical_targets_hash_def decision_conflict_def
  validated_task_change_def TASK_MUTABLE_FIELDS_def outcome_def

lemma approve_runs:
  "\<exists>out. approve a_hash a_parse 0 9 an_actor ''1'' 1 some_tables = Inr (out, executed_tables) \<and> oc_status out = ''EXECUTED''"
  by (simp add: executed_tables_def approve_def sample_defs Let_def strip_def is_py_space_def)


lemma workspaces_isolated_witness: "same_elsewhere 8 some_tables executed_tables"
proof -
  obtain out where "approve a_hash a_parse 0 9 an_actor ''1'' 1 some_tables = Inr (out, executed_tables)"
    using approve_runs by blast
  from workspaces_isolated [OF _ _ disjI1 [OF this], of 8]
  show ?thesis by (simp add: some_tables_def an_actor_def)
qed

lemma some_tables_reachable: "decision_reach a_hash a_parse some_tables"
proof -
  let ?db = "some_tables\<lparr>db_proposals := []\<rparr>"
  have "decision_reach a_hash a_parse ?db" by (rule decision_reach.start) (simp_all add: some_tables_def)
  moreover have "decision_step a_hash a_parse ?db (?db\<lparr>db_proposals := db_proposals ?db @ [a_proposal]\<rparr>)"
    by (rule decision_step.propose) (simp_all add: a_proposal_def)
  ultimately show ?thesis using decision_reach.step by (fastforce simp: some_tables_def)
qed


section \<open>What undo does not check\<close>

text \<open>Undo writes back the values that the payload was created with, whatever the task's version or
  title is by now, and writes no audit event: an edit made after the approval is lost.\<close>

lemma undo_overwrites_later_edit:
  assumes p: "owned_proposal parse actor pid db = Some p" "pm_status p = ''executed''" "hash_matches sha256 p"
    and c: "validated_task_change (pm_targets p) = Some c" "tc_before_values c = Some [(''title'', JStr old)]"
    and t: "load_target parse actor c db = Some t" and short: "length old \<le> 200"
  shows "\<exists>out db'. undo sha256 parse actor pid db = Inr (out, db') \<and> oc_status out = ''UNDONE''
    \<and> db_tasks db' = put_row tr_id (t\<lparr>tr_title := old, tr_version := tr_version t + 1\<rparr>) (db_tasks db)
    \<and> db_audit db' = db_audit db"
  using assms by (auto simp: undo_def TASK_MUTABLE_FIELDS_def outcome_def)

end
