(* ===== verification/Outbox.thy ===== *)
theory Outbox
  imports Api_Base
begin

text \<open>
  The transactional outbox: enqueueing a command with its pending execution in one transaction
  (\<open>execution/outbox.py\<close>, \<open>execution/repository.py\<close> of the API) and the worker that claims,
  executes and verifies (\<open>outbox_worker.py\<close> of the worker). The provider is a parameter: a
  function from its own state and a command to a reply and its next state; \<open>locked\<close> says which
  rows other workers hold (\<open>SKIP LOCKED\<close>). The results: no false success in any reachable state,
  the counts of a run, that a missing executor fails closed, and what a timeout does to the rest
  of the queue.
\<close>

section \<open>Rows\<close>

record outbox_event =
  ob_id :: uuid
  ob_workspace :: uuid
  ob_operation :: "uuid option"
  ob_key :: string
  ob_command :: string
  ob_payload :: "(string \<times> json) list"
  ob_status :: string
  ob_attempts :: int
  ob_last_error :: "string option"
  ob_created_at :: instant

record execution_row =
  xr_id :: uuid
  xr_event :: uuid
  xr_key :: string
  xr_provider :: string
  xr_external_id :: "string option"
  xr_result_status :: string
  xr_verified :: bool
  xr_executed_at :: instant

record outbox_db =
  ox_events :: "outbox_event list"
  ox_executions :: "execution_row list"

section \<open>Enqueueing\<close>

record external_command =
  xc_workspace :: uuid
  xc_operation :: uuid
  xc_key :: string
  xc_type :: string
  xc_payload :: "(string \<times> json) list"

text \<open>\<open>OutboxRepository.create\<close>: \<open>String(120)\<close>, \<open>String(60)\<close> and the unique keys are the table's.\<close>

definition create_event :: "uuid \<Rightarrow> uuid option \<Rightarrow> string \<Rightarrow> string \<Rightarrow> (string \<times> json) list \<Rightarrow> uuid \<Rightarrow> instant \<Rightarrow> outbox_db
    \<Rightarrow> (outbox_event \<times> outbox_db) api" where
  "create_event workspace operation key command payload new_id now db =
     (let record = \<lparr>ob_id = new_id, ob_workspace = workspace, ob_operation = operation, ob_key = key,
        ob_command = command, ob_payload = payload, ob_status = ''pending'', ob_attempts = 0,
        ob_last_error = None, ob_created_at = now\<rparr>
      in if 120 < length key \<or> 60 < length command then Inl DataError
         else if new_id \<in> set (map ob_id (ox_events db)) \<or> key \<in> set (map ob_key (ox_events db)) then Inl IntegrityError
         else Inr (record, db\<lparr>ox_events := ox_events db @ [record]\<rparr>))"

definition apply_pending :: "uuid \<Rightarrow> string \<Rightarrow> string \<Rightarrow> uuid \<Rightarrow> instant \<Rightarrow> outbox_db \<Rightarrow> outbox_db api" where
  "apply_pending event key provider new_id now db =
     (if 120 < length key then Inl DataError
      else if new_id \<in> set (map xr_id (ox_executions db)) \<or> event \<in> set (map xr_event (ox_executions db))
        \<or> key \<in> set (map xr_key (ox_executions db)) then Inl IntegrityError
      else Inr (db\<lparr>ox_executions := ox_executions db @
        [\<lparr>xr_id = new_id, xr_event = event, xr_key = key, xr_provider = provider, xr_external_id = None,
          xr_result_status = ''Pending'', xr_verified = False, xr_executed_at = now\<rparr>]\<rparr>))"

text \<open>Both rows in one transaction: a failure of either commits neither.\<close>

definition enqueue_external_command :: "external_command \<Rightarrow> uuid \<Rightarrow> uuid \<Rightarrow> instant \<Rightarrow> outbox_db
    \<Rightarrow> (outbox_event \<times> outbox_db) api" where
  "enqueue_external_command command event_id execution_id now db =
     (case create_event (xc_workspace command) (Some (xc_operation command)) (xc_key command) (xc_type command)
        (xc_payload command) event_id now db of
        Inl e \<Rightarrow> Inl e
      | Inr (record, db1) \<Rightarrow>
        (case apply_pending (ob_id record) (xc_key command) ''google_calendar'' execution_id now db1 of
           Inl e \<Rightarrow> Inl e
         | Inr db2 \<Rightarrow> Inr (record, db2)))"

section \<open>The worker\<close>

text \<open>\<open>created_at\<close> decides the order; rows held by another transaction are skipped.\<close>

definition pending_batch :: "(uuid \<Rightarrow> bool) \<Rightarrow> nat \<Rightarrow> outbox_db \<Rightarrow> outbox_event list" where
  "pending_batch locked limit db =
     take limit (sort_key ob_created_at (filter (\<lambda>e. ob_status e = ''pending'' \<and> \<not> locked (ob_id e)) (ox_events db)))"

record outbox_command =
  oc_id :: uuid
  oc_workspace :: uuid
  oc_key :: string
  oc_type :: string
  oc_payload :: "(string \<times> json) list"

datatype provider_reply =
    Verified "string option" bool
  | TimedOut
  | Raised string

type_synonym 's executor = "'s \<Rightarrow> outbox_command \<Rightarrow> provider_reply \<times> 's"

record worker_run_result =
  wr_claimed :: nat
  wr_succeeded :: nat
  wr_failed :: nat

text \<open>\<open>RUNTIME_METRICS.increment\<close>, as the log of the increments.\<close>

type_synonym metrics = "(string \<times> string) list"

definition record_failed_verification :: "string \<Rightarrow> metrics \<Rightarrow> metrics" where
  "record_failed_verification result m = m @ [(''outbox_jobs_total'', ''failed''),
     (''external_executions_failed_total'', []), (''external_execution_verifications_total'', result)]"

definition mark_failed :: "string \<Rightarrow> outbox_event \<times> execution_row option \<Rightarrow> outbox_event \<times> execution_row option" where
  "mark_failed reason rx = (case rx of (record, execution) \<Rightarrow>
     (record\<lparr>ob_status := ''failed'', ob_last_error := Some reason\<rparr>,
      map_option (\<lambda>x. x\<lparr>xr_result_status := ''Failed'', xr_external_id := None, xr_verified := False\<rparr>) execution))"

definition command_of :: "outbox_event \<Rightarrow> outbox_command" where
  "command_of r = \<lparr>oc_id = ob_id r, oc_workspace = ob_workspace r, oc_key = ob_key r, oc_type = ob_command r,
     oc_payload = ob_payload r\<rparr>"

text \<open>What a reply makes of a claimed record and its execution: \<open>(succeeded, record, execution, metrics)\<close>.\<close>

fun settle :: "provider_reply \<Rightarrow> outbox_event \<Rightarrow> execution_row option \<Rightarrow> metrics
    \<Rightarrow> bool \<times> (outbox_event \<times> execution_row option) \<times> metrics" where
  "settle TimedOut record execution m =
     (False, (record\<lparr>ob_status := ''pending'', ob_last_error := Some ''provider outcome unknown''\<rparr>, execution),
      record_failed_verification ''unknown'' m)"
| "settle (Raised kind) record execution m =
     (False, mark_failed (''provider error:'' @ kind) (record, execution), record_failed_verification ''error'' m)"
| "settle (Verified external verified) record execution m =
     (case (execution, external) of
        (Some x, Some i) \<Rightarrow>
          if verified \<and> i \<noteq> [] then
            (True, (record\<lparr>ob_status := ''succeeded'', ob_last_error := None\<rparr>,
               Some (x\<lparr>xr_result_status := ''Succeeded'', xr_external_id := Some i, xr_verified := True\<rparr>)),
             m @ [(''outbox_jobs_total'', ''succeeded''), (''external_execution_verifications_total'', ''verified'')])
          else (False, mark_failed ''provider result unverified'' (record, execution), record_failed_verification ''unverified'' m)
      | _ \<Rightarrow> (False, mark_failed ''provider result unverified'' (record, execution), record_failed_verification ''unverified'' m))"

text \<open>The flush of the two rows: \<open>String(200)\<close> and the check \<open>verified_has_external_id\<close>.\<close>

definition execution_valid :: "execution_row \<Rightarrow> bool" where
  "execution_valid x \<longleftrightarrow> (xr_verified x \<longrightarrow> xr_external_id x \<noteq> None)
     \<and> (case xr_external_id x of None \<Rightarrow> True | Some i \<Rightarrow> length i \<le> 200)"

definition commit_rows :: "outbox_event \<times> execution_row option \<Rightarrow> outbox_db \<Rightarrow> outbox_db api" where
  "commit_rows rx db = (case rx of
     (record, None) \<Rightarrow> Inr (db\<lparr>ox_events := put_row ob_id record (ox_events db)\<rparr>)
   | (record, Some x) \<Rightarrow>
       if execution_valid x then
         Inr (db\<lparr>ox_events := put_row ob_id record (ox_events db), ox_executions := put_row xr_id x (ox_executions db)\<rparr>)
       else Inl (if xr_verified x \<and> xr_external_id x = None then IntegrityError else DataError))"

text \<open>One round of the loop on the claimed record.\<close>

definition claim :: "'s executor option \<Rightarrow> outbox_event \<Rightarrow> outbox_db \<Rightarrow> 's \<Rightarrow> metrics
    \<Rightarrow> bool \<times> (outbox_event \<times> execution_row option) \<times> metrics \<times> 's" where
  "claim executor record db s m =
     (let record1 = record\<lparr>ob_attempts := ob_attempts record + 1\<rparr>;
          execution = find (\<lambda>x. xr_event x = ob_id record) (ox_executions db);
          m1 = m @ [(''outbox_jobs_total'', ''claimed'')]
      in (case executor of
            None \<Rightarrow> (False, mark_failed ''executor unavailable'' (record1, execution), record_failed_verification ''unavailable'' m1, s)
          | Some provider \<Rightarrow>
              (let (reply, s') = provider s (command_of record1); (ok, rows, m2) = settle reply record1 execution m1
               in (ok, rows, m2, s'))))"

record 's worker_state =
  ws_db :: outbox_db
  ws_provider :: 's
  ws_metrics :: metrics

definition count_round :: "bool \<Rightarrow> worker_run_result \<Rightarrow> worker_run_result" where
  "count_round ok r = \<lparr>wr_claimed = wr_claimed r + 1, wr_succeeded = wr_succeeded r + (if ok then 1 else 0),
     wr_failed = wr_failed r + (if ok then 0 else 1)\<rparr>"

fun run_loop :: "nat \<Rightarrow> (uuid \<Rightarrow> bool) \<Rightarrow> 's executor option \<Rightarrow> worker_run_result \<Rightarrow> 's worker_state
    \<Rightarrow> worker_run_result api \<times> 's worker_state" where
  "run_loop 0 locked executor r w = (Inr r, w)"
| "run_loop (Suc n) locked executor r w =
     (case pending_batch locked 1 (ws_db w) of
        [] \<Rightarrow> (Inr r, w)
      | record # _ \<Rightarrow>
          (case claim executor record (ws_db w) (ws_provider w) (ws_metrics w) of
             (ok, rows, m, s) \<Rightarrow>
               (case commit_rows rows (ws_db w) of
                  Inl e \<Rightarrow> (Inl e, w\<lparr>ws_provider := s, ws_metrics := m\<rparr>)
                | Inr db \<Rightarrow> run_loop n locked executor (count_round ok r)
                    (w\<lparr>ws_db := db, ws_provider := s, ws_metrics := m\<rparr>))))"

definition run_once :: "(uuid \<Rightarrow> bool) \<Rightarrow> 's executor option \<Rightarrow> int \<Rightarrow> 's worker_state
    \<Rightarrow> worker_run_result api \<times> 's worker_state" where
  "run_once locked executor batch_size w =
     (if batch_size < 1 then (Inl (ServiceError (ValueError ''batch_size must be positive'')), w)
      else run_loop (nat batch_size) locked executor \<lparr>wr_claimed = 0, wr_succeeded = 0, wr_failed = 0\<rparr> w)"


section \<open>Events and executions agree\<close>

definition pair_ok :: "outbox_event \<Rightarrow> execution_row \<Rightarrow> bool" where
  "pair_ok e x \<longleftrightarrow> xr_event x = ob_id e \<and> xr_key x = ob_key e
     \<and> (ob_status e = ''pending'' \<and> xr_result_status x = ''Pending'' \<and> \<not> xr_verified x \<and> xr_external_id x = None
      \<or> ob_status e = ''failed'' \<and> xr_result_status x = ''Failed'' \<and> \<not> xr_verified x \<and> xr_external_id x = None
      \<or> ob_status e = ''succeeded'' \<and> xr_result_status x = ''Succeeded'' \<and> xr_verified x
        \<and> (\<exists>i. xr_external_id x = Some i \<and> i \<noteq> []))"

definition outbox_inv :: "outbox_db \<Rightarrow> bool" where
  "outbox_inv db \<longleftrightarrow> list_all2 pair_ok (ox_events db) (ox_executions db)
     \<and> distinct (map ob_id (ox_events db)) \<and> distinct (map xr_id (ox_executions db)) \<and> distinct (map ob_key (ox_events db))"

lemma put_row_update:
  assumes "distinct (map key rows)" and "i < length rows" and "key r = key (rows ! i)"
  shows "put_row key r rows = rows[i := r]"
proof (rule nth_equalityI)
  fix j
  assume "j < length (put_row key r rows)"
  then have j: "j < length rows" by (simp add: put_row_def)
  then have "key (rows ! j) = key (rows ! i) \<longleftrightarrow> j = i"
    using assms(1,2) by (metis distinct_conv_nth length_map nth_map)
  then show "put_row key r rows ! j = rows[i := r] ! j"
    using j assms(3) by (auto simp: put_row_def nth_list_update)
qed (simp add: put_row_def)

lemma find_partner:
  assumes "list_all2 pair_ok es xs" and "distinct (map ob_id es)" and "i < length es"
  shows "find (\<lambda>x. xr_event x = ob_id (es ! i)) xs = Some (xs ! i)"
  using assms
proof (induction es xs arbitrary: i rule: list_all2_induct)
  case (Cons e es x xs)
  show ?case
  proof (cases i)
    case 0
    then show ?thesis using Cons.hyps by (simp add: pair_ok_def)
  next
    case (Suc k)
    then have "k < length es" using Cons.prems by simp
    then have "ob_id (es ! k) \<in> ob_id ` set es" by simp
    then have "ob_id (es ! k) \<noteq> ob_id e" using Cons.prems(1) by force
    then show ?thesis using Cons.IH [of k] Cons.prems Suc Cons.hyps by (auto simp: pair_ok_def)
  qed
qed simp

lemma settle_pair_ok:
  assumes "settle reply record (Some x) m = (ok, rows, m')" and "pair_ok record x" and "ob_status record = ''pending''"
  shows "\<exists>r' x'. rows = (r', Some x') \<and> pair_ok r' x' \<and> ob_id r' = ob_id record \<and> ob_key r' = ob_key record
    \<and> ob_created_at r' = ob_created_at record \<and> ob_attempts r' = ob_attempts record
    \<and> xr_id x' = xr_id x \<and> (ok \<longleftrightarrow> ob_status r' = ''succeeded'')"
  using assms by (cases reply) (auto simp: pair_ok_def mark_failed_def split: option.splits if_splits)

lemma claim_pair_ok:
  assumes "claim executor record db s m = (ok, rows, m', s')" and "pair_ok record x"
    and x: "find (\<lambda>x. xr_event x = ob_id record) (ox_executions db) = Some x" and pending: "ob_status record = ''pending''"
  shows "\<exists>r' x'. rows = (r', Some x') \<and> pair_ok r' x' \<and> ob_id r' = ob_id record \<and> ob_key r' = ob_key record
    \<and> ob_created_at r' = ob_created_at record \<and> ob_attempts r' = ob_attempts record + 1
    \<and> xr_id x' = xr_id x \<and> (ok \<longleftrightarrow> ob_status r' = ''succeeded'')"
proof (cases executor)
  case None
  then show ?thesis using assms by (auto simp: claim_def mark_failed_def pair_ok_def Let_def)
next
  case (Some provider)
  have ok: "pair_ok (record\<lparr>ob_attempts := ob_attempts record + 1\<rparr>) x" using assms(2) by (simp add: pair_ok_def)
  obtain reply where "settle reply (record\<lparr>ob_attempts := ob_attempts record + 1\<rparr>) (Some x) (m @ [(''outbox_jobs_total'', ''claimed'')])
      = (ok, rows, m')"
    using assms(1) Some x by (auto simp: claim_def Let_def split: prod.splits)
  from settle_pair_ok [OF this ok] pending show ?thesis by simp
qed

lemma pending_batch_member:
  "record \<in> set (pending_batch locked n db) \<Longrightarrow>
     record \<in> set (ox_events db) \<and> ob_status record = ''pending'' \<and> \<not> locked (ob_id record)"
  by (auto simp: pending_batch_def dest: in_set_takeD)

text \<open>One round: the tables after a claim was committed.\<close>

lemma round_result:
  assumes inv: "outbox_inv db" and batch: "pending_batch locked 1 db = record # rest"
    and claim: "claim executor record db s m = (ok, rows, m', s')" and commit: "commit_rows rows db = Inr db'"
  shows "\<exists>i r' x'. i < length (ox_events db) \<and> record = ox_events db ! i \<and> ob_status record = ''pending''
    \<and> ox_events db' = (ox_events db)[i := r'] \<and> ox_executions db' = (ox_executions db)[i := x'] \<and> pair_ok r' x'
    \<and> ob_id r' = ob_id record \<and> ob_key r' = ob_key record \<and> ob_created_at r' = ob_created_at record
    \<and> ob_attempts r' = ob_attempts record + 1 \<and> xr_id x' = xr_id (ox_executions db ! i)
    \<and> (ok \<longleftrightarrow> ob_status r' = ''succeeded'')"
proof -
  have rec: "record \<in> set (ox_events db)" "ob_status record = ''pending''"
    using pending_batch_member [of "record" locked 1 db] batch by simp_all
  then obtain i where i: "i < length (ox_events db)" "record = ox_events db ! i" by (metis in_set_conv_nth)
  let ?x = "ox_executions db ! i"
  have all: "list_all2 pair_ok (ox_events db) (ox_executions db)" and ids: "distinct (map ob_id (ox_events db))"
    "distinct (map xr_id (ox_executions db))" using inv by (simp_all add: outbox_inv_def)
  have len: "i < length (ox_executions db)" using i(1) list_all2_lengthD [OF all] by simp
  have ok: "pair_ok record ?x" using list_all2_nthD [OF all i(1)] i(2) by simp
  have find: "find (\<lambda>x. xr_event x = ob_id record) (ox_executions db) = Some ?x"
    using find_partner [OF all ids(1) i(1)] i(2) by simp
  from claim_pair_ok [OF claim ok find rec(2)] obtain r' x' where r: "rows = (r', Some x')" "pair_ok r' x'"
    "ob_id r' = ob_id record" "ob_key r' = ob_key record" "ob_created_at r' = ob_created_at record"
    "ob_attempts r' = ob_attempts record + 1" "xr_id x' = xr_id ?x" "ok \<longleftrightarrow> ob_status r' = ''succeeded''" by blast
  have "ox_events db' = put_row ob_id r' (ox_events db)" "ox_executions db' = put_row xr_id x' (ox_executions db)"
    using commit r(1) by (auto simp: commit_rows_def split: if_splits)
  then have "ox_events db' = (ox_events db)[i := r']" "ox_executions db' = (ox_executions db)[i := x']"
    using put_row_update [OF ids(1) i(1)] put_row_update [OF ids(2) len] r(3,7) i(2) by simp_all
  then show ?thesis using i rec(2) r by blast
qed

lemma round_inv:
  assumes inv: "outbox_inv db" and "pending_batch locked 1 db = record # rest"
    and "claim executor record db s m = (ok, rows, m', s')" and "commit_rows rows db = Inr db'"
  shows "outbox_inv db'"
proof -
  from round_result [OF assms] obtain i r' x' where r: "i < length (ox_events db)" "record = ox_events db ! i"
    "ox_events db' = (ox_events db)[i := r']" "ox_executions db' = (ox_executions db)[i := x']" "pair_ok r' x'"
    "ob_id r' = ob_id record" "ob_key r' = ob_key record" "xr_id x' = xr_id (ox_executions db ! i)" by blast
  have all: "list_all2 pair_ok (ox_events db) (ox_executions db)" using inv by (simp add: outbox_inv_def)
  have len: "i < length (ox_executions db)" using r(1) list_all2_lengthD [OF all] by simp
  have "map ob_id (ox_events db') = map ob_id (ox_events db)" "map ob_key (ox_events db') = map ob_key (ox_events db)"
    "map xr_id (ox_executions db') = map xr_id (ox_executions db)"
    using r len by (simp_all add: map_update list_update_same_conv)
  moreover have "list_all2 pair_ok (ox_events db') (ox_executions db')"
    using all r by (simp add: list_all2_update_cong)
  ultimately show ?thesis using inv by (simp add: outbox_inv_def)
qed

text \<open>What every committed round keeps holds at the end of a run.\<close>

lemma run_loop_rule:
  assumes "run_loop n locked executor r w = (res, w')" and "P n r w"
    and round: "\<And>k r w r0 rest ok rows m s db. P (Suc k) r w \<Longrightarrow> pending_batch locked 1 (ws_db w) = r0 # rest \<Longrightarrow>
       claim executor r0 (ws_db w) (ws_provider w) (ws_metrics w) = (ok, rows, m, s) \<Longrightarrow>
       commit_rows rows (ws_db w) = Inr db \<Longrightarrow>
       P k (count_round ok r) (w\<lparr>ws_db := db, ws_provider := s, ws_metrics := m\<rparr>)"
  shows "\<exists>k r1 w1. P k r1 w1 \<and> ws_db w' = ws_db w1
    \<and> (\<forall>r'. res = Inr r' \<longrightarrow> r' = r1 \<and> (k = 0 \<or> pending_batch locked 1 (ws_db w') = []))"
  using assms(1,2)
proof (induction n arbitrary: r w)
  case 0
  then show ?case by auto
next
  case (Suc n)
  show ?case
  proof (cases "pending_batch locked 1 (ws_db w)")
    case Nil
    then show ?thesis using Suc.prems by auto
  next
    case (Cons r0 rest)
    obtain ok rows m s where c: "claim executor r0 (ws_db w) (ws_provider w) (ws_metrics w) = (ok, rows, m, s)"
      by (metis prod_cases4)
    show ?thesis
    proof (cases "commit_rows rows (ws_db w)")
      case (Inl e)
      then show ?thesis using Suc.prems Cons c
        by (intro exI [of _ "Suc n"] exI [of _ r] exI [of _ w]) auto
    next
      case (Inr db)
      have "run_loop n locked executor (count_round ok r) (w\<lparr>ws_db := db, ws_provider := s, ws_metrics := m\<rparr>) = (res, w')"
        using Suc.prems(1) Cons c Inr by simp
      from Suc.IH [OF this round [OF Suc.prems(2) Cons c Inr]] show ?thesis .
    qed
  qed
qed

lemma run_once_rule:
  assumes "run_once locked executor batch w = (res, w')" and "P (nat batch) \<lparr>wr_claimed = 0, wr_succeeded = 0, wr_failed = 0\<rparr> w"
    and "\<And>k r w r0 rest ok rows m s db. P (Suc k) r w \<Longrightarrow> pending_batch locked 1 (ws_db w) = r0 # rest \<Longrightarrow>
       claim executor r0 (ws_db w) (ws_provider w) (ws_metrics w) = (ok, rows, m, s) \<Longrightarrow>
       commit_rows rows (ws_db w) = Inr db \<Longrightarrow>
       P k (count_round ok r) (w\<lparr>ws_db := db, ws_provider := s, ws_metrics := m\<rparr>)"
  shows "\<exists>k r1 w1. P k r1 w1 \<and> ws_db w' = ws_db w1
    \<and> (\<forall>r'. res = Inr r' \<longrightarrow> r' = r1 \<and> (k = 0 \<or> pending_batch locked 1 (ws_db w') = []))"
proof (cases "batch < 1")
  case True
  then show ?thesis using assms(1,2) by (auto simp: run_once_def)
next
  case False
  then have run: "run_loop (nat batch) locked executor \<lparr>wr_claimed = 0, wr_succeeded = 0, wr_failed = 0\<rparr> w = (res, w')"
    using assms(1) by (simp add: run_once_def)
  show ?thesis by (rule run_loop_rule [where P = P, OF run assms(2)]) (rule assms(3))
qed

lemma run_once_inv:
  assumes "run_once locked executor batch w = (res, w')" and "outbox_inv (ws_db w)"
  shows "outbox_inv (ws_db w')"
proof -
  let ?P = "\<lambda>(k :: nat) (r :: worker_run_result) (w :: 'a worker_state). outbox_inv (ws_db w)"
  obtain k r1 w1 where "?P k r1 w1" "ws_db w' = ws_db w1"
    using run_once_rule [where P = ?P, OF assms(1)] assms(2) round_inv by force
  then show ?thesis by simp
qed

lemma enqueue_inv:
  assumes "enqueue_external_command command event_id execution_id now db = Inr (record, db')" and "outbox_inv db"
  shows "outbox_inv db'"
proof -
  have r: "event_id \<notin> set (map ob_id (ox_events db))" "xc_key command \<notin> set (map ob_key (ox_events db))"
    "execution_id \<notin> set (map xr_id (ox_executions db))"
    "ox_events db' = ox_events db @ [record]" "ob_id record = event_id" "ob_key record = xc_key command"
    "ob_status record = ''pending''"
    "ox_executions db' = ox_executions db @ [\<lparr>xr_id = execution_id, xr_event = event_id, xr_key = xc_key command,
       xr_provider = ''google_calendar'', xr_external_id = None, xr_result_status = ''Pending'',
       xr_verified = False, xr_executed_at = now\<rparr>]"
    using assms(1)
    by (auto simp: enqueue_external_command_def create_event_def apply_pending_def Let_def split: if_splits)
  then have "pair_ok record (last (ox_executions db'))" by (simp add: pair_ok_def)
  then show ?thesis using assms(2) r by (simp add: outbox_inv_def list_all2_appendI)
qed

text \<open>Services enqueue and workers run, with any provider, in any order.\<close>

inductive outbox_step :: "'s worker_state \<Rightarrow> 's worker_state \<Rightarrow> bool" where
  enqueue: "enqueue_external_command command event_id execution_id now (ws_db w) = Inr (r, db) \<Longrightarrow>
     outbox_step w (w\<lparr>ws_db := db\<rparr>)"
| work: "run_once locked executor batch w = (res, w') \<Longrightarrow> outbox_step w w'"

inductive outbox_reach :: "'s worker_state \<Rightarrow> bool" where
  start: "ws_db w = \<lparr>ox_events = [], ox_executions = []\<rparr> \<Longrightarrow> outbox_reach w"
| step: "outbox_reach w \<Longrightarrow> outbox_step w w' \<Longrightarrow> outbox_reach w'"

inductive_cases outbox_stepE: "outbox_step w w'"

lemma outbox_step_inv: "outbox_step w w' \<Longrightarrow> outbox_inv (ws_db w) \<Longrightarrow> outbox_inv (ws_db w')"
  by (erule outbox_stepE) (auto intro: enqueue_inv run_once_inv)

lemma outbox_reach_inv: "outbox_reach w \<Longrightarrow> outbox_inv (ws_db w)"
proof (induction rule: outbox_reach.induct)
  case (start w)
  then show ?case by (simp add: outbox_inv_def)
next
  case (step w w')
  then show ?case by (rule_tac outbox_step_inv)
qed

text \<open>C16. No false success. In every state that services and workers can reach, with any provider and any
  interleaving, every command has exactly one execution, with its idempotency key, and the two
  agree: a command is succeeded exactly if its execution is verified with a non-empty external
  id and the result \<open>Succeeded\<close>; a failed or pending command has an unverified execution without
  an external id. No idempotency key occurs twice.\<close>

theorem outbox_no_false_success:
  assumes "outbox_reach w" and "e \<in> set (ox_events (ws_db w))"
  shows "(\<exists>x\<in>set (ox_executions (ws_db w)). pair_ok e x
      \<and> (\<forall>y\<in>set (ox_executions (ws_db w)). xr_event y = ob_id e \<longrightarrow> y = x))
    \<and> distinct (map ob_key (ox_events (ws_db w)))"
proof -
  have inv: "outbox_inv (ws_db w)" using assms(1) by (rule outbox_reach_inv)
  then have all: "list_all2 pair_ok (ox_events (ws_db w)) (ox_executions (ws_db w))"
    and ids: "distinct (map ob_id (ox_events (ws_db w)))" by (simp_all add: outbox_inv_def)
  obtain i where i: "i < length (ox_events (ws_db w))" "e = ox_events (ws_db w) ! i"
    using assms(2) by (metis in_set_conv_nth)
  let ?x = "ox_executions (ws_db w) ! i"
  have "y = ?x" if y: "y \<in> set (ox_executions (ws_db w))" "xr_event y = ob_id e" for y
  proof -
    obtain j where j: "j < length (ox_executions (ws_db w))" "y = ox_executions (ws_db w) ! j"
      using y(1) by (metis in_set_conv_nth)
    then have jl: "j < length (ox_events (ws_db w))" using list_all2_lengthD [OF all] by simp
    have "ob_id (ox_events (ws_db w) ! j) = ob_id (ox_events (ws_db w) ! i)"
      using list_all2_nthD [OF all jl] j(2) y(2) i(2) by (simp add: pair_ok_def)
    then have "j = i" using ids jl i(1) by (metis distinct_conv_nth length_map nth_map)
    then show ?thesis using j(2) by simp
  qed
  moreover have "?x \<in> set (ox_executions (ws_db w))" using i(1) list_all2_lengthD [OF all] by simp
  ultimately have "\<exists>x\<in>set (ox_executions (ws_db w)). pair_ok e x
    \<and> (\<forall>y\<in>set (ox_executions (ws_db w)). xr_event y = ob_id e \<longrightarrow> y = x)"
    using list_all2_nthD [OF all i(1)] i(2) by blast
  moreover have "distinct (map ob_key (ox_events (ws_db w)))" using inv by (simp add: outbox_inv_def)
  ultimately show ?thesis by blast
qed

section \<open>A run of the worker\<close>

definition settled :: "outbox_db \<Rightarrow> outbox_event list" where
  "settled db = filter (\<lambda>e. ob_status e \<noteq> ''pending'') (ox_events db)"

definition run_spec :: "nat \<Rightarrow> outbox_db \<Rightarrow> nat \<Rightarrow> worker_run_result \<Rightarrow> outbox_db \<Rightarrow> bool" where
  "run_spec limit db0 k r db \<longleftrightarrow> outbox_inv db \<and> wr_claimed r = wr_succeeded r + wr_failed r \<and> wr_claimed r + k = limit
     \<and> sum_list (map ob_attempts (ox_events db)) = sum_list (map ob_attempts (ox_events db0)) + int (wr_claimed r)
     \<and> length (filter (\<lambda>e. ob_status e = ''succeeded'') (ox_events db))
       = length (filter (\<lambda>e. ob_status e = ''succeeded'') (ox_events db0)) + wr_succeeded r
     \<and> map ob_id (ox_events db) = map ob_id (ox_events db0) \<and> set (settled db0) \<subseteq> set (ox_events db)"

lemma sum_list_update_int:
  fixes f :: "'a \<Rightarrow> int"
  assumes "i < length xs"
  shows "sum_list (map f (xs[i := y])) = sum_list (map f xs) + f y - f (xs ! i)"
  using assms by (induction xs arbitrary: i) (auto split: nat.splits simp: nth_Cons)

lemma length_filter_update:
  "i < length xs \<Longrightarrow> \<not> P (xs ! i) \<Longrightarrow>
     length (filter P (xs[i := y])) = length (filter P xs) + (if P y then 1 else 0)"
  by (induction xs arbitrary: i) (auto split: nat.splits simp: nth_Cons)

lemma run_spec_round:
  assumes spec: "run_spec limit db0 (Suc k) r db" and batch: "pending_batch locked 1 db = r0 # rest"
    and c: "claim executor r0 db s m = (ok, rows, m', s')" "commit_rows rows db = Inr db'"
  shows "run_spec limit db0 k (count_round ok r) db'"
proof -
  have inv: "outbox_inv db" using spec by (simp add: run_spec_def)
  obtain i r' where i: "i < length (ox_events db)" "r0 = ox_events db ! i" "ob_status r0 = ''pending''"
    "ox_events db' = (ox_events db)[i := r']" "ob_id r' = ob_id r0" "ob_attempts r' = ob_attempts r0 + 1"
    "ok \<longleftrightarrow> ob_status r' = ''succeeded''" using round_result [OF inv batch c] by blast
  have "length (filter (\<lambda>e. ob_status e = ''succeeded'') (ox_events db'))
      = length (filter (\<lambda>e. ob_status e = ''succeeded'') (ox_events db)) + (if ok then 1 else 0)"
    using length_filter_update [of i "ox_events db" "\<lambda>e. ob_status e = ''succeeded''" r'] i by simp
  moreover have "sum_list (map ob_attempts (ox_events db')) = sum_list (map ob_attempts (ox_events db)) + 1"
    using sum_list_update_int [OF i(1), of ob_attempts r'] i by simp
  moreover have "map ob_id (ox_events db') = map ob_id (ox_events db)"
    using i(1,2,4,5) by (simp add: map_update list_update_same_conv)
  moreover have "e \<in> set (ox_events db')" if e: "e \<in> set (settled db0)" for e
  proof -
    have "e \<in> set (ox_events db)" "ob_status e \<noteq> ''pending''" using e spec by (auto simp: run_spec_def settled_def)
    then obtain j where "j < length (ox_events db)" "e = ox_events db ! j" "j \<noteq> i" using i(2,3) by (metis in_set_conv_nth)
    then have "(ox_events db)[i := r'] ! j = e" "j < length ((ox_events db)[i := r'])" by simp_all
    then show ?thesis unfolding i(4) by (metis nth_mem)
  qed
  ultimately show ?thesis using spec round_inv [OF inv batch c]
    by (auto simp: run_spec_def count_round_def)
qed

text \<open>A run of the worker accounts for every round. For a batch of \<open>n\<close>, the counts of the result satisfy
  claimed = succeeded + failed and claimed <= n; exactly \<open>succeeded\<close> more commands are succeeded
  and the attempts of all commands together grew by \<open>claimed\<close>; a command that was succeeded or
  failed before is untouched; and a run that claimed fewer than \<open>n\<close> left no pending command it
  could have claimed.\<close>

theorem run_once_accounts:
  assumes "outbox_inv (ws_db w)" and "run_once locked executor batch w = (Inr r, w')"
  shows "wr_claimed r = wr_succeeded r + wr_failed r \<and> int (wr_claimed r) \<le> batch
    \<and> sum_list (map ob_attempts (ox_events (ws_db w'))) = sum_list (map ob_attempts (ox_events (ws_db w))) + int (wr_claimed r)
    \<and> length (filter (\<lambda>e. ob_status e = ''succeeded'') (ox_events (ws_db w')))
      = length (filter (\<lambda>e. ob_status e = ''succeeded'') (ox_events (ws_db w))) + wr_succeeded r
    \<and> set (settled (ws_db w)) \<subseteq> set (ox_events (ws_db w'))
    \<and> (int (wr_claimed r) < batch \<longrightarrow> pending_batch locked 1 (ws_db w') = [])"
proof -
  let ?P = "\<lambda>(k :: nat) (r :: worker_run_result) (u :: 'a worker_state). run_spec (nat batch) (ws_db w) k r (ws_db u)"
  have start: "?P (nat batch) \<lparr>wr_claimed = 0, wr_succeeded = 0, wr_failed = 0\<rparr> w"
    using assms(1) by (auto simp: run_spec_def settled_def)
  obtain k r1 w1 where P: "?P k r1 w1" "ws_db w' = ws_db w1"
    and "\<forall>r'. Inr r = (Inr r' :: worker_run_result api) \<longrightarrow> r' = r1 \<and> (k = 0 \<or> pending_batch locked 1 (ws_db w') = [])"
    using run_once_rule [where P = ?P, OF assms(2) start] run_spec_round by force
  then have "r = r1" "k = 0 \<or> pending_batch locked 1 (ws_db w') = []" by simp_all
  moreover have "int (nat batch) = batch" using assms(2) by (auto simp: run_once_def split: if_splits)
  then have "int (wr_claimed r1) + int k = batch" using P(1) unfolding run_spec_def by linarith
  ultimately show ?thesis using P by (auto simp: run_spec_def)
qed

text \<open>A worker without an executor fails closed: no command it claims succeeds,
  and no provider is called.\<close>

lemma claim_without_executor:
  "claim None record db s m = (ok, rows, m', s') \<Longrightarrow> \<not> ok \<and> s' = s"
  by (auto simp: claim_def Let_def)

section \<open>What a timeout does to the queue\<close>

text \<open>An executor that always times out, and the record it leaves.\<close>

definition timing_out :: "'s executor" where
  "timing_out s command = (TimedOut, s)"

definition timed_out :: "nat \<Rightarrow> outbox_event \<Rightarrow> outbox_event" where
  "timed_out n r = (if n = 0 then r else r\<lparr>ob_attempts := ob_attempts r + int n, ob_status := ''pending'',
     ob_last_error := Some ''provider outcome unknown''\<rparr>)"

lemma take_sort_map:
  assumes "\<And>x. x \<in> set xs \<Longrightarrow> key (f x) = key x"
  shows "sort_key key (map f xs) = map f (sort_key key xs)"
proof -
  have "insort_key key (f x) (map f ys) = map f (insort_key key x ys)"
    if "\<forall>y\<in>insert x (set ys). key (f y) = key y" for x ys
    using that by (induction ys) auto
  then show ?thesis using assms by (induction xs) simp_all
qed

lemma pending_batch_put:
  assumes "\<forall>x\<in>set (ox_events db). ob_id x = ob_id q \<longrightarrow> ob_created_at x = ob_created_at q \<and> ob_status x = ''pending''"
    and "ob_status q = ''pending''"
  shows "pending_batch locked n (db\<lparr>ox_events := put_row ob_id q (ox_events db)\<rparr>)
    = map (\<lambda>x. if ob_id x = ob_id q then q else x) (pending_batch locked n db)"
proof -
  let ?f = "\<lambda>x. if ob_id x = ob_id q then q else x" and ?p = "\<lambda>e. ob_status e = ''pending'' \<and> \<not> locked (ob_id e)"
  have "filter ?p (map ?f es) = map ?f (filter ?p es)" if "set es \<subseteq> set (ox_events db)" for es
    using that assms by (induction es) auto
  then have "filter ?p (put_row ob_id q (ox_events db)) = map ?f (filter ?p (ox_events db))"
    by (simp add: put_row_def)
  moreover have "sort_key ob_created_at (map ?f (filter ?p (ox_events db))) = map ?f (sort_key ob_created_at (filter ?p (ox_events db)))"
    by (rule take_sort_map) (use assms in auto)
  ultimately show ?thesis by (simp add: pending_batch_def take_map)
qed

text \<open>A round with a provider that times out leaves the same record at the head of the queue.\<close>

lemma timeout_round:
  assumes ids: "distinct (map ob_id (ox_events db))" and batch: "pending_batch locked 1 db = [r]"
    and c: "claim (Some timing_out) r db s m = (ok, rows, m', s')"
  shows "\<not> ok \<and> (\<exists>x. rows = (timed_out 1 r, x) \<and> (x = None \<or> x = find (\<lambda>x. xr_event x = ob_id r) (ox_executions db)))
    \<and> pending_batch locked 1 (db\<lparr>ox_events := put_row ob_id (timed_out 1 r) (ox_events db)\<rparr>) = [timed_out 1 r]"
proof -
  have r: "r \<in> set (ox_events db)" "ob_status r = ''pending''" using pending_batch_member [of r locked 1 db] batch by simp_all
  then have "\<forall>x\<in>set (ox_events db). ob_id x = ob_id r \<longrightarrow> x = r" using ids by (metis distinct_map inj_onD)
  then have "pending_batch locked 1 (db\<lparr>ox_events := put_row ob_id (timed_out 1 r) (ox_events db)\<rparr>) = [timed_out 1 r]"
    using pending_batch_put [of db "timed_out 1 r" locked 1] r batch by (auto simp: timed_out_def)
  then show ?thesis using c by (auto simp: claim_def timing_out_def timed_out_def Let_def)
qed

lemma put_row_twice: "key q = key q' \<Longrightarrow> put_row key q' (put_row key q rows) = put_row key q' rows"
  by (simp add: put_row_def)

lemma put_row_own: "distinct (map key rows) \<Longrightarrow> r \<in> set rows \<Longrightarrow> put_row key r rows = rows"
  by (auto simp: put_row_def intro!: map_idI dest: inj_onD simp: distinct_map)

lemma timeout_loop:
  assumes "outbox_inv (ws_db w)" and "pending_batch locked 1 (ws_db w) = [r]"
  shows "\<exists>w'. run_loop n locked (Some timing_out) c w
      = (Inr \<lparr>wr_claimed = wr_claimed c + n, wr_succeeded = wr_succeeded c, wr_failed = wr_failed c + n\<rparr>, w')
    \<and> ox_events (ws_db w') = put_row ob_id (timed_out n r) (ox_events (ws_db w))
    \<and> ox_executions (ws_db w') = ox_executions (ws_db w)"
  using assms
proof (induction n arbitrary: w r c)
  case 0
  have "r \<in> set (ox_events (ws_db w))" using pending_batch_member [of r locked 1 "ws_db w"] 0(2) by simp
  then show ?case using 0 by (simp add: timed_out_def put_row_own outbox_inv_def)
next
  case (Suc n)
  let ?db = "ws_db w" and ?r1 = "timed_out 1 r"
  obtain ok rows m s where c: "claim (Some timing_out) r ?db (ws_provider w) (ws_metrics w) = (ok, rows, m, s)"
    by (metis prod_cases4)
  have all: "list_all2 pair_ok (ox_events ?db) (ox_executions ?db)" and ids: "distinct (map ob_id (ox_events ?db))"
    and xids: "distinct (map xr_id (ox_executions ?db))" using Suc.prems(1) by (simp_all add: outbox_inv_def)
  have r: "r \<in> set (ox_events ?db)" "ob_status r = ''pending''" using pending_batch_member [of r locked 1 ?db] Suc.prems(2) by simp_all
  then obtain i where i: "i < length (ox_events ?db)" "r = ox_events ?db ! i" by (metis in_set_conv_nth)
  let ?x = "ox_executions ?db ! i"
  have x: "find (\<lambda>x. xr_event x = ob_id r) (ox_executions ?db) = Some ?x" using find_partner [OF all ids i(1)] i(2) by simp
  have len: "i < length (ox_executions ?db)" using i(1) list_all2_lengthD [OF all] by simp
  have pair: "pair_ok r ?x" using list_all2_nthD [OF all i(1)] i(2) by simp
  note round = timeout_round [OF ids Suc.prems(2) c]
  have rows: "rows = (?r1, Some ?x) \<and> \<not> ok"
    using c x by (auto simp: claim_def timing_out_def timed_out_def Let_def)
  let ?db1 = "?db\<lparr>ox_events := put_row ob_id ?r1 (ox_events ?db)\<rparr>"
  have "execution_valid ?x" using pair r(2) by (auto simp: pair_ok_def execution_valid_def)
  then have commit: "commit_rows rows ?db = Inr ?db1"
    using rows put_row_own [OF xids nth_mem [OF len]] by (simp add: commit_rows_def)
  have inv: "outbox_inv ?db1" using round_inv [OF Suc.prems(1) Suc.prems(2) c commit] .
  have batch: "pending_batch locked 1 ?db1 = [?r1]" using round by simp
  let ?w1 = "w\<lparr>ws_db := ?db1, ws_provider := s, ws_metrics := m\<rparr>"
  from Suc.IH [of ?w1 ?r1 "count_round ok c"] inv batch obtain w' where
    w': "run_loop n locked (Some timing_out) (count_round ok c) ?w1
      = (Inr \<lparr>wr_claimed = wr_claimed (count_round ok c) + n, wr_succeeded = wr_succeeded (count_round ok c),
          wr_failed = wr_failed (count_round ok c) + n\<rparr>, w')"
    "ox_events (ws_db w') = put_row ob_id (timed_out n ?r1) (ox_events ?db1)" "ox_executions (ws_db w') = ox_executions ?db1"
    by auto
  have twice: "timed_out n ?r1 = timed_out (Suc n) r" by (simp add: timed_out_def algebra_simps)
  have "ox_events (ws_db w') = put_row ob_id (timed_out (Suc n) r) (put_row ob_id ?r1 (ox_events ?db))"
    using w'(2) unfolding twice by simp
  also have "\<dots> = put_row ob_id (timed_out (Suc n) r) (ox_events ?db)"
    by (rule put_row_twice) (simp add: timed_out_def)
  finally have "ox_events (ws_db w') = put_row ob_id (timed_out (Suc n) r) (ox_events ?db)" .
  then show ?case using w'(1,3) Suc.prems(2) c commit rows by (simp add: count_round_def)
qed

text \<open>A provider that times out stops the queue for the whole batch: the oldest pending command is
  claimed and sent \<open>n\<close> times in one run, every other command keeps its row.\<close>

lemma timeout_starves_queue:
  assumes "outbox_inv (ws_db w)" and "pending_batch locked 1 (ws_db w) = [r]" and "1 \<le> n"
  shows "\<exists>w'. run_once locked (Some timing_out) (int n) w
      = (Inr \<lparr>wr_claimed = n, wr_succeeded = 0, wr_failed = n\<rparr>, w')
    \<and> ox_events (ws_db w') = put_row ob_id (timed_out n r) (ox_events (ws_db w))"
  using timeout_loop [OF assms(1,2), of n "\<lparr>wr_claimed = 0, wr_succeeded = 0, wr_failed = 0\<rparr>"] assms(3)
  by (auto simp: run_once_def)

section \<open>A run on concrete tables\<close>

definition a_command :: external_command where
  "a_command = \<lparr>xc_workspace = 3, xc_operation = 4, xc_key = ''k'', xc_type = ''CREATE_FOCUS_BLOCK'', xc_payload = []\<rparr>"

definition obliging :: "unit executor" where
  "obliging s command = (Verified (Some ''ev'') True, s)"

definition an_event :: outbox_event where
  "an_event = \<lparr>ob_id = 1, ob_workspace = 3, ob_operation = Some 4, ob_key = ''k'', ob_command = ''CREATE_FOCUS_BLOCK'',
     ob_payload = [], ob_status = ''pending'', ob_attempts = 0, ob_last_error = None, ob_created_at = 0\<rparr>"

definition an_execution :: execution_row where
  "an_execution = \<lparr>xr_id = 2, xr_event = 1, xr_key = ''k'', xr_provider = ''google_calendar'', xr_external_id = None,
     xr_result_status = ''Pending'', xr_verified = False, xr_executed_at = 0\<rparr>"

definition a_queue :: outbox_db where
  "a_queue = \<lparr>ox_events = [an_event], ox_executions = [an_execution]\<rparr>"

definition a_done_queue :: outbox_db where
  "a_done_queue = \<lparr>ox_events = [an_event\<lparr>ob_attempts := 1, ob_status := ''succeeded''\<rparr>],
     ox_executions = [an_execution\<lparr>xr_result_status := ''Succeeded'', xr_external_id := Some ''ev'', xr_verified := True\<rparr>]\<rparr>"

definition a_worker :: "unit worker_state" where
  "a_worker = \<lparr>ws_db = a_queue, ws_provider = (), ws_metrics = []\<rparr>"

lemma a_queue_simp: "\<exists>r. enqueue_external_command a_command 1 2 0 \<lparr>ox_events = [], ox_executions = []\<rparr> = Inr (r, a_queue)"
  by (simp add: a_queue_def an_event_def an_execution_def enqueue_external_command_def create_event_def
    apply_pending_def a_command_def Let_def)

lemma a_batch: "pending_batch (\<lambda>_. False) 1 a_queue = [an_event]" "pending_batch (\<lambda>_. False) 1 a_done_queue = []"
  by (simp_all add: pending_batch_def a_queue_def a_done_queue_def an_event_def)

lemma a_claim: "\<exists>rows m. claim (Some obliging) an_event a_queue () [] = (True, rows, m, ()) \<and> commit_rows rows a_queue = Inr a_done_queue"
  by (simp add: claim_def obliging_def a_queue_def an_event_def an_execution_def commit_rows_def execution_valid_def
    put_row_def a_done_queue_def)

lemma a_worker_reach: "outbox_reach a_worker"
proof -
  let ?w = "a_worker\<lparr>ws_db := \<lparr>ox_events = [], ox_executions = []\<rparr>\<rparr>"
  have "outbox_reach ?w" by (rule outbox_reach.start) simp
  moreover obtain r where "enqueue_external_command a_command 1 2 0 (ws_db ?w) = Inr (r, a_queue)"
    using a_queue_simp by auto
  then have "outbox_step ?w (?w\<lparr>ws_db := a_queue\<rparr>)" by (rule outbox_step.enqueue)
  moreover have "?w\<lparr>ws_db := a_queue\<rparr> = a_worker" by (simp add: a_worker_def)
  ultimately show ?thesis using outbox_reach.step by metis
qed

lemma a_run: "\<exists>w. run_once (\<lambda>_. False) (Some obliging) 5 a_worker
    = (Inr \<lparr>wr_claimed = 1, wr_succeeded = 1, wr_failed = 0\<rparr>, w) \<and> ws_db w = a_done_queue"
proof -
  obtain rows m where c: "claim (Some obliging) an_event a_queue () [] = (True, rows, m, ())" "commit_rows rows a_queue = Inr a_done_queue"
    using a_claim by blast
  have "\<exists>w. run_loop (Suc (Suc k)) (\<lambda>_. False) (Some obliging) \<lparr>wr_claimed = 0, wr_succeeded = 0, wr_failed = 0\<rparr> a_worker
      = (Inr \<lparr>wr_claimed = 1, wr_succeeded = 1, wr_failed = 0\<rparr>, w) \<and> ws_db w = a_done_queue" for k
    using c a_batch by (simp add: a_worker_def count_round_def)
  from this [of 3] show ?thesis by (simp add: run_once_def)
qed

lemma outbox_no_false_success_witness:
  "\<exists>w. outbox_reach w \<and> (\<exists>e x. e \<in> set (ox_events (ws_db (w :: unit worker_state))) \<and> pair_ok e x \<and> ob_status e = ''succeeded'')"
proof -
  obtain w where w: "run_once (\<lambda>_. False) (Some obliging) 5 a_worker
      = (Inr \<lparr>wr_claimed = 1, wr_succeeded = 1, wr_failed = 0\<rparr>, w)" "ws_db w = a_done_queue"
    using a_run by blast
  have reach: "outbox_reach w" using a_worker_reach outbox_step.work [OF w(1)] by (rule outbox_reach.step)
  obtain e where e: "e \<in> set (ox_events (ws_db w))" "ob_status e = ''succeeded''" using w(2) by (simp add: a_done_queue_def)
  from outbox_no_false_success [OF reach e(1)] show ?thesis using reach e by blast
qed

lemma run_once_accounts_witness:
  "\<exists>w. length (filter (\<lambda>e. ob_status e = ''succeeded'') (ox_events (ws_db (w :: unit worker_state)))) = 1
    \<and> pending_batch (\<lambda>_. False) 1 (ws_db w) = []"
proof -
  obtain w where w: "run_once (\<lambda>_. False) (Some obliging) 5 a_worker
      = (Inr \<lparr>wr_claimed = 1, wr_succeeded = 1, wr_failed = 0\<rparr>, w)" using a_run by blast
  have "filter (\<lambda>e. ob_status e = ''succeeded'') (ox_events (ws_db a_worker)) = []"
    by (simp add: a_worker_def a_queue_def an_event_def)
  with run_once_accounts [OF outbox_reach_inv [OF a_worker_reach] w] show ?thesis by auto
qed

end
