(* ===== verification/Python_Text.thy ===== *)
theory Python_Text
  imports Identifiers
begin

text \<open>
  What the services use of Python's text: substring tests, \<open>str.lower\<close>, \<open>str.partition\<close>,
  \<open>repr\<close> of a string, \<open>int(text, 16)\<close> and \<open>UUID(text)\<close>, for texts over U+0000 to U+00FF. The
  result: \<open>UUID(str(u))\<close> and \<open>UUID(hex=u.hex)\<close> give back \<open>u\<close>.
\<close>

section \<open>Searching and case\<close>

fun starts_with :: "'a list \<Rightarrow> 'a list \<Rightarrow> bool" where
  "starts_with [] s = True"
| "starts_with (c # cs) (d # s) = (c = d \<and> starts_with cs s)"
| "starts_with (c # cs) [] = False"

fun contains :: "'a list \<Rightarrow> 'a list \<Rightarrow> bool" where
  "contains needle [] = (needle = [])"
| "contains needle (c # s) = (starts_with needle (c # s) \<or> contains needle s)"

text \<open>\<open>str.lower\<close>: the capital letters of ASCII and Latin-1.\<close>

definition lower_char :: "char \<Rightarrow> char" where
  "lower_char c = (let n = of_char c :: nat in
     if (65 \<le> n \<and> n \<le> 90) \<or> (192 \<le> n \<and> n \<le> 222 \<and> n \<noteq> 215) then char_of (n + 32) else c)"

definition lower :: "string \<Rightarrow> string" where
  "lower s = map lower_char s"

text \<open>\<open>s.partition(sep)[0]\<close> for a separator of one character.\<close>

definition before_char :: "char \<Rightarrow> string \<Rightarrow> string" where
  "before_char sep s = takeWhile (\<lambda>c. c \<noteq> sep) s"

lemma starts_with_append: "starts_with xs (xs @ ys)"
  by (induction xs) auto

lemma contains_append: "contains xs (ys @ xs @ zs)"
proof (induction ys)
  case Nil
  show ?case using starts_with_append [of xs zs] by (cases "xs @ zs") auto
qed simp

section \<open>repr\<close>

definition hex_pair :: "nat \<Rightarrow> string" where
  "hex_pair n = [hex_digit (n div 16), hex_digit (n mod 16)]"

definition repr_char :: "char \<Rightarrow> char \<Rightarrow> string" where
  "repr_char quote c = (let n = of_char c :: nat in
     if c = quote \<or> n = 92 then [CHR 0x5C, c]
     else if n = 9 then [CHR 0x5C, CHR ''t''] else if n = 10 then [CHR 0x5C, CHR ''n'']
     else if n = 13 then [CHR 0x5C, CHR ''r'']
     else if n < 32 \<or> (127 \<le> n \<and> n \<le> 160) \<or> n = 173 then [CHR 0x5C, CHR ''x''] @ hex_pair n
     else [c])"

definition py_repr :: "string \<Rightarrow> string" where
  "py_repr s = (let quote = (if CHR 0x27 \<in> set s \<and> CHR 0x22 \<notin> set s then CHR 0x22 else CHR 0x27)
     in [quote] @ concat (map (repr_char quote) s) @ [quote])"

section \<open>Hexadecimal integers\<close>

definition hex_value :: "char \<Rightarrow> nat option" where
  "hex_value c = (let n = of_char c :: nat in
     if 48 \<le> n \<and> n \<le> 57 then Some (n - 48)
     else if 97 \<le> n \<and> n \<le> 102 then Some (n - 87)
     else if 65 \<le> n \<and> n \<le> 70 then Some (n - 55) else None)"

text \<open>Digits with single underscores between them; \<open>sep\<close> says whether one may come next.\<close>

fun hex_number :: "bool \<Rightarrow> nat \<Rightarrow> string \<Rightarrow> nat option" where
  "hex_number sep acc [] = (if sep then Some acc else None)"
| "hex_number sep acc (c # cs) =
     (if c = CHR ''_'' then (if sep then hex_number False acc cs else None)
      else case hex_value c of None \<Rightarrow> None | Some d \<Rightarrow> hex_number True (16 * acc + d) cs)"

text \<open>\<open>int(text, 16)\<close>: white space around it, a sign, the prefix \<open>0x\<close> (after which an underscore may stand).\<close>

definition py_int16 :: "string \<Rightarrow> int option" where
  "py_int16 text = (let s = strip text;
       (sign, s) = (case s of c # cs \<Rightarrow> if c = CHR ''-'' then (-1, cs) else if c = CHR ''+'' then (1, cs) else (1, s) | [] \<Rightarrow> (1, s));
       number = (case s of z # x # cs \<Rightarrow>
           if z = CHR ''0'' \<and> (x = CHR ''x'' \<or> x = CHR ''X'')
           then hex_number False 0 (case cs of u # ds \<Rightarrow> if u = CHR ''_'' then ds else cs | [] \<Rightarrow> cs)
           else hex_number False 0 s
         | _ \<Rightarrow> hex_number False 0 s)
     in map_option (\<lambda>n. sign * int n) number)"

section \<open>UUID texts\<close>

text \<open>\<open>str.replace\<close> with the empty string.\<close>

function remove_all :: "string \<Rightarrow> string \<Rightarrow> string" where
  "remove_all old s = (if old = [] \<or> s = [] then s
     else if starts_with old s then remove_all old (drop (length old) s)
     else hd s # remove_all old (tl s))"
  by auto
termination by (relation "measure (\<lambda>(old, s). length s)") (auto simp: neq_Nil_conv)

declare remove_all.simps [simp del]

definition strip_chars :: "char set \<Rightarrow> string \<Rightarrow> string" where
  "strip_chars cs s = rev (dropWhile (\<lambda>c. c \<in> cs) (rev (dropWhile (\<lambda>c. c \<in> cs) s)))"

definition py_uuid :: "string \<Rightarrow> uuid option" where
  "py_uuid text =
     (let hex = filter (\<lambda>c. c \<noteq> CHR ''-'') (strip_chars {CHR 0x7B, CHR 0x7D} (remove_all ''uuid:'' (remove_all ''urn:'' text)))
      in if length hex \<noteq> 32 then None
         else (case py_int16 hex of None \<Rightarrow> None
           | Some n \<Rightarrow> if 0 \<le> n \<and> n < 2 ^ 128 then Some (word_of_int n) else None))"

lemma hex_value_digit: "d < 16 \<Longrightarrow> hex_value (hex_digit d) = Some d"
  by (auto simp: hex_value_def hex_digit_def Let_def)

lemma of_char_hex_digit: "d < 16 \<Longrightarrow> (of_char (hex_digit d) :: nat) = (if d < 10 then 48 + d else 87 + d)"
  by (simp add: hex_digit_def)

lemma hex_digits_chars: "n < 16 ^ k \<Longrightarrow> c \<in> set (hex_digits k n) \<Longrightarrow> \<exists>d<16. c = hex_digit d"
proof (induction k arbitrary: n)
  case (Suc k)
  have "n div 16 ^ k < 16" using Suc.prems(1) by (simp add: less_mult_imp_div_less)
  then show ?case using Suc.prems Suc.IH [of "n mod 16 ^ k"] by auto
qed simp

lemma hex_digit_not: "d < 16 \<Longrightarrow> hex_digit d = c \<Longrightarrow> (48 \<le> (of_char c :: nat) \<and> (of_char c :: nat) \<le> 57) \<or> (97 \<le> (of_char c :: nat) \<and> (of_char c :: nat) \<le> 102)"
  using of_char_hex_digit [of d] by (auto split: if_splits)

lemma hex_number_digits:
  "n < 16 ^ k \<Longrightarrow> sep \<or> 0 < k \<Longrightarrow> hex_number sep acc (hex_digits k n) = Some (acc * 16 ^ k + n)"
proof (induction k arbitrary: n acc sep)
  case 0
  then show ?case by simp
next
  case (Suc k)
  have q: "n div 16 ^ k < 16" using Suc.prems(1) by (simp add: less_mult_imp_div_less)
  have dash: "hex_digit (n div 16 ^ k) \<noteq> CHR ''_''" using hex_digit_not [OF q refl] of_char_hex_digit [OF q] by auto
  have "hex_number True (16 * acc + n div 16 ^ k) (hex_digits k (n mod 16 ^ k))
      = Some ((16 * acc + n div 16 ^ k) * 16 ^ k + n mod 16 ^ k)"
    by (rule Suc.IH) simp_all
  also have "(16 * acc + n div 16 ^ k) * 16 ^ k + n mod 16 ^ k = acc * 16 ^ Suc k + (n div 16 ^ k * 16 ^ k + n mod 16 ^ k)"
    by (simp add: algebra_simps)
  also have "n div 16 ^ k * 16 ^ k + n mod 16 ^ k = n" by (rule div_mult_mod_eq)
  finally show ?case using dash hex_value_digit [OF q] by simp
qed

text \<open>The characters of a UUID's text are hexadecimal digits and dashes.\<close>

definition plain_hex :: "char \<Rightarrow> bool" where
  "plain_hex c \<longleftrightarrow> (let n = of_char c :: nat in (48 \<le> n \<and> n \<le> 57) \<or> (97 \<le> n \<and> n \<le> 102))"

lemma hex_of_plain: "c \<in> set (hex_of u) \<Longrightarrow> plain_hex c"
proof -
  assume "c \<in> set (hex_of u)"
  moreover have "unat u < 16 ^ 32" using unsigned_less [of u] by (simp add: nat_less_iff)
  ultimately obtain d where "d < 16" "c = hex_digit d" using hex_digits_chars unfolding hex_of_def by blast
  then show ?thesis using hex_digit_not [of d c] by (simp add: plain_hex_def)
qed

lemma plain_hex_not:
  "plain_hex c \<Longrightarrow> c \<noteq> CHR ''-'' \<and> c \<noteq> CHR ''+'' \<and> c \<noteq> CHR ''x'' \<and> c \<noteq> CHR ''X'' \<and> c \<noteq> CHR ''u'' \<and> c \<noteq> CHR 0x7B \<and> c \<noteq> CHR 0x7D
     \<and> \<not> is_py_space c"
  by (auto simp: plain_hex_def is_py_space_def Let_def)

lemma remove_all_absent: "c \<notin> set s \<Longrightarrow> remove_all (c # cs) s = s"
proof (induction s)
  case Nil
  show ?case by (simp add: remove_all.simps)
next
  case (Cons a s)
  then show ?case by (simp add: remove_all.simps [of "c # cs" "a # s"])
qed

lemma strip_chars_absent: "\<forall>c\<in>set s. c \<notin> cs \<Longrightarrow> strip_chars cs s = s"
proof -
  assume a: "\<forall>c\<in>set s. c \<notin> cs"
  have "dropWhile (\<lambda>c. c \<in> cs) t = t" if "\<forall>c\<in>set t. c \<notin> cs" for t using that by (cases t) auto
  from this [of s] this [of "rev s"] a show ?thesis by (simp add: strip_chars_def)
qed

lemma strip_plain: "\<forall>c\<in>set s. \<not> is_py_space c \<Longrightarrow> strip s = s"
proof -
  assume a: "\<forall>c\<in>set s. \<not> is_py_space c"
  have "dropWhile is_py_space t = t" if "\<forall>c\<in>set t. \<not> is_py_space c" for t using that by (cases t) auto
  from this [of s] this [of "rev s"] a show ?thesis by (simp add: strip_def)
qed

lemma py_int16_plain:
  assumes "\<forall>c\<in>set s. plain_hex c" and "s \<noteq> []"
  shows "py_int16 s = map_option int (hex_number False 0 s)"
proof -
  have plain: "strip s = s" by (rule strip_plain) (use assms(1) plain_hex_not in blast)
  obtain z t where s: "s = z # t" using assms(2) by (cases s) auto
  have z: "z \<noteq> CHR ''-''" "z \<noteq> CHR ''+''" using assms(1) plain_hex_not unfolding s by auto
  show ?thesis
  proof (cases t)
    case Nil
    then show ?thesis using z plain unfolding s by (simp add: py_int16_def)
  next
    case (Cons x xs)
    then have "x \<noteq> CHR ''x''" "x \<noteq> CHR ''X''" using assms(1) plain_hex_not unfolding s by auto
    then show ?thesis using Cons z plain unfolding s by (simp add: py_int16_def)
  qed
qed

lemma py_uuid_of_hex:
  assumes "filter (\<lambda>c. c \<noteq> CHR ''-'') text = hex_of u" and "\<forall>c\<in>set text. plain_hex c \<or> c = CHR ''-''"
  shows "py_uuid text = Some u"
proof -
  have n: "unat u < 16 ^ 32" using unsigned_less [of u] by (simp add: nat_less_iff)
  have "CHR ''u'' \<notin> set text" using assms(2) plain_hex_not by fastforce
  then have urn: "remove_all ''uuid:'' (remove_all ''urn:'' text) = text" by (simp add: remove_all_absent)
  have braces: "strip_chars {CHR 0x7B, CHR 0x7D} text = text"
    by (rule strip_chars_absent) (use assms(2) plain_hex_not in fastforce)
  have "hex_of u \<noteq> []" by (simp add: hex_of_def flip: length_greater_0_conv)
  then have "py_int16 (hex_of u) = Some (int (unat u))"
    using hex_of_plain hex_number_digits [OF n, of False 0] by (simp add: py_int16_plain hex_of_def)
  then have "py_uuid text = (if int (unat u) < 2 ^ 128 then Some (word_of_int (int (unat u))) else None)"
    unfolding py_uuid_def Let_def urn braces assms(1) by (simp add: hex_of_def)
  moreover have "int (unat u) < 2 ^ 128" using unsigned_less [of u] by (simp add: nat_less_iff)
  ultimately show ?thesis by simp
qed

lemma filter_dashes: "(\<And>c. c \<in> set s \<Longrightarrow> plain_hex c) \<Longrightarrow> filter (\<lambda>c. c \<noteq> CHR ''-'') s = s"
  using plain_hex_not by (simp add: filter_id_conv)

text \<open>\<open>UUID(hex=u.hex)\<close> and \<open>UUID(str(u))\<close>.\<close>

lemma py_uuid_hex: "py_uuid (hex_of u) = Some u"
  by (rule py_uuid_of_hex) (use filter_dashes hex_of_plain in auto)

lemma uuid_str_chars: "c \<in> set (uuid_str u) \<Longrightarrow> plain_hex c \<or> c = CHR ''-''"
  by (auto simp: uuid_str_def Let_def dest!: in_set_takeD in_set_dropD intro: hex_of_plain)

lemma uuid_str_dashes: "filter (\<lambda>c. c \<noteq> CHR ''-'') (uuid_str u) = hex_of u"
proof -
  let ?h = "hex_of u" and ?p = "\<lambda>c. c \<noteq> CHR ''-''"
  have part: "filter ?p (take k (drop j ?h)) = take k (drop j ?h)" for k j
    by (rule filter_dashes) (use hex_of_plain in_set_takeD in_set_dropD in metis)
  have head: "filter ?p (take 8 ?h) = take 8 ?h" "filter ?p (drop 20 ?h) = drop 20 ?h"
    by (rule filter_dashes, use hex_of_plain in_set_takeD in_set_dropD in metis)+
  have join: "take k (drop j ?h) @ drop (j + k) ?h = drop j ?h" for k j
    by (metis add.commute append_take_drop_id drop_drop)
  have "filter ?p (uuid_str u) = take 8 ?h @ take 4 (drop 8 ?h) @ take 4 (drop 12 ?h) @ take 4 (drop 16 ?h) @ drop 20 ?h"
    by (simp add: uuid_str_def Let_def part head)
  also have "\<dots> = ?h" using join [of 4 16] join [of 4 12] join [of 4 8] by simp
  finally show ?thesis .
qed

text \<open>Identifiers survive text. For every identifier, parsing its dashed text or its bare
  hexadecimal text with \<open>UUID\<close> gives it back.\<close>

theorem py_uuid_str: "py_uuid (uuid_str u) = Some u \<and> py_uuid (hex_of u) = Some u"
  using py_uuid_of_hex [OF uuid_str_dashes] uuid_str_chars py_uuid_hex by blast

end
