(* ===== verification/Versioned_Rows.thy ===== *)
theory Versioned_Rows
  imports Api_Base Python_Text
begin

text \<open>
  Optimistic concurrency (\<open>shared/concurrency.py\<close>): \<open>update_with_version\<close> writes a row only at
  the version the caller names. The interface \<open>versioned_rows\<close> is what a table must offer for
  it; inside it, the update is exact and two updates at one version cannot both succeed. The
  tables \<open>tasks\<close> and \<open>milestones\<close> (\<open>planning/models.py\<close>) offer it.
\<close>

section \<open>Milestone rows\<close>

record milestone_row =
  mr_id :: uuid
  mr_workspace :: uuid
  mr_workstream :: uuid
  mr_title :: string
  mr_deadline_date :: "date option"
  mr_deadline_at :: "instant option"
  mr_deadline_date_known :: bool
  mr_deadline_time_known :: bool
  mr_deadline_type :: string
  mr_required_buffer :: int
  mr_status :: string
  mr_version :: int

definition milestone_row_valid :: "milestone_row \<Rightarrow> bool" where
  "milestone_row_valid r \<longleftrightarrow> length (mr_title r) \<le> 200
     \<and> (mr_deadline_time_known r \<longleftrightarrow> mr_deadline_at r \<noteq> None) \<and> 0 \<le> mr_required_buffer r"

text \<open>The error of a write that the table refuses: too long a text before a violated check.\<close>

definition task_check :: "task_row \<Rightarrow> api_exn option" where
  "task_check r = (if 200 < length (tr_title r) then Some DataError
     else if \<not> task_row_valid r then Some IntegrityError else None)"

definition milestone_check :: "milestone_row \<Rightarrow> api_exn option" where
  "milestone_check r = (if 200 < length (mr_title r) then Some DataError
     else if \<not> milestone_row_valid r then Some IntegrityError else None)"

section \<open>The update\<close>

definition bad_uuid :: exn where
  "bad_uuid = ValueError ''badly formed hexadecimal UUID string''"

text \<open>\<open>bump\<close> is the assignment of the new version, \<open>check\<close> the checks of the table, \<open>values\<close> the
  other assignments; the row is found by id, version and (when given) workspace.\<close>

definition in_scope :: "uuid option \<Rightarrow> uuid \<Rightarrow> bool" where
  "in_scope ws w = (case ws of None \<Rightarrow> True | Some v \<Rightarrow> w = v)"

definition update_with_version :: "('r \<Rightarrow> uuid) \<Rightarrow> ('r \<Rightarrow> uuid) \<Rightarrow> ('r \<Rightarrow> int) \<Rightarrow> ('r \<Rightarrow> 'r) \<Rightarrow> ('r \<Rightarrow> api_exn option)
    \<Rightarrow> string \<Rightarrow> int \<Rightarrow> ('r \<Rightarrow> 'r) \<Rightarrow> uuid option \<Rightarrow> 'r list \<Rightarrow> ('r \<times> 'r list) api" where
  "update_with_version key workspace version bump check object_id expected values ws rows =
     (case py_uuid object_id of
        None \<Rightarrow> Inl (ServiceError bad_uuid)
      | Some k \<Rightarrow>
        (case find (\<lambda>r. key r = k \<and> version r = expected \<and> in_scope ws (workspace r)) rows of
           None \<Rightarrow> Inl (StaleObjectVersionError object_id expected)
         | Some r \<Rightarrow>
             (let r' = bump (values r)
              in case check r' of None \<Rightarrow> Inr (r', put_row key r' rows) | Some e \<Rightarrow> Inl e)))"

lemma row_at_member: "distinct (map key rows) \<Longrightarrow> r \<in> set rows \<Longrightarrow> row_at key (key r) rows = Some r"
proof (induction rows)
  case (Cons x rows)
  then show ?case by (cases "x = r") (auto simp: row_at_def)
qed simp

lemma row_at_Some: "row_at key k rows = Some r \<Longrightarrow> r \<in> set rows \<and> key r = k"
  by (auto simp: row_at_def find_Some_iff)

section \<open>What a versioned table offers\<close>

locale versioned_rows = row_table key get put
  for key :: "'r \<Rightarrow> uuid" and get :: "uuid \<Rightarrow> 'r list \<Rightarrow> 'r option" and put :: "'r \<Rightarrow> 'r list \<Rightarrow> 'r list" +
  fixes workspace :: "'r \<Rightarrow> uuid" and version :: "'r \<Rightarrow> int" and bump :: "'r \<Rightarrow> 'r"
  assumes get_find: "get = row_at key" and put_map: "put = put_row key"
    and bump_key: "key (bump r) = key r" and bump_workspace: "workspace (bump r) = workspace r"
    and bump_version: "version (bump r) = version r + 1"
begin

lemma find_at:
  assumes "find (\<lambda>r. key r = k \<and> P r) rows = Some r" and "distinct (map key rows)"
  shows "get k rows = Some r" and "P r" and "r \<in> set rows"
proof -
  show r: "P r" "r \<in> set rows" using assms(1) by (auto simp: find_Some_iff)
  have "key r = k" using assms(1) by (auto simp: find_Some_iff)
  then show "get k rows = Some r" using row_at_member [OF assms(2) r(2)] by (simp add: get_find)
qed

lemma update_exact:
  assumes u: "update_with_version key workspace version bump check i expected values ws rows = Inr (r', rows')"
    and ids: "distinct (map key rows)" and keep: "\<And>r. key (values r) = key r" "\<And>r. version (values r) = version r"
  shows "\<exists>k r. py_uuid i = Some k \<and> get k rows = Some r \<and> version r = expected \<and> (\<forall>w. ws = Some w \<longrightarrow> workspace r = w)
    \<and> r' = bump (values r) \<and> check r' = None \<and> rows' = put r' rows
    \<and> get k rows' = Some r' \<and> version r' = expected + 1 \<and> (\<forall>j. j \<noteq> k \<longrightarrow> get j rows' = get j rows)"
proof -
  obtain k r where k: "py_uuid i = Some k" and
    f: "find (\<lambda>r. key r = k \<and> version r = expected \<and> in_scope ws (workspace r)) rows = Some r"
    and r': "r' = bump (values r)" "check r' = None" "rows' = put_row key r' rows"
    using u unfolding update_with_version_def Let_def
    by (auto split: option.splits if_splits)
  note at = find_at [OF f ids]
  have key: "key r' = k" using get_key [OF at(1)] by (simp add: r'(1) bump_key keep)
  have "get k rows' = Some r'" "\<And>j. j \<noteq> k \<Longrightarrow> get j rows' = get j rows"
    using modify_frame [OF at(1), of r'] key get_key [OF at(1)] by (simp_all add: r'(3) put_map)
  then show ?thesis using k at r' by (auto simp: put_map bump_version keep in_scope_def)
qed

text \<open>After an update at a version, every other update at this version finds the row changed.\<close>

lemma second_update_stale:
  assumes u: "update_with_version key workspace version bump check i expected values ws rows = Inr (r', rows')"
    and ids: "distinct (map key rows)" and keep: "\<And>r. key (values r) = key r" "\<And>r. version (values r) = version r"
    and same: "py_uuid j = py_uuid i"
  shows "update_with_version key workspace version bump check' j expected values' ws' rows'
    = Inl (StaleObjectVersionError j expected)"
proof -
  from update_exact [OF u ids keep] obtain k r where k: "py_uuid i = Some k" "get k rows' = Some r'" "version r' = expected + 1"
    "rows' = put r' rows" by (elim exE conjE)
  have "distinct (map key rows')" using ids by (simp add: k(4) put_map)
  note dist = this
  have "version q = expected + 1" if q: "q \<in> set rows'" "key q = k" for q
  proof -
    have "row_at key k rows' = Some q" using row_at_member [OF dist q(1)] q(2) by simp
    then have "q = r'" using k(2) by (simp add: get_find)
    then show ?thesis using k(3) by simp
  qed
  then have "find (\<lambda>r. key r = k \<and> version r = expected \<and> in_scope ws' (workspace r)) rows' = None"
    unfolding find_None_iff by (metis add_cancel_left_right zero_neq_one)
  then show ?thesis using k(1) same by (simp add: update_with_version_def)
qed

end

definition bump_task :: "task_row \<Rightarrow> task_row" where
  "bump_task r = r\<lparr>tr_version := tr_version r + 1\<rparr>"

definition bump_milestone :: "milestone_row \<Rightarrow> milestone_row" where
  "bump_milestone r = r\<lparr>mr_version := mr_version r + 1\<rparr>"

interpretation versioned_tasks: versioned_rows tr_id "row_at tr_id" "put_row tr_id" tr_workspace tr_version bump_task
  by unfold_locales (simp_all add: bump_task_def)

interpretation versioned_milestones: versioned_rows mr_id "row_at mr_id" "put_row mr_id" mr_workspace mr_version bump_milestone
  by unfold_locales
    ((fact row_at_key row_at_put_same row_at_put_absent row_at_put_other)+, simp_all add: bump_milestone_def)

abbreviation update_task_row :: "string \<Rightarrow> int \<Rightarrow> (task_row \<Rightarrow> task_row) \<Rightarrow> uuid option \<Rightarrow> task_row list
    \<Rightarrow> (task_row \<times> task_row list) api" where
  "update_task_row \<equiv> update_with_version tr_id tr_workspace tr_version bump_task task_check"

abbreviation update_milestone_row :: "string \<Rightarrow> int \<Rightarrow> (milestone_row \<Rightarrow> milestone_row) \<Rightarrow> uuid option
    \<Rightarrow> milestone_row list \<Rightarrow> (milestone_row \<times> milestone_row list) api" where
  "update_milestone_row \<equiv> update_with_version mr_id mr_workspace mr_version bump_milestone milestone_check"

text \<open>No update is lost. When an update of a task at some version succeeds, the task was in the workspace
  at exactly this version, the stored row is the new one at the next version, no other row
  changes, and every later update of the same task that names the old version fails as stale,
  whatever it wants to write.\<close>

theorem task_update_not_lost:
  assumes "update_task_row i expected values (Some w) rows = Inr (r', rows')"
    and "distinct (map tr_id rows)" and "\<And>r. tr_id (values r) = tr_id r" and "\<And>r. tr_version (values r) = tr_version r"
  shows "(\<exists>k r. py_uuid i = Some k \<and> row_at tr_id k rows = Some r \<and> tr_version r = expected \<and> tr_workspace r = w
      \<and> r' = bump_task (values r) \<and> row_at tr_id k rows' = Some r' \<and> tr_version r' = expected + 1
      \<and> (\<forall>j. j \<noteq> k \<longrightarrow> row_at tr_id j rows' = row_at tr_id j rows))
    \<and> update_task_row i expected values' ws' rows' = Inl (StaleObjectVersionError i expected)"
  using versioned_tasks.update_exact [OF assms] versioned_tasks.second_update_stale [OF assms refl] by blast

lemma task_update_not_lost_witness:
  "\<exists>r' rows'. update_task_row (uuid_str 2) 7 (\<lambda>r. r\<lparr>tr_title := ''New''\<rparr>) (Some 3) [a_task] = Inr (r', rows')
     \<and> update_task_row (uuid_str 2) 7 (\<lambda>r. r\<lparr>tr_title := ''Newer''\<rparr>) (Some 3) rows'
       = Inl (StaleObjectVersionError (uuid_str 2) 7)"
proof -
  have "\<exists>r' rows'. update_task_row (uuid_str 2) 7 (\<lambda>r. r\<lparr>tr_title := ''New''\<rparr>) (Some 3) [a_task] = Inr (r', rows')"
    using py_uuid_str [of 2]
    by (simp add: update_with_version_def a_task_def in_scope_def bump_task_def task_check_def task_row_valid_def Let_def)
  then obtain r' rows' where u: "update_task_row (uuid_str 2) 7 (\<lambda>r. r\<lparr>tr_title := ''New''\<rparr>) (Some 3) [a_task] = Inr (r', rows')"
    by blast
  from task_update_not_lost [OF u] u show ?thesis by auto
qed

end
