(* ===== verification/Workspace_Service.thy ===== *)
theory Workspace_Service
  imports Task_Machine Proposal_Service Versioned_Rows
begin

text \<open>
  Commands on tasks and milestones (\<open>workspaces/service.py\<close> and the task update of
  \<open>planning/router.py\<close>): the transition of a stored task through the planner's state machine
  with an optimistic version check and an audit event in one transaction, the change of a title,
  and the change of a milestone's deadline, which for a hard deadline only creates a proposal.
  The results: a transition refines the domain state machine, its errors, what a deadline change
  writes, and two states these commands can produce that later commands cannot handle.
\<close>

section \<open>Snapshots of stored tasks\<close>

definition all_task_statuses :: "task_status list" where
  "all_task_statuses = [DRAFT, PLANNED, READY, IN_PROGRESS, WAITING, BLOCKED, DONE, DEFERRED, CANCELLED]"

definition task_status_of :: "string \<Rightarrow> task_status res" where
  "task_status_of s = (case find (\<lambda>x. task_status_value x = s) all_task_statuses of
     Some x \<Rightarrow> Inr x | None \<Rightarrow> Inl (ValueError (py_repr s @ '' is not a valid TaskStatus'')))"

definition uncertainty_of :: "string \<Rightarrow> uncertainty res" where
  "uncertainty_of s = (case find (\<lambda>x. uncertainty_value x = s) [LOW_U, MEDIUM_U, HIGH_U] of
     Some x \<Rightarrow> Inr x | None \<Rightarrow> Inl (ValueError (py_repr s @ '' is not a valid Uncertainty'')))"

definition snapshot_of_row :: "task_row \<Rightarrow> task_status \<Rightarrow> uncertainty \<Rightarrow> task" where
  "snapshot_of_row m status uncertain =
     \<lparr>ts_id = TaskId (tr_id m), ts_workspace = WorkspaceId (tr_workspace m), ts_workstream = WorkstreamId (tr_workstream m),
      ts_milestone = map_option MilestoneId (tr_milestone m), ts_title = tr_title m, ts_status = status,
      ts_deadline_date = tr_deadline_date m, ts_deadline_at = tr_deadline_at m,
      ts_deadline_time_known = tr_deadline_time_known m, ts_start_after = tr_start_after m,
      ts_base_duration = tr_base_duration m, ts_safety_duration = tr_safety_duration m,
      ts_remaining_base = tr_remaining_base m, ts_remaining_safety = tr_remaining_safety m,
      ts_uncertainty = uncertain, ts_splittable = tr_splittable m, ts_min_chunk = tr_min_chunk m,
      ts_pinned = tr_pinned m, ts_waiting_reason = tr_waiting_reason m, ts_version = tr_version m\<rparr>"

definition snapshot_from_model :: "task_row \<Rightarrow> task res" where
  "snapshot_from_model m =
     rbind (task_status_of (tr_status m)) (\<lambda>status.
     rbind (uncertainty_of (tr_uncertainty m)) (\<lambda>uncertain.
     mk_task aware_instant (snapshot_of_row m status uncertain)))"

section \<open>Transitions\<close>

definition map_domain_value_error :: "string \<Rightarrow> api_exn" where
  "map_domain_value_error message =
     (if contains ''remaining'' message then DomainRuleError ''TASK_HAS_REMAINING_TIME'' message
      else if contains ''not allowed'' message then DomainRuleError ''INVALID_TRANSITION'' message
      else if contains ''waiting'' message then DomainRuleError ''WAITING_CONDITION_UNSATISFIED'' message
      else DomainRuleError ''DOMAIN_RULE_VIOLATED'' message)"

record task_transition_request =
  rq_expected_version :: int
  rq_target_status :: string
  rq_args :: transition_args

record workspace_db = approval_db +
  db_milestones :: "milestone_row list"

definition owned_task :: "uuid \<Rightarrow> string \<Rightarrow> workspace_db \<Rightarrow> task_row api" where
  "owned_task ws i db = (case py_uuid i of None \<Rightarrow> Inl (ServiceError bad_uuid)
     | Some k \<Rightarrow> (case owned_row tr_id tr_workspace ws k (db_tasks db) of
         None \<Rightarrow> Inl NotFoundError | Some r \<Rightarrow> Inr r))"

text \<open>\<open>AuditRepository.append\<close>; \<open>String(64)\<close> bounds the entity id.\<close>

definition append_audit :: "audit_row \<Rightarrow> 'a approval_db_scheme \<Rightarrow> 'a approval_db_scheme api" where
  "append_audit row db = (if 64 < length (au_entity_id row) then Inl DataError
     else Inr (db\<lparr>db_audit := db_audit db @ [row]\<rparr>))"

definition apply_candidate :: "task \<Rightarrow> task_row \<Rightarrow> task_row" where
  "apply_candidate c r = r\<lparr>tr_status := task_status_value (ts_status c), tr_waiting_reason := ts_waiting_reason c,
     tr_remaining_base := ts_remaining_base c, tr_remaining_safety := ts_remaining_safety c\<rparr>"

definition transition_audit :: "current_actor \<Rightarrow> string \<Rightarrow> task \<Rightarrow> task \<Rightarrow> instant \<Rightarrow> audit_row" where
  "transition_audit actor i before after now =
     \<lparr>au_workspace = ac_workspace actor, au_actor = Some (ac_user actor), au_entity_kind = ''task'', au_entity_id = i,
      au_before = JObj [(''status'', JStr (task_status_value (ts_status before)))],
      au_after = JObj [(''status'', JStr (task_status_value (ts_status after)))],
      au_reason = ''task.transition:'' @ task_status_value (ts_status after), au_rule_basis = [''REQ-CORE-004''],
      au_approval = None, au_trace = ''sess:'' @ uuid_str (ac_session actor), au_reversible = True,
      au_occurred_at = now\<rparr>"

definition service_transition_task :: "instant \<Rightarrow> current_actor \<Rightarrow> string \<Rightarrow> task_transition_request \<Rightarrow> workspace_db
    \<Rightarrow> (task_row \<times> workspace_db) api" where
  "service_transition_task now actor i request db =
     (case owned_task (ac_workspace actor) i db of
        Inl e \<Rightarrow> Inl e
      | Inr existing \<Rightarrow>
      (case snapshot_from_model existing of
        Inl e \<Rightarrow> Inl (ServiceError e)
      | Inr snapshot \<Rightarrow>
      (case rbind (task_status_of (rq_target_status request)) (\<lambda>target. transition_task snapshot target (rq_args request)) of
        Inl (ValueError message) \<Rightarrow> Inl (map_domain_value_error message)
      | Inl e \<Rightarrow> Inl (ServiceError e)
      | Inr candidate \<Rightarrow>
      (case update_task_row i (rq_expected_version request) (apply_candidate candidate) (Some (ac_workspace actor)) (db_tasks db) of
        Inl e \<Rightarrow> Inl e
      | Inr (updated, tasks) \<Rightarrow>
      (case append_audit (transition_audit actor i snapshot candidate now) (db\<lparr>db_tasks := tasks\<rparr>) of
        Inl e \<Rightarrow> Inl e
      | Inr db' \<Rightarrow> Inr (updated, db'))))))"

section \<open>The title\<close>

text \<open>
  \<open>PATCH /tasks/{id}\<close> (\<open>update_task\<close> of \<open>planning/router.py\<close>). The audit event reads
  \<open>existing.title\<close> after the update; \<open>existing\<close> is the session's object of the updated row, into which
  the ORM writes the new values (\<open>synchronize_session\<close>), so it is the new title that is read.
\<close>

definition update_task :: "instant \<Rightarrow> current_actor \<Rightarrow> string \<Rightarrow> int \<Rightarrow> string option \<Rightarrow> workspace_db
    \<Rightarrow> (task_row \<times> workspace_db) api" where
  "update_task now actor i expected title db =
     (case owned_task (ac_workspace actor) i db of
        Inl e \<Rightarrow> Inl e
      | Inr existing \<Rightarrow>
      (case update_task_row i expected (\<lambda>r. case title of None \<Rightarrow> r | Some s \<Rightarrow> r\<lparr>tr_title := s\<rparr>)
          (Some (ac_workspace actor)) (db_tasks db) of
        Inl e \<Rightarrow> Inl e
      | Inr (updated, tasks) \<Rightarrow>
      (case append_audit \<lparr>au_workspace = ac_workspace actor, au_actor = Some (ac_user actor), au_entity_kind = ''task'',
          au_entity_id = i, au_before = JObj [(''title'', JStr (tr_title updated))],
          au_after = JObj (case title of None \<Rightarrow> [] | Some s \<Rightarrow> [(''title'', JStr s)]),
          au_reason = ''task.update:'' @ (case title of None \<Rightarrow> [] | Some s \<Rightarrow> ''title''), au_rule_basis = [''REQ-CORE-014''],
          au_approval = None, au_trace = ''sess:'' @ uuid_str (ac_session actor), au_reversible = True,
          au_occurred_at = now\<rparr> (db\<lparr>db_tasks := tasks\<rparr>) of
        Inl e \<Rightarrow> Inl e
      | Inr db' \<Rightarrow> Inr (updated, db'))))"

section \<open>Deadlines of milestones\<close>

definition owned_milestone :: "uuid \<Rightarrow> string \<Rightarrow> workspace_db \<Rightarrow> milestone_row api" where
  "owned_milestone ws i db = (case py_uuid i of None \<Rightarrow> Inl (ServiceError bad_uuid)
     | Some k \<Rightarrow> (case owned_row mr_id mr_workspace ws k (db_milestones db) of
         None \<Rightarrow> Inl NotFoundError | Some r \<Rightarrow> Inr r))"

definition deadline_payload :: "date option \<Rightarrow> json" where
  "deadline_payload d = JObj [(''deadline_date'', json_opt json_date d)]"

definition deadline_proposal :: "(nat list \<Rightarrow> string) \<Rightarrow> uuid \<Rightarrow> uuid \<Rightarrow> milestone_row \<Rightarrow> int \<Rightarrow> date option \<Rightarrow> proposal_row" where
  "deadline_proposal sha256 new_id ws m expected d =
     \<lparr>pm_id = new_id, pm_workspace = ws, pm_kind = ''CHANGE_HARD_DEADLINE'', pm_level = ''RECONFIRM'',
      pm_payload_hash = sha256 (utf8 (dumps (deadline_payload d))),
      pm_targets = JList [JObj [(''object_kind'', JStr ''milestone''), (''object_id'', JStr (uuid_str (mr_id m))),
        (''expected_version'', JInt expected)]],
      pm_status = ''pending'', pm_version = 1, pm_milestone = Some (mr_id m), pm_minutes = 0, pm_resolved_at = None\<rparr>"

definition deadline_audit :: "current_actor \<Rightarrow> string \<Rightarrow> json \<Rightarrow> json \<Rightarrow> string \<Rightarrow> string list \<Rightarrow> instant \<Rightarrow> audit_row" where
  "deadline_audit actor i before after reason basis now =
     \<lparr>au_workspace = ac_workspace actor, au_actor = Some (ac_user actor), au_entity_kind = ''milestone'', au_entity_id = i,
      au_before = before, au_after = after, au_reason = reason, au_rule_basis = basis, au_approval = None,
      au_trace = ''sess:'' @ uuid_str (ac_session actor), au_reversible = True, au_occurred_at = now\<rparr>"

definition request_milestone_deadline_change :: "(nat list \<Rightarrow> string) \<Rightarrow> instant \<Rightarrow> uuid \<Rightarrow> current_actor \<Rightarrow> string \<Rightarrow> int
    \<Rightarrow> date option \<Rightarrow> workspace_db \<Rightarrow> ((milestone_row option \<times> proposal_row option) \<times> workspace_db) api" where
  "request_milestone_deadline_change sha256 now new_id actor i expected d db =
     (case owned_milestone (ac_workspace actor) i db of
        Inl e \<Rightarrow> Inl e
      | Inr m \<Rightarrow>
        if mr_deadline_type m = ''hard_deadline'' then
          (let proposal = deadline_proposal sha256 new_id (ac_workspace actor) m expected d in
           if new_id \<in> set (map pm_id (db_proposals db)) then Inl IntegrityError
           else (case append_audit (deadline_audit actor i (deadline_payload (mr_deadline_date m)) (deadline_payload d)
                 ''proposal.created:CHANGE_HARD_DEADLINE'' [''REQ-CORE-009'', ''SAFE-001''] now)
               (db\<lparr>db_proposals := db_proposals db @ [proposal]\<rparr>) of
               Inl e \<Rightarrow> Inl e
             | Inr db' \<Rightarrow> Inr ((None, Some proposal), db')))
        else
          (case update_milestone_row i expected (\<lambda>r. r\<lparr>mr_deadline_date := d\<rparr>) (Some (ac_workspace actor)) (db_milestones db) of
             Inl e \<Rightarrow> Inl e
           | Inr (updated, milestones) \<Rightarrow>
             (case append_audit (deadline_audit actor i JNull (deadline_payload d)
                 ''milestone.deadline_changed:soft_goal'' [''REQ-CORE-009''] now) (db\<lparr>db_milestones := milestones\<rparr>) of
               Inl e \<Rightarrow> Inl e
             | Inr db' \<Rightarrow> Inr ((Some updated, None), db'))))"

section \<open>A transition refines the state machine\<close>

lemma task_status_of_value: "task_status_of (task_status_value s) = Inr s"
  by (cases s) (simp_all add: task_status_of_def all_task_statuses_def)

lemma uncertainty_of_value: "uncertainty_of (uncertainty_value u) = Inr u"
  by (cases u) (simp_all add: uncertainty_of_def)

lemma task_status_of_Inr: "task_status_of s = Inr x \<Longrightarrow> task_status_value x = s"
  by (auto simp: task_status_of_def find_Some_iff split: option.splits)

lemma uncertainty_of_Inr: "uncertainty_of s = Inr u \<Longrightarrow> uncertainty_value u = s"
  by (auto simp: uncertainty_of_def split: option.splits if_splits)

lemma snapshot_from_model_Inr:
  "snapshot_from_model m = Inr t \<longleftrightarrow>
     (\<exists>status u. task_status_value status = tr_status m \<and> uncertainty_value u = tr_uncertainty m
        \<and> t = snapshot_of_row m status u \<and> wf_task t)"
  unfolding snapshot_from_model_def rbind_Inr_iff mk_task_instant
  using task_status_of_value uncertainty_of_value task_status_of_Inr uncertainty_of_Inr by metis

text \<open>The row a candidate is written to, read back as a snapshot, is the candidate.\<close>

lemma candidate_read_back:
  assumes snap: "snapshot_from_model r = Inr t" and step: "transition_task t target a = Inr c"
  shows "snapshot_from_model (bump_task (apply_candidate c r)) = Inr c"
proof -
  obtain status u where s: "task_status_value status = tr_status r" "uncertainty_value u = tr_uncertainty r"
    "t = snapshot_of_row r status u" "wf_task t" using snap unfolding snapshot_from_model_Inr by blast
  have c: "c = after_transition t target a" "transition_enabled t target a"
    using step transition_task_Inr_iff [OF s(4)] by simp_all
  then have wf: "wf_task c" using after_transition_wf [OF s(4)] by simp
  have "snapshot_of_row (bump_task (apply_candidate c r)) (ts_status c) u = c"
    by (simp add: snapshot_of_row_def bump_task_def apply_candidate_def c(1) after_transition_def s(3))
  moreover have "tr_status (bump_task (apply_candidate c r)) = task_status_value (ts_status c)"
    "tr_uncertainty (bump_task (apply_candidate c r)) = tr_uncertainty r"
    by (simp_all add: bump_task_def apply_candidate_def)
  ultimately show ?thesis unfolding snapshot_from_model_Inr using s(2) wf by metis
qed

text \<open>C17. A stored transition refines the domain state machine. When the service accepts a transition, the
  stored row was the one of the actor's workspace at the version the request names, the planner's
  \<open>transition_task\<close> accepts the same transition of its snapshot, and the row that is stored reads
  back as exactly the snapshot that \<open>transition_task\<close> returned (version included); no other task
  changes, and exactly one audit event, naming the old and the new status, is added.\<close>

theorem service_transition_refines:
  assumes ok: "service_transition_task now actor i request db = Inr (updated, db')"
    and ids: "distinct (map tr_id (db_tasks db))"
  shows "\<exists>k r t target c. py_uuid i = Some k \<and> row_at tr_id k (db_tasks db) = Some r
    \<and> tr_workspace r = ac_workspace actor \<and> tr_version r = rq_expected_version request
    \<and> snapshot_from_model r = Inr t \<and> task_status_value target = rq_target_status request
    \<and> transition_task t target (rq_args request) = Inr c
    \<and> row_at tr_id k (db_tasks db') = Some updated \<and> snapshot_from_model updated = Inr c
    \<and> (\<forall>j. j \<noteq> k \<longrightarrow> row_at tr_id j (db_tasks db') = row_at tr_id j (db_tasks db))
    \<and> db' = db\<lparr>db_tasks := db_tasks db', db_audit := db_audit db @ [transition_audit actor i t c now]\<rparr>"
proof -
  obtain r where r: "owned_task (ac_workspace actor) i db = Inr r"
    using ok unfolding service_transition_task_def by (cases "owned_task (ac_workspace actor) i db") simp_all
  obtain t where t: "snapshot_from_model r = Inr t"
    using ok r unfolding service_transition_task_def by (cases "snapshot_from_model r") simp_all
  let ?next = "rbind (task_status_of (rq_target_status request)) (\<lambda>target. transition_task t target (rq_args request))"
  obtain c where c: "?next = Inr c"
    using ok r t unfolding service_transition_task_def by (cases ?next) (simp_all split: exn.splits)
  then obtain target where target: "task_status_value target = rq_target_status request"
    "transition_task t target (rq_args request) = Inr c" using task_status_of_Inr by (auto simp: rbind_Inr_iff)
  let ?update = "update_task_row i (rq_expected_version request) (apply_candidate c) (Some (ac_workspace actor)) (db_tasks db)"
  obtain u tasks where u: "?update = Inr (u, tasks)"
    using ok r t c unfolding service_transition_task_def by (cases ?update) (auto split: prod.splits)
  have final: "append_audit (transition_audit actor i t c now) (db\<lparr>db_tasks := tasks\<rparr>) = Inr db'" "updated = u"
    using ok r t c u unfolding service_transition_task_def by (auto split: sum.splits)
  then have db': "db' = db\<lparr>db_tasks := tasks, db_audit := db_audit db @ [transition_audit actor i t c now]\<rparr>"
    by (auto simp: append_audit_def split: if_splits)
  have "tr_id (apply_candidate c x) = tr_id x" "tr_version (apply_candidate c x) = tr_version x" for x
    by (simp_all add: apply_candidate_def)
  from versioned_tasks.update_exact [OF u ids this] obtain k q where k: "py_uuid i = Some k"
    "row_at tr_id k (db_tasks db) = Some q" "tr_version q = rq_expected_version request"
    "\<forall>w. Some (ac_workspace actor) = Some w \<longrightarrow> tr_workspace q = w" "u = bump_task (apply_candidate c q)"
    "row_at tr_id k tasks = Some u" "\<forall>j. j \<noteq> k \<longrightarrow> row_at tr_id j tasks = row_at tr_id j (db_tasks db)"
    by (elim exE conjE)
  have "owned_row tr_id tr_workspace (ac_workspace actor) k (db_tasks db) = Some r"
    using r k(1) by (auto simp: owned_task_def split: option.splits)
  from owned_row_at [OF ids this] k(2) have q: "q = r" by simp
  have "snapshot_from_model u = Inr c" using candidate_read_back [OF t target(2)] k(5) q by simp
  then show ?thesis using k q t target final(2) db' by auto
qed

section \<open>Refused transitions\<close>

definition refusal_code :: "task \<Rightarrow> task_status \<Rightarrow> transition_args \<Rightarrow> string" where
  "refusal_code t target a =
     (if target \<notin> set (allowed_transitions (ts_status t)) then ''INVALID_TRANSITION''
      else if ts_status t = WAITING \<and> target = READY \<and> \<not> waiting_resolved a then ''WAITING_CONDITION_UNSATISFIED''
      else if ts_status t = BLOCKED \<and> target = READY \<and> \<not> blocker_resolved a then ''DOMAIN_RULE_VIOLATED''
      else if target = DONE \<and> \<not> completion_confirmed a then ''DOMAIN_RULE_VIOLATED''
      else if target = DONE then ''TASK_HAS_REMAINING_TIME''
      else ''WAITING_CONDITION_UNSATISFIED'')"

text \<open>No status text contains a word the mapping looks for before "not allowed".\<close>

lemma contains_step: "contains needle (c # s) \<longleftrightarrow> starts_with needle (c # s) \<or> contains needle s"
  by simp

lemma status_no_r: "contains ''remaining'' (task_status_value s @ rest) \<longleftrightarrow> contains ''remaining'' rest"
  if "\<not> starts_with ''emaining'' rest" "\<not> starts_with ''maining'' rest" for rest
  using that by (cases s; cases rest) auto

lemma not_allowed_message:
  "\<not> contains ''remaining'' (''transition '' @ task_status_value s @ '' -> '' @ task_status_value t @ '' is not allowed'')"
  "contains ''not allowed'' (''transition '' @ task_status_value s @ '' -> '' @ task_status_value t @ '' is not allowed'')"
proof -
  have "\<not> contains ''remaining'' (task_status_value t @ '' is not allowed'')" by (cases t) simp_all
  then have "\<not> contains ''remaining'' ('' -> '' @ task_status_value t @ '' is not allowed'')" by simp
  then have "\<not> contains ''remaining'' (task_status_value s @ '' -> '' @ task_status_value t @ '' is not allowed'')"
    by (cases s) simp_all
  then show "\<not> contains ''remaining'' (''transition '' @ task_status_value s @ '' -> '' @ task_status_value t @ '' is not allowed'')"
    by simp
  show "contains ''not allowed'' (''transition '' @ task_status_value s @ '' -> '' @ task_status_value t @ '' is not allowed'')"
    using contains_append [of "''not allowed''" "''transition '' @ task_status_value s @ '' -> '' @ task_status_value t @ '' is ''" "[]"]
    by simp
qed

lemma refused_transition:
  assumes "wf_task t" and "\<not> transition_enabled t target a"
  shows "\<exists>m. transition_task t target a = Inl (ValueError m)
    \<and> (\<exists>msg. map_domain_value_error m = DomainRuleError (refusal_code t target a) msg)"
proof (cases "target \<in> set (allowed_transitions (ts_status t))")
  case False
  then show ?thesis using not_allowed_message
    by (simp add: transition_task_def refusal_code_def map_domain_value_error_def res_simps)
next
  case True
  note in_table = True
  show ?thesis
  proof (cases "target = WAITING")
    case True
    then have "requested_reason a t = None" using assms(2) in_table by (auto simp: transition_enabled_def)
    then show ?thesis using True in_table
      by (intro exI [of _ "''waiting reason required to enter waiting''"])
        (simp add: transition_task_def refusal_code_def map_domain_value_error_def next_reason_def res_simps)
  next
    case False
    then show ?thesis using in_table assms(2)
      by (auto simp: transition_task_def transition_enabled_def refusal_code_def map_domain_value_error_def res_simps)
  qed
qed

text \<open>A refused transition says why. When the stored task and the requested status are readable but the
  state machine does not allow the transition, the service fails with the domain rule error whose
  code names the first violated guard (not in the table, waiting unresolved, blocker unresolved,
  completion unconfirmed, remaining work, no waiting reason), whatever version the request names.\<close>

theorem refused_transition_code:
  assumes "owned_task (ac_workspace actor) i db = Inr r" and "snapshot_from_model r = Inr t"
    and "task_status_of (rq_target_status request) = Inr target" and "\<not> transition_enabled t target (rq_args request)"
  shows "\<exists>m. service_transition_task now actor i request db = Inl (DomainRuleError (refusal_code t target (rq_args request)) m)"
proof -
  have "wf_task t" using assms(2) snapshot_from_model_Inr by blast
  from refused_transition [OF this assms(4)] obtain m msg where
    m: "transition_task t target (rq_args request) = Inl (ValueError m)"
      "map_domain_value_error m = DomainRuleError (refusal_code t target (rq_args request)) msg" by blast
  then show ?thesis using assms(1-3) by (simp add: service_transition_task_def)
qed

section \<open>What a deadline change writes\<close>

text \<open>A hard deadline is never edited directly. A request to change the deadline of a milestone with a hard
  deadline leaves every milestone and task as it is and adds one fresh pending proposal at level
  \<open>RECONFIRM\<close> for it; for any other milestone no proposal appears and exactly that milestone, at
  the version named, gets the new date.\<close>

theorem deadline_change_effect:
  assumes ok: "request_milestone_deadline_change sha256 now new_id actor i expected d db = Inr ((applied, proposal), db')"
    and m: "owned_milestone (ac_workspace actor) i db = Inr m" and ids: "distinct (map mr_id (db_milestones db))"
  shows "db_tasks db' = db_tasks db
    \<and> (mr_deadline_type m = ''hard_deadline'' \<longrightarrow> applied = None \<and> db_milestones db' = db_milestones db
        \<and> (\<exists>p. proposal = Some p \<and> p = deadline_proposal sha256 new_id (ac_workspace actor) m expected d
           \<and> pm_status p = ''pending'' \<and> pm_level p = ''RECONFIRM'' \<and> pm_milestone p = Some (mr_id m)
           \<and> new_id \<notin> set (map pm_id (db_proposals db)) \<and> db_proposals db' = db_proposals db @ [p]))
    \<and> (mr_deadline_type m \<noteq> ''hard_deadline'' \<longrightarrow> proposal = None \<and> db_proposals db' = db_proposals db
        \<and> mr_version m = expected \<and> applied = Some (bump_milestone (m\<lparr>mr_deadline_date := d\<rparr>))
        \<and> db_milestones db' = put_row mr_id (bump_milestone (m\<lparr>mr_deadline_date := d\<rparr>)) (db_milestones db))"
proof (cases "mr_deadline_type m = ''hard_deadline''")
  case True
  then show ?thesis using ok m
    by (auto simp: request_milestone_deadline_change_def append_audit_def deadline_proposal_def Let_def split: if_splits)
next
  case False
  let ?update = "update_milestone_row i expected (\<lambda>r. r\<lparr>mr_deadline_date := d\<rparr>) (Some (ac_workspace actor)) (db_milestones db)"
  obtain u ms where u: "?update = Inr (u, ms)"
    using ok m False unfolding request_milestone_deadline_change_def by (cases ?update) (auto split: prod.splits)
  have final: "applied = Some u" "proposal = None" "db_milestones db' = ms" "db_proposals db' = db_proposals db"
      "db_tasks db' = db_tasks db"
    using ok m False u by (auto simp: request_milestone_deadline_change_def append_audit_def split: if_splits)
  have "mr_id (r\<lparr>mr_deadline_date := d\<rparr>) = mr_id r" "mr_version (r\<lparr>mr_deadline_date := d\<rparr>) = mr_version r" for r by simp_all
  from versioned_milestones.update_exact [OF u ids this] obtain k q where k: "py_uuid i = Some k"
    "row_at mr_id k (db_milestones db) = Some q" "mr_version q = expected" "u = bump_milestone (q\<lparr>mr_deadline_date := d\<rparr>)"
    "ms = put_row mr_id u (db_milestones db)" by (elim exE conjE)
  have "owned_row mr_id mr_workspace (ac_workspace actor) k (db_milestones db) = Some m"
    using m k(1) by (auto simp: owned_milestone_def split: option.splits)
  from owned_row_at [OF ids this] k(2) have "q = m" by simp
  then show ?thesis using False final k by simp
qed

section \<open>A hard-deadline proposal cannot be decided\<close>

text \<open>
  The proposal stores the hash of \<open>{"deadline_date": \<dots>}\<close>, and the approval service compares it
  with the hash of the stored targets, which are another text.
\<close>

lemma deadline_texts_differ:
  "utf8 (dumps (pm_targets (deadline_proposal sha256 new_id ws m expected d))) \<noteq> utf8 (dumps (deadline_payload d))"
  by (simp add: deadline_proposal_def deadline_payload_def)

lemma fresh_proposal_owned:
  assumes "db_proposals db = before @ [p]" and "pm_workspace p = ac_workspace actor" and "pm_id p \<notin> set (map pm_id before)"
  shows "owned_proposal py_uuid actor (uuid_str (pm_id p)) db = Some p"
proof -
  have "find (\<lambda>r. pm_id r = pm_id p \<and> pm_workspace r = ac_workspace actor) (before @ [p]) = Some p"
    using assms(2,3) by (induction before) auto
  then show ?thesis using assms(1) py_uuid_str [of "pm_id p"] by (simp add: owned_proposal_def owned_row_def)
qed

text \<open>A proposal to change a hard deadline can be neither approved nor rejected: once the request has
  stored it, as long as the hash tells the two stored texts apart, \<open>approve\<close> and \<open>reject\<close> at its
  version both answer \<open>CONFLICT\<close> with \<open>PAYLOAD_HASH_MISMATCH\<close> and change nothing.\<close>

theorem deadline_proposal_undecidable:
  assumes ok: "request_milestone_deadline_change sha256 now new_id actor i expected d db = Inr ((None, Some p), db')"
    and hash: "sha256 (utf8 (dumps (pm_targets p))) = sha256 (utf8 (dumps (deadline_payload d)))
      \<longrightarrow> utf8 (dumps (pm_targets p)) = utf8 (dumps (deadline_payload d))"
  shows "approve sha256 py_uuid now' aid actor (uuid_str new_id) 1 (approval_db.truncate db')
      = Inr (outcome ''CONFLICT'' None (Some ''PAYLOAD_HASH_MISMATCH'') ''RECONFIRM'', approval_db.truncate db')
    \<and> reject sha256 py_uuid now' aid actor (uuid_str new_id) 1 (approval_db.truncate db')
      = Inr (outcome ''CONFLICT'' None (Some ''PAYLOAD_HASH_MISMATCH'') ''RECONFIRM'', approval_db.truncate db')"
proof -
  obtain m where m: "owned_milestone (ac_workspace actor) i db = Inr m"
    using ok unfolding request_milestone_deadline_change_def by (cases "owned_milestone (ac_workspace actor) i db") simp_all
  have hard: "mr_deadline_type m = ''hard_deadline''"
    using ok m by (auto simp: request_milestone_deadline_change_def split: if_splits sum.splits prod.splits)
  then have p: "p = deadline_proposal sha256 new_id (ac_workspace actor) m expected d"
    "new_id \<notin> set (map pm_id (db_proposals db))" "db_proposals db' = db_proposals db @ [p]"
    using ok m by (auto simp: request_milestone_deadline_change_def append_audit_def Let_def split: if_splits)
  have row: "pm_id p = new_id" "pm_workspace p = ac_workspace actor" "pm_status p = ''pending''" "pm_version p = 1"
    "pm_level p = ''RECONFIRM''" "pm_payload_hash p = sha256 (utf8 (dumps (deadline_payload d)))"
    by (simp_all add: p(1) deadline_proposal_def)
  have "db_proposals (approval_db.truncate db') = db_proposals db @ [p]" using p(3) by (simp add: approval_db.defs)
  then have owned: "owned_proposal py_uuid actor (uuid_str new_id) (approval_db.truncate db') = Some p"
    using fresh_proposal_owned row(1,2) p(2) by blast
  have "\<not> hash_matches sha256 p"
    using hash deadline_texts_differ [of sha256 new_id "ac_workspace actor" m expected d] row(6) p(1)
    by (simp add: hash_matches_def canonical_targets_hash_def)
  moreover have "decision_conflict p 1 = None" by (simp add: decision_conflict_None row)
  ultimately show ?thesis using owned row(5) by (simp add: approve_def reject_def)
qed

section \<open>Commands that later commands cannot handle\<close>

text \<open>A title of white space is accepted, and the task can then not be read as a snapshot any more.\<close>

lemma blank_title_accepted:
  assumes r: "owned_task (ac_workspace actor) i db = Inr r" and ids: "distinct (map tr_id (db_tasks db))"
    and valid: "task_row_valid r" and blank: "blank s" "length s \<le> 200" and i: "length i \<le> 64"
    and readable: "task_status_of (tr_status r) = Inr status" "uncertainty_of (tr_uncertainty r) = Inr u"
  shows "\<exists>updated db'. update_task now actor i (tr_version r) (Some s) db = Inr (updated, db')
    \<and> updated \<in> set (db_tasks db') \<and> tr_workspace updated = ac_workspace actor
    \<and> snapshot_from_model updated = Inl (ValueError ''task title must not be empty'')"
proof -
  obtain k where k: "py_uuid i = Some k" "owned_row tr_id tr_workspace (ac_workspace actor) k (db_tasks db) = Some r"
    using r by (auto simp: owned_task_def split: option.splits)
  have own: "tr_id r = k" "tr_workspace r = ac_workspace actor" "r \<in> set (db_tasks db)" using owned_row_facts [OF k(2)] by auto
  let ?p = "\<lambda>x. tr_id x = k \<and> tr_version x = tr_version r \<and> in_scope (Some (ac_workspace actor)) (tr_workspace x)"
  obtain x where x: "find ?p (db_tasks db) = Some x"
    using own by (cases "find ?p (db_tasks db)") (auto simp: find_None_iff in_scope_def)
  then have "x \<in> set (db_tasks db)" "tr_id x = tr_id r" using own(1) by (auto simp: find_Some_iff)
  then have "x = r" using ids own(3) by (metis distinct_map inj_onD)
  let ?r = "bump_task (r\<lparr>tr_title := s\<rparr>)"
  have "task_row_valid ?r" using valid blank(2) by (simp add: task_row_valid_def bump_task_def)
  then have "task_check ?r = None" using blank(2) by (simp add: task_check_def bump_task_def)
  then have u: "update_task_row i (tr_version r) (\<lambda>r. r\<lparr>tr_title := s\<rparr>) (Some (ac_workspace actor)) (db_tasks db)
      = Inr (?r, put_row tr_id ?r (db_tasks db))"
    using k(1) x \<open>x = r\<close> by (simp add: update_with_version_def Let_def)
  then have "\<exists>db'. update_task now actor i (tr_version r) (Some s) db = Inr (?r, db') \<and> db_tasks db' = put_row tr_id ?r (db_tasks db)"
    using r i by (simp add: update_task_def append_audit_def)
  moreover have "?r \<in> set (put_row tr_id ?r (db_tasks db))"
    using own(3) by (force simp: put_row_def bump_task_def image_iff)
  moreover have "tr_workspace ?r = ac_workspace actor" by (simp add: bump_task_def own(2))
  moreover have "snapshot_from_model ?r = Inl (ValueError ''task title must not be empty'')"
    using readable blank(1) by (simp add: snapshot_from_model_def bump_task_def snapshot_of_row_def mk_task_def raise_if_def)
  ultimately show ?thesis by metis
qed

section \<open>Commands on a concrete workspace\<close>

definition a_milestone :: milestone_row where
  "a_milestone = \<lparr>mr_id = 6, mr_workspace = 3, mr_workstream = 4, mr_title = ''Release'', mr_deadline_date = Some 20000,
     mr_deadline_at = None, mr_deadline_date_known = True, mr_deadline_time_known = False,
     mr_deadline_type = ''hard_deadline'', mr_required_buffer = 0, mr_status = ''draft'', mr_version = 1\<rparr>"

definition a_workspace :: workspace_db where
  "a_workspace = \<lparr>db_proposals = [], db_tasks = [a_task], db_approvals = [], db_audit = [], db_milestones = [a_milestone]\<rparr>"

definition start_request :: task_transition_request where
  "start_request = \<lparr>rq_expected_version = 7, rq_target_status = ''in_progress'', rq_args = no_args\<rparr>"

definition finish_request :: task_transition_request where
  "finish_request = \<lparr>rq_expected_version = 7, rq_target_status = ''done'', rq_args = no_args\<rparr>"

definition a_snapshot :: task where
  "a_snapshot = snapshot_of_row a_task READY MEDIUM_U"

definition a_code :: "nat list \<Rightarrow> string" where
  "a_code bytes = map char_of bytes"

lemma a_task_owned: "owned_task (ac_workspace an_actor) (uuid_str 2) a_workspace = Inr a_task"
  using py_uuid_str [of 2] by (simp add: owned_task_def owned_row_def a_workspace_def a_task_def an_actor_def)

lemma a_task_readable: "snapshot_from_model a_task = Inr a_snapshot"
proof -
  have "wf_task a_snapshot"
    by (simp add: a_snapshot_def wf_task_def snapshot_of_row_def a_task_def blank_iff is_py_space_def)
  then have "task_status_value READY = tr_status a_task \<and> uncertainty_value MEDIUM_U = tr_uncertainty a_task
      \<and> a_snapshot = snapshot_of_row a_task READY MEDIUM_U \<and> wf_task a_snapshot"
    by (simp add: a_snapshot_def a_task_def)
  then show ?thesis unfolding snapshot_from_model_Inr by blast
qed

lemma start_runs: "\<exists>updated db'. service_transition_task 0 an_actor (uuid_str 2) start_request a_workspace = Inr (updated, db')"
proof -
  have "transition_enabled a_snapshot IN_PROGRESS no_args"
    by (simp add: transition_enabled_def a_snapshot_def snapshot_of_row_def)
  then have c: "transition_task a_snapshot IN_PROGRESS no_args = Inr (after_transition a_snapshot IN_PROGRESS no_args)"
    using transition_task_Inr_iff a_task_readable snapshot_from_model_Inr by blast
  have status: "task_status_of ''in_progress'' = Inr IN_PROGRESS" using task_status_of_value [of IN_PROGRESS] by simp
  have u: "\<exists>u tasks. update_task_row (uuid_str 2) 7 (apply_candidate (after_transition a_snapshot IN_PROGRESS no_args)) (Some 3) [a_task]
      = Inr (u, tasks)"
    using py_uuid_str [of 2]
    by (simp add: update_with_version_def a_task_def in_scope_def bump_task_def apply_candidate_def after_transition_def
      a_snapshot_def snapshot_of_row_def task_check_def task_row_valid_def Let_def)
  have "length (uuid_str 2) = 36" by (simp add: uuid_str_def hex_of_def Let_def)
  then show ?thesis using a_task_owned a_task_readable c status u
    by (auto simp: service_transition_task_def start_request_def an_actor_def a_workspace_def append_audit_def
      transition_audit_def)
qed

lemma service_transition_refines_witness:
  "\<exists>updated db'. service_transition_task 0 an_actor (uuid_str 2) start_request a_workspace = Inr (updated, db')
     \<and> snapshot_from_model updated = Inr (after_transition a_snapshot IN_PROGRESS no_args)"
proof -
  obtain updated db' where ok: "service_transition_task 0 an_actor (uuid_str 2) start_request a_workspace = Inr (updated, db')"
    using start_runs by blast
  have ids: "distinct (map tr_id (db_tasks a_workspace))" by (simp add: a_workspace_def)
  from service_transition_refines [OF ok ids] obtain k r t target c where
    r: "py_uuid (uuid_str 2) = Some k" "row_at tr_id k (db_tasks a_workspace) = Some r" "snapshot_from_model r = Inr t"
      "task_status_value target = rq_target_status start_request" "transition_task t target (rq_args start_request) = Inr c"
      "snapshot_from_model updated = Inr c" by blast
  have "r = a_task" using r(1,2) py_uuid_str [of 2] by (simp add: row_at_def a_workspace_def a_task_def split: if_splits)
  then have t: "t = a_snapshot" using r(3) a_task_readable by simp
  have target: "target = IN_PROGRESS" using r(4) by (cases target) (simp_all add: start_request_def)
  have "wf_task a_snapshot" using a_task_readable snapshot_from_model_Inr by blast
  then have "c = after_transition a_snapshot IN_PROGRESS no_args"
    using r(5) transition_task_Inr_iff by (simp add: t target start_request_def)
  then show ?thesis using ok r(6) by blast
qed

lemma refused_transition_code_witness:
  "\<exists>m. service_transition_task 0 an_actor (uuid_str 2) finish_request a_workspace = Inl (DomainRuleError ''INVALID_TRANSITION'' m)"
proof -
  have "task_status_of (rq_target_status finish_request) = Inr DONE"
    using task_status_of_value [of DONE] by (simp add: finish_request_def)
  moreover have "\<not> transition_enabled a_snapshot DONE (rq_args finish_request)"
    by (simp add: transition_enabled_def a_snapshot_def snapshot_of_row_def)
  ultimately have "\<exists>m. service_transition_task 0 an_actor (uuid_str 2) finish_request a_workspace
      = Inl (DomainRuleError (refusal_code a_snapshot DONE (rq_args finish_request)) m)"
    by (rule refused_transition_code [OF a_task_owned a_task_readable])
  then show ?thesis by (simp add: refusal_code_def a_snapshot_def snapshot_of_row_def)
qed

lemma a_milestone_owned: "owned_milestone (ac_workspace an_actor) (uuid_str 6) a_workspace = Inr a_milestone"
  using py_uuid_str [of 6] by (simp add: owned_milestone_def owned_row_def a_workspace_def a_milestone_def an_actor_def)

lemma deadline_request_runs:
  "\<exists>p db'. request_milestone_deadline_change a_code 0 8 an_actor (uuid_str 6) 1 (Some 20010) a_workspace = Inr ((None, Some p), db')
     \<and> p = deadline_proposal a_code 8 3 a_milestone 1 (Some 20010)"
proof -
  have "length (uuid_str 6) = 36" by (simp add: uuid_str_def hex_of_def Let_def)
  moreover have "mr_deadline_type a_milestone = ''hard_deadline''" by (simp add: a_milestone_def)
  moreover have "db_proposals a_workspace = []" by (simp add: a_workspace_def)
  ultimately show ?thesis using a_milestone_owned
    by (simp add: request_milestone_deadline_change_def append_audit_def deadline_audit_def an_actor_def Let_def)
qed

lemma deadline_change_effect_witness:
  "\<exists>p db'. request_milestone_deadline_change a_code 0 8 an_actor (uuid_str 6) 1 (Some 20010) a_workspace = Inr ((None, Some p), db')
     \<and> db_milestones db' = [a_milestone] \<and> db_proposals db' = [p]"
proof -
  obtain p db' where ok: "request_milestone_deadline_change a_code 0 8 an_actor (uuid_str 6) 1 (Some 20010) a_workspace = Inr ((None, Some p), db')"
    using deadline_request_runs by blast
  have "distinct (map mr_id (db_milestones a_workspace))" by (simp add: a_workspace_def)
  from deadline_change_effect [OF ok a_milestone_owned this] show ?thesis
    using ok by (simp add: a_milestone_def a_workspace_def)
qed

lemma deadline_proposal_undecidable_witness:
  "\<exists>db'. approve a_code py_uuid 1 9 an_actor (uuid_str 8) 1 (approval_db.truncate db')
     = Inr (outcome ''CONFLICT'' None (Some ''PAYLOAD_HASH_MISMATCH'') ''RECONFIRM'', approval_db.truncate db')
   \<and> length (db_proposals (db' :: workspace_db)) = 1"
proof -
  obtain p db' where ok: "request_milestone_deadline_change a_code 0 8 an_actor (uuid_str 6) 1 (Some 20010) a_workspace = Inr ((None, Some p), db')"
      and p: "p = deadline_proposal a_code 8 3 a_milestone 1 (Some 20010)"
    using deadline_request_runs by blast
  have first: "hd (utf8 (dumps (pm_targets p))) = 91" "hd (utf8 (dumps (deadline_payload (Some 20010)))) = 123"
    "utf8 (dumps (pm_targets p)) \<noteq> []" "utf8 (dumps (deadline_payload (Some 20010))) \<noteq> []"
    by (simp_all add: p deadline_proposal_def deadline_payload_def)
  then have "hd (a_code (utf8 (dumps (pm_targets p)))) \<noteq> hd (a_code (utf8 (dumps (deadline_payload (Some 20010)))))"
    by (simp add: a_code_def hd_map)
  then have "a_code (utf8 (dumps (pm_targets p))) = a_code (utf8 (dumps (deadline_payload (Some 20010))))
      \<longrightarrow> utf8 (dumps (pm_targets p)) = utf8 (dumps (deadline_payload (Some 20010)))" by metis
  note both = deadline_proposal_undecidable [OF ok this, of 1 9]
  have "db_proposals db' = [p]"
    using ok a_milestone_owned p
    by (auto simp: request_milestone_deadline_change_def append_audit_def a_milestone_def a_workspace_def Let_def
      an_actor_def split: if_splits)
  then show ?thesis using both by (intro exI [of _ db']) simp
qed

end
