(* ===== verification/Service_Limits.thy ===== *)
theory Service_Limits
  imports Clock
begin

text \<open>
  Bounded behaviour: the fixed-window rate limiter (\<open>security/rate_limit.py\<close>), the retry
  decision for provider failures (\<open>calendar/retry.py\<close> of the worker) and the expansion of a
  weekly recurrence (\<open>calendar/recurrence.py\<close>). The results: how many requests get through in any
  interval, that an actor's counter is its own, and that retrying stops.
\<close>

section \<open>The rate limiter\<close>

record rate_limit =
  max_requests :: nat
  limit_window :: int

definition RATE_LIMITS :: "(string, rate_limit) dict" where
  "RATE_LIMITS = [(''auth'', \<lparr>max_requests = 10, limit_window = 10 * us_per_minute\<rparr>),
     (''upload'', \<lparr>max_requests = 20, limit_window = us_per_hour\<rparr>),
     (''llm'', \<lparr>max_requests = 100, limit_window = us_per_day\<rparr>),
     (''external-write'', \<lparr>max_requests = 30, limit_window = us_per_hour\<rparr>),
     (''read-api'', \<lparr>max_requests = 600, limit_window = 10 * us_per_minute\<rparr>)]"

type_synonym counters = "(string \<times> string, instant \<times> nat) dict"

definition allow_at :: "string \<times> string \<Rightarrow> rate_limit \<Rightarrow> instant \<Rightarrow> counters \<Rightarrow> bool \<times> counters" where
  "allow_at key bucket now d =
     (let (window_start, used) = dget d key (now, 0);
          (window_start, used) = (if limit_window bucket \<le> now - window_start then (now, 0) else (window_start, used))
      in if max_requests bucket \<le> used then (False, d)
         else (True, AList.update key (window_start, used + 1) d))"

definition allow :: "string \<Rightarrow> string \<Rightarrow> rate_limit \<Rightarrow> datetime \<Rightarrow> counters \<Rightarrow> (bool \<times> counters) res" where
  "allow actor_id bucket_name bucket now_utc d =
     (case now_utc of
        Naive _ \<Rightarrow> Inl (ValueError ''rate-limit clock must be timezone-aware'')
      | Aware w off \<Rightarrow> Inr (allow_at (actor_id, bucket_name) bucket (w - off) d))"

text \<open>The shared limiter asks Redis to count the call; \<open>reply\<close> is the count or \<open>None\<close> for an error.\<close>

definition redis_request :: "string \<Rightarrow> string \<Rightarrow> rate_limit \<Rightarrow> string \<times> int" where
  "redis_request actor_id bucket_name bucket =
     (''personal-pm:rate:'' @ bucket_name @ '':'' @ actor_id, max 1 (limit_window bucket div 1000))"

definition redis_allow :: "(string \<times> int \<Rightarrow> int option) \<Rightarrow> string \<Rightarrow> string \<Rightarrow> rate_limit \<Rightarrow> datetime \<Rightarrow> bool res" where
  "redis_allow reply actor_id bucket_name bucket now_utc =
     (case now_utc of
        Naive _ \<Rightarrow> Inl (ValueError ''rate-limit clock must be timezone-aware'')
      | Aware _ _ \<Rightarrow> (case reply (redis_request actor_id bucket_name bucket) of
          None \<Rightarrow> Inr False
        | Some n \<Rightarrow> Inr (n \<le> int (max_requests bucket))))"

text \<open>The calls of one actor on one bucket at the given times: how many are allowed.\<close>

fun allowed_calls :: "string \<times> string \<Rightarrow> rate_limit \<Rightarrow> instant list \<Rightarrow> counters \<Rightarrow> nat" where
  "allowed_calls key bucket [] d = 0"
| "allowed_calls key bucket (t # ts) d =
     (case allow_at key bucket t d of (ok, d') \<Rightarrow> (if ok then 1 else 0) + allowed_calls key bucket ts d')"

text \<open>Within the window of the counter, the rest of its budget.\<close>

lemma allowed_in_window:
  assumes "map_of d key = Some (start, c)" and "c \<le> max_requests bucket"
    and "\<forall>t\<in>set ts. t < start + limit_window bucket"
  shows "allowed_calls key bucket ts d \<le> max_requests bucket - c"
  using assms
proof (induction ts arbitrary: d c)
  case (Cons t ts)
  have in_window: "\<not> limit_window bucket \<le> t - start" using Cons.prems(3) by auto
  show ?case
  proof (cases "max_requests bucket \<le> c")
    case True
    then have "allow_at key bucket t d = (False, d)" using Cons.prems(1) in_window by (simp add: allow_at_def dget_def)
    then show ?thesis using Cons.IH [OF Cons.prems(1,2)] Cons.prems(3) by simp
  next
    case False
    then have a: "allow_at key bucket t d = (True, AList.update key (start, c + 1) d)"
      using Cons.prems(1) in_window by (simp add: allow_at_def dget_def)
    have "map_of (AList.update key (start, c + 1) d) key = Some (start, c + 1)" by (simp add: dict_simps)
    from Cons.IH [OF this] False Cons.prems(3) show ?thesis by (simp add: a)
  qed
qed simp

text \<open>In an interval as long as the window, at most one new window starts.\<close>

lemma allowed_in_interval:
  assumes "dget d key (b, 0) = (start, c)" and "c \<le> max_requests bucket" and "0 < limit_window bucket"
    and "\<forall>t\<in>set ts. b \<le> t \<and> t < b + limit_window bucket" and "sorted ts"
  shows "allowed_calls key bucket ts d \<le> (max_requests bucket - c) + max_requests bucket"
  using assms
proof (induction ts arbitrary: d start c)
  case (Cons t ts)
  let ?m = "max_requests bucket" and ?w = "limit_window bucket"
  have later: "\<forall>u\<in>set ts. u < t + ?w" using Cons.prems(4) by auto
  show ?case
  proof (cases "map_of d key = None \<or> ?w \<le> t - start")
    case True
    then have fresh: "allow_at key bucket t d = (if ?m = 0 then (False, d) else (True, AList.update key (t, 1) d))"
      using Cons.prems(1,3) by (auto simp: allow_at_def dget_def split: option.splits)
    show ?thesis
    proof (cases "?m = 0")
      case True
      have "allowed_calls key bucket ts d \<le> (?m - c) + ?m"
        using Cons.IH [OF Cons.prems(1-3)] Cons.prems(4,5) by simp
      then show ?thesis using fresh True by simp
    next
      case False
      have "map_of (AList.update key (t, 1) d) key = Some (t, 1)" by (simp add: dict_simps)
      from allowed_in_window [OF this _ later] False have "allowed_calls key bucket ts (AList.update key (t, 1) d) \<le> ?m - 1"
        by simp
      then show ?thesis using fresh False by simp
    qed
  next
    case False
    then have in_window: "\<not> ?w \<le> t - start" and some: "map_of d key = Some (start, c)"
      using Cons.prems(1) by (auto simp: dget_def split: option.splits)
    show ?thesis
    proof (cases "?m \<le> c")
      case True
      then have "allow_at key bucket t d = (False, d)" using some in_window by (simp add: allow_at_def dget_def)
      then show ?thesis using Cons.IH [OF Cons.prems(1-3)] Cons.prems(4,5) by simp
    next
      case c: False
      then have a: "allow_at key bucket t d = (True, AList.update key (start, c + 1) d)"
        using some in_window by (simp add: allow_at_def dget_def)
      have "dget (AList.update key (start, c + 1) d) key (b, 0) = (start, c + 1)" by (simp add: dict_simps)
      from Cons.IH [OF this] c Cons.prems(3-5) show ?thesis by (simp add: a)
    qed
  qed
qed simp

text \<open>The limiter bounds the rate. Whatever the counters are when an interval as long as the bucket's window
  begins (with every counter between one and the limit), of all the calls that an actor makes on a bucket in
  this interval, in clock order, fewer than twice \<open>max_requests\<close> are allowed; and if it has no
  counter yet, at most \<open>max_requests\<close>.\<close>

theorem rate_limit_bound:
  assumes "case map_of d key of None \<Rightarrow> True | Some (start, c) \<Rightarrow> 1 \<le> c \<and> c \<le> max_requests bucket" and "0 < limit_window bucket"
    and "\<forall>t\<in>set ts. b \<le> t \<and> t < b + limit_window bucket" and "sorted ts"
  shows "allowed_calls key bucket ts d \<le> 2 * max_requests bucket - 1
    \<and> (map_of d key = None \<longrightarrow> allowed_calls key bucket ts d \<le> max_requests bucket)"
proof
  show none: "map_of d key = None \<longrightarrow> allowed_calls key bucket ts d \<le> max_requests bucket"
  proof
    assume none: "map_of d key = None"
    show "allowed_calls key bucket ts d \<le> max_requests bucket"
    proof (cases ts)
      case (Cons t us)
      have fresh: "allow_at key bucket t d = (if max_requests bucket = 0 then (False, d) else (True, AList.update key (t, 1) d))"
        using none assms(2) by (auto simp: allow_at_def dget_def)
      show ?thesis
      proof (cases "max_requests bucket = 0")
        case True
        have "allowed_calls key bucket vs d = 0" for vs
          by (induction vs) (use none True in \<open>auto simp: allow_at_def dget_def\<close>)
        then show ?thesis by simp
      next
        case False
        have "map_of (AList.update key (t, 1) d) key = Some (t, 1)" by (simp add: dict_simps)
        from allowed_in_window [OF this, of bucket us] False assms(3,4) Cons
        have "allowed_calls key bucket us (AList.update key (t, 1) d) \<le> max_requests bucket - 1" by fastforce
        then show ?thesis using fresh False Cons by simp
      qed
    qed simp
  qed
  show "allowed_calls key bucket ts d \<le> 2 * max_requests bucket - 1"
  proof (cases "map_of d key")
    case None
    then show ?thesis using none by (cases "max_requests bucket") auto
  next
    case (Some sc)
    obtain start c where sc: "sc = (start, c)" by (cases sc)
    then have "dget d key (b, 0) = (start, c)" "1 \<le> c" "c \<le> max_requests bucket" using assms(1) Some by (simp_all add: dget_def)
    from allowed_in_interval [OF this(1,3) assms(2-4)] this(2,3) show ?thesis by simp
  qed
qed

text \<open>Every counter the limiter stores is between one and the limit, if each bucket has one limit.\<close>

lemma allow_at_counters:
  assumes "allow_at key bucket t d = (ok, d')" and "map_of d' k = Some (start, c)"
  shows "map_of d k = Some (start, c) \<or> (k = key \<and> 1 \<le> c \<and> c \<le> max_requests bucket)"
  using assms by (auto simp: allow_at_def Let_def dict_simps split: prod.splits if_splits)

text \<open>A call changes only the counter of its own actor and bucket.\<close>

lemma allow_at_other: "k \<noteq> key \<Longrightarrow> map_of (snd (allow_at key bucket t d)) k = map_of d k"
  by (auto simp: allow_at_def Let_def dict_simps split: prod.splits)

definition tight_bucket :: rate_limit where
  "tight_bucket = \<lparr>max_requests = 2, limit_window = 10\<rparr>"

text \<open>The bound is reached: three calls within ten ticks, of which two belong to a new window.\<close>

lemma rate_limit_bound_witness:
  "allowed_calls (''a'', ''b'') tight_bucket [9, 10, 11, 12] [((''a'', ''b''), (0, 1))] \<le> 3
   \<and> allowed_calls (''a'', ''b'') tight_bucket [9, 10, 11, 12] [((''a'', ''b''), (0, 1))] = 3"
proof
  show "allowed_calls (''a'', ''b'') tight_bucket [9, 10, 11, 12] [((''a'', ''b''), (0, 1))] \<le> 3"
    using rate_limit_bound [where d = "[((''a'', ''b''), (0, 1))]" and key = "(''a'', ''b'')" and bucket = tight_bucket
        and ts = "[9, 10, 11, 12]" and b = 9]
    by (simp add: tight_bucket_def)
  show "allowed_calls (''a'', ''b'') tight_bucket [9, 10, 11, 12] [((''a'', ''b''), (0, 1))] = 3"
    by (simp add: allow_at_def tight_bucket_def dget_def Let_def)
qed

section \<open>Retrying\<close>

definition MAX_BACKOFF_SECONDS :: int where
  "MAX_BACKOFF_SECONDS = 900"

definition MAX_TRANSIENT_ATTEMPTS :: nat where
  "MAX_TRANSIENT_ATTEMPTS = 5"

datatype retry_decision =
    RETRY int
  | NEEDS_REAUTHORIZATION
  | DEAD_LETTER

definition deterministic_jitter :: "nat \<Rightarrow> int" where
  "deterministic_jitter attempt = int (attempt mod 4)"

definition transient_failure :: "int option \<Rightarrow> bool \<Rightarrow> bool" where
  "transient_failure status_code timed \<longleftrightarrow> timed \<or> status_code = Some 408 \<or> status_code = Some 429
     \<or> (case status_code of None \<Rightarrow> False | Some n \<Rightarrow> 500 \<le> n)"

definition classify_failure :: "int option \<Rightarrow> string option \<Rightarrow> nat \<Rightarrow> bool \<Rightarrow> retry_decision" where
  "classify_failure status_code provider_code attempt timed =
     (if provider_code = Some ''invalid_grant'' \<or> status_code = Some 401 \<or> status_code = Some 403 then NEEDS_REAUTHORIZATION
      else if transient_failure status_code timed then
        (if MAX_TRANSIENT_ATTEMPTS \<le> attempt then DEAD_LETTER
         else RETRY (min MAX_BACKOFF_SECONDS (2 ^ attempt + deterministic_jitter attempt)))
      else DEAD_LETTER)"

text \<open>Attempts after a failure that stays the same: how often the command is retried, and when it gives up.\<close>

function retries_from :: "int option \<Rightarrow> string option \<Rightarrow> bool \<Rightarrow> nat \<Rightarrow> int list \<times> retry_decision" where
  "retries_from status_code provider_code timed attempt =
     (case classify_failure status_code provider_code attempt timed of
        RETRY delay \<Rightarrow> (case retries_from status_code provider_code timed (attempt + 1) of
            (delays, final) \<Rightarrow> (delay # delays, final))
      | final \<Rightarrow> ([], final))"
  by auto
termination
  by (relation "measure (\<lambda>(s, p, t, n). MAX_TRANSIENT_ATTEMPTS - n)") (auto simp: classify_failure_def split: if_splits)

declare retries_from.simps [simp del]

lemma classify_retry:
  "classify_failure s p n timed = RETRY d \<longleftrightarrow>
     p \<noteq> Some ''invalid_grant'' \<and> s \<noteq> Some 401 \<and> s \<noteq> Some 403 \<and> transient_failure s timed \<and> n < 5
     \<and> d = 2 ^ n + deterministic_jitter n"
proof -
  have "(2 :: int) ^ n + deterministic_jitter n \<le> 900" if "n < 5"
  proof -
    have "(2 :: int) ^ n \<le> 2 ^ 4" by (rule power_increasing) (use that in simp_all)
    moreover have "deterministic_jitter n \<le> 3" by (simp add: deterministic_jitter_def) 
    ultimately show ?thesis by simp
  qed
  then show ?thesis by (auto simp: classify_failure_def MAX_TRANSIENT_ATTEMPTS_def MAX_BACKOFF_SECONDS_def)
qed

lemma retries_result:
  "retries_from s p timed n = (if p \<noteq> Some ''invalid_grant'' \<and> s \<noteq> Some 401 \<and> s \<noteq> Some 403 \<and> transient_failure s timed
     then (map (\<lambda>k. 2 ^ k + deterministic_jitter k) [n ..< 5], DEAD_LETTER)
     else ([], if p = Some ''invalid_grant'' \<or> s = Some 401 \<or> s = Some 403 then NEEDS_REAUTHORIZATION else DEAD_LETTER))"
proof (induction s p timed n rule: retries_from.induct)
  case (1 s p timed n)
  show ?case
  proof (cases "\<exists>d. classify_failure s p n timed = RETRY d")
    case True
    then obtain d where d: "classify_failure s p n timed = RETRY d" by blast
    then show ?thesis using "1.IH" [OF d] unfolding classify_retry
      by (simp add: retries_from.simps [of s p timed n] d upt_conv_Cons)
  next
    case False
    then have "\<not> (p \<noteq> Some ''invalid_grant'' \<and> s \<noteq> Some 401 \<and> s \<noteq> Some 403 \<and> transient_failure s timed \<and> n < 5)"
      unfolding classify_retry by blast
    then show ?thesis
      by (auto simp: retries_from.simps [of s p timed n] classify_failure_def MAX_TRANSIENT_ATTEMPTS_def)
  qed
qed

text \<open>Retrying a failure stops. A failure that persists is retried after 1, 3, 6, 11 and 16 seconds and
  then given up as a dead letter, if it is transient (a timeout, 408, 429 or 5xx); expired
  authorization (401, 403 or \<open>invalid_grant\<close>) is never retried, and neither is any other failure.\<close>

theorem retries_stop:
  "retries_from status_code provider_code timed 0 =
     (if provider_code = Some ''invalid_grant'' \<or> status_code = Some 401 \<or> status_code = Some 403 then ([], NEEDS_REAUTHORIZATION)
      else if transient_failure status_code timed then ([1, 3, 6, 11, 16], DEAD_LETTER) else ([], DEAD_LETTER))"
  by (auto simp: retries_result deterministic_jitter_def upt_conv_Cons)

section \<open>Weekly recurrence\<close>

record recurrence_instance =
  ri_start :: instant
  ri_end :: instant
  ri_sequence :: nat

definition expand_weekly :: "instant \<Rightarrow> int \<Rightarrow> int \<Rightarrow> recurrence_instance list" where
  "expand_weekly first_start duration_minutes count_wanted =
     (if count_wanted \<le> 0 then []
      else map (\<lambda>i. \<lparr>ri_start = first_start + 7 * us_per_day * int i,
          ri_end = first_start + 7 * us_per_day * int i + minutes_delta duration_minutes, ri_sequence = i\<rparr>)
        [0 ..< nat count_wanted])"

text \<open>\<open>ensure_utc\<close> takes a naive value for UTC.\<close>

fun ensure_utc :: "datetime \<Rightarrow> datetime" where
  "ensure_utc (Naive w) = Aware w 0"
| "ensure_utc d = d"

text \<open>Exactly \<open>count\<close> instances, a week apart; they do not overlap if none lasts longer than a week.\<close>

lemma expand_weekly_instances:
  assumes "0 \<le> n"
  shows "length (expand_weekly s m n) = nat n
    \<and> (\<forall>i<nat n. ri_start (expand_weekly s m n ! i) = s + 7 * us_per_day * int i
        \<and> ri_end (expand_weekly s m n ! i) = ri_start (expand_weekly s m n ! i) + minutes_delta m)"
  using assms by (auto simp: expand_weekly_def)

end
