(* ===== verification/Uploads.thy ===== *)
theory Uploads
  imports Canonical Python_Text
begin

text \<open>
  The content check of uploads (\<open>security/uploads.py\<close>): magic bytes beat the declared type. A
  file is a list of bytes. The result: exactly which contents are let through under which
  declared type, and that text this program writes as UTF-8 is always valid.
\<close>

section \<open>Strict UTF-8\<close>

definition utf8_cont :: "nat \<Rightarrow> bool" where
  "utf8_cont b \<longleftrightarrow> 128 \<le> b \<and> b \<le> 191"

text \<open>\<open>bytes.decode("utf-8", errors="strict")\<close> succeeds: no overlong forms, surrogates or code points beyond U+10FFFF.\<close>

fun utf8_valid :: "nat list \<Rightarrow> bool" where
  "utf8_valid [] = True"
| "utf8_valid (b # bs) =
     (if b < 128 then utf8_valid bs
      else if 194 \<le> b \<and> b \<le> 223 then
        (case bs of c # cs \<Rightarrow> utf8_cont c \<and> utf8_valid cs | _ \<Rightarrow> False)
      else if 224 \<le> b \<and> b \<le> 239 then
        (case bs of c # d # ds \<Rightarrow> utf8_cont c \<and> (b = 224 \<longrightarrow> 160 \<le> c) \<and> (b = 237 \<longrightarrow> c \<le> 159) \<and> utf8_cont d \<and> utf8_valid ds
         | _ \<Rightarrow> False)
      else if 240 \<le> b \<and> b \<le> 244 then
        (case bs of c # d # e # es \<Rightarrow> utf8_cont c \<and> (b = 240 \<longrightarrow> 144 \<le> c) \<and> (b = 244 \<longrightarrow> c \<le> 143) \<and> utf8_cont d
            \<and> utf8_cont e \<and> utf8_valid es
         | _ \<Rightarrow> False)
      else False)"

declare utf8_valid.simps(2) [simp del]

lemma utf8_encoded_valid: "utf8_valid (utf8 s)"
proof (induction s)
  case (Cons c s)
  define n where "n = (of_char c :: nat)"
  have "n < 256" by (simp add: n_def)
  then have "n div 64 < 4" by (simp add: less_mult_imp_div_less)
  moreover have "128 \<le> n \<Longrightarrow> 2 \<le> n div 64" using div_le_mono [of 128 n 64] by simp
  moreover have "n mod 64 < 64" by simp
  ultimately show ?case using Cons
    by (cases "n < 128") (auto simp: n_def [symmetric] Let_def utf8_valid.simps(2) utf8_cont_def)
qed simp

section \<open>The scan\<close>

definition EXECUTABLE_MAGIC :: "nat list list" where
  "EXECUTABLE_MAGIC = [[0x4D, 0x5A], [0x7F, 0x45, 0x4C, 0x46], [0xCA, 0xFE, 0xBA, 0xBE], [0xFE, 0xED, 0xFA, 0xCE],
     [0xCE, 0xFA, 0xED, 0xFE], [0xFE, 0xED, 0xFA, 0xCF], [0xCF, 0xFA, 0xED, 0xFE]]"

definition MAX_UPLOAD_BYTES :: nat where
  "MAX_UPLOAD_BYTES = 25 * 1024 * 1024"

definition MAGIC_BY_TYPE :: "(string \<times> nat list) list" where
  "MAGIC_BY_TYPE = [(''application/pdf'', [0x25, 0x50, 0x44, 0x46, 0x2D]),
     (''image/png'', [0x89, 0x50, 0x4E, 0x47, 0x0D, 0x0A, 0x1A, 0x0A]), (''image/jpeg'', [0xFF, 0xD8, 0xFF])]"

definition SUPPORTED_UPLOAD_TYPES :: "string list" where
  "SUPPORTED_UPLOAD_TYPES = map fst MAGIC_BY_TYPE @ [''text/plain'']"

record scan_verdict =
  sv_allowed :: bool
  sv_reason :: "string option"
  sv_code :: "string option"
  sv_status_code :: int

definition reject_upload :: "string \<Rightarrow> bool \<Rightarrow> scan_verdict" where
  "reject_upload reason mismatch = \<lparr>sv_allowed = False, sv_reason = Some reason,
     sv_code = Some (if mismatch then ''UPLOAD_TYPE_MISMATCH'' else ''UPLOAD_REJECTED''),
     sv_status_code = (if mismatch then 415 else 422)\<rparr>"

definition accept_upload :: scan_verdict where
  "accept_upload = \<lparr>sv_allowed = True, sv_reason = None, sv_code = None, sv_status_code = 200\<rparr>"

definition media_type_of :: "string \<Rightarrow> string" where
  "media_type_of declared_type = lower (strip (before_char CHR '';'' declared_type))"

definition detected_type :: "nat list \<Rightarrow> string option" where
  "detected_type content = map_option fst (find (\<lambda>(kind, magic). starts_with magic content) MAGIC_BY_TYPE)"

definition scan_upload :: "nat list \<Rightarrow> string \<Rightarrow> scan_verdict" where
  "scan_upload content declared_type =
     (let media_type = media_type_of declared_type in
      if content = [] then reject_upload ''empty upload'' False
      else if MAX_UPLOAD_BYTES < length content then reject_upload ''upload exceeds size limit'' False
      else if list_ex (\<lambda>magic. starts_with magic content) EXECUTABLE_MAGIC then reject_upload ''executable content detected'' False
      else if media_type \<notin> set SUPPORTED_UPLOAD_TYPES then reject_upload ''unsupported declared content type'' True
      else if media_type = ''text/plain'' then
        (if detected_type content \<noteq> None then reject_upload ''binary magic does not match text/plain'' True
         else if 0 \<in> set content then reject_upload ''binary payload in text upload'' False
         else if \<not> utf8_valid content then reject_upload ''text upload is not valid UTF-8'' False
         else accept_upload)
      else if detected_type content \<noteq> Some media_type then reject_upload ''declared type does not match file magic'' True
      else accept_upload)"

text \<open>What a content must be for its declared type.\<close>

definition fits_type :: "nat list \<Rightarrow> string \<Rightarrow> bool" where
  "fits_type content media_type \<longleftrightarrow>
     (media_type = ''text/plain'' \<and> 0 \<notin> set content \<and> utf8_valid content
        \<and> (\<forall>(kind, magic)\<in>set MAGIC_BY_TYPE. \<not> starts_with magic content))
     \<or> (\<exists>magic. (media_type, magic) \<in> set MAGIC_BY_TYPE \<and> starts_with magic content)"

lemma starts_with_common:
  "starts_with xs zs \<Longrightarrow> starts_with ys zs \<Longrightarrow> starts_with xs ys \<or> starts_with ys xs"
proof (induction xs arbitrary: ys zs)
  case (Cons x xs)
  then show ?case by (cases ys; cases zs) auto
qed simp

lemma magic_unique:
  "(k, m) \<in> set MAGIC_BY_TYPE \<Longrightarrow> (k', m') \<in> set MAGIC_BY_TYPE \<Longrightarrow> starts_with m content \<Longrightarrow> starts_with m' content \<Longrightarrow> k = k'"
  using starts_with_common [of m content m'] by (auto simp: MAGIC_BY_TYPE_def)

lemma find_member: "find P xs = Some x \<Longrightarrow> x \<in> set xs \<and> P x"
  by (auto simp: find_Some_iff)

lemma detected_type_Some: "detected_type content = Some k \<longleftrightarrow> (\<exists>m. (k, m) \<in> set MAGIC_BY_TYPE \<and> starts_with m content)"
proof
  assume "\<exists>m. (k, m) \<in> set MAGIC_BY_TYPE \<and> starts_with m content"
  then obtain m where m: "(k, m) \<in> set MAGIC_BY_TYPE" "starts_with m content" by blast
  then obtain k' m' where found: "find (\<lambda>(kind, magic). starts_with magic content) MAGIC_BY_TYPE = Some (k', m')"
    by (cases "find (\<lambda>(kind, magic). starts_with magic content) MAGIC_BY_TYPE") (auto simp: find_None_iff)
  from find_member [OF found] have "(k', m') \<in> set MAGIC_BY_TYPE" "starts_with m' content" by auto
  moreover have "detected_type content = Some k'" by (simp add: detected_type_def found)
  ultimately show "detected_type content = Some k" using magic_unique m by blast
next
  assume "detected_type content = Some k"
  then show "\<exists>m. (k, m) \<in> set MAGIC_BY_TYPE \<and> starts_with m content"
    by (auto simp: detected_type_def find_Some_iff) (metis nth_mem)
qed

lemma detected_type_None: "detected_type content = None \<longleftrightarrow> (\<forall>(k, m)\<in>set MAGIC_BY_TYPE. \<not> starts_with m content)"
proof -
  have "detected_type content = None \<longleftrightarrow> (\<nexists>k. detected_type content = Some k)" by auto
  then show ?thesis unfolding detected_type_Some by auto
qed

text \<open>What an upload may contain. A content is let through exactly if it is not empty, not larger than 25 MiB,
  does not begin with the magic of an executable, and fits its declared type: for a PDF, PNG or
  JPEG it begins with the magic of that type; for plain text it is valid UTF-8 without a zero
  byte and does not begin with the magic of another supported type. No other declared type is let
  through.\<close>

theorem scan_upload_exact:
  "sv_allowed (scan_upload content declared_type) \<longleftrightarrow>
     content \<noteq> [] \<and> length content \<le> MAX_UPLOAD_BYTES
     \<and> \<not> list_ex (\<lambda>magic. starts_with magic content) EXECUTABLE_MAGIC
     \<and> fits_type content (media_type_of declared_type)"
proof -
  let ?t = "media_type_of declared_type"
  have text_type: "detected_type content \<noteq> Some ''text/plain''"
    unfolding detected_type_Some by (simp add: MAGIC_BY_TYPE_def)
  have supported: "?t \<in> set SUPPORTED_UPLOAD_TYPES \<longleftrightarrow> ?t = ''text/plain'' \<or> (\<exists>m. (?t, m) \<in> set MAGIC_BY_TYPE)"
    unfolding SUPPORTED_UPLOAD_TYPES_def by force
  have fits: "fits_type content ?t \<longleftrightarrow>
      ?t = ''text/plain'' \<and> 0 \<notin> set content \<and> utf8_valid content \<and> detected_type content = None \<or> detected_type content = Some ?t"
    unfolding fits_type_def detected_type_None detected_type_Some by blast
  have "detected_type content = Some ?t \<Longrightarrow> ?t \<in> set SUPPORTED_UPLOAD_TYPES"
    unfolding supported detected_type_Some by blast
  then show ?thesis using text_type fits
    by (auto simp: scan_upload_def Let_def reject_upload_def accept_upload_def list_ex_iff not_less SUPPORTED_UPLOAD_TYPES_def)
qed

end
