(* ===== verification/Plan_Blocks.thy ===== *)
theory Plan_Blocks
  imports Planner
begin

text \<open>
  Well-formedness of what the planner returns: every allocation, in every pass, was built by the
  constructor of \<open>TaskAllocation\<close>, so it is a nonempty block with a chunk number.
\<close>

definition wf_allocation :: "task_allocation \<Rightarrow> bool" where
  "wf_allocation a \<longleftrightarrow> al_start a < al_end a \<and> 0 \<le> al_chunk a"

abbreviation wf_allocations :: "task_allocation list \<Rightarrow> bool" where
  "wf_allocations as \<equiv> \<forall>a\<in>set as. wf_allocation a"

section \<open>One task\<close>

lemma place_run_wf:
  assumes "place_run t pass earliest run p = Inr (Some p')" and "wf_allocations (pl_allocs p)"
  shows "wf_allocations (pl_allocs p')"
  using place_run_Some [OF assms(1)] assms(2) by (auto simp: wf_allocation_def)

lemma place_runs_wf:
  "place_runs t pass earliest runs p b = Inr (b', p') \<Longrightarrow> wf_allocations (pl_allocs p) \<Longrightarrow> wf_allocations (pl_allocs p')"
proof (induction runs arbitrary: p b)
  case (Cons run runs)
  from Cons.prems(1) obtain r where r: "place_run t pass earliest run p = Inr r" by (auto simp: res_simps)
  show ?case
  proof (cases r)
    case None
    with r Cons show ?thesis by simp
  next
    case (Some p1)
    then have "wf_allocations (pl_allocs p1)" using place_run_wf r Cons.prems(2) by blast
    then show ?thesis using Cons.prems(1) r Some Cons.IH [of p1 True] by (auto split: if_splits)
  qed
qed simp

lemma place_loop_wf:
  "place_loop t pass earliest p = Inr p' \<Longrightarrow> wf_allocations (pl_allocs p) \<Longrightarrow> wf_allocations (pl_allocs p')"
proof (induction t pass earliest p rule: place_loop.induct)
  case (1 t pass earliest p)
  show ?case
  proof (cases "0 < pl_remaining p")
    case True
    then obtain b q where q: "place_runs t pass earliest (usable_runs earliest (pl_ledger p)) p False = Inr (b, q)"
      and rest: "(if b then place_loop t pass earliest q else Inr q) = Inr p'"
      using "1.prems"(1) place_loop.simps [of t pass earliest p] by (auto simp: res_simps)
    have "wf_allocations (pl_allocs q)" by (rule place_runs_wf [OF q "1.prems"(2)])
    then show ?thesis using "1.IH" [OF True _ refl] q rest by (cases b) auto
  qed (use 1 place_loop.simps [of t pass earliest p] in simp)
qed

lemma place_task_wf: "place_task l t n pass bound = Inr (as, l') \<Longrightarrow> wf_allocations as"
  unfolding place_task_def using place_loop_wf [of t pass "earliest_of (st_start_after t) bound"] by (fastforce simp: res_simps)

section \<open>Schedules\<close>

lemma schedule_task_wf:
  assumes "schedule_task duration pass gates pre t st = Inr st'" and "wf_allocations (ss_allocs st)"
  shows "wf_allocations (ss_allocs st')"
proof -
  have "ss_allocs st' = ss_allocs st \<or> (\<exists>l n b as l'. place_task l t n pass b = Inr (as, l') \<and> ss_allocs st' = ss_allocs st @ as)"
    using assms(1) unfolding schedule_task_def Let_def
    by (auto simp: res_simps split: if_splits option.splits)
  then show ?thesis using place_task_wf assms(2) by fastforce
qed

lemma serial_loop_wf:
  "serial_loop duration pass gates pre pending st = Inr st' \<Longrightarrow> wf_allocations (ss_allocs st) \<Longrightarrow> wf_allocations (ss_allocs st')"
proof (induction duration pass gates pre pending st rule: serial_loop.induct)
  case (1 duration pass gates pre pending st)
  let ?ready = "\<lambda>c. list_all (\<lambda>p. p \<in> set (ss_placed st)) (gates_of gates c)"
  show ?case
  proof (cases "pending = [] \<or> pick_ready ?ready pending = None")
    case True
    then have "ss_allocs st' = ss_allocs st"
      using "1.prems"(1) [unfolded serial_loop.simps [of duration pass gates pre pending st]]
      by (cases "pending = []") auto
    then show ?thesis using "1.prems"(2) by simp
  next
    case False
    then obtain t rest where p: "pick_ready ?ready pending = Some (t, rest)" by auto
    then obtain s where s: "schedule_task duration pass gates pre t st = Inr s" "serial_loop duration pass gates pre rest s = Inr st'"
      using "1.prems"(1) False serial_loop.simps [of duration pass gates pre pending st] by (auto simp: res_simps)
    show ?thesis using "1.IH" [OF _ p refl s] schedule_task_wf [OF s(1) "1.prems"(2)] False by simp
  qed
qed

lemma serial_schedule_wf:
  "serial_schedule duration tasks slots pass gates pre = Inr r \<Longrightarrow> wf_allocations pre \<Longrightarrow> wf_allocations (sr_allocations r)"
  unfolding serial_schedule_def by (auto simp: res_simps dest!: serial_loop_wf)

section \<open>Passes and the plan\<close>

lemma number_chunks_wf: "number_chunks pt chunks ps = Inr as \<Longrightarrow> wf_allocations as"
proof (induction ps arbitrary: chunks as)
  case (Cons p ps)
  then show ?case by (fastforce simp: Let_def res_simps mk_allocation_iff wf_allocation_def)
qed simp

lemma run_planning_passes_wf:
  assumes "run_planning_passes uuid5 tz v extra preallocated = Inr ps"
  shows "wf_allocations (sr_allocations (ps_provisional ps))" and "wf_allocations (sr_allocations (ps_base ps))"
    and "wf_allocations (sr_allocations (ps_safety ps))"
proof -
  obtain analysis where analysis: "build_graph_analysis tz v = Inr analysis"
    using assms by (auto simp: run_planning_passes_def rbind_Inr_iff)
  define schedulable where "schedulable = enrich_tasks v analysis @ concat (map snd (create_synthetic_buffers uuid5 tz v))"
  note body = assms [unfolded run_planning_passes_def analysis rbind.simps Let_def, folded schedulable_def]
  obtain pre_base pre_safety slots provisional where pre: "preallocated_for_pass preallocated BASE = Inr pre_base"
    "preallocated_for_pass preallocated SAFETY = Inr pre_safety" and slots: "fresh_slots tz v extra = Inr slots"
    and prov: "serial_schedule st_base schedulable slots ''base'' (build_start_gates v) pre_base = Inr provisional"
    using body by (auto simp only: rbind_Inr_iff)
  obtain final promoted where final: "promote_infeasible_required_paths_once schedulable provisional v = (final, promoted)"
    by (cases "promote_infeasible_required_paths_once schedulable provisional v")
  obtain base safety where base: "serial_schedule st_base final slots ''base'' (build_start_gates v) pre_base = Inr base"
    and safety: "serial_schedule st_safety final slots ''safety'' (build_start_gates v) pre_safety = Inr safety"
    and ps: "ps_provisional ps = provisional" "ps_base ps = base" "ps_safety ps = safety"
    using body unfolding pre slots prov final rbind.simps prod.case rbind_Inr_iff by auto
  note wf = pre [unfolded preallocated_for_pass_def, THEN number_chunks_wf]
  show "wf_allocations (sr_allocations (ps_provisional ps))" "wf_allocations (sr_allocations (ps_base ps))"
    "wf_allocations (sr_allocations (ps_safety ps))"
    unfolding ps using serial_schedule_wf [OF prov wf(1)] serial_schedule_wf [OF base wf(1)]
      serial_schedule_wf [OF safety wf(2)] by blast+
qed

lemma replan_wf:
  assumes "replan uuid5 tz v = Inr outcome"
  shows "wf_allocations (sr_allocations (ps_base (ro_selected outcome)))"
    and "wf_allocations (sr_allocations (ps_safety (ro_selected outcome)))"
proof -
  have "\<exists>extra pre. run_planning_passes uuid5 tz v extra pre = Inr (ro_selected outcome)"
    using assms [unfolded replan_def Let_def rbind_Inr_iff] by (elim exE conjE) (auto split: if_splits, blast+)
  then obtain extra pre where run: "run_planning_passes uuid5 tz v extra pre = Inr (ro_selected outcome)" by blast
  show "wf_allocations (sr_allocations (ps_base (ro_selected outcome)))"
    "wf_allocations (sr_allocations (ps_safety (ro_selected outcome)))"
    by (rule run_planning_passes_wf(2) [OF run], rule run_planning_passes_wf(3) [OF run])
qed

lemma plan_output_wf:
  assumes "plan uuid5 sha256 tz shared iter v = Inr out" and "out_base_plan out = Some p \<or> out_safety_plan out = Some p"
  shows "wf_allocations (pr_allocations p)"
proof (cases "normalize_and_validate sha256 v")
  case (InvalidInput code rules prior)
  then show ?thesis using assms by (auto simp: plan_def invalid_output_def mk_output_def res_simps)
next
  case (ValidInput v' h)
  obtain outcome where r: "replan uuid5 tz v = Inr outcome"
    using assms(1) ValidInput by (auto simp: plan_def res_simps)
  have "pr_allocations p = sr_allocations (ps_base (ro_selected outcome)) \<or> pr_allocations p = sr_allocations (ps_safety (ro_selected outcome))"
    using assms ValidInput r by (auto simp: plan_def res_simps Let_def mk_output_def passes_to_result_def)
  then show ?thesis using replan_wf [OF r] by auto
qed



end
