(* ===== verification/Iso_Text.thy ===== *)
theory Iso_Text
  imports Clock
begin

text \<open>
  Reading back what \<open>isoformat\<close> printed. \<open>datetime.fromisoformat\<close> accepts many forms of
  ISO-8601; the application only reads texts it has written itself with \<open>isoformat\<close> of a UTC
  datetime. \<open>read_iso\<close> is \<open>fromisoformat\<close> on exactly these texts, and on every other text
  \<open>fromisoformat\<close> is the parameter \<open>other\<close>. The result: printing and reading back is the
  identity on the instants a \<open>datetime\<close> can hold (years 1 to 9999).
\<close>

section \<open>The inverse of the civil calendar\<close>

definition days_of_civil :: "int \<Rightarrow> int \<Rightarrow> int \<Rightarrow> date" where
  "days_of_civil y m d = (let y' = (if m \<le> 2 then y - 1 else y); era = y' div 400; yoe = y' - era * 400;
       mp = (if 2 < m then m - 3 else m + 9); doy = (153 * mp + 2) div 5 + d - 1
     in era * 146097 + (365 * yoe + yoe div 4 - yoe div 100 + doy) - 719468)"

lemma quotient_ineq: "0 < c \<Longrightarrow> c * (a div c) \<le> a \<and> a < c * (a div c) + c" for a c :: int
  by (metis add.commute add_le_cancel_left linorder_not_le mult_div_mod_eq pos_mod_bound pos_mod_sign
      add.left_neutral add_less_cancel_left le_add_same_cancel1)

lemma yoe_bounds:
  fixes doe :: int
  assumes "0 \<le> doe" "doe < 146097"
  defines "yoe \<equiv> (doe - doe div 1460 + doe div 36524 - doe div 146096) div 365"
  shows "0 \<le> yoe" "yoe < 400" "0 \<le> doe - (365 * yoe + yoe div 4 - yoe div 100)"
    "doe - (365 * yoe + yoe div 4 - yoe div 100) \<le> 366"
proof -
  define q1 q2 q3 where "q1 = doe div 1460" and "q2 = doe div 36524" and "q3 = doe div 146096"
  define y4 y100 where "y4 = yoe div 4" and "y100 = yoe div 100"
  have q: "1460 * q1 \<le> doe" "doe < 1460 * q1 + 1460" "36524 * q2 \<le> doe" "doe < 36524 * q2 + 36524"
    "146096 * q3 \<le> doe" "doe < 146096 * q3 + 146096"
    using quotient_ineq [of 1460 doe] quotient_ineq [of 36524 doe] quotient_ineq [of 146096 doe]
    by (simp_all add: q1_def q2_def q3_def)
  have y: "365 * yoe \<le> doe - q1 + q2 - q3" "doe - q1 + q2 - q3 < 365 * yoe + 365"
    using quotient_ineq [of 365 "doe - q1 + q2 - q3"] by (simp_all add: yoe_def q1_def q2_def q3_def)
  have z: "4 * y4 \<le> yoe" "yoe < 4 * y4 + 4" "100 * y100 \<le> yoe" "yoe < 100 * y100 + 100"
    using quotient_ineq [of 4 yoe] quotient_ineq [of 100 yoe] by (simp_all add: y4_def y100_def)
  have range: "q2 = 0 \<or> q2 = 1 \<or> q2 = 2 \<or> q2 = 3 \<or> q2 = 4" "q3 = 0 \<or> q3 = 1" using q assms(1,2) by linarith+
  have "q3 = 1 \<Longrightarrow> q2 = 4" "q2 = 4 \<Longrightarrow> q3 = 1" using q assms(1,2) by linarith+
  with range have cases: "(q2 = 0 \<and> q3 = 0) \<or> (q2 = 1 \<and> q3 = 0) \<or> (q2 = 2 \<and> q3 = 0) \<or> (q2 = 3 \<and> q3 = 0)
      \<or> (q2 = 4 \<and> q3 = 1)" by linarith
  show "0 \<le> yoe" "yoe < 400" using cases q y assms(1,2) by linarith+
  have y100: "q2 - q3 \<le> y100" "y100 \<le> q2 - q3 + 1" using cases q y z assms(1,2) by linarith+
  have q4: "q1 - 1 \<le> y4" "y4 \<le> q1" using cases q y z assms(1,2) by linarith+
  have "y4 = q1 - 1 \<Longrightarrow> yoe \<le> 4 * q1 - 1" using z by linarith
  then have "0 \<le> doe - (365 * yoe + y4 - y100) \<and> doe - (365 * yoe + y4 - y100) \<le> 366"
    using y y100 q4 by linarith
  then show "0 \<le> doe - (365 * yoe + yoe div 4 - yoe div 100)" "doe - (365 * yoe + yoe div 4 - yoe div 100) \<le> 366"
    by (simp_all add: y4_def y100_def)
qed

lemma civil_inverse:
  assumes "civil days = (y, m, d)"
  shows "days_of_civil y m d = days" and "1 \<le> m" and "m \<le> 12" and "1 \<le> d" and "d \<le> 31"
proof -
  define era where "era = (days + 719468) div 146097"
  define doe where "doe = days + 719468 - era * 146097"
  define yoe where "yoe = (doe - doe div 1460 + doe div 36524 - doe div 146096) div 365"
  define doy where "doy = doe - (365 * yoe + yoe div 4 - yoe div 100)"
  define mp where "mp = (5 * doy + 2) div 153"
  have doe: "0 \<le> doe" "doe < 146097"
    using quotient_ineq [of 146097 "days + 719468"] by (simp_all add: doe_def era_def)
  note bounds = yoe_bounds [OF doe, folded yoe_def, folded doy_def]
  have q: "153 * mp \<le> 5 * doy + 2" "5 * doy + 2 < 153 * mp + 153"
    "5 * ((153 * mp + 2) div 5) \<le> 153 * mp + 2" "153 * mp + 2 < 5 * ((153 * mp + 2) div 5) + 5"
    using quotient_ineq [of 153 "5 * doy + 2"] quotient_ineq [of 5 "153 * mp + 2"] by (simp_all add: mp_def)
  have mp: "0 \<le> mp" "mp \<le> 11" using bounds(3,4) q by linarith+
  have "civil days = (yoe + era * 400 + (if (if mp < 10 then mp + 3 else mp - 9) \<le> 2 then 1 else 0),
      if mp < 10 then mp + 3 else mp - 9, doy - (153 * mp + 2) div 5 + 1)"
    unfolding civil_def Let_def mp_def doy_def yoe_def doe_def era_def by (rule refl)
  note fields = this [unfolded assms prod.inject]
  have m: "m = (if mp < 10 then mp + 3 else mp - 9)" and d: "d = doy - (153 * mp + 2) div 5 + 1"
    by (rule fields [THEN conjunct2, THEN conjunct1], rule fields [THEN conjunct2, THEN conjunct2])
  have y: "y = yoe + era * 400 + (if m \<le> 2 then 1 else 0)" unfolding m by (rule fields [THEN conjunct1])
  note civ = m d y
  show "1 \<le> m" "m \<le> 12" using mp civ(1) by auto
  show "1 \<le> d" "d \<le> 31" unfolding civ(2) using q by linarith+
  have y': "(if m \<le> 2 then y - 1 else y) = yoe + era * 400" using civ(3) by simp
  have mp': "(if 2 < m then m - 3 else m + 9) = mp" using civ(1) mp by auto
  have "(yoe + era * 400) div 400 = era" using bounds(1,2) by simp
  then show "days_of_civil y m d = days"
    unfolding days_of_civil_def Let_def y' mp' by (simp add: civ(2) doy_def doe_def)
qed

section \<open>Reading\<close>

definition part :: "nat \<Rightarrow> nat \<Rightarrow> string \<Rightarrow> nat" where
  "part i n s = undec (take n (drop i s))"

definition iso_candidate :: "string \<Rightarrow> instant" where
  "iso_candidate s = days_of_civil (int (part 0 4 s)) (int (part 5 2 s)) (int (part 8 2 s)) * us_per_day
     + int (part 11 2 s) * us_per_hour + int (part 14 2 s) * us_per_minute + int (part 17 2 s) * us_per_second
     + (if take 1 (drop 19 s) = ''.'' then int (part 20 6 s) else 0)"

text \<open>\<open>MINYEAR\<close> and \<open>MAXYEAR\<close>\<close>

definition py_datetime :: "instant \<Rightarrow> bool" where
  "py_datetime t \<longleftrightarrow> (case civil (utc_date t) of (y, m, d) \<Rightarrow> 1 \<le> y \<and> y \<le> 9999)"

definition read_iso :: "string \<Rightarrow> instant option" where
  "read_iso s = (let t = iso_candidate s in if py_datetime t \<and> instant_iso t = s then Some t else None)"

definition fromisoformat :: "(string \<Rightarrow> datetime res) \<Rightarrow> string \<Rightarrow> datetime res" where
  "fromisoformat other s = (case read_iso s of Some t \<Rightarrow> Inr (Aware t 0) | None \<Rightarrow> other s)"

section \<open>The round trip\<close>

lemma length_dec: "n < 10 ^ w \<Longrightarrow> 0 < w \<Longrightarrow> length (dec n) \<le> w"
proof (induction n arbitrary: w rule: dec.induct)
  case (1 n)
  show ?case
  proof (cases "n < 10")
    case True
    then show ?thesis using 1 by (simp add: dec.simps [of n])
  next
    case False
    then obtain v where v: "w = Suc v" "0 < v" using 1(2,3) by (cases w; cases "w - 1") auto
    then have "n div 10 < 10 ^ v" using 1(2) by (simp add: less_mult_imp_div_less mult.commute)
    then show ?thesis using 1(1) [of v] False v by (simp add: dec.simps [of n])
  qed
qed

lemma length_pad: "n < 10 ^ w \<Longrightarrow> 0 < w \<Longrightarrow> length (pad w n) = w"
  using length_dec [of n w] by (simp add: pad_def)

lemma time_parts_bounds:
  assumes "time_parts t = (h, m, s, us)"
  shows "h < 24" "m < 60" "s < 60" "us < 1000000"
    and "int h * us_per_hour + int m * us_per_minute + int s * us_per_second + int us = t mod us_per_day"
proof -
  define u where "u = t mod us_per_day"
  have u: "0 \<le> u" "u < us_per_day" unfolding u_def by simp_all
  have p: "int h = u div us_per_hour" "int m = u div us_per_minute mod 60" "int s = u div us_per_second mod 60"
    "int us = u mod us_per_second"
  proof -
    note nat = assms [unfolded time_parts_def Let_def, folded u_def, unfolded prod.inject]
    note nat = nat [THEN conjunct1] nat [THEN conjunct2, THEN conjunct1]
      nat [THEN conjunct2, THEN conjunct2, THEN conjunct1] nat [THEN conjunct2, THEN conjunct2, THEN conjunct2]
    show "int h = u div us_per_hour" unfolding nat(1) [symmetric]
      by (rule nat_0_le, subst pos_imp_zdiv_nonneg_iff, simp, rule u)
    show "int m = u div us_per_minute mod 60" "int s = u div us_per_second mod 60" "int us = u mod us_per_second"
      unfolding nat(2-4) [symmetric] by (rule nat_0_le, rule pos_mod_sign, simp)+
  qed
  have d: "u div us_per_hour = u div us_per_minute div 60" "u div us_per_minute = u div us_per_second div 60"
    using zdiv_zmult2_eq [of 60 u us_per_minute] zdiv_zmult2_eq [of 60 u us_per_second] by simp_all
  have "int h * 60 + int m = u div us_per_minute" unfolding p d(1) by (rule div_mult_mod_eq)
  moreover have "u div us_per_minute * 60 + int s = u div us_per_second" unfolding p d(2) by (rule div_mult_mod_eq)
  moreover have "u div us_per_second * us_per_second + int us = u" unfolding p by (rule div_mult_mod_eq)
  ultimately show "int h * us_per_hour + int m * us_per_minute + int s * us_per_second + int us = t mod us_per_day"
    unfolding u_def [symmetric] by linarith
  have "us_per_hour * int h \<le> u" using quotient_ineq [of us_per_hour u] by (simp add: p)
  then have "int h < 24" using u by linarith
  then show "h < 24" by simp
  have "int m < 60" "int s < 60" "int us < 1000000" unfolding p by simp_all
  then show "m < 60" "s < 60" "us < 1000000" by simp_all
qed

lemma instant_iso_parts:
  assumes c: "civil (utc_date t) = (y, mo, d)" and y: "0 \<le> y" "y \<le> 9999" and p: "time_parts t = (h, m, s, us)"
  shows "part 0 4 (instant_iso t) = nat y" "part 5 2 (instant_iso t) = nat mo" "part 8 2 (instant_iso t) = nat d"
    "part 11 2 (instant_iso t) = h" "part 14 2 (instant_iso t) = m" "part 17 2 (instant_iso t) = s"
    "(if take 1 (drop 19 (instant_iso t)) = ''.'' then part 20 6 (instant_iso t) else 0) = us"
proof -
  note b = time_parts_bounds [OF p] civil_inverse [OF c]
  have len: "length (pad 4 (nat y)) = 4" "length (pad 2 (nat mo)) = 2" "length (pad 2 (nat d)) = 2"
    "length (pad 2 h) = 2" "length (pad 2 m) = 2" "length (pad 2 s) = 2" "length (pad 6 us) = 6"
    using b y by (auto intro!: length_pad)
  have iso: "instant_iso t = pad 4 (nat y) @ ''-'' @ pad 2 (nat mo) @ ''-'' @ pad 2 (nat d) @ ''T'' @ pad 2 h
      @ '':'' @ pad 2 m @ '':'' @ pad 2 s @ (if us = 0 then [] else ''.'' @ pad 6 us) @ ''+00:00''"
    by (simp add: instant_iso_def date_iso_def c p)
  show "part 0 4 (instant_iso t) = nat y" "part 5 2 (instant_iso t) = nat mo" "part 8 2 (instant_iso t) = nat d"
    "part 11 2 (instant_iso t) = h" "part 14 2 (instant_iso t) = m" "part 17 2 (instant_iso t) = s"
    "(if take 1 (drop 19 (instant_iso t)) = ''.'' then part 20 6 (instant_iso t) else 0) = us"
    unfolding part_def iso by (simp_all add: len undec_pad)
qed

lemma read_iso_instant:
  assumes "py_datetime t"
  shows "read_iso (instant_iso t) = Some t"
proof -
  obtain y mo d where c: "civil (utc_date t) = (y, mo, d)" by (cases "civil (utc_date t)")
  then have y: "0 \<le> y" "y \<le> 9999" using assms by (simp_all add: py_datetime_def)
  obtain h m s us where p: "time_parts t = (h, m, s, us)" by (cases "time_parts t")
  note parts = instant_iso_parts [OF c y p] and civ = civil_inverse [OF c] and tb = time_parts_bounds [OF p]
  have us: "(if take 1 (drop 19 (instant_iso t)) = ''.'' then int (part 20 6 (instant_iso t)) else 0) = int us"
    using parts(7) by (simp split: if_splits)
  have "iso_candidate (instant_iso t) = utc_date t * us_per_day
      + (int h * us_per_hour + int m * us_per_minute + int s * us_per_second + int us)"
    unfolding iso_candidate_def us parts(1-6) using civ y by simp
  also have "\<dots> = t" unfolding tb(5) by (simp add: utc_date_def)
  finally show ?thesis using assms by (simp add: read_iso_def Let_def)
qed

lemma fromisoformat_instant: "py_datetime t \<Longrightarrow> fromisoformat other (instant_iso t) = Inr (Aware t 0)"
  by (simp add: fromisoformat_def read_iso_instant)

lemma read_iso_Some: "read_iso s = Some t \<Longrightarrow> py_datetime t \<and> instant_iso t = s"
  by (auto simp: read_iso_def Let_def split: if_splits)

end
