(* ===== verification/Metrics.thy ===== *)
theory Metrics
  imports Floats Python_Text Prelude
begin

text \<open>
  The registry of runtime metrics (\<open>telemetry/metrics.py\<close>): counters and histograms with a
  fixed set of names and labels. The results: an update touches exactly the addressed series, no
  counter ever decreases, and in every reachable registry the buckets of a histogram are
  cumulative and bounded by its count. The rendering of floats (\<open>format(x, "g")\<close>) and the lock
  are not modelled.
\<close>

section \<open>The registry\<close>

definition histogram_buckets :: "rat list" where
  "histogram_buckets = map fl [0.005, 0.01, 0.025, 0.05, 0.1, 0.25, 0.5, 1, 2, 5, 10]"

definition counter_labels :: "(string, string list) dict" where
  "counter_labels =
     [(''http_requests_total'', [''method'', ''route'', ''status'']), (''planner_runs_total'', [''result'']),
      (''plan_snapshots_appended_total'', []), (''outbox_jobs_total'', [''result'']),
      (''external_executions_failed_total'', []), (''external_execution_verifications_total'', [''result'']),
      (''oauth_exchange_failures_total'', [])]"

definition histogram_labels :: "(string, string list) dict" where
  "histogram_labels =
     [(''http_request_duration_seconds'', [''method'', ''route'', ''status'']), (''planner_latency_seconds'', [''result''])]"

definition metric_labels :: "(string, string list) dict" where
  "metric_labels = counter_labels @ histogram_labels"

record histogram =
  hi_buckets :: "int list"
  hi_count :: int
  hi_total :: rat

type_synonym series = "string \<times> string list"

record registry =
  mx_counters :: "(series, int) dict"
  mx_histograms :: "(series, histogram) dict"

definition new_metrics :: registry where
  "new_metrics = \<lparr>mx_counters = [], mx_histograms = []\<rparr>"

text \<open>\<open>repr\<close> of a tuple of strings\<close>

definition tuple_repr :: "string list \<Rightarrow> string" where
  "tuple_repr xs = (case xs of [x] \<Rightarrow> ''('' @ py_repr x @ '',)''
     | _ \<Rightarrow> ''('' @ concat (map (\<lambda>(i, x). (if i = 0 then [] else '', '') @ py_repr x) (enumerate 0 xs)) @ '')'')"

definition metric_values :: "string \<Rightarrow> (string, string) dict \<Rightarrow> string list res" where
  "metric_values name labels = (case map_of metric_labels name of
     None \<Rightarrow> Inl (ValueError (''unknown metric '' @ name))
   | Some expected \<Rightarrow>
       if fst ` set labels \<noteq> set expected
       then Inl (ValueError (''labels for '' @ name @ '' must be '' @ tuple_repr expected))
       else Inr (map (\<lambda>k. dget labels k []) expected))"

definition increment :: "string \<Rightarrow> int \<Rightarrow> (string, string) dict \<Rightarrow> registry \<Rightarrow> registry res" where
  "increment name amount labels m =
     (if map_of counter_labels name = None \<or> amount < 0
      then Inl (ValueError (''invalid counter update for '' @ name))
      else rbind (metric_values name labels) (\<lambda>vals.
        Inr (m\<lparr>mx_counters := AList.update (name, vals) (dget (mx_counters m) (name, vals) 0 + amount) (mx_counters m)\<rparr>)))"

definition fresh_histogram :: histogram where
  "fresh_histogram = \<lparr>hi_buckets = replicate (length histogram_buckets) 0, hi_count = 0, hi_total = 0\<rparr>"

definition observed :: "rat \<Rightarrow> histogram \<Rightarrow> histogram" where
  "observed v h = \<lparr>hi_buckets = map (\<lambda>(n, b). if v \<le> b then n + 1 else n) (zip (hi_buckets h) histogram_buckets),
     hi_count = hi_count h + 1, hi_total = fadd (hi_total h) v\<rparr>"

definition observe :: "string \<Rightarrow> rat \<Rightarrow> (string, string) dict \<Rightarrow> registry \<Rightarrow> registry res" where
  "observe name v labels m =
     (if map_of histogram_labels name = None \<or> v < 0
      then Inl (ValueError (''invalid histogram observation for '' @ name))
      else rbind (metric_values name labels) (\<lambda>vals.
        Inr (m\<lparr>mx_histograms := AList.update (name, vals)
          (observed v (dget (mx_histograms m) (name, vals) fresh_histogram)) (mx_histograms m)\<rparr>)))"

text \<open>\<open>_escape\<close> and \<open>_labels\<close>\<close>

definition escape_char :: "char \<Rightarrow> string" where
  "escape_char c = (if c = CHR 0x5C then [CHR 0x5C, CHR 0x5C]
     else if c = CHR 0x0A then [CHR 0x5C, CHR ''n'']
     else if c = CHR 0x22 then [CHR 0x5C, CHR 0x22] else [c])"

text \<open>The three \<open>replace\<close> calls one after the other do this in one pass: the later ones do not
  meet a character that the earlier ones produced.\<close>

definition escape_label :: "string \<Rightarrow> string" where
  "escape_label s = concat (map escape_char s)"

fun join_comma :: "string list \<Rightarrow> string" where
  "join_comma [] = []"
| "join_comma [x] = x"
| "join_comma (x # xs) = x @ '','' @ join_comma xs"

definition label_text :: "string \<Rightarrow> string list \<Rightarrow> string option \<Rightarrow> string" where
  "label_text name vals le =
     (let pairs = zip (dget metric_labels name []) vals @ (case le of None \<Rightarrow> [] | Some x \<Rightarrow> [(''le'', x)])
      in if pairs = [] then []
         else ''{'' @ join_comma (map (\<lambda>(k, v). k @ ''='' @ [CHR 0x22] @ escape_label v @ [CHR 0x22]) pairs) @ ''}'')"

section \<open>What the registry keeps\<close>

inductive metrics_step :: "registry \<Rightarrow> registry \<Rightarrow> bool" where
  count: "increment name amount labels m = Inr m' \<Longrightarrow> metrics_step m m'"
| measure: "observe name v labels m = Inr m' \<Longrightarrow> metrics_step m m'"

definition histogram_ok :: "histogram \<Rightarrow> bool" where
  "histogram_ok h \<longleftrightarrow> length (hi_buckets h) = length histogram_buckets \<and> sorted (hi_buckets h)
     \<and> (\<forall>n\<in>set (hi_buckets h). 0 \<le> n \<and> n \<le> hi_count h)"

definition metrics_ok :: "registry \<Rightarrow> bool" where
  "metrics_ok m \<longleftrightarrow> (\<forall>h\<in>snd ` set (mx_histograms m). histogram_ok h) \<and> (\<forall>n\<in>snd ` set (mx_counters m). 0 \<le> n)"

lemma buckets_sorted: "sorted histogram_buckets"
  unfolding histogram_buckets_def by (simp add: fl_mono)

lemma observed_ok:
  assumes "histogram_ok h"
  shows "histogram_ok (observed v h)"
proof -
  let ?f = "\<lambda>(n, b). if v \<le> b then n + 1 else n"
  have len: "length (hi_buckets h) = length histogram_buckets" and s: "sorted (hi_buckets h)"
    and b: "\<forall>n\<in>set (hi_buckets h). 0 \<le> n \<and> n \<le> hi_count h" using assms by (simp_all add: histogram_ok_def)
  have "sorted (map ?f (zip (hi_buckets h) histogram_buckets))"
  proof (rule sorted_iff_nth_mono_less [THEN iffD2], intro allI impI)
    fix i j
    assume "i < j" "j < length (map ?f (zip (hi_buckets h) histogram_buckets))"
    then have ij: "i \<le> j" "j < length histogram_buckets" using len by auto
    have "hi_buckets h ! i \<le> hi_buckets h ! j" "histogram_buckets ! i \<le> histogram_buckets ! j"
      using sorted_nth_mono [OF s ij(1)] sorted_nth_mono [OF buckets_sorted ij] ij len by simp_all
    then show "map ?f (zip (hi_buckets h) histogram_buckets) ! i \<le> map ?f (zip (hi_buckets h) histogram_buckets) ! j"
      using ij len by auto
  qed
  moreover have "0 \<le> n \<and> n \<le> hi_count h + 1" if n: "n \<in> set (map ?f (zip (hi_buckets h) histogram_buckets))" for n
  proof -
    obtain k x where k: "(k, x) \<in> set (zip (hi_buckets h) histogram_buckets)" "n = ?f (k, x)" using n by auto
    have "k \<in> set (hi_buckets h)" using k(1) by (rule set_zip_leftD)
    then show ?thesis using b k(2) by (auto split: if_splits)
  qed
  ultimately show ?thesis using len by (simp add: histogram_ok_def observed_def)
qed

lemma fresh_ok: "histogram_ok fresh_histogram"
  by (simp add: histogram_ok_def fresh_histogram_def)

lemma dget_values: "dget d k v \<in> insert v (snd ` set d)"
  by (auto simp: dget_def split: option.splits dest: map_of_SomeD intro: rev_image_eqI)

lemma update_values: "snd ` set (AList.update k v d) \<subseteq> insert v (snd ` set d)"
  by (induction d) auto

lemma metrics_step_ok: "metrics_step m m' \<Longrightarrow> metrics_ok m \<Longrightarrow> metrics_ok m'"
proof (induction rule: metrics_step.induct)
  case (count name amount labels m m')
  then obtain vals where "0 \<le> amount" and
    m': "m' = m\<lparr>mx_counters := AList.update (name, vals) (dget (mx_counters m) (name, vals) 0 + amount) (mx_counters m)\<rparr>"
    by (auto simp: increment_def res_simps split: if_splits)
  moreover have "0 \<le> dget (mx_counters m) (name, vals) 0"
    using dget_values [of "mx_counters m" "(name, vals)" 0] count.prems by (auto simp: metrics_ok_def)
  ultimately show ?case
    using count.prems update_values [of "(name, vals)" "dget (mx_counters m) (name, vals) 0 + amount" "mx_counters m"]
    by (fastforce simp: metrics_ok_def)
next
  case (measure name v labels m m')
  then obtain vals where
    m': "m' = m\<lparr>mx_histograms := AList.update (name, vals)
          (observed v (dget (mx_histograms m) (name, vals) fresh_histogram)) (mx_histograms m)\<rparr>"
    by (auto simp: observe_def res_simps split: if_splits)
  have "histogram_ok (dget (mx_histograms m) (name, vals) fresh_histogram)"
    using dget_values [of "mx_histograms m" "(name, vals)" fresh_histogram] measure.prems fresh_ok
    by (auto simp: metrics_ok_def)
  from observed_ok [OF this] show ?case
    using measure.prems update_values [of "(name, vals)" "observed v (dget (mx_histograms m) (name, vals) fresh_histogram)"
      "mx_histograms m"] unfolding m' by (fastforce simp: metrics_ok_def)
qed

text \<open>In every registry reached from the empty one by increments and observations, the buckets of
  every histogram are cumulative (each at most the next), none is above the number of
  observations, there is one per boundary, and no counter is negative.\<close>

theorem metrics_reach_ok:
  assumes "metrics_step\<^sup>*\<^sup>* new_metrics m"
  shows "metrics_ok m"
  using assms
proof (induction rule: rtranclp_induct)
  case base
  show ?case by (simp add: metrics_ok_def new_metrics_def)
qed (rule metrics_step_ok)

lemma metrics_reach_ok_witness:
  "\<exists>m. metrics_ok m \<and> increment ''planner_runs_total'' 1 [(''result'', ''OK'')] new_metrics = Inr m"
proof -
  have "\<exists>m. increment ''planner_runs_total'' 1 [(''result'', ''OK'')] new_metrics = Inr m"
    by (simp add: increment_def counter_labels_def metric_values_def metric_labels_def)
  then obtain m where m: "increment ''planner_runs_total'' 1 [(''result'', ''OK'')] new_metrics = Inr m" by blast
  then have "metrics_step\<^sup>*\<^sup>* new_metrics m" using metrics_step.count by blast
  from metrics_reach_ok [OF this] m show ?thesis by blast
qed

text \<open>A successful increment adds its amount to the addressed series and leaves the others alone.\<close>

lemma increment_effect:
  assumes "increment name amount labels m = Inr m'"
  shows "\<exists>vals. metric_values name labels = Inr vals
    \<and> (\<forall>s. dget (mx_counters m') s 0 = dget (mx_counters m) s 0 + (if s = (name, vals) then amount else 0))
    \<and> mx_histograms m' = mx_histograms m"
  using assms by (auto simp: increment_def res_simps dict_simps split: if_splits)

text \<open>Escaping loses nothing: different label values print differently.\<close>

lemma escape_label_inject: "escape_label s = escape_label t \<longleftrightarrow> s = t"
proof
  assume "escape_label s = escape_label t"
  then show "s = t"
  proof (induction s arbitrary: t)
    case Nil
    then show ?case by (cases t) (auto simp: escape_label_def escape_char_def split: if_splits)
  next
    case (Cons c s)
    then show ?case
      by (cases t) (auto simp: escape_label_def escape_char_def split: if_splits)
  qed
qed simp

end
