(* ===== verification/Planning_Service.thy ===== *)
theory Planning_Service
  imports Workspace_Service Plan_Blocks Iso_Text Metrics
begin

text \<open>
  Plan snapshots (\<open>planning/service.py\<close>, \<open>planning/repository.py\<close>, \<open>canonical_core\<close> of
  \<open>contracts/output.py\<close>): the rows of a workspace become the planner's input, the planner's
  output becomes a stored snapshot, and the stored snapshot is the prior plan of the next run.
  The order in which a query without \<open>ORDER BY\<close> returns rows is the order of the list.
  The results: at most one snapshot of a workspace is current and history is only appended to;
  a run that fails changes no snapshot; and what the next run reads as the prior plan is the
  base plan of the run before.
\<close>

section \<open>The stored output\<close>

text \<open>The JSON of \<open>output_json\<close>, floats included.\<close>

datatype core_json =
    CNull
  | CStr string
  | CInt int
  | CFloat rat
  | CList "core_json list"
  | CObj "(string \<times> core_json) list"

type_synonym core_object = "(string \<times> core_json) list"

definition core_id :: "task_id \<Rightarrow> core_json" where
  "core_id t = CStr (hex_of (tid_value t))"

definition core_ids :: "task_id list \<Rightarrow> core_json" where
  "core_ids ts = CList (map core_id ts)"

definition core_allocation :: "task_allocation \<Rightarrow> core_json" where
  "core_allocation a = CObj [(''task_id'', core_id (al_task a)), (''kind'', CStr (al_kind a)),
     (''start'', CStr (instant_iso (al_start a))), (''end'', CStr (instant_iso (al_end a)))]"

definition core_today :: "today_plan option \<Rightarrow> core_json" where
  "core_today td = CObj
     [(''core_result_task_id'', case td of None \<Rightarrow> CNull | Some d \<Rightarrow> (case td_core d of None \<Rightarrow> CNull | Some t \<Rightarrow> core_id t)),
      (''must_do'', core_ids (case td of None \<Rightarrow> [] | Some d \<Rightarrow> td_must_do d)),
      (''next_queue'', core_ids (case td of None \<Rightarrow> [] | Some d \<Rightarrow> td_next_queue d)),
      (''opportunistic'', core_ids (case td of None \<Rightarrow> [] | Some d \<Rightarrow> td_opportunistic d)),
      (''excluded'', core_ids (case td of None \<Rightarrow> [] | Some d \<Rightarrow> td_excluded d))]"

definition core_risk :: "milestone_risk \<Rightarrow> core_json" where
  "core_risk r = CObj [(''milestone_id'', CStr (hex_of (ms_value (mr_milestone r)))), (''level'', CStr (mr_level r)),
     (''base_coverage'', CFloat (mr_base_coverage r)), (''safety_coverage'', CFloat (mr_safety_coverage r)),
     (''slack_minutes'', case mr_slack r of None \<Rightarrow> CNull | Some n \<Rightarrow> CInt n),
     (''reasons'', CList (map CStr (mr_reasons r)))]"

definition sorted_base :: "planner_output \<Rightarrow> task_allocation list" where
  "sorted_base out = sort_key (\<lambda>a. (al_start a, al_task a))
     (case out_base_plan out of None \<Rightarrow> [] | Some p \<Rightarrow> pr_allocations p)"

definition canonical_core :: "planner_output \<Rightarrow> core_object" where
  "canonical_core out =
     [(''status'', CStr (out_status out)),
      (''base_allocations'', CList (map core_allocation (sorted_base out))),
      (''today'', core_today (out_today out)),
      (''risks'', CList (map core_risk (sort_key mr_milestone (out_risks out)))),
      (''warnings'', CList (map CStr (out_warnings out @ out_external_warnings out)))]"

section \<open>Rows\<close>

record workspace_row =
  ws_id :: uuid
  ws_timezone :: string

text \<open>\<open>tags_json\<close>: \<open>None\<close> when it is not an object.\<close>

record window_row =
  wr_workspace :: uuid
  wr_start :: instant
  wr_end :: instant
  wr_tags :: "(string, string list) dict option"

record event_row =
  cr_id :: uuid
  cr_workspace :: uuid
  cr_title :: string
  cr_start :: instant
  cr_end :: instant
  cr_kind :: string
  cr_deadline_date :: "date option"
  cr_sync_status :: string
  cr_version :: int

record dependency_row =
  dr_workspace :: uuid
  dr_predecessor :: uuid
  dr_successor :: uuid
  dr_type :: string

record external_row =
  er_id :: uuid
  er_workspace :: uuid
  er_deliverable :: string
  er_owner_label :: "string option"
  er_expected_delivery :: "instant option"
  er_uncertainty_buffer :: int
  er_fallback_available :: bool
  er_version :: int

record external_task_row =
  lr_workspace :: uuid
  lr_dependency :: uuid
  lr_task :: uuid
  lr_role :: string

record excluded_row =
  xd_workspace :: uuid
  xd_date :: date

record plan_row =
  pl_id :: uuid
  pl_workspace :: uuid
  pl_planner_version :: string
  pl_input_hash :: string
  pl_reason :: string
  pl_output :: core_object
  pl_current :: bool
  pl_created_at :: instant

record planning_db = workspace_db +
  db_workspaces :: "workspace_row list"
  db_windows :: "window_row list"
  db_events :: "event_row list"
  db_dependencies :: "dependency_row list"
  db_externals :: "external_row list"
  db_external_tasks :: "external_task_row list"
  db_excluded :: "excluded_row list"
  db_plans :: "plan_row list"

section \<open>Snapshots\<close>

text \<open>\<open>E(text)\<close> for an enum \<open>E\<close> of strings\<close>

definition enum_of :: "string \<Rightarrow> ('a \<Rightarrow> string) \<Rightarrow> 'a list \<Rightarrow> string \<Rightarrow> 'a res" where
  "enum_of name value members s = (case find (\<lambda>x. value x = s) members of Some x \<Rightarrow> Inr x
     | None \<Rightarrow> Inl (ValueError (py_repr s @ '' is not a valid '' @ name)))"

definition planning_task_snapshot :: "task_row \<Rightarrow> task res" where
  "planning_task_snapshot m = snapshot_from_model m"

definition milestone_snapshot_from_model :: "milestone_row \<Rightarrow> milestone res" where
  "milestone_snapshot_from_model m =
     rbind (enum_of ''DeadlineType'' deadline_type_value
       [HARD_DEADLINE, EXTERNAL_COMMITMENT, INTERNAL_TARGET, SOFT_GOAL] (mr_deadline_type m)) (\<lambda>kind.
     mk_milestone aware_instant \<lparr>mi_id = MilestoneId (mr_id m), mi_workspace = WorkspaceId (mr_workspace m),
       mi_workstream = WorkstreamId (mr_workstream m), mi_title = mr_title m, mi_deadline_date = mr_deadline_date m,
       mi_deadline_at = mr_deadline_at m, mi_deadline_date_known = mr_deadline_date_known m,
       mi_deadline_time_known = mr_deadline_time_known m, mi_deadline_type = kind,
       mi_required_buffer = mr_required_buffer m, mi_version = mr_version m\<rparr>)"

definition calendar_snapshot_from_model :: "event_row \<Rightarrow> calendar_event res" where
  "calendar_snapshot_from_model r =
     rbind (enum_of ''CalendarEventKind'' calendar_event_kind_value
       [FIXED_BUSY, MOVABLE_COMMITMENT, TENTATIVE, ALL_DAY_INFO] (cr_kind r)) (\<lambda>kind.
     mk_calendar_event aware_instant \<lparr>ce_id = CalendarEventId (cr_id r), ce_workspace = WorkspaceId (cr_workspace r),
       ce_title = cr_title r, ce_start = cr_start r, ce_end = cr_end r, ce_kind = kind,
       ce_deadline_date = cr_deadline_date r, ce_version = cr_version r\<rparr>)"

definition dependency_from_model :: "dependency_row \<Rightarrow> task_dependency res" where
  "dependency_from_model r =
     rbind (enum_of ''DependencyType'' dependency_type_value
       [BLOCKS_START, BLOCKS_COMPLETION, WAITING_EXTERNAL, RELATED] (dr_type r)) (\<lambda>kind.
     Inr \<lparr>dp_predecessor = TaskId (dr_predecessor r), dp_successor = TaskId (dr_successor r), dp_type = kind\<rparr>)"

definition window_from_model :: "window_row \<Rightarrow> window res" where
  "window_from_model r = mk_window aware_instant \<lparr>aw_start = wr_start r, aw_end = wr_end r,
     aw_tags = (case wr_tags r of None \<Rightarrow> [] | Some d \<Rightarrow> dget d ''tags'' [])\<rparr>"

text \<open>The tasks linked to an external dependency in a role, in the order of the table.\<close>

definition linked_tasks :: "external_task_row list \<Rightarrow> uuid \<Rightarrow> string \<Rightarrow> task_id list" where
  "linked_tasks rows i role = map (\<lambda>r. TaskId (lr_task r)) (filter (\<lambda>r. lr_dependency r = i \<and> lr_role r = role) rows)"

definition external_from_model :: "external_task_row list \<Rightarrow> external_row \<Rightarrow> external_dependency res" where
  "external_from_model links r = mk_external aware_instant
     \<lparr>ex_id = ExternalDependencyId (er_id r), ex_workspace = WorkspaceId (er_workspace r),
      ex_deliverable = er_deliverable r, ex_owner_label = er_owner_label r, ex_expected_delivery = er_expected_delivery r,
      ex_uncertainty_buffer = er_uncertainty_buffer r, ex_fallback_available = er_fallback_available r,
      ex_fallback_tasks = sort (linked_tasks links (er_id r) ''fallback''),
      ex_affected_tasks = sort (linked_tasks links (er_id r) ''affected''), ex_version = er_version r\<rparr>"

definition prior_allocation_from :: "(string \<Rightarrow> datetime res) \<Rightarrow> core_json \<Rightarrow> prior_allocation res" where
  "prior_allocation_from other_iso raw = (case raw of
     CObj kvs \<Rightarrow> (case (dget kvs ''task_id'' CNull, dget kvs ''start'' CNull, dget kvs ''end'' CNull) of
       (CStr i, CStr s, CStr e) \<Rightarrow>
         rbind (rbind (fromisoformat other_iso s) require_aware_utc) (\<lambda>start.
         rbind (rbind (fromisoformat other_iso e) require_aware_utc) (\<lambda>end.
         rbind (raise_if (end \<le> start) (ValueError ''prior plan allocation end must be after start'')) (\<lambda>_.
         (case py_uuid i of None \<Rightarrow> Inl bad_uuid
          | Some u \<Rightarrow> Inr \<lparr>pa_task = TaskId u, pa_start = start, pa_end = end\<rparr>))))
     | _ \<Rightarrow> Inl (ValueError ''prior plan allocation fields must be strings''))
   | _ \<Rightarrow> Inl (ValueError ''prior plan allocation must be an object''))"

definition prior_snapshot_from_model :: "(string \<Rightarrow> datetime res) \<Rightarrow> plan_row \<Rightarrow> prior_plan_snapshot res" where
  "prior_snapshot_from_model other_iso m = (case dget (pl_output m) ''base_allocations'' CNull of
     CList raws \<Rightarrow> rbind (rmap (prior_allocation_from other_iso) raws) (\<lambda>allocations.
       Inr \<lparr>pp_id = pl_id m, pp_input_hash = pl_input_hash m, pp_allocations = allocations\<rparr>)
   | _ \<Rightarrow> Inl (ValueError ''prior plan is missing base_allocations''))"

section \<open>The input of a run\<close>

definition horizon_span :: "milestone_row list \<Rightarrow> instant \<Rightarrow> int" where
  "horizon_span rows now =
     (let ends = List.map_filter (\<lambda>m. case mr_deadline_at m of Some t \<Rightarrow> Some t
          | None \<Rightarrow> map_option (\<lambda>d. d * us_per_day) (mr_deadline_date m)) rows;
        horizon = (if ends = [] then now + 14 * us_per_day else Max (set ends))
      in (if horizon \<le> now then now + us_per_day else horizon) - now)"

definition latest_valid_plan :: "uuid \<Rightarrow> plan_row list \<Rightarrow> plan_row option" where
  "latest_valid_plan w rows = (case sort_key (\<lambda>r. - pl_created_at r) (filter (\<lambda>r. pl_workspace r = w \<and> pl_current r) rows) of
     [] \<Rightarrow> None | r # _ \<Rightarrow> Some r)"

definition planner_version :: string where
  "planner_version = ''planner-spec-1.0''"

definition of_workspace :: "('r \<Rightarrow> uuid) \<Rightarrow> uuid \<Rightarrow> 'r list \<Rightarrow> 'r list" where
  "of_workspace workspace w rows = filter (\<lambda>r. workspace r = w) rows"

definition build_planner_input :: "(string \<Rightarrow> datetime res) \<Rightarrow> tzdb \<Rightarrow> uuid \<Rightarrow> instant \<Rightarrow> planning_db \<Rightarrow> planner_input res" where
  "build_planner_input other_iso tz w now db =
     (case find (\<lambda>r. ws_id r = w) (db_workspaces db) of
        None \<Rightarrow> Inl (ValueError ''workspace not found'')
      | Some workspace \<Rightarrow>
        rbind (rmap window_from_model (of_workspace wr_workspace w (db_windows db))) (\<lambda>windows.
        rbind (rmap (external_from_model (of_workspace lr_workspace w (db_external_tasks db)))
          (of_workspace er_workspace w (db_externals db))) (\<lambda>externals.
        rbind (rmap calendar_snapshot_from_model
          (filter (\<lambda>r. cr_workspace r = w \<and> cr_sync_status r \<noteq> ''tombstoned'') (db_events db))) (\<lambda>events.
        rbind (rmap planning_task_snapshot (of_workspace tr_workspace w (db_tasks db))) (\<lambda>tasks.
        rbind (rmap milestone_snapshot_from_model (of_workspace mr_workspace w (db_milestones db))) (\<lambda>milestones.
        rbind (rmap dependency_from_model (of_workspace dr_workspace w (db_dependencies db))) (\<lambda>dependencies.
        rbind (case latest_valid_plan w (db_plans db) of None \<Rightarrow> Inr None
            | Some row \<Rightarrow> rbind (prior_snapshot_from_model other_iso row) (\<lambda>p. Inr (Some p))) (\<lambda>prior.
        mk_planner_input tz
          \<lparr>in_planner_version = planner_version, in_now = now, in_timezone = ws_timezone workspace,
           in_horizon_end = now + horizon_span (of_workspace mr_workspace w (db_milestones db)) now,
           in_slot_minutes = 15, in_windows = windows, in_events = events, in_tasks = tasks,
           in_milestones = milestones, in_dependencies = dependencies, in_externals = externals,
           in_pinned = map (\<lambda>r. TaskId (tr_id r)) (filter tr_pinned (of_workspace tr_workspace w (db_tasks db))),
           in_excluded_dates = sort (map xd_date (of_workspace xd_workspace w (db_excluded db))),
           in_prior = prior\<rparr>))))))))"

section \<open>A run\<close>

record plan_dto =
  dt_id :: string
  dt_status :: string
  dt_planner_version :: string
  dt_input_hash :: string
  dt_current :: bool

text \<open>The libraries a run uses: \<open>uuid5\<close>, SHA-256, the zones, \<open>fromisoformat\<close> on other texts, and the two
  parameters of the today view (object identity and the iteration order of sets).\<close>

record run_env =
  ev_uuid5 :: "string \<Rightarrow> uuid"
  ev_sha256 :: "nat list \<Rightarrow> string"
  ev_tz :: tzdb
  ev_iso :: "string \<Rightarrow> datetime res"
  ev_shared :: "task_id \<Rightarrow> bool"
  ev_iter :: "uuid list \<Rightarrow> uuid list"

definition mark_superseded :: "plan_row option \<Rightarrow> plan_row list \<Rightarrow> plan_row list" where
  "mark_superseded previous rows = (case previous of None \<Rightarrow> rows
     | Some p \<Rightarrow> put_row pl_id (p\<lparr>pl_current := False\<rparr>) rows)"

text \<open>The commit: column lengths, the primary key, and the index of one current plan per workspace.\<close>

definition insert_plan :: "plan_row \<Rightarrow> plan_row list \<Rightarrow> plan_row list api" where
  "insert_plan r rows =
     (if 40 < length (pl_planner_version r) \<or> 64 < length (pl_input_hash r) then Inl DataError
      else if pl_id r \<in> set (map pl_id rows) then Inl IntegrityError
      else if pl_current r \<and> (\<exists>q\<in>set rows. pl_workspace q = pl_workspace r \<and> pl_current q) then Inl IntegrityError
      else Inr (rows @ [r]))"

definition plan_row_of :: "uuid \<Rightarrow> uuid \<Rightarrow> string \<Rightarrow> instant \<Rightarrow> planner_output \<Rightarrow> plan_row" where
  "plan_row_of new_id w reason created out =
     \<lparr>pl_id = new_id, pl_workspace = w, pl_planner_version = out_planner_version out, pl_input_hash = out_input_hash out,
      pl_reason = reason, pl_output = canonical_core out, pl_current = True, pl_created_at = created\<rparr>"

definition run_plan :: "run_env \<Rightarrow> planner_input \<Rightarrow> planner_output res" where
  "run_plan env v = plan (ev_uuid5 env) (ev_sha256 env) (ev_tz env) (ev_shared env) (ev_iter env) v"

definition create_plan_inner :: "run_env \<Rightarrow> instant \<Rightarrow> instant \<Rightarrow> uuid \<Rightarrow> uuid \<Rightarrow> string \<Rightarrow> planning_db
    \<Rightarrow> (plan_dto \<times> planning_db) api" where
  "create_plan_inner env now created new_id w reason db =
     (case build_planner_input (ev_iso env) (ev_tz env) w now db of
        Inl e \<Rightarrow> Inl (ServiceError e)
      | Inr v \<Rightarrow>
      (case normalize_and_validate (ev_sha256 env) v of
        InvalidInput code rules prior \<Rightarrow>
          Inr (\<lparr>dt_id = [], dt_status = ''INVALID_INPUT'', dt_planner_version = planner_version,
            dt_input_hash = ev_sha256 env (utf8
              ((case latest_valid_plan w (db_plans db) of None \<Rightarrow> [] | Some r \<Rightarrow> pl_input_hash r) @ '':'' @ comma_sep rules)),
            dt_current = False\<rparr>, db)
      | ValidInput _ _ \<Rightarrow>
      (case run_plan env v of
        Inl e \<Rightarrow> Inl (ServiceError e)
      | Inr out \<Rightarrow>
      (case insert_plan (plan_row_of new_id w reason created out)
          (mark_superseded (latest_valid_plan w (db_plans db)) (db_plans db)) of
        Inl e \<Rightarrow> Inl e
      | Inr plans \<Rightarrow>
          Inr (\<lparr>dt_id = uuid_str new_id, dt_status = ''OK'', dt_planner_version = out_planner_version out,
            dt_input_hash = out_input_hash out, dt_current = True\<rparr>, db\<lparr>db_plans := plans\<rparr>)))))"

text \<open>\<open>create_plan\<close>: a run with its metrics, which are updated whether or not it raises; \<open>elapsed\<close> is the
  measured time. The updates cannot raise: their names and labels are registered (\<open>run_metrics_registered\<close>).\<close>

definition record_metric :: "(registry \<Rightarrow> registry res) \<Rightarrow> registry \<Rightarrow> registry" where
  "record_metric update m = (case update m of Inl e \<Rightarrow> m | Inr m' \<Rightarrow> m')"

definition run_metrics :: "(plan_dto \<times> planning_db) api \<Rightarrow> rat \<Rightarrow> registry \<Rightarrow> registry" where
  "run_metrics run elapsed m =
     (let result = (case run of Inl e \<Rightarrow> ''ERROR'' | Inr (d, _) \<Rightarrow> dt_status d);
        appended = (case run of Inl e \<Rightarrow> False | Inr (d, _) \<Rightarrow> dt_current d);
        m = (if appended then record_metric (increment ''plan_snapshots_appended_total'' 1 []) m else m);
        m = record_metric (increment ''planner_runs_total'' 1 [(''result'', result)]) m
      in record_metric (observe ''planner_latency_seconds'' (max 0 elapsed) [(''result'', result)]) m)"

definition create_plan :: "run_env \<Rightarrow> instant \<Rightarrow> instant \<Rightarrow> rat \<Rightarrow> uuid \<Rightarrow> uuid \<Rightarrow> string \<Rightarrow> planning_db \<Rightarrow> registry
    \<Rightarrow> plan_dto api \<times> planning_db \<times> registry" where
  "create_plan env now created elapsed new_id w reason db m =
     (let run = create_plan_inner env now created new_id w reason db; m' = run_metrics run elapsed m
      in case run of Inl e \<Rightarrow> (Inl e, db, m') | Inr (d, db') \<Rightarrow> (Inr d, db', m'))"

lemma run_metrics_registered:
  "\<exists>m'. increment ''plan_snapshots_appended_total'' 1 [] m = Inr m'"
  "\<exists>m'. increment ''planner_runs_total'' 1 [(''result'', r)] m = Inr m'"
  "0 \<le> t \<Longrightarrow> \<exists>m'. observe ''planner_latency_seconds'' t [(''result'', r)] m = Inr m'"
  by (simp_all add: increment_def observe_def counter_labels_def histogram_labels_def metric_values_def metric_labels_def)

section \<open>The history of snapshots\<close>

definition current_plans :: "uuid \<Rightarrow> plan_row list \<Rightarrow> plan_row list" where
  "current_plans w rows = filter (\<lambda>r. pl_workspace r = w \<and> pl_current r) rows"

definition frozen :: "plan_row \<Rightarrow> plan_row" where
  "frozen r = r\<lparr>pl_current := False\<rparr>"

definition plans_ok :: "plan_row list \<Rightarrow> bool" where
  "plans_ok rows \<longleftrightarrow> distinct (map pl_id rows)
     \<and> (\<forall>w. length (current_plans w rows) = (if of_workspace pl_workspace w rows = [] then 0 else 1))"

lemma frozen_simps [simp]: "pl_id (frozen r) = pl_id r" "pl_workspace (frozen r) = pl_workspace r"
  "\<not> pl_current (frozen r)" "frozen (frozen r) = frozen r"
  by (simp_all add: frozen_def)

lemma current_plans_cases:
  assumes "plans_ok rows"
  obtains (none) "current_plans w rows = []" | (one) p where "current_plans w rows = [p]"
proof (cases "current_plans w rows")
  case (Cons p ps)
  have "length (current_plans w rows) \<le> 1" using assms by (simp add: plans_ok_def)
  then show ?thesis using Cons that(2) by auto
qed (use that(1) in blast)

lemma latest_valid_plan_current: "latest_valid_plan w rows = None \<longleftrightarrow> current_plans w rows = []"
  "current_plans w rows = [p] \<Longrightarrow> latest_valid_plan w rows = Some p"
proof -
  show "latest_valid_plan w rows = None \<longleftrightarrow> current_plans w rows = []"
    unfolding latest_valid_plan_def current_plans_def [symmetric]
    by (cases "sort_key (\<lambda>r. - pl_created_at r) (current_plans w rows)") (auto simp: sort_key_Nil_iff dest: arg_cong [of _ _ set])
qed (simp add: latest_valid_plan_def current_plans_def)

lemma current_plans_one:
  assumes "current_plans w rows = [p]"
  shows "x \<in> set rows \<and> pl_workspace x = w \<and> pl_current x \<longleftrightarrow> x = p"
proof -
  have "x \<in> set (current_plans w rows) \<longleftrightarrow> x = p" by (simp add: assms)
  then show ?thesis by (auto simp: current_plans_def)
qed

lemma put_frozen:
  assumes "distinct (map pl_id rows)" and "p \<in> set rows"
  shows "put_row pl_id (frozen p) rows = map (\<lambda>x. if x = p then frozen p else x) rows"
  unfolding put_row_def using assms inj_onD [of pl_id "set rows"] by (auto simp: distinct_map)

lemma mark_superseded_facts:
  fixes w :: uuid
  assumes ok: "plans_ok rows"
  defines "rows1 \<equiv> mark_superseded (latest_valid_plan w rows) rows"
  shows "current_plans w rows1 = []" and "\<And>v. v \<noteq> w \<Longrightarrow> of_workspace pl_workspace v rows1 = of_workspace pl_workspace v rows"
    and "map frozen rows1 = map frozen rows" and "map pl_id rows1 = map pl_id rows"
proof -
  consider (none) "current_plans w rows = []" | (one) p where "current_plans w rows = [p]"
    using current_plans_cases [OF ok] by blast
  then have "current_plans w rows1 = [] \<and> (\<forall>v. v \<noteq> w \<longrightarrow> of_workspace pl_workspace v rows1 = of_workspace pl_workspace v rows)
      \<and> map frozen rows1 = map frozen rows \<and> map pl_id rows1 = map pl_id rows"
  proof cases
    case none
    then have "latest_valid_plan w rows = None" using latest_valid_plan_current(1) by blast
    then show ?thesis using none by (simp add: rows1_def mark_superseded_def)
  next
    case (one p)
    then have p: "p \<in> set rows" "pl_workspace p = w" "pl_current p" "latest_valid_plan w rows = Some p"
      using current_plans_one [OF one, of p] latest_valid_plan_current(2) [OF one] by simp_all
    have "rows1 = put_row pl_id (frozen p) rows" by (simp add: rows1_def mark_superseded_def p(4) frozen_def)
    then have r1: "rows1 = map (\<lambda>x. if x = p then frozen p else x) rows"
      using put_frozen [OF _ p(1)] ok by (simp add: plans_ok_def)
    have only: "x = p" if "x \<in> set rows" "pl_workspace x = w" "pl_current x" for x
      using current_plans_one [OF one, of x] that by simp
    have "current_plans w rows1 = []" using only by (auto simp: current_plans_def r1 filter_empty_conv)
    moreover have "of_workspace pl_workspace v rows1 = of_workspace pl_workspace v rows" if "v \<noteq> w" for v
      unfolding r1 using that p(2) by (induction rows) (auto simp: of_workspace_def)
    ultimately show ?thesis by (simp add: r1)
  qed
  then show "current_plans w rows1 = []" "\<And>v. v \<noteq> w \<Longrightarrow> of_workspace pl_workspace v rows1 = of_workspace pl_workspace v rows"
    "map frozen rows1 = map frozen rows" "map pl_id rows1 = map pl_id rows" by blast+
qed

text \<open>What the commit of a run does: the new row is the current one of its workspace, the previous ones are kept.\<close>

lemma insert_plan_facts:
  assumes ok: "plans_ok rows" and r: "pl_workspace r = w" "pl_current r"
    and ins: "insert_plan r (mark_superseded (latest_valid_plan w rows) rows) = Inr rows'"
  shows "plans_ok rows'" and "latest_valid_plan w rows' = Some r"
    and "map frozen rows' = map frozen rows @ [frozen r]"
    and "\<And>v. v \<noteq> w \<Longrightarrow> of_workspace pl_workspace v rows' = of_workspace pl_workspace v rows"
proof -
  define rows1 where "rows1 = mark_superseded (latest_valid_plan w rows) rows"
  note m = mark_superseded_facts [OF ok, where w = w, folded rows1_def]
  have rows': "rows' = rows1 @ [r]" "pl_id r \<notin> set (map pl_id rows1)"
    using ins by (auto simp: insert_plan_def rows1_def split: if_splits)
  have cur: "current_plans w rows' = [r]" using m(1) r by (simp add: current_plans_def rows'(1))
  then show "latest_valid_plan w rows' = Some r" by (rule latest_valid_plan_current(2))
  show "map frozen rows' = map frozen rows @ [frozen r]" by (simp add: rows'(1) m(3))
  show other: "of_workspace pl_workspace v rows' = of_workspace pl_workspace v rows" if "v \<noteq> w" for v
    using m(2) [OF that] that r(1) by (simp add: rows'(1) of_workspace_def)
  have "length (current_plans v rows') = (if of_workspace pl_workspace v rows' = [] then 0 else 1)" for v
  proof (cases "v = w")
    case True
    then show ?thesis using cur r(1) by (simp add: rows'(1) of_workspace_def)
  next
    case False
    have "current_plans v rows' = filter pl_current (of_workspace pl_workspace v rows')"
      "current_plans v rows = filter pl_current (of_workspace pl_workspace v rows)"
      by (simp_all add: current_plans_def of_workspace_def filter_filter conj_commute)
    then have "current_plans v rows' = current_plans v rows" using other [OF False] by simp
    then show ?thesis using other [OF False] ok by (simp add: plans_ok_def)
  qed
  moreover have "distinct (map pl_id rows')" using ok rows'(2) m(4) by (simp add: rows'(1) plans_ok_def)
  ultimately show "plans_ok rows'" by (simp add: plans_ok_def)
qed

lemma build_input_facts:
  assumes "build_planner_input other_iso tz w now db = Inr v"
  shows "wf_input tz v" and "\<forall>t\<in>set (in_tasks v). wf_task t" and "in_now v = now"
    and "in_prior v = None \<longleftrightarrow> latest_valid_plan w (db_plans db) = None"
    and "\<And>row. latest_valid_plan w (db_plans db) = Some row \<Longrightarrow>
      \<exists>p. prior_snapshot_from_model other_iso row = Inr p \<and> in_prior v = Some p"
    and "in_pinned v = map (\<lambda>r. TaskId (tr_id r)) (filter tr_pinned (of_workspace tr_workspace w (db_tasks db)))"
    and "rmap planning_task_snapshot (of_workspace tr_workspace w (db_tasks db)) = Inr (in_tasks v)"
proof -
  obtain workspace where ws: "find (\<lambda>r. ws_id r = w) (db_workspaces db) = Some workspace"
    using assms by (cases "find (\<lambda>r. ws_id r = w) (db_workspaces db)") (simp_all add: build_planner_input_def)
  obtain windows externals events tasks milestones dependencies prior where
    tasks: "rmap planning_task_snapshot (of_workspace tr_workspace w (db_tasks db)) = Inr tasks"
    and prior: "(case latest_valid_plan w (db_plans db) of None \<Rightarrow> Inr None
            | Some row \<Rightarrow> rbind (prior_snapshot_from_model other_iso row) (\<lambda>p. Inr (Some p))) = Inr prior"
    and mk: "mk_planner_input tz
          \<lparr>in_planner_version = planner_version, in_now = now, in_timezone = ws_timezone workspace,
           in_horizon_end = now + horizon_span (of_workspace mr_workspace w (db_milestones db)) now,
           in_slot_minutes = 15, in_windows = windows, in_events = events, in_tasks = tasks,
           in_milestones = milestones, in_dependencies = dependencies, in_externals = externals,
           in_pinned = map (\<lambda>r. TaskId (tr_id r)) (filter tr_pinned (of_workspace tr_workspace w (db_tasks db))),
           in_excluded_dates = sort (map xd_date (of_workspace xd_workspace w (db_excluded db))),
           in_prior = prior\<rparr> = Inr v"
    using assms [unfolded build_planner_input_def ws option.case rbind_Inr_iff] by (elim exE conjE) (rule that)
  note v = mk [unfolded mk_planner_input_iff]
  show "wf_input tz v" "in_now v = now" using v by simp_all
  show "in_pinned v = map (\<lambda>r. TaskId (tr_id r)) (filter tr_pinned (of_workspace tr_workspace w (db_tasks db)))"
    "rmap planning_task_snapshot (of_workspace tr_workspace w (db_tasks db)) = Inr (in_tasks v)"
    using v tasks by simp_all
  have "\<exists>r. snapshot_from_model r = Inr t" if "t \<in> set tasks" for t
    using tasks that unfolding rmap_Inr_all2 planning_task_snapshot_def by (auto simp: list_all2_conv_all_nth in_set_conv_nth)
  then show "\<forall>t\<in>set (in_tasks v). wf_task t" using v by (auto simp: snapshot_from_model_Inr)
  have p: "in_prior v = prior" using v by simp
  show "in_prior v = None \<longleftrightarrow> latest_valid_plan w (db_plans db) = None"
    using prior unfolding p by (auto simp: res_simps split: option.splits)
  show "\<exists>p. prior_snapshot_from_model other_iso row = Inr p \<and> in_prior v = Some p"
    if "latest_valid_plan w (db_plans db) = Some row" for row
    using prior that unfolding p by (auto simp: res_simps)
qed

section \<open>Runs\<close>

lemma run_plan_ok_status:
  assumes "run_plan env v = Inr out" and "normalize_and_validate (ev_sha256 env) v = ValidInput a b"
  shows "out_status out = ''OK''"
  using assms unfolding run_plan_def plan_def by (auto simp: res_simps Let_def mk_output_def)

lemma create_plan_inner_Inr:
  assumes "create_plan_inner env now created new_id w reason db = Inr (d, db')"
  obtains v out plans where "build_planner_input (ev_iso env) (ev_tz env) w now db = Inr v" "run_plan env v = Inr out"
    "out_status out = ''OK''"
    "insert_plan (plan_row_of new_id w reason created out)
       (mark_superseded (latest_valid_plan w (db_plans db)) (db_plans db)) = Inr plans"
    "db' = db\<lparr>db_plans := plans\<rparr>" "dt_status d = ''OK''" "dt_id d = uuid_str new_id" "dt_current d"
    "dt_input_hash d = out_input_hash out"
proof -
  obtain v where v: "build_planner_input (ev_iso env) (ev_tz env) w now db = Inr v"
    using assms by (cases "build_planner_input (ev_iso env) (ev_tz env) w now db") (simp_all add: create_plan_inner_def)
  note valid = stored_input_valid [OF build_input_facts(1,2) [OF v], of "ev_sha256 env"]
  obtain out where out: "run_plan env v = Inr out"
    using assms v valid by (cases "run_plan env v") (simp_all add: create_plan_inner_def)
  obtain plans where plans: "insert_plan (plan_row_of new_id w reason created out)
       (mark_superseded (latest_valid_plan w (db_plans db)) (db_plans db)) = Inr plans"
    using assms v valid out by (simp add: create_plan_inner_def split: sum.splits)
  have "d = \<lparr>dt_id = uuid_str new_id, dt_status = ''OK'', dt_planner_version = out_planner_version out,
      dt_input_hash = out_input_hash out, dt_current = True\<rparr>" "db' = db\<lparr>db_plans := plans\<rparr>"
    using assms v valid out plans by (simp_all add: create_plan_inner_def)
  with v out plans run_plan_ok_status [OF out valid] show ?thesis by (intro that) simp_all
qed

lemma create_plan_result:
  assumes "create_plan env now created elapsed new_id w reason db m = (res, db', m')"
  shows "case res of Inl e \<Rightarrow> db' = db \<and> create_plan_inner env now created new_id w reason db = Inl e
    | Inr d \<Rightarrow> create_plan_inner env now created new_id w reason db = Inr (d, db')"
  using assms by (auto simp: create_plan_def Let_def split: sum.splits prod.splits)

lemma create_plan_outcome:
  assumes ok: "plans_ok (db_plans db)" and run: "create_plan env now created elapsed new_id w reason db m = (res, db', m')"
  shows "case res of Inl e \<Rightarrow> db' = db
    | Inr d \<Rightarrow> dt_status d = ''OK'' \<and> dt_id d = uuid_str new_id
        \<and> (\<exists>v out. build_planner_input (ev_iso env) (ev_tz env) w now db = Inr v \<and> run_plan env v = Inr out
             \<and> out_status out = ''OK'' \<and> dt_input_hash d = out_input_hash out
             \<and> latest_valid_plan w (db_plans db') = Some (plan_row_of new_id w reason created out)
             \<and> map frozen (db_plans db') = map frozen (db_plans db) @ [frozen (plan_row_of new_id w reason created out)]
             \<and> (\<forall>u. u \<noteq> w \<longrightarrow> of_workspace pl_workspace u (db_plans db') = of_workspace pl_workspace u (db_plans db)))"
proof (cases res)
  case (Inl e)
  then show ?thesis using create_plan_result [OF run] by simp
next
  case (Inr d)
  then have "create_plan_inner env now created new_id w reason db = Inr (d, db')" using create_plan_result [OF run] by simp
  then obtain v out plans where v: "build_planner_input (ev_iso env) (ev_tz env) w now db = Inr v" "run_plan env v = Inr out"
    "out_status out = ''OK''"
    and ins: "insert_plan (plan_row_of new_id w reason created out)
       (mark_superseded (latest_valid_plan w (db_plans db)) (db_plans db)) = Inr plans"
    and d: "db' = db\<lparr>db_plans := plans\<rparr>" "dt_status d = ''OK''" "dt_id d = uuid_str new_id"
      "dt_input_hash d = out_input_hash out" by (rule create_plan_inner_Inr)
  have r: "pl_workspace (plan_row_of new_id w reason created out) = w" "pl_current (plan_row_of new_id w reason created out)"
    by (simp_all add: plan_row_of_def)
  note f = insert_plan_facts [OF ok r ins]
  show ?thesis unfolding Inr sum.case using v d f(2-4) by (simp add: d(1))
qed

text \<open>C4. A planning run appends one validated snapshot or changes nothing. If it raises, the tables are as
  they were. If it returns, the answer has the status \<open>OK\<close> (never \<open>INVALID_INPUT\<close>: the snapshots
  are checked when they are read, so a bad row raises before the validation); the planner's output
  of the input built from the rows is stored as the current plan of the workspace; all earlier
  snapshots are still there with only their current flag cleared; and the snapshots of other
  workspaces are untouched.\<close>

theorem plan_run_outcome:
  assumes ok: "plans_ok (db_plans db)" and run: "create_plan env now created elapsed new_id w reason db m = (res, db', m')"
  shows "case res of Inl e \<Rightarrow> db' = db
    | Inr d \<Rightarrow> dt_status d = ''OK'' \<and> dt_id d = uuid_str new_id
        \<and> (\<exists>v out. build_planner_input (ev_iso env) (ev_tz env) w now db = Inr v \<and> run_plan env v = Inr out
             \<and> out_status out = ''OK'' \<and> dt_input_hash d = out_input_hash out
             \<and> latest_valid_plan w (db_plans db') = Some (plan_row_of new_id w reason created out)
             \<and> map frozen (db_plans db') = map frozen (db_plans db) @ [frozen (plan_row_of new_id w reason created out)]
             \<and> (\<forall>u. u \<noteq> w \<longrightarrow> of_workspace pl_workspace u (db_plans db') = of_workspace pl_workspace u (db_plans db)))"
  by (rule create_plan_outcome [OF ok run])

inductive plan_step :: "planning_db \<Rightarrow> planning_db \<Rightarrow> bool" where
  run: "create_plan env now created elapsed new_id w reason db m = (res, db', m') \<Longrightarrow> plan_step db db'"
| other: "db_plans db' = db_plans db \<Longrightarrow> plan_step db db'"

lemma plan_step_ok:
  assumes "plan_step db db'" and "plans_ok (db_plans db)"
  shows "plans_ok (db_plans db') \<and> (\<exists>more. map frozen (db_plans db') = map frozen (db_plans db) @ more)"
  using assms
proof (cases rule: plan_step.cases)
  case (run env now created elapsed new_id w reason m res m')
  show ?thesis
  proof (cases res)
    case (Inl e)
    then show ?thesis using create_plan_result [OF run] assms(2) by simp
  next
    case (Inr d)
    then have "create_plan_inner env now created new_id w reason db = Inr (d, db')" using create_plan_result [OF run] by simp
    then obtain out plans where ins: "insert_plan (plan_row_of new_id w reason created out)
       (mark_superseded (latest_valid_plan w (db_plans db)) (db_plans db)) = Inr plans" "db' = db\<lparr>db_plans := plans\<rparr>"
      by (rule create_plan_inner_Inr)
    have r: "pl_workspace (plan_row_of new_id w reason created out) = w" "pl_current (plan_row_of new_id w reason created out)"
      by (simp_all add: plan_row_of_def)
    from insert_plan_facts [OF assms(2) r ins(1)] show ?thesis by (simp add: ins(2))
  qed
qed simp

text \<open>Whatever runs and other commands happen, in any order: every workspace with snapshots has exactly one
  current snapshot, and the history only grows (each earlier snapshot is still at its place, with
  its content unchanged).\<close>

theorem plan_history_kept:
  assumes "plan_step\<^sup>*\<^sup>* db db'" and "plans_ok (db_plans db)"
  shows "(\<forall>w. length (current_plans w (db_plans db')) = (if of_workspace pl_workspace w (db_plans db') = [] then 0 else 1))
    \<and> distinct (map pl_id (db_plans db')) \<and> (\<exists>more. map frozen (db_plans db') = map frozen (db_plans db) @ more)"
proof -
  have "plans_ok (db_plans db') \<and> (\<exists>more. map frozen (db_plans db') = map frozen (db_plans db) @ more)"
    using assms
  proof (induction rule: rtranclp_induct)
    case (step y z)
    then obtain more more' where "map frozen (db_plans y) = map frozen (db_plans db) @ more"
      "plans_ok (db_plans z)" "map frozen (db_plans z) = map frozen (db_plans y) @ more'" using plan_step_ok by blast
    then show ?case by simp
  qed simp
  then show ?thesis by (simp add: plans_ok_def)
qed

section \<open>The prior plan\<close>

definition as_prior :: "task_allocation \<Rightarrow> prior_allocation" where
  "as_prior a = \<lparr>pa_task = al_task a, pa_start = al_start a, pa_end = al_end a\<rparr>"

lemma core_allocation_read:
  assumes "py_datetime (al_start a)" and "py_datetime (al_end a)"
  shows "prior_allocation_from other_iso (core_allocation a) =
    (if al_end a \<le> al_start a then Inl (ValueError ''prior plan allocation end must be after start'') else Inr (as_prior a))"
  by (simp add: prior_allocation_from_def core_allocation_def core_id_def dget_def fromisoformat_instant assms
      py_uuid_hex raise_if_def as_prior_def)

lemma sorted_base_set: "out_base_plan out = Some base \<Longrightarrow> set (sorted_base out) = set (pr_allocations base)"
  by (simp add: sorted_base_def)

lemma sorted_base_wf:
  assumes "run_plan env v = Inr out"
  shows "\<forall>a\<in>set (sorted_base out). al_start a < al_end a"
proof (cases "out_base_plan out")
  case (Some p)
  then have "wf_allocations (pr_allocations p)" using plan_output_wf [OF assms [unfolded run_plan_def]] by blast
  then show ?thesis by (simp add: sorted_base_set [OF Some] wf_allocation_def)
qed (simp add: sorted_base_def)

lemma stored_plan_read:
  assumes run: "run_plan env v = Inr out"
    and dates: "\<forall>a\<in>set (sorted_base out). py_datetime (al_start a) \<and> py_datetime (al_end a)"
  shows "prior_snapshot_from_model other_iso (plan_row_of i w reason created out) =
    Inr \<lparr>pp_id = i, pp_input_hash = out_input_hash out, pp_allocations = map as_prior (sorted_base out)\<rparr>"
proof -
  have "rmap (prior_allocation_from other_iso) (map core_allocation (sorted_base out)) = Inr (map as_prior (sorted_base out))"
    unfolding rmap_Inr_all2 list_all2_map1 list_all2_map2 list_all2_same using dates sorted_base_wf [OF run]
    by (auto simp: core_allocation_read not_le [symmetric])
  then show ?thesis by (simp add: prior_snapshot_from_model_def plan_row_of_def canonical_core_def dget_def)
qed

text \<open>C5. A stored plan is read back as it was planned: the snapshot that a run stores is, for the next run, the
  prior plan with exactly the base plan's allocations, by start and task, at the same instants to
  the microsecond and under the same hash.\<close>

theorem stored_plan_read_back:
  assumes "run_plan env v = Inr out"
    and "\<forall>a\<in>set (sorted_base out). py_datetime (al_start a) \<and> py_datetime (al_end a)"
  shows "prior_snapshot_from_model other_iso (plan_row_of i w reason created out) =
    Inr \<lparr>pp_id = i, pp_input_hash = out_input_hash out, pp_allocations = map as_prior (sorted_base out)\<rparr>"
  by (rule stored_plan_read [OF assms])

lemma prior_snapshot_ordered:
  assumes "prior_snapshot_from_model other_iso row = Inr p"
  shows "\<forall>a\<in>set (pp_allocations p). pa_start a < pa_end a"
proof -
  obtain raws where raws: "rmap (prior_allocation_from other_iso) raws = Inr (pp_allocations p)"
    using assms by (auto simp: prior_snapshot_from_model_def res_simps split: core_json.splits)
  have "pa_start a < pa_end a" if "prior_allocation_from other_iso raw = Inr a" for raw a
    using that by (auto simp: prior_allocation_from_def res_simps split: core_json.splits option.splits)
  then show ?thesis
    using raws unfolding rmap_Inr_all2 list_all2_conv_all_nth in_set_conv_nth by (metis in_set_conv_nth)
qed

lemma prior_snapshot_read:
  assumes "prior_snapshot_from_model other_iso (plan_row_of i w reason created out) = Inr p"
    and "\<forall>a\<in>set (sorted_base out). py_datetime (al_start a) \<and> py_datetime (al_end a)"
  shows "pp_allocations p = map as_prior (sorted_base out)"
proof -
  have "rmap (prior_allocation_from other_iso) (map core_allocation (sorted_base out)) = Inr (pp_allocations p)"
    using assms(1) by (auto simp: prior_snapshot_from_model_def plan_row_of_def canonical_core_def dget_def res_simps)
  then have "list_all2 (\<lambda>a q. prior_allocation_from other_iso (core_allocation a) = Inr q) (sorted_base out) (pp_allocations p)"
    by (simp add: rmap_Inr_all2 list_all2_map1)
  then have "list_all2 (\<lambda>a q. q = as_prior a) (sorted_base out) (pp_allocations p)"
    by (rule list.rel_mono_strong) (use assms(2) in \<open>auto simp: core_allocation_read split: if_splits\<close>)
  then show ?thesis by (simp add: list_all2_conv_all_nth list_eq_iff_nth_eq)
qed

text \<open>C3. Two runs in a row keep protected work in place, through the database. After a run that was stored, let
  any other commands change the rows but not the snapshots. If a second run is stored, every base
  allocation of the first plan whose task is now pinned, or which starts within the freeze window
  of the new now, stands in the second stored plan at the same start and end.\<close>

theorem pinned_blocks_survive_reruns:
  assumes ok: "plans_ok (db_plans db)"
    and first: "create_plan env now created elapsed i w reason db m = (Inr d, db1, m1)"
    and same: "db_plans db2 = db_plans db1"
    and second: "create_plan env now2 created2 elapsed2 i2 w reason2 db2 m2 = (Inr d2, db3, m3)"
    and input: "build_planner_input (ev_iso env) (ev_tz env) w now2 db2 = Inr v2"
    and plannable: "plannable (ev_uuid5 env) (ev_tz env) v2" and hash: "\<not> blank (input_hash (ev_sha256 env) v2)"
  shows "\<exists>out out2. latest_valid_plan w (db_plans db1) = Some (plan_row_of i w reason created out)
    \<and> latest_valid_plan w (db_plans db3) = Some (plan_row_of i2 w reason2 created2 out2)
    \<and> ((\<forall>a\<in>set (sorted_base out). py_datetime (al_start a) \<and> py_datetime (al_end a)) \<longrightarrow>
       (\<forall>a\<in>set (sorted_base out).
         (\<exists>r\<in>set (db_tasks db2). tr_workspace r = w \<and> tr_pinned r \<and> TaskId (tr_id r) = al_task a)
           \<or> is_in_freeze_window (al_start a) now2 \<longrightarrow>
         (\<exists>b\<in>set (sorted_base out2). al_task b = al_task a \<and> al_start b = al_start a \<and> al_end b = al_end a)))"
proof -
  from create_plan_outcome [OF ok first] obtain out where
    out: "latest_valid_plan w (db_plans db1) = Some (plan_row_of i w reason created out)" by auto
  have ok1: "plans_ok (db_plans db2)" using plan_step_ok [OF plan_step.run [OF first] ok] same by simp
  from create_plan_outcome [OF ok1 second] input obtain out2 where
    out2: "run_plan env v2 = Inr out2" "latest_valid_plan w (db_plans db3) = Some (plan_row_of i2 w reason2 created2 out2)"
    by auto
  note facts = build_input_facts [OF input]
  obtain p where p: "prior_snapshot_from_model (ev_iso env) (plan_row_of i w reason created out) = Inr p" "in_prior v2 = Some p"
    using facts(5) out same by auto
  have prior: "prior_allocations v2 = pp_allocations p" by (simp add: prior_allocations_def p(2))
  have "valid_prior v2" unfolding prior by (rule prior_snapshot_ordered [OF p(1)])
  from plan_ok [OF plannable facts(2) this hash, of "ev_shared env" "ev_iter env"] out2(1)
  obtain base where base: "out_base_plan out2 = Some base"
    "\<forall>q\<in>set (protected_prior_allocations v2). \<exists>b\<in>set (pr_allocations base). plan_block b = prior_block q"
    unfolding run_plan_def by (metis Inr_inject)
  have kept: "\<exists>b\<in>set (sorted_base out2). al_task b = al_task a \<and> al_start b = al_start a \<and> al_end b = al_end a"
    if dates: "\<forall>a\<in>set (sorted_base out). py_datetime (al_start a) \<and> py_datetime (al_end a)"
      and a: "a \<in> set (sorted_base out)"
      and prot: "(\<exists>r\<in>set (db_tasks db2). tr_workspace r = w \<and> tr_pinned r \<and> TaskId (tr_id r) = al_task a)
           \<or> is_in_freeze_window (al_start a) now2" for a
  proof -
    have "as_prior a \<in> set (protected_prior_allocations v2)"
      using a prot unfolding protected_prior_allocations_def prior prior_snapshot_read [OF p(1) dates] facts(3,6)
      by (auto simp: as_prior_def of_workspace_def image_iff intro: rev_bexI)
    with base(2) have "\<exists>b\<in>set (pr_allocations base). plan_block b = prior_block (as_prior a)" by blast
    then show ?thesis unfolding sorted_base_set [OF base(1)] by (simp add: as_prior_def plan_block_def prior_block_def)
  qed
  show ?thesis using out out2(2) kept by blast
qed

text \<open>
  The prior plan carries no kinds: a review or submission buffer of the stored plan comes back as
  the block of a task that no new allocation of kind \<open>TASK\<close> can match. In the freeze window it is
  then reported as a protected block that was removed, wherever the new plan puts the buffer.
\<close>

lemma prior_buffer_needs_approval:
  assumes "p \<in> set (prior_allocations v)" and "\<forall>a\<in>set as. al_task a = pa_task p \<longrightarrow> al_kind a \<noteq> ''TASK''"
    and "is_in_freeze_window (pa_start p) (in_now v)" and "pa_task p \<notin> set (in_pinned v)"
  shows "proposal_for_disallowed_move uuid5 (pa_task p) ''FREEZE_WINDOW_MOVE_FORBIDDEN'' None 0
    \<in> set (removal_proposals uuid5 v (df_removed (diff_from_prior (in_prior v) as)))"
proof -
  have "dget (current_by_task as) (pa_task p) [] = []" using assms(2) by (auto simp: current_by_task_get filter_empty_conv)
  then have one: "diff_one (current_by_task as) p = ([], [pa_task p])" by (simp add: diff_one_def)
  obtain s where s: "in_prior v = Some s" "p \<in> set (pp_allocations s)"
    using assms(1) that by (cases "in_prior v") (auto simp: prior_allocations_def)
  have "pa_task p \<in> set (df_removed (diff_from_prior (in_prior v) as))"
    using s(2) one by (force simp: s(1) diff_from_prior_def Let_def)
  moreover have "p \<in> set (protected_prior_allocations v)" using assms(1,3) by (simp add: protected_prior_allocations_def)
  ultimately show ?thesis using assms(4) by (force simp: removal_proposals_def)
qed

section \<open>Rows the planner cannot read\<close>

lemma unreadable_task_fails:
  assumes "r \<in> set (db_tasks db)" and "tr_workspace r = w" and "snapshot_from_model r = Inl e"
  shows "\<exists>e'. build_planner_input other_iso tz w now db = Inl e'"
proof (cases "build_planner_input other_iso tz w now db")
  case (Inr v)
  have "r \<in> set (of_workspace tr_workspace w (db_tasks db))" using assms(1,2) by (simp add: of_workspace_def)
  then have "\<exists>t. snapshot_from_model r = Inr t"
    using build_input_facts(7) [OF Inr] unfolding rmap_Inr_all2 planning_task_snapshot_def list_all2_conv_all_nth in_set_conv_nth
    by (metis)
  then show ?thesis using assms(3) by simp
qed simp

text \<open>C19. A title of blanks stops planning. The task update accepts a title of up to 200 blanks (the column only
  bounds its length), and from then on, whatever the other rows hold and however often it is
  tried, no plan can be created for the workspace: every run raises and changes nothing.\<close>

theorem blank_title_stops_planning:
  assumes r: "owned_task (ac_workspace actor) i db = Inr r" and ids: "distinct (map tr_id (db_tasks db))"
    and valid: "task_row_valid r" and blank: "blank s" "length s \<le> 200" and i: "length i \<le> 64"
    and readable: "task_status_of (tr_status r) = Inr status" "uncertainty_of (tr_uncertainty r) = Inr u"
  shows "\<exists>updated db'. update_task now actor i (tr_version r) (Some s) db = Inr (updated, db')
    \<and> (\<forall>env now2 created elapsed new_id reason pdb m. db_tasks pdb = db_tasks db' \<longrightarrow>
        (\<exists>e m'. create_plan env now2 created elapsed new_id (ac_workspace actor) reason pdb m = (Inl (ServiceError e), pdb, m')))"
proof -
  obtain updated db' where u: "update_task now actor i (tr_version r) (Some s) db = Inr (updated, db')"
    "snapshot_from_model updated = Inl (ValueError ''task title must not be empty'')"
    "updated \<in> set (db_tasks db')" "tr_workspace updated = ac_workspace actor"
    using blank_title_accepted [OF assms] by blast
  have fails: "\<exists>e'. build_planner_input other_iso tz (ac_workspace actor) t pdb = Inl e'"
    if "db_tasks pdb = db_tasks db'" for other_iso tz t pdb using unreadable_task_fails [OF _ u(4) u(2), of pdb] u(3) that by simp
  have "\<exists>e m'. create_plan env now2 created elapsed new_id (ac_workspace actor) reason pdb m = (Inl (ServiceError e), pdb, m')"
    if tasks: "db_tasks pdb = db_tasks db'" for env now2 created elapsed new_id reason pdb m
    using fails [OF tasks, of "ev_iso env" "ev_tz env" now2] by (auto simp: create_plan_def create_plan_inner_def Let_def)
  then show ?thesis using u(1) by blast
qed


section \<open>A concrete workspace\<close>

definition an_env :: run_env where
  "an_env = \<lparr>ev_uuid5 = length_uuid5, ev_sha256 = (\<lambda>_. ''h''), ev_tz = utc_tzdb, ev_iso = (\<lambda>_. Inl (ValueError [])),
     ev_shared = (\<lambda>_. True), ev_iter = (\<lambda>x. x)\<rparr>"

definition a_pinned_task :: task_row where
  "a_pinned_task = a_task\<lparr>tr_pinned := True\<rparr>"

definition a_planning_db :: planning_db where
  "a_planning_db = \<lparr>db_proposals = [], db_tasks = [a_pinned_task], db_approvals = [], db_audit = [], db_milestones = [],
     db_workspaces = [\<lparr>ws_id = 3, ws_timezone = ''UTC''\<rparr>],
     db_windows = [\<lparr>wr_workspace = 3, wr_start = 0, wr_end = 8 * us_per_hour, wr_tags = None\<rparr>], db_events = [],
     db_dependencies = [], db_externals = [], db_external_tasks = [], db_excluded = [], db_plans = []\<rparr>"

definition a_built_input :: "prior_plan_snapshot option \<Rightarrow> planner_input" where
  "a_built_input prior = \<lparr>in_planner_version = planner_version, in_now = 0, in_timezone = ''UTC'',
     in_horizon_end = 14 * us_per_day, in_slot_minutes = 15,
     in_windows = [\<lparr>aw_start = 0, aw_end = 8 * us_per_hour, aw_tags = []\<rparr>], in_events = [],
     in_tasks = [snapshot_of_row a_pinned_task READY MEDIUM_U], in_milestones = [], in_dependencies = [],
     in_externals = [], in_pinned = [TaskId 2], in_excluded_dates = [], in_prior = prior\<rparr>"

lemma a_built_input_wf: "wf_input utc_tzdb (a_built_input prior)"
  by (simp add: wf_input_def a_built_input_def planner_version_def input_workspaces_def known_task_ids_def utc_tzdb_def
      blank_iff is_py_space_def)

lemma a_pinned_snapshot: "snapshot_from_model a_pinned_task = Inr (snapshot_of_row a_pinned_task READY MEDIUM_U)"
  unfolding snapshot_from_model_Inr
  by (intro exI [of _ READY] exI [of _ MEDIUM_U])
    (simp add: a_pinned_task_def a_task_def snapshot_of_row_def wf_task_def blank_iff is_py_space_def)

lemma a_build: "build_planner_input (ev_iso an_env) (ev_tz an_env) 3 0 (a_planning_db\<lparr>db_plans := rows\<rparr>) =
  rbind (case latest_valid_plan 3 rows of None \<Rightarrow> Inr None
    | Some row \<Rightarrow> rbind (prior_snapshot_from_model (ev_iso an_env) row) (\<lambda>p. Inr (Some p))) (\<lambda>prior. Inr (a_built_input prior))"
proof -
  have w: "tr_workspace a_pinned_task = 3" "tr_pinned a_pinned_task" "tr_id a_pinned_task = 2"
    by (simp_all add: a_pinned_task_def a_task_def)
  have mk: "mk_planner_input utc_tzdb (a_built_input prior) = Inr (a_built_input prior)" for prior
    using a_built_input_wf by (simp add: mk_planner_input_iff)
  have tz: "ev_tz an_env = utc_tzdb" by (simp add: an_env_def)
  show ?thesis
    by (simp add: build_planner_input_def a_planning_db_def tz of_workspace_def window_from_model_def mk_window_def
        raise_if_def horizon_span_def w planning_task_snapshot_def a_pinned_snapshot map_filter_simps
        mk [unfolded a_built_input_def, simplified] a_built_input_def)
qed

lemma a_plannable: "plannable (ev_uuid5 an_env) (ev_tz an_env) (a_built_input prior)"
proof -
  have "create_synthetic_buffers length_uuid5 utc_tzdb (a_built_input prior) = []"
    by (simp add: create_synthetic_buffers_def a_built_input_def)
  then show ?thesis
    using a_built_input_wf [of prior] by (simp add: an_env_def distinct_task_ids_def) (simp add: a_built_input_def)
qed

lemma a_hash: "\<not> blank (input_hash (ev_sha256 an_env) v)"
  by (simp add: an_env_def input_hash_def blank_iff is_py_space_def)

lemma a_tasks_wf: "\<forall>t\<in>set (in_tasks (a_built_input prior)). wf_task t"
  using a_pinned_snapshot by (auto simp: a_built_input_def snapshot_from_model_Inr)

text \<open>Times on the first day after the epoch are dates.\<close>

lemma first_day_datetime: "0 \<le> t \<Longrightarrow> t < us_per_day \<Longrightarrow> py_datetime t"
proof -
  assume "0 \<le> t" "t < us_per_day"
  then have day: "utc_date t = 0" unfolding utc_date_def by (rule div_pos_pos_trivial)
  have "civil 0 = (1970, 1, 1)" by code_simp
  then show "py_datetime t" unfolding py_datetime_def day by simp
qed

lemma a_planner_run:
  assumes prior: "\<forall>q\<in>set (prior_allocations (a_built_input prior)). pa_start q < pa_end q \<and> 0 \<le> pa_start q \<and> pa_end q < us_per_day"
  shows "\<exists>out. run_plan an_env (a_built_input prior) = Inr out
    \<and> length (out_planner_version out) \<le> 40 \<and> length (out_input_hash out) \<le> 64
    \<and> (\<forall>a\<in>set (sorted_base out). 0 \<le> al_start a \<and> al_end a < us_per_day)"
proof -
  let ?v = "a_built_input prior"
  have "valid_prior ?v" using prior by blast
  from plan_ok [OF a_plannable a_tasks_wf this a_hash, of "ev_shared an_env" "ev_iter an_env"]
  obtain out base outcome where out: "run_plan an_env ?v = Inr out" "out_status out = ''OK''"
    "out_input_hash out = input_hash (ev_sha256 an_env) ?v" "out_base_plan out = Some base"
    "pr_allocations base = sr_allocations (ps_base (ro_selected outcome))"
    "sound_plan ?v [] (kept_blocks ?v outcome) (ps_base (ro_selected outcome))"
    unfolding run_plan_def by blast
  have version: "out_planner_version out = planner_version"
    using out(1) stored_input_valid [OF a_built_input_wf a_tasks_wf] unfolding run_plan_def plan_def
    by (auto simp: res_simps Let_def mk_output_def a_built_input_def)
  have bounds: "0 \<le> al_start a \<and> al_end a < us_per_day" if a: "a \<in> set (sorted_base out)" for a
  proof -
    have pos: "al_start a < al_end a" using sorted_base_wf [OF out(1)] a by blast
    obtain pre made where pm: "pr_allocations base = pre @ made"
      "mset (map plan_block pre) = mset (map prior_block (kept_blocks ?v outcome))"
      "\<forall>a\<in>set made. \<forall>x. busy a x \<longrightarrow> (\<exists>w\<in>set (in_windows ?v). aw_start w \<le> x \<and> x < aw_end w)"
      using out(5,6) unfolding sound_plan_def by metis
    consider "a \<in> set pre" | "a \<in> set made" using a sorted_base_set [OF out(4)] pm(1) by auto
    then show ?thesis
    proof cases
      case 1
      then have "plan_block a \<in> set (map prior_block (kept_blocks ?v outcome))"
        using pm(2) by (metis image_eqI mset_eq_setD set_map)
      then obtain q where "q \<in> set (prior_allocations ?v)" "plan_block a = prior_block q"
        by (auto simp: kept_blocks_def protected_prior_allocations_def split: if_splits)
      then show ?thesis using prior by (auto simp: plan_block_def prior_block_def)
    next
      case 2
      then have "0 \<le> al_start a" "al_end a - 1 < 8 * us_per_hour"
        using pm(3) pos by (auto simp: busy_def a_built_input_def)
      then show ?thesis by simp
    qed
  qed
  show ?thesis using out(1,3) version bounds by (auto simp: planner_version_def an_env_def input_hash_def)
qed

lemma a_first_run:
  "\<exists>out d. create_plan an_env 0 0 0 9 3 ''manual'' a_planning_db new_metrics
     = (Inr d, a_planning_db\<lparr>db_plans := [plan_row_of 9 3 ''manual'' 0 out]\<rparr>, run_metrics (Inr (d, a_planning_db)) 0 new_metrics)
   \<and> run_plan an_env (a_built_input None) = Inr out \<and> (\<forall>a\<in>set (sorted_base out). 0 \<le> al_start a \<and> al_end a < us_per_day)"
proof -
  obtain out where out: "run_plan an_env (a_built_input None) = Inr out" "length (out_planner_version out) \<le> 40"
    "length (out_input_hash out) \<le> 64" "\<forall>a\<in>set (sorted_base out). 0 \<le> al_start a \<and> al_end a < us_per_day"
    using a_planner_run [of None] by (auto simp: prior_allocations_def a_built_input_def)
  have "a_planning_db = a_planning_db\<lparr>db_plans := []\<rparr>" by (simp add: a_planning_db_def)
  then have build: "build_planner_input (ev_iso an_env) (ev_tz an_env) 3 0 a_planning_db = Inr (a_built_input None)"
    using a_build [of "[]"] by (simp add: latest_valid_plan_def)
  have none: "db_plans a_planning_db = []" by (simp add: a_planning_db_def)
  have valid: "normalize_and_validate (ev_sha256 an_env) (a_built_input None) = ValidInput (a_built_input None)
      (input_hash (ev_sha256 an_env) (a_built_input None))" by (rule stored_input_valid [OF a_built_input_wf a_tasks_wf])
  show ?thesis
    by (rule exI [of _ out]) (use out in \<open>simp add: create_plan_def create_plan_inner_def build valid none insert_plan_def
      mark_superseded_def latest_valid_plan_def plan_row_of_def Let_def run_metrics_def\<close>)
qed

lemma no_plans_ok: "plans_ok (db_plans a_planning_db)"
  by (simp add: plans_ok_def a_planning_db_def current_plans_def of_workspace_def)

lemma plan_run_outcome_witness:
  "\<exists>d out db' m'. create_plan an_env 0 0 0 9 3 ''manual'' a_planning_db new_metrics = (Inr d, db', m')
     \<and> dt_status d = ''OK'' \<and> latest_valid_plan 3 (db_plans db') = Some (plan_row_of 9 3 ''manual'' 0 out)"
proof -
  obtain d db' m' where run: "create_plan an_env 0 0 0 9 3 ''manual'' a_planning_db new_metrics = (Inr d, db', m')"
    using a_first_run by blast
  from plan_run_outcome [OF no_plans_ok run] run show ?thesis by auto
qed

lemma plan_history_kept_witness:
  "\<exists>db'. plan_step\<^sup>*\<^sup>* a_planning_db db' \<and> db_plans db' \<noteq> [] \<and> length (current_plans 3 (db_plans db')) = 1"
proof -
  obtain d out db' m' where run: "create_plan an_env 0 0 0 9 3 ''manual'' a_planning_db new_metrics = (Inr d, db', m')"
    and plans: "db_plans db' = [plan_row_of 9 3 ''manual'' 0 out]" using a_first_run by fastforce
  have steps: "plan_step\<^sup>*\<^sup>* a_planning_db db'" by (rule r_into_rtranclp, rule plan_step.run [OF run])
  from plan_history_kept [OF steps no_plans_ok]
  have "length (current_plans 3 (db_plans db')) = (if of_workspace pl_workspace 3 (db_plans db') = [] then 0 else 1)" by blast
  moreover have "of_workspace pl_workspace 3 (db_plans db') \<noteq> []" by (simp add: plans of_workspace_def plan_row_of_def)
  ultimately show ?thesis using steps plans by auto
qed

lemma a_first_dates: "\<forall>a\<in>set (sorted_base out). 0 \<le> al_start a \<and> al_end a < us_per_day \<Longrightarrow> run_plan an_env v = Inr out
    \<Longrightarrow> \<forall>a\<in>set (sorted_base out). py_datetime (al_start a) \<and> py_datetime (al_end a)"
  using sorted_base_wf [of an_env v out] by (fastforce intro!: first_day_datetime)

lemma stored_plan_read_back_witness:
  "\<exists>out. run_plan an_env (a_built_input None) = Inr out
    \<and> prior_snapshot_from_model (ev_iso an_env) (plan_row_of 9 3 ''manual'' 0 out) =
      Inr \<lparr>pp_id = 9, pp_input_hash = out_input_hash out, pp_allocations = map as_prior (sorted_base out)\<rparr>"
proof -
  obtain out where out: "run_plan an_env (a_built_input None) = Inr out"
    "\<forall>a\<in>set (sorted_base out). 0 \<le> al_start a \<and> al_end a < us_per_day" using a_first_run by blast
  from stored_plan_read_back [OF out(1) a_first_dates [OF out(2,1)]] out(1) show ?thesis by blast
qed

lemma a_second_run:
  assumes out: "run_plan an_env (a_built_input None) = Inr out"
    "\<forall>a\<in>set (sorted_base out). 0 \<le> al_start a \<and> al_end a < us_per_day"
  defines "db1 \<equiv> a_planning_db\<lparr>db_plans := [plan_row_of 9 3 ''manual'' 0 out]\<rparr>"
  shows "\<exists>p d2 db3 m3. build_planner_input (ev_iso an_env) (ev_tz an_env) 3 0 db1 = Inr (a_built_input (Some p))
    \<and> create_plan an_env 0 0 0 10 3 ''again'' db1 new_metrics = (Inr d2, db3, m3)"
proof -
  define p where "p = \<lparr>pp_id = 9, pp_input_hash = out_input_hash out, pp_allocations = map as_prior (sorted_base out)\<rparr>"
  have latest: "latest_valid_plan 3 [plan_row_of 9 3 ''manual'' 0 out] = Some (plan_row_of 9 3 ''manual'' 0 out)"
    by (simp add: latest_valid_plan_def plan_row_of_def)
  have build: "build_planner_input (ev_iso an_env) (ev_tz an_env) 3 0 db1 = Inr (a_built_input (Some p))"
    unfolding db1_def a_build latest option.case stored_plan_read [OF out(1) a_first_dates [OF out(2,1)]] by (simp add: p_def)
  have "\<forall>q\<in>set (prior_allocations (a_built_input (Some p))). pa_start q < pa_end q \<and> 0 \<le> pa_start q \<and> pa_end q < us_per_day"
    using out(2) sorted_base_wf [OF out(1)] by (auto simp: prior_allocations_def a_built_input_def p_def as_prior_def)
  from a_planner_run [OF this] obtain out2 where out2: "run_plan an_env (a_built_input (Some p)) = Inr out2"
    "length (out_planner_version out2) \<le> 40" "length (out_input_hash out2) \<le> 64" by blast
  have valid: "normalize_and_validate (ev_sha256 an_env) (a_built_input (Some p)) = ValidInput (a_built_input (Some p))
      (input_hash (ev_sha256 an_env) (a_built_input (Some p)))" by (rule stored_input_valid [OF a_built_input_wf a_tasks_wf])
  have plans: "db_plans db1 = [plan_row_of 9 3 ''manual'' 0 out]" by (simp add: db1_def)
  have "pl_id (plan_row_of 9 3 ''manual'' 0 out) = 9" "pl_id (plan_row_of 10 3 ''again'' 0 out2) = 10" by (simp_all add: plan_row_of_def)
  then have "insert_plan (plan_row_of 10 3 ''again'' 0 out2) (mark_superseded (latest_valid_plan 3 (db_plans db1)) (db_plans db1))
      = Inr [frozen (plan_row_of 9 3 ''manual'' 0 out), plan_row_of 10 3 ''again'' 0 out2]"
    unfolding plans latest using out2(2,3)
    by (simp add: insert_plan_def mark_superseded_def put_row_def frozen_def) (simp add: plan_row_of_def)
  then have "\<exists>d2 db3 m3. create_plan an_env 0 0 0 10 3 ''again'' db1 new_metrics = (Inr d2, db3, m3)"
    by (simp add: create_plan_def create_plan_inner_def build valid out2(1) Let_def)
  with build show ?thesis by blast
qed

lemma pinned_blocks_survive_reruns_witness:
  "\<exists>d db1 m1 d2 db3 m3 out2. create_plan an_env 0 0 0 9 3 ''manual'' a_planning_db new_metrics = (Inr d, db1, m1)
     \<and> create_plan an_env 0 0 0 10 3 ''again'' db1 new_metrics = (Inr d2, db3, m3)
     \<and> latest_valid_plan 3 (db_plans db3) = Some (plan_row_of 10 3 ''again'' 0 out2)"
proof -
  obtain out d m1 where first: "create_plan an_env 0 0 0 9 3 ''manual'' a_planning_db new_metrics
      = (Inr d, a_planning_db\<lparr>db_plans := [plan_row_of 9 3 ''manual'' 0 out]\<rparr>, m1)"
    and out: "run_plan an_env (a_built_input None) = Inr out"
      "\<forall>a\<in>set (sorted_base out). 0 \<le> al_start a \<and> al_end a < us_per_day" using a_first_run by blast
  from a_second_run [OF out] obtain p d2 db3 m3 where
    input: "build_planner_input (ev_iso an_env) (ev_tz an_env) 3 0 (a_planning_db\<lparr>db_plans := [plan_row_of 9 3 ''manual'' 0 out]\<rparr>)
      = Inr (a_built_input (Some p))"
    and second: "create_plan an_env 0 0 0 10 3 ''again'' (a_planning_db\<lparr>db_plans := [plan_row_of 9 3 ''manual'' 0 out]\<rparr>)
      new_metrics = (Inr d2, db3, m3)" by blast
  from pinned_blocks_survive_reruns [OF no_plans_ok first refl second input a_plannable a_hash] first second
  show ?thesis by blast
qed

lemma blank_title_stops_planning_witness:
  "\<exists>updated db'. update_task 0 an_actor (uuid_str 2) 7 (Some '' '') a_workspace = Inr (updated, db')
     \<and> (\<exists>e m'. create_plan an_env 0 0 0 9 3 ''manual'' (a_planning_db\<lparr>db_tasks := db_tasks db'\<rparr>) new_metrics
          = (Inl (ServiceError e), a_planning_db\<lparr>db_tasks := db_tasks db'\<rparr>, m'))"
proof -
  have task: "tr_version a_task = 7" "tr_status a_task = task_status_value READY" "tr_uncertainty a_task = uncertainty_value MEDIUM_U"
    by (simp_all add: a_task_def)
  have ids: "distinct (map tr_id (db_tasks a_workspace))" by (simp add: a_workspace_def)
  have blank: "blank '' ''" "length '' '' \<le> 200" by (simp_all add: blank_iff is_py_space_def)
  have len: "length (uuid_str 2) \<le> 64" by (simp add: uuid_str_def hex_of_def Let_def)
  have readable: "task_status_of (tr_status a_task) = Inr READY" "uncertainty_of (tr_uncertainty a_task) = Inr MEDIUM_U"
    unfolding task by (simp_all add: task_status_of_value uncertainty_of_value del: task_status_value.simps uncertainty_value.simps)
  obtain updated db' where u: "update_task 0 an_actor (uuid_str 2) 7 (Some '' '') a_workspace = Inr (updated, db')"
    and fails: "\<And>env now2 created elapsed new_id reason pdb m. db_tasks pdb = db_tasks db' \<Longrightarrow>
      \<exists>e m'. create_plan env now2 created elapsed new_id (ac_workspace an_actor) reason pdb m = (Inl (ServiceError e), pdb, m')"
    using blank_title_stops_planning [OF a_task_owned ids a_task_valid blank len readable, of 0] unfolding task by blast
  have "ac_workspace an_actor = 3" by (simp add: an_actor_def)
  then show ?thesis using u fails [of "a_planning_db\<lparr>db_tasks := db_tasks db'\<rparr>" an_env 0 0 0 9 "''manual''" new_metrics] by auto
qed

end
