(* ===== verification/Intake.thy ===== *)
theory Intake
  imports Versioned_Rows Proposal_Service
begin

text \<open>
  What registers a fact without a person: the evidence score (\<open>inbox/evidence.py\<close>), in double
  precision, and the registration policy (\<open>inbox/registration_policy.py\<close>). The result: exactly
  which evidence registers automatically.
\<close>

section \<open>Evidence\<close>

record candidate_fact =
  cf_kind :: string
  cf_model_confidence :: rat
  cf_explicit_date :: bool
  cf_deterministic_parse :: bool
  cf_source_span :: "(string \<times> int \<times> int) option"
  cf_agreeing_sources :: int
  cf_has_conflict :: bool

record evidence_score =
  es_value :: rat
  es_reasons :: "string list"

definition evidence_points :: "candidate_fact \<Rightarrow> rat" where
  "evidence_points c =
     (let p = 0;
        p = (if cf_explicit_date c then fadd p (fl (25/100)) else p);
        p = (if cf_deterministic_parse c then fadd p (fl (25/100)) else p);
        p = (if cf_source_span c \<noteq> None then fadd p (fl (20/100)) else p);
        p = (if 2 \<le> cf_agreeing_sources c then fadd p (fl (20/100)) else p)
      in if cf_has_conflict c then fsub p (fl (50/100)) else p)"

definition calculate_evidence_score :: "candidate_fact \<Rightarrow> evidence_score" where
  "calculate_evidence_score c =
     \<lparr>es_value = max 0 (min 1 (fround (evidence_points c) 6)),
      es_reasons = sort ((if cf_source_span c = None then [''MISSING_SOURCE_SPAN''] else [])
        @ (if cf_has_conflict c then [''SOURCE_CONFLICT''] else []))\<rparr>"

section \<open>The registration policy\<close>

text \<open>The attributes of the candidate that the policy reads; \<open>None\<close> is a missing attribute with a default.\<close>

record registration_candidate =
  rc_kind :: string
  rc_has_conflict :: bool
  rc_time_known :: "bool option"
  rc_expected_harm :: "string option"
  rc_evidence_score :: rat

record registration_decision =
  rd_action :: string
  rd_reason :: string

text \<open>\<open>str.upper\<close> on the letters a to z. On other characters below 256 it never yields a letter of \<open>HIGH\<close> or
  \<open>LOW\<close>, so comparing with these words is exact.\<close>

definition upper_char :: "char \<Rightarrow> char" where
  "upper_char c = (let n = of_char c in if 97 \<le> n \<and> n \<le> (122::nat) then char_of (n - 32) else c)"

definition HARD_KINDS :: "string list" where
  "HARD_KINDS = [''HARD_DEADLINE'', ''FIXED_EVENT'']"

definition AUTO_EVIDENCE_THRESHOLD :: rat where
  "AUTO_EVIDENCE_THRESHOLD = fl (90/100)"

definition TEMPORARY_EVIDENCE_THRESHOLD :: rat where
  "TEMPORARY_EVIDENCE_THRESHOLD = fl (65/100)"

definition harm_of :: "registration_candidate \<Rightarrow> string" where
  "harm_of c = map upper_char (case rc_expected_harm c of None \<Rightarrow> ''LOW'' | Some h \<Rightarrow> h)"

definition decide_registration :: "registration_candidate \<Rightarrow> rat option \<Rightarrow> registration_decision" where
  "decide_registration c evidence =
     (let score = (case evidence of None \<Rightarrow> rc_evidence_score c | Some s \<Rightarrow> s);
        time_known = (case rc_time_known c of None \<Rightarrow> True | Some b \<Rightarrow> b)
      in if rc_has_conflict c then \<lparr>rd_action = ''NEEDS_CONFIRMATION'', rd_reason = ''SOURCE_CONFLICT''\<rparr>
      else if rc_kind c \<in> set HARD_KINDS \<and> \<not> time_known
        then \<lparr>rd_action = ''NEEDS_CONFIRMATION'', rd_reason = ''TIME_UNKNOWN''\<rparr>
      else if harm_of c = ''HIGH'' then \<lparr>rd_action = ''NEEDS_CONFIRMATION'', rd_reason = ''HIGH_EXPECTED_HARM''\<rparr>
      else if AUTO_EVIDENCE_THRESHOLD \<le> score \<and> harm_of c = ''LOW''
        then \<lparr>rd_action = ''AUTO_REGISTER'', rd_reason = ''HIGH_EVIDENCE_LOW_HARM''\<rparr>
      else if TEMPORARY_EVIDENCE_THRESHOLD \<le> score then \<lparr>rd_action = ''TEMPORARY'', rd_reason = ''MEDIUM_EVIDENCE''\<rparr>
      else \<lparr>rd_action = ''HOLD'', rd_reason = ''LOW_EVIDENCE''\<rparr>)"

section \<open>Which evidence registers automatically\<close>

text \<open>The score in millionths, without floating point.\<close>

definition evidence_millionths :: "candidate_fact \<Rightarrow> int" where
  "evidence_millionths c = (if cf_explicit_date c then 250000 else 0) + (if cf_deterministic_parse c then 250000 else 0)
     + (if cf_source_span c \<noteq> None then 200000 else 0) + (if 2 \<le> cf_agreeing_sources c then 200000 else 0)"

text \<open>Adding one signal in double precision stays close to the exact sum.\<close>

lemma signal_close:
  fixes p s t k :: rat
  assumes "\<bar>p - s\<bar> \<le> k / 10 ^ 12" and "0 \<le> s" "s \<le> 1" "0 \<le> t" "t \<le> 1" "0 \<le> k" "k \<le> 10"
  shows "\<bar>(if b then fadd p (fl t) else p) - (s + (if b then t else 0))\<bar> \<le> (k + 1) / 10 ^ 12"
proof (cases b)
  case True
  have e1: "\<bar>fl t - t\<bar> \<le> 1 / 2 ^ 53" using fl_error [of t] assms by (simp add: field_simps)
  have "k / 10 ^ 12 \<le> 1" using assms(7) by simp
  then have "\<bar>p - s\<bar> \<le> 1" using assms(1) by (rule order_trans [rotated])
  moreover have "\<bar>fl t - t\<bar> \<le> 1" by (rule order_trans [OF e1]) simp
  ultimately have "\<bar>p + fl t\<bar> \<le> 4" using assms(2-5) by linarith
  then have e2: "\<bar>fl (p + fl t) - (p + fl t)\<bar> \<le> 4 / 2 ^ 53"
    using fl_error [of "p + fl t"] by (simp add: field_simps)
  have "\<bar>fl (p + fl t) - (s + t)\<bar> \<le> k / 10 ^ 12 + 1 / 2 ^ 53 + 4 / 2 ^ 53"
    using e1 e2 assms(1) by linarith
  also have "\<dots> \<le> (k + 1) / 10 ^ 12" by (simp add: field_simps)
  finally show ?thesis using True by (simp add: fadd_def)
next
  case False
  have "k / 10 ^ 12 \<le> (k + 1) / 10 ^ 12" by (simp add: divide_right_mono)
  then show ?thesis using False assms(1) by simp
qed

lemma fround_close:
  fixes p :: rat
  assumes "\<bar>p - of_int j / 10 ^ 6\<bar> \<le> 4 / 10 ^ 12"
  shows "fround p 6 = fl (of_int j / 10 ^ 6)"
proof -
  have "\<bar>p * 10 ^ 6 - of_int j\<bar> < 1 / 2" using assms by (simp add: abs_le_iff abs_less_iff field_simps)
  then have "rne (p * 10 ^ 6) = j" by (rule rne_eqI)
  then show ?thesis by (simp add: fround_def)
qed

lemma evidence_points_close:
  assumes "\<not> cf_has_conflict c"
  shows "fround (evidence_points c) 6 = fl (of_int (evidence_millionths c) / 10 ^ 6)"
proof -
  define p1 where "p1 = (if cf_explicit_date c then fadd 0 (fl (25/100)) else 0)"
  define p2 where "p2 = (if cf_deterministic_parse c then fadd p1 (fl (25/100)) else p1)"
  define p3 where "p3 = (if cf_source_span c \<noteq> None then fadd p2 (fl (20/100)) else p2)"
  define p4 where "p4 = (if 2 \<le> cf_agreeing_sources c then fadd p3 (fl (20/100)) else p3)"
  define s1 :: rat where "s1 = 0 + (if cf_explicit_date c then 25/100 else 0)"
  define s2 where "s2 = s1 + (if cf_deterministic_parse c then 25/100 else 0)"
  define s3 where "s3 = s2 + (if cf_source_span c \<noteq> None then 20/100 else 0)"
  define s4 where "s4 = s3 + (if 2 \<le> cf_agreeing_sources c then 20/100 else 0)"
  note ss = s1_def s2_def s3_def s4_def
  have "\<bar>p1 - s1\<bar> \<le> (0 + 1) / 10 ^ 12" unfolding p1_def s1_def by (rule signal_close) simp_all
  then have "\<bar>p1 - s1\<bar> \<le> 1 / 10 ^ 12" by simp
  then have "\<bar>p2 - s2\<bar> \<le> (1 + 1) / 10 ^ 12" unfolding p2_def s2_def by (rule signal_close) (simp_all add: s1_def)
  then have "\<bar>p2 - s2\<bar> \<le> 2 / 10 ^ 12" by simp
  then have "\<bar>p3 - s3\<bar> \<le> (2 + 1) / 10 ^ 12" unfolding p3_def s3_def by (rule signal_close) (simp_all add: ss)
  then have "\<bar>p3 - s3\<bar> \<le> 3 / 10 ^ 12" by simp
  then have "\<bar>p4 - s4\<bar> \<le> (3 + 1) / 10 ^ 12" unfolding p4_def s4_def by (rule signal_close) (simp_all add: ss)
  moreover have "s4 = of_int (evidence_millionths c) / 10 ^ 6" by (simp add: ss evidence_millionths_def)
  ultimately have "fround p4 6 = fl (of_int (evidence_millionths c) / 10 ^ 6)" by (intro fround_close) simp
  moreover have "evidence_points c = p4"
    using assms by (simp add: evidence_points_def Let_def p4_def p3_def p2_def p1_def)
  ultimately show ?thesis by simp
qed

lemma threshold_order: "fl (70/100) < fl (90/100)" "fl (90/100) \<le> 1" "0 < fl (90/100)"
proof -
  have "\<bar>fl (70/100) - 70/100\<bar> \<le> (1/100 :: rat)" using fl_error [of "70/100"] by (rule order_trans) simp
  moreover have "\<bar>fl (90/100) - 90/100\<bar> \<le> (1/100 :: rat)" using fl_error [of "90/100"] by (rule order_trans) simp
  ultimately show "fl (70/100) < fl (90/100)" "fl (90/100) \<le> 1" "0 < fl (90/100)" by linarith+
qed

lemma full_evidence_iff:
  assumes "\<not> cf_has_conflict c"
  shows "AUTO_EVIDENCE_THRESHOLD \<le> es_value (calculate_evidence_score c) \<longleftrightarrow>
    cf_explicit_date c \<and> cf_deterministic_parse c \<and> cf_source_span c \<noteq> None \<and> 2 \<le> cf_agreeing_sources c"
proof -
  let ?all = "cf_explicit_date c \<and> cf_deterministic_parse c \<and> cf_source_span c \<noteq> None \<and> 2 \<le> cf_agreeing_sources c"
  have score: "es_value (calculate_evidence_score c) = max 0 (min 1 (fl (of_int (evidence_millionths c) / 10 ^ 6)))"
    by (simp add: calculate_evidence_score_def evidence_points_close [OF assms])
  show ?thesis
  proof (cases ?all)
    case True
    then have "evidence_millionths c = 900000" by (simp add: evidence_millionths_def)
    then show ?thesis using True threshold_order by (simp add: score AUTO_EVIDENCE_THRESHOLD_def)
  next
    case False
    then have m: "0 \<le> evidence_millionths c" "evidence_millionths c \<le> 700000" by (auto simp: evidence_millionths_def)
    then have "fl (of_int (evidence_millionths c) / 10 ^ 6) \<le> fl (70/100)" by (intro fl_mono) simp_all
    then show ?thesis using False threshold_order by (auto simp: score AUTO_EVIDENCE_THRESHOLD_def)
  qed
qed

text \<open>Which facts are registered without a person. Scored by the evidence and then put to the policy, a fact
  is registered automatically exactly if all four signals are there (an explicit date, a
  deterministic parse, a source span, two agreeing sources), there is no conflict, the expected
  harm is low, and a hard deadline or fixed event has a known time; the confidence of the model
  has no part in it.\<close>

theorem auto_register_exact:
  "rd_action (decide_registration (r\<lparr>rc_has_conflict := cf_has_conflict c\<rparr>) (Some (es_value (calculate_evidence_score (c\<lparr>cf_model_confidence := x\<rparr>)))))
     = ''AUTO_REGISTER'' \<longleftrightarrow>
   cf_explicit_date c \<and> cf_deterministic_parse c \<and> cf_source_span c \<noteq> None \<and> 2 \<le> cf_agreeing_sources c
     \<and> \<not> cf_has_conflict c \<and> harm_of r = ''LOW''
     \<and> \<not> (rc_kind r \<in> {''HARD_DEADLINE'', ''FIXED_EVENT''} \<and> rc_time_known r = Some False)"
proof -
  have conf: "calculate_evidence_score (c\<lparr>cf_model_confidence := x\<rparr>) = calculate_evidence_score c"
    by (simp add: calculate_evidence_score_def evidence_points_def)
  have harm: "harm_of (r\<lparr>rc_has_conflict := b\<rparr>) = harm_of r" for b by (simp add: harm_of_def)
  show ?thesis
    unfolding conf decide_registration_def Let_def harm using full_evidence_iff [of c]
    by (cases "cf_has_conflict c"; cases "rc_time_known r") (auto simp: HARD_KINDS_def)
qed

end
