(* ===== verification/Inbox.thy ===== *)
theory Inbox
  imports Intake
begin

text \<open>
  The life of an inbox item: its status machine (\<open>inbox/models.py\<close>), the service
  (\<open>inbox/service.py\<close>), the processing job of the worker (\<open>files/jobs.py\<close>) with its idempotency keys
  (\<open>shared/idempotency.py\<close>), and the decision on a candidate (\<open>decide_candidate\<close> of
  \<open>inbox/router.py\<close>). An item belongs to an existing workspace by its foreign key. The results:
  every item is processed at most once, a failed or confirmed one never again, and a candidate
  the job made can never be decided.
\<close>

section \<open>The status machine\<close>

definition INBOX_TRANSITIONS :: "(string \<times> string list) list" where
  "INBOX_TRANSITIONS =
     [(''NEW'', [''PROCESSING'', ''IGNORED'']), (''PROCESSING'', [''NEEDS_CONFIRMATION'', ''STRUCTURED'', ''FAILED'']),
      (''NEEDS_CONFIRMATION'', [''STRUCTURED'', ''IGNORED'', ''PROCESSING'']), (''FAILED'', [''PROCESSING'', ''IGNORED'']),
      (''STRUCTURED'', []), (''IGNORED'', [])]"

definition transition_inbox :: "string \<Rightarrow> string \<Rightarrow> string api" where
  "transition_inbox current target = (case map_of INBOX_TRANSITIONS current of
     None \<Rightarrow> Inl (DomainRuleError ''UNKNOWN_INBOX_STATUS'' (''unknown status '' @ current))
   | Some allowed \<Rightarrow> if target \<notin> set allowed
       then Inl (DomainRuleError ''INVALID_INBOX_TRANSITION'' (current @ '' cannot transition to '' @ target))
       else Inr target)"

section \<open>Rows\<close>

record artifact_row =
  sa_id :: uuid
  sa_workspace :: uuid
  sa_filename :: string
  sa_content_type :: string
  sa_size_bytes :: int
  sa_sha256 :: "string option"
  sa_storage_key :: string
  sa_status :: string

record inbox_row =
  ir_id :: uuid
  ir_workspace :: uuid
  ir_artifact :: "uuid option"
  ir_kind :: string
  ir_raw_text :: "string option"
  ir_status :: string
  ir_failure_reason :: "string option"

record candidate_row =
  kr_id :: uuid
  kr_item :: uuid
  kr_operation :: uuid
  kr_kind :: string
  kr_payload :: json
  kr_evidence :: rat
  kr_decision :: string

text \<open>The records of used idempotency keys are known by their keys.\<close>

record inbox_db =
  ib_artifacts :: "artifact_row list"
  ib_items :: "inbox_row list"
  ib_candidates :: "candidate_row list"
  ib_keys :: "string list"
  ib_audit :: "audit_row list"

section \<open>The service\<close>

definition create_from_text :: "uuid \<Rightarrow> uuid \<Rightarrow> uuid \<Rightarrow> current_actor \<Rightarrow> string \<Rightarrow> inbox_db \<Rightarrow> (inbox_row \<times> inbox_db) api" where
  "create_from_text artifact_id key_id item_id actor s db =
     (let artifact = \<lparr>sa_id = artifact_id, sa_workspace = ac_workspace actor, sa_filename = ''inline.txt'',
          sa_content_type = ''text/plain'', sa_size_bytes = int (length (utf8 s)), sa_sha256 = None,
          sa_storage_key = ''workspaces/'' @ uuid_str (ac_workspace actor) @ ''/source-artifacts/'' @ uuid_str key_id @ ''/inline.txt'',
          sa_status = ''READY''\<rparr>;
        item = \<lparr>ir_id = item_id, ir_workspace = ac_workspace actor, ir_artifact = Some artifact_id, ir_kind = ''text'',
          ir_raw_text = Some s, ir_status = ''NEW'', ir_failure_reason = None\<rparr>
      in if artifact_id \<in> set (map sa_id (ib_artifacts db)) \<or> item_id \<in> set (map ir_id (ib_items db)) then Inl IntegrityError
         else Inr (item, db\<lparr>ib_artifacts := ib_artifacts db @ [artifact], ib_items := ib_items db @ [item]\<rparr>))"

text \<open>\<open>mark\<close> (with no reason) and \<open>mark_failed\<close>.\<close>

definition mark_item :: "string \<Rightarrow> string \<Rightarrow> string option \<Rightarrow> inbox_db \<Rightarrow> (inbox_row \<times> inbox_db) api" where
  "mark_item i target reason db =
     (case py_uuid i of None \<Rightarrow> Inl (ServiceError bad_uuid)
      | Some k \<Rightarrow> (case row_at ir_id k (ib_items db) of None \<Rightarrow> Inl NotFoundError
        | Some r \<Rightarrow> (case transition_inbox (ir_status r) target of Inl e \<Rightarrow> Inl e
          | Inr status \<Rightarrow>
              (let r' = r\<lparr>ir_status := status, ir_failure_reason := (case reason of None \<Rightarrow> ir_failure_reason r | Some x \<Rightarrow> Some x)\<rparr>
               in Inr (r', db\<lparr>ib_items := put_row ir_id r' (ib_items db)\<rparr>)))))"

section \<open>Processing\<close>

text \<open>\<open>reserve_key\<close>: \<open>None\<close> when the key is taken.\<close>

definition reserve_key :: "string \<Rightarrow> string list \<Rightarrow> string list option" where
  "reserve_key k keys = (if k \<in> set keys then None else Some (keys @ [k]))"

definition extract_candidates :: "inbox_row \<Rightarrow> (string \<times> json) list" where
  "extract_candidates r = (let s = (case ir_raw_text r of None \<Rightarrow> [] | Some x \<Rightarrow> x)
     in if blank s then [] else [(''REFERENCE_NOTE'',
          JObj [(''source'', JStr ''inline-text''), (''preview'', JStr (take 120 s)), (''version'', JInt 1)])])"

definition candidate_of :: "uuid \<Rightarrow> uuid \<Rightarrow> inbox_row \<Rightarrow> string \<times> json \<Rightarrow> candidate_row" where
  "candidate_of new_id operation r c = \<lparr>kr_id = new_id, kr_item = ir_id r, kr_operation = operation, kr_kind = fst c,
     kr_payload = snd c, kr_evidence = 0, kr_decision = ''HOLD''\<rparr>"

text \<open>\<open>ProcessingJob.run\<close>; \<open>new_id\<close> is the id of the candidate, of which there is at most one.\<close>

definition process_item :: "uuid \<Rightarrow> uuid \<Rightarrow> string \<Rightarrow> inbox_db \<Rightarrow> (string \<times> inbox_db) api" where
  "process_item operation new_id i db =
     (case py_uuid i of None \<Rightarrow> Inl (ServiceError bad_uuid)
      | Some k \<Rightarrow> (case row_at ir_id k (ib_items db) of None \<Rightarrow> Inl (ServiceError KeyError)
        | Some r \<Rightarrow> (case reserve_key (uuid_str operation) (ib_keys db) of
            None \<Rightarrow> Inr (ir_status r, db)
          | Some keys \<Rightarrow>
            if ir_status r \<noteq> ''NEW'' then Inr (ir_status r, db)
            else (case transition_inbox (ir_status r) ''PROCESSING'' of Inl e \<Rightarrow> Inl e
              | Inr _ \<Rightarrow>
                (let made = map (candidate_of new_id operation r) (extract_candidates r);
                   target = (if made \<noteq> [] then ''STRUCTURED'' else ''NEEDS_CONFIRMATION'')
                 in (case transition_inbox ''PROCESSING'' target of Inl e \<Rightarrow> Inl e
                   | Inr status \<Rightarrow>
                       if \<exists>c\<in>set made. kr_id c \<in> set (map kr_id (ib_candidates db)) then Inl IntegrityError
                       else Inr (status, db\<lparr>ib_items := put_row ir_id (r\<lparr>ir_status := status\<rparr>) (ib_items db),
                         ib_candidates := ib_candidates db @ made, ib_keys := keys\<rparr>)))))))"

text \<open>\<open>FailingProcessingJob.run\<close>: it always raises; the state it leaves behind is the second component.
  An item that is not \<open>PROCESSING\<close> by then makes \<open>mark_failed\<close> raise instead.\<close>

definition process_item_failing :: "string \<Rightarrow> inbox_db \<Rightarrow> inbox_db" where
  "process_item_failing i db =
     (case py_uuid i of None \<Rightarrow> db
      | Some k \<Rightarrow> (case row_at ir_id k (ib_items db) of None \<Rightarrow> db
        | Some r \<Rightarrow>
          (let db1 = (if ir_status r = ''NEW'' then db\<lparr>ib_items := put_row ir_id (r\<lparr>ir_status := ''PROCESSING''\<rparr>) (ib_items db)\<rparr> else db)
           in (case mark_item i ''FAILED'' (Some ''simulated processing failure'') db1 of
                 Inl _ \<Rightarrow> db1 | Inr (_, db2) \<Rightarrow> db2))))"

section \<open>Decisions on candidates\<close>

definition candidate_audit :: "current_actor \<Rightarrow> bool \<Rightarrow> uuid \<Rightarrow> string \<Rightarrow> string \<Rightarrow> instant \<Rightarrow> audit_row" where
  "candidate_audit actor confirm i decision target now =
     \<lparr>au_workspace = ac_workspace actor, au_actor = Some (ac_user actor), au_entity_kind = ''candidate_fact'',
      au_entity_id = uuid_str i, au_before = JObj [(''decision'', JStr ''HOLD''), (''status'', JStr ''NEEDS_CONFIRMATION'')],
      au_after = JObj [(''decision'', JStr decision), (''status'', JStr target)],
      au_reason = ''candidate.'' @ (if confirm then ''confirm'' else ''ignore''), au_rule_basis = [''REQ-UX-003''],
      au_approval = None, au_trace = ''sess:'' @ uuid_str (ac_session actor), au_reversible = False, au_occurred_at = now\<rparr>"

definition decide_candidate :: "instant \<Rightarrow> current_actor \<Rightarrow> uuid \<Rightarrow> bool \<Rightarrow> inbox_db \<Rightarrow> ((string \<times> string) \<times> inbox_db) api" where
  "decide_candidate now actor i confirm db =
     (case row_at kr_id i (ib_candidates db) of None \<Rightarrow> Inl NotFoundError
      | Some c \<Rightarrow> (case owned_row ir_id ir_workspace (ac_workspace actor) (kr_item c) (ib_items db) of None \<Rightarrow> Inl NotFoundError
        | Some r \<Rightarrow>
          (let decision = (if confirm then ''CONFIRMED'' else ''IGNORED''); target = (if confirm then ''STRUCTURED'' else ''IGNORED'')
           in if kr_decision c \<notin> {''HOLD'', decision}
              then Inl (DomainRuleError ''CANDIDATE_ALREADY_RESOLVED'' ''candidate has a different terminal decision'')
              else if kr_decision c = decision then Inr ((decision, ir_status r), db)
              else (case transition_inbox (ir_status r) target of Inl e \<Rightarrow> Inl e
                | Inr status \<Rightarrow> Inr ((decision, status),
                    db\<lparr>ib_candidates := put_row kr_id (c\<lparr>kr_decision := decision\<rparr>) (ib_candidates db),
                       ib_items := put_row ir_id (r\<lparr>ir_status := status\<rparr>) (ib_items db),
                       ib_audit := ib_audit db @ [candidate_audit actor confirm (kr_id c) decision target now]\<rparr>)))))"

section \<open>Every item is processed at most once\<close>

inductive inbox_step :: "inbox_db \<Rightarrow> inbox_db \<Rightarrow> bool" where
  receive: "create_from_text a k i actor s db = Inr (r, db') \<Longrightarrow> inbox_step db db'"
| mark: "mark_item i target reason db = Inr (r, db') \<Longrightarrow> inbox_step db db'"
| process: "process_item operation new_id i db = Inr (status, db') \<Longrightarrow> inbox_step db db'"
| crash: "inbox_step db (process_item_failing i db)"
| decide: "decide_candidate now actor i confirm db = Inr (answer, db') \<Longrightarrow> inbox_step db db'"

definition empty_inbox :: inbox_db where
  "empty_inbox = \<lparr>ib_artifacts = [], ib_items = [], ib_candidates = [], ib_keys = [], ib_audit = []\<rparr>"

text \<open>Candidates belong to structured items, at most one to each, and are undecided.\<close>

definition inbox_inv :: "inbox_db \<Rightarrow> bool" where
  "inbox_inv db \<longleftrightarrow> distinct (map ir_id (ib_items db)) \<and> distinct (map kr_item (ib_candidates db))
     \<and> distinct (map kr_id (ib_candidates db))
     \<and> (\<forall>c\<in>set (ib_candidates db). kr_decision c = ''HOLD''
          \<and> (\<exists>r. row_at ir_id (kr_item c) (ib_items db) = Some r \<and> ir_status r = ''STRUCTURED''
               \<and> (\<exists>s. ir_raw_text r = Some s \<and> \<not> blank s)))"

interpretation inbox_items: row_table ir_id "row_at ir_id" "put_row ir_id"
  by unfold_locales (fact row_at_key row_at_put_same row_at_put_absent row_at_put_other)+

lemma structured_is_final: "transition_inbox ''STRUCTURED'' target =
    Inl (DomainRuleError ''INVALID_INBOX_TRANSITION'' (''STRUCTURED cannot transition to '' @ target))"
  by (simp add: transition_inbox_def INBOX_TRANSITIONS_def)

text \<open>Writing an item that is not structured touches no item with a candidate.\<close>

lemma inbox_inv_put:
  assumes inv: "inbox_inv db" and r: "row_at ir_id k (ib_items db) = Some r" "ir_status r \<noteq> ''STRUCTURED''" "ir_id r' = ir_id r"
  shows "inbox_inv (db\<lparr>ib_items := put_row ir_id r' (ib_items db)\<rparr>)"
    and "\<forall>c\<in>set (ib_candidates db). kr_item c \<noteq> k"
proof -
  show other: "\<forall>c\<in>set (ib_candidates db). kr_item c \<noteq> k" using inv r(1,2) by (force simp: inbox_inv_def)
  have "row_at ir_id j (put_row ir_id r' (ib_items db)) = row_at ir_id j (ib_items db)" if "j \<noteq> k" for j
    using inbox_items.modify_frame(2) [OF r(1) r(3)] that by simp
  with other show "inbox_inv (db\<lparr>ib_items := put_row ir_id r' (ib_items db)\<rparr>)" using inv by (simp add: inbox_inv_def)
qed

lemma mark_item_inv:
  assumes "mark_item i target reason db = Inr (r', db')" and "inbox_inv db"
  shows "inbox_inv db'"
proof -
  obtain k r status where r: "row_at ir_id k (ib_items db) = Some r" "transition_inbox (ir_status r) target = Inr status"
    "ir_id r' = ir_id r" "db' = db\<lparr>ib_items := put_row ir_id r' (ib_items db)\<rparr>"
    using assms(1) by (auto simp: mark_item_def Let_def split: option.splits sum.splits)
  have "ir_status r \<noteq> ''STRUCTURED''" using r(2) structured_is_final by auto
  from inbox_inv_put(1) [OF assms(2) r(1) this r(3)] show ?thesis by (simp add: r(4))
qed

lemma process_item_cases:
  assumes "process_item operation new_id i db = Inr (status, db')"
  obtains (same) "db' = db"
  | (done_now) k r made where "py_uuid i = Some k" "row_at ir_id k (ib_items db) = Some r" "ir_status r = ''NEW''"
      "made = map (candidate_of new_id operation r) (extract_candidates r)"
      "status = (if made \<noteq> [] then ''STRUCTURED'' else ''NEEDS_CONFIRMATION'')"
      "\<forall>c\<in>set made. kr_id c \<notin> set (map kr_id (ib_candidates db))"
      "db' = db\<lparr>ib_items := put_row ir_id (r\<lparr>ir_status := status\<rparr>) (ib_items db), ib_candidates := ib_candidates db @ made,
         ib_keys := ib_keys db @ [uuid_str operation]\<rparr>" "uuid_str operation \<notin> set (ib_keys db)"
proof (cases "db' = db")
  case False
  obtain k r where k: "py_uuid i = Some k" "row_at ir_id k (ib_items db) = Some r"
    using assms by (auto simp: process_item_def split: option.splits)
  have fresh: "uuid_str operation \<notin> set (ib_keys db)" and new: "ir_status r = ''NEW''"
    using assms False by (auto simp: process_item_def k reserve_key_def split: if_splits)
  have moves: "transition_inbox ''NEW'' ''PROCESSING'' = Inr ''PROCESSING''" "transition_inbox ''PROCESSING'' ''STRUCTURED'' = Inr ''STRUCTURED''"
    "transition_inbox ''PROCESSING'' ''NEEDS_CONFIRMATION'' = Inr ''NEEDS_CONFIRMATION''"
    by (simp_all add: transition_inbox_def INBOX_TRANSITIONS_def)
  define made where "made = map (candidate_of new_id operation r) (extract_candidates r)"
  define target where "target = (if made \<noteq> [] then ''STRUCTURED'' else ''NEEDS_CONFIRMATION'')"
  have t: "transition_inbox ''PROCESSING'' target = Inr target" using moves(2,3) by (simp add: target_def)
  have "(if \<exists>c\<in>set made. kr_id c \<in> set (map kr_id (ib_candidates db)) then Inl IntegrityError
     else Inr (target, db\<lparr>ib_items := put_row ir_id (r\<lparr>ir_status := target\<rparr>) (ib_items db),
            ib_candidates := ib_candidates db @ made, ib_keys := ib_keys db @ [uuid_str operation]\<rparr>)) = Inr (status, db')"
    using assms fresh unfolding process_item_def k option.case reserve_key_def new moves(1) sum.case Let_def made_def [symmetric]
      target_def [symmetric] t by simp
  with k new fresh made_def target_def show ?thesis by (intro done_now [of k r made]) (auto split: if_splits)
qed (rule same)

lemma process_item_inv:
  assumes run: "process_item operation new_id i db = Inr (status, db')" and inv: "inbox_inv db"
  shows "inbox_inv db'"
  using run
proof (cases rule: process_item_cases)
  case (done_now k r made)
  have r: "ir_status r \<noteq> ''STRUCTURED''" by (simp add: done_now(3))
  note put = inbox_inv_put [OF inv done_now(2) r, of "r\<lparr>ir_status := status\<rparr>"]
  have id: "ir_id r = k" using done_now(2) by (rule row_at_key)
  have "made = [] \<or> (\<exists>s. ir_raw_text r = Some s \<and> \<not> blank s \<and> made = [candidate_of new_id operation r (''REFERENCE_NOTE'',
      JObj [(''source'', JStr ''inline-text''), (''preview'', JStr (take 120 s)), (''version'', JInt 1)])])"
    unfolding done_now(4) extract_candidates_def by (cases "ir_raw_text r") (auto simp: Let_def blank_iff)
  then show ?thesis
  proof
    assume "made = []"
    then show ?thesis using put(1) by (simp add: done_now(7) inbox_inv_def)
  next
    assume "\<exists>s. ir_raw_text r = Some s \<and> \<not> blank s \<and> made = [candidate_of new_id operation r (''REFERENCE_NOTE'',
      JObj [(''source'', JStr ''inline-text''), (''preview'', JStr (take 120 s)), (''version'', JInt 1)])]"
    then obtain s c where s: "ir_raw_text r = Some s" "\<not> blank s" "made = [c]" "kr_item c = k" "kr_decision c = ''HOLD''"
      "status = ''STRUCTURED''" "kr_id c \<notin> set (map kr_id (ib_candidates db))"
      using done_now(5,6) by (auto simp: candidate_of_def id)
    have "row_at ir_id k (put_row ir_id (r\<lparr>ir_status := status\<rparr>) (ib_items db)) = Some (r\<lparr>ir_status := status\<rparr>)"
      by (rule inbox_items.modify_frame(1) [OF done_now(2)]) simp
    then show ?thesis using put s by (auto simp: done_now(7) inbox_inv_def)
  qed
qed (use inv in simp)

lemma decide_candidate_refused:
  assumes inv: "inbox_inv db" and c: "row_at kr_id i (ib_candidates db) = Some c"
    and own: "owned_row ir_id ir_workspace (ac_workspace actor) (kr_item c) (ib_items db) = Some r"
  shows "decide_candidate now actor i confirm db = Inl (DomainRuleError ''INVALID_INBOX_TRANSITION''
    (''STRUCTURED cannot transition to '' @ (if confirm then ''STRUCTURED'' else ''IGNORED'')))"
proof -
  have "c \<in> set (ib_candidates db)" using c by (auto simp: row_at_def find_Some_iff)
  then have hold: "kr_decision c = ''HOLD''" and "\<exists>q. row_at ir_id (kr_item c) (ib_items db) = Some q \<and> ir_status q = ''STRUCTURED''"
    using inv by (auto simp: inbox_inv_def)
  moreover have "row_at ir_id (kr_item c) (ib_items db) = Some r" using owned_row_at [OF _ own] inv by (simp add: inbox_inv_def)
  ultimately have st: "ir_status r = ''STRUCTURED''" by simp
  show ?thesis by (simp add: decide_candidate_def c own hold st structured_is_final)
qed

lemma inbox_step_inv: "inbox_step db db' \<Longrightarrow> inbox_inv db \<Longrightarrow> inbox_inv db'"
proof (induction rule: inbox_step.induct)
  case (receive a k i actor s db r db')
  then have new: "i \<notin> set (map ir_id (ib_items db))" "ir_id r = i" "ib_items db' = ib_items db @ [r]" "ib_candidates db' = ib_candidates db"
    by (auto simp: create_from_text_def Let_def split: if_splits)
  have "row_at ir_id j (ib_items db @ [r]) = Some q" if "row_at ir_id j (ib_items db) = Some q" for j q
    using that unfolding row_at_def by (induction "ib_items db") (auto simp: find_Some_iff nth_append)
  then show ?case using receive.prems new by (fastforce simp: inbox_inv_def)
next
  case (mark i target reason db r db')
  then show ?case using mark_item_inv by blast
next
  case (process operation new_id i db status db')
  then show ?case using process_item_inv by blast
next
  case (crash db i)
  show ?case
  proof (cases "py_uuid i = None \<or> (\<exists>k. py_uuid i = Some k \<and> row_at ir_id k (ib_items db) = None)")
    case True
    then show ?thesis using crash by (auto simp: process_item_failing_def)
  next
    case False
    then obtain k r where k: "py_uuid i = Some k" "row_at ir_id k (ib_items db) = Some r" by auto
    define db1 where "db1 = (if ir_status r = ''NEW'' then db\<lparr>ib_items := put_row ir_id (r\<lparr>ir_status := ''PROCESSING''\<rparr>) (ib_items db)\<rparr> else db)"
    have inv: "inbox_inv db1" using inbox_inv_put(1) [OF crash k(2)] crash by (simp add: db1_def)
    have "process_item_failing i db = (case mark_item i ''FAILED'' (Some ''simulated processing failure'') db1 of
        Inl _ \<Rightarrow> db1 | Inr (_, db2) \<Rightarrow> db2)" unfolding process_item_failing_def k option.case Let_def db1_def [symmetric] ..
    then show ?thesis using mark_item_inv inv by (auto split: sum.splits)
  qed
next
  case (decide now actor i confirm db answer db')
  then show ?case
    using decide_candidate_refused [OF decide.prems, of i _ actor _ now confirm]
    by (auto simp: decide_candidate_def split: option.splits)
qed

lemma inbox_reach_inv: "inbox_step\<^sup>*\<^sup>* empty_inbox db \<Longrightarrow> inbox_inv db"
proof (induction rule: rtranclp_induct)
  case base
  show ?case by (simp add: inbox_inv_def empty_inbox_def)
qed (rule inbox_step_inv)

text \<open>
  The key of a job is its operation alone: a job that is run for a second item takes the item for
  a repeated delivery and leaves it as it was.
\<close>

lemma second_item_skipped:
  assumes "process_item operation new_id i db = Inr (status, db')" and "db' \<noteq> db"
    and "py_uuid j = Some k" and "row_at ir_id k (ib_items db') = Some r"
  shows "process_item operation new_id' j db' = Inr (ir_status r, db')"
proof -
  have "uuid_str operation \<in> set (ib_keys db')"
    using assms(1,2) by (cases rule: process_item_cases) auto
  then show ?thesis by (simp add: process_item_def assms(3,4) reserve_key_def)
qed


text \<open>No candidate of the processing job can be decided. In every reachable state, whichever candidate a
  member of its workspace confirms or ignores, the decision fails with \<open>INVALID_INBOX_TRANSITION\<close>:
  the job leaves the item structured, and nothing leaves that status.\<close>

theorem job_candidates_undecidable:
  assumes "inbox_step\<^sup>*\<^sup>* empty_inbox db" and "row_at kr_id i (ib_candidates db) = Some c"
    and "row_at ir_id (kr_item c) (ib_items db) = Some r" and "ir_workspace r = ac_workspace actor"
  shows "\<exists>m. decide_candidate now actor i confirm db = Inl (DomainRuleError ''INVALID_INBOX_TRANSITION'' m)"
proof -
  have inv: "inbox_inv db" using assms(1) by (rule inbox_reach_inv)
  have r: "r \<in> set (ib_items db)" "ir_id r = kr_item c" using row_at_Some [OF assms(3)] by blast+
  obtain q where q: "owned_row ir_id ir_workspace (ac_workspace actor) (kr_item c) (ib_items db) = Some q"
    using r assms(4) unfolding owned_row_def
    by (cases "find (\<lambda>r. ir_id r = kr_item c \<and> ir_workspace r = ac_workspace actor) (ib_items db)") (auto simp: find_None_iff)
  show ?thesis using decide_candidate_refused [OF inv assms(2) q] by blast
qed

text \<open>An item that is not new is never processed again: after a crash it can be marked for processing, but the
  job returns at once, whatever its operation id.\<close>

lemma only_new_items_processed:
  assumes "py_uuid i = Some k" and "row_at ir_id k (ib_items db) = Some r" and "ir_status r \<noteq> ''NEW''"
  shows "process_item operation new_id i db = Inr (ir_status r, db)"
  using assms by (simp add: process_item_def split: option.splits)

lemma failed_item_never_processed:
  assumes "py_uuid i = Some k" and "row_at ir_id k (ib_items db) = Some r" and "ir_status r = ''FAILED''"
  shows "\<exists>r' db'. mark_item i ''PROCESSING'' None db = Inr (r', db')
    \<and> process_item operation new_id i db' = Inr (''PROCESSING'', db')"
proof -
  have t: "transition_inbox ''FAILED'' ''PROCESSING'' = Inr ''PROCESSING''"
    by (simp add: transition_inbox_def INBOX_TRANSITIONS_def)
  let ?r = "r\<lparr>ir_status := ''PROCESSING''\<rparr>"
  have m: "mark_item i ''PROCESSING'' None db = Inr (?r, db\<lparr>ib_items := put_row ir_id ?r (ib_items db)\<rparr>)"
    using assms t by (simp add: mark_item_def Let_def)
  have "row_at ir_id k (put_row ir_id ?r (ib_items db)) = Some ?r" by (rule inbox_items.modify_frame(1) [OF assms(2)]) simp
  from only_new_items_processed [OF assms(1), of "db\<lparr>ib_items := put_row ir_id ?r (ib_items db)\<rparr>"] this m
  show ?thesis by simp
qed

section \<open>A message and its candidate\<close>

definition a_note :: inbox_row where
  "a_note = \<lparr>ir_id = 21, ir_workspace = 3, ir_artifact = Some 20, ir_kind = ''text'', ir_raw_text = Some ''call'',
     ir_status = ''NEW'', ir_failure_reason = None\<rparr>"

lemma a_note_processed:
  "\<exists>db c. inbox_step\<^sup>*\<^sup>* empty_inbox db \<and> row_at kr_id 31 (ib_candidates db) = Some c \<and> kr_item c = 21
     \<and> row_at ir_id 21 (ib_items db) = Some (a_note\<lparr>ir_status := ''STRUCTURED''\<rparr>) \<and> ac_workspace an_actor = 3"
proof -
  obtain db1 where one: "create_from_text 20 22 21 an_actor ''call'' empty_inbox = Inr (a_note, db1)"
    "ib_items db1 = [a_note]" "ib_candidates db1 = []" "ib_keys db1 = []"
    by (simp add: create_from_text_def empty_inbox_def Let_def a_note_def an_actor_def)
  have row: "row_at ir_id 21 [a_note] = Some a_note" by (simp add: row_at_def a_note_def)
  define payload where "payload = JObj [(''source'', JStr ''inline-text''), (''preview'', JStr ''call''), (''version'', JInt 1)]"
  have ext: "extract_candidates a_note = [(''REFERENCE_NOTE'', payload)]"
    by (simp add: extract_candidates_def a_note_def payload_def blank_iff is_py_space_def)
  have new: "ir_status a_note = ''NEW''" by (simp add: a_note_def)
  define db2 where "db2 = db1\<lparr>ib_items := put_row ir_id (a_note\<lparr>ir_status := ''STRUCTURED''\<rparr>) [a_note],
    ib_candidates := [candidate_of 31 30 a_note (''REFERENCE_NOTE'', payload)], ib_keys := [uuid_str 30]\<rparr>"
  have uuid: "py_uuid (uuid_str 21) = Some 21" by (rule py_uuid_str [THEN conjunct1])
  have two: "process_item 30 31 (uuid_str 21) db1 = Inr (''STRUCTURED'', db2)"
    by (simp add: process_item_def uuid row reserve_key_def one new ext transition_inbox_def INBOX_TRANSITIONS_def db2_def Let_def)
  have "inbox_step\<^sup>*\<^sup>* empty_inbox db2"
    using inbox_step.receive [OF one(1)] inbox_step.process [OF two(1)] by (meson converse_rtranclp_into_rtranclp r_into_rtranclp)
  then show ?thesis
    by (intro exI [of _ db2] exI [of _ "candidate_of 31 30 a_note (''REFERENCE_NOTE'', payload)"])
      (simp add: db2_def row_at_def candidate_of_def a_note_def put_row_def an_actor_def)
qed


lemma job_candidates_undecidable_witness:
  "\<exists>db m. inbox_step\<^sup>*\<^sup>* empty_inbox db \<and> ib_candidates db \<noteq> []
     \<and> decide_candidate 0 an_actor 31 True db = Inl (DomainRuleError ''INVALID_INBOX_TRANSITION'' m)"
proof -
  obtain db c where db: "inbox_step\<^sup>*\<^sup>* empty_inbox db" "row_at kr_id 31 (ib_candidates db) = Some c" "kr_item c = 21"
    "row_at ir_id (kr_item c) (ib_items db) = Some (a_note\<lparr>ir_status := ''STRUCTURED''\<rparr>)" "ac_workspace an_actor = 3"
    using a_note_processed by metis
  have "ir_workspace (a_note\<lparr>ir_status := ''STRUCTURED''\<rparr>) = ac_workspace an_actor" by (simp add: a_note_def db(5))
  from job_candidates_undecidable [OF db(1,2,4) this, of 0 True] db show ?thesis by (auto simp: row_at_def)
qed

end
