(* ===== verification/Once_Stores.thy ===== *)
theory Once_Stores
  imports Canonical Python_Text
begin

text \<open>
  Stores that create an entry once per key, as an interface (\<open>once_store\<close>) with its
  implementations: the notification service (\<open>notifications/service.py\<close>), the store of sync
  operations (\<open>calendar/sync_jobs.py\<close> of the worker) and the cache of the extraction pipeline
  (\<open>files/pipeline.py\<close>). With them the delivery policy (\<open>notifications/policy.py\<close>) and the
  field ownership matrix (\<open>calendar/field_ownership.py\<close>). The results: whatever the calls,
  equal keys get equal answers, each the entry the store holds in the end.
\<close>

section \<open>The interface\<close>

text \<open>\<open>create k n s\<close> is the call with key \<open>k\<close> that would make the entry \<open>n\<close>.\<close>

locale once_store =
  fixes entry :: "'k \<Rightarrow> 's \<Rightarrow> 'v option" and create :: "'k \<Rightarrow> 'v \<Rightarrow> 's \<Rightarrow> 'v \<times> 's"
  assumes hit: "entry k s = Some v \<Longrightarrow> create k n s = (v, s)"
    and miss_result: "entry k s = None \<Longrightarrow> fst (create k n s) = n"
    and miss_entry: "entry k s = None \<Longrightarrow> entry j (snd (create k n s)) = (if j = k then Some n else entry j s)"
begin

lemma entry_after: "entry k (snd (create k n s)) = Some (fst (create k n s))"
  using hit [of k s _ n] miss_result [of k s n] miss_entry [of k s k n] by (cases "entry k s") auto

lemma entry_kept: "entry j s = Some v \<Longrightarrow> entry j (snd (create k n s)) = Some v"
  using hit [of k s _ n] miss_entry [of k s j n] by (cases "entry k s") auto

lemma result_stored: "entry k s = Some v \<Longrightarrow> fst (create k n s) = v"
  by (simp add: hit)

fun calls :: "('k \<times> 'v) list \<Rightarrow> 's \<Rightarrow> ('k \<times> 'v) list \<times> 's" where
  "calls [] s = ([], s)"
| "calls ((k, n) # cs) s = (case create k n s of (v, s') \<Rightarrow> (case calls cs s' of (rs, t) \<Rightarrow> ((k, v) # rs, t)))"

lemma calls_keep: "entry j s = Some v \<Longrightarrow> entry j (snd (calls cs s)) = Some v"
proof (induction cs arbitrary: s)
  case (Cons c cs)
  obtain k n where "c = (k, n)" by (cases c)
  then show ?case using Cons.IH [OF entry_kept [OF Cons.prems]] by (simp add: case_prod_beta)
qed simp

text \<open>Every answer of a sequence of calls is the entry that the store holds for its key in the end.\<close>

lemma answers_stored: "(k, v) \<in> set (fst (calls cs s)) \<Longrightarrow> entry k (snd (calls cs s)) = Some v"
proof (induction cs arbitrary: s)
  case (Cons c cs)
  obtain k' n where c: "c = (k', n)" by (cases c)
  have "entry k' (snd (calls cs (snd (create k' n s)))) = Some (fst (create k' n s))" by (rule calls_keep [OF entry_after])
  then show ?case using Cons c by (auto simp: case_prod_beta)
qed simp

lemma same_key_same_answer:
  "(k, v) \<in> set (fst (calls cs s)) \<Longrightarrow> (k, w) \<in> set (fst (calls cs s)) \<Longrightarrow> v = w"
  using answers_stored [of k v cs s] answers_stored [of k w cs s] by simp

lemma entries_of_calls: "entry k (snd (calls cs s)) \<noteq> None \<longleftrightarrow> entry k s \<noteq> None \<or> k \<in> fst ` set cs"
proof (induction cs arbitrary: s)
  case (Cons c cs)
  obtain k' n where c: "c = (k', n)" by (cases c)
  have "entry k (snd (create k' n s)) \<noteq> None \<longleftrightarrow> entry k s \<noteq> None \<or> k = k'"
    using entry_after [of k' n s] entry_kept [of k s _ k' n] miss_entry [of k' s k n] hit [of k' s _ n]
    by (cases "k = k'"; cases "entry k' s"; cases "entry k s") auto
  then show ?case using Cons.IH [of "snd (create k' n s)"] by (auto simp: c case_prod_beta)
qed simp

end

text \<open>A dictionary that is only written when the key is missing.\<close>

definition dict_once :: "'k \<Rightarrow> 'v \<Rightarrow> ('k, 'v) dict \<Rightarrow> 'v \<times> ('k, 'v) dict" where
  "dict_once k n d = (case map_of d k of Some v \<Rightarrow> (v, d) | None \<Rightarrow> (n, AList.update k n d))"

lemma dict_once_laws:
  "map_of d k = Some v \<Longrightarrow> dict_once k n d = (v, d)"
  "map_of d k = None \<Longrightarrow> fst (dict_once k n d) = n"
  "map_of d k = None \<Longrightarrow> map_of (snd (dict_once k n d)) j = (if j = k then Some n else map_of d j)"
  by (simp_all add: dict_once_def map_of_update)

section \<open>Notifications\<close>

datatype severity = CRITICAL_N | ACTIONABLE_N | SUMMARY_N | SILENT_N

datatype delivery = IMMEDIATE | NEXT_SUMMARY | RECORD_ONLY

record notification_intent =
  ni_dedupe_key :: string
  ni_severity :: severity
  ni_title :: string
  ni_body :: string

text \<open>\<open>quiet\<close> is \<open>settings.is_quiet\<close>.\<close>

definition delivery_mode :: "notification_intent \<Rightarrow> (instant \<Rightarrow> bool) \<Rightarrow> instant \<Rightarrow> delivery" where
  "delivery_mode intent quiet now =
     (if ni_severity intent = SILENT_N then RECORD_ONLY
      else if quiet now \<and> ni_severity intent \<noteq> CRITICAL_N then NEXT_SUMMARY
      else if ni_severity intent = SUMMARY_N then NEXT_SUMMARY
      else IMMEDIATE)"

record notification_record =
  nr_id :: string
  nr_dedupe_key :: string
  nr_title :: string
  nr_body :: string

type_synonym notifications = "(string, notification_record) dict"

definition enqueue :: "uuid \<Rightarrow> notification_intent \<Rightarrow> notifications \<Rightarrow> notification_record \<times> notifications" where
  "enqueue new_id intent d = (case map_of d (ni_dedupe_key intent) of
     Some existing \<Rightarrow> (existing, d)
   | None \<Rightarrow> (let r = \<lparr>nr_id = hex_of new_id, nr_dedupe_key = ni_dedupe_key intent, nr_title = ni_title intent, nr_body = ni_body intent\<rparr>
       in (r, AList.update (ni_dedupe_key intent) r d)))"

definition pending_count :: "string \<Rightarrow> notifications \<Rightarrow> int" where
  "pending_count k d = (if map_of d k \<noteq> None then 1 else 0)"

definition record_of :: "uuid \<Rightarrow> notification_intent \<Rightarrow> notification_record" where
  "record_of new_id intent = \<lparr>nr_id = hex_of new_id, nr_dedupe_key = ni_dedupe_key intent, nr_title = ni_title intent, nr_body = ni_body intent\<rparr>"

lemma enqueue_once: "enqueue new_id intent d = dict_once (ni_dedupe_key intent) (record_of new_id intent) d"
  by (simp add: enqueue_def dict_once_def record_of_def Let_def split: option.splits)

interpretation once: once_store "\<lambda>k d. map_of d k" dict_once
  by unfold_locales (fact dict_once_laws)+


lemma pending_count_entry: "pending_count k d = 1 \<longleftrightarrow> map_of d k \<noteq> None"
  by (simp add: pending_count_def)

text \<open>A history of enqueued intents, each with the identifier that \<open>uuid4\<close> would give it.\<close>

fun enqueue_all :: "(uuid \<times> notification_intent) list \<Rightarrow> notifications \<Rightarrow> notification_record list \<times> notifications" where
  "enqueue_all [] d = ([], d)"
| "enqueue_all ((new_id, intent) # calls) d =
     (let (r, d1) = enqueue new_id intent d; (rs, d2) = enqueue_all calls d1 in (r # rs, d2))"

abbreviation as_calls :: "(uuid \<times> notification_intent) list \<Rightarrow> (string \<times> notification_record) list" where
  "as_calls \<equiv> map (\<lambda>(new_id, intent). (ni_dedupe_key intent, record_of new_id intent))"

lemma enqueue_all_calls:
  "fst (once.calls (as_calls cs) d) = zip (map (ni_dedupe_key \<circ> snd) cs) (fst (enqueue_all cs d))
    \<and> snd (once.calls (as_calls cs) d) = snd (enqueue_all cs d) \<and> length (fst (enqueue_all cs d)) = length cs"
  by (induction cs arbitrary: d) (auto simp: case_prod_beta enqueue_once Let_def)

section \<open>Sync operations\<close>

record sync_operation =
  so_operation_id :: string
  so_connection_id :: string
  so_message_number :: int

text \<open>The payload's \<open>connection_id\<close> and \<open>message_number\<close>, as the webhook delivers them.\<close>

definition operation_of :: "string \<Rightarrow> string \<Rightarrow> int option \<Rightarrow> sync_operation" where
  "operation_of key connection number =
     \<lparr>so_operation_id = key, so_connection_id = connection, so_message_number = (case number of None \<Rightarrow> 0 | Some n \<Rightarrow> n)\<rparr>"

definition get_or_create :: "string \<Rightarrow> string \<Rightarrow> int option \<Rightarrow> (string, sync_operation) dict
    \<Rightarrow> sync_operation \<times> (string, sync_operation) dict" where
  "get_or_create key connection number by_key = (case map_of by_key key of
     Some existing \<Rightarrow> (existing, by_key)
   | None \<Rightarrow> (let operation = operation_of key connection number in (operation, AList.update key operation by_key)))"

lemma get_or_create_once: "get_or_create key c n = dict_once key (operation_of key c n)"
  by (rule ext) (simp add: get_or_create_def dict_once_def Let_def split: option.splits)

section \<open>Extraction\<close>

record extraction_chunk =
  xc_text :: string
  xc_page :: "int option"
  xc_block :: int

record extraction_result =
  er_chunks :: "extraction_chunk list"
  er_parser_version :: string

record extraction_record =
  xt_id :: string
  xt_source :: string
  xt_version :: string
  xt_result :: extraction_result

definition has_suffix :: "string \<Rightarrow> string \<Rightarrow> bool" where
  "has_suffix s suffix = starts_with (rev suffix) (rev s)"

definition guess_content_type :: "string \<Rightarrow> string" where
  "guess_content_type source_key = (let lowered = lower source_key in
     if has_suffix lowered ''.pdf'' then ''application/pdf''
     else if has_suffix lowered ''.txt'' \<or> has_suffix lowered ''.md'' then ''text/plain''
     else if has_suffix lowered ''.png'' then ''image/png''
     else if has_suffix lowered ''.jpg'' \<or> has_suffix lowered ''.jpeg'' then ''image/jpeg''
     else ''application/octet-stream'')"

definition cache_key :: "string \<Rightarrow> string \<Rightarrow> string" where
  "cache_key source version = source @ ''::'' @ version"

definition extraction_id :: "(nat list \<Rightarrow> string) \<Rightarrow> string \<Rightarrow> string \<Rightarrow> string" where
  "extraction_id sha256 source version = take 32 (sha256 (utf8 (source @ ''::'' @ version)))"

text \<open>\<open>storage.get\<close> raises \<open>KeyError\<close>; the parser is a parameter that may raise.\<close>

definition extract_source :: "(nat list \<Rightarrow> string) \<Rightarrow> (nat list \<Rightarrow> string \<Rightarrow> extraction_result res) \<Rightarrow> (string, nat list) dict \<Rightarrow> string \<Rightarrow> string
    \<Rightarrow> (string, extraction_record) dict \<Rightarrow> extraction_record res \<times> (string, extraction_record) dict" where
  "extract_source sha256 parse storage source version cache =
     (case map_of cache (cache_key source version) of
        Some cached \<Rightarrow> (Inr cached, cache)
      | None \<Rightarrow>
          (case map_of storage source of
             None \<Rightarrow> (Inl KeyError, cache)
           | Some content \<Rightarrow>
               (case parse content (guess_content_type source) of
                  Inl e \<Rightarrow> (Inl e, cache)
                | Inr parsed \<Rightarrow>
                    (let r = \<lparr>xt_id = extraction_id sha256 source version, xt_source = source, xt_version = version,
                       xt_result = parsed\<rparr>
                     in (Inr r, AList.update (cache_key source version) r cache)))))"

lemma extract_stores:
  "extract_source sha256 parse storage source version cache = (Inr r, cache') \<Longrightarrow> map_of cache' (cache_key source version) = Some r"
  by (auto simp: extract_source_def map_of_update Let_def split: option.splits sum.splits)

lemma extract_keeps:
  assumes "map_of cache k = Some r"
  shows "map_of (snd (extract_source sha256 parse storage source version cache)) k = Some r"
  using assms by (auto simp: extract_source_def map_of_update Let_def split: option.splits sum.splits)

text \<open>Whether the stored objects or the parser's behaviour changed between two calls does not matter.\<close>

fun extract_all :: "(nat list \<Rightarrow> string) \<Rightarrow> ((nat list \<Rightarrow> string \<Rightarrow> extraction_result res) \<times> (string, nat list) dict \<times> string \<times> string) list
    \<Rightarrow> (string, extraction_record) dict \<Rightarrow> (string, extraction_record) dict" where
  "extract_all sha256 [] cache = cache"
| "extract_all sha256 ((parse, storage, source, version) # calls) cache =
     extract_all sha256 calls (snd (extract_source sha256 parse storage source version cache))"

lemma extract_all_keeps: "map_of cache k = Some r \<Longrightarrow> map_of (extract_all sha256 calls cache) k = Some r"
  by (induction calls arbitrary: cache) (auto simp: extract_keeps)

lemma extract_again:
  assumes "extract_source sha256 parse storage source version cache = (Inr r, cache')"
    and "cache_key source version = cache_key source' version'"
  shows "extract_source sha256 parse' storage' source' version' (extract_all sha256 calls cache') = (Inr r, extract_all sha256 calls cache')"
proof -
  have "map_of (extract_all sha256 calls cache') (cache_key source' version') = Some r"
    using extract_all_keeps [OF extract_stores [OF assms(1)]] by (simp add: assms(2))
  then show ?thesis by (simp add: extract_source_def)
qed

lemma cache_key_ambiguous: "cache_key ''a::b'' ''c'' = cache_key ''a'' ''b::c''"
  by (simp add: cache_key_def)

section \<open>Field ownership\<close>

definition FIELD_OWNER :: "(string, string) dict" where
  "FIELD_OWNER = [(''external_title'', ''PROVIDER''), (''start_at'', ''LAST_EXPLICIT_USER_ACTION''),
     (''end_at'', ''LAST_EXPLICIT_USER_ACTION''), (''task_id'', ''PLANNING_CORE''),
     (''managed_marker'', ''PLANNING_CORE''), (''provider_version'', ''PROVIDER'')]"

definition field_owner :: "string \<Rightarrow> string res" where
  "field_owner field = (case map_of FIELD_OWNER field of None \<Rightarrow> Inl KeyError | Some owner \<Rightarrow> Inr owner)"

section \<open>Properties\<close>

text \<open>
  Notifications are deduplicated whatever the history: of any sequence of enqueued intents,
  with any titles, bodies and fresh identifiers, two with the same key are answered by the same
  record, which is the one the service holds for that key in the end; a key has exactly one
  pending entry when it was enqueued at all and none otherwise.
\<close>

theorem notifications_deduplicated:
  assumes "enqueue_all cs [] = (rs, d)"
  shows "length rs = length cs
    \<and> (\<forall>i<length cs. map_of d (ni_dedupe_key (snd (cs ! i))) = Some (rs ! i))
    \<and> (\<forall>i<length cs. \<forall>j<length cs. ni_dedupe_key (snd (cs ! i)) = ni_dedupe_key (snd (cs ! j)) \<longrightarrow> rs ! i = rs ! j)
    \<and> (\<forall>k. pending_count k d = (if k \<in> ni_dedupe_key ` snd ` set cs then 1 else 0))"
proof -
  let ?keys = "map (ni_dedupe_key \<circ> snd) cs"
  have len: "length rs = length cs" and fs: "fst (once.calls (as_calls cs) []) = zip ?keys rs" and sn: "snd (once.calls (as_calls cs) []) = d"
    using enqueue_all_calls [of cs "[]"] assms by simp_all
  have held: "map_of d (ni_dedupe_key (snd (cs ! i))) = Some (rs ! i)" if "i < length cs" for i
  proof -
    have "(ni_dedupe_key (snd (cs ! i)), rs ! i) \<in> set (zip ?keys rs)"
      using that len by (auto simp: set_zip intro!: exI [of _ i])
    then show ?thesis using once.answers_stored [of _ _ "as_calls cs" "[]"] by (simp add: fs sn)
  qed
  have "map_of d k \<noteq> None \<longleftrightarrow> k \<in> ni_dedupe_key ` snd ` set cs" for k :: string
    using once.entries_of_calls [of "as_calls cs" "[]" k] by (simp add: sn image_image case_prod_beta)
  then have "pending_count k d = (if k \<in> ni_dedupe_key ` snd ` set cs then 1 else 0)" for k
    by (simp add: pending_count_def)
  moreover have "rs ! i = rs ! j"
    if "i < length cs" and "j < length cs" and "ni_dedupe_key (snd (cs ! i)) = ni_dedupe_key (snd (cs ! j))" for i j
    using held [OF that(1)] held [OF that(2)] that(3) by simp
  ultimately show ?thesis using len held by blast
qed

definition an_intent :: "string \<Rightarrow> notification_intent" where
  "an_intent title = \<lparr>ni_dedupe_key = ''risk:1'', ni_severity = CRITICAL_N, ni_title = title, ni_body = []\<rparr>"

lemma notifications_deduplicated_witness:
  "\<exists>r. fst (enqueue_all [(1, an_intent ''first''), (2, an_intent ''second'')] []) = [r, r]"
  using notifications_deduplicated [of "[(1, an_intent ''first''), (2, an_intent ''second'')]", OF surjective_pairing]
  by (auto simp: an_intent_def length_Suc_conv All_less_Suc numeral_2_eq_2)

end
