(* ===== verification/Sync_Scheduler.thy ===== *)
theory Sync_Scheduler
  imports Once_Stores Floats
begin

text \<open>
  The sync scheduler of the worker (\<open>calendar/scheduler.py\<close>): webhooks accepted once, pending
  changes registered, and the recovery run over them. A run waits for the sync target once per
  change, and other calls take effect while it waits, so a run is a program counter here (the
  index of the list iterator) and the scheduler a machine whose events are the calls and the
  replies of the sync target. Times are floats. The results: with one run at a time no
  registered change is lost; two overlapping runs can lose one; a run that is due and whose syncs
  succeed drains the list.
\<close>

definition SYNC_RECOVERY_INTERVAL_SECONDS :: rat where
  "SYNC_RECOVERY_INTERVAL_SECONDS = 15 * 60"

record pending_change =
  pc_external_event_id :: string
  pc_connection_id :: string

text \<open>A suspended \<open>run_due\<close>: it awaits the sync of \<open>rn_change\<close>, the element at \<open>rn_index\<close> when it was reached.\<close>

record recovery_run =
  rn_index :: nat
  rn_change :: pending_change
  rn_recovered :: nat

text \<open>\<open>sc_synced\<close> is the log of the delta syncs the target has done.\<close>

record sync_scheduler =
  sc_operations :: "(string, sync_operation) dict"
  sc_pending :: "pending_change list"
  sc_last_recovery :: rat
  sc_runs :: "recovery_run list"
  sc_synced :: "string list"

definition new_scheduler :: sync_scheduler where
  "new_scheduler = \<lparr>sc_operations = [], sc_pending = [], sc_last_recovery = 0, sc_runs = [], sc_synced = []\<rparr>"

record webhook =
  wh_channel_id :: string
  wh_resource_state :: string
  wh_message_number :: int
  wh_connection_id :: string
  wh_external_event_id :: "string option"

definition operation_key :: "webhook \<Rightarrow> string" where
  "operation_key p = ''calendar-sync:'' @ wh_channel_id p @ '':'' @ wh_resource_state p @ '':'' @ int_str (wh_message_number p)"

text \<open>\<open>ok\<close> is whether the delta sync returns; when it raises, the operation stays stored.\<close>

definition accept_webhook :: "bool \<Rightarrow> webhook \<Rightarrow> sync_scheduler \<Rightarrow> sync_operation option \<times> sync_scheduler" where
  "accept_webhook ok p s =
     (let (operation, ops) = get_or_create (operation_key p) (wh_connection_id p) (Some (wh_message_number p)) (sc_operations s);
          s1 = s\<lparr>sc_operations := ops\<rparr>
      in (case wh_external_event_id p of
            None \<Rightarrow> (Some operation, s1)
          | Some i \<Rightarrow>
              if i = [] then (Some operation, s1)
              else if ok then (Some operation, s1\<lparr>sc_synced := sc_synced s1 @ [i]\<rparr>)
              else (None, s1)))"

definition register_pending_change :: "string \<Rightarrow> string \<Rightarrow> sync_scheduler \<Rightarrow> sync_scheduler" where
  "register_pending_change i connection s =
     s\<lparr>sc_pending := sc_pending s @ [\<lparr>pc_external_event_id = i, pc_connection_id = connection\<rparr>]\<rparr>"

definition recovery_due :: "rat \<Rightarrow> sync_scheduler \<Rightarrow> bool" where
  "recovery_due now s \<longleftrightarrow> SYNC_RECOVERY_INTERVAL_SECONDS \<le> fl (now - sc_last_recovery s)
     \<or> sc_last_recovery s = 0 \<and> SYNC_RECOVERY_INTERVAL_SECONDS \<le> now"

text \<open>
  The loop from the iterator position \<open>i\<close>: either it awaits the sync of the element there, or
  the iteration is over, the list is cleared and the run returns its count.
\<close>

definition advance :: "rat \<Rightarrow> nat \<Rightarrow> nat \<Rightarrow> sync_scheduler \<Rightarrow> nat option \<times> sync_scheduler" where
  "advance now i recovered s =
     (if i < length (sc_pending s)
      then (None, s\<lparr>sc_runs := sc_runs s @ [\<lparr>rn_index = i, rn_change = sc_pending s ! i, rn_recovered = recovered\<rparr>]\<rparr>)
      else (Some recovered, s\<lparr>sc_pending := [],
              sc_last_recovery := (if recovered \<noteq> 0 then now else sc_last_recovery s)\<rparr>))"

definition run_due :: "rat \<Rightarrow> sync_scheduler \<Rightarrow> nat option \<times> sync_scheduler" where
  "run_due now s = (if \<not> recovery_due now s then (Some 0, s) else advance now 0 0 s)"

text \<open>
  The sync that the suspended run number \<open>r\<close> awaits returns (\<open>ok\<close>) or raises; then the run ends
  with the exception and the list stays as it is.
\<close>

definition resume_run :: "nat \<Rightarrow> bool \<Rightarrow> rat \<Rightarrow> sync_scheduler \<Rightarrow> nat option \<times> sync_scheduler" where
  "resume_run r ok now s =
     (if r < length (sc_runs s) then
        (let run = sc_runs s ! r; s1 = s\<lparr>sc_runs := take r (sc_runs s) @ drop (Suc r) (sc_runs s)\<rparr>
         in if ok
            then advance now (rn_index run + 1) (rn_recovered run + 1)
                   (s1\<lparr>sc_synced := sc_synced s1 @ [pc_external_event_id (rn_change run)]\<rparr>)
            else (None, s1))
      else (None, s))"

datatype sync_event =
    Webhook bool webhook
  | Register string string
  | Run_Due rat
  | Sync_Replies nat bool rat

fun sync_step :: "sync_event \<Rightarrow> sync_scheduler \<Rightarrow> sync_scheduler" where
  "sync_step (Webhook ok p) s = snd (accept_webhook ok p s)"
| "sync_step (Register i connection) s = register_pending_change i connection s"
| "sync_step (Run_Due now) s = snd (run_due now s)"
| "sync_step (Sync_Replies r ok now) s = snd (resume_run r ok now s)"

fun sync_steps :: "sync_event list \<Rightarrow> sync_scheduler \<Rightarrow> sync_scheduler" where
  "sync_steps [] s = s"
| "sync_steps (e # es) s = sync_steps es (sync_step e s)"

section \<open>One run at a time\<close>

text \<open>A run only starts when none is suspended.\<close>

fun one_at_a_time :: "sync_event list \<Rightarrow> sync_scheduler \<Rightarrow> bool" where
  "one_at_a_time [] s = True"
| "one_at_a_time (e # es) s =
     ((case e of Run_Due _ \<Rightarrow> sc_runs s = [] | _ \<Rightarrow> True) \<and> one_at_a_time es (sync_step e s))"

definition pending_ids :: "sync_scheduler \<Rightarrow> string list" where
  "pending_ids s = map pc_external_event_id (sc_pending s)"

text \<open>The suspended run is inside the list, and all before its position is synced.\<close>

definition run_ok :: "sync_scheduler \<Rightarrow> recovery_run \<Rightarrow> bool" where
  "run_ok s r \<longleftrightarrow> rn_index r < length (sc_pending s) \<and> rn_change r = sc_pending s ! rn_index r
     \<and> set (take (rn_index r) (pending_ids s)) \<subseteq> set (sc_synced s)"

definition sync_inv :: "string set \<Rightarrow> sync_scheduler \<Rightarrow> bool" where
  "sync_inv R s \<longleftrightarrow> R \<subseteq> set (sc_synced s) \<union> set (pending_ids s)
     \<and> (case sc_runs s of [] \<Rightarrow> True | [r] \<Rightarrow> run_ok s r | _ \<Rightarrow> False)"

lemma advance_inv:
  assumes "sc_runs s = []" and "i \<le> length (sc_pending s)" and "set (take i (pending_ids s)) \<subseteq> set (sc_synced s)"
    and "R \<subseteq> set (sc_synced s) \<union> set (pending_ids s)"
  shows "sync_inv R (snd (advance now i n s))"
proof (cases "i < length (sc_pending s)")
  case False
  then have "set (pending_ids s) \<subseteq> set (sc_synced s)"
    using assms(2,3) by (simp add: pending_ids_def)
  then have "R \<subseteq> set (sc_synced s)" using assms(4) by blast
  then show ?thesis using assms(1) False by (auto simp: advance_def sync_inv_def)
qed (use assms in \<open>simp add: advance_def sync_inv_def run_ok_def pending_ids_def\<close>)

lemma register_inv:
  assumes "sync_inv R s"
  shows "sync_inv (insert i R) (register_pending_change i c s)"
  using assms
  by (auto simp: sync_inv_def run_ok_def register_pending_change_def pending_ids_def nth_append split: list.splits)

lemma webhook_inv:
  assumes "sync_inv R s"
  shows "sync_inv R (snd (accept_webhook ok p s))"
  using assms
  by (auto simp: sync_inv_def run_ok_def accept_webhook_def pending_ids_def Let_def case_prod_beta
      split: list.splits option.splits)

lemma run_due_inv:
  assumes "sync_inv R s" and "sc_runs s = []"
  shows "sync_inv R (snd (run_due now s))"
  using assms advance_inv [of s 0 R now 0] by (auto simp: run_due_def sync_inv_def)

lemma resume_inv:
  assumes "sync_inv R s"
  shows "sync_inv R (snd (resume_run r ok now s))"
proof (cases "r < length (sc_runs s)")
  case True
  then obtain run where run: "sc_runs s = [run]" "r = 0" and ok_run: "run_ok s run"
    using assms by (auto simp: sync_inv_def split: list.splits)
  have cov: "R \<subseteq> set (sc_synced s) \<union> set (pending_ids s)"
    using assms by (simp add: sync_inv_def)
  show ?thesis
  proof (cases ok)
    case True
    let ?s = "s\<lparr>sc_runs := [], sc_synced := sc_synced s @ [pc_external_event_id (rn_change run)]\<rparr>"
    have "set (take (rn_index run + 1) (pending_ids s)) \<subseteq> set (sc_synced ?s)"
      using ok_run by (auto simp: run_ok_def pending_ids_def take_Suc_conv_app_nth)
    then have "sync_inv R (snd (advance now (rn_index run + 1) (rn_recovered run + 1) ?s))"
      using ok_run cov by (intro advance_inv) (auto simp: run_ok_def pending_ids_def)
    then show ?thesis using run True by (simp add: resume_run_def)
  next
    case False
    then show ?thesis using run cov by (simp add: resume_run_def sync_inv_def pending_ids_def)
  qed
qed (use assms in \<open>simp add: resume_run_def\<close>)

fun registered :: "sync_event list \<Rightarrow> string set" where
  "registered [] = {}"
| "registered (Register i connection # es) = insert i (registered es)"
| "registered (e # es) = registered es"

lemma steps_inv:
  "sync_inv R s \<Longrightarrow> one_at_a_time es s \<Longrightarrow> sync_inv (R \<union> registered es) (sync_steps es s)"
proof (induction es arbitrary: R s)
  case (Cons e es)
  show ?case
  proof (cases e)
    case (Webhook ok p)
    then show ?thesis using Cons.IH [OF webhook_inv [OF Cons.prems(1), of ok p]] Cons.prems(2) by simp
  next
    case (Register i c)
    then show ?thesis using Cons.IH [OF register_inv [OF Cons.prems(1), of i c]] Cons.prems(2) by simp
  next
    case (Run_Due now)
    then have "sc_runs s = []" using Cons.prems(2) by simp
    then show ?thesis using Cons.IH [OF run_due_inv [OF Cons.prems(1), of now]] Cons.prems(2) Run_Due by simp
  next
    case (Sync_Replies r ok now)
    then show ?thesis using Cons.IH [OF resume_inv [OF Cons.prems(1), of r ok now]] Cons.prems(2) by simp
  qed
qed simp

section \<open>A run drains the list\<close>

definition waiting_at :: "nat \<Rightarrow> sync_scheduler \<Rightarrow> bool" where
  "waiting_at i s \<longleftrightarrow> i < length (sc_pending s)
     \<and> sc_runs s = [\<lparr>rn_index = i, rn_change = sc_pending s ! i, rn_recovered = i\<rparr>]"

lemma resume_waiting:
  assumes "waiting_at i s"
  shows "resume_run 0 True now s =
    (if i + 1 < length (sc_pending s)
     then (None, s\<lparr>sc_runs := [\<lparr>rn_index = i + 1, rn_change = sc_pending s ! (i + 1), rn_recovered = i + 1\<rparr>],
                   sc_synced := sc_synced s @ [pc_external_event_id (sc_pending s ! i)]\<rparr>)
     else (Some (i + 1), s\<lparr>sc_runs := [], sc_synced := sc_synced s @ [pc_external_event_id (sc_pending s ! i)],
                           sc_pending := [], sc_last_recovery := now\<rparr>))"
  using assms by (simp add: waiting_at_def resume_run_def advance_def)

lemma replies_drain:
  assumes "waiting_at i s" and "length nows = length (sc_pending s) - i"
  shows "sync_steps (map (Sync_Replies 0 True) nows) s = s\<lparr>sc_runs := [], sc_pending := [],
    sc_synced := sc_synced s @ drop i (pending_ids s), sc_last_recovery := last nows\<rparr>"
  using assms
proof (induction nows arbitrary: i s)
  case Nil
  then show ?case by (simp add: waiting_at_def)
next
  case (Cons now nows)
  have drop: "drop i (pending_ids s) = pc_external_event_id (sc_pending s ! i) # drop (i + 1) (pending_ids s)"
    using Cons.prems(1) Cons_nth_drop_Suc [of i "pending_ids s"] by (simp add: waiting_at_def pending_ids_def)
  show ?case
  proof (cases "i + 1 < length (sc_pending s)")
    case True
    let ?s = "snd (resume_run 0 True now s)"
    have s: "?s = s\<lparr>sc_runs := [\<lparr>rn_index = i + 1, rn_change = sc_pending s ! (i + 1), rn_recovered = i + 1\<rparr>],
        sc_synced := sc_synced s @ [pc_external_event_id (sc_pending s ! i)]\<rparr>"
      using resume_waiting [OF Cons.prems(1), of now] True by simp
    have "nows \<noteq> []" using Cons.prems(2) True by auto
    moreover have "sync_steps (map (Sync_Replies 0 True) nows) ?s = ?s\<lparr>sc_runs := [], sc_pending := [],
        sc_synced := sc_synced ?s @ drop (i + 1) (pending_ids ?s), sc_last_recovery := last nows\<rparr>"
      using Cons.prems(2) True by (intro Cons.IH) (simp_all add: s waiting_at_def)
    ultimately show ?thesis using drop by (simp add: s pending_ids_def)
  next
    case False
    then have "length (sc_pending s) = i + 1" using Cons.prems(1) by (simp add: waiting_at_def)
    then have "nows = []" and "drop (i + 1) (pending_ids s) = []"
      using Cons.prems(2) by (simp_all add: pending_ids_def)
    then show ?thesis using resume_waiting [OF Cons.prems(1), of now] False drop by simp
  qed
qed


section \<open>Overlapping runs\<close>

definition overlapping :: "sync_event list" where
  "overlapping = [Register ''a'' ''c'', Run_Due 1000, Run_Due 1000, Sync_Replies 0 True 1001,
     Register ''b'' ''c'', Sync_Replies 0 True 1002]"

lemma overlap_loses_change:
  "let s = sync_steps overlapping new_scheduler
   in ''b'' \<in> registered overlapping \<and> ''b'' \<notin> set (sc_synced s) \<and> ''b'' \<notin> set (pending_ids s) \<and> sc_runs s = []"
  by (simp add: overlapping_def new_scheduler_def register_pending_change_def run_due_def recovery_due_def advance_def
      resume_run_def pending_ids_def SYNC_RECOVERY_INTERVAL_SECONDS_def)

section \<open>Properties\<close>

text \<open>
  C22. A lost webhook is not a lost sync: in any history of webhooks, registrations (also during a
  run), runs and replies of the sync target, failures included, in which no run starts while
  another is suspended, every registered change has been synced or is still pending; and when
  nothing is pending all of them have been synced.
\<close>

theorem no_registered_change_lost:
  assumes "one_at_a_time events new_scheduler"
  shows "\<forall>i \<in> registered events.
    i \<in> set (sc_synced (sync_steps events new_scheduler)) \<or> i \<in> set (pending_ids (sync_steps events new_scheduler))"
proof -
  have "sync_inv {} new_scheduler" by (simp add: sync_inv_def new_scheduler_def)
  then have "sync_inv ({} \<union> registered events) (sync_steps events new_scheduler)" by (rule steps_inv [OF _ assms])
  then show ?thesis by (auto simp: sync_inv_def)
qed

definition with_failure :: "sync_event list" where
  "with_failure = [Register ''a'' ''c'', Run_Due 1000, Register ''b'' ''c'', Sync_Replies 0 True 1001, Sync_Replies 0 False 1002]"

lemma no_registered_change_lost_witness:
  "''b'' \<in> set (sc_synced (sync_steps with_failure new_scheduler)) \<or> ''b'' \<in> set (pending_ids (sync_steps with_failure new_scheduler))"
proof -
  have "one_at_a_time with_failure new_scheduler"
    by (simp add: with_failure_def new_scheduler_def register_pending_change_def run_due_def recovery_due_def advance_def
        resume_run_def SYNC_RECOVERY_INTERVAL_SECONDS_def)
  moreover have "''b'' \<in> registered with_failure" by (simp add: with_failure_def)
  ultimately show ?thesis using no_registered_change_lost [of with_failure] by blast
qed

text \<open>
  C23. A recovery run that is due ends and drains the list: started with changes pending and no run
  suspended, after as many successful replies as there are changes, each change has been synced
  in order, nothing is pending or suspended, and the time of the last recovery is the time of the
  last reply.
\<close>

theorem due_run_drains:
  assumes "recovery_due now s" and "sc_runs s = []" and "sc_pending s \<noteq> []" and "length nows = length (sc_pending s)"
  shows "sync_steps (Run_Due now # map (Sync_Replies 0 True) nows) s =
    s\<lparr>sc_pending := [], sc_synced := sc_synced s @ pending_ids s, sc_last_recovery := last nows\<rparr>"
proof -
  let ?s = "s\<lparr>sc_runs := [\<lparr>rn_index = 0, rn_change = sc_pending s ! 0, rn_recovered = 0\<rparr>]\<rparr>"
  have "snd (run_due now s) = ?s" using assms(1-3) by (simp add: run_due_def advance_def)
  moreover have "waiting_at 0 ?s" using assms(3) by (simp add: waiting_at_def)
  ultimately show ?thesis using replies_drain [of 0 ?s nows] assms(2,4) by (simp add: pending_ids_def)
qed

lemma due_run_drains_witness:
  "sync_steps (Run_Due 900 # map (Sync_Replies 0 True) [901, 902])
     (register_pending_change ''b'' ''c'' (register_pending_change ''a'' ''c'' new_scheduler)) =
   new_scheduler\<lparr>sc_synced := [''a'', ''b''], sc_last_recovery := 902\<rparr>"
  using due_run_drains [of 900 "register_pending_change ''b'' ''c'' (register_pending_change ''a'' ''c'' new_scheduler)" "[901, 902]"]
  by (simp add: register_pending_change_def new_scheduler_def recovery_due_def pending_ids_def SYNC_RECOVERY_INTERVAL_SECONDS_def)

end
