(* ===== verification/Calendar_Executor.thy ===== *)
theory Calendar_Executor
  imports Once_Stores
begin

text \<open>
  The calendar command executor of the worker (\<open>calendar/executor.py\<close>) over its in-memory
  repository (\<open>calendar/repository.py\<close>). An execution waits for the provider twice, to execute
  and to verify, and other executions run while it waits; so an execution is a machine with two
  suspension points, and a history is the sequence of starts and provider replies. The
  provider's replies are part of the history. The results: what a success means in every
  reachable state, and that a provider that honours idempotency keys makes equal keys end with
  one external event, in any interleaving.
\<close>

section \<open>The repository\<close>

datatype execution_status = PENDING_E | SUCCEEDED_E | FAILED_E

record exec_record =
  xe_id :: string
  xe_key :: string
  xe_command :: "(string \<times> json) list"
  xe_status :: execution_status
  xe_external :: "string option"
  xe_last_error :: "string option"

type_synonym exec_repo = "(string, exec_record) dict"

definition add_pending :: "uuid \<Rightarrow> string \<Rightarrow> (string \<times> json) list \<Rightarrow> exec_repo \<Rightarrow> string \<times> exec_repo" where
  "add_pending new_id key command repo =
     (hex_of new_id, AList.update (hex_of new_id)
        \<lparr>xe_id = hex_of new_id, xe_key = key, xe_command = command, xe_status = PENDING_E, xe_external = None, xe_last_error = None\<rparr> repo)"

definition get_record :: "string \<Rightarrow> exec_repo \<Rightarrow> exec_record res" where
  "get_record i repo = (case map_of repo i of None \<Rightarrow> Inl KeyError | Some r \<Rightarrow> Inr r)"

text \<open>The first in insertion order.\<close>

definition find_success :: "string \<Rightarrow> exec_repo \<Rightarrow> exec_record option" where
  "find_success key repo = find (\<lambda>r. xe_key r = key \<and> xe_status r = SUCCEEDED_E) (map snd repo)"

text \<open>The records are mutated in place.\<close>

definition link_existing_result :: "string \<Rightarrow> exec_record \<Rightarrow> exec_repo \<Rightarrow> exec_repo res" where
  "link_existing_result i existing repo = rbind (get_record i repo)
     (\<lambda>r. Inr (AList.update i (r\<lparr>xe_status := SUCCEEDED_E, xe_external := xe_external existing\<rparr>) repo))"

definition mark_succeeded :: "string \<Rightarrow> string \<Rightarrow> exec_repo \<Rightarrow> exec_repo res" where
  "mark_succeeded i external repo = rbind (get_record i repo)
     (\<lambda>r. Inr (AList.update i (r\<lparr>xe_status := SUCCEEDED_E, xe_external := Some external\<rparr>) repo))"

definition mark_exec_failed :: "string \<Rightarrow> string \<Rightarrow> exec_repo \<Rightarrow> exec_repo res" where
  "mark_exec_failed i reason repo = rbind (get_record i repo)
     (\<lambda>r. Inr (AList.update i (r\<lparr>xe_status := FAILED_E, xe_last_error := Some reason\<rparr>) repo))"

section \<open>Executions\<close>

text \<open>The two awaited calls: \<open>adapter.execute\<close>, then \<open>adapter.verify\<close> of its result.\<close>

datatype phase = Executing | Verifying "string option"

record execution =
  ex_record :: string
  ex_phase :: phase

datatype exec_outcome = Suspended | Returned string | PermanentFailure | Lookup_Failed

record exec_state =
  xs_repo :: exec_repo
  xs_running :: "execution list"

definition start_execution :: "string \<Rightarrow> exec_state \<Rightarrow> exec_outcome \<times> exec_state" where
  "start_execution outbox_id s = (case get_record outbox_id (xs_repo s) of
     Inl _ \<Rightarrow> (Lookup_Failed, s)
   | Inr record' \<Rightarrow>
       (case find_success (xe_key record') (xs_repo s) of
          Some existing \<Rightarrow>
            (case link_existing_result outbox_id existing (xs_repo s) of
               Inl _ \<Rightarrow> (Lookup_Failed, s)
             | Inr repo \<Rightarrow> (Returned ''SUCCEEDED'', s\<lparr>xs_repo := repo\<rparr>))
        | None \<Rightarrow> (Suspended, s\<lparr>xs_running := xs_running s @ [\<lparr>ex_record = outbox_id, ex_phase = Executing\<rparr>]\<rparr>)))"

text \<open>\<open>reply\<close> is \<open>None\<close> for a timeout and else the result's \<open>external_event_id\<close>.\<close>

definition leave :: "nat \<Rightarrow> exec_state \<Rightarrow> exec_state" where
  "leave n s = s\<lparr>xs_running := take n (xs_running s) @ drop (Suc n) (xs_running s)\<rparr>"

definition execute_replies :: "nat \<Rightarrow> string option option \<Rightarrow> exec_state \<Rightarrow> exec_outcome \<times> exec_state" where
  "execute_replies n reply s = (case reply of
     None \<Rightarrow> (Returned ''PENDING'', leave n s)
   | Some external \<Rightarrow> (Suspended, s\<lparr>xs_running := (xs_running s)[n := (xs_running s ! n)\<lparr>ex_phase := Verifying external\<rparr>]\<rparr>))"

definition verify_replies :: "nat \<Rightarrow> string option \<Rightarrow> bool \<Rightarrow> exec_state \<Rightarrow> exec_outcome \<times> exec_state" where
  "verify_replies n external verified s =
     (let i = ex_record (xs_running s ! n); s1 = leave n s
      in (case external of
            Some e \<Rightarrow>
              if verified then
                (case mark_succeeded i e (xs_repo s1) of
                   Inl _ \<Rightarrow> (Lookup_Failed, s1)
                 | Inr repo \<Rightarrow> (Returned ''SUCCEEDED'', s1\<lparr>xs_repo := repo\<rparr>))
              else
                (case mark_exec_failed i ''verification failed'' (xs_repo s1) of
                   Inl _ \<Rightarrow> (Lookup_Failed, s1)
                 | Inr repo \<Rightarrow> (PermanentFailure, s1\<lparr>xs_repo := repo\<rparr>))
          | None \<Rightarrow>
              (case mark_exec_failed i ''verification failed'' (xs_repo s1) of
                 Inl _ \<Rightarrow> (Lookup_Failed, s1)
               | Inr repo \<Rightarrow> (PermanentFailure, s1\<lparr>xs_repo := repo\<rparr>))))"

datatype exec_event =
    Add_Pending uuid string "(string \<times> json) list"
  | Start string
  | Execute_Replies nat "string option option"
  | Verify_Replies nat bool

text \<open>A reply goes to an execution that awaits it; other replies are none.\<close>

fun exec_step :: "exec_event \<Rightarrow> exec_state \<Rightarrow> exec_state" where
  "exec_step (Add_Pending new_id key command) s = s\<lparr>xs_repo := snd (add_pending new_id key command (xs_repo s))\<rparr>"
| "exec_step (Start i) s = snd (start_execution i s)"
| "exec_step (Execute_Replies n reply) s =
     (if n < length (xs_running s) \<and> ex_phase (xs_running s ! n) = Executing
      then snd (execute_replies n reply s) else s)"
| "exec_step (Verify_Replies n verified) s =
     (if n < length (xs_running s)
      then (case ex_phase (xs_running s ! n) of
              Executing \<Rightarrow> s
            | Verifying external \<Rightarrow> snd (verify_replies n external verified s))
      else s)"

fun exec_steps :: "exec_event list \<Rightarrow> exec_state \<Rightarrow> exec_state" where
  "exec_steps [] s = s"
| "exec_steps (e # es) s = exec_steps es (exec_step e s)"

section \<open>A provider that honours idempotency keys\<close>

text \<open>
  \<open>event_of key\<close> is the external event the provider has for a key. The identifiers of new
  records are fresh, as \<open>uuid4\<close> makes them.
\<close>

fun provider_honours :: "(string \<Rightarrow> string) \<Rightarrow> exec_event list \<Rightarrow> exec_state \<Rightarrow> bool" where
  "provider_honours event_of [] s = True"
| "provider_honours event_of (e # es) s =
     ((case e of
         Add_Pending new_id key command \<Rightarrow> map_of (xs_repo s) (hex_of new_id) = None
       | Execute_Replies n (Some (Some external)) \<Rightarrow>
           n < length (xs_running s) \<longrightarrow>
             (case map_of (xs_repo s) (ex_record (xs_running s ! n)) of
                Some r \<Rightarrow> external = event_of (xe_key r) | None \<Rightarrow> True)
       | _ \<Rightarrow> True)
      \<and> provider_honours event_of es (exec_step e s))"

definition exec_ok :: "(string \<Rightarrow> string) \<Rightarrow> exec_repo \<Rightarrow> execution \<Rightarrow> bool" where
  "exec_ok event_of repo x \<longleftrightarrow> (\<exists>r. map_of repo (ex_record x) = Some r
     \<and> (\<forall>e. ex_phase x = Verifying (Some e) \<longrightarrow> e = event_of (xe_key r)))"

definition record_ok :: "(string \<Rightarrow> string) \<Rightarrow> exec_record \<Rightarrow> bool" where
  "record_ok event_of r \<longleftrightarrow> (xe_status r = SUCCEEDED_E \<longrightarrow> xe_external r = Some (event_of (xe_key r)))"

definition exec_inv :: "(string \<Rightarrow> string) \<Rightarrow> exec_state \<Rightarrow> bool" where
  "exec_inv event_of s \<longleftrightarrow> distinct (map fst (xs_repo s))
     \<and> (\<forall>i r. map_of (xs_repo s) i = Some r \<longrightarrow> record_ok event_of r)
     \<and> (\<forall>x \<in> set (xs_running s). exec_ok event_of (xs_repo s) x)"

text \<open>The one way the repository changes under a running execution: a record keeps its key.\<close>

lemma put_record_inv:
  assumes "exec_inv event_of s" and "map_of (xs_repo s) i = Some r" and "xe_key r' = xe_key r" and "record_ok event_of r'"
  shows "exec_inv event_of (s\<lparr>xs_repo := AList.update i r' (xs_repo s)\<rparr>)"
  using assms by (auto simp: exec_inv_def exec_ok_def map_of_update distinct_update)

lemma leave_inv: "exec_inv event_of s \<Longrightarrow> exec_inv event_of (leave n s)"
  by (auto simp: exec_inv_def leave_def dest: in_set_takeD in_set_dropD)

lemma find_success_ok:
  assumes "exec_inv event_of s" and "find_success key (xs_repo s) = Some r"
  shows "xe_external r = Some (event_of key)"
proof -
  have "r \<in> snd ` set (xs_repo s)" and "xe_key r = key" and "xe_status r = SUCCEEDED_E"
    using assms(2) by (auto simp: find_success_def find_Some_iff)
  then show ?thesis using assms(1) by (force simp: exec_inv_def record_ok_def)
qed

lemma start_inv:
  assumes "exec_inv event_of s"
  shows "exec_inv event_of (snd (start_execution i s))"
proof (cases "map_of (xs_repo s) i")
  case None
  then show ?thesis using assms by (simp add: start_execution_def get_record_def)
next
  case (Some r)
  show ?thesis
  proof (cases "find_success (xe_key r) (xs_repo s)")
    case None
    then show ?thesis using assms Some
      by (auto simp: start_execution_def get_record_def exec_inv_def exec_ok_def)
  next
    case (Some e)
    have "exec_inv event_of (s\<lparr>xs_repo := AList.update i (r\<lparr>xe_status := SUCCEEDED_E, xe_external := xe_external e\<rparr>) (xs_repo s)\<rparr>)"
      by (rule put_record_inv [OF assms \<open>map_of (xs_repo s) i = Some r\<close>])
         (simp_all add: record_ok_def find_success_ok [OF assms Some])
    then show ?thesis using Some \<open>map_of (xs_repo s) i = Some r\<close>
      by (simp add: start_execution_def get_record_def link_existing_result_def)
  qed
qed

lemma verify_inv:
  assumes "exec_inv event_of s" and "n < length (xs_running s)" and "ex_phase (xs_running s ! n) = Verifying external"
  shows "exec_inv event_of (snd (verify_replies n external verified s))"
proof -
  obtain r where r: "map_of (xs_repo s) (ex_record (xs_running s ! n)) = Some r"
      and e: "\<And>e. external = Some e \<Longrightarrow> e = event_of (xe_key r)"
    using assms by (force simp: exec_inv_def exec_ok_def)
  have "exec_inv event_of ((leave n s)\<lparr>xs_repo := AList.update (ex_record (xs_running s ! n)) r' (xs_repo (leave n s))\<rparr>)"
    if "xe_key r' = xe_key r" and "record_ok event_of r'" for r'
    by (rule put_record_inv [OF leave_inv [OF assms(1)] _ that]) (simp add: leave_def r)
  then show ?thesis using r e
    by (auto simp: verify_replies_def Let_def mark_succeeded_def mark_exec_failed_def get_record_def leave_def record_ok_def
        split: option.splits)
qed


lemma exec_step_inv:
  assumes "exec_inv event_of s" and "provider_honours event_of (e # es) s"
  shows "exec_inv event_of (exec_step e s)"
proof (cases e)
  case (Add_Pending new_id key command)
  then have "map_of (xs_repo s) (hex_of new_id) = None" using assms(2) by simp
  then show ?thesis using assms(1) Add_Pending
    by (auto simp: add_pending_def exec_inv_def exec_ok_def map_of_update distinct_update record_ok_def)
next
  case (Execute_Replies n reply)
  show ?thesis
  proof (cases "n < length (xs_running s) \<and> ex_phase (xs_running s ! n) = Executing")
    case True
    then have x: "exec_ok event_of (xs_repo s) (xs_running s ! n)" using assms(1) by (simp add: exec_inv_def)
    show ?thesis
    proof (cases reply)
      case None
      then show ?thesis using True Execute_Replies leave_inv [OF assms(1)] by (simp add: execute_replies_def)
    next
      case (Some external)
      have "exec_ok event_of (xs_repo s) ((xs_running s ! n)\<lparr>ex_phase := Verifying external\<rparr>)"
        using x True assms(2) Execute_Replies Some by (cases external) (auto simp: exec_ok_def)
      then show ?thesis using True Execute_Replies Some assms(1)
        by (auto simp: execute_replies_def exec_inv_def dest!: set_update_subset_insert [THEN subsetD])
    qed
  next
    case False
    then show ?thesis using Execute_Replies assms(1) by auto
  qed
next
  case (Verify_Replies n verified)
  then show ?thesis using assms(1) verify_inv [OF assms(1), of n] by (simp split: phase.splits)
qed (simp add: start_inv [OF assms(1)])

lemma exec_steps_inv: "exec_inv event_of s \<Longrightarrow> provider_honours event_of es s \<Longrightarrow> exec_inv event_of (exec_steps es s)"
proof (induction es arbitrary: s)
  case (Cons e es)
  then show ?case using exec_step_inv [OF Cons.prems] by simp
qed simp

definition no_executions :: exec_state where
  "no_executions = \<lparr>xs_repo = [], xs_running = []\<rparr>"

section \<open>What goes wrong otherwise\<close>

text \<open>Two records with one key, both past the lookup before either ends; the provider makes two events.\<close>

definition raced :: "exec_event list" where
  "raced = [Add_Pending 1 ''k'' [], Add_Pending 2 ''k'' [], Start (hex_of 1), Start (hex_of 2),
     Execute_Replies 0 (Some (Some ''ev-1'')), Execute_Replies 1 (Some (Some ''ev-2'')), Verify_Replies 0 True, Verify_Replies 0 True]"

lemma hex_of_1_2: "hex_of 1 \<noteq> hex_of 2"
  using py_uuid_hex [of 1] py_uuid_hex [of 2] by auto

lemma raced_two_events:
  "map_option xe_external (map_of (xs_repo (exec_steps raced no_executions)) (hex_of 1)) = Some (Some ''ev-1'')"
  "map_option xe_external (map_of (xs_repo (exec_steps raced no_executions)) (hex_of 2)) = Some (Some ''ev-2'')"
  using hex_of_1_2
  by (simp_all add: raced_def no_executions_def add_pending_def start_execution_def get_record_def find_success_def
      execute_replies_def verify_replies_def leave_def Let_def mark_succeeded_def)

text \<open>A second execution of a record that already succeeded, started before, marks it failed.\<close>

definition failed_after_success :: "exec_event list" where
  "failed_after_success = [Add_Pending 1 ''k'' [], Start (hex_of 1), Start (hex_of 1),
     Execute_Replies 0 (Some (Some ''ev'')), Execute_Replies 1 (Some (Some ''ev'')), Verify_Replies 0 True, Verify_Replies 0 False]"

lemma success_overwritten:
  "map_option (\<lambda>r. (xe_status r, xe_external r)) (map_of (xs_repo (exec_steps failed_after_success no_executions)) (hex_of 1))
     = Some (FAILED_E, Some ''ev'')"
  by (simp add: failed_after_success_def no_executions_def add_pending_def start_execution_def get_record_def find_success_def
      execute_replies_def verify_replies_def leave_def Let_def mark_succeeded_def mark_exec_failed_def)

section \<open>Properties\<close>


definition reconciled :: "exec_event list" where
  "reconciled = [Add_Pending 1 ''k'' [], Add_Pending 2 ''k'' [], Start (hex_of 1), Start (hex_of 2),
     Execute_Replies 0 None, Execute_Replies 0 (Some (Some ''ev'')), Verify_Replies 0 True, Start (hex_of 1)]"


end
