(* ===== verification/Utf8_Text.thy ===== *)
theory Utf8_Text
  imports Canonical
begin

text \<open>
  Reading texts back: \<open>int(text)\<close>, \<open>bytes.decode\<close> for the texts over U+0000 to U+00FF, the inverse of \<open>utf8\<close>, and a
  hash of bytes without collisions for examples.
\<close>

text \<open>\<open>int(text)\<close> in base ten; \<open>sep\<close> says whether an underscore may come next.\<close>

fun decimal :: "bool \<Rightarrow> nat \<Rightarrow> string \<Rightarrow> nat option" where
  "decimal sep acc [] = (if sep then Some acc else None)"
| "decimal sep acc (c # cs) =
     (let n = of_char c :: nat in
      if c = CHR ''_'' then (if sep then decimal False acc cs else None)
      else if 48 \<le> n \<and> n \<le> 57 then decimal True (10 * acc + (n - 48)) cs else None)"

definition py_int10 :: "string \<Rightarrow> int option" where
  "py_int10 text = (let s = strip text;
       (sign, s) = (case s of c # cs \<Rightarrow> if c = CHR ''-'' then (-1, cs) else if c = CHR ''+'' then (1, cs) else (1, s) | [] \<Rightarrow> (1, s))
     in map_option (\<lambda>n. sign * int n) (decimal False 0 s))"

text \<open>\<open>bytes.decode("utf-8")\<close> of the texts over U+0000 to U+00FF.\<close>

fun decode_utf8 :: "nat list \<Rightarrow> string option" where
  "decode_utf8 [] = Some []"
| "decode_utf8 (b # bs) =
     (if b < 128 then map_option (\<lambda>s. char_of b # s) (decode_utf8 bs)
      else (case bs of
              c # cs \<Rightarrow>
                if (b = 194 \<or> b = 195) \<and> 128 \<le> c \<and> c < 192
                then map_option (\<lambda>s. char_of (64 * (b - 192) + (c - 128)) # s) (decode_utf8 cs) else None
            | [] \<Rightarrow> None))"

lemma decode_encode: "decode_utf8 (utf8 s) = Some s"
proof (induction s)
  case (Cons c s)
  define n where "n = (of_char c :: nat)"
  have "n < 256" by (simp add: n_def)
  then have div: "n div 64 < 4" by (simp add: less_mult_imp_div_less)
  have big: "128 \<le> n \<Longrightarrow> 2 \<le> n div 64" using div_le_mono [of 128 n 64] by simp
  have char: "char_of n = c" by (simp add: n_def)
  have parts: "64 * (n div 64) + n mod 64 = n" by simp
  show ?case
  proof (cases "n < 128")
    case True
    then show ?thesis using Cons char by (simp add: n_def [symmetric] Let_def)
  next
    case False
    have "192 + n div 64 = 194 \<or> 192 + n div 64 = 195" using div big False by linarith
    moreover have "128 + n mod 64 < 192" by (simp add: mod_less_divisor)
    moreover have "64 * (192 + n div 64 - 192) + (128 + n mod 64 - 128) = n" using parts by simp
    ultimately show ?thesis using Cons char False by (auto simp: n_def [symmetric] Let_def)
  qed
qed simp


lemma utf8_inject: "utf8 a = utf8 b \<Longrightarrow> a = b"
  by (metis decode_encode option.inject)

lemma utf8_bytes: "b \<in> set (utf8 s) \<Longrightarrow> b < 256"
proof (induction s)
  case (Cons c s)
  define n where "n = (of_char c :: nat)"
  have "n < 256" by (simp add: n_def)
  then have "n div 64 < 4" by (simp add: less_mult_imp_div_less)
  moreover have "n mod 64 < 64" by (rule mod_less_divisor) simp
  ultimately have small: "192 + n div 64 < 256" "128 + n mod 64 < 256" by linarith+
  have "b \<in> set (if n < 128 then [n] else [192 + n div 64, 128 + n mod 64]) \<or> b \<in> set (utf8 s)"
    using Cons.prems by (auto simp: n_def Let_def split: if_splits)
  then show ?case using Cons.IH small by (auto split: if_splits)
qed simp

definition byte_hash :: "nat list \<Rightarrow> string" where
  "byte_hash bytes = map char_of bytes"

lemma byte_hash_inject:
  assumes "byte_hash (utf8 a) = byte_hash (utf8 b)"
  shows "a = b"
proof -
  have "map of_char (byte_hash (utf8 s)) = utf8 s" for s
    unfolding byte_hash_def list.map_comp by (rule map_idI) (simp add: utf8_bytes)
  then have "utf8 a = utf8 b" using assms by metis
  then show ?thesis by (rule utf8_inject)
qed

end
