(* ===== verification/Calendar_Connections.thy ===== *)
theory Calendar_Connections
  imports Utf8_Text Python_Text Api_Base
begin

text \<open>
  Connecting a calendar provider: the single-use OAuth states and the validated token exchange
  (\<open>calendar/oauth.py\<close>), the token vault (\<open>calendar/token_vault.py\<close>), the persisted connection
  (\<open>calendar/connections.py\<close>) and the two endpoints over them (\<open>calendar/router.py\<close>). SHA-256,
  AES-GCM, the random tokens and the HTTP reply of the provider are parameters. The results:
  what a completed callback has established, that a state completes at most one, and that the
  stored tokens decrypt to the ones the provider gave.
\<close>

section \<open>States\<close>

record oauth_state =
  os_workspace_id :: string
  os_mode :: string
  os_code_verifier :: string
  os_issued_at :: instant
  os_expires_at :: instant

type_synonym state_store = "(string, oauth_state) dict"

definition oauth_clock :: "datetime \<Rightarrow> instant res" where
  "oauth_clock now = (case now of
     Naive _ \<Rightarrow> Inl (ValueError ''OAuth state clock must be timezone-aware'')
   | Aware w off \<Rightarrow> Inr (w - off))"

text \<open>\<open>state\<close> and \<open>verifier\<close> are the random tokens; expired states are dropped on the way.\<close>

definition issue_state :: "int \<Rightarrow> string \<Rightarrow> string \<Rightarrow> string \<Rightarrow> string \<Rightarrow> datetime \<Rightarrow> state_store \<Rightarrow> (string \<times> state_store) res" where
  "issue_state ttl state verifier workspace mode now store = rbind (oauth_clock now) (\<lambda>t.
     Inr (state, AList.update state
       \<lparr>os_workspace_id = workspace, os_mode = mode, os_code_verifier = verifier, os_issued_at = t, os_expires_at = t + ttl\<rparr>
       (filter (\<lambda>(k, v). t < os_expires_at v) store)))"

definition consume_state :: "string \<Rightarrow> datetime \<Rightarrow> state_store \<Rightarrow> oauth_state option res \<times> state_store" where
  "consume_state state now store = (case oauth_clock now of
     Inl e \<Rightarrow> (Inl e, store)
   | Inr t \<Rightarrow>
       (let value = map_of store state; rest = filter (\<lambda>(k, v). k \<noteq> state) store
        in (case value of
              None \<Rightarrow> (Inr None, rest)
            | Some v \<Rightarrow> (Inr (if t < os_issued_at v \<or> os_expires_at v \<le> t then None else Some v), rest))))"

section \<open>Settings and scopes\<close>

record oauth_settings =
  st_client_id :: "string option"
  st_client_secret :: "string option"
  st_redirect_uri :: "string option"
  st_token_key :: "string option"

definition READ_ONLY_SCOPES :: "string list" where
  "READ_ONLY_SCOPES = [''https://www.googleapis.com/auth/calendar.readonly'']"

definition WRITE_SCOPES :: "string list" where
  "WRITE_SCOPES = READ_ONLY_SCOPES @ [''https://www.googleapis.com/auth/calendar.events'']"

definition configured_scopes :: "string \<Rightarrow> string list" where
  "configured_scopes mode = (if mode = ''READ_WRITE'' then WRITE_SCOPES else READ_ONLY_SCOPES)"

definition non_empty :: "string option \<Rightarrow> bool" where
  "non_empty x \<longleftrightarrow> (case x of None \<Rightarrow> False | Some s \<Rightarrow> s \<noteq> [])"

definition provider_is_configured :: "oauth_settings \<Rightarrow> bool" where
  "provider_is_configured s \<longleftrightarrow> non_empty (st_client_id s) \<and> st_client_secret s \<noteq> None
     \<and> non_empty (st_redirect_uri s) \<and> st_token_key s \<noteq> None"

section \<open>The token exchange\<close>

record token_response =
  tk_access :: string
  tk_refresh :: string
  tk_expires_at :: instant
  tk_scopes :: "string list"

text \<open>The provider's reply: a transport, status or JSON error, or a JSON value.\<close>

datatype http_reply = Http_Failure | Payload json

text \<open>\<open>str.split()\<close>\<close>

function py_split :: "string \<Rightarrow> string list" where
  "py_split s = (case dropWhile is_py_space s of
     [] \<Rightarrow> []
   | t \<Rightarrow> takeWhile (\<lambda>c. \<not> is_py_space c) t # py_split (dropWhile (\<lambda>c. \<not> is_py_space c) t))"
  by auto
termination
proof (relation "measure length", simp)
  fix s x y
  assume eq: "dropWhile is_py_space s = x # y"
  then have "\<not> is_py_space x" using hd_dropWhile [of is_py_space s] by (metis list.distinct(1) list.sel(1))
  then have "length (dropWhile (\<lambda>c. \<not> is_py_space c) (x # y)) < length (x # y)"
    using length_dropWhile_le [of "\<lambda>c. \<not> is_py_space c" y] by simp
  also have "\<dots> \<le> length s" using length_dropWhile_le [of is_py_space s] eq by simp
  finally show "(dropWhile (\<lambda>c. \<not> is_py_space c) (x # y), s) \<in> measure length" by simp
qed

declare py_split.simps [simp del]

definition str_at :: "(string \<times> json) list \<Rightarrow> string \<Rightarrow> string option" where
  "str_at payload key = (case map_of payload key of Some (JStr s) \<Rightarrow> Some s | _ \<Rightarrow> None)"

definition int_at :: "(string \<times> json) list \<Rightarrow> string \<Rightarrow> int option" where
  "int_at payload key = (case map_of payload key of Some (JInt n) \<Rightarrow> Some n | _ \<Rightarrow> None)"

definition exchange_authorization_code :: "oauth_settings \<Rightarrow> http_reply \<Rightarrow> instant \<Rightarrow> token_response option" where
  "exchange_authorization_code s reply now =
     (if \<not> non_empty (st_client_id s) \<or> st_client_secret s = None then None
      else (case reply of
        Payload (JObj payload) \<Rightarrow>
          (case (str_at payload ''access_token'', str_at payload ''refresh_token'', int_at payload ''expires_in'', str_at payload ''scope'') of
             (Some access, Some refresh, Some expires_in, Some raw_scope) \<Rightarrow>
               if access = [] \<or> refresh = [] \<or> expires_in \<le> 0 \<or> strip raw_scope = [] then None
               else Some \<lparr>tk_access = access, tk_refresh = refresh, tk_expires_at = now + expires_in * us_per_second,
                          tk_scopes = sort (remdups (py_split raw_scope))\<rparr>
           | _ \<Rightarrow> None)
      | _ \<Rightarrow> None))"

section \<open>The vault\<close>

text \<open>\<open>base64.b64decode(s, altchars=b"-_", validate=True)\<close>, \<open>None\<close> for an error.\<close>

definition b64_value :: "char \<Rightarrow> nat option" where
  "b64_value c = (let n = of_char c :: nat in
     if 65 \<le> n \<and> n \<le> 90 then Some (n - 65) else if 97 \<le> n \<and> n \<le> 122 then Some (n - 71)
     else if 48 \<le> n \<and> n \<le> 57 then Some (n + 4)
     else if n = 45 \<or> n = 43 then Some 62 else if n = 95 \<or> n = 47 then Some 63 else None)"

fun b64decode :: "string \<Rightarrow> nat list option" where
  "b64decode [] = Some []"
| "b64decode (a # b # c # d # rest) =
     (case (b64_value a, b64_value b) of
        (Some x, Some y) \<Rightarrow>
          (let b1 = 4 * x + y div 16 in
           if c = CHR ''='' then (if d = CHR ''='' \<and> rest = [] then Some [b1] else None)
           else (case b64_value c of
                   None \<Rightarrow> None
                 | Some z \<Rightarrow>
                     (let b2 = 16 * (y mod 16) + z div 4 in
                      if d = CHR ''='' then (if rest = [] then Some [b1, b2] else None)
                      else (case b64_value d of
                              None \<Rightarrow> None
                            | Some w \<Rightarrow> map_option (\<lambda>bs. [b1, b2, 64 * (z mod 4) + w] @ bs) (b64decode rest)))))
      | _ \<Rightarrow> None)"
| "b64decode _ = None"

definition vault_key :: "oauth_settings \<Rightarrow> nat list res" where
  "vault_key s = (case st_token_key s of
     None \<Rightarrow> Inl (ValueError ''token encryption key is not configured'')
   | Some secret \<Rightarrow>
       (case b64decode secret of
          None \<Rightarrow> Inl (ValueError ''token encryption key is invalid'')
        | Some key \<Rightarrow> if length key \<noteq> 32 then Inl (ValueError ''master key must be 32 bytes'') else Inr key))"

record encrypted_token =
  et_ciphertext :: "nat list"
  et_nonce :: "nat list"
  et_key_version :: int

definition derive_key :: "(nat list \<Rightarrow> nat list) \<Rightarrow> nat list \<Rightarrow> int \<Rightarrow> nat list" where
  "derive_key sha256 key version = sha256 (key @ utf8 (int_str version))"

definition encrypt_token :: "(nat list \<Rightarrow> nat list) \<Rightarrow> (nat list \<Rightarrow> nat list \<Rightarrow> nat list \<Rightarrow> nat list) \<Rightarrow> nat list \<Rightarrow> nat list
    \<Rightarrow> string \<Rightarrow> int \<Rightarrow> encrypted_token" where
  "encrypt_token sha256 seal key nonce plaintext version =
     \<lparr>et_ciphertext = seal (derive_key sha256 key version) nonce (utf8 plaintext), et_nonce = nonce, et_key_version = version\<rparr>"

text \<open>\<open>unseal\<close> is \<open>None\<close> when the authentication fails.\<close>

definition decrypt_token :: "(nat list \<Rightarrow> nat list) \<Rightarrow> (nat list \<Rightarrow> nat list \<Rightarrow> nat list \<Rightarrow> nat list option) \<Rightarrow> nat list
    \<Rightarrow> encrypted_token \<Rightarrow> string option" where
  "decrypt_token sha256 unseal key token =
     Option.bind (unseal (derive_key sha256 key (et_key_version token)) (et_nonce token) (et_ciphertext token)) decode_utf8"

section \<open>Connections\<close>

record connection_row =
  cn_id :: uuid
  cn_workspace :: uuid
  cn_provider :: string
  cn_mode :: string
  cn_status :: string
  cn_scopes :: "string list"
  cn_access :: encrypted_token
  cn_refresh :: encrypted_token
  cn_expires_at :: instant

text \<open>What the environment supplies: the hash, the cipher, two nonces and a new identifier.\<close>

record environment =
  en_sha256 :: "nat list \<Rightarrow> nat list"
  en_seal :: "nat list \<Rightarrow> nat list \<Rightarrow> nat list \<Rightarrow> nat list"
  en_nonce1 :: "nat list"
  en_nonce2 :: "nat list"
  en_new_id :: uuid

definition granted :: "environment \<Rightarrow> nat list \<Rightarrow> string \<Rightarrow> token_response \<Rightarrow> connection_row \<Rightarrow> connection_row" where
  "granted env key mode tokens row = row\<lparr>cn_mode := mode, cn_status := ''CONNECTED'', cn_scopes := tk_scopes tokens,
     cn_access := encrypt_token (en_sha256 env) (en_seal env) key (en_nonce1 env) (tk_access tokens) 1,
     cn_refresh := encrypt_token (en_sha256 env) (en_seal env) key (en_nonce2 env) (tk_refresh tokens) 1,
     cn_expires_at := tk_expires_at tokens\<rparr>"

definition google_row :: "uuid \<Rightarrow> connection_row list \<Rightarrow> connection_row option" where
  "google_row workspace rows = find (\<lambda>r. cn_workspace r = workspace \<and> cn_provider r = ''google'') rows"

definition persist_verified_connection :: "environment \<Rightarrow> oauth_settings \<Rightarrow> uuid \<Rightarrow> string \<Rightarrow> token_response \<Rightarrow> connection_row list
    \<Rightarrow> (uuid \<times> connection_row list) res" where
  "persist_verified_connection env s workspace mode tokens rows = rbind (vault_key s) (\<lambda>key.
     case google_row workspace rows of
       None \<Rightarrow>
         (let row = granted env key mode tokens \<lparr>cn_id = en_new_id env, cn_workspace = workspace, cn_provider = ''google'', cn_mode = mode,
                cn_status = ''CONNECTED'', cn_scopes = [], cn_access = encrypt_token (en_sha256 env) (en_seal env) key (en_nonce1 env) (tk_access tokens) 1,
                cn_refresh = encrypt_token (en_sha256 env) (en_seal env) key (en_nonce2 env) (tk_refresh tokens) 1, cn_expires_at = tk_expires_at tokens\<rparr>
          in Inr (cn_id row, rows @ [row]))
     | Some row \<Rightarrow> Inr (cn_id row, put_row cn_id (granted env key mode tokens row) rows))"

section \<open>The endpoints\<close>

record calendar_state =
  cs_states :: state_store
  cs_rows :: "connection_row list"
  cs_failures :: nat

text \<open>\<open>cs_failures\<close> is the counter \<open>oauth_exchange_failures_total\<close>.\<close>

datatype calendar_reply = Refused int string | Authorize string string | Connected uuid

definition STATE_TTL :: int where
  "STATE_TTL = 10 * us_per_minute"

definition create_connection :: "oauth_settings \<Rightarrow> string \<Rightarrow> string \<Rightarrow> current_actor \<Rightarrow> string \<Rightarrow> instant \<Rightarrow> calendar_state
    \<Rightarrow> calendar_reply api \<times> calendar_state" where
  "create_connection s state verifier actor mode now c =
     (if mode \<notin> {''READ_ONLY'', ''READ_WRITE''} then (Inl (DomainRuleError ''UNSUPPORTED_CONNECTION_MODE'' (''mode '' @ mode)), c)
      else if \<not> provider_is_configured s then (Inr (Refused 503 ''OAUTH_PROVIDER_NOT_CONFIGURED''), c)
      else (case issue_state STATE_TTL state verifier (uuid_str (ac_workspace actor)) mode (Aware now 0) (cs_states c) of
              Inl e \<Rightarrow> (Inl (ServiceError e), c)
            | Inr (token, store) \<Rightarrow> (Inr (Authorize token mode), c\<lparr>cs_states := store\<rparr>)))"

definition count_failure :: "calendar_state \<Rightarrow> calendar_state" where
  "count_failure c = c\<lparr>cs_failures := cs_failures c + 1\<rparr>"

text \<open>What follows the check of the state; \<open>exchange\<close> maps the code and the verifier to the provider's reply.\<close>

definition finish_callback :: "environment \<Rightarrow> oauth_settings \<Rightarrow> (string \<Rightarrow> string \<Rightarrow> http_reply) \<Rightarrow> string \<Rightarrow> oauth_state \<Rightarrow> instant
    \<Rightarrow> calendar_state \<Rightarrow> calendar_reply \<times> calendar_state" where
  "finish_callback env s exchange code v now c =
     (if \<not> provider_is_configured s then (Refused 503 ''OAUTH_PROVIDER_NOT_CONFIGURED'', c)
      else (case exchange_authorization_code s (exchange code (os_code_verifier v)) now of
        None \<Rightarrow> (Refused 502 ''OAUTH_EXCHANGE_FAILED'', count_failure c)
      | Some tokens \<Rightarrow>
          if \<not> set (configured_scopes (os_mode v)) \<subseteq> set (tk_scopes tokens)
          then (Refused 502 ''OAUTH_SCOPE_MISMATCH'', count_failure c)
          else (case py_uuid (os_workspace_id v) of
            None \<Rightarrow> (Refused 503 ''OAUTH_PROVIDER_NOT_CONFIGURED'', count_failure c)
          | Some workspace \<Rightarrow>
              (case persist_verified_connection env s workspace (os_mode v) tokens (cs_rows c) of
                 Inl _ \<Rightarrow> (Refused 503 ''OAUTH_PROVIDER_NOT_CONFIGURED'', count_failure c)
               | Inr (i, rows) \<Rightarrow> (Connected i, c\<lparr>cs_rows := rows\<rparr>)))))"

definition oauth_callback :: "environment \<Rightarrow> oauth_settings \<Rightarrow> (string \<Rightarrow> string \<Rightarrow> http_reply) \<Rightarrow> string option \<Rightarrow> string option \<Rightarrow> instant
    \<Rightarrow> calendar_state \<Rightarrow> calendar_reply \<times> calendar_state" where
  "oauth_callback env s exchange code state now c =
     (if \<not> non_empty state then (Refused 400 ''OAUTH_STATE_MISMATCH'', c)
      else if \<not> non_empty code then (Refused 400 ''OAUTH_CODE_MISSING'', c)
      else (case consume_state (the state) (Aware now 0) (cs_states c) of
              (Inr (Some v), store) \<Rightarrow> finish_callback env s exchange (the code) v now (c\<lparr>cs_states := store\<rparr>)
            | (_, store) \<Rightarrow> (Refused 400 ''OAUTH_STATE_MISMATCH'', c\<lparr>cs_states := store\<rparr>)))"

section \<open>Histories\<close>

text \<open>An event carries what its call got from outside.\<close>

datatype calendar_event_call =
    Create oauth_settings string string current_actor string instant
  | Callback environment oauth_settings "string \<Rightarrow> string \<Rightarrow> http_reply" "string option" "string option" instant

fun calendar_step :: "calendar_event_call \<Rightarrow> calendar_state \<Rightarrow> calendar_reply api \<times> calendar_state" where
  "calendar_step (Create s state verifier actor mode now) c = create_connection s state verifier actor mode now c"
| "calendar_step (Callback env s exchange code state now) c =
     (case oauth_callback env s exchange code state now c of (r, c') \<Rightarrow> (Inr r, c'))"

text \<open>The replies of a history, and how often a state was handed out and completed in it.\<close>

fun replies :: "calendar_event_call list \<Rightarrow> calendar_state \<Rightarrow> (calendar_event_call \<times> calendar_reply api) list" where
  "replies [] c = []"
| "replies (e # es) c = (e, fst (calendar_step e c)) # replies es (snd (calendar_step e c))"

fun hands_out :: "string \<Rightarrow> calendar_event_call \<times> calendar_reply api \<Rightarrow> bool" where
  "hands_out k (e, r) \<longleftrightarrow> (case r of Inr (Authorize token mode) \<Rightarrow> token = k | _ \<Rightarrow> False)"

fun completes :: "string \<Rightarrow> calendar_event_call \<times> calendar_reply api \<Rightarrow> bool" where
  "completes k (Callback env s exchange code state now, r) \<longleftrightarrow> state = Some k \<and> (\<exists>i. r = Inr (Connected i))"
| "completes k (Create s state verifier actor mode now, r) \<longleftrightarrow> False"

definition held :: "string \<Rightarrow> calendar_state \<Rightarrow> nat" where
  "held k c = (if map_of (cs_states c) k = None then 0 else 1)"

lemma map_of_filter_other: "map_of (filter (\<lambda>(x, v). x \<noteq> k) xs) j = (if j = k then None else map_of xs j)"
  by (induction xs) auto

lemma map_of_filter_None: "map_of xs k = None \<Longrightarrow> map_of (filter P xs) k = None"
  by (induction xs) (auto split: if_splits)

definition valid_state :: "string \<Rightarrow> instant \<Rightarrow> state_store \<Rightarrow> oauth_state option" where
  "valid_state state now store = (case map_of store state of
     None \<Rightarrow> None | Some v \<Rightarrow> if now < os_issued_at v \<or> os_expires_at v \<le> now then None else Some v)"

lemma consume_valid: "consume_state state (Aware now 0) store = (Inr (valid_state state now store), filter (\<lambda>(k, v). k \<noteq> state) store)"
  by (simp add: consume_state_def oauth_clock_def valid_state_def Let_def split: option.splits)

lemma valid_stateD:
  "valid_state state now store = Some v \<Longrightarrow> map_of store state = Some v \<and> os_issued_at v \<le> now \<and> now < os_expires_at v"
  by (auto simp: valid_state_def split: option.splits if_splits)

lemma held_le: "held k c \<le> 1"
  by (simp add: held_def)

lemma create_held:
  assumes "create_connection s state verifier actor mode now c = (r, c')"
  shows "held k c' \<le> held k c + (if hands_out k (e, r) then 1 else 0)"
  using assms map_of_filter_None [of "cs_states c" k]
  by (auto simp: create_connection_def issue_state_def oauth_clock_def held_def map_of_update split: if_splits)

lemma finish_states: "cs_states (snd (finish_callback env s exchange code v now c)) = cs_states c"
  by (auto simp: finish_callback_def count_failure_def split: option.splits sum.splits prod.splits)

lemma finish_not_authorize: "fst (finish_callback env s exchange code v now c) \<noteq> Authorize token mode"
  by (auto simp: finish_callback_def count_failure_def split: option.splits sum.splits prod.splits)

lemma callback_held:
  assumes "oauth_callback env s exchange code state now c = (r, c')"
  shows "held k c' + (if completes k (Callback env s exchange code state now, Inr r) then 1 else 0) \<le> held k c"
    and "\<not> hands_out k (e, Inr r)"
proof -
  have "held k c' + (if completes k (Callback env s exchange code state now, Inr r) then 1 else 0) \<le> held k c \<and> \<not> hands_out k (e, Inr r)"
  proof (cases "non_empty state \<and> non_empty code")
    case False
    then show ?thesis using assms by (auto simp: oauth_callback_def split: if_splits)
  next
    case True
    then obtain st where st: "state = Some st" by (cases state) (auto simp: non_empty_def)
    define store where "store = filter (\<lambda>(x, v). x \<noteq> st) (cs_states c)"
    have gone: "map_of store k = (if k = st then None else map_of (cs_states c) k)"
      by (simp add: store_def map_of_filter_other)
    define w where "w = valid_state st now (cs_states c)"
    have "oauth_callback env s exchange code state now c =
        (case w of Some v \<Rightarrow> finish_callback env s exchange (the code) v now (c\<lparr>cs_states := store\<rparr>)
         | None \<Rightarrow> (Refused 400 ''OAUTH_STATE_MISMATCH'', c\<lparr>cs_states := store\<rparr>))"
      using True by (simp add: oauth_callback_def st consume_valid w_def store_def split: option.splits)
    then consider v where "w = Some v" "(r, c') = finish_callback env s exchange (the code) v now (c\<lparr>cs_states := store\<rparr>)"
      | "r = Refused 400 ''OAUTH_STATE_MISMATCH''" "c' = c\<lparr>cs_states := store\<rparr>"
      using assms by (cases w) auto
    then show ?thesis
    proof cases
      case 1
      have "cs_states c' = store" using finish_states [of env s exchange "the code" v now "c\<lparr>cs_states := store\<rparr>"] 1(2) by (metis calendar_state.select_convs(1) calendar_state.surjective calendar_state.update_convs(1) snd_conv)
      moreover have "\<And>token mode. r \<noteq> Authorize token mode"
        using finish_not_authorize [of env s exchange "the code" v now "c\<lparr>cs_states := store\<rparr>"] 1(2) by (metis fst_conv)
      moreover have "map_of (cs_states c) st \<noteq> None" using 1(1) valid_stateD by (auto simp: w_def)
      ultimately show ?thesis using gone st by (cases r) (auto simp: held_def)
    next
      case 2
      then show ?thesis using gone by (auto simp: held_def)
    qed
  qed
  then show "held k c' + (if completes k (Callback env s exchange code state now, Inr r) then 1 else 0) \<le> held k c"
    and "\<not> hands_out k (e, Inr r)" by simp_all
qed

lemma completions_bounded:
  "length (filter (completes k) (replies es c)) \<le> length (filter (hands_out k) (replies es c)) + held k c"
proof (induction es arbitrary: c)
  case (Cons e es)
  obtain r c' where step: "calendar_step e c = (r, c')" by fastforce
  have IH: "length (filter (completes k) (replies es c')) \<le> length (filter (hands_out k) (replies es c')) + held k c'" by (rule Cons.IH)
  show ?case
  proof (cases e)
    case (Create s state verifier actor mode now)
    then have "held k c' \<le> held k c + (if hands_out k (e, r) then 1 else 0)"
      using create_held [of s state verifier actor mode now c r c'] step by simp
    then show ?thesis using IH step Create by (simp split: if_splits)
  next
    case (Callback env s exchange code state now)
    obtain q where q: "r = Inr q" "oauth_callback env s exchange code state now c = (q, c')"
      using step Callback by (auto split: prod.splits)
    then show ?thesis using callback_held(1) [OF q(2), of k] callback_held(2) [OF q(2), of k e] IH step Callback by (auto split: if_splits)
  qed
qed simp


section \<open>A completed callback\<close>

lemma finish_connected:
  assumes "finish_callback env s exchange code v now c = (Connected i, c')"
  shows "\<exists>tokens workspace key. provider_is_configured s
    \<and> exchange_authorization_code s (exchange code (os_code_verifier v)) now = Some tokens
    \<and> set (configured_scopes (os_mode v)) \<subseteq> set (tk_scopes tokens) \<and> py_uuid (os_workspace_id v) = Some workspace
    \<and> vault_key s = Inr key \<and> persist_verified_connection env s workspace (os_mode v) tokens (cs_rows c) = Inr (i, cs_rows c')
    \<and> cs_states c' = cs_states c"
  using assms
  by (auto simp: finish_callback_def count_failure_def persist_verified_connection_def res_simps
      split: option.splits sum.splits if_splits prod.splits)

lemma encrypt_decrypt:
  assumes "\<And>k n m. unseal k n (seal k n m) = Some m"
  shows "decrypt_token sha256 unseal key (encrypt_token sha256 seal key nonce p version) = Some p"
  by (simp add: decrypt_token_def encrypt_token_def assms decode_encode)

lemma find_app_None: "find P xs = None \<Longrightarrow> find P (xs @ ys) = find P ys"
  by (induction xs) (auto split: if_splits)

lemma google_row_facts: "google_row w rows = Some r \<Longrightarrow> r \<in> set rows \<and> cn_workspace r = w \<and> cn_provider r = ''google''"
  by (auto simp: google_row_def find_Some_iff)

lemma persist_spec:
  assumes "persist_verified_connection env s w mode tokens rows = Inr (i, rows')" and "vault_key s = Inr key"
    and "distinct (map cn_id rows)" and "en_new_id env \<notin> set (map cn_id rows)"
  shows "\<exists>row. google_row w rows' = Some row \<and> row = granted env key mode tokens row \<and> cn_id row = i
    \<and> filter (\<lambda>r. cn_id r \<noteq> i) rows' = filter (\<lambda>r. cn_id r \<noteq> i) rows
    \<and> (\<forall>r\<in>set rows. cn_id r = i \<longrightarrow> cn_workspace r = w \<and> cn_provider r = ''google'')"
proof (cases "google_row w rows")
  case None
  have "\<forall>r\<in>set rows. cn_id r \<noteq> en_new_id env" using assms(4) by (metis image_eqI set_map)
  then show ?thesis using assms(1,2) None
    by (auto simp: persist_verified_connection_def Let_def google_row_def granted_def find_app_None cong: filter_cong)
next
  case (Some old)
  have old: "old \<in> set rows" "cn_workspace old = w" "cn_provider old = ''google''"
    using google_row_facts [OF Some] by auto
  define row where "row = granted env key mode tokens old"
  have res: "i = cn_id old" "rows' = put_row cn_id row rows"
    using assms(1,2) Some by (auto simp: persist_verified_connection_def row_def)
  have keys: "cn_id row = cn_id old" "cn_workspace row = w" "cn_provider row = ''google''"
    using old by (simp_all add: row_def granted_def)
  have only: "r = old" if "r \<in> set rows" and "cn_id r = cn_id old" for r
    using that assms(3) old(1) by (metis distinct_map inj_onD)
  have "google_row w rows' = Some row"
    using Some only keys unfolding res google_row_def put_row_def
    by (induction rows) (auto split: if_splits)
  moreover have "filter (\<lambda>r. cn_id r \<noteq> i) rows' = filter (\<lambda>r. cn_id r \<noteq> i) rows"
    unfolding res by (induction rows) (auto simp: put_row_def keys)
  moreover have "row = granted env key mode tokens row" by (simp add: row_def granted_def)
  ultimately show ?thesis using only old keys res(1) by auto
qed

section \<open>Properties\<close>

text \<open>
  C21. A completed callback was earned: when the callback reports a connection, its state was held
  and unexpired, the provider's reply grants every scope of the mode the user had asked for, and
  the connection of the workspace that asked for it is now stored as connected in that mode, with
  tokens that decrypt to the ones the provider gave; the state is spent, and no row but this
  one has changed. \<open>unseal\<close> is the inverse of the cipher.
\<close>

theorem callback_earned:
  assumes "oauth_callback env s exchange code (Some state) now c = (Connected i, c')"
    and "distinct (map cn_id (cs_rows c))" and "en_new_id env \<notin> set (map cn_id (cs_rows c))"
    and "\<And>k n m. unseal k n (en_seal env k n m) = Some m"
  shows "\<exists>v tokens w key row. map_of (cs_states c) state = Some v \<and> os_issued_at v \<le> now \<and> now < os_expires_at v
    \<and> exchange_authorization_code s (exchange (the code) (os_code_verifier v)) now = Some tokens
    \<and> set (configured_scopes (os_mode v)) \<subseteq> set (tk_scopes tokens)
    \<and> py_uuid (os_workspace_id v) = Some w \<and> vault_key s = Inr key
    \<and> google_row w (cs_rows c') = Some row \<and> cn_id row = i \<and> cn_status row = ''CONNECTED'' \<and> cn_mode row = os_mode v
    \<and> cn_scopes row = tk_scopes tokens
    \<and> decrypt_token (en_sha256 env) unseal key (cn_access row) = Some (tk_access tokens)
    \<and> decrypt_token (en_sha256 env) unseal key (cn_refresh row) = Some (tk_refresh tokens)
    \<and> map_of (cs_states c') state = None
    \<and> filter (\<lambda>r. cn_id r \<noteq> i) (cs_rows c') = filter (\<lambda>r. cn_id r \<noteq> i) (cs_rows c)"
proof -
  let ?store = "filter (\<lambda>(k, v). k \<noteq> state) (cs_states c)"
  obtain v where v: "valid_state state now (cs_states c) = Some v"
      and fin: "finish_callback env s exchange (the code) v now (c\<lparr>cs_states := ?store\<rparr>) = (Connected i, c')"
    using assms(1) by (auto simp: oauth_callback_def consume_valid split: if_splits option.splits)
  obtain tokens w key where facts: "exchange_authorization_code s (exchange (the code) (os_code_verifier v)) now = Some tokens"
      "set (configured_scopes (os_mode v)) \<subseteq> set (tk_scopes tokens)" "py_uuid (os_workspace_id v) = Some w" "vault_key s = Inr key"
      "persist_verified_connection env s w (os_mode v) tokens (cs_rows c) = Inr (i, cs_rows c')" "cs_states c' = ?store"
    using finish_connected [OF fin] by auto
  obtain row where row: "google_row w (cs_rows c') = Some row" "row = granted env key (os_mode v) tokens row" "cn_id row = i"
      "filter (\<lambda>r. cn_id r \<noteq> i) (cs_rows c') = filter (\<lambda>r. cn_id r \<noteq> i) (cs_rows c)"
    using persist_spec [OF facts(5,4) assms(2,3)] by blast
  have stored: "cn_status row = ''CONNECTED''" "cn_mode row = os_mode v" "cn_scopes row = tk_scopes tokens"
      "cn_access row = encrypt_token (en_sha256 env) (en_seal env) key (en_nonce1 env) (tk_access tokens) 1"
      "cn_refresh row = encrypt_token (en_sha256 env) (en_seal env) key (en_nonce2 env) (tk_refresh tokens) 1"
    by (subst row(2), simp add: granted_def)+
  have "map_of (cs_states c') state = None" by (simp add: facts(6) map_of_filter_other)
  then show ?thesis
    using valid_stateD [OF v] facts(1-4) row(1,3,4) stored encrypt_decrypt [where unseal = unseal, OF assms(4)] by auto
qed

definition an_environment :: environment where
  "an_environment = \<lparr>en_sha256 = \<lambda>b. b, en_seal = \<lambda>k n m. k @ m, en_nonce1 = [1], en_nonce2 = [2], en_new_id = 9\<rparr>"

definition some_settings :: oauth_settings where
  "some_settings = \<lparr>st_client_id = Some ''id'', st_client_secret = Some ''secret'', st_redirect_uri = Some ''uri'',
     st_token_key = Some (replicate 43 CHR ''A'' @ ''='')\<rparr>"

definition a_reply :: "string \<Rightarrow> string \<Rightarrow> http_reply" where
  "a_reply code verifier = (if code = ''code'' \<and> verifier = ''verifier''
     then Payload (JObj [(''access_token'', JStr ''access''), (''refresh_token'', JStr ''refresh''), (''expires_in'', JInt 3600),
            (''scope'', JStr (hd READ_ONLY_SCOPES @ '' openid''))])
     else Http_Failure)"

definition connecting :: calendar_state where
  "connecting = \<lparr>cs_states = [(''state'', \<lparr>os_workspace_id = uuid_str 3, os_mode = ''READ_ONLY'', os_code_verifier = ''verifier'',
     os_issued_at = 0, os_expires_at = STATE_TTL\<rparr>)], cs_rows = [], cs_failures = 0\<rparr>"

lemma a_vault_key: "vault_key some_settings = Inr (replicate 32 0)"
  by code_simp

lemma an_exchange: "exchange_authorization_code some_settings (a_reply ''code'' ''verifier'') 5 =
  Some \<lparr>tk_access = ''access'', tk_refresh = ''refresh'', tk_expires_at = 3600000005, tk_scopes = READ_ONLY_SCOPES @ [''openid'']\<rparr>"
  by code_simp

lemma a_configured: "provider_is_configured some_settings"
  by code_simp

lemma connecting_connects: "fst (oauth_callback an_environment some_settings a_reply (Some ''code'') (Some ''state'') 5 connecting) = Connected 9"
  by (simp add: oauth_callback_def consume_valid valid_state_def connecting_def non_empty_def STATE_TTL_def finish_callback_def a_configured
      an_exchange configured_scopes_def READ_ONLY_SCOPES_def py_uuid_str persist_verified_connection_def a_vault_key google_row_def
      granted_def an_environment_def)

lemma callback_earned_witness:
  "\<exists>row key. google_row 3 (cs_rows (snd (oauth_callback an_environment some_settings a_reply (Some ''code'') (Some ''state'') 5 connecting)))
     = Some row \<and> decrypt_token (en_sha256 an_environment) (\<lambda>k n c. Some (drop (length k) c)) key (cn_access row) = Some ''access''"
proof -
  have "oauth_callback an_environment some_settings a_reply (Some ''code'') (Some ''state'') 5 connecting =
      (Connected 9, snd (oauth_callback an_environment some_settings a_reply (Some ''code'') (Some ''state'') 5 connecting))"
    by (metis connecting_connects prod.collapse)
  from callback_earned [OF this, of "\<lambda>k n c. Some (drop (length k) c)"] show ?thesis
    by (fastforce simp: connecting_def an_environment_def an_exchange py_uuid_str)
qed

text \<open>
  States are single-use, in every history of the two endpoints from an empty store, with any
  settings, actors, clocks and replies: callbacks complete with a state at most as often as the
  state was handed out, so a state that was never handed out completes none and a random state,
  handed out once, at most one.
\<close>

theorem states_single_use:
  "length (filter (completes state) (replies events \<lparr>cs_states = [], cs_rows = rows, cs_failures = n\<rparr>))
     \<le> length (filter (hands_out state) (replies events \<lparr>cs_states = [], cs_rows = rows, cs_failures = n\<rparr>))"
  using completions_bounded [of state events "\<lparr>cs_states = [], cs_rows = rows, cs_failures = n\<rparr>"] by (simp add: held_def)

end
