(* ===== verification/Work_Sessions.thy ===== *)
theory Work_Sessions
  imports Versioned_Rows Floats
begin

text \<open>
  Work sessions and estimation profiles (\<open>analytics/service.py\<close>): starting, completing in
  part or whole and blocking a session on a task, and the blended estimation factor. A step
  returns the tables it commits; a call that raises commits nothing. The results: in a history
  that closes each session once, recorded and remaining minutes add up to what the task had;
  without that the record is lost; the bounds and the order of the blended factor.
\<close>

section \<open>Tables\<close>

record session_row =
  sn_id :: uuid
  sn_workspace :: uuid
  sn_task :: "uuid option"
  sn_status :: string
  sn_actual_minutes :: int
  sn_blocked_reason :: "string option"
  sn_started_at :: instant

record session_db =
  sb_sessions :: "session_row list"
  sb_tasks :: "task_row list"

record session_outcome =
  so_status :: string
  so_actual_minutes :: int
  so_remaining_minutes :: int

text \<open>An \<open>assert\<close> that fails, besides the errors of the services.\<close>

datatype session_exn = Api_Error api_exn | Assertion_Error

type_synonym 'a session_result = "session_exn + 'a"

section \<open>The operations\<close>

definition owned_by_text :: "('r \<Rightarrow> uuid) \<Rightarrow> ('r \<Rightarrow> uuid) \<Rightarrow> current_actor \<Rightarrow> string \<Rightarrow> 'r list \<Rightarrow> 'r session_result" where
  "owned_by_text key workspace actor text rows = (case py_uuid text of
     None \<Rightarrow> Inl (Api_Error (ServiceError bad_uuid))
   | Some k \<Rightarrow> (case owned_row key workspace (ac_workspace actor) k rows of
       None \<Rightarrow> Inl (Api_Error NotFoundError)
     | Some r \<Rightarrow> Inr r))"

definition start_session :: "current_actor \<Rightarrow> string \<Rightarrow> uuid \<Rightarrow> instant \<Rightarrow> session_db \<Rightarrow> (uuid \<times> session_db) session_result" where
  "start_session actor task_id new_id now db = (case owned_by_text tr_id tr_workspace actor task_id (sb_tasks db) of
     Inl e \<Rightarrow> Inl e
   | Inr task \<Rightarrow> Inr (new_id, db\<lparr>sb_sessions := sb_sessions db @
       [\<lparr>sn_id = new_id, sn_workspace = ac_workspace actor, sn_task = Some (tr_id task), sn_status = ''RUNNING'',
         sn_actual_minutes = 0, sn_blocked_reason = None, sn_started_at = now\<rparr>]\<rparr>))"

text \<open>The two rows are flushed together: the checks of \<open>tasks\<close> decide over both.\<close>

definition commit_session :: "session_row \<Rightarrow> task_row \<Rightarrow> session_db \<Rightarrow> session_db session_result" where
  "commit_session record' task db = (case task_check task of
     Some e \<Rightarrow> Inl (Api_Error e)
   | None \<Rightarrow> Inr (db\<lparr>sb_sessions := put_row sn_id record' (sb_sessions db), sb_tasks := put_row tr_id task (sb_tasks db)\<rparr>))"

text \<open>\<open>session.get(TaskModel, record.task_id)\<close> and the \<open>assert\<close> after it.\<close>

definition session_task :: "session_row \<Rightarrow> session_db \<Rightarrow> task_row session_result" where
  "session_task r db = (case Option.bind (sn_task r) (\<lambda>k. row_at tr_id k (sb_tasks db)) of
     None \<Rightarrow> Inl Assertion_Error | Some task \<Rightarrow> Inr task)"

definition close_session :: "string \<Rightarrow> int \<Rightarrow> (task_row \<Rightarrow> task_row) \<Rightarrow> (task_row \<Rightarrow> int) \<Rightarrow> current_actor \<Rightarrow> string \<Rightarrow> session_db
    \<Rightarrow> (session_outcome \<times> session_db) session_result" where
  "close_session status remaining change actual actor session_id db =
     (case owned_by_text sn_id sn_workspace actor session_id (sb_sessions db) of
        Inl e \<Rightarrow> Inl e
      | Inr r \<Rightarrow>
        (case session_task r db of
           Inl e \<Rightarrow> Inl e
         | Inr task \<Rightarrow>
           (case commit_session (r\<lparr>sn_status := status, sn_actual_minutes := actual task\<rparr>)
                   ((change task)\<lparr>tr_version := tr_version task + 1\<rparr>) db of
              Inl e \<Rightarrow> Inl e
            | Inr db' \<Rightarrow> Inr (\<lparr>so_status = status, so_actual_minutes = actual task, so_remaining_minutes = remaining\<rparr>, db'))))"

definition partial_complete :: "current_actor \<Rightarrow> string \<Rightarrow> int \<Rightarrow> session_db \<Rightarrow> (session_outcome \<times> session_db) session_result" where
  "partial_complete actor session_id remaining =
     close_session ''PARTIAL'' remaining (\<lambda>t. t\<lparr>tr_remaining_base := remaining\<rparr>)
       (\<lambda>t. max 0 (tr_remaining_base t - remaining)) actor session_id"

definition complete_session :: "current_actor \<Rightarrow> string \<Rightarrow> session_db \<Rightarrow> (session_outcome \<times> session_db) session_result" where
  "complete_session actor session_id =
     close_session ''COMPLETED'' 0 (\<lambda>t. t\<lparr>tr_remaining_base := 0, tr_remaining_safety := 0, tr_status := ''done''\<rparr>)
       tr_remaining_base actor session_id"

definition block_session :: "current_actor \<Rightarrow> string \<Rightarrow> string \<Rightarrow> session_db \<Rightarrow> (session_outcome \<times> session_db) session_result" where
  "block_session actor session_id reason db =
     (case owned_by_text sn_id sn_workspace actor session_id (sb_sessions db) of
        Inl e \<Rightarrow> Inl e
      | Inr r \<Rightarrow> Inr (\<lparr>so_status = ''BLOCKED'', so_actual_minutes = 0, so_remaining_minutes = 0\<rparr>,
          db\<lparr>sb_sessions := put_row sn_id (r\<lparr>sn_status := ''BLOCKED'', sn_blocked_reason := Some reason\<rparr>) (sb_sessions db)\<rparr>))"

section \<open>The blended factor\<close>

definition MAX_BACKOFF_FACTOR :: rat where "MAX_BACKOFF_FACTOR = 5/2"
definition MIN_BACKOFF_FACTOR :: rat where "MIN_BACKOFF_FACTOR = 3/4"

definition blend_weight :: "int \<Rightarrow> rat" where
  "blend_weight n = (if n \<le> 2 then 0 else if n \<le> 5 then fl (3/10) else if n \<le> 19 then fl (3/5) else fl (4/5))"

definition profile_blend :: "rat \<Rightarrow> int \<Rightarrow> rat" where
  "profile_blend observed_ratio sample_count = min MAX_BACKOFF_FACTOR (max MIN_BACKOFF_FACTOR
     (fround (fadd 1 (fmul (fsub observed_ratio 1) (blend_weight sample_count))) 6))"

record profile_row =
  pf_id :: uuid
  pf_workspace :: uuid
  pf_kind :: string
  pf_factor :: rat
  pf_sample_count :: int
  pf_updated_at :: "instant option"

text \<open>
  The profile of a kind is written over; \<open>scalar_one_or_none\<close> raises when there is more than one,
  here as a \<open>ValueError\<close>.
\<close>

definition recalculate :: "string \<Rightarrow> string \<Rightarrow> rat \<Rightarrow> int \<Rightarrow> uuid \<Rightarrow> instant \<Rightarrow> profile_row list \<Rightarrow> ((rat \<times> int) \<times> profile_row list) api" where
  "recalculate workspace_id kind ratio samples new_id now rows =
     (let factor = profile_blend ratio samples in
      case py_uuid workspace_id of
        None \<Rightarrow> Inl (ServiceError bad_uuid)
      | Some w \<Rightarrow>
        (case filter (\<lambda>r. pf_workspace r = w \<and> pf_kind r = kind) rows of
           [] \<Rightarrow> (if 60 < length kind then Inl DataError
                  else Inr ((factor, samples), rows @ [\<lparr>pf_id = new_id, pf_workspace = w, pf_kind = kind, pf_factor = factor,
                    pf_sample_count = samples, pf_updated_at = None\<rparr>]))
         | [r] \<Rightarrow> Inr ((factor, samples),
             put_row pf_id (r\<lparr>pf_factor := factor, pf_sample_count := samples, pf_updated_at := Some now\<rparr>) rows)
         | _ \<Rightarrow> Inl (ServiceError (ValueError ''MultipleResultsFound''))))"

lemma rat_mono:
  fixes x y :: rat
  assumes "x \<le> y"
  shows "fl x \<le> fl y"
proof -
  consider "0 \<le> x" | "x < 0" "0 \<le> y" | "y < 0" by linarith
  then show ?thesis
  proof cases
    case 1
    then show ?thesis by (rule fl_mono [OF _ assms])
  next
    case 2
    have "fl x = - fl (- x)" using fl_minus [of x] by simp
    then have "fl x \<le> 0" using fl_nonneg [of "- x"] 2 by simp
    then show ?thesis using fl_nonneg [OF 2(2)] by simp
  next
    case 3
    have "fl (- y) \<le> fl (- x)" using 3 assms by (intro fl_mono) simp_all
    then show ?thesis by (simp add: fl_minus)
  qed
qed

lemma fround_mono: "x \<le> y \<Longrightarrow> fround x n \<le> fround y n"
  unfolding fround_def by (intro rat_mono divide_right_mono) (simp_all add: rne_mono)

lemma blend_weight_nonneg: "0 \<le> blend_weight n"
  by (simp add: blend_weight_def fl_nonneg)

lemma fl_1: "fl 1 = 1"
  using fl_of_int_exact [of 1] by simp

lemma blended_mono:
  assumes "r \<le> r'"
  shows "profile_blend r n \<le> profile_blend r' n"
proof -
  have "fmul (fsub r 1) (blend_weight n) \<le> fmul (fsub r' 1) (blend_weight n)"
    unfolding fmul_def fsub_def using assms blend_weight_nonneg by (intro rat_mono mult_right_mono) simp_all
  then have "fround (fadd 1 (fmul (fsub r 1) (blend_weight n))) 6 \<le> fround (fadd 1 (fmul (fsub r' 1) (blend_weight n))) 6"
    unfolding fadd_def by (intro fround_mono rat_mono) simp
  then show ?thesis unfolding profile_blend_def by (intro min.mono max.mono) simp_all
qed

lemma blended_bounds: "MIN_BACKOFF_FACTOR \<le> profile_blend r n" "profile_blend r n \<le> MAX_BACKOFF_FACTOR"
  by (simp_all add: profile_blend_def MIN_BACKOFF_FACTOR_def MAX_BACKOFF_FACTOR_def)

lemma rne_million: "rne 1000000 = 1000000"
  by (rule rne_numeral)

lemma fround_1: "fround 1 6 = 1"
  by (simp add: fround_def rne_million fl_1)

lemma blended_neutral: "profile_blend 1 n = 1" "n \<le> 2 \<Longrightarrow> profile_blend r n = 1"
  by (simp_all add: profile_blend_def fadd_def fsub_def fmul_def blend_weight_def fround_1 fl_1 MIN_BACKOFF_FACTOR_def MAX_BACKOFF_FACTOR_def)


section \<open>Accounting\<close>

datatype session_event =
    Start_Session current_actor string uuid instant
  | Partial_Complete current_actor string int
  | Complete_Session current_actor string
  | Block_Session current_actor string string

definition committed :: "session_db \<Rightarrow> ('a \<times> session_db) session_result \<Rightarrow> session_db" where
  "committed db result = (case result of Inl _ \<Rightarrow> db | Inr (_, db') \<Rightarrow> db')"

fun session_step :: "session_event \<Rightarrow> session_db \<Rightarrow> session_db" where
  "session_step (Start_Session actor task new_id now) db = committed db (start_session actor task new_id now db)"
| "session_step (Partial_Complete actor i remaining) db = committed db (partial_complete actor i remaining db)"
| "session_step (Complete_Session actor i) db = committed db (complete_session actor i db)"
| "session_step (Block_Session actor i reason) db = committed db (block_session actor i reason db)"

fun session_steps :: "session_event list \<Rightarrow> session_db \<Rightarrow> session_db" where
  "session_steps [] db = db"
| "session_steps (e # es) db = session_steps es (session_step e db)"

text \<open>Minutes recorded on a task, and what it has left.\<close>

definition worked_on :: "uuid \<Rightarrow> session_row \<Rightarrow> int" where
  "worked_on t r = (if sn_task r = Some t then sn_actual_minutes r else 0)"

definition worked :: "uuid \<Rightarrow> session_db \<Rightarrow> int" where
  "worked t db = sum_list (map (worked_on t) (sb_sessions db))"

definition left_over :: "uuid \<Rightarrow> session_db \<Rightarrow> int" where
  "left_over t db = (case row_at tr_id t (sb_tasks db) of None \<Rightarrow> 0 | Some r \<Rightarrow> tr_remaining_base r)"

definition open_session :: "string \<Rightarrow> session_db \<Rightarrow> bool" where
  "open_session text db \<longleftrightarrow> (\<forall>r\<in>set (sb_sessions db). py_uuid text = Some (sn_id r) \<longrightarrow> sn_status r \<in> {''RUNNING'', ''BLOCKED''})"

text \<open>A session is closed or blocked only while open, and a partial result never adds minutes.\<close>

fun careful :: "session_event \<Rightarrow> session_db \<Rightarrow> bool" where
  "careful (Start_Session actor task new_id now) db \<longleftrightarrow> new_id \<notin> sn_id ` set (sb_sessions db)"
| "careful (Partial_Complete actor i remaining) db \<longleftrightarrow> open_session i db
     \<and> (\<forall>r\<in>set (sb_sessions db). py_uuid i = Some (sn_id r) \<longrightarrow>
          (\<forall>task. session_task r db = Inr task \<longrightarrow> remaining \<le> tr_remaining_base task))"
| "careful (Complete_Session actor i) db \<longleftrightarrow> open_session i db"
| "careful (Block_Session actor i reason) db \<longleftrightarrow> open_session i db"

fun careful_history :: "session_event list \<Rightarrow> session_db \<Rightarrow> bool" where
  "careful_history [] db = True"
| "careful_history (e # es) db = (careful e db \<and> careful_history es (session_step e db))"

definition sessions_inv :: "session_db \<Rightarrow> bool" where
  "sessions_inv db \<longleftrightarrow> distinct (map sn_id (sb_sessions db))
     \<and> (\<forall>r\<in>set (sb_sessions db). sn_status r \<in> {''RUNNING'', ''BLOCKED''} \<longrightarrow> sn_actual_minutes r = 0)"

lemma sum_put_row:
  assumes "distinct (map key rows)" and "r \<in> set rows" and "key r' = key r"
  shows "sum_list (map f (put_row key r' rows)) = sum_list (map f rows) - f r + (f r' :: int)"
  using assms
proof (induction rows)
  case (Cons x rows)
  have tail: "put_row key r' rows = rows" if "key r \<notin> key ` set rows"
  proof -
    have "key x \<noteq> key r'" if "x \<in> set rows" for x
      using that \<open>key r \<notin> key ` set rows\<close> Cons.prems(3) by (metis image_eqI)
    then show ?thesis by (simp add: put_row_def map_idI)
  qed
  show ?case
  proof (cases "x = r")
    case True
    then have "key r \<notin> key ` set rows" using Cons.prems(1) by auto
    from tail [OF this] True Cons.prems(3) show ?thesis by (simp add: put_row_def)
  next
    case False
    then have "r \<in> set rows" and "key x \<noteq> key r" using Cons.prems by auto
    then show ?thesis using Cons.IH [OF _ \<open>r \<in> set rows\<close> Cons.prems(3)] Cons.prems by (simp add: put_row_def)
  qed
qed simp

lemma owned_by_text_facts:
  "owned_by_text key workspace actor text rows = Inr r \<Longrightarrow> r \<in> set rows \<and> py_uuid text = Some (key r) \<and> workspace r = ac_workspace actor"
  by (auto simp: owned_by_text_def split: option.splits dest!: owned_row_facts)

lemma close_sessionD:
  assumes "close_session status remaining change actual actor i db = Inr (out, db')"
  shows "\<exists>r task. r \<in> set (sb_sessions db) \<and> py_uuid i = Some (sn_id r) \<and> sn_workspace r = ac_workspace actor
    \<and> sn_task r = Some (tr_id task) \<and> row_at tr_id (tr_id task) (sb_tasks db) = Some task \<and> session_task r db = Inr task
    \<and> db' = db\<lparr>sb_sessions := put_row sn_id (r\<lparr>sn_status := status, sn_actual_minutes := actual task\<rparr>) (sb_sessions db),
               sb_tasks := put_row tr_id ((change task)\<lparr>tr_version := tr_version task + 1\<rparr>) (sb_tasks db)\<rparr>"
  using assms row_at_key [of tr_id]
  by (fastforce simp: close_session_def commit_session_def session_task_def bind_eq_Some_conv
      split: sum.splits option.splits dest!: owned_by_text_facts)

lemma close_step:
  assumes "close_session status remaining change actual actor i db = Inr (out, db')"
    and "sessions_inv db" and "open_session i db" and "status \<notin> {''RUNNING'', ''BLOCKED''}"
    and "\<And>task. tr_id (change task) = tr_id task"
    and "\<And>r task. r \<in> set (sb_sessions db) \<Longrightarrow> py_uuid i = Some (sn_id r) \<Longrightarrow> session_task r db = Inr task
        \<Longrightarrow> actual task + tr_remaining_base (change task) = tr_remaining_base task"
  shows "sessions_inv db' \<and> worked t db' + left_over t db' = worked t db + left_over t db"
proof -
  obtain r task where r: "r \<in> set (sb_sessions db)" "py_uuid i = Some (sn_id r)" "sn_task r = Some (tr_id task)"
      "row_at tr_id (tr_id task) (sb_tasks db) = Some task" "session_task r db = Inr task"
      and db': "db' = db\<lparr>sb_sessions := put_row sn_id (r\<lparr>sn_status := status, sn_actual_minutes := actual task\<rparr>) (sb_sessions db),
               sb_tasks := put_row tr_id ((change task)\<lparr>tr_version := tr_version task + 1\<rparr>) (sb_tasks db)\<rparr>"
    using close_sessionD [OF assms(1)] by blast
  let ?r = "r\<lparr>sn_status := status, sn_actual_minutes := actual task\<rparr>" and ?t = "(change task)\<lparr>tr_version := tr_version task + 1\<rparr>"
  have "sn_status r \<in> {''RUNNING'', ''BLOCKED''}" using assms(3) r(1,2) by (simp add: open_session_def)
  then have zero: "sn_actual_minutes r = 0" using assms(2) r(1) unfolding sessions_inv_def by blast
  have worked: "worked t db' = worked t db - worked_on t r + worked_on t ?r"
    using sum_put_row [of sn_id "sb_sessions db" r ?r "worked_on t"] assms(2) r(1) by (simp add: worked_def db' sessions_inv_def)
  have left_over: "left_over t db' = left_over t db - (if t = tr_id task then actual task else 0)"
    using tasks.get_put [of t ?t "sb_tasks db"] r(4) assms(5) [of task] assms(6) [OF r(1,2,5)] by (auto simp: left_over_def db')
  have "sessions_inv db'"
    using assms(2,4) by (auto simp: sessions_inv_def db' dest!: put_row_set)
  then show ?thesis using worked left_over r(3) zero by (auto simp: worked_on_def)
qed

lemma block_step:
  assumes "block_session actor i reason db = Inr (out, db')" and "sessions_inv db" and "open_session i db"
  shows "sessions_inv db' \<and> worked t db' + left_over t db' = worked t db + left_over t db"
proof -
  obtain r where r: "r \<in> set (sb_sessions db)" "py_uuid i = Some (sn_id r)"
      and db': "db' = db\<lparr>sb_sessions := put_row sn_id (r\<lparr>sn_status := ''BLOCKED'', sn_blocked_reason := Some reason\<rparr>) (sb_sessions db)\<rparr>"
    using assms(1) by (auto simp: block_session_def split: sum.splits dest!: owned_by_text_facts)
  let ?r = "r\<lparr>sn_status := ''BLOCKED'', sn_blocked_reason := Some reason\<rparr>"
  have "sn_status r \<in> {''RUNNING'', ''BLOCKED''}" using assms(3) r by (simp add: open_session_def)
  then have zero: "sn_actual_minutes r = 0" using assms(2) r(1) unfolding sessions_inv_def by blast
  have "worked t db' = worked t db"
    using sum_put_row [of sn_id "sb_sessions db" r ?r "worked_on t"] assms(2) r(1) by (simp add: worked_def db' sessions_inv_def worked_on_def)
  moreover have "sessions_inv db'"
    using assms(2) zero by (auto simp: sessions_inv_def db' dest!: put_row_set)
  ultimately show ?thesis by (simp add: left_over_def db')
qed

lemma start_step:
  assumes "start_session actor task new_id now db = Inr (out, db')" and "sessions_inv db" and "new_id \<notin> sn_id ` set (sb_sessions db)"
  shows "sessions_inv db' \<and> worked t db' + left_over t db' = worked t db + left_over t db"
  using assms by (auto simp: start_session_def sessions_inv_def worked_def worked_on_def left_over_def split: sum.splits)

lemma careful_step:
  assumes "careful e db" and "sessions_inv db"
  shows "sessions_inv (session_step e db)
    \<and> worked t (session_step e db) + left_over t (session_step e db) = worked t db + left_over t db"
proof (cases e)
  case (Start_Session actor task new_id now)
  then show ?thesis using assms start_step [of actor task new_id now db _ _ t]
    by (auto simp: committed_def split: sum.splits)
next
  case (Partial_Complete actor i remaining)
  have "sessions_inv db' \<and> worked t db' + left_over t db' = worked t db + left_over t db"
    if "partial_complete actor i remaining db = Inr (out, db')" for out db'
    by (rule close_step [OF that [unfolded partial_complete_def]]) (use assms Partial_Complete in auto)
  then show ?thesis using assms(2) Partial_Complete by (auto simp: committed_def split: sum.splits)
next
  case (Complete_Session actor i)
  have "sessions_inv db' \<and> worked t db' + left_over t db' = worked t db + left_over t db"
    if "complete_session actor i db = Inr (out, db')" for out db'
    by (rule close_step [OF that [unfolded complete_session_def]]) (use assms Complete_Session in auto)
  then show ?thesis using assms(2) Complete_Session by (auto simp: committed_def split: sum.splits)
next
  case (Block_Session actor i reason)
  then show ?thesis using assms block_step [of actor i reason db _ _ t]
    by (auto simp: committed_def split: sum.splits)
qed

lemma careful_steps:
  "careful_history es db \<Longrightarrow> sessions_inv db \<Longrightarrow>
     worked t (session_steps es db) + left_over t (session_steps es db) = worked t db + left_over t db"
proof (induction es arbitrary: db)
  case (Cons e es)
  then show ?case using careful_step [of e db t] by simp
qed simp


section \<open>Examples\<close>

definition a_worker_actor :: current_actor where
  "a_worker_actor = \<lparr>ac_user = 1, ac_workspace = 3, ac_session = 9\<rparr>"

definition a_session :: "uuid \<Rightarrow> session_row" where
  "a_session i = \<lparr>sn_id = i, sn_workspace = 3, sn_task = Some 2, sn_status = ''RUNNING'', sn_actual_minutes = 0,
     sn_blocked_reason = None, sn_started_at = 0\<rparr>"

definition a_session_db :: session_db where
  "a_session_db = \<lparr>sb_sessions = [a_session 5, a_session 6], sb_tasks = [a_task]\<rparr>"

lemmas session_unfolds = a_session_db_def a_session_def a_worker_actor_def committed_def partial_complete_def complete_session_def
  close_session_def commit_session_def session_task_def owned_by_text_def owned_row_def row_at_def put_row_def task_check_def
  task_row_valid_def py_uuid_str

text \<open>Completing the same session twice erases the 60 minutes that the first call recorded.\<close>

lemma completed_twice:
  "let once = session_step (Complete_Session a_worker_actor (uuid_str 5)) a_session_db;
       twice = session_step (Complete_Session a_worker_actor (uuid_str 5)) once
   in worked 2 once = 60 \<and> worked 2 twice = 0 \<and> left_over 2 twice = 0"
  by (simp add: session_unfolds a_task_def worked_def worked_on_def left_over_def)

text \<open>A partial result may leave less than nothing; the table accepts it.\<close>

lemma negative_remaining_accepted:
  "left_over 2 (session_step (Partial_Complete a_worker_actor (uuid_str 5) (- 5)) a_session_db) = - 5"
  by (simp add: session_unfolds a_task_def left_over_def)

section \<open>Properties\<close>

text \<open>
  C26. Minutes are accounted for: in any history of starting, completing in part or whole and
  blocking sessions, refused calls included, in which a session is closed or blocked only while it
  is open and no partial result leaves more than there was, the minutes recorded on a task and the
  minutes it has left always add up to the same sum.
\<close>

theorem session_minutes_conserved:
  assumes "careful_history events db" and "sessions_inv db"
  shows "worked t (session_steps events db) + left_over t (session_steps events db) = worked t db + left_over t db"
  using assms by (rule careful_steps)

definition a_day :: "session_event list" where
  "a_day = [Partial_Complete a_worker_actor (uuid_str 5) 40, Complete_Session a_worker_actor (uuid_str 6)]"

lemma session_minutes_conserved_witness:
  "worked 2 (session_steps a_day a_session_db) + left_over 2 (session_steps a_day a_session_db) = 60"
proof -
  have "careful_history a_day a_session_db"
    by (simp add: a_day_def session_unfolds a_task_def open_session_def)
  moreover have "sessions_inv a_session_db" by (simp add: sessions_inv_def a_session_db_def a_session_def)
  moreover have "worked 2 a_session_db + left_over 2 a_session_db = 60"
    by (simp add: worked_def worked_on_def left_over_def a_session_db_def a_session_def row_at_def a_task_def)
  ultimately show ?thesis using session_minutes_conserved [of a_day a_session_db 2] by simp
qed

text \<open>
  The estimation factor is bounded and ordered: for every observed ratio and number of samples
  it lies between 0.75 and 2.5, it is 1 for at most two samples and for the neutral ratio, and a
  larger ratio never gives a smaller factor, rounding of the doubles included.
\<close>

theorem blended_factor_ordered:
  "MIN_BACKOFF_FACTOR \<le> profile_blend r n \<and> profile_blend r n \<le> MAX_BACKOFF_FACTOR \<and> profile_blend 1 n = 1
   \<and> profile_blend r (min n 2) = 1 \<and> profile_blend (min r r') n \<le> profile_blend (max r r') n"
  using blended_bounds blended_neutral blended_mono [of "min r r'" "max r r'" n] by simp

end
