(* ===== verification/Calendar_Sync.thy ===== *)
theory Calendar_Sync
  imports Versioned_Rows
begin

text \<open>
  The snapshots of the provider's calendar (\<open>calendar/sync.py\<close>, \<open>calendar/models.py\<close>): typing of
  events by availability, import, the provider's updates and deletions, and the active events. A
  call returns the table it commits. The results: one snapshot per event, which agrees with the
  last import; a deletion is a tombstone that no later call revives.
\<close>

section \<open>Events and snapshots\<close>

record provider_event =
  pe_external_id :: string
  pe_title :: string
  pe_start :: instant
  pe_end :: instant
  pe_all_day :: bool
  pe_blocks_time :: bool
  pe_status :: string
  pe_managed :: bool
  pe_transparency :: string
  pe_provider_version :: "int option"

record snapshot_row =
  ss_id :: uuid
  ss_workspace :: uuid
  ss_external_id :: string
  ss_title :: string
  ss_start :: instant
  ss_end :: instant
  ss_all_day :: bool
  ss_blocks_capacity :: bool
  ss_availability :: string
  ss_provider_status :: string
  ss_managed :: bool
  ss_reconcile :: bool
  ss_restore :: bool
  ss_sync_status :: string
  ss_deleted_at :: "instant option"
  ss_provider_version :: "int option"
  ss_updated_at :: "instant option"

definition AVAILABILITY_TYPES :: "(string \<times> bool) list" where
  "AVAILABILITY_TYPES = [(''FIXED_BUSY'', True), (''TENTATIVE'', False), (''ALL_DAY_INFORMATION'', False), (''MOVABLE_COMMITMENT'', True)]"

definition classify_event :: "provider_event \<Rightarrow> string" where
  "classify_event e =
     (if pe_managed e then ''MOVABLE_COMMITMENT''
      else if pe_all_day e \<and> \<not> pe_blocks_time e then ''ALL_DAY_INFORMATION''
      else if pe_status e = ''tentative'' then ''TENTATIVE''
      else ''FIXED_BUSY'')"

definition blocks :: "string \<Rightarrow> bool" where
  "blocks availability \<longleftrightarrow> map_of AVAILABILITY_TYPES availability = Some True"

text \<open>\<open>String(200)\<close>, \<open>String(200)\<close> and \<open>String(20)\<close>.\<close>

definition snapshot_check :: "snapshot_row \<Rightarrow> api_exn option" where
  "snapshot_check r = (if 200 < length (ss_external_id r) \<or> 200 < length (ss_title r) \<or> 20 < length (ss_provider_status r)
     then Some DataError else None)"

definition commit_snapshot :: "snapshot_row \<Rightarrow> snapshot_row list \<Rightarrow> (snapshot_row \<times> snapshot_row list) api" where
  "commit_snapshot r rows = (case snapshot_check r of Some e \<Rightarrow> Inl e | None \<Rightarrow> Inr (r, put_row ss_id r rows))"

definition matching :: "uuid \<Rightarrow> string \<Rightarrow> snapshot_row list \<Rightarrow> snapshot_row list" where
  "matching w i rows = filter (\<lambda>r. ss_workspace r = w \<and> ss_external_id r = i) rows"

text \<open>\<open>scalar_one_or_none\<close>: more than one row raises, here as a \<open>ValueError\<close>.\<close>

definition one_or_none :: "'r list \<Rightarrow> 'r option api" where
  "one_or_none rows = (case rows of [] \<Rightarrow> Inr None | [r] \<Rightarrow> Inr (Some r) | _ \<Rightarrow> Inl (ServiceError (ValueError ''MultipleResultsFound'')))"

section \<open>The operations\<close>

definition snapshot_of :: "uuid \<Rightarrow> uuid \<Rightarrow> provider_event \<Rightarrow> snapshot_row" where
  "snapshot_of new_id w e = \<lparr>ss_id = new_id, ss_workspace = w, ss_external_id = pe_external_id e, ss_title = pe_title e,
     ss_start = pe_start e, ss_end = pe_end e, ss_all_day = pe_all_day e, ss_blocks_capacity = blocks (classify_event e),
     ss_availability = classify_event e, ss_provider_status = pe_status e, ss_managed = pe_managed e, ss_reconcile = False,
     ss_restore = False, ss_sync_status = ''SYNCED'', ss_deleted_at = None, ss_provider_version = pe_provider_version e,
     ss_updated_at = None\<rparr>"

definition refreshed :: "provider_event \<Rightarrow> instant \<Rightarrow> snapshot_row \<Rightarrow> snapshot_row" where
  "refreshed e now r = r\<lparr>ss_title := pe_title e, ss_start := pe_start e, ss_end := pe_end e, ss_all_day := pe_all_day e,
     ss_availability := classify_event e, ss_blocks_capacity := blocks (classify_event e), ss_provider_status := pe_status e,
     ss_updated_at := Some now\<rparr>"

definition import_event :: "string \<Rightarrow> provider_event \<Rightarrow> uuid \<Rightarrow> instant \<Rightarrow> snapshot_row list \<Rightarrow> (snapshot_row \<times> snapshot_row list) api" where
  "import_event workspace_id e new_id now rows = (case py_uuid workspace_id of
     None \<Rightarrow> Inl (ServiceError bad_uuid)
   | Some w \<Rightarrow> (case one_or_none (matching w (pe_external_id e) rows) of
       Inl x \<Rightarrow> Inl x
     | Inr None \<Rightarrow> commit_snapshot (snapshot_of new_id w e) (rows @ [snapshot_of new_id w e])
     | Inr (Some r) \<Rightarrow> commit_snapshot (refreshed e now r) rows))"

definition moved :: "provider_event \<Rightarrow> snapshot_row \<Rightarrow> bool" where
  "moved e r \<longleftrightarrow> ss_start r \<noteq> pe_start e \<or> ss_end r \<noteq> pe_end e"

definition provider_updated :: "provider_event \<Rightarrow> instant \<Rightarrow> snapshot_row \<Rightarrow> snapshot_row" where
  "provider_updated e now r =
     (let r1 = r\<lparr>ss_title := pe_title e\<rparr>;
          r2 = (if moved e r then r1\<lparr>ss_start := pe_start e, ss_end := pe_end e, ss_reconcile := True, ss_restore := False\<rparr> else r1);
          r3 = (if pe_managed e \<and> \<not> ss_managed r2 then r2\<lparr>ss_managed := True\<rparr> else r2)
      in r3\<lparr>ss_updated_at := Some now\<rparr>)"

definition apply_provider_update :: "string \<Rightarrow> provider_event \<Rightarrow> instant \<Rightarrow> snapshot_row list \<Rightarrow> (snapshot_row \<times> snapshot_row list) api" where
  "apply_provider_update workspace_id e now rows = (case py_uuid workspace_id of
     None \<Rightarrow> Inl (ServiceError bad_uuid)
   | Some w \<Rightarrow> (case one_or_none (matching w (pe_external_id e) rows) of
       Inl x \<Rightarrow> Inl x
     | Inr None \<Rightarrow> Inl NotFoundError
     | Inr (Some r) \<Rightarrow> commit_snapshot (provider_updated e now r) rows))"

definition apply_provider_deletion :: "string \<Rightarrow> string \<Rightarrow> instant \<Rightarrow> snapshot_row list \<Rightarrow> (snapshot_row \<times> snapshot_row list) api" where
  "apply_provider_deletion workspace_id external_id now rows = (case py_uuid workspace_id of
     None \<Rightarrow> Inl (ServiceError bad_uuid)
   | Some w \<Rightarrow> (case one_or_none (matching w external_id rows) of
       Inl x \<Rightarrow> Inl x
     | Inr None \<Rightarrow> Inl NotFoundError
     | Inr (Some r) \<Rightarrow> commit_snapshot (r\<lparr>ss_sync_status := ''EXTERNALLY_DELETED'', ss_deleted_at := Some now\<rparr>) rows))"

definition active_events :: "string \<Rightarrow> snapshot_row list \<Rightarrow> snapshot_row list api" where
  "active_events workspace_id rows = (case py_uuid workspace_id of
     None \<Rightarrow> Inl (ServiceError bad_uuid)
   | Some w \<Rightarrow> Inr (filter (\<lambda>r. ss_workspace r = w \<and> ss_sync_status r \<noteq> ''EXTERNALLY_DELETED'') rows))"

section \<open>Histories\<close>

datatype snapshot_event =
    Import string provider_event uuid instant
  | Provider_Update string provider_event instant
  | Provider_Deletion string string instant

fun snapshot_call :: "snapshot_event \<Rightarrow> snapshot_row list \<Rightarrow> (snapshot_row \<times> snapshot_row list) api" where
  "snapshot_call (Import w e new_id now) rows = import_event w e new_id now rows"
| "snapshot_call (Provider_Update w e now) rows = apply_provider_update w e now rows"
| "snapshot_call (Provider_Deletion w i now) rows = apply_provider_deletion w i now rows"

definition snapshot_step :: "snapshot_event \<Rightarrow> snapshot_row list \<Rightarrow> snapshot_row list" where
  "snapshot_step e rows = (case snapshot_call e rows of Inl _ \<Rightarrow> rows | Inr (_, rows') \<Rightarrow> rows')"

fun snapshot_steps :: "snapshot_event list \<Rightarrow> snapshot_row list \<Rightarrow> snapshot_row list" where
  "snapshot_steps [] rows = rows"
| "snapshot_steps (e # es) rows = snapshot_steps es (snapshot_step e rows)"

text \<open>The identifiers of new rows are fresh, as \<open>uuid4\<close> makes them.\<close>

fun fresh_imports :: "snapshot_event list \<Rightarrow> snapshot_row list \<Rightarrow> bool" where
  "fresh_imports [] rows = True"
| "fresh_imports (e # es) rows =
     ((case e of Import w x new_id now \<Rightarrow> new_id \<notin> ss_id ` set rows | _ \<Rightarrow> True) \<and> fresh_imports es (snapshot_step e rows))"

definition identity :: "snapshot_row \<Rightarrow> uuid \<times> string" where
  "identity r = (ss_workspace r, ss_external_id r)"

definition row_ok :: "snapshot_row \<Rightarrow> bool" where
  "row_ok r \<longleftrightarrow> (ss_sync_status r = ''EXTERNALLY_DELETED'' \<longleftrightarrow> ss_deleted_at r \<noteq> None)
     \<and> ss_availability r \<in> set (map fst AVAILABILITY_TYPES) \<and> (ss_blocks_capacity r \<longleftrightarrow> blocks (ss_availability r))
     \<and> \<not> ss_restore r"

definition snapshots_inv :: "snapshot_row list \<Rightarrow> bool" where
  "snapshots_inv rows \<longleftrightarrow> distinct (map ss_id rows) \<and> distinct (map identity rows) \<and> (\<forall>r\<in>set rows. row_ok r)"

lemma classify_known: "classify_event e \<in> set (map fst AVAILABILITY_TYPES)"
  by (simp add: classify_event_def AVAILABILITY_TYPES_def)

lemma one_or_none_matching:
  "one_or_none (matching w i rows) = Inr None \<Longrightarrow> (w, i) \<notin> identity ` set rows"
  "one_or_none (matching w i rows) = Inr (Some r) \<Longrightarrow> r \<in> set rows \<and> identity r = (w, i)"
proof -
  assume "one_or_none (matching w i rows) = Inr None"
  then have "matching w i rows = []" by (simp add: one_or_none_def split: list.splits)
  then show "(w, i) \<notin> identity ` set rows" by (auto simp: matching_def filter_empty_conv identity_def)
next
  assume "one_or_none (matching w i rows) = Inr (Some r)"
  then have "matching w i rows = [r]" by (simp add: one_or_none_def split: list.splits)
  then have "r \<in> set (matching w i rows)" by simp
  then show "r \<in> set rows \<and> identity r = (w, i)" by (simp add: matching_def identity_def)
qed

text \<open>The two ways a call changes the table.\<close>

lemma snapshot_callD:
  assumes "snapshot_call e rows = Inr (r', rows')"
  shows "(\<exists>w x i now. e = Import w x i now \<and> ss_id r' = i \<and> identity r' \<notin> identity ` set rows
            \<and> rows' = put_row ss_id r' (rows @ [r']) \<and> row_ok r')
       \<or> (\<exists>r\<in>set rows. ss_id r' = ss_id r \<and> identity r' = identity r \<and> rows' = put_row ss_id r' rows \<and> (row_ok r \<longrightarrow> row_ok r')
            \<and> (ss_sync_status r = ''EXTERNALLY_DELETED'' \<longrightarrow> ss_sync_status r' = ''EXTERNALLY_DELETED''))"
proof (cases e)
  case (Import w x i now)
  obtain ws where ws: "py_uuid w = Some ws" using assms Import by (cases "py_uuid w") (auto simp: import_event_def)
  consider "one_or_none (matching ws (pe_external_id x) rows) = Inr None" "r' = snapshot_of i ws x" "rows' = put_row ss_id r' (rows @ [r'])"
    | r where "one_or_none (matching ws (pe_external_id x) rows) = Inr (Some r)" "r' = refreshed x now r" "rows' = put_row ss_id r' rows"
    using assms Import ws by (auto simp: import_event_def commit_snapshot_def split: sum.splits option.splits)
  then show ?thesis
  proof cases
    case 1
    then show ?thesis using Import one_or_none_matching(1) [OF 1(1)] classify_known [of x]
      by (auto simp: snapshot_of_def identity_def row_ok_def)
  next
    case 2
    then show ?thesis using one_or_none_matching(2) [OF 2(1)] classify_known [of x]
      by (auto simp: refreshed_def identity_def row_ok_def)
  qed
next
  case (Provider_Update w x now)
  then obtain ws r where r: "one_or_none (matching ws (pe_external_id x) rows) = Inr (Some r)" "r' = provider_updated x now r" "rows' = put_row ss_id r' rows"
    using assms by (auto simp: apply_provider_update_def commit_snapshot_def split: sum.splits option.splits)
  then show ?thesis using one_or_none_matching(2) [OF r(1)] by (auto simp: provider_updated_def identity_def row_ok_def Let_def)
next
  case (Provider_Deletion w i now)
  then obtain ws r where r: "one_or_none (matching ws i rows) = Inr (Some r)"
      "r' = r\<lparr>ss_sync_status := ''EXTERNALLY_DELETED'', ss_deleted_at := Some now\<rparr>" "rows' = put_row ss_id r' rows"
    using assms by (auto simp: apply_provider_deletion_def commit_snapshot_def split: sum.splits option.splits)
  then show ?thesis using one_or_none_matching(2) [OF r(1)] by (auto simp: identity_def row_ok_def)
qed


lemma put_new: "ss_id r \<notin> ss_id ` set rows \<Longrightarrow> put_row ss_id r (rows @ [r]) = rows @ [r]"
proof -
  assume new: "ss_id r \<notin> ss_id ` set rows"
  have "ss_id x \<noteq> ss_id r" if "x \<in> set rows" for x using new that by (metis image_eqI)
  then show ?thesis by (simp add: put_row_def map_idI)
qed

lemma identities_kept:
  assumes "r \<in> set rows" and "ss_id r' = ss_id r" and "identity r' = identity r" and "distinct (map ss_id rows)"
  shows "map identity (put_row ss_id r' rows) = map identity rows"
proof -
  have "identity (if ss_id x = ss_id r' then r' else x) = identity x" if "x \<in> set rows" for x
    using that assms by (metis distinct_map inj_onD)
  then show ?thesis by (simp add: put_row_def)
qed

definition deleted_in :: "uuid \<times> string \<Rightarrow> snapshot_row list \<Rightarrow> bool" where
  "deleted_in k rows \<longleftrightarrow> (\<exists>r\<in>set rows. identity r = k \<and> ss_sync_status r = ''EXTERNALLY_DELETED'')"

lemma snapshot_step_inv:
  assumes "snapshots_inv rows" and "fresh_imports (e # es) rows"
  shows "snapshots_inv (snapshot_step e rows)" and "deleted_in k rows \<Longrightarrow> deleted_in k (snapshot_step e rows)"
proof -
  have "snapshots_inv (snapshot_step e rows) \<and> (deleted_in k rows \<longrightarrow> deleted_in k (snapshot_step e rows))"
  proof (cases "snapshot_call e rows")
    case (Inl x)
    then show ?thesis using assms(1) by (simp add: snapshot_step_def)
  next
    case (Inr result)
    obtain r' rows' where "result = (r', rows')" by (cases result)
    with Inr have call: "snapshot_call e rows = Inr (r', rows')" by simp
    then have step: "snapshot_step e rows = rows'" by (simp add: snapshot_step_def)
    from snapshot_callD [OF call] show ?thesis
    proof (elim disjE exE bexE conjE)
      fix w x i now
      assume e: "e = Import w x i now" "ss_id r' = i" and new: "identity r' \<notin> identity ` set rows"
        and rows': "rows' = put_row ss_id r' (rows @ [r'])" and ok: "row_ok r'"
      have fresh: "ss_id r' \<notin> ss_id ` set rows" using assms(2) e by simp
      then have "rows' = rows @ [r']" using put_new rows' by simp
      then show ?thesis using assms(1) step ok new fresh by (auto simp: snapshots_inv_def deleted_in_def)
    next
      fix r
      assume r: "r \<in> set rows" and same: "ss_id r' = ss_id r" "identity r' = identity r" and rows': "rows' = put_row ss_id r' rows"
        and ok: "row_ok r \<longrightarrow> row_ok r'"
        and gone: "ss_sync_status r = ''EXTERNALLY_DELETED'' \<longrightarrow> ss_sync_status r' = ''EXTERNALLY_DELETED''"
      have dist: "distinct (map ss_id rows)" using assms(1) by (simp add: snapshots_inv_def)
      have "snapshots_inv rows'"
        using assms(1) r ok identities_kept [OF r same dist] by (auto simp: snapshots_inv_def rows' dest!: put_row_set)
      moreover have "deleted_in k rows'" if del: "deleted_in k rows"
      proof -
        obtain d where d: "d \<in> set rows" "identity d = k" "ss_sync_status d = ''EXTERNALLY_DELETED''"
          using del by (auto simp: deleted_in_def)
        show ?thesis
        proof (cases "ss_id d = ss_id r")
          case True
          then have "d = r" using d(1) r dist by (metis distinct_map inj_onD)
          moreover have "r' \<in> set rows'" using r same by (force simp: rows' put_row_def)
          ultimately show ?thesis using d gone same by (auto simp: deleted_in_def)
        next
          case False
          then have "d \<in> set rows'" using d(1) same by (force simp: rows' put_row_def)
          then show ?thesis using d by (auto simp: deleted_in_def)
        qed
      qed
      ultimately show ?thesis using step by simp
    qed
  qed
  then show "snapshots_inv (snapshot_step e rows)" and "deleted_in k rows \<Longrightarrow> deleted_in k (snapshot_step e rows)" by simp_all
qed

lemma snapshot_steps_inv:
  "snapshots_inv rows \<Longrightarrow> fresh_imports es rows \<Longrightarrow> snapshots_inv (snapshot_steps es rows) \<and> (deleted_in k rows \<longrightarrow> deleted_in k (snapshot_steps es rows))"
proof (induction es arbitrary: rows)
  case (Cons e es)
  have "fresh_imports es (snapshot_step e rows)" using Cons.prems(2) by simp
  then show ?case using snapshot_step_inv(1) [OF Cons.prems] snapshot_step_inv(2) [OF Cons.prems, of k] Cons.IH by simp
qed simp

lemma deleted_not_active:
  assumes "snapshots_inv rows" and "deleted_in (w, i) rows" and "py_uuid text = Some w"
  shows "\<exists>events. active_events text rows = Inr events \<and> (\<forall>r\<in>set events. ss_external_id r \<noteq> i)"
proof -
  obtain d where d: "d \<in> set rows" "identity d = (w, i)" "ss_sync_status d = ''EXTERNALLY_DELETED''"
    using assms(2) by (auto simp: deleted_in_def)
  have "ss_sync_status r = ''EXTERNALLY_DELETED''" if "r \<in> set rows" and "identity r = (w, i)" for r
  proof -
    have "r = d" using that d assms(1) by (metis snapshots_inv_def distinct_map inj_onD)
    then show ?thesis using d by simp
  qed
  then show ?thesis using assms(3) by (auto simp: active_events_def identity_def)
qed

section \<open>Properties\<close>

text \<open>
  C25. The provider's calendar is mirrored once and honestly: in every history of imports, updates
  and deletions, failed calls included, each workspace has at most one snapshot of an event, its
  capacity flag is the one of its availability type, an outbound restore is never requested, and it
  carries a deletion time exactly when it is a tombstone. An event deleted at some point is
  not among the active events at any later one.
\<close>

theorem snapshots_mirrored_once:
  assumes "fresh_imports (before @ after) []"
  shows "snapshots_inv (snapshot_steps (before @ after) [])
    \<and> (deleted_in (w, i) (snapshot_steps before []) \<longrightarrow>
         (\<exists>events. active_events (uuid_str w) (snapshot_steps (before @ after) []) = Inr events \<and> (\<forall>r\<in>set events. ss_external_id r \<noteq> i)))"
proof -
  have app: "snapshot_steps (xs @ ys) rows = snapshot_steps ys (snapshot_steps xs rows)" for xs ys rows
    by (induction xs arbitrary: rows) auto
  have fresh: "fresh_imports (xs @ ys) rows \<longleftrightarrow> fresh_imports xs rows \<and> fresh_imports ys (snapshot_steps xs rows)" for xs ys rows
    by (induction xs arbitrary: rows) auto
  have "snapshots_inv []" by (simp add: snapshots_inv_def)
  then have b: "snapshots_inv (snapshot_steps before [])" using assms snapshot_steps_inv fresh by blast
  have "fresh_imports after (snapshot_steps before [])" using assms fresh by blast
  from snapshot_steps_inv [OF b this, of "(w, i)"] show ?thesis
    using deleted_not_active [of _ w i "uuid_str w"] py_uuid_str [of w] by (simp add: app)
qed

definition a_provider_event :: provider_event where
  "a_provider_event = \<lparr>pe_external_id = ''ev'', pe_title = ''Call'', pe_start = 0, pe_end = 10, pe_all_day = False, pe_blocks_time = True,
     pe_status = ''confirmed'', pe_managed = False, pe_transparency = ''opaque'', pe_provider_version = None\<rparr>"

lemma snapshots_mirrored_once_witness:
  "\<exists>events. active_events (uuid_str 3) (snapshot_steps ([Import (uuid_str 3) a_provider_event 1 5, Provider_Deletion (uuid_str 3) ''ev'' 6]
       @ [Import (uuid_str 3) a_provider_event 2 7]) []) = Inr events \<and> \<not> list_ex (\<lambda>r. ss_external_id r = ''ev'') events"
proof -
  let ?b = "[Import (uuid_str 3) a_provider_event 1 5, Provider_Deletion (uuid_str 3) ''ev'' 6]"
  note unfolds = snapshot_step_def import_event_def apply_provider_deletion_def py_uuid_str matching_def one_or_none_def
    commit_snapshot_def snapshot_check_def snapshot_of_def refreshed_def put_row_def a_provider_event_def classify_event_def
  have "fresh_imports (?b @ [Import (uuid_str 3) a_provider_event 2 7]) []" by (simp add: unfolds)
  moreover have "deleted_in (3, ''ev'') (snapshot_steps ?b [])" by (simp add: unfolds deleted_in_def identity_def)
  ultimately show ?thesis using snapshots_mirrored_once [of ?b "[Import (uuid_str 3) a_provider_event 2 7]" 3 "''ev''"] by (auto simp: list_ex_iff)
qed

end
