(* ===== verification/Focus_Blocks.thy ===== *)
theory Focus_Blocks
  imports Proposal_Service Outbox Versioned_Rows Utf8_Text
begin

text \<open>
  Focus blocks on the external calendar (\<open>calendar/focus_blocks.py\<close>): a proposal, its approval and
  its execution, which enqueues a command of the outbox when the bound version of the task still
  holds. The results: no command without an approval of its very payload, in any history; what
  an execution has checked; and two places where the service and its neighbours disagree.
\<close>

record focus_db = approval_db +
  fb_outbox :: outbox_db

record focus_outcome =
  fo_status :: string
  fo_reason :: "string option"
  fo_event_id :: "string option"
  fo_proposal_id :: string
  fo_level :: string

definition focus_result :: "string \<Rightarrow> string option \<Rightarrow> string option \<Rightarrow> proposal_row \<Rightarrow> focus_outcome" where
  "focus_result status reason event p = \<lparr>fo_status = status, fo_reason = reason, fo_event_id = event,
     fo_proposal_id = uuid_str (pm_id p), fo_level = pm_level p\<rparr>"

section \<open>Proposing\<close>

text \<open>\<open>json.dumps(payload, sort_keys=True, ensure_ascii=False)\<close>, with the default separators.\<close>

fun spaced_sep :: "string list \<Rightarrow> string" where
  "spaced_sep [] = []"
| "spaced_sep [x] = x"
| "spaced_sep (x # y # zs) = x @ '', '' @ spaced_sep (y # zs)"

fun spaced_dumps :: "json \<Rightarrow> string" where
  "spaced_dumps JNull = ''null''"
| "spaced_dumps (JBool b) = (if b then ''true'' else ''false'')"
| "spaced_dumps (JInt n) = int_str n"
| "spaced_dumps (JStr s) = json_string s"
| "spaced_dumps (JList xs) = ''['' @ spaced_sep (map spaced_dumps xs) @ '']''"
| "spaced_dumps (JObj kvs) = ''{'' @ spaced_sep (map snd (sort_key fst
     (map (\<lambda>(k, v). (k, json_string k @ '': '' @ spaced_dumps v)) kvs))) @ ''}''"

definition focus_payload_hash :: "(nat list \<Rightarrow> string) \<Rightarrow> (string \<times> json) list \<Rightarrow> string" where
  "focus_payload_hash sha256 payload = sha256 (utf8 (spaced_dumps (JObj payload)))"

text \<open>\<open>start_at\<close> is a UTC datetime.\<close>

definition focus_payload :: "string \<Rightarrow> int \<Rightarrow> instant \<Rightarrow> int \<Rightarrow> (string \<times> json) list" where
  "focus_payload task_id version start_at minutes = [(''task_id'', JStr task_id), (''target_version'', JInt version),
     (''start_at'', JStr (instant_iso start_at)), (''duration_minutes'', JInt minutes)]"

definition focus_proposal :: "(nat list \<Rightarrow> string) \<Rightarrow> uuid \<Rightarrow> current_actor \<Rightarrow> (string \<times> json) list \<Rightarrow> proposal_row" where
  "focus_proposal sha256 new_id actor payload = \<lparr>pm_id = new_id, pm_workspace = ac_workspace actor, pm_kind = ''FOCUS_BLOCK_CREATE'',
     pm_level = ''CONFIRM'', pm_payload_hash = focus_payload_hash sha256 payload, pm_targets = JList [JObj payload],
     pm_status = ''pending'', pm_version = 1, pm_milestone = None, pm_minutes = 0, pm_resolved_at = None\<rparr>"

definition propose :: "(nat list \<Rightarrow> string) \<Rightarrow> uuid \<Rightarrow> current_actor \<Rightarrow> string \<Rightarrow> int \<Rightarrow> instant \<Rightarrow> int \<Rightarrow> focus_db
    \<Rightarrow> (focus_outcome \<times> focus_db) api" where
  "propose sha256 new_id actor task_id version start_at minutes db =
     (let p = focus_proposal sha256 new_id actor (focus_payload task_id version start_at minutes)
      in if new_id \<in> set (map pm_id (db_proposals db)) then Inl IntegrityError
         else Inr (focus_result ''PENDING'' None None p, db\<lparr>db_proposals := db_proposals db @ [p]\<rparr>))"

section \<open>Approving\<close>

definition find_proposal :: "current_actor \<Rightarrow> string \<Rightarrow> focus_db \<Rightarrow> proposal_row api" where
  "find_proposal actor pid db = (case py_uuid pid of
     None \<Rightarrow> Inl (ServiceError bad_uuid)
   | Some i \<Rightarrow> (case owned_row pm_id pm_workspace (ac_workspace actor) i (db_proposals db) of
       None \<Rightarrow> Inl NotFoundError | Some p \<Rightarrow> Inr p))"

definition approve_focus :: "instant \<Rightarrow> uuid \<Rightarrow> current_actor \<Rightarrow> string \<Rightarrow> int \<Rightarrow> focus_db \<Rightarrow> (focus_outcome \<times> focus_db) api" where
  "approve_focus now approval_id actor pid version db = (case find_proposal actor pid db of
     Inl e \<Rightarrow> Inl e
   | Inr p \<Rightarrow>
       if pm_status p \<noteq> ''pending''
       then Inr (\<lparr>fo_status = ''SUPERSEDED'', fo_reason = Some ''ALREADY_RESOLVED'', fo_event_id = None, fo_proposal_id = [], fo_level = []\<rparr>, db)
       else Inr (focus_result ''APPROVED'' None None p,
         db\<lparr>db_proposals := put_row pm_id (p\<lparr>pm_status := ''approved'', pm_resolved_at := Some now\<rparr>) (db_proposals db),
            db_approvals := db_approvals db @ [record_decision approval_id actor p version ''APPROVE_FOCUS_BLOCK'' now]\<rparr>))"

section \<open>Executing\<close>

text \<open>\<open>str(value)\<close> where it can be a UUID's text, and the version a target is bound to.\<close>

definition uuid_of_json :: "json \<Rightarrow> uuid option" where
  "uuid_of_json v = (case v of JStr s \<Rightarrow> py_uuid s | JInt n \<Rightarrow> py_uuid (int_str n) | _ \<Rightarrow> None)"

definition bound_version :: "(string \<times> json) list \<Rightarrow> int res" where
  "bound_version target = (case map_of target ''target_version'' of
     Some (JInt n) \<Rightarrow> Inr n
   | Some (JBool b) \<Rightarrow> Inr (if b then 1 else 0)
   | Some (JStr s) \<Rightarrow> (case py_int10 s of None \<Rightarrow> Inl (ValueError ''invalid literal for int() with base 10'') | Some n \<Rightarrow> Inr n)
   | _ \<Rightarrow> Inr (-1))"

text \<open>\<open>targets_json[0]\<close>, which is an object.\<close>

definition first_target :: "proposal_row \<Rightarrow> (string \<times> json) list res" where
  "first_target p = (case pm_targets p of JList (JObj target # _) \<Rightarrow> Inr target | _ \<Rightarrow> Inl IndexError)"

definition focus_command :: "uuid \<Rightarrow> current_actor \<Rightarrow> string \<Rightarrow> (string \<times> json) list \<Rightarrow> external_command" where
  "focus_command operation actor pid target = \<lparr>xc_workspace = ac_workspace actor, xc_operation = operation,
     xc_key = ''focus-block:'' @ pid, xc_type = ''CREATE_FOCUS_BLOCK'', xc_payload = target\<rparr>"

record focus_ids =
  fi_operation :: uuid
  fi_event :: uuid
  fi_execution :: uuid

definition execute_approved :: "focus_ids \<Rightarrow> instant \<Rightarrow> current_actor \<Rightarrow> string \<Rightarrow> focus_db \<Rightarrow> (focus_outcome \<times> focus_db) api" where
  "execute_approved ids now actor pid db = (case find_proposal actor pid db of
     Inl e \<Rightarrow> Inl e
   | Inr p \<Rightarrow>
       if pm_status p \<noteq> ''approved'' then Inr (focus_result ''SUPERSEDED'' (Some ''NOT_APPROVED'') None p, db)
       else (case first_target p of
         Inl e \<Rightarrow> Inl (ServiceError e)
       | Inr target \<Rightarrow>
         (case map_of target ''task_id'' of
            None \<Rightarrow> Inl (ServiceError KeyError)
          | Some v \<Rightarrow>
         (case uuid_of_json v of
            None \<Rightarrow> Inl (ServiceError bad_uuid)
          | Some t \<Rightarrow>
         (case bound_version target of
            Inl e \<Rightarrow> Inl (ServiceError e)
          | Inr version \<Rightarrow>
             (let task = owned_row tr_id tr_workspace (ac_workspace actor) t (db_tasks db)
              in if task = None \<or> map_option tr_version task \<noteq> Some version
                 then Inr (focus_result ''SUPERSEDED'' (Some ''TARGET_VERSION_CHANGED'') None p,
                   db\<lparr>db_proposals := put_row pm_id (p\<lparr>pm_status := ''superseded'', pm_resolved_at := Some now\<rparr>) (db_proposals db)\<rparr>)
                 else (case enqueue_external_command (focus_command (fi_operation ids) actor pid target) (fi_event ids) (fi_execution ids) now (fb_outbox db) of
                         Inl e \<Rightarrow> Inl e
                       | Inr (record', outbox) \<Rightarrow>
                           Inr (focus_result ''APPROVED'' None (Some (uuid_str (ob_id record'))) p, db\<lparr>fb_outbox := outbox\<rparr>))))))))"

section \<open>What an execution has checked\<close>

lemma find_proposalD: "find_proposal actor pid db = Inr p \<Longrightarrow>
    p \<in> set (db_proposals db) \<and> py_uuid pid = Some (pm_id p) \<and> pm_workspace p = ac_workspace actor"
  by (auto simp: find_proposal_def split: option.splits dest!: owned_row_facts)

lemma enqueueD:
  assumes "enqueue_external_command command i x now ob = Inr (r, ob')"
  shows "ox_events ob' = ox_events ob @ [r] \<and> ob_id r = i \<and> ob_key r = xc_key command \<and> ob_command r = xc_type command
    \<and> ob_payload r = xc_payload command \<and> ob_workspace r = xc_workspace command \<and> ob_status r = ''pending''
    \<and> xc_key command \<notin> set (map ob_key (ox_events ob))"
  using assms by (auto simp: enqueue_external_command_def create_event_def apply_pending_def Let_def split: if_splits sum.splits)

lemma executeD:
  assumes "execute_approved ids now actor pid db = Inr (out, db')"
  shows "(db' = db \<and> fo_status out = ''SUPERSEDED'')
    \<or> (\<exists>p. find_proposal actor pid db = Inr p \<and> pm_status p = ''approved'' \<and> fo_status out = ''SUPERSEDED''
          \<and> db' = db\<lparr>db_proposals := put_row pm_id (p\<lparr>pm_status := ''superseded'', pm_resolved_at := Some now\<rparr>) (db_proposals db)\<rparr>)
    \<or> (\<exists>p target v t task r ob. find_proposal actor pid db = Inr p \<and> pm_status p = ''approved'' \<and> fo_status out = ''APPROVED''
          \<and> first_target p = Inr target \<and> map_of target ''task_id'' = Some v \<and> uuid_of_json v = Some t
          \<and> owned_row tr_id tr_workspace (ac_workspace actor) t (db_tasks db) = Some task \<and> bound_version target = Inr (tr_version task)
          \<and> enqueue_external_command (focus_command (fi_operation ids) actor pid target) (fi_event ids) (fi_execution ids) now (fb_outbox db) = Inr (r, ob)
          \<and> db' = db\<lparr>fb_outbox := ob\<rparr>)"
  using assms by (auto simp: execute_approved_def Let_def focus_result_def split: sum.splits if_splits option.splits)

section \<open>Histories\<close>

datatype focus_event =
    Propose "nat list \<Rightarrow> string" uuid current_actor string int instant int
  | Approve_Focus instant uuid current_actor string int
  | Execute focus_ids instant current_actor string

fun focus_call :: "focus_event \<Rightarrow> focus_db \<Rightarrow> (focus_outcome \<times> focus_db) api" where
  "focus_call (Propose sha256 new_id actor task version start_at minutes) db = propose sha256 new_id actor task version start_at minutes db"
| "focus_call (Approve_Focus now approval_id actor pid version) db = approve_focus now approval_id actor pid version db"
| "focus_call (Execute ids now actor pid) db = execute_approved ids now actor pid db"

definition focus_step :: "focus_event \<Rightarrow> focus_db \<Rightarrow> focus_db" where
  "focus_step e db = (case focus_call e db of Inl _ \<Rightarrow> db | Inr (_, db') \<Rightarrow> db')"

fun focus_steps :: "focus_event list \<Rightarrow> focus_db \<Rightarrow> focus_db" where
  "focus_steps [] db = db"
| "focus_steps (e # es) db = focus_steps es (focus_step e db)"

text \<open>A user of the workspace has approved these targets as a focus block.\<close>

definition consented :: "focus_db \<Rightarrow> uuid \<Rightarrow> json \<Rightarrow> bool" where
  "consented db w targets \<longleftrightarrow> (\<exists>a\<in>set (db_approvals db). av_action a = ''APPROVE_FOCUS_BLOCK'' \<and> av_workspace a = w \<and> av_targets a = targets)"

definition focus_inv :: "focus_db \<Rightarrow> bool" where
  "focus_inv db \<longleftrightarrow>
     (\<forall>p\<in>set (db_proposals db). pm_status p = ''approved'' \<longrightarrow> consented db (pm_workspace p) (pm_targets p))
     \<and> (\<forall>e\<in>set (ox_events (fb_outbox db)). ob_command e = ''CREATE_FOCUS_BLOCK''
          \<and> (\<exists>rest. consented db (ob_workspace e) (JList (JObj (ob_payload e) # rest))))
     \<and> distinct (map ob_key (ox_events (fb_outbox db)))"

lemma consented_more:
  "consented db w targets \<Longrightarrow> set (db_approvals db) \<subseteq> set (db_approvals db') \<Longrightarrow> consented db' w targets"
  by (auto simp: consented_def)

lemma propose_inv: "propose sha256 i actor task v s m db = Inr (out, db') \<Longrightarrow> focus_inv db \<Longrightarrow> focus_inv db'"
  by (auto simp: propose_def Let_def focus_inv_def consented_def focus_proposal_def split: if_splits)

lemma approve_focus_inv:
  assumes "approve_focus now i actor pid v db = Inr (out, db')" and "focus_inv db"
  shows "focus_inv db'"
proof -
  consider "db' = db"
    | p where "find_proposal actor pid db = Inr p"
      "db' = db\<lparr>db_proposals := put_row pm_id (p\<lparr>pm_status := ''approved'', pm_resolved_at := Some now\<rparr>) (db_proposals db),
            db_approvals := db_approvals db @ [record_decision i actor p v ''APPROVE_FOCUS_BLOCK'' now]\<rparr>"
    using assms(1) by (auto simp: approve_focus_def split: sum.splits if_splits)
  then show ?thesis
  proof cases
    case 1
    then show ?thesis using assms(2) by simp
  next
    case 2
    have w: "pm_workspace p = ac_workspace actor" using find_proposalD [OF 2(1)] by simp
    have own: "consented db' (pm_workspace p) (pm_targets p)"
      unfolding consented_def 2(2) by (simp add: record_decision_def w)
    have more: "consented db' w' targets" if "consented db w' targets" for w' targets
      using that by (rule consented_more) (auto simp: 2(2))
    have "consented db' (pm_workspace q) (pm_targets q)" if "q \<in> set (db_proposals db')" and "pm_status q = ''approved''" for q
    proof (cases "q \<in> set (db_proposals db)")
      case True
      then show ?thesis using that(2) assms(2) more by (auto simp: focus_inv_def)
    next
      case False
      then have "q = p\<lparr>pm_status := ''approved'', pm_resolved_at := Some now\<rparr>" using that(1) by (auto simp: 2(2) dest!: put_row_set)
      then show ?thesis using own by simp
    qed
    moreover have "fb_outbox db' = fb_outbox db" by (simp add: 2(2))
    ultimately show ?thesis using assms(2) more unfolding focus_inv_def by metis
  qed
qed

lemma execute_inv:
  assumes "execute_approved ids now actor pid db = Inr (out, db')" and "focus_inv db"
  shows "focus_inv db'"
  using executeD [OF assms(1)]
proof (elim disjE exE conjE)
  assume "db' = db"
  then show ?thesis using assms(2) by simp
next
  fix p
  assume "find_proposal actor pid db = Inr p"
    and db': "db' = db\<lparr>db_proposals := put_row pm_id (p\<lparr>pm_status := ''superseded'', pm_resolved_at := Some now\<rparr>) (db_proposals db)\<rparr>"
  show ?thesis using assms(2) by (auto simp: db' focus_inv_def consented_def dest!: put_row_set)
next
  fix p target v t task r ob
  assume p: "find_proposal actor pid db = Inr p" "pm_status p = ''approved''" and target: "first_target p = Inr target"
    and enq: "enqueue_external_command (focus_command (fi_operation ids) actor pid target) (fi_event ids) (fi_execution ids) now (fb_outbox db) = Inr (r, ob)"
    and db': "db' = db\<lparr>fb_outbox := ob\<rparr>"
  have row: "p \<in> set (db_proposals db)" "pm_workspace p = ac_workspace actor" using find_proposalD [OF p(1)] by auto
  then have "consented db (ac_workspace actor) (pm_targets p)" using assms(2) p(2) by (auto simp: focus_inv_def)
  moreover obtain rest where "pm_targets p = JList (JObj target # rest)"
    using target by (auto simp: first_target_def split: json.splits list.splits)
  ultimately have ok: "consented db (ac_workspace actor) (JList (JObj target # rest))" by simp
  show ?thesis using assms(2) enqueueD [OF enq] ok
    by (auto simp: db' focus_inv_def consented_def focus_command_def)
qed

lemma focus_step_inv: "focus_inv db \<Longrightarrow> focus_inv (focus_step e db)"
  by (cases e) (auto simp: focus_step_def split: sum.splits intro: propose_inv approve_focus_inv execute_inv)

lemma focus_steps_inv: "focus_inv db \<Longrightarrow> focus_inv (focus_steps es db)"
  by (induction es arbitrary: db) (auto simp: focus_step_inv)


section \<open>The hash of a focus proposal\<close>

lemma utf8_Cons: "(of_char c :: nat) < 128 \<Longrightarrow> utf8 (c # cs) = of_char c # utf8 cs"
  by (simp add: Let_def)

text \<open>The decision service hashes the list of targets, the proposal was hashed by its one target.\<close>

lemma focus_hash_differs:
  assumes "\<And>a b. sha256 a = sha256 b \<Longrightarrow> a = b"
  shows "\<not> hash_matches sha256 (focus_proposal sha256 i actor payload)"
proof
  assume "hash_matches sha256 (focus_proposal sha256 i actor payload)"
  then have "sha256 (utf8 (dumps (JList [JObj payload]))) = sha256 (utf8 (spaced_dumps (JObj payload)))"
    by (simp only: hash_matches_def canonical_targets_hash_def focus_proposal_def focus_payload_hash_def proposal_row.select_convs)
  then have "utf8 (dumps (JList [JObj payload])) = utf8 (spaced_dumps (JObj payload))" by (rule assms)
  moreover have "hd (utf8 (dumps (JList [JObj payload]))) = 91" "hd (utf8 (spaced_dumps (JObj payload))) = 123"
    by (simp_all add: Let_def)
  ultimately show False by simp
qed

definition unary_hash :: "nat list \<Rightarrow> string" where
  "unary_hash bytes = concat (map (\<lambda>n. replicate n CHR ''1'' @ ''0'') bytes)"

lemma replicate_marker: "replicate m CHR ''1'' @ CHR ''0'' # xs = replicate n CHR ''1'' @ CHR ''0'' # ys \<Longrightarrow> m = n \<and> xs = ys"
proof (induction m arbitrary: n)
  case 0
  then show ?case by (cases n) auto
next
  case (Suc m)
  then show ?case by (cases n) auto
qed

lemma unary_hash_inject: "unary_hash a = unary_hash b \<Longrightarrow> a = b"
proof (induction a arbitrary: b)
  case Nil
  then show ?case by (cases b) (auto simp: unary_hash_def)
next
  case (Cons n a)
  then obtain m b' where b: "b = m # b'" by (cases b) (auto simp: unary_hash_def)
  have "replicate n CHR ''1'' @ CHR ''0'' # unary_hash a = replicate m CHR ''1'' @ CHR ''0'' # unary_hash b'"
    using Cons.prems b by (simp add: unary_hash_def)
  then have "n = m \<and> unary_hash a = unary_hash b'" by (rule replicate_marker)
  then show ?case using Cons.IH [of b'] b by simp
qed

section \<open>A proposal, twice\<close>

definition a_focus_db :: focus_db where
  "a_focus_db = \<lparr>db_proposals = [], db_tasks = [a_task], db_approvals = [], db_audit = [],
     fb_outbox = \<lparr>ox_events = [], ox_executions = []\<rparr>\<rparr>"

definition some_ids :: "uuid \<Rightarrow> focus_ids" where
  "some_ids i = \<lparr>fi_operation = i, fi_event = i, fi_execution = i\<rparr>"

text \<open>
  The idempotency key is made of the text of the identifier as the caller spelled it: the dashed and
  the bare spelling of one approved proposal enqueue two commands.
\<close>

definition spelled_twice :: "focus_event list" where
  "spelled_twice = [Propose (\<lambda>b. []) 1 an_actor (uuid_str 2) 7 0 60, Approve_Focus 0 8 an_actor (uuid_str 1) 1,
     Execute (some_ids 20) 0 an_actor (uuid_str 1), Execute (some_ids 21) 0 an_actor (hex_of 1)]"

lemma hex_not_dashed: "hex_of u \<noteq> uuid_str u"
proof
  assume "hex_of u = uuid_str u"
  moreover have "CHR ''-'' \<notin> set (hex_of u)" using hex_of_plain [of _ u] plain_hex_not by blast
  moreover have "CHR ''-'' \<in> set (uuid_str u)" by (simp add: uuid_str_def Let_def)
  ultimately show False by simp
qed

lemmas focus_unfolds = focus_step_def propose_def approve_focus_def execute_approved_def find_proposal_def owned_row_def
  focus_proposal_def focus_payload_def focus_result_def py_uuid_str put_row_def record_decision_def first_target_def uuid_of_json_def
  bound_version_def enqueue_external_command_def create_event_def apply_pending_def focus_command_def some_ids_def an_actor_def
  a_task_def Let_def

lemma uuid_text_lengths: "length (uuid_str u) \<le> 40" "length (hex_of u) \<le> 40"
  by (simp_all add: uuid_str_def Let_def hex_of_def length_hex_digits)

lemma spelling_makes_two_commands:
  "map ob_key (ox_events (fb_outbox (focus_steps spelled_twice a_focus_db))) = [''focus-block:'' @ uuid_str 1, ''focus-block:'' @ hex_of 1]"
  using hex_not_dashed [of 1] uuid_text_lengths [of 1]
  by (simp add: spelled_twice_def a_focus_db_def focus_unfolds)

section \<open>Properties\<close>

text \<open>
  C20. No focus block without consent: in every history of proposing, approving and executing, in any
  order and with any arguments, refused calls included, every command in the outbox creates a focus
  block whose exact payload a user of its workspace has approved, and no two commands share an
  idempotency key. It starts from any tables without approved proposals and an empty outbox.
\<close>

theorem focus_commands_consented:
  assumes "\<forall>p\<in>set (db_proposals db). pm_status p \<noteq> ''approved''" and "ox_events (fb_outbox db) = []"
  shows "(\<forall>e\<in>set (ox_events (fb_outbox (focus_steps events db))). ob_command e = ''CREATE_FOCUS_BLOCK''
      \<and> (\<exists>rest. consented (focus_steps events db) (ob_workspace e) (JList (JObj (ob_payload e) # rest))))
    \<and> distinct (map ob_key (ox_events (fb_outbox (focus_steps events db))))"
proof -
  have "focus_inv db" using assms by (auto simp: focus_inv_def)
  then have "focus_inv (focus_steps events db)" by (rule focus_steps_inv)
  then show ?thesis by (simp add: focus_inv_def)
qed

lemma focus_commands_consented_witness:
  "\<exists>e\<in>set (ox_events (fb_outbox (focus_steps spelled_twice a_focus_db))). ob_command e = ''CREATE_FOCUS_BLOCK''"
proof -
  have "\<forall>p\<in>set (db_proposals a_focus_db). pm_status p \<noteq> ''approved''" "ox_events (fb_outbox a_focus_db) = []"
    by (simp_all add: a_focus_db_def)
  from focus_commands_consented [OF this, of spelled_twice]
  have "\<forall>e\<in>set (ox_events (fb_outbox (focus_steps spelled_twice a_focus_db))). ob_command e = ''CREATE_FOCUS_BLOCK''" by blast
  moreover have "ox_events (fb_outbox (focus_steps spelled_twice a_focus_db)) \<noteq> []"
    using spelling_makes_two_commands by (metis list.distinct(1) list.simps(8))
  ultimately show ?thesis by (metis list.set_intros(1) neq_Nil_conv)
qed

text \<open>
  A pending focus proposal can be neither rejected nor approved in the decision service: for a
  hash without collisions, both answer that the payload hash does not match and change nothing,
  whatever the actor's version, since the two services hash different texts of the same targets.
\<close>

theorem focus_proposal_undecidable:
  assumes "\<And>a b. sha256 a = sha256 b \<Longrightarrow> a = b"
    and "owned_proposal parse actor pid db = Some (focus_proposal sha256 i creator payload)"
  shows "reject sha256 parse now aid actor pid 1 db = Inr (outcome ''CONFLICT'' None (Some ''PAYLOAD_HASH_MISMATCH'') ''CONFIRM'', db)
    \<and> approve sha256 parse now aid actor pid 1 db = Inr (outcome ''CONFLICT'' None (Some ''PAYLOAD_HASH_MISMATCH'') ''CONFIRM'', db)"
proof -
  have "\<not> hash_matches sha256 (focus_proposal sha256 i creator payload)" by (rule focus_hash_differs) (fact assms(1))
  moreover have "pm_status (focus_proposal sha256 i creator payload) = ''pending''" "pm_version (focus_proposal sha256 i creator payload) = 1"
      "pm_level (focus_proposal sha256 i creator payload) = ''CONFIRM''"
    by (simp_all add: focus_proposal_def)
  ultimately show ?thesis using assms(2) by (simp add: reject_def approve_def decision_conflict_def)
qed

lemma focus_proposal_undecidable_witness:
  "reject unary_hash py_uuid 0 9 an_actor (uuid_str 1) 1 (some_tables\<lparr>db_proposals := [focus_proposal unary_hash 1 an_actor []]\<rparr>) =
     Inr (outcome ''CONFLICT'' None (Some ''PAYLOAD_HASH_MISMATCH'') ''CONFIRM'', some_tables\<lparr>db_proposals := [focus_proposal unary_hash 1 an_actor []]\<rparr>)"
proof -
  have "owned_proposal py_uuid an_actor (uuid_str 1) (some_tables\<lparr>db_proposals := [focus_proposal unary_hash 1 an_actor []]\<rparr>) =
      Some (focus_proposal unary_hash 1 an_actor [])"
    by (simp add: owned_proposal_def py_uuid_str owned_row_def focus_proposal_def an_actor_def)
  from focus_proposal_undecidable [OF unary_hash_inject this] show ?thesis by blast
qed

end
