(* ===== verification/Agent.thy ===== *)
theory Agent
  imports Versioned_Rows Canonical
begin

text \<open>
  The agent: classification of intents (\<open>agent/intent.py\<close>), the orchestrator with its rule-based
  risk review (\<open>agent/orchestrator.py\<close>), the append-only log of operation steps
  (\<open>agent/operations.py\<close>, \<open>agent/models.py\<close>) and its replay stream (\<open>agent/router.py\<close>). The
  markers are Korean, so a text is a list of code points here. The external executor is a
  parameter. The results: what an external action requires and in which order the steps come,
  that a reconnecting client misses nothing of a log written by one writer, and how two
  concurrent writers break that.
\<close>

section \<open>Intents\<close>

type_synonym text_points = "nat list"

text \<open>\<open>str.isspace\<close>, which \<open>str.strip\<close> removes at both ends.\<close>

definition space_point :: "nat \<Rightarrow> bool" where
  "space_point n \<longleftrightarrow> 9 \<le> n \<and> n \<le> 13 \<or> 28 \<le> n \<and> n \<le> 32 \<or> n = 133 \<or> n = 160 \<or> n = 5760 \<or> 8192 \<le> n \<and> n \<le> 8202
     \<or> n = 8232 \<or> n = 8233 \<or> n = 8239 \<or> n = 8287 \<or> n = 12288"

definition strip_points :: "text_points \<Rightarrow> text_points" where
  "strip_points t = rev (dropWhile space_point (rev (dropWhile space_point t)))"

definition QUESTION_MARKERS :: "text_points list" where
  "QUESTION_MARKERS = [[47952, 50556], [47924, 50631], [50508, 47140, 51480], [50620, 47560, 45208], [63]]"

definition REVIEW_MARKERS :: "text_points list" where
  "REVIEW_MARKERS = [[50612, 46504, 44620], [54616, 47732, 32, 51339, 51012, 44620], [44032, 45733, 54624, 44620],
     [44160, 53664, 54644], [48120, 47336, 45716, 32, 44172, 32, 45208, 51012, 44620]]"

definition COMMAND_MARKERS :: "text_points list" where
  "COMMAND_MARKERS = [[52628, 44032, 54644], [48120, 47364], [48320, 44221, 54644], [50756, 47308, 54644],
     [49884, 51089, 54644], [49325, 51228, 54644], [46321, 47197, 54644]]"

record intent_result =
  in_kind :: string
  in_may_mutate :: bool

definition classify_intent :: "text_points \<Rightarrow> intent_result" where
  "classify_intent t = (let normalized = strip_points t in
     if list_ex (\<lambda>m. contains m normalized) REVIEW_MARKERS then \<lparr>in_kind = ''REVIEW_REQUEST'', in_may_mutate = False\<rparr>
     else if list_ex (\<lambda>m. contains m normalized) COMMAND_MARKERS then \<lparr>in_kind = ''CHANGE_COMMAND'', in_may_mutate = True\<rparr>
     else if list_ex (\<lambda>m. contains m normalized) QUESTION_MARKERS then \<lparr>in_kind = ''QUESTION'', in_may_mutate = False\<rparr>
     else \<lparr>in_kind = ''AMBIGUOUS'', in_may_mutate = False\<rparr>)"

section \<open>The orchestrator\<close>

record step_event =
  sv_step :: string
  sv_status :: string

record operation_result =
  or_status :: string
  or_events :: "step_event list"
  or_mutated :: bool
  or_external :: bool
  or_level :: string
  or_message :: "string option"

record risk_review_decision =
  rv_level :: string
  rv_reasons :: "string list"

definition review :: "string \<Rightarrow> bool \<Rightarrow> risk_review_decision" where
  "review intent_kind has_external =
     (if has_external then \<lparr>rv_level = ''APPROVAL'', rv_reasons = [''EXTERNAL_ACTION'']\<rparr>
      else if intent_kind = ''CHANGE_COMMAND'' then \<lparr>rv_level = ''CONFIRM'', rv_reasons = [''MUTATION'']\<rparr>
      else \<lparr>rv_level = ''AUTO_OK'', rv_reasons = []\<rparr>)"

text \<open>What \<open>executor.execute(proposal_id)\<close> does: return an outcome, raise \<open>DomainRuleError\<close>, or raise something else.\<close>

datatype executor_answer = Outcome string | Domain_Rule string | Other_Exception

type_synonym external_executor = "string \<Rightarrow> executor_answer"

definition done_step :: "string \<Rightarrow> step_event" where
  "done_step name = \<lparr>sv_step = name, sv_status = ''SUCCEEDED''\<rparr>"

definition failed_result :: "step_event list \<Rightarrow> string \<Rightarrow> string \<Rightarrow> operation_result" where
  "failed_result events level message = \<lparr>or_status = ''FAILED'', or_events = events @ [\<lparr>sv_step = ''VERIFY'', sv_status = ''FAILED''\<rparr>],
     or_mutated = False, or_external = False, or_level = level, or_message = Some message\<rparr>"

text \<open>
  \<open>proposed\<close> says whether a non-empty external action is proposed. The second component of the
  result is the calls of the executor.
\<close>

definition agent_handle :: "external_executor option \<Rightarrow> text_points \<Rightarrow> bool \<Rightarrow> string option \<Rightarrow> operation_result \<times> string list" where
  "agent_handle executor t proposed approved =
     (let intent = classify_intent t;
          has_external = (approved \<noteq> None \<or> proposed);
          level = rv_level (review (in_kind intent) has_external);
          events = map done_step [''OBSERVE'', ''INTERPRET'', ''RETRIEVE'', ''PLAN''] @ [\<lparr>sv_step = ''CRITIQUE'', sv_status = level\<rparr>]
      in if \<not> (in_may_mutate intent \<or> has_external)
         then (\<lparr>or_status = ''SUCCEEDED'', or_events = events @ map done_step [''VERIFY'', ''EXPLAIN''], or_mutated = False,
                or_external = False, or_level = level, or_message = None\<rparr>, [])
         else (let events = events @ (if level \<noteq> ''AUTO_OK'' then [\<lparr>sv_step = ''AUTHORIZE'', sv_status = level\<rparr>] else []);
                   finish = (\<lambda>events executed. \<lparr>or_status = ''SUCCEEDED'', or_events = events @ [done_step ''EXPLAIN''],
                     or_mutated = in_may_mutate intent, or_external = executed, or_level = level, or_message = None\<rparr>)
               in if \<not> has_external then (finish events False, [])
                  else (let events = events @ [\<lparr>sv_step = ''ACT'', sv_status = ''ATTEMPTED''\<rparr>] in
                    case approved of
                      None \<Rightarrow> (\<lparr>or_status = ''SUCCEEDED'', or_events = events @ [\<lparr>sv_step = ''VERIFY'', sv_status = ''SKIPPED''\<rparr>],
                                or_mutated = False, or_external = False, or_level = level, or_message = None\<rparr>, [])
                    | Some proposal \<Rightarrow>
                        (case executor of
                           None \<Rightarrow> (failed_result events level ''EXTERNAL_EXECUTOR_UNAVAILABLE'', [])
                         | Some execute \<Rightarrow>
                             (case execute proposal of
                                Outcome outcome \<Rightarrow>
                                  if outcome = ''SUCCEEDED'' then (finish (events @ [done_step ''VERIFY'']) True, [proposal])
                                  else (failed_result events ''NONE'' ''EXTERNAL_EXECUTION_FAILED'', [proposal])
                              | Domain_Rule code \<Rightarrow> (failed_result events ''NONE'' code, [proposal])
                              | Other_Exception \<Rightarrow> (failed_result events ''NONE'' ''EXTERNAL_EXECUTION_FAILED'', [proposal]))))))"

section \<open>The log of an operation\<close>

definition OPERATION_STEPS :: "string list" where
  "OPERATION_STEPS = [''OBSERVE'', ''INTERPRET'', ''RETRIEVE'', ''PLAN'', ''CRITIQUE'', ''AUTHORIZE'', ''ACT'', ''VERIFY'', ''EXPLAIN'', ''LEARN'']"

record agent_operation =
  ao_id :: uuid
  ao_workspace :: uuid
  ao_user_text :: text_points
  ao_status :: string

record operation_step_event =
  oe_id :: uuid
  oe_operation :: uuid
  oe_step :: string
  oe_status :: string
  oe_payload :: "(string \<times> json) list"
  oe_sequence :: int

record agent_db =
  ag_operations :: "agent_operation list"
  ag_events :: "operation_step_event list"

record step_event_view =
  vw_step :: string
  vw_status :: string
  vw_sequence :: int

definition start_operation :: "uuid \<Rightarrow> current_actor \<Rightarrow> text_points \<Rightarrow> agent_db \<Rightarrow> (agent_operation \<times> agent_db) api" where
  "start_operation new_id actor user_text db =
     (let op = \<lparr>ao_id = new_id, ao_workspace = ac_workspace actor, ao_user_text = user_text, ao_status = ''RUNNING''\<rparr>
      in if 2000 < length user_text then Inl DataError
         else if new_id \<in> set (map ao_id (ag_operations db)) then Inl IntegrityError
         else Inr (op, db\<lparr>ag_operations := ag_operations db @ [op]\<rparr>))"

definition events_of :: "uuid \<Rightarrow> agent_db \<Rightarrow> operation_step_event list" where
  "events_of k db = filter (\<lambda>e. oe_operation e = k) (ag_events db)"

text \<open>\<open>_append\<close> in its two parts: reading the length of the log and inserting the event.\<close>

definition insert_event :: "uuid \<Rightarrow> uuid \<Rightarrow> string \<Rightarrow> string \<Rightarrow> (string \<times> json) list option \<Rightarrow> int \<Rightarrow> agent_db \<Rightarrow> (step_event_view \<times> agent_db) api" where
  "insert_event new_id k step status payload n db =
     (if 20 < length status then Inl DataError
      else if new_id \<in> set (map oe_id (ag_events db)) then Inl IntegrityError
      else Inr (\<lparr>vw_step = step, vw_status = status, vw_sequence = n\<rparr>,
        db\<lparr>ag_events := ag_events db @ [\<lparr>oe_id = new_id, oe_operation = k, oe_step = step, oe_status = status,
             oe_payload = (case payload of None \<Rightarrow> [] | Some p \<Rightarrow> p), oe_sequence = n\<rparr>]\<rparr>))"

definition append_event :: "uuid \<Rightarrow> uuid \<Rightarrow> string \<Rightarrow> string \<Rightarrow> (string \<times> json) list option \<Rightarrow> agent_db \<Rightarrow> (step_event_view \<times> agent_db) api" where
  "append_event new_id k step status payload db =
     (if step \<notin> set OPERATION_STEPS then Inl (DomainRuleError ''INVALID_OPERATION_STEP'' (''unknown operation step: '' @ step))
      else insert_event new_id k step status payload (int (length (events_of k db))) db)"

definition owned_operation :: "current_actor \<Rightarrow> string \<Rightarrow> agent_db \<Rightarrow> agent_operation api" where
  "owned_operation actor i db = (case py_uuid i of
     None \<Rightarrow> Inl (ServiceError bad_uuid)
   | Some k \<Rightarrow> (case owned_row ao_id ao_workspace (ac_workspace actor) k (ag_operations db) of
       None \<Rightarrow> Inl NotFoundError | Some op \<Rightarrow> Inr op))"

definition append_step :: "uuid \<Rightarrow> string \<Rightarrow> string \<Rightarrow> string \<Rightarrow> (string \<times> json) list option \<Rightarrow> agent_db \<Rightarrow> (step_event_view \<times> agent_db) api" where
  "append_step new_id i step status payload db = (case py_uuid i of
     None \<Rightarrow> Inl (ServiceError bad_uuid)
   | Some k \<Rightarrow> (case row_at ao_id k (ag_operations db) of
       None \<Rightarrow> Inl NotFoundError
     | Some op \<Rightarrow> append_event new_id (ao_id op) step status payload db))"

definition append_step_for_actor :: "uuid \<Rightarrow> current_actor \<Rightarrow> string \<Rightarrow> string \<Rightarrow> string \<Rightarrow> (string \<times> json) list option \<Rightarrow> agent_db
    \<Rightarrow> (step_event_view \<times> agent_db) api" where
  "append_step_for_actor new_id actor i step status payload db = (case owned_operation actor i db of
     Inl e \<Rightarrow> Inl e
   | Inr op \<Rightarrow> append_event new_id (ao_id op) step status payload db)"

definition view_of :: "operation_step_event \<Rightarrow> step_event_view" where
  "view_of e = \<lparr>vw_step = oe_step e, vw_status = oe_status e, vw_sequence = oe_sequence e\<rparr>"

definition operation_events :: "current_actor \<Rightarrow> string \<Rightarrow> agent_db \<Rightarrow> step_event_view list api" where
  "operation_events actor i db = (case owned_operation actor i db of
     Inl e \<Rightarrow> Inl e
   | Inr op \<Rightarrow> Inr (map view_of (sort_key oe_sequence (events_of (ao_id op) db))))"

section \<open>The replay stream\<close>

definition newline :: string where "newline = [CHR 0x0A]"

text \<open>\<open>json.dumps\<close> of a text with \<open>ensure_ascii\<close>.\<close>

definition ascii_string :: "string \<Rightarrow> string" where
  "ascii_string s = CHR 0x22 # concat (map (\<lambda>c. if 126 < (of_char c :: nat) then [CHR 0x5C, CHR ''u''] @ hex_digits 4 (of_char c)
     else json_char c) s) @ [CHR 0x22]"

definition encode_event :: "step_event_view \<Rightarrow> string" where
  "encode_event v = ''id: '' @ int_str (vw_sequence v) @ newline @ ''event: operation.step'' @ newline
     @ ''data: {'' @ ascii_string ''step'' @ '':'' @ ascii_string (vw_step v) @ '','' @ ascii_string ''status'' @ '':'' @ ascii_string (vw_status v)
     @ '','' @ ascii_string ''sequence'' @ '':'' @ int_str (vw_sequence v) @ ''}'' @ newline @ newline"

text \<open>The query parameter is refused below \<open>-1\<close>; the header is not checked.\<close>

definition stream_events :: "current_actor \<Rightarrow> string \<Rightarrow> int option \<Rightarrow> int option \<Rightarrow> agent_db \<Rightarrow> step_event_view list api" where
  "stream_events actor i last_event_id last_event_header db =
     (let cursor = (case last_event_id of Some c \<Rightarrow> Some c | None \<Rightarrow> last_event_header)
      in case operation_events actor i db of
        Inl e \<Rightarrow> Inl e
      | Inr events \<Rightarrow> Inr (filter (\<lambda>v. (case cursor of Some c \<Rightarrow> c | None \<Rightarrow> -1) < vw_sequence v) events))"

definition stream_operation :: "current_actor \<Rightarrow> string \<Rightarrow> int option \<Rightarrow> int option \<Rightarrow> agent_db \<Rightarrow> string list api" where
  "stream_operation actor i last_event_id last_event_header db = (case stream_events actor i last_event_id last_event_header db of
     Inl e \<Rightarrow> Inl e
   | Inr [] \<Rightarrow> Inr ['': replay complete'' @ newline @ newline]
   | Inr events \<Rightarrow> Inr (map encode_event events))"


section \<open>What an external action requires\<close>

definition steps_of :: "operation_result \<Rightarrow> string list" where
  "steps_of r = map sv_step (or_events r)"

definition rank :: "string \<Rightarrow> nat" where
  "rank step = length (takeWhile (\<lambda>s. s \<noteq> step) OPERATION_STEPS)"

lemmas handle_unfolds = agent_handle_def failed_result_def done_step_def review_def Let_def

lemma classify_mutates: "in_may_mutate (classify_intent t) \<longleftrightarrow> in_kind (classify_intent t) = ''CHANGE_COMMAND''"
  by (simp add: classify_intent_def Let_def)

lemma handle_calls:
  "snd (agent_handle executor t proposed approved) = (if executor = None then [] else case approved of None \<Rightarrow> [] | Some p \<Rightarrow> [p])"
  by (auto simp: handle_unfolds split: option.splits executor_answer.splits)

lemma handle_external:
  "or_external (fst (agent_handle executor t proposed approved)) \<longleftrightarrow>
     (\<exists>execute p. executor = Some execute \<and> approved = Some p \<and> execute p = Outcome ''SUCCEEDED'')"
  by (auto simp: handle_unfolds split: option.splits executor_answer.splits)

lemma handle_mutated:
  "or_mutated (fst (agent_handle executor t proposed approved)) \<Longrightarrow>
     in_kind (classify_intent t) = ''CHANGE_COMMAND'' \<and> or_status (fst (agent_handle executor t proposed approved)) = ''SUCCEEDED''"
  by (auto simp: handle_unfolds classify_mutates split: option.splits executor_answer.splits if_splits)

lemma handle_status:
  "or_status (fst (agent_handle executor t proposed approved)) = ''FAILED'' \<longleftrightarrow>
     approved \<noteq> None \<and> \<not> or_external (fst (agent_handle executor t proposed approved))"
  by (auto simp: handle_unfolds split: option.splits executor_answer.splits)

lemma handle_steps:
  "steps_of (fst (agent_handle executor t proposed approved)) \<in>
     {[''OBSERVE'', ''INTERPRET'', ''RETRIEVE'', ''PLAN'', ''CRITIQUE'', ''VERIFY'', ''EXPLAIN''],
      [''OBSERVE'', ''INTERPRET'', ''RETRIEVE'', ''PLAN'', ''CRITIQUE'', ''AUTHORIZE'', ''EXPLAIN''],
      [''OBSERVE'', ''INTERPRET'', ''RETRIEVE'', ''PLAN'', ''CRITIQUE'', ''AUTHORIZE'', ''ACT'', ''VERIFY''],
      [''OBSERVE'', ''INTERPRET'', ''RETRIEVE'', ''PLAN'', ''CRITIQUE'', ''AUTHORIZE'', ''ACT'', ''VERIFY'', ''EXPLAIN'']}"
  using classify_mutates [of t]
  by (auto simp: handle_unfolds steps_of_def split: option.splits executor_answer.splits)

lemma ranks:
  "rank ''OBSERVE'' = 0" "rank ''INTERPRET'' = 1" "rank ''RETRIEVE'' = 2" "rank ''PLAN'' = 3" "rank ''CRITIQUE'' = 4"
  "rank ''AUTHORIZE'' = 5" "rank ''ACT'' = 6" "rank ''VERIFY'' = 7" "rank ''EXPLAIN'' = 8"
  by (simp_all add: rank_def OPERATION_STEPS_def)

section \<open>Logs\<close>

datatype agent_call =
    Start_Operation uuid current_actor text_points
  | Append_Step uuid string string string "(string \<times> json) list option"
  | Append_For uuid current_actor string string string "(string \<times> json) list option"

fun agent_step :: "agent_call \<Rightarrow> agent_db \<Rightarrow> agent_db" where
  "agent_step (Start_Operation i actor t) db = (case start_operation i actor t db of Inl _ \<Rightarrow> db | Inr (_, db') \<Rightarrow> db')"
| "agent_step (Append_Step n i step status payload) db = (case append_step n i step status payload db of Inl _ \<Rightarrow> db | Inr (_, db') \<Rightarrow> db')"
| "agent_step (Append_For n actor i step status payload) db = (case append_step_for_actor n actor i step status payload db of Inl _ \<Rightarrow> db | Inr (_, db') \<Rightarrow> db')"

fun agent_steps :: "agent_call list \<Rightarrow> agent_db \<Rightarrow> agent_db" where
  "agent_steps [] db = db"
| "agent_steps (c # cs) db = agent_steps cs (agent_step c db)"

definition numbered :: "agent_db \<Rightarrow> bool" where
  "numbered db \<longleftrightarrow> (\<forall>k. map oe_sequence (events_of k db) = map int [0..<length (events_of k db)])"

definition extends :: "agent_db \<Rightarrow> agent_db \<Rightarrow> bool" where
  "extends db db' \<longleftrightarrow> (\<forall>k. \<exists>more. events_of k db' = events_of k db @ more)"

lemma append_event_log:
  assumes "append_event n k step status payload db = Inr (v, db')" and "numbered db"
  shows "numbered db' \<and> extends db db'"
  using assms by (auto simp: append_event_def insert_event_def numbered_def extends_def events_of_def split: if_splits)

lemma extends_refl: "extends db db"
  by (simp add: extends_def)

lemma extends_trans: "extends a b \<Longrightarrow> extends b c \<Longrightarrow> extends a c"
  unfolding extends_def by (metis append.assoc)

lemma start_log: "start_operation i actor t db = Inr (op, db') \<Longrightarrow> ag_events db' = ag_events db"
  by (auto simp: start_operation_def Let_def split: if_splits)

lemma agent_step_log:
  assumes "numbered db"
  shows "numbered (agent_step c db) \<and> extends db (agent_step c db)"
proof (cases c)
  case (Start_Operation i actor t)
  have "numbered db' \<and> extends db db'" if "start_operation i actor t db = Inr (op, db')" for op db'
    using start_log [OF that] assms by (simp add: numbered_def extends_def events_of_def)
  then show ?thesis using Start_Operation assms by (auto simp: extends_refl split: sum.splits)
next
  case (Append_Step n i step status payload)
  then show ?thesis using assms append_event_log
    by (auto simp: append_step_def extends_refl split: sum.splits option.splits)
next
  case (Append_For n actor i step status payload)
  then show ?thesis using assms append_event_log
    by (auto simp: append_step_for_actor_def extends_refl split: sum.splits)
qed

lemma agent_steps_log: "numbered db \<Longrightarrow> numbered (agent_steps cs db) \<and> extends db (agent_steps cs db)"
proof (induction cs arbitrary: db)
  case (Cons c cs)
  then show ?case using agent_step_log [OF Cons.prems, of c] extends_trans by auto
qed (simp add: extends_refl)

lemma sorted_ints: "sorted (map int [0..<n])"
  by (simp add: sorted_iff_nth_mono)

lemma filter_numbered:
  assumes "map f xs = map int [a..<b]" and "- 1 \<le> c" and "nat (c + 1) = a + m"
  shows "filter (\<lambda>x. c < f x) xs = drop m xs"
  using assms
proof (induction xs arbitrary: a m)
  case (Cons x xs)
  then have ab: "a < b" by (cases "a < b") auto
  then have x: "f x = int a" and rest: "map f xs = map int [Suc a..<b]"
    using Cons.prems(1) by (simp_all add: upt_conv_Cons)
  show ?case
  proof (cases m)
    case 0
    have "c < f y" if "y \<in> set (x # xs)" for y
    proof -
      have "f y \<in> set (map int [a..<b])" using that Cons.prems(1) by (metis image_eqI list.set_map)
      then show ?thesis using Cons.prems(2,3) 0 by auto
    qed
    then show ?thesis using 0 by (simp add: filter_id_conv)
  next
    case (Suc m')
    then have "\<not> c < f x" using x Cons.prems(2,3) by linarith
    then show ?thesis using Cons.IH [OF rest Cons.prems(2), of m'] Cons.prems(3) Suc by simp
  qed
qed simp

definition no_operations :: agent_db where
  "no_operations = \<lparr>ag_operations = [], ag_events = []\<rparr>"

lemma stream_numbered:
  assumes "numbered db" and "owned_operation actor i db = Inr op" and "- 1 \<le> c"
  shows "stream_events actor i None None db = Inr (map view_of (events_of (ao_id op) db))"
    and "stream_events actor i (Some c) header db = Inr (drop (nat (c + 1)) (map view_of (events_of (ao_id op) db)))"
proof -
  let ?es = "events_of (ao_id op) db"
  have seqs: "map oe_sequence ?es = map int [0..<length ?es]" using assms(1) by (simp add: numbered_def)
  then have "sort_key oe_sequence ?es = ?es" by (intro sort_key_id_if_sorted) (simp add: sorted_ints)
  then have all: "operation_events actor i db = Inr (map view_of ?es)"
    using assms(2) by (simp add: operation_events_def)
  have "vw_sequence \<circ> view_of = oe_sequence" by (auto simp: view_of_def)
  then have views: "map vw_sequence (map view_of ?es) = map int [0..<length ?es]" using seqs by simp
  show "stream_events actor i (Some c) header db = Inr (drop (nat (c + 1)) (map view_of ?es))"
    using filter_numbered [OF views assms(3), of "nat (c + 1)"] by (simp add: stream_events_def all)
  show "stream_events actor i None None db = Inr (map view_of ?es)"
    using filter_numbered [OF views, of "- 1" 0] by (simp add: stream_events_def all)
qed


section \<open>Two writers at once\<close>

text \<open>
  The length is read and the event inserted in one transaction without a lock: two calls may both read
  0. Then two events carry one number, and a client that saw the first and resumes misses the second.
\<close>

definition an_operation :: agent_operation where
  "an_operation = \<lparr>ao_id = 1, ao_workspace = 3, ao_user_text = [], ao_status = ''RUNNING''\<rparr>"

definition an_agent_actor :: current_actor where
  "an_agent_actor = \<lparr>ac_user = 5, ac_workspace = 3, ac_session = 6\<rparr>"

definition raced_log :: agent_db where
  "raced_log = (case insert_event 11 1 ''OBSERVE'' ''SUCCEEDED'' None 0 \<lparr>ag_operations = [an_operation], ag_events = []\<rparr> of
     Inl _ \<Rightarrow> no_operations
   | Inr (_, db) \<Rightarrow> (case insert_event 12 1 ''INTERPRET'' ''SUCCEEDED'' None 0 db of Inl _ \<Rightarrow> no_operations | Inr (_, db') \<Rightarrow> db'))"

lemmas agent_unfolds = owned_operation_def owned_row_def py_uuid_str an_operation_def an_agent_actor_def insert_event_def events_of_def

lemma resumed_client_misses_event:
  "stream_events an_agent_actor (uuid_str 1) None None raced_log =
     Inr [\<lparr>vw_step = ''OBSERVE'', vw_status = ''SUCCEEDED'', vw_sequence = 0\<rparr>, \<lparr>vw_step = ''INTERPRET'', vw_status = ''SUCCEEDED'', vw_sequence = 0\<rparr>]"
  "stream_events an_agent_actor (uuid_str 1) (Some 0) None raced_log = Inr []"
  by (simp_all add: raced_log_def stream_events_def operation_events_def agent_unfolds view_of_def)

section \<open>Properties\<close>

text \<open>
  C29. No external action without an approved proposal: whatever the text, the executor and its
  answers, the executor is called only for the approved proposal and at most once; the result
  says that an external action was executed exactly when the executor answered that it
  succeeded, and fails exactly when an approved proposal was not executed; a mutation is reported
  only for a text that is a change command; the steps come in the order of the operation, each
  at most once, and whoever acts has been authorized.
\<close>

theorem external_action_gated:
  "case agent_handle executor t proposed approved of (r, calls) \<Rightarrow>
    calls = (if executor = None then [] else case approved of None \<Rightarrow> [] | Some p \<Rightarrow> [p])
    \<and> (or_external r \<longleftrightarrow> (\<exists>execute p. executor = Some execute \<and> approved = Some p \<and> execute p = Outcome ''SUCCEEDED''))
    \<and> (or_status r = ''FAILED'' \<longleftrightarrow> approved \<noteq> None \<and> \<not> or_external r)
    \<and> (or_mutated r \<longrightarrow> in_kind (classify_intent t) = ''CHANGE_COMMAND'' \<and> or_status r = ''SUCCEEDED'')
    \<and> sorted (map rank (steps_of r)) \<and> distinct (steps_of r)
    \<and> (''ACT'' \<in> set (steps_of r) \<longrightarrow> ''AUTHORIZE'' \<in> set (steps_of r))"
proof -
  obtain r calls where run: "agent_handle executor t proposed approved = (r, calls)" by fastforce
  have "sorted (map rank (steps_of r)) \<and> distinct (steps_of r) \<and> (''ACT'' \<in> set (steps_of r) \<longrightarrow> ''AUTHORIZE'' \<in> set (steps_of r))"
    using handle_steps [of executor t proposed approved] by (auto simp: run ranks)
  then show ?thesis
    using handle_calls [of executor t proposed approved] handle_external [of executor t proposed approved]
      handle_status [of executor t proposed approved] handle_mutated [of executor t proposed approved]
    unfolding run prod.case fst_conv snd_conv by blast
qed

lemma external_action_gated_witness:
  "or_status (fst (agent_handle (Some (\<lambda>p. Outcome ''PENDING'')) [] False (Some ''p''))) = ''FAILED''
    \<and> snd (agent_handle (Some (\<lambda>p. Outcome ''PENDING'')) [] False (Some ''p'')) = [''p'']"
  using external_action_gated [where executor = "Some (\<lambda>p. Outcome ''PENDING'')" and t = "[]" and proposed = False and approved = "Some ''p''"]
  by (simp add: case_prod_beta)

text \<open>
  C30. A client that reconnects misses nothing and sees nothing twice: for a log written by any
  sequence of calls, one at a time, the stream after the event number \<open>c\<close> is exactly the rest of
  the full stream, and what was streamed earlier is a beginning of what is streamed later.
\<close>

theorem stream_resumes:
  assumes "owned_operation actor i (agent_steps before no_operations) = Inr op"
    and "owned_operation actor i (agent_steps (before @ after) no_operations) = Inr op" and "- 1 \<le> c"
  shows "\<exists>early late. stream_events actor i None None (agent_steps before no_operations) = Inr early
    \<and> stream_events actor i None None (agent_steps (before @ after) no_operations) = Inr (early @ late)
    \<and> stream_events actor i (Some c) header (agent_steps (before @ after) no_operations) = Inr (drop (nat (c + 1)) (early @ late))
    \<and> map vw_sequence (early @ late) = map int [0..<length (early @ late)]"
proof -
  let ?b = "agent_steps before no_operations" and ?a = "agent_steps (before @ after) no_operations"
  have app: "agent_steps (xs @ ys) db = agent_steps ys (agent_steps xs db)" for xs ys db
    by (induction xs arbitrary: db) auto
  have "numbered no_operations" by (simp add: numbered_def events_of_def no_operations_def)
  then have b: "numbered ?b" using agent_steps_log by blast
  then have a: "numbered ?a" "extends ?b ?a" using agent_steps_log [of ?b after] by (auto simp: app)
  obtain more where more: "events_of (ao_id op) ?a = events_of (ao_id op) ?b @ more"
    using a(2) by (auto simp: extends_def)
  have "map oe_sequence (events_of (ao_id op) ?a) = map int [0..<length (events_of (ao_id op) ?a)]"
    using a(1) by (simp add: numbered_def)
  then have seqs: "map vw_sequence (map view_of (events_of (ao_id op) ?b) @ map view_of more) =
      map int [0..<length (map view_of (events_of (ao_id op) ?b) @ map view_of more)]"
    by (simp add: more view_of_def comp_def)
  show ?thesis
    using stream_numbered [OF b assms(1) assms(3)] stream_numbered [OF a(1) assms(2) assms(3)] seqs more
    by (intro exI [of _ "map view_of (events_of (ao_id op) ?b)"] exI [of _ "map view_of more"]) simp
qed

lemma stream_resumes_witness:
  "stream_events an_agent_actor (uuid_str 1) (Some 0) None
     (agent_steps [Start_Operation 1 an_agent_actor [], Append_Step 7 (uuid_str 1) ''OBSERVE'' ''SUCCEEDED'' None,
        Append_Step 8 (uuid_str 1) ''PLAN'' ''SUCCEEDED'' None] no_operations)
   = Inr [\<lparr>vw_step = ''PLAN'', vw_status = ''SUCCEEDED'', vw_sequence = 1\<rparr>]"
proof -
  let ?b = "[Start_Operation 1 an_agent_actor [], Append_Step 7 (uuid_str 1) ''OBSERVE'' ''SUCCEEDED'' None]"
    and ?a = "[Append_Step 8 (uuid_str 1) ''PLAN'' ''SUCCEEDED'' None]"
  note unfolds = agent_unfolds start_operation_def no_operations_def append_step_def row_at_def append_event_def OPERATION_STEPS_def
    stream_events_def operation_events_def view_of_def Let_def
  have "owned_operation an_agent_actor (uuid_str 1) (agent_steps ?b no_operations) = Inr an_operation"
    "owned_operation an_agent_actor (uuid_str 1) (agent_steps (?b @ ?a) no_operations) = Inr an_operation"
    by (simp_all add: unfolds)
  from stream_resumes [OF this, of 0 None]
  obtain early late where s: "stream_events an_agent_actor (uuid_str 1) None None (agent_steps (?b @ ?a) no_operations) = Inr (early @ late)"
    "stream_events an_agent_actor (uuid_str 1) (Some 0) None (agent_steps (?b @ ?a) no_operations) = Inr (drop 1 (early @ late))" by auto
  let ?log = "[\<lparr>vw_step = ''OBSERVE'', vw_status = ''SUCCEEDED'', vw_sequence = 0\<rparr>, \<lparr>vw_step = ''PLAN'', vw_status = ''SUCCEEDED'', vw_sequence = 1\<rparr>]"
  have "stream_events an_agent_actor (uuid_str 1) None None (agent_steps (?b @ ?a) no_operations) = Inr ?log"
    by (simp add: unfolds)
  then have log: "early @ late = ?log" using s(1) by (metis sum.inject(2))
  have "drop 1 ?log = [\<lparr>vw_step = ''PLAN'', vw_status = ''SUCCEEDED'', vw_sequence = 1\<rparr>]" by simp
  then show ?thesis using s(2) unfolding log by (simp only: append.simps)
qed

end
