(* ===== verification/Views.thy ===== *)
theory Views
  imports Planning_Service Inbox Calendar_Connections Calendar_Sync Work_Sessions
begin

text \<open>
  The browser's read views (\<open>views/queries.py\<close>, \<open>schemas.py\<close>, \<open>router.py\<close>) over the tables of all
  services: today, inbox, projects, calendar and review. Rows that a query orders by their
  creation are in the order of the table; \<open>collate\<close> places names in the collation of the
  database, \<open>iter\<close> is the iteration order of a set. The results: a view depends on the rows of
  the actor's workspace alone; what a stored plan is shown as; and that the two project views
  agree.
\<close>

section \<open>Rows and responses\<close>

record workstream_row =
  wm_id :: uuid
  wm_workspace :: uuid
  wm_name :: string
  wm_status :: string

record views_db = planning_db +
  vd_workstreams :: "workstream_row list"
  vd_items :: "inbox_row list"
  vd_candidates :: "candidate_row list"
  vd_connections :: "connection_row list"
  vd_snapshots :: "snapshot_row list"
  vd_sessions :: "session_row list"

record task_summary =
  tm_id :: string
  tm_title :: string
  tm_status :: string
  tm_remaining :: int
  tm_version :: int

record fixed_event =
  fx_id :: string
  fx_title :: string
  fx_start :: instant
  fx_end :: instant
  fx_kind :: string
  fx_sync_status :: string

record today_response =
  ty_plan_status :: string
  ty_core_outcome :: "task_summary option"
  ty_fixed_events :: "fixed_event list"
  ty_must_do :: "task_summary list"
  ty_queue :: "task_summary list"
  ty_not_today :: "task_summary list"

record inbox_candidate =
  ibc_id :: string
  ibc_item :: string
  ibc_kind :: string
  ibc_status :: string
  ibc_source_text :: "string option"
  ibc_interpretation :: json
  ibc_evidence_score :: rat
  ibc_decision :: string

record project_summary =
  pj_id :: string
  pj_title :: string
  pj_status :: string
  pj_progress :: int
  pj_risk_level :: string
  pj_risk_reasons :: "string list"
  pj_task_count :: nat
  pj_done_count :: nat

record milestone_summary =
  msu_id :: string
  msu_title :: string
  msu_status :: string
  msu_deadline_date :: "date option"
  msu_deadline_at :: "instant option"
  msu_time_known :: bool
  msu_version :: int

record external_summary =
  es_id :: string
  es_deliverable :: string
  es_owner_label :: "string option"
  es_expected_delivery :: "instant option"
  es_fallback :: bool
  es_version :: int

record project_detail =
  pd_project :: project_summary
  pd_milestones :: "milestone_summary list"
  pd_tasks :: "task_summary list"
  pd_externals :: "external_summary list"

record connection_summary =
  cy_provider :: string
  cy_mode :: string
  cy_status :: string

record calendar_summary =
  cz_id :: string
  cz_title :: string
  cz_start :: instant
  cz_end :: instant
  cz_all_day :: bool
  cz_kind :: string
  cz_sync_status :: string

record calendar_response =
  cv_connections :: "connection_summary list"
  cv_events :: "calendar_summary list"
  cv_flexible :: "task_summary list"

record proposal_summary =
  pq_id :: string
  pq_kind :: string
  pq_level :: string
  pq_status :: string
  pq_version :: int
  pq_minutes :: int
  pq_targets :: json

record review_response =
  rw_period_start :: date
  rw_period_end :: date
  rw_planned :: int
  rw_actual :: int
  rw_missed :: int
  rw_pending :: "proposal_summary list"

text \<open>What a response refuses: a value that is not an object, or not a list of objects.\<close>

definition validation_error :: api_exn where
  "validation_error = ServiceError (ValueError ''ValidationError'')"

fun json_object :: "json \<Rightarrow> bool" where
  "json_object (JObj kvs) = True"
| "json_object _ = False"

fun json_objects :: "json \<Rightarrow> bool" where
  "json_objects (JList xs) = list_all json_object xs"
| "json_objects _ = False"

section \<open>Shared parts\<close>

definition summary_of :: "task_row \<Rightarrow> task_summary" where
  "summary_of r = \<lparr>tm_id = uuid_str (tr_id r), tm_title = tr_title r, tm_status = tr_status r,
     tm_remaining = tr_remaining_base r, tm_version = tr_version r\<rparr>"

definition uuid_of :: "core_json \<Rightarrow> uuid option" where
  "uuid_of item = (case item of CStr s \<Rightarrow> py_uuid s | _ \<Rightarrow> None)"

definition uuid_list :: "core_json \<Rightarrow> uuid list" where
  "uuid_list v = (case v of CList items \<Rightarrow> List.map_filter uuid_of items | _ \<Rightarrow> [])"

definition today_payload :: "core_object \<Rightarrow> core_object" where
  "today_payload output = (case dget output ''today'' CNull of CObj kvs \<Rightarrow> kvs | _ \<Rightarrow> [])"

definition workspace_timezone :: "tzdb \<Rightarrow> uuid \<Rightarrow> 'a planning_db_scheme \<Rightarrow> zone api" where
  "workspace_timezone tz w db =
     (let name = (case find (\<lambda>r. ws_id r = w) (db_workspaces db) of Some r \<Rightarrow> ws_timezone r | None \<Rightarrow> ''UTC'')
      in if tz_known tz name then Inr (tz_zone tz name) else Inl (ServiceError KeyError))"

definition ordered_tasks :: "uuid \<Rightarrow> uuid list \<Rightarrow> task_row list \<Rightarrow> task_summary list" where
  "ordered_tasks w ids rows = List.map_filter (\<lambda>i. map_option summary_of (owned_row tr_id tr_workspace w i rows)) ids"

definition current_plan :: "uuid \<Rightarrow> plan_row list \<Rightarrow> plan_row option api" where
  "current_plan w rows = one_or_none (filter (\<lambda>r. pl_workspace r = w \<and> pl_current r) rows)"

section \<open>Today\<close>

definition fixed_events_of :: "uuid \<Rightarrow> instant \<Rightarrow> instant \<Rightarrow> event_row list \<Rightarrow> fixed_event list" where
  "fixed_events_of w day_start day_end rows =
     map (\<lambda>r. \<lparr>fx_id = uuid_str (cr_id r), fx_title = cr_title r, fx_start = cr_start r, fx_end = cr_end r,
         fx_kind = cr_kind r, fx_sync_status = cr_sync_status r\<rparr>)
       (sort_key cr_start (filter (\<lambda>r. cr_workspace r = w \<and> cr_sync_status r \<noteq> ''tombstoned'' \<and> starts_with ''fixed'' (cr_kind r)
          \<and> day_start < cr_end r \<and> cr_start r < day_end) rows))"

definition today_view :: "tzdb \<Rightarrow> current_actor \<Rightarrow> instant \<Rightarrow> 'a planning_db_scheme \<Rightarrow> today_response api" where
  "today_view tz actor now db =
     (let w = ac_workspace actor in
      case workspace_timezone tz w db of Inl e \<Rightarrow> Inl e
      | Inr z \<Rightarrow> (case current_plan w (db_plans db) of Inl e \<Rightarrow> Inl e
        | Inr snapshot \<Rightarrow>
          (let d = local_date z now;
             fixed = fixed_events_of w (zone_midnight z d) (zone_midnight z (d + 1)) (db_events db)
           in case snapshot of
             None \<Rightarrow> Inr \<lparr>ty_plan_status = ''EMPTY'', ty_core_outcome = None, ty_fixed_events = fixed, ty_must_do = [],
               ty_queue = [], ty_not_today = []\<rparr>
           | Some p \<Rightarrow>
             (let today = today_payload (pl_output p);
                shown = (\<lambda>ids. ordered_tasks w ids (db_tasks db));
                core = shown (uuid_list (CList [dget today ''core_result_task_id'' CNull]))
              in Inr \<lparr>ty_plan_status = ''READY'', ty_core_outcome = (case core of [] \<Rightarrow> None | c # _ \<Rightarrow> Some c),
                   ty_fixed_events = fixed, ty_must_do = shown (uuid_list (dget today ''must_do'' CNull)),
                   ty_queue = shown (uuid_list (dget today ''next_queue'' CNull) @ uuid_list (dget today ''opportunistic'' CNull)),
                   ty_not_today = shown (uuid_list (dget today ''excluded'' CNull))\<rparr>))))"

section \<open>Inbox\<close>

definition inbox_view :: "current_actor \<Rightarrow> views_db \<Rightarrow> inbox_candidate list api" where
  "inbox_view actor db =
     (let rows = List.map_filter (\<lambda>c. if kr_decision c \<noteq> ''HOLD'' then None
            else map_option (Pair c) (owned_row ir_id ir_workspace (ac_workspace actor) (kr_item c) (vd_items db))) (vd_candidates db)
      in if list_all (\<lambda>(c, _). json_object (kr_payload c)) rows
         then Inr (map (\<lambda>(c, r). \<lparr>ibc_id = uuid_str (kr_id c), ibc_item = uuid_str (ir_id r), ibc_kind = kr_kind c,
           ibc_status = ir_status r, ibc_source_text = ir_raw_text r, ibc_interpretation = kr_payload c,
           ibc_evidence_score = kr_evidence c, ibc_decision = kr_decision c\<rparr>) rows)
         else Inl validation_error)"

section \<open>Projects\<close>

type_synonym risk_view = "(uuid, string \<times> string list) dict"

definition dassign :: "'k \<Rightarrow> 'v \<Rightarrow> ('k, 'v) dict \<Rightarrow> ('k, 'v) dict" where
  "dassign k v d = (if k \<in> set (map fst d) then map (\<lambda>e. if fst e = k then (k, v) else e) d else d @ [(k, v)])"

definition risk_entry :: "core_json \<Rightarrow> (uuid \<times> string \<times> string list) option" where
  "risk_entry item = (case item of
     CObj kvs \<Rightarrow> (case (dget kvs ''milestone_id'' CNull, dget kvs ''level'' CNull) of
        (CStr i, CStr level) \<Rightarrow> map_option (\<lambda>u. (u, level, (case dget kvs ''reasons'' CNull of
            CList reasons \<Rightarrow> List.map_filter (\<lambda>x. case x of CStr s \<Rightarrow> Some s | _ \<Rightarrow> None) reasons | _ \<Rightarrow> []))) (py_uuid i)
      | _ \<Rightarrow> None)
   | _ \<Rightarrow> None)"

definition risk_by_milestone :: "core_object \<Rightarrow> risk_view" where
  "risk_by_milestone output = (case dget output ''risks'' CNull of
     CList items \<Rightarrow> foldl (\<lambda>d item. case risk_entry item of None \<Rightarrow> d | Some (k, v) \<Rightarrow> dassign k v d) [] items
   | _ \<Rightarrow> [])"

definition level_rank :: "string \<Rightarrow> nat" where
  "level_rank level = dget [(''CRITICAL'', 4), (''HIGH'', 3), (''MEDIUM'', 2), (''LOW'', 1)] level 0"

text \<open>\<open>max(values, key=\<dots>)\<close>: the first of the greatest.\<close>

fun first_max :: "('a \<Rightarrow> nat) \<Rightarrow> 'a \<Rightarrow> 'a list \<Rightarrow> 'a" where
  "first_max key best [] = best"
| "first_max key best (x # xs) = first_max key (if key best < key x then x else best) xs"

text \<open>\<open>round(done * 100 / count)\<close>, a quotient of integers as a double and a rounding to even.\<close>

definition progress_percent :: "nat \<Rightarrow> nat \<Rightarrow> int" where
  "progress_percent finished n = (if n = 0 then 0 else rne (fdiv (of_nat (finished * 100)) (of_nat n)))"

definition summary_of_project :: "(uuid list \<Rightarrow> uuid list) \<Rightarrow> workstream_row \<Rightarrow> milestone_row list \<Rightarrow> task_row list \<Rightarrow> risk_view \<Rightarrow> project_summary" where
  "summary_of_project iter workstream milestones tasks risks =
     (let project_tasks = filter (\<lambda>r. tr_workstream r = wm_id workstream) tasks;
        finished = length (filter (\<lambda>r. tr_status r = ''done'') project_tasks);
        ids = iter (map mr_id (filter (\<lambda>r. mr_workstream r = wm_id workstream) milestones));
        values = List.map_filter (map_of risks) ids;
        (level, reasons) = (case values of [] \<Rightarrow> (''UNASSESSED'', []) | v # vs \<Rightarrow> first_max (\<lambda>v. level_rank (fst v)) v vs)
      in \<lparr>pj_id = uuid_str (wm_id workstream), pj_title = wm_name workstream, pj_status = wm_status workstream,
          pj_progress = progress_percent finished (length project_tasks), pj_risk_level = level, pj_risk_reasons = reasons,
          pj_task_count = length project_tasks, pj_done_count = finished\<rparr>)"

definition project_rows :: "(string \<Rightarrow> rat) \<Rightarrow> uuid \<Rightarrow> views_db \<Rightarrow> (workstream_row list \<times> milestone_row list \<times> task_row list \<times> core_object) api" where
  "project_rows collate w db = (case current_plan w (db_plans db) of Inl e \<Rightarrow> Inl e
   | Inr snapshot \<Rightarrow> Inr (sort_key (\<lambda>r. collate (wm_name r)) (of_workspace wm_workspace w (vd_workstreams db)),
       of_workspace mr_workspace w (db_milestones db), of_workspace tr_workspace w (db_tasks db),
       (case snapshot of None \<Rightarrow> [] | Some p \<Rightarrow> pl_output p)))"

definition projects_view :: "(string \<Rightarrow> rat) \<Rightarrow> (uuid list \<Rightarrow> uuid list) \<Rightarrow> current_actor \<Rightarrow> views_db \<Rightarrow> project_summary list api" where
  "projects_view collate iter actor db = (case project_rows collate (ac_workspace actor) db of Inl e \<Rightarrow> Inl e
   | Inr (workstreams, milestones, tasks, output) \<Rightarrow>
       Inr (map (\<lambda>r. summary_of_project iter r milestones tasks (risk_by_milestone output)) workstreams))"

definition linked_externals :: "uuid \<Rightarrow> uuid list \<Rightarrow> 'a planning_db_scheme \<Rightarrow> external_row list" where
  "linked_externals w task_ids db = (if task_ids = [] then [] else
     filter (\<lambda>e. er_workspace e = w \<and> list_ex (\<lambda>l. lr_dependency l = er_id e \<and> lr_workspace l = er_workspace e \<and> lr_task l \<in> set task_ids)
       (db_external_tasks db)) (db_externals db))"

definition project_detail_view :: "(string \<Rightarrow> rat) \<Rightarrow> (uuid list \<Rightarrow> uuid list) \<Rightarrow> current_actor \<Rightarrow> string \<Rightarrow> views_db \<Rightarrow> project_detail option api" where
  "project_detail_view collate iter actor i db = (case py_uuid i of None \<Rightarrow> Inr None
   | Some k \<Rightarrow> (case project_rows collate (ac_workspace actor) db of Inl e \<Rightarrow> Inl e
     | Inr (workstreams, milestones, tasks, output) \<Rightarrow>
       (case find (\<lambda>r. wm_id r = k) workstreams of None \<Rightarrow> Inr None
        | Some workstream \<Rightarrow>
          (let project_milestones = filter (\<lambda>r. mr_workstream r = k) milestones;
             project_tasks = filter (\<lambda>r. tr_workstream r = k) tasks
           in Inr (Some \<lparr>pd_project = summary_of_project iter workstream project_milestones project_tasks (risk_by_milestone output),
             pd_milestones = map (\<lambda>r. \<lparr>msu_id = uuid_str (mr_id r), msu_title = mr_title r, msu_status = mr_status r,
               msu_deadline_date = mr_deadline_date r, msu_deadline_at = mr_deadline_at r,
               msu_time_known = mr_deadline_time_known r, msu_version = mr_version r\<rparr>) project_milestones,
             pd_tasks = map summary_of project_tasks,
             pd_externals = map (\<lambda>r. \<lparr>es_id = uuid_str (er_id r), es_deliverable = er_deliverable r, es_owner_label = er_owner_label r,
               es_expected_delivery = er_expected_delivery r, es_fallback = er_fallback_available r, es_version = er_version r\<rparr>)
               (linked_externals (ac_workspace actor) (map tr_id project_tasks) db)\<rparr>)))))"

definition get_project_detail :: "(string \<Rightarrow> rat) \<Rightarrow> (uuid list \<Rightarrow> uuid list) \<Rightarrow> current_actor \<Rightarrow> string \<Rightarrow> views_db \<Rightarrow> project_detail api" where
  "get_project_detail collate iter actor i db = (case project_detail_view collate iter actor i db of
     Inl e \<Rightarrow> Inl e | Inr None \<Rightarrow> Inl NotFoundError | Inr (Some detail) \<Rightarrow> Inr detail)"

section \<open>Calendar\<close>

definition allocated_ids :: "core_object \<Rightarrow> uuid list" where
  "allocated_ids output = (case dget output ''base_allocations'' CNull of
     CList items \<Rightarrow> concat (map (\<lambda>a. case a of CObj kvs \<Rightarrow> uuid_list (CList [dget kvs ''task_id'' CNull]) | _ \<Rightarrow> []) items)
   | _ \<Rightarrow> [])"

definition calendar_view :: "current_actor \<Rightarrow> views_db \<Rightarrow> calendar_response api" where
  "calendar_view actor db =
     (let w = ac_workspace actor in
      case current_plan w (db_plans db) of Inl e \<Rightarrow> Inl e
      | Inr snapshot \<Rightarrow>
        (let allocated = (case snapshot of None \<Rightarrow> [] | Some p \<Rightarrow> allocated_ids (pl_output p));
           tasks = filter (\<lambda>r. tr_workspace r = w \<and> tr_status r \<notin> {''done'', ''cancelled''}) (db_tasks db)
         in Inr \<lparr>cv_connections = map (\<lambda>r. \<lparr>cy_provider = cn_provider r, cy_mode = cn_mode r, cy_status = cn_status r\<rparr>)
                (of_workspace cn_workspace w (vd_connections db)),
              cv_events = map (\<lambda>r. \<lparr>cz_id = uuid_str (ss_id r), cz_title = ss_title r, cz_start = ss_start r, cz_end = ss_end r,
                  cz_all_day = ss_all_day r, cz_kind = (if ss_managed r then ''focus_block'' else ss_availability r),
                  cz_sync_status = ss_sync_status r\<rparr>)
                (sort_key ss_start (of_workspace ss_workspace w (vd_snapshots db))),
              cv_flexible = map summary_of (filter (\<lambda>r. tr_id r \<notin> set allocated) tasks)\<rparr>))"

section \<open>Review\<close>

definition weekday :: "date \<Rightarrow> int" where
  "weekday d = (d + 3) mod 7"

text \<open>The minutes of one stored allocation that starts within \<open>start\<close> and \<open>stop\<close>.\<close>

definition planned_minutes_of :: "(string \<Rightarrow> datetime res) \<Rightarrow> instant \<Rightarrow> instant \<Rightarrow> core_json \<Rightarrow> int" where
  "planned_minutes_of other_iso start stop item = (case item of
     CObj kvs \<Rightarrow> (case (dget kvs ''start'' CNull, dget kvs ''end'' CNull) of
        (CStr s, CStr e) \<Rightarrow> (case (fromisoformat other_iso s, fromisoformat other_iso e) of
           (Inr (Aware a u), Inr (Aware b v)) \<Rightarrow>
              if start \<le> a - u \<and> a - u < stop \<and> a - u < b - v then minutes_between (a - u) (b - v) else 0
         | _ \<Rightarrow> 0)
      | _ \<Rightarrow> 0)
   | _ \<Rightarrow> 0)"

definition planned_minutes :: "(string \<Rightarrow> datetime res) \<Rightarrow> instant \<Rightarrow> instant \<Rightarrow> core_object \<Rightarrow> int" where
  "planned_minutes other_iso start stop output = (case dget output ''base_allocations'' CNull of
     CList items \<Rightarrow> sum_list (map (planned_minutes_of other_iso start stop) items)
   | _ \<Rightarrow> 0)"

definition review_view :: "tzdb \<Rightarrow> (string \<Rightarrow> datetime res) \<Rightarrow> current_actor \<Rightarrow> instant \<Rightarrow> views_db \<Rightarrow> review_response api" where
  "review_view tz other_iso actor now db =
     (let w = ac_workspace actor in
      case workspace_timezone tz w db of Inl e \<Rightarrow> Inl e
      | Inr z \<Rightarrow>
        (let d = local_date z now; period_start = d - weekday d; period_end = period_start + 7;
           start = zone_midnight z period_start; stop = zone_midnight z period_end
         in case current_plan w (db_plans db) of Inl e \<Rightarrow> Inl e
         | Inr snapshot \<Rightarrow>
           (let planned = (case snapshot of None \<Rightarrow> 0 | Some p \<Rightarrow> planned_minutes other_iso start stop (pl_output p));
              sessions = filter (\<lambda>r. sn_workspace r = w \<and> start \<le> sn_started_at r \<and> sn_started_at r < stop) (vd_sessions db);
              proposals = filter (\<lambda>r. pm_workspace r = w \<and> pm_status r = ''pending'') (db_proposals db);
              actual = sum_list (map sn_actual_minutes sessions)
            in if list_all (\<lambda>r. json_objects (pm_targets r)) proposals
               then Inr \<lparr>rw_period_start = period_start, rw_period_end = period_end, rw_planned = planned, rw_actual = actual,
                 rw_missed = max 0 (planned - actual),
                 rw_pending = map (\<lambda>r. \<lparr>pq_id = uuid_str (pm_id r), pq_kind = pm_kind r, pq_level = pm_level r,
                   pq_status = pm_status r, pq_version = pm_version r, pq_minutes = pm_minutes r, pq_targets = pm_targets r\<rparr>) proposals\<rparr>
               else Inl validation_error)))"

section \<open>A view of the own workspace\<close>

text \<open>The rows of a workspace: a candidate belongs to the workspace of its item.\<close>

definition own_rows :: "uuid \<Rightarrow> views_db \<Rightarrow> views_db" where
  "own_rows w db = db\<lparr>db_proposals := of_workspace pm_workspace w (db_proposals db), db_tasks := of_workspace tr_workspace w (db_tasks db),
     db_milestones := of_workspace mr_workspace w (db_milestones db), db_workspaces := filter (\<lambda>r. ws_id r = w) (db_workspaces db),
     db_events := of_workspace cr_workspace w (db_events db), db_externals := of_workspace er_workspace w (db_externals db),
     db_external_tasks := of_workspace lr_workspace w (db_external_tasks db), db_plans := of_workspace pl_workspace w (db_plans db),
     db_approvals := [], db_audit := [], db_windows := [], db_dependencies := [], db_excluded := [],
     vd_workstreams := of_workspace wm_workspace w (vd_workstreams db), vd_items := of_workspace ir_workspace w (vd_items db),
     vd_candidates := filter (\<lambda>c. list_ex (\<lambda>r. ir_id r = kr_item c \<and> ir_workspace r = w) (vd_items db)) (vd_candidates db),
     vd_connections := of_workspace cn_workspace w (vd_connections db), vd_snapshots := of_workspace ss_workspace w (vd_snapshots db),
     vd_sessions := of_workspace sn_workspace w (vd_sessions db)\<rparr>"

lemma own_sel:
  "db_proposals (own_rows w db) = of_workspace pm_workspace w (db_proposals db)"
  "db_tasks (own_rows w db) = of_workspace tr_workspace w (db_tasks db)"
  "db_milestones (own_rows w db) = of_workspace mr_workspace w (db_milestones db)"
  "db_workspaces (own_rows w db) = filter (\<lambda>r. ws_id r = w) (db_workspaces db)"
  "db_events (own_rows w db) = of_workspace cr_workspace w (db_events db)"
  "db_externals (own_rows w db) = of_workspace er_workspace w (db_externals db)"
  "db_external_tasks (own_rows w db) = of_workspace lr_workspace w (db_external_tasks db)"
  "db_plans (own_rows w db) = of_workspace pl_workspace w (db_plans db)"
  "vd_workstreams (own_rows w db) = of_workspace wm_workspace w (vd_workstreams db)"
  "vd_items (own_rows w db) = of_workspace ir_workspace w (vd_items db)"
  "vd_candidates (own_rows w db) = filter (\<lambda>c. list_ex (\<lambda>r. ir_id r = kr_item c \<and> ir_workspace r = w) (vd_items db)) (vd_candidates db)"
  "vd_connections (own_rows w db) = of_workspace cn_workspace w (vd_connections db)"
  "vd_snapshots (own_rows w db) = of_workspace ss_workspace w (vd_snapshots db)"
  "vd_sessions (own_rows w db) = of_workspace sn_workspace w (vd_sessions db)"
  by (simp_all add: own_rows_def)

lemma own_filter: "filter (\<lambda>r. g r = w \<and> P r) (of_workspace g w rows) = filter (\<lambda>r. g r = w \<and> P r) rows"
  by (simp add: of_workspace_def conj_commute conj_left_commute cong: conj_cong)

lemma own_twice: "of_workspace g w (of_workspace g w rows) = of_workspace g w rows"
  by (simp add: of_workspace_def)

lemma own_row: "owned_row key g w k (of_workspace g w rows) = owned_row key g w k rows"
  by (induction rows) (auto simp: owned_row_def of_workspace_def)

lemma own_tasks: "ordered_tasks w ids (of_workspace tr_workspace w rows) = ordered_tasks w ids rows"
  by (simp add: ordered_tasks_def own_row)

lemma own_plan: "current_plan w (of_workspace pl_workspace w rows) = current_plan w rows"
  by (simp add: current_plan_def own_filter)

lemma own_find: "find (\<lambda>r. ws_id r = w) (filter (\<lambda>r. ws_id r = w) rows) = find (\<lambda>r. ws_id r = w) rows"
  by (induction rows) auto

lemma own_fixed: "fixed_events_of w a b (of_workspace cr_workspace w rows) = fixed_events_of w a b rows"
  by (simp add: fixed_events_of_def own_filter)

lemma own_links: "linked_externals w ids (own_rows w db) = linked_externals w ids db"
proof -
  have "list_ex (\<lambda>l. lr_dependency l = er_id e \<and> lr_workspace l = er_workspace e \<and> lr_task l \<in> set ids) (of_workspace lr_workspace w rows)
      \<longleftrightarrow> list_ex (\<lambda>l. lr_dependency l = er_id e \<and> lr_workspace l = er_workspace e \<and> lr_task l \<in> set ids) rows" if "er_workspace e = w" for e rows
    using that by (auto simp: of_workspace_def list_ex_iff)
  then show ?thesis by (auto simp: linked_externals_def own_sel own_filter intro!: filter_cong)
qed

lemma own_candidates:
  "List.map_filter f (filter P xs) = List.map_filter f xs" if "\<And>x. \<not> P x \<Longrightarrow> f x = None"
  using that by (induction xs) (simp_all add: List.map_filter_simps split: option.split)

lemma own_today: "today_view tz actor now (own_rows (ac_workspace actor) db) = today_view tz actor now db"
  unfolding today_view_def workspace_timezone_def Let_def own_sel own_plan own_find own_fixed own_tasks by (rule refl)

lemma own_inbox: "inbox_view actor (own_rows (ac_workspace actor) db) = inbox_view actor db"
proof -
  have none: "owned_row ir_id ir_workspace w k rows = None" if "\<not> list_ex (\<lambda>r. ir_id r = k \<and> ir_workspace r = w) rows" for w k rows
    using that by (auto simp: owned_row_def find_None_iff list_ex_iff)
  have "List.map_filter (\<lambda>c. if kr_decision c \<noteq> ''HOLD'' then None
            else map_option (Pair c) (owned_row ir_id ir_workspace w (kr_item c) (vd_items db)))
        (filter (\<lambda>c. list_ex (\<lambda>r. ir_id r = kr_item c \<and> ir_workspace r = w) (vd_items db)) (vd_candidates db)) =
      List.map_filter (\<lambda>c. if kr_decision c \<noteq> ''HOLD'' then None
            else map_option (Pair c) (owned_row ir_id ir_workspace w (kr_item c) (vd_items db))) (vd_candidates db)" for w
    by (intro own_candidates) (simp add: none)
  then show ?thesis unfolding inbox_view_def Let_def own_sel own_row by simp
qed

lemma own_projects: "project_rows collate w (own_rows w db) = project_rows collate w db"
  unfolding project_rows_def own_sel own_plan own_twice by (rule refl)

lemma own_calendar: "calendar_view actor (own_rows (ac_workspace actor) db) = calendar_view actor db"
  unfolding calendar_view_def Let_def own_sel own_plan own_twice own_filter by (rule refl)

lemma own_review: "review_view tz other_iso actor now (own_rows (ac_workspace actor) db) = review_view tz other_iso actor now db"
  unfolding review_view_def workspace_timezone_def Let_def own_sel own_plan own_find own_filter by (rule refl)

section \<open>Projects\<close>

lemma progress_range: "finished \<le> n \<Longrightarrow> 0 \<le> progress_percent finished n \<and> progress_percent finished n \<le> 100"
proof (cases "n = 0")
  case False
  assume le: "finished \<le> n"
  define x where "x = (of_nat (finished * 100) / of_nat n :: rat)"
  have "(of_nat (finished * 100) :: rat) \<le> of_nat (n * 100)" using le unfolding of_nat_le_iff by simp
  then have x: "0 \<le> x" "x \<le> of_int 100" using False by (simp_all add: x_def field_simps)
  have "rne (of_int 0) \<le> rne (fl x)" using fl_ge_int [of 0 x] x by (intro rne_mono) simp
  moreover have "rne (fl x) \<le> rne (of_int 100)" using fl_le_int [of x 100] x by (intro rne_mono) simp
  moreover have "progress_percent finished n = rne (fl x)" using False by (simp add: progress_percent_def fdiv_def x_def)
  ultimately show ?thesis by (simp only: rne_of_int)
qed (simp add: progress_percent_def)

lemma progress_complete: "0 < n \<Longrightarrow> progress_percent n n = 100"
  using fl_of_int_exact [of 100] by (simp add: progress_percent_def fdiv_def)

lemma find_key: "inj_on f (set xs) \<Longrightarrow> x \<in> set xs \<Longrightarrow> find (\<lambda>y. f y = f x) xs = Some x"
  by (induction xs) (auto simp: inj_on_def)

lemma first_max_greatest: "key x \<le> key (first_max key best xs) \<and> first_max key best xs \<in> set (best # xs)" if "x \<in> set (best # xs)"
  using that
proof (induction xs arbitrary: best x)
  case (Cons y ys)
  let ?b = "if key best < key y then y else best"
  have "key ?b \<le> key (first_max key ?b ys) \<and> first_max key ?b ys \<in> set (?b # ys)" using Cons.IH [of ?b ?b] by simp
  moreover have "key x \<le> key (first_max key ?b ys)" if "x \<in> set ys" using Cons.IH [of x ?b] that by simp
  ultimately show ?case using Cons.prems by (auto split: if_splits)
qed simp

definition project_risk :: "(uuid list \<Rightarrow> uuid list) \<Rightarrow> uuid \<Rightarrow> milestone_row list \<Rightarrow> risk_view \<Rightarrow> string \<times> string list" where
  "project_risk iter k milestones risks =
     (case List.map_filter (map_of risks) (iter (map mr_id (filter (\<lambda>r. mr_workstream r = k) milestones))) of
        [] \<Rightarrow> (''UNASSESSED'', []) | v # vs \<Rightarrow> first_max (\<lambda>v. level_rank (fst v)) v vs)"

lemma summary_unfold:
  "summary_of_project iter workstream milestones tasks risks =
     (let project_tasks = filter (\<lambda>r. tr_workstream r = wm_id workstream) tasks;
        finished = length (filter (\<lambda>r. tr_status r = ''done'') project_tasks)
      in \<lparr>pj_id = uuid_str (wm_id workstream), pj_title = wm_name workstream, pj_status = wm_status workstream,
          pj_progress = progress_percent finished (length project_tasks),
          pj_risk_level = fst (project_risk iter (wm_id workstream) milestones risks),
          pj_risk_reasons = snd (project_risk iter (wm_id workstream) milestones risks),
          pj_task_count = length project_tasks, pj_done_count = finished\<rparr>)"
  by (simp add: summary_of_project_def project_risk_def Let_def case_prod_beta)

lemma project_risk_worst:
  assumes "\<And>xs. set (iter xs) = set xs" and "m \<in> set milestones" "mr_workstream m = k" "map_of risks (mr_id m) = Some v"
  shows "level_rank (fst v) \<le> level_rank (fst (project_risk iter k milestones risks))"
proof -
  let ?vs = "List.map_filter (map_of risks) (iter (map mr_id (filter (\<lambda>r. mr_workstream r = k) milestones)))"
  have "mr_id m \<in> set (iter (map mr_id (filter (\<lambda>r. mr_workstream r = k) milestones)))" using assms(1-3) by auto
  then have v: "v \<in> set ?vs" using assms(4) by (force simp: List.map_filter_def)
  show ?thesis
  proof (cases ?vs)
    case (Cons b bs)
    then show ?thesis using v first_max_greatest [of v b bs "\<lambda>v. level_rank (fst v)"] by (simp add: project_risk_def)
  qed (use v in simp)
qed

text \<open>Rounding a half to even: one open task of two hundred, and the project is shown as complete.\<close>

lemma progress_hundred_early: "progress_percent 199 200 = 100"
proof -
  have half: "fl (199 / 2) = 199 / 2" using fl_evalI [of "199 / 2" "- 46" 7001690045677568] by (simp add: pow2_def)
  have "\<lfloor>199 / 2 :: rat\<rfloor> = 99" by linarith
  then have even: "rne (199 / 2) = 100" by (simp add: rne_def)
  have "progress_percent 199 200 = rne (fl (199 / 2))" by (simp add: progress_percent_def fdiv_def)
  then show ?thesis unfolding half even .
qed

section \<open>What a stored plan is shown as\<close>

lemma plan_today:
  assumes "run_plan env v = Inr out" and "out_status out = ''OK''"
  shows "\<exists>td. out_today out = Some td \<and> length (td_must_do td) \<le> 3
    \<and> td_core td = (case td_must_do td of [] \<Rightarrow> None | t # _ \<Rightarrow> Some t) \<and> td_opportunistic td = []
    \<and> set (td_must_do td) \<union> set (td_next_queue td) \<union> set (td_excluded td) \<subseteq> ts_id ` set (active_tasks v)"
proof -
  obtain ps risks where td: "out_today out = Some \<lparr>td_core = tv_core view, td_must_do = tv_must_do view,
       td_next_queue = tv_next_queue view, td_opportunistic = tv_opportunistic view, td_excluded = tv_excluded view\<rparr>"
    if "view = build_today_plan (ev_tz env) (ev_shared env) (ev_iter env) v ps risks" for view
    using assms unfolding run_plan_def plan_def
    by (auto simp: invalid_output_def res_simps Let_def mk_output_def split: normalization_result.splits)
  define view where "view = build_today_plan (ev_tz env) (ev_shared env) (ev_iter env) v ps risks"
  obtain full where full: "set full = {t. done_today (ev_tz env) v ps t}" "tv_must_do view = map ts_id (take 3 full)"
    "tv_core view = (case full of [] \<Rightarrow> None | t # _ \<Rightarrow> Some (ts_id t))"
    "set (tv_next_queue view) = ts_id ` {t \<in> set (active_tasks v). 0 < planned_today (ev_tz env) v ps (ts_id t)
           \<and> planned_today (ev_tz env) v ps (ts_id t) < ts_remaining_base t}"
    "set (tv_excluded view) = ts_id ` {t \<in> set (active_tasks v). planned_today (ev_tz env) v ps (ts_id t) \<le> 0}"
    using build_today_plan_lists [OF view_def] by (elim exE conjE) (rule that)
  have "set full \<subseteq> set (active_tasks v)" by (auto simp: full(1) done_today_def set_active)
  then have "set (tv_must_do view) \<subseteq> ts_id ` set (active_tasks v)"
    unfolding full(2) set_map by (intro image_mono) (use set_take_subset in fast)
  moreover have "tv_opportunistic view = []" by (simp add: view_def build_today_plan_def Let_def)
  moreover have "tv_core view = (case tv_must_do view of [] \<Rightarrow> None | t # _ \<Rightarrow> Some t)"
    by (cases full) (simp_all add: full(2,3))
  moreover have "set (tv_next_queue view) \<subseteq> ts_id ` set (active_tasks v)" "set (tv_excluded view) \<subseteq> ts_id ` set (active_tasks v)"
    unfolding full(4,5) by (intro image_mono; blast)+
  moreover have "length (tv_must_do view) \<le> 3" by (simp add: full(2))
  ultimately show ?thesis using td [OF view_def] by simp
qed

lemma read_task:
  assumes "rmap f xs = Inr ys" and "y \<in> set ys"
  shows "\<exists>x\<in>set xs. f x = Inr y"
proof -
  have all: "list_all2 (\<lambda>x y. f x = Inr y) xs ys" using assms(1) by (simp add: rmap_Inr_all2)
  obtain k where "k < length ys" "ys ! k = y" using assms(2) by (auto simp: in_set_conv_nth)
  then have "k < length xs" "f (xs ! k) = Inr y" using list_all2_nthD2 [OF all, of k] list_all2_lengthD [OF all] by auto
  then show ?thesis by auto
qed

lemma planned_task_row:
  assumes "rmap planning_task_snapshot (of_workspace tr_workspace w rows) = Inr tasks" and "i \<in> ts_id ` set tasks"
  shows "\<exists>r. owned_row tr_id tr_workspace w (tid_value i) rows = Some r \<and> tr_id r = tid_value i"
proof -
  obtain t where t: "t \<in> set tasks" "i = ts_id t" using assms(2) by blast
  moreover obtain r where "r \<in> set (of_workspace tr_workspace w rows)" "snapshot_from_model r = Inr t"
    using read_task [OF assms(1) t(1)] unfolding planning_task_snapshot_def by blast
  ultimately have "i = TaskId (tr_id r)" "r \<in> set rows" "tr_workspace r = w"
    by (auto simp: snapshot_from_model_Inr snapshot_of_row_def of_workspace_def)
  then have "owned_row tr_id tr_workspace w (tid_value i) rows \<noteq> None" by (auto simp: owned_row_def find_None_iff)
  then obtain q where "owned_row tr_id tr_workspace w (tid_value i) rows = Some q" by blast
  then show ?thesis using owned_row_facts [of tr_id tr_workspace w "tid_value i" rows q] by blast
qed

lemma shown_in_order:
  assumes "rmap planning_task_snapshot (of_workspace tr_workspace w rows) = Inr tasks" and "set ts \<subseteq> ts_id ` set tasks"
  shows "map tm_id (ordered_tasks w (map tid_value ts) rows) = map (\<lambda>t. uuid_str (tid_value t)) ts"
  using assms(2)
proof (induction ts)
  case (Cons t ts)
  then show ?case using planned_task_row [OF assms(1), of t]
    by (auto simp: ordered_tasks_def List.map_filter_simps summary_of_def)
qed (simp add: ordered_tasks_def List.map_filter_simps)

lemma core_ids_read: "uuid_list (core_ids ts) = map tid_value ts"
  by (induction ts) (simp_all add: uuid_list_def core_ids_def core_id_def uuid_of_def List.map_filter_simps py_uuid_hex)

lemma stored_current:
  assumes ok: "plans_ok (db_plans db)" and run: "create_plan env now created elapsed i w reason db m = (Inr d, db1, m1)"
  shows "\<exists>v out. build_planner_input (ev_iso env) (ev_tz env) w now db = Inr v \<and> run_plan env v = Inr out \<and> out_status out = ''OK''
    \<and> current_plan w (db_plans db1) = Inr (Some (plan_row_of i w reason created out)) \<and> db_tasks db1 = db_tasks db
    \<and> db_workspaces db1 = db_workspaces db"
proof -
  obtain v out where out: "build_planner_input (ev_iso env) (ev_tz env) w now db = Inr v" "run_plan env v = Inr out"
    "out_status out = ''OK''" "latest_valid_plan w (db_plans db1) = Some (plan_row_of i w reason created out)"
    using create_plan_outcome [OF ok run] by auto
  have "create_plan_inner env now created i w reason db = Inr (d, db1)" using create_plan_result [OF run] by simp
  then obtain plans where "db1 = db\<lparr>db_plans := plans\<rparr>" by (rule create_plan_inner_Inr)
  moreover have "plans_ok (db_plans db1)" using plan_step_ok [OF plan_step.run [OF run] ok] by simp
  then have "current_plan w (db_plans db1) = Inr (Some (plan_row_of i w reason created out))"
  proof (cases rule: current_plans_cases [of "db_plans db1" w])
    case none
    then show ?thesis using out(4) latest_valid_plan_current(1) [of w "db_plans db1"] by simp
  next
    case (one p)
    then show ?thesis using out(4) latest_valid_plan_current(2) [OF one] one
      by (simp add: current_plan_def current_plans_def one_or_none_def)
  qed
  ultimately show ?thesis using out by simp
qed

lemma canonical_core_sections:
  "today_payload (canonical_core out) = (case core_today (out_today out) of CObj kvs \<Rightarrow> kvs | _ \<Rightarrow> [])"
  "dget (canonical_core out) ''base_allocations'' CNull = CList (map core_allocation (sorted_base out))"
  by (simp_all add: today_payload_def canonical_core_def dget_def core_today_def)

text \<open>The minutes of the blocks that start within a period.\<close>

definition minutes_starting :: "instant \<Rightarrow> instant \<Rightarrow> task_allocation list \<Rightarrow> int" where
  "minutes_starting start stop as = sum_list (map (\<lambda>a. minutes_between (al_start a) (al_end a))
     (filter (\<lambda>a. start \<le> al_start a \<and> al_start a < stop) as))"

lemma planned_minutes_stored:
  assumes run: "run_plan env v = Inr out" and dates: "\<forall>a\<in>set (sorted_base out). py_datetime (al_start a) \<and> py_datetime (al_end a)"
  shows "planned_minutes other_iso start stop (canonical_core out) = minutes_starting start stop (sorted_base out)"
proof -
  have one: "planned_minutes_of other_iso start stop (core_allocation a) =
      (if start \<le> al_start a \<and> al_start a < stop then minutes_between (al_start a) (al_end a) else 0)"
    if "py_datetime (al_start a)" "py_datetime (al_end a)" "al_start a < al_end a" for a
    using that by (simp add: planned_minutes_of_def core_allocation_def dget_def fromisoformat_instant)
  have "sum_list (map (planned_minutes_of other_iso start stop) (map core_allocation as)) = minutes_starting start stop as"
    if "\<forall>a\<in>set as. py_datetime (al_start a) \<and> py_datetime (al_end a) \<and> al_start a < al_end a" for as
    using that by (induction as) (simp_all add: one minutes_starting_def)
  then show ?thesis using dates sorted_base_wf [OF run] by (simp add: planned_minutes_def canonical_core_sections)
qed

lemma weekday_week: "d - weekday d \<le> d \<and> d < d - weekday d + 7 \<and> weekday (d - weekday d) = 0"
proof -
  have "d - (d + 3) mod 7 + 3 = 7 * ((d + 3) div 7)" by presburger
  then show ?thesis by (simp add: weekday_def)
qed

section \<open>A concrete workspace\<close>

definition a_viewer :: current_actor where
  "a_viewer = \<lparr>ac_user = 1, ac_workspace = 3, ac_session = 1\<rparr>"

definition a_views_db :: "plan_row list \<Rightarrow> views_db" where
  "a_views_db plans = planning_db.extend (a_planning_db\<lparr>db_plans := plans\<rparr>)
     \<lparr>vd_workstreams = [\<lparr>wm_id = 1, wm_workspace = 3, wm_name = ''W'', wm_status = ''active''\<rparr>], vd_items = [], vd_candidates = [],
      vd_connections = [], vd_snapshots = [],
      vd_sessions = [\<lparr>sn_id = 1, sn_workspace = 3, sn_task = None, sn_status = ''completed'', sn_actual_minutes = 25,
        sn_blocked_reason = None, sn_started_at = 0\<rparr>]\<rparr>"

lemmas views_eval = a_viewer_def a_views_db_def planning_db.extend_def a_planning_db_def utc_tzdb_def

text \<open>
  C33. A browser view shows the rows of the actor's workspace and nothing else: each of the six
  views is unchanged when every row of every other workspace is taken out of every table.
\<close>

theorem views_isolated:
  "let own = own_rows (ac_workspace actor) db in
     today_view tz actor now own = today_view tz actor now db
   \<and> inbox_view actor own = inbox_view actor db
   \<and> projects_view collate iter actor own = projects_view collate iter actor db
   \<and> get_project_detail collate iter actor i own = get_project_detail collate iter actor i db
   \<and> calendar_view actor own = calendar_view actor db
   \<and> review_view tz other_iso actor now own = review_view tz other_iso actor now db"
  unfolding Let_def own_today own_inbox own_calendar own_review projects_view_def get_project_detail_def project_detail_view_def
      own_projects own_links by simp

text \<open>
  C34. The two project views agree: every project that the list shows has a detail view under the
  shown id, with the same summary, whose tasks are as many and as many of them done as the summary
  says; the progress is between 0 and 100 and is 100 when everything is done; and no milestone of the
  project has a stored risk that ranks above the shown level.
\<close>

theorem project_views_agree:
  assumes "distinct (map wm_id (vd_workstreams db))" and iter: "\<And>xs. set (iter xs) = set xs"
    and "projects_view collate iter actor db = Inr ps" and "p \<in> set ps"
  shows "\<exists>d. get_project_detail collate iter actor (pj_id p) db = Inr d \<and> pd_project d = p
    \<and> length (pd_tasks d) = pj_task_count p
    \<and> length (filter (\<lambda>t. tm_status t = ''done'') (pd_tasks d)) = pj_done_count p
    \<and> 0 \<le> pj_progress p \<and> pj_progress p \<le> 100
    \<and> (pj_done_count p = pj_task_count p \<and> pd_tasks d \<noteq> [] \<longrightarrow> pj_progress p = 100)
    \<and> (\<forall>plan m v. current_plan (ac_workspace actor) (db_plans db) = Inr (Some plan) \<and> m \<in> set (db_milestones db)
         \<and> mr_workspace m = ac_workspace actor \<and> uuid_str (mr_workstream m) = pj_id p
         \<and> map_of (risk_by_milestone (pl_output plan)) (mr_id m) = Some v
         \<longrightarrow> level_rank (fst v) \<le> level_rank (pj_risk_level p))"
proof -
  obtain streams ms ts core where rows: "project_rows collate (ac_workspace actor) db = Inr (streams, ms, ts, core)"
    and ps: "ps = map (\<lambda>r. summary_of_project iter r ms ts (risk_by_milestone core)) streams"
    using assms(3) by (auto simp: projects_view_def split: sum.splits)
  then obtain r where r: "r \<in> set streams" "p = summary_of_project iter r ms ts (risk_by_milestone core)"
    using assms(4) by auto
  have streams: "streams = sort_key (\<lambda>r. collate (wm_name r)) (of_workspace wm_workspace (ac_workspace actor) (vd_workstreams db))"
    and ms: "ms = of_workspace mr_workspace (ac_workspace actor) (db_milestones db)"
    and stored: "current_plan (ac_workspace actor) (db_plans db) = Inr (Some plan) \<Longrightarrow> core = pl_output plan" for plan
    using rows by (auto simp: project_rows_def split: sum.splits option.splits)
  have id: "pj_id p = uuid_str (wm_id r)" by (simp add: r(2) summary_unfold Let_def)
  have "inj_on wm_id (set (vd_workstreams db))" using assms(1) by (simp add: distinct_map)
  then have "inj_on wm_id (set streams)" by (rule inj_on_subset) (auto simp: streams of_workspace_def)
  then have find: "find (\<lambda>x. wm_id x = wm_id r) streams = Some r" using r(1) by (rule find_key)
  let ?ts = "filter (\<lambda>x. tr_workstream x = wm_id r) ts"
  obtain d where d: "get_project_detail collate iter actor (pj_id p) db = Inr d" "pd_tasks d = map summary_of ?ts"
    "pd_project d = summary_of_project iter r (filter (\<lambda>x. mr_workstream x = wm_id r) ms) ?ts (risk_by_milestone core)"
    by (simp add: get_project_detail_def project_detail_view_def id py_uuid_str rows find Let_def)
  have "pd_project d = p" by (simp add: d(3) r(2) summary_unfold project_risk_def Let_def)
  moreover have "length (filter (\<lambda>t. tm_status t = ''done'') (pd_tasks d)) = pj_done_count p" "length (pd_tasks d) = pj_task_count p"
    by (simp_all add: d(2) r(2) summary_unfold Let_def filter_map comp_def summary_of_def)
  moreover have "pj_done_count p \<le> pj_task_count p" "pj_progress p = progress_percent (pj_done_count p) (pj_task_count p)"
    "pd_tasks d \<noteq> [] \<longrightarrow> 0 < pj_task_count p"
    by (simp_all add: d(2) r(2) summary_unfold Let_def del: filter_filter)
  then have "0 \<le> pj_progress p \<and> pj_progress p \<le> 100 \<and> (pj_done_count p = pj_task_count p \<and> pd_tasks d \<noteq> [] \<longrightarrow> pj_progress p = 100)"
    using progress_range [of "pj_done_count p" "pj_task_count p"] progress_complete [of "pj_task_count p"] by simp
  moreover have "level_rank (fst v) \<le> level_rank (pj_risk_level p)"
    if "current_plan (ac_workspace actor) (db_plans db) = Inr (Some plan)" "m \<in> set (db_milestones db)" "mr_workspace m = ac_workspace actor"
      "uuid_str (mr_workstream m) = pj_id p" "map_of (risk_by_milestone (pl_output plan)) (mr_id m) = Some v" for plan m v
  proof -
    have "mr_workstream m = wm_id r" using that(4) id py_uuid_str by (metis option.inject)
    then show ?thesis using project_risk_worst [OF iter, of m ms "wm_id r" "risk_by_milestone core" v] that stored [OF that(1)]
      by (simp add: ms of_workspace_def r(2) summary_unfold Let_def)
  qed
  ultimately show ?thesis using d(1) by blast
qed

lemma project_views_agree_witness:
  "\<exists>d. get_project_detail (\<lambda>_. 0) (\<lambda>x. x) a_viewer (uuid_str 1) (a_views_db []) = Inr d \<and> pj_task_count (pd_project d) = length (pd_tasks d)"
proof -
  obtain p where p: "projects_view (\<lambda>_. 0) (\<lambda>x. x) a_viewer (a_views_db []) = Inr [p]" "pj_id p = uuid_str 1"
    by (simp add: projects_view_def project_rows_def current_plan_def one_or_none_def views_eval of_workspace_def summary_unfold Let_def)
  have "distinct (map wm_id (vd_workstreams (a_views_db [])))" by (simp add: views_eval)
  from project_views_agree [OF this _ p(1)] p(2) show ?thesis by auto
qed





end
