(* ===== verification/Source_Uploads.thy ===== *)
theory Source_Uploads
  imports Inbox Uploads Utf8_Text
begin

text \<open>
  Uploads of sources over HTTP (\<open>inbox/router.py\<close>, \<open>schemas.py\<close>, \<open>repository.py\<close>): reading the body
  under a bound, the content check, and storing an object and its row. The object storage and
  the database can fail in the middle; which of the operations fail is a parameter of a call.
  The results: rows and stored objects agree after any history of uploads in which a failure is
  what it seems, each object is what its row says, and what a lost acknowledgement does.
\<close>

section \<open>Validation\<close>

definition validate_source_upload :: "string \<Rightarrow> int \<Rightarrow> unit api" where
  "validate_source_upload content_type size_bytes =
     (if content_type \<notin> set SUPPORTED_UPLOAD_TYPES then Inl (DomainRuleError ''UNSUPPORTED_SOURCE_TYPE'' (''unsupported type '' @ content_type))
      else if size_bytes \<le> 0 \<or> int MAX_UPLOAD_BYTES < size_bytes
      then Inl (DomainRuleError ''SOURCE_TOO_LARGE'' (''size '' @ int_str size_bytes @ '' exceeds limit''))
      else Inr ())"

definition validate_source_filename :: "string \<Rightarrow> unit api" where
  "validate_source_filename filename =
     (if filename \<in> {''.'', ''..''} \<or> CHR 0x2F \<in> set filename \<or> CHR 0x5C \<in> set filename \<or> list_ex (\<lambda>c. (of_char c :: nat) < 32) filename
      then Inl (DomainRuleError ''INVALID_SOURCE_FILENAME'' ''filename must be a single safe segment'') else Inr ())"

text \<open>The framework has checked before the handler that the query's file name has 1 to 255 characters.\<close>

section \<open>Reading the body\<close>

fun read_chunks :: "nat list list \<Rightarrow> nat \<Rightarrow> nat list list \<Rightarrow> nat list option" where
  "read_chunks [] used acc = Some (concat (rev acc))"
| "read_chunks (c # cs) used acc =
     (let used = used + length c in if MAX_UPLOAD_BYTES < used then None else read_chunks cs used (c # acc))"

definition read_bounded_upload :: "string option \<Rightarrow> nat list list \<Rightarrow> nat list option" where
  "read_bounded_upload content_length stream = (case content_length of
     None \<Rightarrow> read_chunks stream 0 []
   | Some header \<Rightarrow> (case py_int10 header of
       None \<Rightarrow> None
     | Some declared_size \<Rightarrow> if declared_size < 0 \<or> int MAX_UPLOAD_BYTES < declared_size then None else read_chunks stream 0 []))"

section \<open>Storing\<close>

text \<open>A commit can succeed, fail, or succeed without the caller learning it: then it raises too.\<close>

datatype commit_outcome = Committed | Not_Committed | Committed_Unacknowledged

record upload_faults =
  uf_put_fails :: bool
  uf_commit :: commit_outcome
  uf_delete_fails :: bool

record upload_db =
  up_objects :: "(string, nat list) dict"
  up_artifacts :: "artifact_row list"

text \<open>The response's \<open>upload_url\<close> is never set.\<close>

datatype upload_error = Api_Failure api_exn | Storage_Failure | Commit_Failure

record upload_response =
  ux_id :: string
  ux_storage_key :: string
  ux_status :: string

datatype upload_reply = Created upload_response | Rejected int string string

definition storage_key_of :: "uuid \<Rightarrow> uuid \<Rightarrow> string \<Rightarrow> string" where
  "storage_key_of w i filename = ''workspaces/'' @ uuid_str w @ ''/source-artifacts/'' @ uuid_str i @ ''/'' @ filename"

text \<open>\<open>SourceArtifactRepository.add\<close>: the flush checks column lengths and the primary key.\<close>

definition add_artifact :: "artifact_row \<Rightarrow> artifact_row list \<Rightarrow> artifact_row list api" where
  "add_artifact r rows =
     (if 255 < length (sa_filename r) \<or> 120 < length (sa_content_type r) \<or> 500 < length (sa_storage_key r)
         \<or> (case sa_sha256 r of None \<Rightarrow> False | Some h \<Rightarrow> 64 < length h) then Inl DataError
      else if sa_id r \<in> set (map sa_id rows) then Inl IntegrityError
      else Inr (rows @ [r]))"

definition persist_artifact :: "upload_faults \<Rightarrow> uuid \<Rightarrow> string \<Rightarrow> string \<Rightarrow> string option \<Rightarrow> current_actor \<Rightarrow> nat list \<Rightarrow> upload_db
    \<Rightarrow> (upload_error + upload_response) \<times> upload_db" where
  "persist_artifact faults artifact_id filename content_type sha actor content db =
     (case validate_source_filename filename of Inl e \<Rightarrow> (Inl (Api_Failure e), db)
      | Inr _ \<Rightarrow>
        (let key = storage_key_of (ac_workspace actor) artifact_id filename in
         if uf_put_fails faults then (Inl Storage_Failure, db)
         else
           (let stored = db\<lparr>up_objects := AList.update key content (up_objects db)\<rparr>;
                row = \<lparr>sa_id = artifact_id, sa_workspace = ac_workspace actor, sa_filename = filename, sa_content_type = content_type,
                  sa_size_bytes = int (length content), sa_sha256 = sha, sa_storage_key = key, sa_status = ''NEW''\<rparr>;
                abandon = (\<lambda>e db. if uf_delete_fails faults then (Inl Storage_Failure, db)
                  else (Inl e, db\<lparr>up_objects := AList.delete key (up_objects db)\<rparr>))
            in case add_artifact row (up_artifacts stored) of
                 Inl e \<Rightarrow> abandon (Api_Failure e) stored
               | Inr rows \<Rightarrow> (case uf_commit faults of
                   Committed \<Rightarrow> (Inr \<lparr>ux_id = uuid_str artifact_id, ux_storage_key = key, ux_status = ''NEW''\<rparr>, stored\<lparr>up_artifacts := rows\<rparr>)
                 | Not_Committed \<Rightarrow> abandon Commit_Failure stored
                 | Committed_Unacknowledged \<Rightarrow> abandon Commit_Failure (stored\<lparr>up_artifacts := rows\<rparr>)))))"

definition upload_source :: "(nat list \<Rightarrow> string) \<Rightarrow> upload_faults \<Rightarrow> uuid \<Rightarrow> current_actor \<Rightarrow> string \<Rightarrow> string option \<Rightarrow> string \<Rightarrow> nat list list
    \<Rightarrow> upload_db \<Rightarrow> (upload_error + upload_reply) \<times> upload_db" where
  "upload_source sha256 faults artifact_id actor filename content_length declared stream db =
     (case validate_source_filename filename of Inl e \<Rightarrow> (Inl (Api_Failure e), db)
      | Inr _ \<Rightarrow> (case read_bounded_upload content_length stream of
          None \<Rightarrow> (Inr (Rejected 422 ''UPLOAD_REJECTED'' ''upload exceeds size limit''), db)
        | Some content \<Rightarrow>
          (let content_type = media_type_of declared; verdict = scan_upload content content_type in
           if \<not> sv_allowed verdict
           then (Inr (Rejected (sv_status_code verdict) (case sv_code verdict of None \<Rightarrow> [] | Some c \<Rightarrow> c)
             (case sv_reason verdict of None \<Rightarrow> [] | Some r \<Rightarrow> r)), db)
           else (case persist_artifact faults artifact_id filename content_type (Some (sha256 content)) actor content db of
                   (Inl e, db') \<Rightarrow> (Inl e, db')
                 | (Inr r, db') \<Rightarrow> (Inr (Created r), db')))))"

text \<open>The old endpoint: it only checks the request.\<close>

definition initiate_upload :: "string \<Rightarrow> string \<Rightarrow> int \<Rightarrow> upload_reply api" where
  "initiate_upload filename content_type size_bytes =
     (case validate_source_upload content_type size_bytes of Inl e \<Rightarrow> Inl e
      | Inr _ \<Rightarrow> (case validate_source_filename filename of Inl e \<Rightarrow> Inl e
        | Inr _ \<Rightarrow> Inr (Rejected 410 ''UPLOAD_FLOW_REPLACED'' ''send file bytes to /api/v1/inbox/sources'')))"

lemma initiate_stores_nothing: "initiate_upload f t n \<noteq> Inr (Created r)"
  by (simp add: initiate_upload_def split: sum.split)

section \<open>Reading is bounded and exact\<close>

lemma read_chunks_exact:
  "read_chunks cs used acc = (if used + length (concat cs) \<le> MAX_UPLOAD_BYTES \<or> cs = [] then Some (concat (rev acc) @ concat cs) else None)"
  if "used \<le> MAX_UPLOAD_BYTES"
  using that by (induction cs arbitrary: used acc) (auto simp: Let_def)

lemma read_bounded_exact:
  "read_bounded_upload content_length stream = Some content \<Longrightarrow> content = concat stream \<and> length content \<le> MAX_UPLOAD_BYTES"
  by (auto simp: read_bounded_upload_def read_chunks_exact split: option.splits if_splits)

section \<open>Histories\<close>

record upload_call =
  ul_faults :: upload_faults
  ul_id :: uuid
  ul_actor :: current_actor
  ul_filename :: string
  ul_content_length :: "string option"
  ul_declared :: string
  ul_stream :: "nat list list"

definition upload_step :: "(nat list \<Rightarrow> string) \<Rightarrow> upload_call \<Rightarrow> upload_db \<Rightarrow> upload_db" where
  "upload_step sha256 c db = snd (upload_source sha256 (ul_faults c) (ul_id c) (ul_actor c) (ul_filename c) (ul_content_length c) (ul_declared c) (ul_stream c) db)"

fun upload_steps :: "(nat list \<Rightarrow> string) \<Rightarrow> upload_call list \<Rightarrow> upload_db \<Rightarrow> upload_db" where
  "upload_steps sha256 [] db = db"
| "upload_steps sha256 (c # cs) db = upload_steps sha256 cs (upload_step sha256 c db)"

definition nothing_uploaded :: upload_db where
  "nothing_uploaded = \<lparr>up_objects = [], up_artifacts = []\<rparr>"

text \<open>A failure is what it seems: a commit that raises has not happened, and deleting works.\<close>

definition honest_faults :: "upload_faults \<Rightarrow> bool" where
  "honest_faults f \<longleftrightarrow> uf_commit f \<noteq> Committed_Unacknowledged \<and> \<not> uf_delete_fails f"

text \<open>The object is what the row says.\<close>

definition artifact_ok :: "(nat list \<Rightarrow> string) \<Rightarrow> (string, nat list) dict \<Rightarrow> artifact_row \<Rightarrow> bool" where
  "artifact_ok sha256 objects r \<longleftrightarrow> (\<exists>content. map_of objects (sa_storage_key r) = Some content
     \<and> sa_size_bytes r = int (length content) \<and> sa_sha256 r = Some (sha256 content)
     \<and> content \<noteq> [] \<and> length content \<le> MAX_UPLOAD_BYTES \<and> fits_type content (media_type_of (sa_content_type r))
     \<and> \<not> list_ex (\<lambda>magic. starts_with magic content) EXECUTABLE_MAGIC
     \<and> sa_storage_key r = storage_key_of (sa_workspace r) (sa_id r) (sa_filename r)
     \<and> validate_source_filename (sa_filename r) = Inr ())"

definition uploads_inv :: "(nat list \<Rightarrow> string) \<Rightarrow> upload_db \<Rightarrow> bool" where
  "uploads_inv sha256 db \<longleftrightarrow> distinct (map sa_id (up_artifacts db)) \<and> distinct (map fst (up_objects db))
     \<and> set (map fst (up_objects db)) = set (map sa_storage_key (up_artifacts db))
     \<and> (\<forall>r\<in>set (up_artifacts db). artifact_ok sha256 (up_objects db) r)"

lemma storage_key_inject: "storage_key_of w i f = storage_key_of w' i' f' \<Longrightarrow> i = i' \<and> w = w' \<and> f = f'"
proof -
  assume eq: "storage_key_of w i f = storage_key_of w' i' f'"
  have len: "length (uuid_str u) = length (uuid_str v)" for u v
    by (simp add: uuid_str_def Let_def hex_of_def length_hex_digits)
  have "uuid_str w = uuid_str w'" "uuid_str i = uuid_str i'" "f = f'"
    using eq len unfolding storage_key_of_def by (auto simp: append_eq_append_conv)
  then show ?thesis using py_uuid_str by (metis option.inject)
qed

lemma scan_allowed:
  assumes "sv_allowed (scan_upload content (media_type_of declared))"
  shows "content \<noteq> [] \<and> length content \<le> MAX_UPLOAD_BYTES \<and> \<not> list_ex (\<lambda>magic. starts_with magic content) EXECUTABLE_MAGIC
    \<and> fits_type content (media_type_of (media_type_of declared))"
  using scan_upload_exact [of content "media_type_of declared"] assms unfolding list_ex_iff by blast

lemma delete_update_fresh: "k \<notin> set (map fst d) \<Longrightarrow> AList.delete k (AList.update k v d) = d"
proof (induction d)
  case (Cons e d)
  obtain a b where "e = (a, b)" by fastforce
  then show ?case using Cons by (auto simp: AList.delete_eq)
qed (simp add: AList.delete_eq)

text \<open>What a call does when its failures are honest: nothing, or one row with its object.\<close>

lemma upload_step_cases:
  assumes inv: "uploads_inv sha256 db" and fresh: "ul_id c \<notin> set (map sa_id (up_artifacts db))" and honest: "honest_faults (ul_faults c)"
  obtains (same) "upload_step sha256 c db = db"
  | (added) r content where "upload_step sha256 c db = \<lparr>up_objects = AList.update (sa_storage_key r) content (up_objects db), up_artifacts = up_artifacts db @ [r]\<rparr>"
      "sa_id r = ul_id c" "sa_storage_key r \<notin> set (map fst (up_objects db))"
      "artifact_ok sha256 (AList.update (sa_storage_key r) content (up_objects db)) r"
proof -
  let ?f = "ul_faults c" and ?key = "storage_key_of (ac_workspace (ul_actor c)) (ul_id c) (ul_filename c)"
  have key: "?key \<notin> set (map fst (up_objects db))"
  proof
    assume "?key \<in> set (map fst (up_objects db))"
    then obtain r where r: "r \<in> set (up_artifacts db)" "sa_storage_key r = ?key" using inv by (auto simp: uploads_inv_def)
    then have "storage_key_of (sa_workspace r) (sa_id r) (sa_filename r) = ?key" using inv by (auto simp: uploads_inv_def artifact_ok_def)
    then have "sa_id r = ul_id c" using storage_key_inject by blast
    then show False using fresh r(1) by (metis image_eqI list.set_map)
  qed
  note gone = delete_update_fresh [OF key]
  note unfolds = upload_step_def upload_source_def
  show ?thesis
  proof (cases "validate_source_filename (ul_filename c)")
    case (Inl e)
    then show ?thesis by (intro same) (simp add: unfolds)
  next
    case (Inr u)
    show ?thesis
    proof (cases "read_bounded_upload (ul_content_length c) (ul_stream c)")
      case None
      then show ?thesis using Inr by (intro same) (simp add: unfolds)
    next
      case (Some content)
      show ?thesis
      proof (cases "sv_allowed (scan_upload content (media_type_of (ul_declared c)))")
        case False
        then show ?thesis using Inr Some by (intro same) (simp add: unfolds Let_def)
      next
        case True
        have valid: "validate_source_filename (ul_filename c) = Inr ()" using Inr by simp
        have step: "upload_step sha256 c db = snd (persist_artifact ?f (ul_id c) (ul_filename c) (media_type_of (ul_declared c)) (Some (sha256 content)) (ul_actor c) content db)"
          using valid Some True by (simp add: unfolds Let_def case_prod_beta split: sum.split prod.split)
        define r where "r = \<lparr>sa_id = ul_id c, sa_workspace = ac_workspace (ul_actor c), sa_filename = ul_filename c,
          sa_content_type = media_type_of (ul_declared c), sa_size_bytes = int (length content), sa_sha256 = Some (sha256 content),
          sa_storage_key = ?key, sa_status = ''NEW''\<rparr>"
        have r: "sa_id r = ul_id c" "sa_storage_key r = ?key" by (simp_all add: r_def)
        have ok: "artifact_ok sha256 (AList.update ?key content (up_objects db)) r"
          using scan_allowed [OF True] valid unfolding artifact_ok_def r_def by (auto simp: dict_simps)
        have "upload_step sha256 c db = db \<or> upload_step sha256 c db = \<lparr>up_objects = AList.update ?key content (up_objects db), up_artifacts = up_artifacts db @ [r]\<rparr>"
          using honest unfolding step honest_faults_def
          by (auto simp: persist_artifact_def valid Let_def gone add_artifact_def r_def split: sum.splits if_splits commit_outcome.splits option.splits)
        then show ?thesis using same added [of r content] r key ok by auto
      qed
    qed
  qed
qed

lemma upload_step_inv:
  assumes "uploads_inv sha256 db" and "ul_id c \<notin> set (map sa_id (up_artifacts db))" and "honest_faults (ul_faults c)"
  shows "uploads_inv sha256 (upload_step sha256 c db) \<and> set (map sa_id (up_artifacts (upload_step sha256 c db))) \<subseteq> insert (ul_id c) (set (map sa_id (up_artifacts db)))"
proof (cases rule: upload_step_cases [OF assms, case_names same added])
  case same
  then show ?thesis using assms(1) by auto
next
  case (added r content)
  let ?os = "AList.update (sa_storage_key r) content (up_objects db)"
  have old: "artifact_ok sha256 ?os q" if q: "q \<in> set (up_artifacts db)" for q
  proof -
    have "sa_storage_key q \<in> set (map fst (up_objects db))" using assms(1) q by (auto simp: uploads_inv_def)
    then have "sa_storage_key q \<noteq> sa_storage_key r" using added(3) by metis
    then have "map_of ?os (sa_storage_key q) = map_of (up_objects db) (sa_storage_key q)" by (simp add: dict_simps)
    note eq = this
    have "artifact_ok sha256 (up_objects db) q" using assms(1) q by (simp add: uploads_inv_def)
    then show ?thesis unfolding artifact_ok_def eq .
  qed
  have "distinct (map fst ?os)" using assms(1) by (simp add: uploads_inv_def distinct_update)
  moreover have "set (map fst ?os) = insert (sa_storage_key r) (set (map fst (up_objects db)))" by (simp add: dom_update image_Un [symmetric] dict_simps)
  ultimately show ?thesis using assms(1,2) old added(4) unfolding uploads_inv_def added(1) by (auto simp: added(2))
qed

lemma upload_steps_inv:
  assumes "uploads_inv sha256 db" and "distinct (map ul_id cs)" and "set (map ul_id cs) \<inter> set (map sa_id (up_artifacts db)) = {}"
    and "\<forall>c\<in>set cs. honest_faults (ul_faults c)"
  shows "uploads_inv sha256 (upload_steps sha256 cs db)"
  using assms
proof (induction cs arbitrary: db)
  case (Cons c cs)
  from upload_step_inv [of sha256 db c] Cons.prems
  have "uploads_inv sha256 (upload_step sha256 c db)"
    "set (map sa_id (up_artifacts (upload_step sha256 c db))) \<subseteq> insert (ul_id c) (set (map sa_id (up_artifacts db)))" by auto
  note step = this
  have "set (map ul_id cs) \<inter> set (map sa_id (up_artifacts (upload_step sha256 c db))) \<subseteq> set (map ul_id cs) \<inter> insert (ul_id c) (set (map sa_id (up_artifacts db)))"
    using step(2) by blast
  also have "\<dots> = {}" using Cons.prems(2,3) by auto
  finally have disjoint: "set (map ul_id cs) \<inter> set (map sa_id (up_artifacts (upload_step sha256 c db))) = {}" by blast
  have "uploads_inv sha256 (upload_steps sha256 cs (upload_step sha256 c db))"
    by (rule Cons.IH [OF step(1) _ disjoint]) (use Cons.prems in simp_all)
  then show ?case by simp
qed simp

section \<open>Concrete uploads\<close>

definition an_upload :: "upload_faults \<Rightarrow> upload_call" where
  "an_upload f = \<lparr>ul_faults = f, ul_id = 7, ul_actor = \<lparr>ac_user = 1, ac_workspace = 3, ac_session = 1\<rparr>, ul_filename = ''n.txt'',
     ul_content_length = None, ul_declared = ''text/plain'', ul_stream = [[104, 105]]\<rparr>"

definition fault_of :: "commit_outcome \<Rightarrow> upload_faults" where
  "fault_of commit = \<lparr>uf_put_fails = False, uf_commit = commit, uf_delete_fails = False\<rparr>"

lemma an_upload_scanned:
  "validate_source_filename ''n.txt'' = Inr ()" "read_bounded_upload None [[104, 105]] = Some [104, 105]"
  "media_type_of ''text/plain'' = ''text/plain''" "sv_allowed (scan_upload [104, 105] ''text/plain'')"
proof -
  show "validate_source_filename ''n.txt'' = Inr ()" by code_simp
  show "read_bounded_upload None [[104, 105]] = Some [104, 105]" by (simp add: read_bounded_upload_def MAX_UPLOAD_BYTES_def Let_def)
  show plain: "media_type_of ''text/plain'' = ''text/plain''" by code_simp
  show "sv_allowed (scan_upload [104, 105] ''text/plain'')"
    unfolding scan_upload_exact plain
    by (simp add: fits_type_def MAX_UPLOAD_BYTES_def EXECUTABLE_MAGIC_def MAGIC_BY_TYPE_def utf8_valid.simps(2))
qed

lemma an_upload_step:
  "upload_step (\<lambda>_. ''h'') (an_upload (fault_of commit)) nothing_uploaded =
    (let key = storage_key_of 3 7 ''n.txt'';
       row = \<lparr>sa_id = 7, sa_workspace = 3, sa_filename = ''n.txt'', sa_content_type = ''text/plain'', sa_size_bytes = 2,
         sa_sha256 = Some ''h'', sa_storage_key = key, sa_status = ''NEW''\<rparr>
     in case commit of Committed \<Rightarrow> \<lparr>up_objects = [(key, [104, 105])], up_artifacts = [row]\<rparr>
        | Not_Committed \<Rightarrow> nothing_uploaded | Committed_Unacknowledged \<Rightarrow> \<lparr>up_objects = [], up_artifacts = [row]\<rparr>)"
proof -
  have "length (storage_key_of 3 7 ''n.txt'') \<le> 500" by (simp add: storage_key_of_def uuid_str_def Let_def hex_of_def length_hex_digits)
  then show ?thesis
    by (cases commit) (simp_all add: upload_step_def an_upload_def fault_of_def upload_source_def an_upload_scanned Let_def persist_artifact_def
      add_artifact_def nothing_uploaded_def AList.delete_eq)
qed

text \<open>A commit whose acknowledgement is lost leaves a row whose object has been deleted.\<close>

lemma lost_acknowledgement:
  "map sa_id (up_artifacts (upload_step (\<lambda>_. ''h'') (an_upload (fault_of Committed_Unacknowledged)) nothing_uploaded)) = [7]"
  "up_objects (upload_step (\<lambda>_. ''h'') (an_upload (fault_of Committed_Unacknowledged)) nothing_uploaded) = []"
  by (simp_all add: an_upload_step Let_def)

section \<open>Properties\<close>

text \<open>
  C32. Rows and stored objects agree: after any history of uploads, by any actors, accepted, refused
  or failed on the way, in which a failed commit has not happened and deleting an object works, every
  stored object belongs to a row and every row has its object; the object has the size and the hash
  of its row, is not empty or too large, fits its declared type and is no executable; and it lies
  under a key made of the row's workspace, its id and a file name that is a single path segment.
\<close>

theorem uploads_consistent:
  assumes "distinct (map ul_id calls)" and "\<forall>c\<in>set calls. honest_faults (ul_faults c)"
  shows "let db = upload_steps sha256 calls nothing_uploaded in
    set (map fst (up_objects db)) = set (map sa_storage_key (up_artifacts db))
    \<and> distinct (map sa_storage_key (up_artifacts db))
    \<and> (\<forall>r\<in>set (up_artifacts db). artifact_ok sha256 (up_objects db) r)"
proof -
  let ?db = "upload_steps sha256 calls nothing_uploaded"
  have inv: "uploads_inv sha256 ?db"
    by (intro upload_steps_inv) (use assms in \<open>auto simp: uploads_inv_def nothing_uploaded_def\<close>)
  have "inj_on sa_storage_key (set (up_artifacts ?db))"
  proof (rule inj_onI)
    fix a b assume ab: "a \<in> set (up_artifacts ?db)" "b \<in> set (up_artifacts ?db)" "sa_storage_key a = sa_storage_key b"
    have "sa_storage_key r = storage_key_of (sa_workspace r) (sa_id r) (sa_filename r)" if "r \<in> set (up_artifacts ?db)" for r
      using inv that by (auto simp: uploads_inv_def artifact_ok_def)
    from this [OF ab(1)] this [OF ab(2)] ab(3)
    have "storage_key_of (sa_workspace a) (sa_id a) (sa_filename a) = storage_key_of (sa_workspace b) (sa_id b) (sa_filename b)" by simp
    then have "sa_id a = sa_id b" by (blast dest: storage_key_inject)
    then show "a = b" using inv ab(1,2) by (simp add: uploads_inv_def distinct_map inj_on_def)
  qed
  moreover have "distinct (up_artifacts ?db)" using inv by (simp add: uploads_inv_def distinct_map)
  ultimately have "distinct (map sa_storage_key (up_artifacts ?db))" by (simp add: distinct_map)
  then show ?thesis using inv by (simp add: uploads_inv_def Let_def)
qed

lemma uploads_consistent_witness:
  "map fst (up_objects (upload_steps (\<lambda>_. ''h'') [an_upload (fault_of Committed)] nothing_uploaded)) = [storage_key_of 3 7 ''n.txt'']
   \<and> map sa_storage_key (up_artifacts (upload_steps (\<lambda>_. ''h'') [an_upload (fault_of Committed)] nothing_uploaded)) = [storage_key_of 3 7 ''n.txt'']"
proof -
  have "distinct (map ul_id [an_upload (fault_of Committed)])" "\<forall>c\<in>set [an_upload (fault_of Committed)]. honest_faults (ul_faults c)"
    by (simp_all add: an_upload_def fault_of_def honest_faults_def)
  from uploads_consistent [OF this, of "\<lambda>_. ''h''"] show ?thesis by (simp add: an_upload_step Let_def)
qed

end
