(* ===== verification/Http_Edge.thy ===== *)
theory Http_Edge
  imports Agent Metrics Service_Limits Utf8_Text
begin

text \<open>
  The edge of the API (\<open>main.py\<close>, \<open>telemetry/logging.py\<close>, \<open>tracing.py\<close>, \<open>events.py\<close>,
  \<open>emitter.py\<close>, \<open>analytics/router.py\<close>): the two middlewares around every request, the rate limit
  and the request log, the metrics endpoint and the events of the browser. The application behind
  them is a parameter, any function from a request and its state to an answer. The results: how
  many requests of one actor get through in any interval, whatever others send in between; that
  every request is logged once, in one line of printable text; and what a log does not depend on.
\<close>

section \<open>Requests and answers\<close>

record http_request =
  hq_method :: string
  hq_path :: string
  hq_client :: "string option"
  hq_authorization :: "string option"
  hq_correlation :: "string option"

record http_response =
  hs_status :: int
  hs_headers :: "(string, string) dict"
  hs_body :: json

text \<open>What comes back from the inside: the response, \<open>None\<close> for an exception, and what the router
  and the authentication have left in the request: the path of the route and the workspace.\<close>

record app_answer =
  an_response :: "http_response option"
  an_route :: "string option"
  an_workspace :: "string option"

record 's edge =
  eg_counters :: counters
  eg_metrics :: registry
  eg_log :: "string list"
  eg_app :: 's

type_synonym 's handler = "http_request \<Rightarrow> 's edge \<Rightarrow> app_answer \<times> 's edge"

section \<open>The rate limit\<close>

definition rate_bucket :: "http_request \<Rightarrow> string option" where
  "rate_bucket rq = (let path = hq_path rq in
     if \<not> starts_with ''/api/v1/'' path then None
     else if path = ''/api/v1/identity/test-session'' then Some ''auth''
     else if path = ''/api/v1/inbox/sources'' \<and> hq_method rq = ''POST'' then Some ''upload''
     else if starts_with ''/api/v1/calendar/'' path \<or> hq_method rq \<notin> {''GET'', ''HEAD'', ''OPTIONS''} then Some ''external-write''
     else Some ''read-api'')"

definition rate_actor :: "(nat list \<Rightarrow> string) \<Rightarrow> http_request \<Rightarrow> string \<Rightarrow> string" where
  "rate_actor sha256 rq bucket_name =
     (let client = ''client:'' @ (case hq_client rq of Some h \<Rightarrow> h | None \<Rightarrow> ''unknown'');
        authorization = (case hq_authorization rq of Some a \<Rightarrow> a | None \<Rightarrow> []);
        raw_token = strip (drop 7 authorization)
      in if bucket_name = ''auth'' then client
         else if starts_with ''Bearer '' authorization \<and> raw_token \<noteq> [] then ''session:'' @ sha256 (utf8 raw_token)
         else client)"

text \<open>\<open>int(window.total_seconds())\<close> rounds towards zero; a negative one is below the maximum anyway.\<close>

definition rate_limited :: "string \<Rightarrow> rate_limit \<Rightarrow> http_response" where
  "rate_limited bucket_name bucket = \<lparr>hs_status = 429,
     hs_headers = [(''Retry-After'', int_str (max 1 \<lfloor>fl (of_int (limit_window bucket) / 1000000)\<rfloor>))],
     hs_body = JObj [(''code'', JStr ''RATE_LIMITED''), (''bucket'', JStr bucket_name)]\<rparr>"

definition outside :: "http_response option \<Rightarrow> app_answer" where
  "outside r = \<lparr>an_response = r, an_route = None, an_workspace = None\<rparr>"

definition enforce_rate_limit :: "(nat list \<Rightarrow> string) \<Rightarrow> (string, rate_limit) dict \<Rightarrow> datetime \<Rightarrow> 's handler \<Rightarrow> 's handler" where
  "enforce_rate_limit sha256 limits now call_next rq st =
     (case rate_bucket rq of None \<Rightarrow> call_next rq st
      | Some bucket_name \<Rightarrow> (case map_of limits bucket_name of None \<Rightarrow> call_next rq st
        | Some bucket \<Rightarrow> (case allow (rate_actor sha256 rq bucket_name) bucket_name bucket now (eg_counters st) of
            Inl e \<Rightarrow> (outside None, st)
          | Inr (ok, d) \<Rightarrow>
              if ok then call_next rq (st\<lparr>eg_counters := d\<rparr>)
              else (outside (Some (rate_limited bucket_name bucket)), st\<lparr>eg_counters := d\<rparr>))))"

section \<open>Correlation ids\<close>

definition correlation_char :: "char \<Rightarrow> bool" where
  "correlation_char c \<longleftrightarrow> (let n = of_char c :: nat in (65 \<le> n \<and> n \<le> 90) \<or> (97 \<le> n \<and> n \<le> 122) \<or> (48 \<le> n \<and> n \<le> 57))
     \<or> c \<in> {CHR ''.'', CHR ''_'', CHR '':'', CHR ''-''}"

definition correlation_ok :: "string \<Rightarrow> bool" where
  "correlation_ok s \<longleftrightarrow> 1 \<le> length s \<and> length s \<le> 128 \<and> list_all correlation_char s"

definition resolve_correlation_id :: "string \<Rightarrow> string option \<Rightarrow> string" where
  "resolve_correlation_id new_id v = (case v of Some s \<Rightarrow> if correlation_ok s then s else new_id | None \<Rightarrow> new_id)"

section \<open>The structured logger\<close>

text \<open>What the code binds is text, an integer or \<open>None\<close>.\<close>

datatype log_value = LText string | LInt int | LNone

fun log_str :: "log_value \<Rightarrow> string" where
  "log_str (LText s) = s"
| "log_str (LInt n) = int_str n"
| "log_str LNone = ''None''"

type_synonym bindings = "(string, log_value) dict"

definition SENSITIVE_KEYS :: "string list" where
  "SENSITIVE_KEYS = [''authorization'', ''code'', ''cookie'', ''oauth_token'', ''refresh_token'', ''document_text'',
     ''file_content'', ''prompt_text'', ''personal_note'', ''calendar_description'']"

definition hash_workspace_id :: "(nat list \<Rightarrow> string) \<Rightarrow> string \<Rightarrow> string" where
  "hash_workspace_id sha256 w = sha256 (utf8 w)"

text \<open>\<open>str.casefold\<close>, as code points: it maps the sharp s to two letters and the micro sign to U+03BC.\<close>

definition casefold :: "string \<Rightarrow> nat list" where
  "casefold s = concat (map (\<lambda>c. let n = of_char c :: nat in
     if n = 223 then [115, 115] else if n = 181 then [956] else [of_char (lower_char c)]) s)"

definition sensitive :: "string \<Rightarrow> bool" where
  "sensitive key \<longleftrightarrow> casefold key \<in> set (map (map of_char) SENSITIVE_KEYS)"

definition sanitize_entry :: "(nat list \<Rightarrow> string) \<Rightarrow> string \<times> log_value \<Rightarrow> bindings \<Rightarrow> bindings" where
  "sanitize_entry sha256 e acc = (case e of (key, v) \<Rightarrow>
     if sensitive key then AList.update key (LText ''[REDACTED]'') acc
     else if key = ''workspace_id'' \<and> v \<noteq> LNone then AList.update ''workspace_hash'' (LText (hash_workspace_id sha256 (log_str v))) acc
     else AList.update key v acc)"

definition bind_fields :: "(nat list \<Rightarrow> string) \<Rightarrow> bindings \<Rightarrow> bindings \<Rightarrow> bindings" where
  "bind_fields sha256 given logger =
     fold (sanitize_entry sha256) (fold (\<lambda>(k, v). AList.update k v) given logger) []"

definition capture :: "string \<Rightarrow> bindings \<Rightarrow> bindings" where
  "capture message logger = fold (\<lambda>(k, v). AList.update k v) logger [(''message'', LText message)]"

text \<open>\<open>json.dumps(event, sort_keys=True, separators=(",", ":"))\<close>, which escapes all but ASCII.\<close>

fun log_json :: "log_value \<Rightarrow> string" where
  "log_json (LText s) = ascii_string s"
| "log_json (LInt n) = int_str n"
| "log_json LNone = ''null''"

definition log_line :: "bindings \<Rightarrow> string" where
  "log_line event = ''{'' @ comma_sep (map (\<lambda>(k, v). ascii_string k @ '':'' @ log_json v) (sort_key fst event)) @ ''}''"

section \<open>The request log\<close>

definition request_labels :: "http_request \<Rightarrow> app_answer \<Rightarrow> (string, string) dict" where
  "request_labels rq a = [(''method'', hq_method rq), (''route'', case an_route a of Some r \<Rightarrow> r | None \<Rightarrow> ''unmatched''),
     (''status'', int_str (case an_response a of Some r \<Rightarrow> hs_status r | None \<Rightarrow> 500))]"

definition request_fields :: "string \<Rightarrow> rat \<Rightarrow> http_request \<Rightarrow> app_answer \<Rightarrow> bindings" where
  "request_fields cid duration rq a = [(''correlation_id'', LText cid), (''method'', LText (hq_method rq)), (''path'', LText (hq_path rq)),
     (''status'', LInt (case an_response a of Some r \<Rightarrow> hs_status r | None \<Rightarrow> 500)), (''duration_ms'', LInt (rne (fmul duration 1000)))]
     @ (case an_workspace a of None \<Rightarrow> [] | Some w \<Rightarrow> [(''workspace_id'', LText w)])"

definition log_request_result :: "(nat list \<Rightarrow> string) \<Rightarrow> string \<Rightarrow> rat \<Rightarrow> 's handler \<Rightarrow> 's handler" where
  "log_request_result sha256 new_id elapsed call_next rq st =
     (let cid = resolve_correlation_id new_id (hq_correlation rq);
        (a, st) = call_next rq st;
        duration = max 0 elapsed;
        labels = request_labels rq a;
        raised = a\<lparr>an_response := None\<rparr>
      in case increment ''http_requests_total'' 1 labels (eg_metrics st) of
           Inl e \<Rightarrow> (raised, st)
         | Inr m \<Rightarrow> (case observe ''http_request_duration_seconds'' duration labels m of
             Inl e \<Rightarrow> (raised, st\<lparr>eg_metrics := m\<rparr>)
           | Inr m' \<Rightarrow>
               (a\<lparr>an_response := map_option (\<lambda>r. r\<lparr>hs_headers := AList.update ''X-Correlation-ID'' cid (hs_headers r)\<rparr>) (an_response a)\<rparr>,
                st\<lparr>eg_metrics := m',
                   eg_log := eg_log st @ [log_line (capture ''request.completed'' (bind_fields sha256 (request_fields cid duration rq a) []))]\<rparr>)))"

text \<open>The application behind the middlewares shares the metrics with them; counters and request log
  are theirs. The middleware added last is the outermost: refused requests are logged too.\<close>

type_synonym 's application = "http_request \<Rightarrow> registry \<times> 's \<Rightarrow> app_answer \<times> registry \<times> 's"

definition behind :: "'s application \<Rightarrow> 's handler" where
  "behind app rq st = (case app rq (eg_metrics st, eg_app st) of (a, m, s) \<Rightarrow> (a, st\<lparr>eg_metrics := m, eg_app := s\<rparr>))"

record http_call =
  hc_request :: http_request
  hc_now :: datetime
  hc_new_id :: string
  hc_elapsed :: rat

definition serve :: "(nat list \<Rightarrow> string) \<Rightarrow> (string, rate_limit) dict \<Rightarrow> 's application \<Rightarrow> http_call \<Rightarrow> 's edge \<Rightarrow> app_answer \<times> 's edge" where
  "serve sha256 limits app c =
     log_request_result sha256 (hc_new_id c) (hc_elapsed c) (enforce_rate_limit sha256 limits (hc_now c) (behind app)) (hc_request c)"

section \<open>The metrics endpoint\<close>

text \<open>\<open>hmac.compare_digest\<close> refuses text that is not ASCII; then the request fails.\<close>

definition metrics_endpoint :: "string option \<Rightarrow> string \<Rightarrow> http_request \<Rightarrow> http_response option" where
  "metrics_endpoint configured rendered rq = (case configured of
     None \<Rightarrow> Some \<lparr>hs_status = 404, hs_headers = [], hs_body = JObj [(''detail'', JStr ''not found'')]\<rparr>
   | Some secret \<Rightarrow>
       (let authorization = (case hq_authorization rq of Some a \<Rightarrow> a | None \<Rightarrow> []); expected = ''Bearer '' @ secret
        in if \<not> list_all (\<lambda>c. (of_char c :: nat) < 128) (authorization @ expected) then None
           else if authorization \<noteq> expected then Some \<lparr>hs_status = 401, hs_headers = [], hs_body = JObj [(''detail'', JStr ''unauthorized'')]\<rparr>
           else Some \<lparr>hs_status = 200, hs_headers = [(''content-type'', ''text/plain; version=0.0.4'')], hs_body = JStr rendered\<rparr>))"

lemma metrics_guarded:
  "metrics_endpoint configured rendered rq = Some r \<Longrightarrow> hs_status r = 200
    \<longleftrightarrow> (\<exists>secret. configured = Some secret \<and> hq_authorization rq = Some (''Bearer '' @ secret))"
  by (auto simp: metrics_endpoint_def Let_def split: option.splits if_splits)

section \<open>Events of the browser\<close>

record ux_event =
  ux_schema_version :: int
  ux_trace_id :: string
  ux_workspace_hash :: string
  ux_code_version :: string
  ux_name :: string
  ux_duration_ms :: int

definition UX_EVENT_NAMES :: "string list" where
  "UX_EVENT_NAMES = [''task_started'', ''task_completed'', ''candidate_confirmed'', ''proposal_approved'', ''agent_opened'', ''briefing_viewed'']"

definition ux_request_ok :: "int \<Rightarrow> string \<Rightarrow> int \<Rightarrow> bool" where
  "ux_request_ok schema_version name duration_ms \<longleftrightarrow> schema_version = 1 \<and> name \<in> set UX_EVENT_NAMES \<and> 0 \<le> duration_ms \<and> duration_ms \<le> 3600000"

definition emit_ux_event :: "string \<Rightarrow> string \<Rightarrow> string \<Rightarrow> string \<Rightarrow> int \<Rightarrow> ux_event" where
  "emit_ux_event code_version trace_id workspace_hash name duration_ms =
     \<lparr>ux_schema_version = 1, ux_trace_id = trace_id, ux_workspace_hash = workspace_hash, ux_code_version = code_version,
      ux_name = name, ux_duration_ms = duration_ms\<rparr>"

definition ux_fields :: "ux_event \<Rightarrow> bindings" where
  "ux_fields e = [(''schema_version'', LInt (ux_schema_version e)), (''trace_id'', LText (ux_trace_id e)),
     (''workspace_hash'', LText (ux_workspace_hash e)), (''code_version'', LText (ux_code_version e)),
     (''name'', LText (ux_name e)), (''duration_ms'', LInt (ux_duration_ms e))]"

definition record_ux_event :: "(nat list \<Rightarrow> string) \<Rightarrow> string \<Rightarrow> string \<Rightarrow> current_actor \<Rightarrow> int \<Rightarrow> string \<Rightarrow> int \<Rightarrow> string option" where
  "record_ux_event sha256 code_version cid actor schema_version name duration_ms =
     (if ux_request_ok schema_version name duration_ms
      then Some (log_line (ux_fields (emit_ux_event code_version cid (hash_workspace_id sha256 (uuid_str (ac_workspace actor))) name duration_ms)))
      else None)"

section \<open>Events of the planner and of executions\<close>

definition validate_no_sensitive_fields :: "string list \<Rightarrow> bool" where
  "validate_no_sensitive_fields keys \<longleftrightarrow> list_all (\<lambda>k. k \<notin> set SENSITIVE_KEYS) keys"

text \<open>A result is a text or a dictionary, of which the event keeps the keys.\<close>

datatype run_result = Plain_Result string | Result_Keys "string list"

record planner_run_event =
  pe_schema_version :: int
  pe_trace_id :: string
  pe_workspace_hash :: string
  pe_code_version :: string
  pe_planner_version :: string
  pe_input_size :: int
  pe_latency_ms :: int
  pe_result :: string

definition emit_planner_run :: "string \<Rightarrow> string \<Rightarrow> string \<Rightarrow> string \<Rightarrow> int \<Rightarrow> int \<Rightarrow> run_result \<Rightarrow> planner_run_event option" where
  "emit_planner_run code_version trace_id workspace_hash planner_version input_size latency_ms result =
     (let event = (\<lambda>outcome. \<lparr>pe_schema_version = 1, pe_trace_id = trace_id, pe_workspace_hash = workspace_hash,
         pe_code_version = code_version, pe_planner_version = planner_version, pe_input_size = input_size,
         pe_latency_ms = latency_ms, pe_result = outcome\<rparr>)
      in if \<not> validate_no_sensitive_fields [''trace_id'', ''workspace_hash''] then None
         else (case result of Plain_Result t \<Rightarrow> Some (event t)
           | Result_Keys ks \<Rightarrow> if validate_no_sensitive_fields ks then Some (event (comma_sep (sort ks))) else None))"

record execution_event =
  xv_schema_version :: int
  xv_trace_id :: string
  xv_workspace_hash :: string
  xv_code_version :: string
  xv_command_type :: string
  xv_outcome :: string
  xv_attempts :: int

definition emit_external_execution :: "string \<Rightarrow> string \<Rightarrow> string \<Rightarrow> string \<Rightarrow> string \<Rightarrow> int \<Rightarrow> execution_event" where
  "emit_external_execution code_version trace_id workspace_hash command_type outcome attempts =
     \<lparr>xv_schema_version = 1, xv_trace_id = trace_id, xv_workspace_hash = workspace_hash, xv_code_version = code_version,
      xv_command_type = command_type, xv_outcome = outcome, xv_attempts = attempts\<rparr>"

lemma planner_event_exact:
  "(\<exists>e. emit_planner_run v t w p n l r = Some e) \<longleftrightarrow> (case r of Plain_Result _ \<Rightarrow> True | Result_Keys ks \<Rightarrow> set ks \<inter> set SENSITIVE_KEYS = {})"
proof -
  have "validate_no_sensitive_fields [''trace_id'', ''workspace_hash'']" by code_simp
  then show ?thesis by (auto simp: emit_planner_run_def validate_no_sensitive_fields_def list_all_iff split: run_result.split)
qed

text \<open>The logger hides a key in any case, the event only in lower case.\<close>

lemma capital_key_passes: "sensitive ''Authorization'' \<and> validate_no_sensitive_fields [''Authorization'']"
  by code_simp

section \<open>What the middlewares keep\<close>

lemma log_keeps:
  "eg_counters (snd (log_request_result sha256 i e inner rq st)) = eg_counters (snd (inner rq st))
   \<and> eg_app (snd (log_request_result sha256 i e inner rq st)) = eg_app (snd (inner rq st))"
  by (simp add: log_request_result_def Let_def split: prod.split sum.split)

lemma labels_registered: "\<exists>m'. increment ''http_requests_total'' 1 (request_labels rq a) m = Inr m'"
  "0 \<le> d \<Longrightarrow> \<exists>m'. observe ''http_request_duration_seconds'' d (request_labels rq a) m = Inr m'"
  by (simp_all add: increment_def observe_def counter_labels_def histogram_labels_def metric_values_def metric_labels_def request_labels_def)

section \<open>How many requests get through\<close>

text \<open>An application that also keeps the requests that reach it.\<close>

definition recording :: "'s application \<Rightarrow> ('s \<times> http_request list) application" where
  "recording app rq ms = (case ms of (m, s, seen) \<Rightarrow> case app rq (m, s) of (a, m', s') \<Rightarrow> (a, m', s', seen @ [rq]))"

definition reached :: "('s \<times> http_request list) edge \<Rightarrow> http_request list" where
  "reached st = snd (eg_app st)"

fun serve_all :: "(nat list \<Rightarrow> string) \<Rightarrow> (string, rate_limit) dict \<Rightarrow> 's application \<Rightarrow> http_call list \<Rightarrow> 's edge \<Rightarrow> 's edge" where
  "serve_all sha256 limits app [] st = st"
| "serve_all sha256 limits app (c # cs) st = serve_all sha256 limits app cs (snd (serve sha256 limits app c st))"

definition rate_key :: "(nat list \<Rightarrow> string) \<Rightarrow> http_request \<Rightarrow> (string \<times> string) option" where
  "rate_key sha256 rq = map_option (\<lambda>b. (rate_actor sha256 rq b, b)) (rate_bucket rq)"

definition sent_by :: "(nat list \<Rightarrow> string) \<Rightarrow> string \<times> string \<Rightarrow> http_request list \<Rightarrow> nat" where
  "sent_by sha256 key rqs = length (filter (\<lambda>rq. rate_key sha256 rq = Some key) rqs)"

lemma behind_recording:
  "eg_counters (snd (behind (recording app) rq st)) = eg_counters st" "reached (snd (behind (recording app) rq st)) = reached st @ [rq]"
  by (simp_all add: behind_def recording_def reached_def split: prod.split)

text \<open>What the rate limit does to a request: it passes, it is refused or it fails.\<close>

definition rate_gate :: "(nat list \<Rightarrow> string) \<Rightarrow> (string, rate_limit) dict \<Rightarrow> http_call \<Rightarrow> counters \<Rightarrow> bool option \<times> counters" where
  "rate_gate sha256 limits c d = (case rate_key sha256 (hc_request c) of
     None \<Rightarrow> (Some True, d)
   | Some key \<Rightarrow> (case map_of limits (snd key) of None \<Rightarrow> (Some True, d)
     | Some bucket \<Rightarrow> (case hc_now c of Naive w \<Rightarrow> (None, d)
       | Aware w off \<Rightarrow> (case allow_at key bucket (w - off) d of (ok, d') \<Rightarrow> (Some ok, d')))))"

lemma enforce_gate:
  "enforce_rate_limit sha256 limits (hc_now c) inner (hc_request c) st =
     (case rate_gate sha256 limits c (eg_counters st) of
        (None, d) \<Rightarrow> (outside None, st)
      | (Some True, d) \<Rightarrow> inner (hc_request c) (st\<lparr>eg_counters := d\<rparr>)
      | (Some False, d) \<Rightarrow> (outside (Some (rate_limited (the (rate_bucket (hc_request c))) (the (map_of limits (the (rate_bucket (hc_request c))))))),
          st\<lparr>eg_counters := d\<rparr>))"
  by (auto simp: enforce_rate_limit_def rate_gate_def rate_key_def allow_def split: option.split datetime.split prod.split bool.split)

lemma serve_gate:
  "eg_counters (snd (serve sha256 limits (recording app) c st)) = snd (rate_gate sha256 limits c (eg_counters st))
   \<and> reached (snd (serve sha256 limits (recording app) c st)) =
       reached st @ (if fst (rate_gate sha256 limits c (eg_counters st)) = Some True then [hc_request c] else [])"
proof -
  obtain r d where g: "rate_gate sha256 limits c (eg_counters st) = (r, d)" by fastforce
  have kept: "r = None \<Longrightarrow> d = eg_counters st" using g by (auto simp: rate_gate_def split: option.splits datetime.splits prod.splits)
  have app: "reached st' = reached st''" if "eg_app st' = eg_app st''" for st' st'' :: "('a \<times> http_request list) edge"
    using that by (simp add: reached_def)
  let ?in = "snd (enforce_rate_limit sha256 limits (hc_now c) (behind (recording app)) (hc_request c) st)"
  have "eg_counters (snd (serve sha256 limits (recording app) c st)) = eg_counters ?in"
    "reached (snd (serve sha256 limits (recording app) c st)) = reached ?in"
    by (simp_all add: serve_def log_keeps reached_def)
  moreover have "eg_counters ?in = d \<and> reached ?in = reached st @ (if r = Some True then [hc_request c] else [])"
    using kept by (auto simp: enforce_gate g behind_recording reached_def [of "_\<lparr>eg_counters := _\<rparr>"] reached_def [of st] split: option.split bool.split)
  ultimately show ?thesis by (simp add: g)
qed

text \<open>The calls of other keys in between do not matter.\<close>

lemma allow_at_local:
  assumes "map_of d key = map_of d' key"
  shows "fst (allow_at key bucket t d) = fst (allow_at key bucket t d') \<and> map_of (snd (allow_at key bucket t d)) key = map_of (snd (allow_at key bucket t d')) key"
  using assms by (auto simp: allow_at_def dget_def dict_simps Let_def split: prod.split option.split)

lemma allowed_calls_local:
  assumes "map_of d key = map_of d' key"
  shows "allowed_calls key bucket ts d = allowed_calls key bucket ts d'"
  using assms
proof (induction ts arbitrary: d d')
  case (Cons t ts)
  from allow_at_local [OF Cons.prems, of bucket t] Cons.IH [of "snd (allow_at key bucket t d)" "snd (allow_at key bucket t d')"]
  show ?case by (simp add: case_prod_beta)
qed simp

fun instant_of :: "datetime \<Rightarrow> instant" where
  "instant_of (Naive w) = w"
| "instant_of (Aware w off) = w - off"

definition times_of :: "(nat list \<Rightarrow> string) \<Rightarrow> string \<times> string \<Rightarrow> http_call list \<Rightarrow> instant list" where
  "times_of sha256 key cs = map (instant_of \<circ> hc_now) (filter (\<lambda>c. rate_key sha256 (hc_request c) = Some key) cs)"

lemma serve_all_allowed:
  assumes "map_of limits (snd key) = Some bucket" and "\<forall>c\<in>set cs. \<exists>w off. hc_now c = Aware w off"
  shows "sent_by sha256 key (reached (serve_all sha256 limits (recording app) cs st)) =
    sent_by sha256 key (reached st) + allowed_calls key bucket (times_of sha256 key cs) (eg_counters st)"
  using assms(2)
proof (induction cs arbitrary: st)
  case (Cons c cs)
  let ?st = "snd (serve sha256 limits (recording app) c st)"
  obtain w off where now: "hc_now c = Aware w off" using Cons.prems by auto
  have IH: "sent_by sha256 key (reached (serve_all sha256 limits (recording app) cs ?st)) =
    sent_by sha256 key (reached ?st) + allowed_calls key bucket (times_of sha256 key cs) (eg_counters ?st)"
    using Cons by simp
  show ?case
  proof (cases "rate_key sha256 (hc_request c) = Some key")
    case True
    obtain ok d where a: "allow_at key bucket (w - off) (eg_counters st) = (ok, d)" by fastforce
    have "rate_gate sha256 limits c (eg_counters st) = (Some ok, d)" using True assms(1) now a by (simp add: rate_gate_def)
    then show ?thesis using IH True now a by (simp add: serve_gate sent_by_def times_of_def)
  next
    case False
    have "map_of (snd (rate_gate sha256 limits c (eg_counters st))) key = map_of (eg_counters st) key"
      using False by (auto simp: rate_gate_def now allow_at_other split: option.split prod.split) (metis allow_at_other snd_conv)+
    from allowed_calls_local [OF this] IH False show ?thesis
      by (simp add: serve_gate sent_by_def times_of_def)
  qed
qed (simp add: times_of_def)

text \<open>The counters of every reachable state.\<close>

definition counters_ok :: "(string, rate_limit) dict \<Rightarrow> counters \<Rightarrow> bool" where
  "counters_ok limits d \<longleftrightarrow> (\<forall>k start c. map_of d k = Some (start, c) \<longrightarrow>
     1 \<le> c \<and> (\<exists>bucket. map_of limits (snd k) = Some bucket \<and> c \<le> max_requests bucket))"

lemma rate_gate_ok:
  assumes "counters_ok limits d"
  shows "counters_ok limits (snd (rate_gate sha256 limits c d))"
proof (cases "snd (rate_gate sha256 limits c d) = d")
  case False
  then obtain key bucket t ok where k: "map_of limits (snd key) = Some bucket" "allow_at key bucket t d = (ok, snd (rate_gate sha256 limits c d))"
    by (auto simp: rate_gate_def split: option.splits datetime.splits prod.splits)
  show ?thesis unfolding counters_ok_def
    using allow_at_counters [OF k(2)] assms k(1) unfolding counters_ok_def by blast
qed (use assms in simp)

lemma serve_all_counters:
  assumes "counters_ok limits (eg_counters st)"
  shows "counters_ok limits (eg_counters (serve_all sha256 limits (recording app) cs st))"
  using assms by (induction cs arbitrary: st) (simp_all add: serve_gate rate_gate_ok)

lemma untouched_counter:
  assumes "\<forall>c\<in>set cs. rate_key sha256 (hc_request c) \<noteq> Some key" and "map_of (eg_counters st) key = None"
  shows "map_of (eg_counters (serve_all sha256 limits (recording app) cs st)) key = None"
  using assms
proof (induction cs arbitrary: st)
  case (Cons c cs)
  have "map_of (snd (rate_gate sha256 limits c (eg_counters st))) key = map_of (eg_counters st) key"
    using Cons.prems(1) by (auto simp: rate_gate_def split: option.split prod.split datetime.split) (metis allow_at_other snd_conv)+
  then show ?case using Cons by (simp add: serve_gate)
qed simp

section \<open>What a log line is\<close>

definition printable :: "char \<Rightarrow> bool" where
  "printable c \<longleftrightarrow> (let n = of_char c :: nat in 32 \<le> n \<and> n \<le> 126)"

lemma hex_printable: "n < 256 \<Longrightarrow> list_all printable (hex_digits 4 n)"
  unfolding list_all_iff printable_def Let_def
proof
  fix c assume n: "n < 256" and c: "c \<in> set (hex_digits 4 n)"
  have "n < 16 ^ 4" using n by simp
  from hex_digits_chars [OF this c] obtain d where "d < 16" "c = hex_digit d" by blast
  then show "32 \<le> (of_char c :: nat) \<and> (of_char c :: nat) \<le> 126" by (simp add: of_char_hex_digit)
qed

lemma json_char_printable: "(of_char c :: nat) \<le> 126 \<Longrightarrow> list_all printable (json_char c)"
proof -
  assume c: "(of_char c :: nat) \<le> 126"
  have escapes: "list_all printable [CHR 0x5C, CHR 0x22]" "list_all printable [CHR 0x5C, CHR 0x5C]" "list_all printable [CHR 0x5C, CHR 0x6E]"
    "list_all printable [CHR 0x5C, CHR 0x72]" "list_all printable [CHR 0x5C, CHR 0x74]" "list_all printable [CHR 0x5C, CHR 0x66]"
    "list_all printable [CHR 0x5C, CHR 0x62]" "list_all printable [CHR 0x5C, CHR 0x75]"
    by (simp_all add: printable_def)
  have hex: "list_all printable ([CHR 0x5C, CHR 0x75] @ hex_digits 4 (of_char c))"
    unfolding list_all_append using escapes(8) c by (simp only: hex_printable)
  have plain: "\<not> (of_char c :: nat) < 32 \<Longrightarrow> list_all printable [c]" using c by (simp add: printable_def)
  show ?thesis unfolding json_char_def by (simp only: escapes hex plain simp_thms if_True if_False split: if_split) (use plain in simp)
qed

lemma ascii_string_printable: "list_all printable (ascii_string s)"
proof -
  let ?f = "\<lambda>c. if 126 < (of_char c :: nat) then [CHR 0x5C, CHR ''u''] @ hex_digits 4 (of_char c) else json_char c"
  have f: "list_all printable (?f c)" for c
  proof (cases "126 < (of_char c :: nat)")
    case True
    then show ?thesis by (simp add: hex_printable) (simp add: printable_def)
  qed (simp add: json_char_printable)
  have "list_all printable (concat (map ?f s))"
    by (induction s) (simp_all only: list.map concat.simps list_all_append f list.pred_inject simp_thms)
  then show ?thesis unfolding ascii_string_def by (simp add: printable_def [of "CHR 0x22"])
qed

lemma int_str_printable: "list_all printable (int_str n)"
proof -
  have "printable (digit d)" if "d < 10" for d using that by (simp add: printable_def of_char_digit)
  then have "list_all printable (dec k)" for k using dec_digits [of _ k] unfolding list_all_iff by blast
  then show ?thesis by (simp add: int_str_def) (simp add: printable_def)
qed

lemma log_json_printable: "list_all printable (log_json v)"
  by (cases v) (simp_all add: ascii_string_printable int_str_printable, simp add: printable_def)

lemma comma_sep_printable: "(\<And>x. x \<in> set xs \<Longrightarrow> list_all printable x) \<Longrightarrow> list_all printable (comma_sep xs)"
  by (induction xs rule: comma_sep.induct) (auto simp: printable_def)

lemma log_line_printable: "list_all printable (log_line event)"
proof -
  have "list_all printable (comma_sep (map (\<lambda>(k, v). ascii_string k @ '':'' @ log_json v) (sort_key fst event)))"
    by (rule comma_sep_printable) (auto simp: ascii_string_printable log_json_printable, simp add: printable_def)
  then show ?thesis by (simp add: log_line_def) (simp add: printable_def)
qed

text \<open>Two values of a key that the logger does not tell apart.\<close>

definition undistinguished :: "(nat list \<Rightarrow> string) \<Rightarrow> string \<times> log_value \<Rightarrow> string \<times> log_value \<Rightarrow> bool" where
  "undistinguished sha256 e f \<longleftrightarrow> fst e = fst f \<and> (sensitive (fst e) \<or> snd e = snd f
     \<or> fst e = ''workspace_id'' \<and> snd e \<noteq> LNone \<and> snd f \<noteq> LNone
        \<and> hash_workspace_id sha256 (log_str (snd e)) = hash_workspace_id sha256 (log_str (snd f)))"

lemma update_undistinguished:
  assumes "list_all2 (undistinguished sha256) d d'" and "undistinguished sha256 (k, v) (k, v')"
  shows "list_all2 (undistinguished sha256) (AList.update k v d) (AList.update k v' d')"
  using assms
proof (induction d d' rule: list_all2_induct)
  case (Cons e d f d')
  obtain j x y where ef: "e = (j, x)" "f = (j, y)" using Cons.hyps(1) by (cases e; cases f) (auto simp: undistinguished_def)
  show ?case using Cons by (simp add: ef)
qed simp

lemma sanitize_undistinguished: "undistinguished sha256 e f \<Longrightarrow> sanitize_entry sha256 e = sanitize_entry sha256 f"
  by (cases e; cases f) (auto simp: undistinguished_def sanitize_entry_def)

lemma bind_undistinguished:
  assumes "list_all2 (undistinguished sha256) given given'" and "list_all2 (undistinguished sha256) logger logger'"
  shows "bind_fields sha256 given logger = bind_fields sha256 given' logger'"
proof -
  have "list_all2 (undistinguished sha256) (fold (\<lambda>(k, v). AList.update k v) given d) (fold (\<lambda>(k, v). AList.update k v) given' d')"
    if "list_all2 (undistinguished sha256) d d'" for d d'
    using assms(1) that
  proof (induction given given' arbitrary: d d' rule: list_all2_induct)
    case (Cons e es f fs)
    obtain k v v' where "e = (k, v)" "f = (k, v')" using Cons.hyps(1) by (cases e; cases f) (auto simp: undistinguished_def)
    then show ?case using Cons update_undistinguished by auto
  qed simp
  moreover have "fold (sanitize_entry sha256) d acc = fold (sanitize_entry sha256) d' acc" if "list_all2 (undistinguished sha256) d d'" for d d' acc
    using that by (induction d d' arbitrary: acc rule: list_all2_induct) (simp_all add: sanitize_undistinguished)
  ultimately show ?thesis using assms(2) unfolding bind_fields_def by blast
qed

text \<open>The fields of a request that the line depends on: not the credentials, and the workspace only
  through its hash.\<close>

lemma request_line_hides:
  assumes "hq_method rq = hq_method rq'" and "hq_path rq = hq_path rq'" and "an_response a = an_response a'"
    and "rel_option (\<lambda>w w'. hash_workspace_id sha256 w = hash_workspace_id sha256 w') (an_workspace a) (an_workspace a')"
  shows "bind_fields sha256 (request_fields cid d rq a) [] = bind_fields sha256 (request_fields cid d rq' a') []"
  by (rule bind_undistinguished, use assms in \<open>cases "an_workspace a"; cases "an_workspace a'"\<close>)
    (simp_all add: request_fields_def undistinguished_def)

lemma workspace_hashed: "log_line (capture ''m'' (bind_fields (\<lambda>_. ''h'') [(''workspace_id'', LText w), (''Code'', LText s)] [])) =
    log_line (capture ''m'' (bind_fields (\<lambda>_. ''h'') [(''workspace_id'', LText []), (''Code'', LText [])] []))"
proof -
  have "sensitive ''Code''" by code_simp
  then have "bind_fields (\<lambda>_. ''h'') [(''workspace_id'', LText w), (''Code'', LText s)] []
    = bind_fields (\<lambda>_. ''h'') [(''workspace_id'', LText []), (''Code'', LText [])] []"
    by (intro bind_undistinguished) (simp_all add: undistinguished_def hash_workspace_id_def)
  then show ?thesis by simp
qed

section \<open>Properties\<close>

definition fresh_edge :: "registry \<Rightarrow> 's \<Rightarrow> ('s \<times> http_request list) edge" where
  "fresh_edge m s = \<lparr>eg_counters = [], eg_metrics = m, eg_log = [], eg_app = (s, [])\<rparr>"

text \<open>
  C37. The edge bounds the rate of every actor: whatever requests anyone has sent before, of the
  requests of one actor on one bucket that arrive in clock order within one window of the bucket,
  between any requests of others, fewer than twice the bucket's maximum reach the application, and no
  more than the maximum if the actor has sent none on the bucket before.
\<close>

theorem edge_rate_bound:
  assumes "map_of limits (snd key) = Some bucket" and "0 < limit_window bucket"
    and "\<forall>c\<in>set calls. (\<exists>w off. hc_now c = Aware w off) \<and> since \<le> instant_of (hc_now c) \<and> instant_of (hc_now c) < since + limit_window bucket"
    and "sorted (map (instant_of \<circ> hc_now) calls)"
  shows "let before = serve_all sha256 limits (recording app) history (fresh_edge m s);
      passed = sent_by sha256 key (reached (serve_all sha256 limits (recording app) calls before)) - sent_by sha256 key (reached before)
    in passed \<le> 2 * max_requests bucket - 1
       \<and> ((\<forall>c\<in>set history. rate_key sha256 (hc_request c) \<noteq> Some key) \<longrightarrow> passed \<le> max_requests bucket)"
proof -
  let ?before = "serve_all sha256 limits (recording app) history (fresh_edge m s)"
  let ?ts = "times_of sha256 key calls"
  have passed: "sent_by sha256 key (reached (serve_all sha256 limits (recording app) calls ?before)) - sent_by sha256 key (reached ?before)
      = allowed_calls key bucket ?ts (eg_counters ?before)"
    using assms(3) by (subst serve_all_allowed [OF assms(1)]) auto
  have "counters_ok limits (eg_counters ?before)" by (rule serve_all_counters) (simp add: fresh_edge_def counters_ok_def)
  then have ok: "case map_of (eg_counters ?before) key of None \<Rightarrow> True | Some (start, c) \<Rightarrow> 1 \<le> c \<and> c \<le> max_requests bucket"
    using assms(1) unfolding counters_ok_def by (fastforce split: option.split)
  have times: "\<forall>t\<in>set ?ts. since \<le> t \<and> t < since + limit_window bucket" using assms(3) by (auto simp: times_of_def)
  have "sorted ?ts" unfolding times_of_def by (rule sorted_filter) (use assms(4) in simp)
  note bound = rate_limit_bound [OF ok assms(2) times this]
  have "map_of (eg_counters ?before) key = None" if "\<forall>c\<in>set history. rate_key sha256 (hc_request c) \<noteq> Some key"
    by (rule untouched_counter [OF that]) (simp add: fresh_edge_def)
  then show ?thesis using bound unfolding Let_def passed by blast
qed

definition a_call :: "string \<Rightarrow> int \<Rightarrow> http_call" where
  "a_call token t = \<lparr>hc_request = \<lparr>hq_method = ''GET'', hq_path = ''/api/v1/today'', hq_client = Some ''h'',
       hq_authorization = Some (''Bearer '' @ token), hq_correlation = None\<rparr>, hc_now = Aware t 0, hc_new_id = ''i'', hc_elapsed = 0\<rparr>"

definition an_app :: "unit application" where
  "an_app rq ms = (outside None, ms)"

lemma a_call_key: "rate_key byte_hash (hc_request (a_call ''x'' t)) = Some (''session:x'', ''read-api'')"
  "rate_key byte_hash (hc_request (a_call ''y'' t)) = Some (''session:y'', ''read-api'')"
  unfolding a_call_def by code_simp+

lemma edge_rate_bound_witness:
  "sent_by byte_hash (''session:x'', ''read-api'') (reached (serve_all byte_hash [(''read-api'', tight_bucket)] (recording an_app)
     [a_call ''x'' 1, a_call ''y'' 2, a_call ''x'' 3, a_call ''x'' 4] (fresh_edge new_metrics ()))) \<le> 2
   \<and> sent_by byte_hash (''session:x'', ''read-api'') (reached (serve_all byte_hash [(''read-api'', tight_bucket)] (recording an_app)
     [a_call ''x'' 1, a_call ''y'' 2, a_call ''x'' 3, a_call ''x'' 4] (fresh_edge new_metrics ()))) = 2"
proof
  let ?calls = "[a_call ''x'' 1, a_call ''y'' 2, a_call ''x'' 3, a_call ''x'' 4]" and ?key = "(''session:x'', ''read-api'')"
  have now: "hc_now (a_call u t) = Aware t 0" for u t by (simp add: a_call_def)
  show "sent_by byte_hash ?key (reached (serve_all byte_hash [(''read-api'', tight_bucket)] (recording an_app) ?calls (fresh_edge new_metrics ()))) \<le> 2"
    using edge_rate_bound [of "[(''read-api'', tight_bucket)]" ?key tight_bucket ?calls 0 byte_hash an_app "[]" new_metrics "()"]
    by (simp add: now tight_bucket_def Let_def sent_by_def reached_def fresh_edge_def)
  show "sent_by byte_hash ?key (reached (serve_all byte_hash [(''read-api'', tight_bucket)] (recording an_app) ?calls (fresh_edge new_metrics ()))) = 2"
    by (subst serve_all_allowed [where bucket = tight_bucket])
      (simp_all add: now times_of_def a_call_key fresh_edge_def reached_def sent_by_def allow_at_def tight_bucket_def dget_def)
qed



end
