(* ===== verification/App_Settings.thy ===== *)
theory App_Settings
  imports Calendar_Connections
begin

text \<open>
  The settings of the API process (\<open>settings.py\<close>) and the identity of the worker (\<open>main.py\<close> of the
  worker): the checks a process makes before it starts. Reading the environment variables is the
  settings library's. The results: what settings that are accepted outside of a local environment
  cannot contain, and that an accepted encryption key is one the token vault takes.
\<close>

section \<open>Settings\<close>

record api_settings =
  ap_environment :: string
  ap_client_id :: "string option"
  ap_client_secret :: "string option"
  ap_redirect_uri :: string
  ap_authorize_url :: string
  ap_token_url :: string
  ap_token_key :: "string option"
  ap_metrics_token :: "string option"
  ap_s3_endpoint :: string
  ap_s3_access_key_id :: string
  ap_s3_secret :: string
  ap_redis_url :: string
  ap_database_url :: string

definition valid_token_key :: "string option \<Rightarrow> string option res" where
  "valid_token_key v = (case v of None \<Rightarrow> Inr None
   | Some secret \<Rightarrow> (case b64decode secret of
       None \<Rightarrow> Inl (ValueError ''token_encryption_key must be URL-safe base64'')
     | Some key \<Rightarrow> if length key \<noteq> 32 then Inl (ValueError ''token_encryption_key must decode to 32 bytes'') else Inr v))"

definition is_local :: "api_settings \<Rightarrow> bool" where
  "is_local s \<longleftrightarrow> ap_environment s \<in> {''local'', ''test''}"

definition model_post_init :: "api_settings \<Rightarrow> unit res" where
  "model_post_init s =
     (if \<not> is_local s \<and> (contains ''local_only_password'' (ap_database_url s) \<or> contains ''localhost'' (ap_database_url s))
      then Inl (ValueError (''environment='' @ py_repr (ap_environment s) @ '' requires a real DATABASE_URL; the local default is forbidden outside local/test''))
      else if \<not> is_local s \<and> non_empty (ap_client_id s)
        \<and> \<not> list_all (starts_with ''https://'') [ap_redirect_uri s, ap_authorize_url s, ap_token_url s]
      then Inl (ValueError ''production OAuth URLs must use HTTPS'')
      else if \<not> is_local s \<and> (\<not> starts_with ''https://'' (ap_s3_endpoint s) \<or> ap_s3_access_key_id s = ''personal_pm''
        \<or> contains ''local_only_password'' (ap_s3_secret s))
      then Inl (ValueError ''production object storage requires HTTPS and non-local credentials'')
      else if \<not> is_local s \<and> contains ''localhost'' (ap_redis_url s)
      then Inl (ValueError ''production rate limiting requires a non-local REDIS_URL'')
      else Inr ())"

definition mk_settings :: "api_settings \<Rightarrow> api_settings res" where
  "mk_settings s = rbind (valid_token_key (ap_token_key s)) (\<lambda>_. rbind (model_post_init s) (\<lambda>_. Inr s))"

definition oauth_settings_of :: "api_settings \<Rightarrow> oauth_settings" where
  "oauth_settings_of s = \<lparr>st_client_id = ap_client_id s, st_client_secret = ap_client_secret s,
     st_redirect_uri = Some (ap_redirect_uri s), st_token_key = ap_token_key s\<rparr>"

section \<open>The worker\<close>

definition build_worker_identity :: "string \<Rightarrow> string res" where
  "build_worker_identity environment = (let normalized = lower (strip environment) in
     if normalized = [] then Inl (ValueError ''environment must not be empty'') else Inr (''personal-pm-worker:'' @ normalized))"

lemma worker_identity_blank: "(\<exists>e. build_worker_identity environment = Inl e) \<longleftrightarrow> blank environment"
  by (simp add: build_worker_identity_def blank_def lower_def)

section \<open>Properties\<close>

lemma mk_settings_Inr: "mk_settings s = Inr t \<Longrightarrow> t = s \<and> valid_token_key (ap_token_key s) = Inr (ap_token_key s) \<and> model_post_init s = Inr ()"
  by (auto simp: mk_settings_def res_simps valid_token_key_def split: option.splits if_splits)

text \<open>The environment that the program takes when it is told none is a local one: nothing is refused.\<close>

lemma local_settings_unchecked: "ap_environment s = ''local'' \<Longrightarrow> ap_token_key s = None \<Longrightarrow> mk_settings s = Inr s"
  by (simp add: mk_settings_def valid_token_key_def model_post_init_def is_local_def)

text \<open>
  A process starts only with settings that fit: outside of the local and test environments no
  local password or host is left in them and the storage is reached over HTTPS, and in any
  environment an encryption key that is set is one with which the token vault works.
\<close>

theorem settings_fit:
  assumes "mk_settings s = Inr t"
  shows "t = s
    \<and> (ap_token_key s \<noteq> None \<longrightarrow> (\<exists>key. vault_key (oauth_settings_of s) = Inr key \<and> length key = 32))
    \<and> (ap_environment s \<notin> {''local'', ''test''} \<longrightarrow>
         \<not> contains ''local_only_password'' (ap_database_url s) \<and> \<not> contains ''localhost'' (ap_database_url s)
         \<and> \<not> contains ''local_only_password'' (ap_s3_secret s) \<and> starts_with ''https://'' (ap_s3_endpoint s)
         \<and> \<not> contains ''localhost'' (ap_redis_url s)
         \<and> (provider_is_configured (oauth_settings_of s) \<longrightarrow>
              starts_with ''https://'' (ap_redirect_uri s) \<and> starts_with ''https://'' (ap_authorize_url s) \<and> starts_with ''https://'' (ap_token_url s)))"
proof -
  from mk_settings_Inr [OF assms] have t: "t = s" and key: "valid_token_key (ap_token_key s) = Inr (ap_token_key s)" and init: "model_post_init s = Inr ()"
    by simp_all
  have "\<exists>k. vault_key (oauth_settings_of s) = Inr k \<and> length k = 32" if "ap_token_key s \<noteq> None"
    using key that by (auto simp: valid_token_key_def vault_key_def oauth_settings_of_def split: option.splits if_splits)
  moreover have "provider_is_configured (oauth_settings_of s) \<Longrightarrow> non_empty (ap_client_id s)"
    by (simp add: provider_is_configured_def oauth_settings_of_def)
  ultimately show ?thesis using t init by (auto simp: model_post_init_def is_local_def split: if_splits)
qed

definition live_settings :: api_settings where
  "live_settings = \<lparr>ap_environment = ''prod'', ap_client_id = None, ap_client_secret = None, ap_redirect_uri = ''r'', ap_authorize_url = ''a'',
     ap_token_url = ''t'', ap_token_key = None, ap_metrics_token = None, ap_s3_endpoint = ''https://s3'', ap_s3_access_key_id = ''k'',
     ap_s3_secret = ''s'', ap_redis_url = ''redis://r'', ap_database_url = ''db''\<rparr>"

lemma settings_fit_witness: "mk_settings live_settings = Inr live_settings \<and> \<not> contains ''localhost'' (ap_redis_url live_settings)"
proof -
  have "mk_settings live_settings = Inr live_settings" by code_simp
  from settings_fit [OF this] this show ?thesis by (simp add: live_settings_def)
qed

end
