(* ===== verification/Iso_Date.thy ===== *)
theory Iso_Date
  imports Iso_Text
begin

text \<open>
  Reading a date (\<open>date.fromisoformat\<close>): calendar dates and ISO weeks, with and without separators,
  and that it reads back what \<open>date.isoformat\<close> writes.
\<close>

definition digits :: "string \<Rightarrow> bool" where
  "digits s \<longleftrightarrow> list_all (\<lambda>c. let n = of_char c :: nat in 48 \<le> n \<and> n \<le> 57) s"

definition date_of_civil :: "int \<Rightarrow> int \<Rightarrow> int \<Rightarrow> date option" where
  "date_of_civil y m d = (let day = days_of_civil y m d in
     if 1 \<le> y \<and> y \<le> 9999 \<and> 1 \<le> m \<and> m \<le> 12 \<and> 1 \<le> d \<and> d \<le> 31 \<and> civil day = (y, m, d) then Some day else None)"

definition date_of_week :: "int \<Rightarrow> int \<Rightarrow> int \<Rightarrow> date option" where
  "date_of_week y w d = (let first = days_of_civil y 1 1; first_weekday = (first + 3) mod 7;
       leap = (civil (days_of_civil y 2 29) = (y, 2, 29));
       week1 = first - first_weekday + (if 3 < first_weekday then 7 else 0);
       day = week1 + (w - 1) * 7 + d - 1
     in if 1 \<le> y \<and> 1 \<le> w \<and> (w \<le> 52 \<or> w = 53 \<and> (first_weekday = 3 \<or> first_weekday = 2 \<and> leap)) \<and> 1 \<le> d \<and> d \<le> 7
          \<and> fst (civil day) \<le> 9999 then Some day else None)"

definition date_of_text :: "string \<Rightarrow> date option" where
  "date_of_text s = (let y = int (part 0 4 s); n = length s in
     if \<not> (7 \<le> n \<and> digits (take 4 s)) then None
     else if n = 10 \<and> take 2 (drop 4 s) = ''-W'' \<and> s ! 8 = CHR ''-'' \<and> digits (take 2 (drop 6 s) @ drop 9 s)
     then date_of_week y (int (part 6 2 s)) (int (part 9 1 s))
     else if n = 10 \<and> s ! 4 = CHR ''-'' \<and> s ! 7 = CHR ''-'' \<and> digits (take 2 (drop 5 s) @ drop 8 s)
     then date_of_civil y (int (part 5 2 s)) (int (part 8 2 s))
     else if n = 8 \<and> digits s then date_of_civil y (int (part 4 2 s)) (int (part 6 2 s))
     else if n = 8 \<and> take 2 (drop 4 s) = ''-W'' \<and> digits (drop 6 s) then date_of_week y (int (part 6 2 s)) 1
     else if n = 7 \<and> s ! 4 = CHR ''W'' \<and> digits (drop 5 s) then date_of_week y (int (part 5 2 s)) 1
     else if n = 8 \<and> s ! 4 = CHR ''W'' \<and> digits (drop 5 s) then date_of_week y (int (part 5 2 s)) (int (part 7 1 s))
     else None)"

lemma date_examples:
  "date_of_text ''2024-02-29'' = Some 19782" "date_of_text ''2023-02-29'' = None" "date_of_text ''20240229'' = Some 19782"
  "date_of_text ''2024-W09-4'' = Some 19782" "date_of_text ''2020-W53-7'' = Some 18630" "date_of_text ''2021-W53'' = None"
  "date_of_text ''2024-2-9'' = None"
  by code_simp+

lemma date_round_trip:
  assumes "civil day = (y, m, d)" and "1 \<le> y" and "y \<le> 9999"
  shows "date_of_text (date_iso day) = Some day"
proof -
  have inv: "days_of_civil y m d = day" "1 \<le> m \<and> m \<le> 12 \<and> 1 \<le> d \<and> d \<le> 31" using civil_inverse [OF assms(1)] by simp_all
  have len: "length (pad 4 (nat y)) = 4" "length (pad 2 (nat m)) = 2" "length (pad 2 (nat d)) = 2"
    using assms(2,3) inv(2) by (auto intro!: length_pad simp: nat_less_iff)
  have dig: "digits (pad w n)" for w n
    unfolding digits_def list_all_iff using pad_digits by (fastforce simp: of_char_digit)
  have s: "date_iso day = pad 4 (nat y) @ ''-'' @ pad 2 (nat m) @ ''-'' @ pad 2 (nat d)" by (simp add: date_iso_def assms(1))
  have parts: "part 0 4 (date_iso day) = nat y" "part 5 2 (date_iso day) = nat m" "part 8 2 (date_iso day) = nat d"
    "take 4 (date_iso day) = pad 4 (nat y)" "take 2 (drop 5 (date_iso day)) = pad 2 (nat m)" "drop 8 (date_iso day) = pad 2 (nat d)"
    "date_iso day ! 4 = CHR ''-''" "date_iso day ! 7 = CHR ''-''" "length (date_iso day) = 10"
    by (simp_all add: part_def s len undec_pad nth_append)
  have not_week: "take 2 (drop 4 (date_iso day)) \<noteq> ''-W''"
  proof
    assume w: "take 2 (drop 4 (date_iso day)) = ''-W''"
    obtain c cs where c: "pad 2 (nat m) = c # cs" using len(2) by (cases "pad 2 (nat m)") auto
    have "c = CHR ''W''" using w by (simp add: s len c)
    moreover obtain k where "k < 10" "c = digit k" using pad_digits [of c 2 "nat m"] c by auto
    ultimately have "of_char (CHR ''W'') = 48 + k" using of_char_digit [of k] by simp
    then show False using \<open>k < 10\<close> by simp
  qed
  have both: "digits (a @ b) \<longleftrightarrow> digits a \<and> digits b" for a b by (simp add: digits_def)
  show ?thesis using inv assms by (simp add: date_of_text_def Let_def parts not_week dig both date_of_civil_def)
qed

end
