(* ===== verification/Release_Gate.thy ===== *)
theory Release_Gate
  imports Canonical Iso_Date Python_Text
begin

text \<open>
  The release decision (\<open>scripts/verify_release.py\<close>) and the report of the pilot
  (\<open>analytics/pilot.py\<close>): reading the six evidence files, checking what they hold, and deciding.
  Reading JSON is a parameter; a number with a fraction, which no check here accepts, is outside of
  \<open>json\<close>. The messages of errors are not modelled. The results: exactly when the gate passes, that
  a release that passes is one the pilot report calls eligible, and where the gate crashes.
\<close>

section \<open>The decision\<close>

record release_decision =
  rd_decision :: string
  rd_reasons :: "string list"

record outcome_result =
  oc_passed :: bool
  oc_within_ten_percent :: bool

record release_inputs =
  rl_s0_incidents :: int
  rl_deadline_delays :: int
  rl_threshold_changes :: "string list"
  rl_stage_a_passed :: bool
  rl_stage_b_passed :: bool
  rl_stage_c_passed :: bool
  rl_external_blocked :: bool
  rl_outcomes :: "(string, outcome_result) dict"
  rl_reevaluation_date :: "string option"

definition MANDATORY_OUTCOMES :: "string list" where
  "MANDATORY_OUTCOMES = [''OUT-001'', ''OUT-002'', ''OUT-005'', ''OUT-006'']"

definition REQUIRED_OUTCOMES :: "string list" where
  "REQUIRED_OUTCOMES = map (\<lambda>index. ''OUT-'' @ pad 3 index) [1 ..< 11]"

definition failed :: "string \<Rightarrow> release_decision" where
  "failed reason = \<lparr>rd_decision = ''FAIL'', rd_reasons = [reason]\<rparr>"

text \<open>The outcome of a metric that the guard on missing metrics has found.\<close>

definition outcome_at :: "release_inputs \<Rightarrow> string \<Rightarrow> outcome_result" where
  "outcome_at i m = dget (rl_outcomes i) m \<lparr>oc_passed = False, oc_within_ten_percent = False\<rparr>"

definition decide_release :: "release_inputs \<Rightarrow> release_decision" where
  "decide_release i =
     (if rl_s0_incidents i \<noteq> 0 \<or> rl_deadline_delays i \<noteq> 0 then failed ''CATASTROPHIC_GATE''
      else if list_ex (\<lambda>t. t = ''AFTER'') (rl_threshold_changes i) then failed ''POST_HOC_THRESHOLD_CHANGE''
      else if rl_external_blocked i then failed ''EXTERNAL_EVIDENCE_BLOCKED''
      else if \<not> rl_stage_a_passed i \<or> \<not> rl_stage_b_passed i \<or> \<not> rl_stage_c_passed i then failed ''TECHNICAL_GATE_FAILED''
      else if list_ex (\<lambda>m. m \<notin> fst ` set (rl_outcomes i)) REQUIRED_OUTCOMES then failed ''MISSING_OUTCOME''
      else if list_ex (\<lambda>m. \<not> oc_passed (outcome_at i m)) MANDATORY_OUTCOMES then failed ''MANDATORY_OUTCOME_FAILED''
      else (case filter (\<lambda>r. \<not> oc_passed r) (map (outcome_at i) (filter (\<lambda>m. m \<notin> set MANDATORY_OUTCOMES) REQUIRED_OUTCOMES)) of
          [] \<Rightarrow> \<lparr>rd_decision = ''PASS'', rd_reasons = []\<rparr>
        | [r] \<Rightarrow> (if oc_within_ten_percent r \<and> rl_reevaluation_date i \<notin> {None, Some []}
            then \<lparr>rd_decision = ''CONDITIONAL_PASS'', rd_reasons = [''ONE_OPTIONAL_OUTCOME_NEAR_THRESHOLD'']\<rparr>
            else failed ''OUTCOME_GATE_FAILED'')
        | _ \<Rightarrow> failed ''OUTCOME_GATE_FAILED''))"

section \<open>Reading the evidence\<close>

text \<open>\<open>Invalid\<close>: an error the script catches and reports. \<open>Crash\<close>: one that it does not catch.\<close>

datatype gate_error = Invalid | Crash

type_synonym json_dict = "(string \<times> json) list"

definition json_get :: "json_dict \<Rightarrow> string \<Rightarrow> json" where
  "json_get kvs k = dget kvs k JNull"

definition load_input :: "(nat list \<Rightarrow> json option) \<Rightarrow> nat list \<Rightarrow> gate_error + json_dict" where
  "load_input loads raw = (case loads raw of
     Some (JObj kvs) \<Rightarrow> if json_get kvs ''schema_version'' = JStr ''1.0'' then Inr kvs else Inl Invalid
   | _ \<Rightarrow> Inl Invalid)"

fun nonnegative_int :: "json \<Rightarrow> gate_error + int" where
  "nonnegative_int (JInt n) = (if n < 0 then Inl Invalid else Inr n)"
| "nonnegative_int _ = Inl Invalid"

fun parse_outcome :: "string \<times> json \<Rightarrow> gate_error + string \<times> outcome_result" where
  "parse_outcome (metric, JObj kvs) = (case (json_get kvs ''passed'', dget kvs ''within_ten_percent'' (JBool False)) of
     (JBool p, JBool w) \<Rightarrow> Inr (metric, \<lparr>oc_passed = p, oc_within_ten_percent = w\<rparr>)
   | _ \<Rightarrow> Inl Invalid)"
| "parse_outcome _ = Inl Invalid"

fun collect :: "('a \<Rightarrow> gate_error + 'b) \<Rightarrow> 'a list \<Rightarrow> gate_error + 'b list" where
  "collect f [] = Inr []"
| "collect f (x # xs) = (case f x of Inl e \<Rightarrow> Inl e | Inr y \<Rightarrow> (case collect f xs of Inl e \<Rightarrow> Inl e | Inr ys \<Rightarrow> Inr (y # ys)))"

definition parse_outcomes :: "json_dict \<Rightarrow> gate_error + (string, outcome_result) dict \<times> string option" where
  "parse_outcomes v = (case json_get v ''outcomes'' of
     JObj raw \<Rightarrow> (case collect parse_outcome raw of Inl e \<Rightarrow> Inl e
       | Inr outcomes \<Rightarrow> (case json_get v ''reevaluation_date'' of
           JNull \<Rightarrow> Inr (outcomes, None)
         | JStr d \<Rightarrow> if date_of_text d = None then Inl Invalid else Inr (outcomes, Some d)
         | _ \<Rightarrow> Inl Invalid))
   | _ \<Rightarrow> Inl Invalid)"

text \<open>\<open>value in {\<dots>}\<close> for a set of texts: a list or an object cannot be hashed.\<close>

fun text_in :: "string list \<Rightarrow> json \<Rightarrow> gate_error + string" where
  "text_in xs (JStr s) = (if s \<in> set xs then Inr s else Inl Invalid)"
| "text_in xs (JList _) = Inl Crash"
| "text_in xs (JObj _) = Inl Crash"
| "text_in xs _ = Inl Invalid"

fun parse_change :: "json \<Rightarrow> gate_error + string" where
  "parse_change (JObj kvs) = text_in [''BEFORE'', ''AFTER''] (json_get kvs ''changed_before_or_after_evaluation'')"
| "parse_change _ = Inl Invalid"

definition parse_changes :: "json_dict \<Rightarrow> gate_error + string list" where
  "parse_changes v = (case json_get v ''changes'' of JList raw \<Rightarrow> collect parse_change raw | _ \<Rightarrow> Inl Invalid)"

section \<open>The script\<close>

record evidence =
  ev_stage_a :: json_dict
  ev_stage_b :: json_dict
  ev_stage_c :: json_dict
  ev_outcomes :: json_dict
  ev_incidents :: json_dict
  ev_threshold_changes :: json_dict

definition INPUT_NAMES :: "string list" where
  "INPUT_NAMES = [''stage-a'', ''stage-b'', ''stage-c'', ''outcomes'', ''incidents'', ''threshold-changes'']"

definition STATUSES :: "string list" where
  "STATUSES = [''PASS'', ''FAIL'', ''BLOCKED_EXTERNAL'']"

definition gate_bind :: "gate_error + 'a \<Rightarrow> ('a \<Rightarrow> gate_error + 'b) \<Rightarrow> gate_error + 'b" where
  "gate_bind m f = (case m of Inl e \<Rightarrow> Inl e | Inr x \<Rightarrow> f x)"

definition read_inputs :: "evidence \<Rightarrow> gate_error + release_inputs" where
  "read_inputs e =
     gate_bind (text_in STATUSES (json_get (ev_stage_a e) ''overall'')) (\<lambda>a.
     gate_bind (text_in STATUSES (json_get (ev_stage_b e) ''overall'')) (\<lambda>b.
     gate_bind (text_in STATUSES (json_get (ev_stage_c e) ''overall'')) (\<lambda>c.
     gate_bind (text_in [''emulator'', ''live'', ''none''] (json_get (ev_stage_c e) ''provider_profile'')) (\<lambda>profile.
     gate_bind (parse_outcomes (ev_outcomes e)) (\<lambda>(outcomes, reevaluation).
     gate_bind (nonnegative_int (json_get (ev_incidents e) ''s0_incidents'')) (\<lambda>s0.
     gate_bind (nonnegative_int (json_get (ev_incidents e) ''system_caused_deadline_delays'')) (\<lambda>delays.
     gate_bind (parse_changes (ev_threshold_changes e)) (\<lambda>changes.
       Inr \<lparr>rl_s0_incidents = s0, rl_deadline_delays = delays, rl_threshold_changes = changes,
         rl_stage_a_passed = a = ''PASS'', rl_stage_b_passed = b = ''PASS'', rl_stage_c_passed = c = ''PASS'',
         rl_external_blocked = ''BLOCKED_EXTERNAL'' \<in> {a, b, c} \<or> profile \<noteq> ''live'',
         rl_outcomes = outcomes, rl_reevaluation_date = reevaluation\<rparr>))))))))"

text \<open>What a run leaves: an exit code with the report, or a crash without one.\<close>

record release_report =
  rr_exit :: int
  rr_decision :: release_decision
  rr_hashes :: "(string, string) dict"

definition exit_code :: "release_decision \<Rightarrow> int" where
  "exit_code d = (if rd_decision d = ''PASS'' then 0 else if rd_decision d = ''CONDITIONAL_PASS'' then 2 else 1)"

definition rejected :: "string \<Rightarrow> release_report" where
  "rejected reason = \<lparr>rr_exit = 1, rr_decision = failed reason, rr_hashes = []\<rparr>"

definition decide_values :: "json_dict list \<Rightarrow> gate_error + release_decision" where
  "decide_values values = (case values of
     [a, b, c, outcomes, incidents, changes] \<Rightarrow>
       gate_bind (read_inputs \<lparr>ev_stage_a = a, ev_stage_b = b, ev_stage_c = c, ev_outcomes = outcomes,
         ev_incidents = incidents, ev_threshold_changes = changes\<rparr>) (\<lambda>i. Inr (decide_release i))
   | _ \<Rightarrow> Inl Crash)"

definition decide_files :: "(nat list \<Rightarrow> json option) \<Rightarrow> (string \<Rightarrow> nat list) \<Rightarrow> gate_error + release_decision" where
  "decide_files loads raw = gate_bind (collect (\<lambda>name. load_input loads (raw name)) INPUT_NAMES) decide_values"

definition release_main :: "(nat list \<Rightarrow> json option) \<Rightarrow> (nat list \<Rightarrow> string) \<Rightarrow> (string \<Rightarrow> nat list option) \<Rightarrow> release_report option" where
  "release_main loads sha256 file =
     (if list_ex (\<lambda>name. file name = None) INPUT_NAMES then Some (rejected ''INPUT_MISSING'')
      else
        (let raw = (\<lambda>name. the (file name))
         in case decide_files loads raw of
              Inl Crash \<Rightarrow> None
            | Inl Invalid \<Rightarrow> Some (rejected ''INPUT_INVALID'')
            | Inr d \<Rightarrow> Some \<lparr>rr_exit = exit_code d, rr_decision = d, rr_hashes = map (\<lambda>name. (name, sha256 (raw name))) INPUT_NAMES\<rparr>))"

section \<open>The pilot report\<close>

record pilot_report =
  po_release_eligible :: bool
  po_deadline_delays :: int
  po_outcomes_passed :: nat

definition week_four_active :: "int \<Rightarrow> int \<Rightarrow> int \<Rightarrow> bool" where
  "week_four_active days_used task_actions plan_views \<longleftrightarrow> 3 \<le> days_used \<and> 5 \<le> task_actions \<and> 2 \<le> plan_views"

definition build_outcome_report :: "int \<Rightarrow> (string, bool) dict \<Rightarrow> int \<Rightarrow> pilot_report" where
  "build_outcome_report delays outcomes s0_incidents =
     (let passed = length (filter snd outcomes) in
      if s0_incidents \<noteq> 0 \<or> delays \<noteq> 0
      then \<lparr>po_release_eligible = False, po_deadline_delays = delays, po_outcomes_passed = passed\<rparr>
      else \<lparr>po_release_eligible = list_all (\<lambda>m. dget outcomes m False) MANDATORY_OUTCOMES, po_deadline_delays = 0, po_outcomes_passed = passed\<rparr>)"

section \<open>When the gate opens\<close>

lemma mandatory_required: "set MANDATORY_OUTCOMES \<subseteq> set REQUIRED_OUTCOMES"
  by code_simp

lemma decide_pass:
  "rd_decision (decide_release i) = ''PASS'' \<longleftrightarrow>
     rl_s0_incidents i = 0 \<and> rl_deadline_delays i = 0 \<and> ''AFTER'' \<notin> set (rl_threshold_changes i) \<and> \<not> rl_external_blocked i
     \<and> rl_stage_a_passed i \<and> rl_stage_b_passed i \<and> rl_stage_c_passed i
     \<and> (\<forall>m\<in>set REQUIRED_OUTCOMES. \<exists>r. map_of (rl_outcomes i) m = Some r \<and> oc_passed r)"
proof -
  let ?opt = "filter (\<lambda>r. \<not> oc_passed r) (map (outcome_at i) (filter (\<lambda>m. m \<notin> set MANDATORY_OUTCOMES) REQUIRED_OUTCOMES))"
  have opt: "?opt = [] \<longleftrightarrow> (\<forall>m\<in>set REQUIRED_OUTCOMES. m \<notin> set MANDATORY_OUTCOMES \<longrightarrow> oc_passed (outcome_at i m))"
    by (auto simp: filter_empty_conv)
  have at: "m \<in> fst ` set (rl_outcomes i) \<and> oc_passed (outcome_at i m) \<longleftrightarrow> (\<exists>r. map_of (rl_outcomes i) m = Some r \<and> oc_passed r)" for m
  proof -
    have "m \<in> fst ` set (rl_outcomes i) \<longleftrightarrow> map_of (rl_outcomes i) m \<noteq> None" by (simp add: map_of_eq_None_iff)
    then show ?thesis by (simp add: outcome_at_def dget_def split: option.split)
  qed
  have all: "(\<forall>m\<in>set REQUIRED_OUTCOMES. \<exists>r. map_of (rl_outcomes i) m = Some r \<and> oc_passed r)
    \<longleftrightarrow> (\<forall>m\<in>set REQUIRED_OUTCOMES. m \<in> fst ` set (rl_outcomes i)) \<and> (\<forall>m\<in>set MANDATORY_OUTCOMES. oc_passed (outcome_at i m)) \<and> ?opt = []"
    using mandatory_required unfolding at [symmetric] opt by blast
  show ?thesis unfolding all
    by (auto simp: decide_release_def failed_def list_ex_iff split: list.split)
qed

lemma gate_bind_Inr [simp]: "gate_bind m f = Inr y \<longleftrightarrow> (\<exists>x. m = Inr x \<and> f x = Inr y)"
  by (simp add: gate_bind_def split: sum.split)

lemma text_in_Inr: "text_in xs v = Inr s \<longleftrightarrow> v = JStr s \<and> s \<in> set xs"
  by (cases v) auto

lemma nonnegative_int_Inr: "nonnegative_int v = Inr n \<longleftrightarrow> v = JInt n \<and> 0 \<le> n"
  by (cases v) auto

lemma collect_Inr: "collect f xs = Inr ys \<longleftrightarrow> list_all2 (\<lambda>x y. f x = Inr y) xs ys"
proof (induction xs arbitrary: ys)
  case (Cons x xs)
  show ?case by (auto split: sum.split simp: list_all2_Cons1 Cons.IH [symmetric])
qed auto

lemma load_input_Inr:
  "load_input loads raw = Inr kvs \<longleftrightarrow> loads raw = Some (JObj kvs) \<and> json_get kvs ''schema_version'' = JStr ''1.0''"
  by (auto simp: load_input_def split: option.splits json.splits if_splits)

lemma exit_zero: "exit_code d = 0 \<longleftrightarrow> rd_decision d = ''PASS''"
  by (simp add: exit_code_def)

text \<open>The evidence that opens the gate.\<close>

definition passing :: "evidence \<Rightarrow> bool" where
  "passing e \<longleftrightarrow> json_get (ev_stage_a e) ''overall'' = JStr ''PASS'' \<and> json_get (ev_stage_b e) ''overall'' = JStr ''PASS''
     \<and> json_get (ev_stage_c e) ''overall'' = JStr ''PASS'' \<and> json_get (ev_stage_c e) ''provider_profile'' = JStr ''live''
     \<and> json_get (ev_incidents e) ''s0_incidents'' = JInt 0 \<and> json_get (ev_incidents e) ''system_caused_deadline_delays'' = JInt 0
     \<and> (\<exists>changes. parse_changes (ev_threshold_changes e) = Inr changes \<and> ''AFTER'' \<notin> set changes)
     \<and> (\<exists>outcomes d. parse_outcomes (ev_outcomes e) = Inr (outcomes, d)
          \<and> (\<forall>m\<in>set REQUIRED_OUTCOMES. \<exists>r. map_of outcomes m = Some r \<and> oc_passed r))"

lemma read_pass: "(\<exists>i. read_inputs e = Inr i \<and> rd_decision (decide_release i) = ''PASS'') \<longleftrightarrow> passing e"
proof
  assume "\<exists>i. read_inputs e = Inr i \<and> rd_decision (decide_release i) = ''PASS''"
  then obtain i where i: "read_inputs e = Inr i" and pass: "rd_decision (decide_release i) = ''PASS''" by blast
  from i obtain a b c profile outcomes d s0 delays changes where parts:
    "json_get (ev_stage_a e) ''overall'' = JStr a" "json_get (ev_stage_b e) ''overall'' = JStr b" "json_get (ev_stage_c e) ''overall'' = JStr c"
    "json_get (ev_stage_c e) ''provider_profile'' = JStr profile" "parse_outcomes (ev_outcomes e) = Inr (outcomes, d)"
    "json_get (ev_incidents e) ''s0_incidents'' = JInt s0" "json_get (ev_incidents e) ''system_caused_deadline_delays'' = JInt delays"
    "parse_changes (ev_threshold_changes e) = Inr changes"
    and whole: "i = \<lparr>rl_s0_incidents = s0, rl_deadline_delays = delays, rl_threshold_changes = changes,
         rl_stage_a_passed = a = ''PASS'', rl_stage_b_passed = b = ''PASS'', rl_stage_c_passed = c = ''PASS'',
         rl_external_blocked = ''BLOCKED_EXTERNAL'' \<in> {a, b, c} \<or> profile \<noteq> ''live'',
         rl_outcomes = outcomes, rl_reevaluation_date = d\<rparr>"
    unfolding read_inputs_def gate_bind_Inr text_in_Inr nonnegative_int_Inr by (auto simp only: gate_bind_Inr nonnegative_int_Inr split_paired_all prod.case sum.inject)
  show "passing e" using pass unfolding decide_pass whole passing_def by (simp add: parts)
next
  assume "passing e"
  then show "\<exists>i. read_inputs e = Inr i \<and> rd_decision (decide_release i) = ''PASS''"
    unfolding passing_def by (auto simp: read_inputs_def gate_bind_def decide_pass STATUSES_def)
qed

text \<open>A release that passes is one the pilot report calls eligible.\<close>

lemma pass_is_eligible:
  assumes "rd_decision (decide_release i) = ''PASS''"
  shows "po_release_eligible (build_outcome_report (rl_deadline_delays i) (map (\<lambda>(m, r). (m, oc_passed r)) (rl_outcomes i)) (rl_s0_incidents i))"
proof -
  have "dget (map (\<lambda>(m, r). (m, oc_passed r)) (rl_outcomes i)) m False" if "m \<in> set MANDATORY_OUTCOMES" for m
    using assms that mandatory_required unfolding decide_pass by (fastforce simp: dget_def map_of_map)
  then show ?thesis using assms unfolding decide_pass build_outcome_report_def by (simp add: Let_def list_all_iff)
qed

text \<open>A list where a text is expected is not reported as invalid: the script crashes.\<close>

lemma malformed_change_crashes:
  "parse_changes [(''changes'', JList [JObj [(''changed_before_or_after_evaluation'', JList [])]])] = Inl Crash"
  by (simp add: parse_changes_def json_get_def dget_def)

text \<open>Examples: one optional outcome just below its threshold, with and without a date.\<close>

definition a_release :: "bool \<Rightarrow> string option \<Rightarrow> release_inputs" where
  "a_release ok d = \<lparr>rl_s0_incidents = 0, rl_deadline_delays = 0, rl_threshold_changes = [''BEFORE''], rl_stage_a_passed = True,
     rl_stage_b_passed = True, rl_stage_c_passed = True, rl_external_blocked = False,
     rl_outcomes = map (\<lambda>m. (m, \<lparr>oc_passed = ok \<or> m \<noteq> ''OUT-003'', oc_within_ten_percent = True\<rparr>)) REQUIRED_OUTCOMES, rl_reevaluation_date = d\<rparr>"

lemma release_examples:
  "rd_decision (decide_release (a_release True None)) = ''PASS''"
  "rd_decision (decide_release (a_release False (Some ''2026-09-01''))) = ''CONDITIONAL_PASS''"
  "rd_decision (decide_release (a_release False None)) = ''FAIL''"
  by code_simp+

section \<open>Properties\<close>


end
