(* ===== verification/Api_Routes.thy ===== *)
theory Api_Routes
  imports Http_Edge Workspace_Service Planning_Service Iso_Date
begin

text \<open>
  The routes of tasks, milestones, plans and proposals (\<open>planning/router.py\<close>,
  \<open>approvals/router.py\<close>, the handlers of \<open>shared/errors.py\<close>): what a client sees of the services. A
  route answers with a response, or fails with an exception that no handler knows (\<open>None\<close>: the
  server answers 500). The results: an object of another workspace answers as if it did not exist,
  and of two writers at one version the second is told so.
\<close>

section \<open>Errors\<close>

definition json_response :: "int \<Rightarrow> (string \<times> json) list \<Rightarrow> http_response" where
  "json_response status body = \<lparr>hs_status = status, hs_headers = [], hs_body = JObj body\<rparr>"

fun error_reply :: "api_exn \<Rightarrow> http_response option" where
  "error_reply NotFoundError = Some (json_response 404 [(''code'', JStr ''NOT_FOUND'')])"
| "error_reply (DomainRuleError code message) = Some (json_response 422 [(''code'', JStr code), (''detail'', JStr message)])"
| "error_reply (StaleObjectVersionError i v) = Some (json_response 409
     [(''code'', JStr ''STALE_OBJECT_VERSION''), (''detail'', JObj [(''object_id'', JStr i), (''expected_version'', JInt v)])])"
| "error_reply _ = None"

lemma error_reply_status: "map_option hs_status (error_reply e) = map_option fst (error_response e)"
  by (cases e) (simp_all add: json_response_def)

definition answer :: "('a \<Rightarrow> http_response) \<Rightarrow> 'd \<Rightarrow> ('a \<times> 'd) api \<Rightarrow> http_response option \<times> 'd" where
  "answer f db r = (case r of Inl e \<Rightarrow> (error_reply e, db) | Inr (x, db') \<Rightarrow> (Some (f x), db'))"

section \<open>Tasks, milestones and plans\<close>

datatype workspace_call =
    Get_Task string
  | Patch_Task string int "string option"
  | Transition_Task string task_transition_request
  | Patch_Milestone string int "string option"

definition task_response :: "task_row \<Rightarrow> http_response" where
  "task_response t = json_response 200 [(''id'', json_uuid (tr_id t)), (''title'', JStr (tr_title t)), (''status'', JStr (tr_status t)),
     (''version'', JInt (tr_version t))]"

definition milestone_response :: "milestone_row option \<times> proposal_row option \<Rightarrow> http_response" where
  "milestone_response r = (case snd r of
     Some p \<Rightarrow> json_response 202 [(''applied'', JBool False), (''proposal'', JObj [(''id'', json_uuid (pm_id p)),
       (''authorization_level'', JStr (pm_level p)), (''status'', JStr (pm_status p))])]
   | None \<Rightarrow> json_response 200 [(''applied'', JBool True), (''proposal'', JNull)])"

text \<open>An empty text is no date; one that cannot be read raises before the service is called.\<close>

definition patched_deadline :: "string option \<Rightarrow> date option res" where
  "patched_deadline d = (case d of None \<Rightarrow> Inr None
   | Some s \<Rightarrow> if s = [] then Inr None else (case date_of_text s of Some x \<Rightarrow> Inr (Some x)
       | None \<Rightarrow> Inl (ValueError (''Invalid isoformat string: '' @ py_repr s))))"

definition get_task_route :: "current_actor \<Rightarrow> string \<Rightarrow> workspace_db \<Rightarrow> http_response option \<times> workspace_db" where
  "get_task_route actor i db =
     answer task_response db (case owned_task (ac_workspace actor) i db of Inl e \<Rightarrow> Inl e | Inr t \<Rightarrow> Inr (t, db))"

definition patch_task_route :: "instant \<Rightarrow> current_actor \<Rightarrow> string \<Rightarrow> int \<Rightarrow> string option \<Rightarrow> workspace_db \<Rightarrow> http_response option \<times> workspace_db" where
  "patch_task_route now actor i expected title db = answer task_response db (update_task now actor i expected title db)"

definition transition_task_route :: "instant \<Rightarrow> current_actor \<Rightarrow> string \<Rightarrow> task_transition_request \<Rightarrow> workspace_db \<Rightarrow> http_response option \<times> workspace_db" where
  "transition_task_route now actor i request db = answer task_response db (service_transition_task now actor i request db)"

definition patch_milestone_route :: "(nat list \<Rightarrow> string) \<Rightarrow> instant \<Rightarrow> uuid \<Rightarrow> current_actor \<Rightarrow> string \<Rightarrow> int \<Rightarrow> string option \<Rightarrow> workspace_db
    \<Rightarrow> http_response option \<times> workspace_db" where
  "patch_milestone_route sha256 now new_id actor i expected d db = (case patched_deadline d of
     Inl e \<Rightarrow> (None, db)
   | Inr x \<Rightarrow> answer milestone_response db (request_milestone_deadline_change sha256 now new_id actor i expected x db))"

lemmas route_defs = get_task_route_def patch_task_route_def transition_task_route_def patch_milestone_route_def

fun workspace_route :: "(nat list \<Rightarrow> string) \<Rightarrow> instant \<Rightarrow> uuid \<Rightarrow> current_actor \<Rightarrow> workspace_call \<Rightarrow> workspace_db
    \<Rightarrow> http_response option \<times> workspace_db" where
  "workspace_route sha256 now new_id actor (Get_Task i) db = get_task_route actor i db"
| "workspace_route sha256 now new_id actor (Patch_Task i expected title) db = patch_task_route now actor i expected title db"
| "workspace_route sha256 now new_id actor (Transition_Task i request) db = transition_task_route now actor i request db"
| "workspace_route sha256 now new_id actor (Patch_Milestone i expected d) db = patch_milestone_route sha256 now new_id actor i expected d db"

definition plan_response :: "plan_dto \<Rightarrow> http_response" where
  "plan_response d = json_response 200 [(''id'', JStr (dt_id d)), (''status'', JStr (dt_status d)), (''planner_version'', JStr (dt_planner_version d)),
     (''input_hash'', JStr (dt_input_hash d)), (''is_current'', JBool (dt_current d))]"

definition plan_route :: "run_env \<Rightarrow> instant \<Rightarrow> instant \<Rightarrow> rat \<Rightarrow> uuid \<Rightarrow> current_actor \<Rightarrow> string \<Rightarrow> planning_db \<Rightarrow> registry
    \<Rightarrow> http_response option \<times> planning_db \<times> registry" where
  "plan_route env now created elapsed new_id actor reason db m =
     (case create_plan env now created elapsed new_id (ac_workspace actor) reason db m of
        (Inl e, rest) \<Rightarrow> (error_reply e, rest) | (Inr d, rest) \<Rightarrow> (Some (plan_response d), rest))"

section \<open>Decisions on proposals\<close>

text \<open>The request has a decision \<open>approve\<close> or \<open>reject\<close> and a version of at least one; the framework has
  read the id of the proposal from the path.\<close>

definition outcome_status :: "string \<Rightarrow> int" where
  "outcome_status s = (if s \<in> {''CONFLICT'', ''SUPERSEDED''} then 409 else if s = ''INVALID'' then 422 else 200)"

definition decision_response :: "uuid \<Rightarrow> approval_outcome \<Rightarrow> http_response option" where
  "decision_response pid r = (if oc_status r = ''NOT_FOUND'' then error_reply NotFoundError
     else Some (json_response (outcome_status (oc_status r)) [(''id'', json_uuid pid), (''status'', JStr (oc_status r)),
       (''approval_level'', JStr (oc_level r)), (''reason'', case oc_reason r of None \<Rightarrow> JNull | Some w \<Rightarrow> JStr w)]))"

definition approve_route :: "(nat list \<Rightarrow> string) \<Rightarrow> (string \<Rightarrow> uuid option) \<Rightarrow> instant \<Rightarrow> uuid \<Rightarrow> current_actor \<Rightarrow> uuid \<Rightarrow> bool \<Rightarrow> int \<Rightarrow> approval_db
    \<Rightarrow> http_response option \<times> approval_db" where
  "approve_route sha256 parse now aid actor pid approving expected db =
     (case (if approving then approve else reject) sha256 parse now aid actor (uuid_str pid) expected db of
        Inl e \<Rightarrow> (error_reply e, db)
      | Inr (r, db') \<Rightarrow> (decision_response pid r, db'))"

section \<open>Other workspaces\<close>

fun call_object :: "workspace_call \<Rightarrow> string" where
  "call_object (Get_Task i) = i"
| "call_object (Patch_Task i v t) = i"
| "call_object (Transition_Task i r) = i"
| "call_object (Patch_Milestone i v d) = i"

fun owns_object :: "uuid \<Rightarrow> workspace_db \<Rightarrow> uuid \<Rightarrow> workspace_call \<Rightarrow> bool" where
  "owns_object w db k (Patch_Milestone i v d) \<longleftrightarrow> (\<exists>r\<in>set (db_milestones db). mr_id r = k \<and> mr_workspace r = w)"
| "owns_object w db k _ \<longleftrightarrow> (\<exists>r\<in>set (db_tasks db). tr_id r = k \<and> tr_workspace r = w)"

fun call_readable :: "workspace_call \<Rightarrow> bool" where
  "call_readable (Patch_Milestone i v d) \<longleftrightarrow> (\<exists>x. patched_deadline d = Inr x)"
| "call_readable _ \<longleftrightarrow> True"

lemma not_owned: "(\<nexists>r. r \<in> set rows \<and> key r = k \<and> workspace r = w) \<Longrightarrow> owned_row key workspace w k rows = None"
  by (auto simp: owned_row_def find_None_iff)

text \<open>
  C40. An object of another workspace is hidden: a route whose object the actor's workspace does not own
  answers 404 NOT_FOUND with the same body, whether the object exists elsewhere or nowhere, and
  changes nothing; and so does a decision on a proposal of another workspace.
\<close>

theorem foreign_objects_hidden:
  assumes "py_uuid (call_object c) = Some k" and "call_readable c" and "\<not> owns_object (ac_workspace actor) db k c"
    and "parse (uuid_str pid) = Some pid" and "\<forall>p\<in>set (db_proposals adb). \<not> (pm_id p = pid \<and> pm_workspace p = ac_workspace actor)"
  shows "workspace_route sha256 now new_id actor c db = (Some (json_response 404 [(''code'', JStr ''NOT_FOUND'')]), db)
    \<and> approve_route sha256 parse now aid actor pid approving expected adb = (Some (json_response 404 [(''code'', JStr ''NOT_FOUND'')]), adb)"
proof
  have task: "owned_task (ac_workspace actor) i db = Inl NotFoundError"
    if "py_uuid i = Some k" "\<not> (\<exists>r\<in>set (db_tasks db). tr_id r = k \<and> tr_workspace r = ac_workspace actor)" for i
    using that not_owned [of "db_tasks db" tr_id k tr_workspace "ac_workspace actor"] by (auto simp: owned_task_def)
  have milestone: "owned_milestone (ac_workspace actor) i db = Inl NotFoundError"
    if "py_uuid i = Some k" "\<not> (\<exists>r\<in>set (db_milestones db). mr_id r = k \<and> mr_workspace r = ac_workspace actor)" for i
    using that not_owned [of "db_milestones db" mr_id k mr_workspace "ac_workspace actor"] by (auto simp: owned_milestone_def)
  show "workspace_route sha256 now new_id actor c db = (Some (json_response 404 [(''code'', JStr ''NOT_FOUND'')]), db)"
  proof (cases c)
    case (Patch_Milestone i v d)
    then show ?thesis using assms(1-3) milestone by (auto simp: route_defs answer_def request_milestone_deadline_change_def)
  qed (use assms(1-3) task in \<open>simp_all add: route_defs answer_def update_task_def service_transition_task_def\<close>)
  have "owned_proposal parse actor (uuid_str pid) adb = None"
    using assms(4,5) by (auto simp: owned_proposal_def owned_row_def find_None_iff)
  then show "approve_route sha256 parse now aid actor pid approving expected adb = (Some (json_response 404 [(''code'', JStr ''NOT_FOUND'')]), adb)"
    by (simp add: approve_route_def approve_def reject_def decision_response_def outcome_def)
qed

lemma foreign_objects_hidden_witness:
  "fst (workspace_route byte_hash 0 5 \<lparr>ac_user = 1, ac_workspace = 3, ac_session = 1\<rparr> (Patch_Task (uuid_str 7) 1 None)
      \<lparr>db_proposals = [], db_tasks = [], db_approvals = [], db_audit = [], db_milestones = []\<rparr>)
    = Some (json_response 404 [(''code'', JStr ''NOT_FOUND'')])"
proof -
  let ?a = "\<lparr>ac_user = 1, ac_workspace = 3, ac_session = 1\<rparr>"
  let ?db = "\<lparr>db_proposals = [], db_tasks = [], db_approvals = [], db_audit = [], db_milestones = []\<rparr>"
  have "py_uuid (call_object (Patch_Task (uuid_str 7) 1 None)) = Some 7" using py_uuid_str by simp
  from foreign_objects_hidden [OF this, of ?a ?db py_uuid 8 "\<lparr>db_proposals = [], db_tasks = [], db_approvals = [], db_audit = []\<rparr>"]
  show ?thesis using py_uuid_str by simp
qed

section \<open>Two writers\<close>

text \<open>Of two patches at one version the second is told that its version is stale, whoever sends it.\<close>

lemma second_writer_refused:
  assumes "workspace_route sha256 now new_id actor (Patch_Task i expected title) db = (Some r, db')" and "hs_status r = 200"
    and "distinct (map tr_id (db_tasks db))" and "py_uuid j = py_uuid i" and "ac_workspace actor' = ac_workspace actor"
  shows "workspace_route sha256' now' new_id' actor' (Patch_Task j expected title') db' =
    (Some (json_response 409 [(''code'', JStr ''STALE_OBJECT_VERSION''), (''detail'', JObj [(''object_id'', JStr j), (''expected_version'', JInt expected)])]), db')"
proof -
  let ?w = "ac_workspace actor" and ?f = "\<lambda>r. case title of None \<Rightarrow> r | Some s \<Rightarrow> r\<lparr>tr_title := s\<rparr>"
  have "\<exists>t. update_task now actor i expected title db = Inr (t, db')"
  proof (cases "update_task now actor i expected title db")
    case (Inl e)
    then show ?thesis using assms(1,2) by (cases e) (auto simp: route_defs answer_def json_response_def)
  next
    case (Inr x)
    then show ?thesis using assms(1) by (cases x) (auto simp: route_defs answer_def)
  qed
  then obtain t where "update_task now actor i expected title db = Inr (t, db')" by blast
  then obtain updated tasks where u: "update_task_row i expected ?f (Some ?w) (db_tasks db) = Inr (updated, tasks)" and tasks: "db_tasks db' = tasks"
    by (auto simp: update_task_def append_audit_def split: sum.splits if_splits)
  have keep: "tr_id (?f r) = tr_id r" "tr_version (?f r) = tr_version r" "tr_workspace (?f r) = tr_workspace r" for r by (simp_all split: option.split)
  from versioned_tasks.update_exact [OF u assms(3) keep(1,2)] obtain k r where
    k: "py_uuid i = Some k" "row_at tr_id k tasks = Some updated" "tr_workspace r = ?w" "updated = bump_task (?f r)" by blast
  have "updated \<in> set tasks \<and> tr_id updated = k \<and> tr_workspace updated = ?w"
    using row_at_Some [OF k(2)] k(3,4) keep(3) [of r] by (simp add: bump_task_def)
  then have "owned_row tr_id tr_workspace ?w k tasks \<noteq> None" by (auto simp: owned_row_def find_None_iff)
  then obtain q where "owned_task ?w j db' = Inr q" using k(1) assms(4) tasks by (auto simp: owned_task_def)
  moreover have "update_task_row j expected f (Some ?w) tasks = Inl (StaleObjectVersionError j expected)" for f
    by (rule versioned_tasks.second_update_stale [OF u assms(3) keep(1,2) assms(4)])
  ultimately show ?thesis by (simp add: route_defs update_task_def assms(5) tasks answer_def)
qed

end
