(* ===== verification/Object_Storage.thy ===== *)
theory Object_Storage
  imports Prelude
begin

text \<open>
  The object storage of the API (\<open>storage.py\<close>): a bucket that is looked for once, and in a local
  environment made. The S3 client is a parameter: functions from its state to a reply and its next
  state. The lock makes the search one step. The results: outside of a local environment no bucket
  is ever created, a storage that has found its bucket does not look again, and no object operation
  reaches the client without it.
\<close>

section \<open>The client and the storage\<close>

datatype head_reply = Bucket_There | Client_Error string | Other_Failure

record 's s3_client =
  s3_head :: "'s \<Rightarrow> head_reply \<times> 's"
  s3_create :: "string option \<Rightarrow> 's \<Rightarrow> bool \<times> 's"
  s3_get :: "string \<Rightarrow> 's \<Rightarrow> nat list option \<times> 's"
  s3_put :: "string \<Rightarrow> nat list \<Rightarrow> 's \<Rightarrow> bool \<times> 's"
  s3_delete :: "string \<Rightarrow> 's \<Rightarrow> bool \<times> 's"

datatype storage_error = Bucket_Missing | Client_Failure

record 's object_storage =
  os_allow_creation :: bool
  os_region :: string
  os_ready :: bool
  os_client :: 's

definition ensure_bucket :: "'s s3_client \<Rightarrow> 's object_storage \<Rightarrow> storage_error option \<times> 's object_storage" where
  "ensure_bucket c st =
     (if os_ready st then (None, st)
      else (case s3_head c (os_client st) of
          (Bucket_There, s) \<Rightarrow> (None, st\<lparr>os_ready := True, os_client := s\<rparr>)
        | (Other_Failure, s) \<Rightarrow> (Some Client_Failure, st\<lparr>os_client := s\<rparr>)
        | (Client_Error code, s) \<Rightarrow>
            if code \<notin> {''404'', ''NoSuchBucket'', ''NotFound''} then (Some Client_Failure, st\<lparr>os_client := s\<rparr>)
            else if \<not> os_allow_creation st then (Some Bucket_Missing, st\<lparr>os_client := s\<rparr>)
            else (case s3_create c (if os_region st = ''us-east-1'' then None else Some (os_region st)) s of
                (True, s') \<Rightarrow> (None, st\<lparr>os_ready := True, os_client := s'\<rparr>)
              | (False, s') \<Rightarrow> (Some Client_Failure, st\<lparr>os_client := s'\<rparr>))))"

definition with_bucket :: "'s s3_client \<Rightarrow> ('s \<Rightarrow> 'a option \<times> 's) \<Rightarrow> 's object_storage \<Rightarrow> (storage_error + 'a) \<times> 's object_storage" where
  "with_bucket c operation st = (case ensure_bucket c st of
     (Some e, st) \<Rightarrow> (Inl e, st)
   | (None, st) \<Rightarrow> (case operation (os_client st) of
       (None, s) \<Rightarrow> (Inl Client_Failure, st\<lparr>os_client := s\<rparr>)
     | (Some x, s) \<Rightarrow> (Inr x, st\<lparr>os_client := s\<rparr>)))"

definition done_or_failed :: "bool \<times> 's \<Rightarrow> unit option \<times> 's" where
  "done_or_failed r = (if fst r then Some () else None, snd r)"

definition get_object :: "'s s3_client \<Rightarrow> string \<Rightarrow> 's object_storage \<Rightarrow> (storage_error + nat list) \<times> 's object_storage" where
  "get_object c key = with_bucket c (s3_get c key)"

definition put_object :: "'s s3_client \<Rightarrow> string \<Rightarrow> nat list \<Rightarrow> 's object_storage \<Rightarrow> (storage_error + unit) \<times> 's object_storage" where
  "put_object c key content = with_bucket c (\<lambda>s. done_or_failed (s3_put c key content s))"

definition delete_object :: "'s s3_client \<Rightarrow> string \<Rightarrow> 's object_storage \<Rightarrow> (storage_error + unit) \<times> 's object_storage" where
  "delete_object c key = with_bucket c (\<lambda>s. done_or_failed (s3_delete c key s))"

datatype object_call = Get_Object string | Put_Object string "nat list" | Delete_Object string

fun object_step :: "'s s3_client \<Rightarrow> object_call \<Rightarrow> 's object_storage \<Rightarrow> 's object_storage" where
  "object_step c (Get_Object k) st = snd (get_object c k st)"
| "object_step c (Put_Object k v) st = snd (put_object c k v st)"
| "object_step c (Delete_Object k) st = snd (delete_object c k st)"

section \<open>What holds for every client\<close>

lemmas object_defs = get_object_def put_object_def delete_object_def with_bucket_def

text \<open>Without the permission the client's \<open>create\<close> does not matter: it is not called.\<close>

lemma ensure_without_create:
  assumes "\<not> os_allow_creation st"
  shows "ensure_bucket (c\<lparr>s3_create := f\<rparr>) st = ensure_bucket c st"
  using assms by (simp add: ensure_bucket_def split: prod.split head_reply.split)

lemma ensure_keeps: "os_allow_creation (snd (ensure_bucket c st)) = os_allow_creation st"
  by (simp add: ensure_bucket_def split: prod.split head_reply.split bool.split)

lemma with_bucket_keeps: "os_allow_creation (snd (with_bucket c f st)) = os_allow_creation st"
  using ensure_keeps [of c st] by (cases "ensure_bucket c st") (auto simp: with_bucket_def split: prod.split option.split)

lemma step_keeps: "os_allow_creation (object_step c call st) = os_allow_creation st"
  by (cases call) (simp_all add: get_object_def put_object_def delete_object_def with_bucket_keeps)

theorem bucket_never_created:
  assumes "\<not> os_allow_creation st"
  shows "fold (object_step (c\<lparr>s3_create := f\<rparr>)) calls st = fold (object_step c) calls st"
  using assms
proof (induction calls arbitrary: st)
  case (Cons call calls)
  have "object_step (c\<lparr>s3_create := f\<rparr>) call st = object_step c call st"
    using ensure_without_create [OF Cons.prems, where c = c and f = f] by (cases call) (simp_all add: object_defs)
  then show ?case using Cons step_keeps by (metis fold_simps(2))
qed simp

text \<open>A storage that is ready does not look for the bucket again, and stays ready.\<close>

lemma ready_stays:
  assumes "os_ready st"
  shows "os_ready (object_step c call st) \<and> object_step (c\<lparr>s3_head := h, s3_create := f\<rparr>) call st = object_step c call st"
  using assms by (cases call) (auto simp: object_defs ensure_bucket_def split: prod.split option.split)

text \<open>An object operation that succeeds leaves the storage ready.\<close>

lemma success_ready: "put_object c k v st = (Inr (), st') \<Longrightarrow> os_ready st'"
  by (auto simp: object_defs ensure_bucket_def split: prod.splits option.splits head_reply.splits bool.splits if_splits)

end
