(* ===== verification/Authorization_Url.thy ===== *)
theory Authorization_Url
  imports Calendar_Connections Utf8_Text
begin

text \<open>
  The authorization URL (\<open>build_authorization_url\<close> and \<open>code_challenge\<close> of \<open>calendar/oauth.py\<close>, with
  \<open>urlencode\<close> and \<open>urlsafe_b64encode\<close> of the standard library). The results: a reader of the query
  gets back exactly the parameters that were put in, whatever characters they contain, so that no
  parameter can smuggle in another one; and the challenge determines the digest of the verifier.
\<close>

section \<open>URL-safe base64 without padding\<close>

definition b64_char :: "nat \<Rightarrow> char" where
  "b64_char v = char_of (if v < 26 then v + 65 else if v < 52 then v + 71 else if v < 62 then v - 4 else if v = 62 then 45 else 95 :: nat)"

fun b64url :: "nat list \<Rightarrow> string" where
  "b64url [] = []"
| "b64url [a] = [b64_char (a div 4), b64_char (a mod 4 * 16)]"
| "b64url [a, b] = [b64_char (a div 4), b64_char (a mod 4 * 16 + b div 16), b64_char (b mod 16 * 4)]"
| "b64url (a # b # c # rest) = [b64_char (a div 4), b64_char (a mod 4 * 16 + b div 16), b64_char (b mod 16 * 4 + c div 64), b64_char (c mod 64)]
     @ b64url rest"

fun b64padding :: "nat list \<Rightarrow> string" where
  "b64padding [] = []"
| "b64padding [a] = ''==''"
| "b64padding [a, b] = ''=''"
| "b64padding (a # b # c # rest) = b64padding rest"

lemma byte_char: "n < 256 \<Longrightarrow> (of_char (char_of n :: char) :: nat) = n"
  by (simp add: take_bit_nat_eq_self)

lemma char_differs:
  fixes n :: nat
  assumes "n < 256" and "n \<noteq> of_char c"
  shows "char_of n \<noteq> c"
proof
  assume "char_of n = c"
  then have "of_char c = n" using byte_char [OF assms(1)] by simp
  then show False using assms(2) by simp
qed

lemma b64_char_value:
  assumes "v < 64"
  shows "b64_value (b64_char v) = Some v \<and> b64_char v \<noteq> CHR ''=''"
proof -
  define m where "m = (if v < 26 then v + 65 else if v < 52 then v + 71 else if v < 62 then v - 4 else if v = 62 then 45 else 95 :: nat)"
  have m: "m < 256" "m \<noteq> 61" using assms by (auto simp: m_def)
  have c: "b64_char v = char_of m" by (simp add: b64_char_def m_def)
  have "b64_value (char_of m) = Some v" unfolding b64_value_def byte_char [OF m(1)] using assms by (auto simp: m_def Let_def)
  then show ?thesis using char_differs [OF m(1), of "CHR ''=''"] m(2) by (simp add: c)
qed

lemma six_bits:
  fixes a b c :: nat
  assumes "a < 256" and "b < 256" and "c < 256"
  shows "a div 4 < 64" "a mod 4 * 16 < 64" "a mod 4 * 16 + b div 16 < 64" "b mod 16 * 4 < 64" "b mod 16 * 4 + c div 64 < 64" "c mod 64 < 64"
    "4 * (a div 4) + a mod 4 * 16 div 16 = a" "4 * (a div 4) + (a mod 4 * 16 + b div 16) div 16 = a"
    "16 * ((a mod 4 * 16 + b div 16) mod 16) + b mod 16 * 4 div 4 = b"
    "16 * ((a mod 4 * 16 + b div 16) mod 16) + (b mod 16 * 4 + c div 64) div 4 = b"
    "64 * ((b mod 16 * 4 + c div 64) mod 4) + c mod 64 = c"
proof -
  have d: "a div 4 < 64" "b div 16 < 16" "c div 64 < 4" using assms by (simp_all add: less_mult_imp_div_less)
  have m: "a mod 4 < 4" "b mod 16 < 16" "c mod 64 < 64" by simp_all
  show "a div 4 < 64" "a mod 4 * 16 < 64" "a mod 4 * 16 + b div 16 < 64" "b mod 16 * 4 < 64" "b mod 16 * 4 + c div 64 < 64" "c mod 64 < 64"
    using d m by linarith+
  show "4 * (a div 4) + a mod 4 * 16 div 16 = a" "4 * (a div 4) + (a mod 4 * 16 + b div 16) div 16 = a"
    "16 * ((a mod 4 * 16 + b div 16) mod 16) + b mod 16 * 4 div 4 = b"
    "16 * ((a mod 4 * 16 + b div 16) mod 16) + (b mod 16 * 4 + c div 64) div 4 = b"
    "64 * ((b mod 16 * 4 + c div 64) mod 4) + c mod 64 = c"
    using d by simp_all
qed

lemma b64_round_trip: "(\<And>b. b \<in> set bs \<Longrightarrow> b < 256) \<Longrightarrow> b64decode (b64url bs @ b64padding bs) = Some bs"
proof (induction bs rule: b64url.induct)
  case (2 a)
  then have "a < 256" by simp
  note bits = six_bits [OF this this this]
  show ?case using b64_char_value [OF bits(1)] b64_char_value [OF bits(2)] bits(7) by simp
next
  case (3 a b)
  then have "a < 256" "b < 256" by simp_all
  note bits = six_bits [OF this this(2)]
  show ?case using b64_char_value [OF bits(1)] b64_char_value [OF bits(3)] b64_char_value [OF bits(4)] bits(8,9) by (simp add: Let_def)
next
  case (4 a b c rest)
  then have "a < 256" "b < 256" "c < 256" by simp_all
  note bits = six_bits [OF this]
  have "b64decode (b64url rest @ b64padding rest) = Some rest" using 4 by simp
  then show ?case
    using b64_char_value [OF bits(1)] b64_char_value [OF bits(3)] b64_char_value [OF bits(5)] b64_char_value [OF bits(6)] bits(8,10,11)
    by (simp add: Let_def del: add_mult_distrib2)
qed simp

definition code_challenge :: "(nat list \<Rightarrow> nat list) \<Rightarrow> string \<Rightarrow> string" where
  "code_challenge digest verifier = b64url (digest (utf8 verifier))"

lemma padding_length: "length bs = length cs \<Longrightarrow> b64padding bs = b64padding cs"
proof -
  have "b64padding xs = (if length xs mod 3 = 1 then ''=='' else if length xs mod 3 = 2 then ''='' else [])" for xs
    by (induction xs rule: b64padding.induct) simp_all
  then show "length bs = length cs \<Longrightarrow> b64padding bs = b64padding cs" by presburger
qed

text \<open>Challenges of digests of one length are equal only for equal digests.\<close>

lemma challenge_digest:
  assumes "code_challenge digest v = code_challenge digest w" and "\<And>x b. b \<in> set (digest x) \<Longrightarrow> b < 256" and "\<And>x. length (digest x) = 32"
  shows "digest (utf8 v) = digest (utf8 w)"
proof -
  have "b64padding (digest (utf8 v)) = b64padding (digest (utf8 w))" by (rule padding_length) (simp add: assms(3))
  then have "b64decode (b64url (digest (utf8 v)) @ b64padding (digest (utf8 v))) = b64decode (b64url (digest (utf8 w)) @ b64padding (digest (utf8 w)))"
    using assms(1) by (simp add: code_challenge_def)
  then show ?thesis using b64_round_trip assms(2) by (metis option.inject)
qed

section \<open>The query\<close>

definition hex_upper :: "nat \<Rightarrow> char" where
  "hex_upper d = char_of (if d < 10 then 48 + d else 55 + d :: nat)"

definition unreserved :: "nat \<Rightarrow> bool" where
  "unreserved b \<longleftrightarrow> (65 \<le> b \<and> b \<le> 90) \<or> (97 \<le> b \<and> b \<le> 122) \<or> (48 \<le> b \<and> b \<le> 57) \<or> b \<in> {45, 46, 95, 126}"

definition quote_byte :: "nat \<Rightarrow> string" where
  "quote_byte b = (if unreserved b then [char_of b] else if b = 32 then ''+'' else [CHR ''%'', hex_upper (b div 16), hex_upper (b mod 16)])"

definition quote_plus :: "string \<Rightarrow> string" where
  "quote_plus s = concat (map quote_byte (utf8 s))"

fun join_char :: "char \<Rightarrow> string list \<Rightarrow> string" where
  "join_char c [] = []"
| "join_char c [x] = x"
| "join_char c (x # y # zs) = x @ c # join_char c (y # zs)"

definition urlencode :: "(string \<times> string) list \<Rightarrow> string" where
  "urlencode params = join_char (CHR ''&'') (map (\<lambda>(k, v). quote_plus k @ ''='' @ quote_plus v) params)"

definition build_authorization_url :: "(nat list \<Rightarrow> nat list) \<Rightarrow> string \<Rightarrow> string \<Rightarrow> string \<Rightarrow> string \<Rightarrow> oauth_settings \<Rightarrow> string" where
  "build_authorization_url digest authorize_url mode state verifier s = authorize_url @ ''?'' @ urlencode
     [(''client_id'', case st_client_id s of Some c \<Rightarrow> c | None \<Rightarrow> []),
      (''redirect_uri'', case st_redirect_uri s of Some u \<Rightarrow> u | None \<Rightarrow> []),
      (''response_type'', ''code''), (''scope'', join_char (CHR '' '') (configured_scopes mode)), (''state'', state),
      (''access_type'', ''offline''), (''prompt'', ''consent''), (''code_challenge'', code_challenge digest verifier),
      (''code_challenge_method'', ''S256'')]"

section \<open>Reading the query\<close>

text \<open>The reader of a form-encoded query, as the provider is documented to be one.\<close>

fun split_char :: "char \<Rightarrow> string \<Rightarrow> string list" where
  "split_char c [] = [[]]"
| "split_char c (x # xs) = (if x = c then [] # split_char c xs else (case split_char c xs of [] \<Rightarrow> [[x]] | y # ys \<Rightarrow> (x # y) # ys))"

fun unquote_bytes :: "string \<Rightarrow> nat list option" where
  "unquote_bytes [] = Some []"
| "unquote_bytes (c # cs) =
     (if c = CHR ''+'' then map_option (\<lambda>bs. 32 # bs) (unquote_bytes cs)
      else if c = CHR ''%'' then (case cs of
          a # b # rest \<Rightarrow> (case (hex_value a, hex_value b) of
              (Some x, Some y) \<Rightarrow> map_option (\<lambda>bs. (16 * x + y) # bs) (unquote_bytes rest) | _ \<Rightarrow> None)
        | _ \<Rightarrow> None)
      else map_option (\<lambda>bs. of_char c # bs) (unquote_bytes cs))"

definition unquote_plus :: "string \<Rightarrow> string option" where
  "unquote_plus s = Option.bind (unquote_bytes s) decode_utf8"

definition read_pair :: "string \<Rightarrow> (string \<times> string) option" where
  "read_pair s = (case (unquote_plus (takeWhile (\<lambda>c. c \<noteq> CHR ''='') s), unquote_plus (drop 1 (dropWhile (\<lambda>c. c \<noteq> CHR ''='') s))) of
     (Some k, Some v) \<Rightarrow> Some (k, v) | _ \<Rightarrow> None)"

definition read_query :: "string \<Rightarrow> (string \<times> string) option list" where
  "read_query q = map read_pair (split_char (CHR ''&'') q)"

lemma of_char_hex_upper: "d < 16 \<Longrightarrow> (of_char (hex_upper d) :: nat) = (if d < 10 then 48 + d else 55 + d)"
  unfolding hex_upper_def by (rule byte_char) simp

lemma hex_upper_value: "d < 16 \<Longrightarrow> hex_value (hex_upper d) = Some d"
  by (simp add: hex_value_def of_char_hex_upper)

lemma unquote_byte: "b < 256 \<Longrightarrow> unquote_bytes (quote_byte b @ s) = map_option (\<lambda>bs. b # bs) (unquote_bytes s)"
proof -
  assume b: "b < 256"
  show ?thesis
  proof (cases "unreserved b")
    case True
    have "char_of b \<noteq> CHR ''+''" "char_of b \<noteq> CHR ''%''" using True char_differs [OF b, of "CHR ''+''"] char_differs [OF b, of "CHR ''%''"] by (auto simp: unreserved_def)
    then show ?thesis using True byte_char [OF b] by (simp add: quote_byte_def)
  next
    case False
    have "b div 16 < 16" "b mod 16 < 16" "16 * (b div 16) + b mod 16 = b" using b by (simp_all add: less_mult_imp_div_less)
    then show ?thesis using False by (simp add: quote_byte_def hex_upper_value)
  qed
qed

lemma unquote_quote: "unquote_plus (quote_plus s) = Some s"
proof -
  have "unquote_bytes (concat (map quote_byte bs)) = Some bs" if "\<And>b. b \<in> set bs \<Longrightarrow> b < 256" for bs
    using that by (induction bs) (simp_all add: unquote_byte)
  then show ?thesis using utf8_bytes decode_encode by (simp add: unquote_plus_def quote_plus_def)
qed

lemma quote_safe: "CHR ''&'' \<notin> set (quote_plus s) \<and> CHR ''='' \<notin> set (quote_plus s)"
proof -
  have "CHR ''&'' \<notin> set (quote_byte b) \<and> CHR ''='' \<notin> set (quote_byte b)" if b: "b < 256" for b
  proof -
    have hex: "hex_upper d \<noteq> c" if "d < 16" "(of_char c :: nat) = 38 \<or> (of_char c :: nat) = 61" for d c
      using of_char_hex_upper [OF that(1)] that by (auto split: if_splits)
    have "char_of b \<noteq> CHR ''&'' \<and> char_of b \<noteq> CHR ''=''" if "unreserved b"
      using that char_differs [OF b, of "CHR ''&''"] char_differs [OF b, of "CHR ''=''"] by (auto simp: unreserved_def)
    moreover have "b div 16 < 16" "b mod 16 < 16" using b by (simp_all add: less_mult_imp_div_less)
    ultimately show ?thesis using hex [of _ "CHR ''&''"] hex [of _ "CHR ''=''"] by (auto simp: quote_byte_def dest: sym)
  qed
  then show ?thesis using utf8_bytes by (fastforce simp: quote_plus_def)
qed

lemma split_join:
  assumes "\<And>x. x \<in> set xs \<Longrightarrow> c \<notin> set x" and "xs \<noteq> []"
  shows "split_char c (join_char c xs) = xs"
proof -
  have none: "split_char c x = [x]" if "c \<notin> set x" for x using that by (induction x) auto
  have step: "split_char c (x @ c # s) = x # split_char c s" if "c \<notin> set x" for x s using that by (induction x) auto
  show ?thesis using assms by (induction xs rule: induct_list012) (auto simp: none step)
qed

text \<open>
  What the provider reads is what was meant: a reader of the query of the authorization URL gets
  back exactly the parameters, in their order, whatever characters the client id, the redirect
  address and the state contain.
\<close>

theorem query_read_back:
  assumes "params \<noteq> []"
  shows "read_query (urlencode params) = map Some params"
proof -
  let ?p = "\<lambda>(k, v). quote_plus k @ ''='' @ quote_plus v"
  have "split_char (CHR ''&'') (urlencode params) = map ?p params"
    unfolding urlencode_def by (rule split_join) (use assms quote_safe in \<open>auto\<close>)
  moreover have "read_pair (?p kv) = Some kv" for kv
  proof (cases kv)
    case (Pair k v)
    have "takeWhile (\<lambda>c. c \<noteq> CHR ''='') (quote_plus k @ ''='' @ quote_plus v) = quote_plus k"
      "dropWhile (\<lambda>c. c \<noteq> CHR ''='') (quote_plus k @ ''='' @ quote_plus v) = ''='' @ quote_plus v"
      using quote_safe [of k] by (subst takeWhile_append2 dropWhile_append2, auto)+
    then show ?thesis by (simp add: Pair read_pair_def unquote_quote)
  qed
  ultimately show ?thesis by (simp add: read_query_def)
qed

lemma query_read_back_witness: "read_query (urlencode [(''state'', ''a&b=c d'')]) = [Some (''state'', ''a&b=c d'')]"
  using query_read_back [of "[(''state'', ''a&b=c d'')]"] by simp

end
