(* ===== verification/Spec2Isabelle.thy ===== *)
theory Spec2Isabelle
  imports Task_Machine Approval Scc Timing Capacity Slots Priority Graph_Analysis Ledger Placement
    Serial Passes Risk Proposals Replan Canonical Validation Today Planner
    Proposal_Service Outbox Workspace_Service Service_Limits Uploads Planning_Service
    Inbox Sync_Scheduler Calendar_Executor Calendar_Connections Work_Sessions Calendar_Sync Focus_Blocks
    Agent Identity Views Llm Source_Uploads Http_Edge App_Settings Release_Gate Agent_Context Api_Routes
    Object_Storage Authorization_Url
begin

text \<open>
  A verification library for the Personal PM Agent: a deterministic planner of a person's
  working time (\<open>src/packages/planner\<close>) with an API and a worker
  around it (\<open>src/apps/api\<close>, \<open>src/apps/worker\<close>).

  \<^bold>\<open>The program.\<close> The planner takes an immutable input snapshot (tasks, milestones, task
  dependencies, availability windows, calendar events, external deliveries, the prior plan)
  and computes in this order: the dependency graph, its cycles and a backward critical path
  (\<open>graph/\<close>); unique time slots per availability window, with events and focus blocks
  reserved and a daily buffer cut off (\<open>availability/\<close>); a provisional, a base and a safety
  schedule over those slots (\<open>scheduling/\<close>); risks per milestone and per external delivery
  (\<open>risk/\<close>); and, on a change, a minimal-change replan with proposals for changes that need
  approval (\<open>replanning/\<close>, \<open>proposals/\<close>). The state lives in snapshots whose constructors
  check them (\<open>domain/\<close>, \<open>contracts/\<close>).

  \<^bold>\<open>Theories, in the order of the code.\<close>
  \<^item> \<open>Prelude\<close>: exceptions and results (\<open>exn + 'a\<close>, \<open>rbind\<close>), Python dictionaries as
    association lists in insertion order, \<open>str.strip\<close>. \<open>Floats\<close>: IEEE doubles as rationals
    with round-to-nearest-even, and when results are exact. \<open>Clock\<close>: instants as integer
    microseconds in UTC, naive and aware datetimes, ISO formatting, and the tz database as a
    parameter. \<open>Identifiers\<close>: UUID-valued identifiers, ordered.
  \<^item> \<open>Domain\<close> (\<open>domain/work.py\<close>, \<open>task.py\<close>, \<open>availability.py\<close>, \<open>facts.py\<close>, \<open>audit.py\<close>,
    \<open>enums.py\<close>), \<open>Task_Machine\<close> (\<open>state_machine.py\<close>), \<open>Approval\<close> (\<open>approval.py\<close>,
    \<open>authorization.py\<close>): records and their checking constructors \<open>mk_\<dots>\<close>, the task life
    cycle as a function and as a step relation, and the use of approvals.
  \<^item> \<open>Dependencies\<close> and \<open>Scc\<close> (\<open>dependency.py\<close>): the graph and the iterative Tarjan
    algorithm; its invariant and its correctness. \<open>Timing\<close> (\<open>critical_path.py\<close>) and
    \<open>Graph_Analysis\<close> (\<open>graph/build.py\<close>): backward timing with memo, its bounds, and that it
    is the greatest feasible one.
  \<^item> \<open>Capacity\<close> (\<open>availability/capacity.py\<close>, \<open>normalization/estimates.py\<close>, \<open>dates.py\<close>) and
    \<open>Slots\<close> (\<open>availability/slots.py\<close>): rounding, estimates and slot generation.
  \<^item> \<open>Priority\<close> (\<open>scheduling/priority.py\<close>), \<open>Ledger\<close>, \<open>Placement\<close>, \<open>Serial\<close>
    (\<open>scheduling/serial.py\<close>), \<open>Passes\<close> (\<open>scheduling/passes.py\<close>): the slot book as an
    interface (locale \<open>slot_book\<close>) with its interpretation on the ledger, the placement of
    one task, the schedule generation with start gates, and the three passes.
  \<^item> \<open>Risk\<close> (\<open>risk/\<close>), \<open>Proposals\<close> (\<open>proposals/overload.py\<close>), \<open>Replan\<close> (\<open>replanning/\<close>),
    \<open>Canonical\<close> (\<open>contracts/input.py\<close>, \<open>normalization/canonical.py\<close>: the input as JSON and its
    hash), \<open>Validation\<close> (\<open>normalization/validate.py\<close>), \<open>Today\<close> (\<open>today.py\<close>) and \<open>Planner\<close>
    (\<open>planner.py\<close>): the whole of \<open>plan\<close>, that it never raises on stored snapshots and that
    what it returns is sound.
  \<^item> The application services over their tables: \<open>Python_Text\<close> (texts, \<open>repr\<close>, \<open>UUID(text)\<close>),
    \<open>Api_Base\<close> (errors, rows, and the interface \<open>row_table\<close> of a table with a primary key),
    \<open>Versioned_Rows\<close> (\<open>shared/concurrency.py\<close>, the interface \<open>versioned_rows\<close>),
    \<open>Proposal_Service\<close> (\<open>approvals/service.py\<close>), \<open>Workspace_Service\<close> (\<open>workspaces/service.py\<close>
    and the task update of \<open>planning/router.py\<close>), \<open>Outbox\<close> (\<open>execution/\<close> and the worker's
    \<open>outbox_worker.py\<close>), \<open>Service_Limits\<close> (\<open>security/rate_limit.py\<close>, \<open>calendar/retry.py\<close>,
    \<open>calendar/recurrence.py\<close>), \<open>Uploads\<close> (\<open>security/uploads.py\<close>).
  \<^item> Planning as a service: \<open>Plan_Blocks\<close> (which stored blocks a plan is made of), \<open>Iso_Text\<close>
    (reading ISO datetimes back), \<open>Metrics\<close> (\<open>telemetry/metrics.py\<close>) and \<open>Planning_Service\<close>
    (\<open>planning/service.py\<close>, \<open>models.py\<close>, \<open>repository.py\<close>): rows to planner input, the run, the
    stored core and its way back as the prior plan, the history of snapshots, and what two runs
    in a row keep of a pinned block.
  \<^item> The inbox: \<open>Intake\<close> (\<open>inbox/evidence.py\<close>, \<open>registration_policy.py\<close>) and \<open>Inbox\<close>
    (\<open>inbox/models.py\<close>, \<open>service.py\<close>, the job of \<open>files/jobs.py\<close>, \<open>shared/idempotency.py\<close>): the
    evidence that registers a fact, and the life of an item under repeated and crashing jobs.
  \<^item> The calendar: \<open>Calendar_Connections\<close> (\<open>calendar/oauth.py\<close>, \<open>token_vault.py\<close>,
    \<open>connections.py\<close>, \<open>router.py\<close>), \<open>Calendar_Sync\<close> (\<open>sync.py\<close>, \<open>models.py\<close>), \<open>Focus_Blocks\<close>
    (\<open>focus_blocks.py\<close>, over the tables of \<open>Proposal_Service\<close> and \<open>Outbox\<close>), and in the worker
    \<open>Once_Stores\<close> (\<open>notifications/\<close>, \<open>calendar/sync_jobs.py\<close>, \<open>files/pipeline.py\<close>: the interface
    \<open>once_store\<close> and its users), \<open>Sync_Scheduler\<close> (\<open>scheduler.py\<close>) and \<open>Calendar_Executor\<close>
    (\<open>executor.py\<close>, \<open>repository.py\<close>). The last two are coroutines that wait for a provider: each
    is a machine whose events are calls and replies, so that every interleaving is a history.
  \<^item> \<open>Work_Sessions\<close> (\<open>analytics/service.py\<close>): sessions, the accounting of minutes, and the
    blended estimation factor in double precision.
  \<^item> \<open>Identity\<close> (\<open>identity/session.py\<close>, \<open>service.py\<close>, \<open>repository.py\<close>, \<open>router.py\<close>): bearer sessions
    with hashed tokens, over \<open>Utf8_Text\<close> (UTF-8 and its decoding). \<open>Agent\<close> (\<open>agent/\<close>): intents, the
    orchestrator, the log of operation steps and its replay stream. The agent's texts are Korean:
    lists of code points there.
  \<^item> \<open>Views\<close> (\<open>views/queries.py\<close>, \<open>schemas.py\<close>, \<open>router.py\<close>): the six read views as functions of the
    tables, what they keep apart between workspaces, and how they agree with each other and with the
    stored plan. \<open>Source_Uploads\<close> (\<open>inbox/router.py\<close>, \<open>inbox/schemas.py\<close>): the uploads over HTTP, with
    the failures of the storage and of the commit as parameters of a call. \<open>Llm\<close> (the worker's \<open>llm/\<close>
    and \<open>briefings/\<close>): prompts, the gateway with its single repair, the intake and decomposition
    adapters and the briefings, on code points.
  \<^item> \<open>Http_Edge\<close> (\<open>main.py\<close>, \<open>telemetry/\<close>, \<open>analytics/router.py\<close>): the two middlewares around an
    arbitrary application, over the counters of \<open>Service_Limits\<close> and the registry of \<open>Metrics\<close>.
    \<open>App_Settings\<close> (\<open>settings.py\<close>): what a process refuses to start with. \<open>Agent_Context\<close>
    (\<open>agent/context.py\<close>): the agent's prompt. \<open>Release_Gate\<close> (\<open>scripts/verify_release.py\<close>,
    \<open>analytics/pilot.py\<close>): the release decision from its evidence files, over \<open>Iso_Date\<close> (reading
    dates). \<open>Api_Routes\<close> (\<open>planning/router.py\<close>, \<open>approvals/router.py\<close>, \<open>shared/errors.py\<close>): what a
    client sees of the services, errors included. \<open>Object_Storage\<close> (\<open>storage.py\<close>): the bucket and its
    operations over any S3 client. \<open>Authorization_Url\<close> (\<open>calendar/oauth.py\<close>): the URL with its
    challenge, and that its query is read back as it was meant.

  \<^bold>\<open>Correspondence.\<close> A dataclass is a record whose fields carry a two-letter prefix, its
  \<open>__post_init__\<close> is the function \<open>mk_\<dots>\<close>, an enum is a datatype, a raised exception is
  \<open>Inl\<close>. A frozenset or set is a list read as a set. A generator or loop is a recursive
  function whose termination is proved; the only loop that can run forever in the code, the
  cutting of a window with a non-positive slot length, has the explicit result \<open>Diverges\<close>.
  No fuel is used.

  \<^bold>\<open>Parameters.\<close> \<open>tz\<close> is the tz database (\<open>zoneinfo\<close>), \<open>uuid5\<close> is \<open>uuid5(NAMESPACE_URL, _)\<close>.
  \<open>aw\<close> is \<open>require_aware_utc\<close> or the identity on instants that are known to be aware. \<open>sha256\<close>
  is the hash as a function of the bytes, \<open>shared\<close> says which allocations carry the very
  \<open>TaskId\<close> object of the snapshot (for \<open>is\<close>), \<open>iter\<close> is the iteration order of a set, \<open>now\<close>
  the clock during a service call, \<open>aid\<close> and \<open>new_id\<close> are results of \<open>uuid4()\<close>, \<open>parse\<close> is
  \<open>UUID(text)\<close> (\<open>py_uuid\<close> computes it; the theorems hold for every parser), and a provider is a
  function from its state and a command to a reply and its next state. In \<open>Views\<close>, \<open>collate\<close> is the
  position of a text in the collation of the database; rows that are ordered by their creation are in
  table order. In \<open>Llm\<close>, \<open>loads\<close> and \<open>to_text\<close> are the JSON reader and writer, \<open>casing\<close> is
  \<open>str.lower\<close> and \<open>ask\<close> is the provider. In \<open>Calendar_Connections\<close>
  the cipher, the hash, the nonces and the provider's HTTP replies are parameters (\<open>environment\<close>,
  \<open>exchange\<close>); the theorems on them suppose that decryption inverts encryption. In
  \<open>Calendar_Executor\<close> a provider that honours idempotency keys is the hypothesis
  \<open>provider_honours\<close>.

  \<^bold>\<open>Assumptions.\<close> Instants are unbounded integers, so \<open>OverflowError\<close> of \<open>datetime\<close> is not
  modelled. The planner input's \<open>now_utc\<close>, \<open>horizon_end_utc\<close> and the prior allocations are taken
  to be in UTC, as their producers make them (the constructor only checks that they are
  aware). Texts range over U+0000 to U+00FF. One service call is one step on its tables: it
  locks its rows or checks their version in the update, and commits all or nothing; several
  readings of the clock in one call are equal. \<open>duration_field\<close>, a field name in the code, is the selector itself. \<open>replan\<close> builds
  the risk context once; the code builds the same pure value twice.

  \<^bold>\<open>Not modelled.\<close> HTTP routing, the S3 client library and the table migrations of the API, the
  polling loop of the worker's process, the web client and the scripts that run test suites, start
  containers or search files for markers: input and output around the modelled services. The Redis
  rate limiter is modelled as one request and its reply; the edge uses the counters of one process.
\<close>

end
